(* ===== verification/Prelude.thy ===== *)
theory Prelude
  imports Main "HOL-Library.Sublist" "HOL-Library.List_Lexorder" "HOL-Library.Char_ord"
begin

text \<open>
  What the components share: the proof collections, the string operations of Rust's
  standard library that the sources use (on ASCII text, a \<^typ>\<open>string\<close> being its bytes),
  decimal rendering of integers, sorting with removal of duplicates, fallible results, and
  the ordered map and the tagged enumeration as interfaces (locales) with the standard
  library's \<^verbatim>\<open>BTreeMap\<close> as the model of the first.
\<close>

named_theorems store_simps "unfolding of the ledger's queries and guarded updates"
named_theorems op_defs "definitions of the ledger's operations"
named_theorems inv_intros "preservation of the ledger's invariants"

subsection \<open>Results\<close>

text \<open>
  A Rust \<^verbatim>\<open>Result\<close> is a sum, \<^term>\<open>Inl\<close> the error. An operation on the ledger runs in
  one SQLite transaction: it returns its value with the committed store, and an error
  stands for the rolled-back transaction, so it carries no store.
\<close>

definition and_then :: "'e + 'a \<Rightarrow> ('a \<Rightarrow> 'e + 'b) \<Rightarrow> 'e + 'b" where
  "and_then r f = (case r of Inl e \<Rightarrow> Inl e | Inr x \<Rightarrow> f x)"

lemma and_then_simps [simp]:
  "and_then (Inl e) f = Inl e"
  "and_then (Inr x) f = f x"
  by (simp_all add: and_then_def)

lemma and_then_Inr: "and_then r f = Inr y \<longleftrightarrow> (\<exists>x. r = Inr x \<and> f x = Inr y)"
  by (cases r) auto

text \<open>\<^verbatim>\<open>for x in xs { f(x)?; }\<close> over a state.\<close>

fun try_fold :: "('s \<Rightarrow> 'a \<Rightarrow> 'e + 's) \<Rightarrow> 's \<Rightarrow> 'a list \<Rightarrow> 'e + 's" where
  "try_fold f s [] = Inr s"
| "try_fold f s (x # xs) = and_then (f s x) (\<lambda>s'. try_fold f s' xs)"

lemma try_fold_invariant:
  assumes "\<And>s x s'. P s \<Longrightarrow> f s x = Inr s' \<Longrightarrow> P s'"
    and "P s" and "try_fold f s xs = Inr s'"
  shows "P s'"
  using assms(2,3)
proof (induction xs arbitrary: s)
  case Nil
  then show ?case by simp
next
  case (Cons x xs)
  then obtain s1 where "f s x = Inr s1" "try_fold f s1 xs = Inr s'"
    by (auto simp: and_then_Inr)
  with Cons.IH Cons.prems(1) assms(1) show ?case by blast
qed

text \<open>A loop that pushes onto its accumulator yields the concatenation of what each step adds.\<close>

lemma try_fold_collect:
  assumes "\<And>acc x acc'. f acc x = Inr acc' \<Longrightarrow> \<exists>ys. acc' = acc @ ys \<and> P x ys"
    and "try_fold f acc xs = Inr r"
  shows "\<exists>yss. list_all2 P xs yss \<and> r = acc @ concat yss"
  using assms(2)
proof (induction xs arbitrary: acc)
  case Nil
  then show ?case by simp
next
  case (Cons x xs)
  then obtain acc1 where 1: "f acc x = Inr acc1" "try_fold f acc1 xs = Inr r"
    by (auto simp: and_then_Inr)
  obtain ys where ys: "acc1 = acc @ ys" "P x ys" using assms(1) [OF 1(1)] by blast
  obtain yss where "list_all2 P xs yss" "r = acc1 @ concat yss"
    using Cons.IH [OF 1(2)] by blast
  with ys show ?case by (intro exI [of _ "ys # yss"]) simp
qed

lemma list_all2_concat_set:
  assumes "list_all2 P xs yss" and "\<And>x ys. x \<in> set xs \<Longrightarrow> P x ys \<Longrightarrow> set ys = S x"
  shows "set (concat yss) = (\<Union>x \<in> set xs. S x)"
  using assms
proof (induction rule: list_all2_induct)
  case (Cons x xs ys yss)
  have "set ys = S x" using Cons.prems [of x ys] Cons.hyps(1) by simp
  with Cons.IH Cons.prems show ?case by simp
qed simp

subsection \<open>Strings\<close>

text \<open>
  \<^verbatim>\<open>char::is_whitespace\<close> on ASCII: tab, line feed, vertical tab, form feed, carriage
  return and space.
\<close>

definition is_whitespace :: "char \<Rightarrow> bool" where
  "is_whitespace c \<longleftrightarrow> c \<in> {CHR 0x09, CHR 0x0A, CHR 0x0B, CHR 0x0C, CHR 0x0D, CHR 0x20}"

definition trim :: "string \<Rightarrow> string" where
  "trim s = rev (dropWhile is_whitespace (rev (dropWhile is_whitespace s)))"

definition blank :: "string \<Rightarrow> bool" where
  "blank s \<longleftrightarrow> trim s = []"

lemma dropWhile_rev_Nil: "dropWhile P (rev (dropWhile P s)) = [] \<longleftrightarrow> (\<forall>c \<in> set s. P c)"
  by (induction s) auto

lemma blank_iff: "blank s \<longleftrightarrow> (\<forall>c \<in> set s. is_whitespace c)"
  using dropWhile_rev_Nil [of is_whitespace s] by (simp add: blank_def trim_def)

lemma blank_Nil [simp]: "blank []"
  by (simp add: blank_iff)

lemma trim_Nil [simp]: "trim [] = []"
  by (simp add: trim_def)

lemma dropWhile_prefix_idem:
  "P (hd xs) = False \<Longrightarrow> dropWhile P xs = xs"
  by (cases xs) auto

lemma trim_idem [simp]: "trim (trim s) = trim s"
proof (cases "trim s = []")
  case True
  then show ?thesis by simp
next
  case False
  define u where "u = dropWhile is_whitespace s"
  have t: "trim s = rev (dropWhile is_whitespace (rev u))"
    by (simp add: trim_def u_def)
  obtain v where v: "rev u = v @ dropWhile is_whitespace (rev u)"
    by (metis takeWhile_dropWhile_id)
  then have uv: "u = trim s @ rev v"
    by (metis rev_append rev_rev_ident t)
  have "u \<noteq> []" using False uv by auto
  then have "\<not> is_whitespace (hd u)"
    unfolding u_def by (rule hd_dropWhile)
  with False uv have h: "\<not> is_whitespace (hd (trim s))" by simp
  have "dropWhile is_whitespace (rev u) \<noteq> []" using False t by simp
  then have l: "\<not> is_whitespace (hd (rev (trim s)))"
    using t hd_dropWhile by (metis rev_rev_ident)
  show ?thesis
    by (simp add: trim_def [of "trim s"] dropWhile_prefix_idem h l)
qed

lemma blank_trim [simp]: "blank (trim s) \<longleftrightarrow> blank s"
  by (simp add: blank_def)

text \<open>\<^verbatim>\<open>str::starts_with\<close>, \<^verbatim>\<open>strip_prefix\<close>, \<^verbatim>\<open>strip_suffix\<close>, \<^verbatim>\<open>split_once\<close>.\<close>

definition starts_with :: "string \<Rightarrow> string \<Rightarrow> bool" where
  "starts_with s p \<longleftrightarrow> prefix p s"

definition strip_prefix :: "string \<Rightarrow> string \<Rightarrow> string option" where
  "strip_prefix p s = (if prefix p s then Some (drop (length p) s) else None)"

definition strip_suffix :: "string \<Rightarrow> string \<Rightarrow> string option" where
  "strip_suffix p s = (if suffix p s then Some (take (length s - length p) s) else None)"

fun split_once :: "char \<Rightarrow> string \<Rightarrow> (string \<times> string) option" where
  "split_once c [] = None"
| "split_once c (x # xs) =
     (if x = c then Some ([], xs)
      else map_option (\<lambda>(a, b). (x # a, b)) (split_once c xs))"

lemma strip_prefix_Some: "strip_prefix p s = Some r \<longleftrightarrow> s = p @ r"
  by (auto simp: strip_prefix_def prefix_def)

lemma strip_suffix_Some: "strip_suffix p s = Some r \<longleftrightarrow> s = r @ p"
  by (auto simp: strip_suffix_def suffix_def)

lemma split_once_Some:
  "split_once c s = Some (a, b) \<Longrightarrow> s = a @ c # b \<and> c \<notin> set a"
  by (induction s arbitrary: a) (auto split: if_splits)

lemma split_once_None: "split_once c s = None \<longleftrightarrow> c \<notin> set s"
  by (induction s) auto

text \<open>The ASCII classes of \<^verbatim>\<open>char\<close>.\<close>

definition ascii_lower :: "char \<Rightarrow> char" where
  "ascii_lower c = (let n = (of_char c :: nat) in if 65 \<le> n \<and> n \<le> 90 then char_of (n + 32) else c)"

definition is_ascii_uppercase :: "char \<Rightarrow> bool" where
  "is_ascii_uppercase c \<longleftrightarrow> (let n = (of_char c :: nat) in 65 \<le> n \<and> n \<le> 90)"

definition is_ascii_alphanumeric :: "char \<Rightarrow> bool" where
  "is_ascii_alphanumeric c \<longleftrightarrow>
     (let n = (of_char c :: nat) in 48 \<le> n \<and> n \<le> 57 \<or> 65 \<le> n \<and> n \<le> 90 \<or> 97 \<le> n \<and> n \<le> 122)"

definition is_ascii_hexdigit :: "char \<Rightarrow> bool" where
  "is_ascii_hexdigit c \<longleftrightarrow>
     (let n = (of_char c :: nat) in 48 \<le> n \<and> n \<le> 57 \<or> 65 \<le> n \<and> n \<le> 70 \<or> 97 \<le> n \<and> n \<le> 102)"

subsection \<open>Decimal rendering\<close>

definition digit_char :: "nat \<Rightarrow> char" where
  "digit_char d = char_of (48 + d)"

fun show_nat :: "nat \<Rightarrow> string" where
  "show_nat n = (if n < 10 then [digit_char n] else show_nat (n div 10) @ [digit_char (n mod 10)])"

declare show_nat.simps [simp del]

definition show_int :: "int \<Rightarrow> string" where
  "show_int i = (if i < 0 then CHR ''-'' # show_nat (nat (- i)) else show_nat (nat i))"

definition read_nat :: "string \<Rightarrow> nat" where
  "read_nat s = foldl (\<lambda>a c. 10 * a + (of_char c - 48)) 0 s"

lemma of_char_digit: "d < 10 \<Longrightarrow> (of_char (digit_char d) :: nat) = 48 + d"
  by (simp add: digit_char_def)

lemma read_show_nat: "read_nat (show_nat n) = n"
proof (induction n rule: show_nat.induct)
  case (1 n)
  show ?case
  proof (cases "n < 10")
    case True
    then show ?thesis
      by (subst show_nat.simps) (simp add: read_nat_def of_char_digit)
  next
    case False
    with 1 have "read_nat (show_nat (n div 10)) = n div 10" by simp
    with False show ?thesis
      by (subst show_nat.simps) (simp add: read_nat_def of_char_digit)
  qed
qed

lemma show_nat_inj [simp]: "show_nat m = show_nat n \<longleftrightarrow> m = n"
  by (metis read_show_nat)

subsection \<open>Sorting and removal of duplicates\<close>

text \<open>The first row of an ordered query.\<close>

lemma sort_key_hd_min:
  assumes "sort_key f xs = y # ys"
  shows "y \<in> set xs" and "\<forall>x \<in> set xs. f y \<le> f x"
proof -
  have s: "set xs = insert y (set ys)" using assms by (metis list.simps(15) set_sort)
  then show "y \<in> set xs" by simp
  have "sorted (map f (y # ys))" using assms by (metis sorted_sort_key)
  with s show "\<forall>x \<in> set xs. f y \<le> f x" by auto
qed

text \<open>\<^verbatim>\<open>v.sort(); v.dedup();\<close>\<close>

definition sort_dedup :: "'a::linorder list \<Rightarrow> 'a list" where
  "sort_dedup xs = remdups_adj (sort xs)"

lemma set_sort_dedup [simp]: "set (sort_dedup xs) = set xs"
  by (simp add: sort_dedup_def)

lemma sorted_sort_dedup [simp]: "sorted (sort_dedup xs)"
  by (simp add: sort_dedup_def sorted_remdups_adj)

lemma sorted_remdups_adj_distinct: "sorted xs \<Longrightarrow> distinct (remdups_adj xs)"
proof (induction xs rule: remdups_adj.induct)
  case (3 x y xs)
  then show ?case
    by (cases "x = y") (auto simp: order.antisym)
qed auto

lemma distinct_sort_dedup [simp]: "distinct (sort_dedup xs)"
  by (simp add: sort_dedup_def sorted_remdups_adj_distinct)

lemma sort_dedup_eq_Nil [simp]: "sort_dedup xs = [] \<longleftrightarrow> xs = []"
  by (metis set_empty set_sort_dedup)

lemma sort_dedup_cong: "set xs = set ys \<Longrightarrow> sort_dedup xs = sort_dedup ys"
  by (rule sorted_distinct_set_unique) simp_all

subsection \<open>Reachability\<close>

text \<open>Lookups by key in a table.\<close>

lemma find_distinct_Some:
  "distinct (map f xs) \<Longrightarrow> find (\<lambda>x. f x = a) xs = Some x \<longleftrightarrow> x \<in> set xs \<and> f x = a"
  by (induction xs) auto

lemma find_SomeD: "find P xs = Some x \<Longrightarrow> x \<in> set xs \<and> P x"
  by (induction xs) (auto split: if_splits)

lemma find_append_None: "find P xs = None \<Longrightarrow> find P (xs @ [x]) = (if P x then Some x else None)"
  by (induction xs) (auto split: if_splits)

lemma find_map_key: "(\<And>x. key (f x) = key x) \<Longrightarrow> find (\<lambda>x. key x = i) (map f xs) = map_option f (find (\<lambda>x. key x = i) xs)"
  by (induction xs) auto

lemma map_filter_set: "y \<in> set (List.map_filter f xs) \<longleftrightarrow> (\<exists>x \<in> set xs. f x = Some y)"
  by (force simp: List.map_filter_def)

text \<open>A set between a seed and what the seed reaches, and closed under steps, is all it reaches.\<close>

lemma reach_closed:
  assumes "S \<subseteq> R" and "R \<subseteq> r\<^sup>* `` S" and "r `` R \<subseteq> R"
  shows "R = r\<^sup>* `` S"
proof
  show "r\<^sup>* `` S \<subseteq> R"
  proof
    fix y
    assume "y \<in> r\<^sup>* `` S"
    then obtain x where "x \<in> S" "(x, y) \<in> r\<^sup>*" by blast
    from this(2,1) show "y \<in> R"
      using assms(1,3) by (induction rule: rtrancl_induct) auto
  qed
qed (rule assms)

subsection \<open>Ordered maps\<close>

text \<open>
  The part of \<^verbatim>\<open>BTreeMap\<close> the sources use: insertion, which replaces the value of a key
  that is there, and iteration in key order. \<open>entries\<close> is what iteration yields.
\<close>

locale ordered_map =
  fixes empty :: "'m"
    and ins :: "'k::linorder \<Rightarrow> 'v \<Rightarrow> 'm \<Rightarrow> 'm"
    and entries :: "'m \<Rightarrow> ('k \<times> 'v) list"
    and invar :: "'m \<Rightarrow> bool"
  assumes empty_entries: "entries empty = []"
    and invar_empty: "invar empty"
    and invar_ins: "invar m \<Longrightarrow> invar (ins k v m)"
    and ins_lookup: "invar m \<Longrightarrow> map_of (entries (ins k v m)) = (map_of (entries m))(k \<mapsto> v)"
    and entries_sorted: "invar m \<Longrightarrow> sorted (map fst (entries m))"
    and entries_distinct: "invar m \<Longrightarrow> distinct (map fst (entries m))"
begin

definition fill :: "('k \<times> 'v) list \<Rightarrow> 'm" where
  "fill ps = foldl (\<lambda>m p. ins (fst p) (snd p) m) empty ps"

lemma foldl_ins_invar:
  "invar m \<Longrightarrow> invar (foldl (\<lambda>m p. ins (fst p) (snd p) m) m ps)"
  by (induction ps arbitrary: m) (auto simp: invar_ins)

lemma foldl_ins_lookup:
  "invar m \<Longrightarrow>
     map_of (entries (foldl (\<lambda>m p. ins (fst p) (snd p) m) m ps)) =
       map_of (entries m) ++ map_of (rev ps)"
proof (induction ps arbitrary: m)
  case Nil
  then show ?case by simp
next
  case (Cons p ps)
  then show ?case
    by (simp add: invar_ins ins_lookup fun_eq_iff map_add_def split: option.splits)
qed

lemma fill_invar: "invar (fill ps)"
  by (simp add: fill_def foldl_ins_invar invar_empty)

lemma fill_lookup: "map_of (entries (fill ps)) = map_of (rev ps)"
  by (simp add: fill_def foldl_ins_lookup invar_empty empty_entries)

lemma values_of_table:
  assumes inv: "invar m" and dist: "distinct (map f xs)"
    and eq: "map_of (entries m) = map_of (map (\<lambda>x. (f x, x)) xs)"
  shows "map snd (entries m) = sort_key f xs"
proof -
  let ?ys = "map (\<lambda>x. (f x, x)) (sort_key f xs)"
  have d: "distinct (map fst ?ys)"
    using dist by (simp add: comp_def distinct_map)
  have "set (entries m) = set ?ys"
  proof -
    have "set (entries m) = {(k, v). map_of (entries m) k = Some v}"
      using entries_distinct [OF inv] by auto
    also have "\<dots> = {(k, v). map_of (map (\<lambda>x. (f x, x)) xs) k = Some v}"
      by (simp add: eq)
    also have "\<dots> = set (map (\<lambda>x. (f x, x)) xs)"
      using dist by (subst set_map_of_compr) (simp_all add: comp_def)
    finally show ?thesis by simp
  qed
  moreover have "inj_on fst (set (entries m) \<union> set ?ys)"
    using calculation dist by (auto simp: distinct_map inj_on_def)
  ultimately have "entries m = ?ys"
    by (intro map_sorted_distinct_set_unique [where f = fst])
      (use entries_sorted [OF inv] entries_distinct [OF inv] d in \<open>simp_all add: comp_def\<close>)
  then show ?thesis by (simp add: comp_def)
qed

end

text \<open>The model of \<^verbatim>\<open>BTreeMap\<close>: an association list with strictly increasing keys.\<close>

fun bt_insert :: "'k::linorder \<Rightarrow> 'v \<Rightarrow> ('k \<times> 'v) list \<Rightarrow> ('k \<times> 'v) list" where
  "bt_insert k v [] = [(k, v)]"
| "bt_insert k v (e # m) =
     (if fst e < k then e # bt_insert k v m
      else if fst e = k then (k, v) # m
      else (k, v) # e # m)"

definition bt_ok :: "('k::linorder \<times> 'v) list \<Rightarrow> bool" where
  "bt_ok m \<longleftrightarrow> sorted_wrt (<) (map fst m)"

lemma set_bt_insert_keys: "fst ` set (bt_insert k v m) = insert k (fst ` set m)"
  by (induction m) auto

lemma bt_ok_insert: "bt_ok m \<Longrightarrow> bt_ok (bt_insert k v m)"
proof (induction m)
  case Nil
  then show ?case by (simp add: bt_ok_def)
next
  case (Cons e m)
  then show ?case
    using set_bt_insert_keys [of k v m]
    by (auto simp: bt_ok_def image_iff set_eq_iff; metis less_trans linorder_neqE fst_conv)
qed

lemma map_of_bt_insert: "bt_ok m \<Longrightarrow> map_of (bt_insert k v m) = (map_of m)(k \<mapsto> v)"
proof (induction m)
  case Nil
  then show ?case by simp
next
  case (Cons e m)
  then show ?case by (cases e) (auto simp: bt_ok_def fun_eq_iff)
qed

interpretation btree: ordered_map "[]" bt_insert "\<lambda>m. m" bt_ok
proof unfold_locales
  fix m :: "('a \<times> 'b) list"
  assume "bt_ok m"
  then show "sorted (map fst m)" and "distinct (map fst m)"
    by (simp_all add: bt_ok_def strict_sorted_iff)
qed (simp_all add: bt_ok_insert map_of_bt_insert, simp add: bt_ok_def)

subsection \<open>Tagged enumerations\<close>

text \<open>
  The enumerations that are stored as text have a printer \<^verbatim>\<open>as_str\<close> and a reader
  \<^verbatim>\<open>from_tag\<close>. Their contract: the reader inverts the printer and accepts nothing else.
\<close>

locale tagged_enum =
  fixes as_str :: "'a \<Rightarrow> string" and from_tag :: "string \<Rightarrow> 'a option"
  assumes from_as: "from_tag (as_str x) = Some x"
    and as_from: "from_tag t = Some x \<Longrightarrow> as_str x = t"
begin

lemma tag_iff: "from_tag t = Some x \<longleftrightarrow> t = as_str x"
  using as_from from_as by blast

lemma tag_inj: "as_str x = as_str y \<longleftrightarrow> x = y"
  by (metis from_as option.inject)

lemma tag_None: "from_tag t = None \<longleftrightarrow> t \<notin> range as_str"
  by (auto simp: from_as) (metis as_from not_Some_eq rangeI)

end

end
