(* ===== verification/Lodestar_Model.thy ===== *)
theory Lodestar_Model
  imports Complex_Main Prelude
begin

text \<open>
  The data of the Intent Plane, from \<^verbatim>\<open>crates/lodestar-core/src/model/\<close> and
  \<^verbatim>\<open>error.rs\<close>: the stored enumerations with their tags, tasks and their lifecycle
  events, evidence windows, the dialogue thread, constitutional clauses, evidence bundles and
  conformance records. Every enumeration that is written to the database as text is shown
  to satisfy the contract \<open>tagged_enum\<close>. Timestamps are Unix seconds (\<^verbatim>\<open>i64\<close>),
  modelled as \<^typ>\<open>int\<close>; the caller supplies every \<open>now\<close>.
\<close>

subsection \<open>Task lifecycle: status and events\<close>

datatype task_status = Open | Claimed | NeedsInput | Paused | InReview | Done | Blocked | Abandoned

fun task_status_as_str :: "task_status \<Rightarrow> string" where
  "task_status_as_str Open = ''open''"
| "task_status_as_str Claimed = ''claimed''"
| "task_status_as_str NeedsInput = ''needs_input''"
| "task_status_as_str Paused = ''paused''"
| "task_status_as_str InReview = ''in_review''"
| "task_status_as_str Done = ''done''"
| "task_status_as_str Blocked = ''blocked''"
| "task_status_as_str Abandoned = ''abandoned''"

definition task_status_from_tag :: "string \<Rightarrow> task_status option" where
  "task_status_from_tag s =
     (if s = ''open'' then Some Open
      else if s = ''claimed'' then Some Claimed
      else if s = ''needs_input'' then Some NeedsInput
      else if s = ''paused'' then Some Paused
      else if s = ''in_review'' then Some InReview
      else if s = ''done'' then Some Done
      else if s = ''blocked'' then Some Blocked
      else if s = ''abandoned'' then Some Abandoned
      else None)"

interpretation status_tag: tagged_enum task_status_as_str task_status_from_tag
proof unfold_locales
  fix x :: task_status
  show "task_status_from_tag (task_status_as_str x) = Some x"
    by (cases x) (simp_all add: task_status_from_tag_def)
qed (auto simp: task_status_from_tag_def split: if_splits)

datatype task_event_kind =
    EvImported | EvCreated | EvClaimed | EvLeaseRenewed | EvReleased | EvBlocked | EvReopened
  | EvAbandoned | EvQuestioned | EvAnswered | EvPaused | EvResumed | EvClaimRecovered
  | EvCoverageDeclared | EvConformanceRecorded | EvResolved | EvClauseReconnected

fun event_kind_as_str :: "task_event_kind \<Rightarrow> string" where
  "event_kind_as_str EvImported = ''imported''"
| "event_kind_as_str EvCreated = ''created''"
| "event_kind_as_str EvClaimed = ''claimed''"
| "event_kind_as_str EvLeaseRenewed = ''lease_renewed''"
| "event_kind_as_str EvReleased = ''released''"
| "event_kind_as_str EvBlocked = ''blocked''"
| "event_kind_as_str EvReopened = ''reopened''"
| "event_kind_as_str EvAbandoned = ''abandoned''"
| "event_kind_as_str EvQuestioned = ''questioned''"
| "event_kind_as_str EvAnswered = ''answered''"
| "event_kind_as_str EvPaused = ''paused''"
| "event_kind_as_str EvResumed = ''resumed''"
| "event_kind_as_str EvClaimRecovered = ''claim_recovered''"
| "event_kind_as_str EvCoverageDeclared = ''coverage_declared''"
| "event_kind_as_str EvConformanceRecorded = ''conformance_recorded''"
| "event_kind_as_str EvResolved = ''resolved''"
| "event_kind_as_str EvClauseReconnected = ''clause_reconnected''"

definition event_kind_from_tag :: "string \<Rightarrow> task_event_kind option" where
  "event_kind_from_tag s =
     (if s = ''imported'' then Some EvImported
      else if s = ''created'' then Some EvCreated
      else if s = ''claimed'' then Some EvClaimed
      else if s = ''lease_renewed'' then Some EvLeaseRenewed
      else if s = ''released'' then Some EvReleased
      else if s = ''blocked'' then Some EvBlocked
      else if s = ''reopened'' then Some EvReopened
      else if s = ''abandoned'' then Some EvAbandoned
      else if s = ''questioned'' then Some EvQuestioned
      else if s = ''answered'' then Some EvAnswered
      else if s = ''paused'' then Some EvPaused
      else if s = ''resumed'' then Some EvResumed
      else if s = ''claim_recovered'' then Some EvClaimRecovered
      else if s = ''coverage_declared'' then Some EvCoverageDeclared
      else if s = ''conformance_recorded'' then Some EvConformanceRecorded
      else if s = ''resolved'' then Some EvResolved
      else if s = ''clause_reconnected'' then Some EvClauseReconnected
      else None)"

interpretation event_tag: tagged_enum event_kind_as_str event_kind_from_tag
proof unfold_locales
  fix x :: task_event_kind
  show "event_kind_from_tag (event_kind_as_str x) = Some x"
    by (cases x) (simp_all add: event_kind_from_tag_def)
qed (auto simp: event_kind_from_tag_def split: if_splits)

subsection \<open>JSON details\<close>

text \<open>
  The \<^verbatim>\<open>detail\<close> column of the log holds a JSON text or the empty text. It is written and
  read through \<^verbatim>\<open>serde_json\<close>, so the model keeps the JSON value; \<^term>\<open>None\<close> is the empty
  text, which does not parse and is read as \<^verbatim>\<open>Value::Null\<close>. A number is an integer or a
  finite float.
\<close>

datatype json = JNull | JBool bool | JInt int | JFloat real | JStr string | JArr "json list" | JObj "(string \<times> json) list"

fun json_get :: "string \<Rightarrow> json \<Rightarrow> json option" where
  "json_get k (JObj kvs) = map_of kvs k"
| "json_get k _ = None"

fun json_as_i64 :: "json \<Rightarrow> int option" where
  "json_as_i64 (JInt i) = Some i"
| "json_as_i64 _ = None"

fun json_as_str :: "json \<Rightarrow> string option" where
  "json_as_str (JStr s) = Some s"
| "json_as_str _ = None"

definition parse_detail :: "json option \<Rightarrow> json" where
  "parse_detail d = (case d of None \<Rightarrow> JNull | Some j \<Rightarrow> j)"

definition detail_i64 :: "string \<Rightarrow> json \<Rightarrow> int" where
  "detail_i64 k j =
     (case json_get k j of None \<Rightarrow> 0
      | Some v \<Rightarrow> (case json_as_i64 v of None \<Rightarrow> 0 | Some i \<Rightarrow> i))"

definition detail_text :: "string \<Rightarrow> json \<Rightarrow> string" where
  "detail_text k j =
     (case json_get k j of None \<Rightarrow> []
      | Some v \<Rightarrow> (case json_as_str v of None \<Rightarrow> [] | Some t \<Rightarrow> t))"

definition opt_str :: "string option \<Rightarrow> json" where
  "opt_str x = (case x of None \<Rightarrow> JNull | Some t \<Rightarrow> JStr t)"

subsection \<open>Tasks, events, windows\<close>

record task =
  t_id :: string
  t_goal_id :: string
  t_parent_task_id :: "string option"
  t_title :: string
  t_acceptance :: string
  t_status :: task_status
  t_owner :: "string option"
  t_claim_started_at :: "int option"
  t_lease_expires_at :: "int option"
  t_blocked_by :: "string option"
  t_branch :: "string option"
  t_parked_at :: "int option"
  t_resolved_by :: "string option"
  t_resolved_at :: "int option"
  t_resolved_conformance_id :: "int option"
  t_created_at :: int
  t_updated_at :: int

record task_event =
  e_seq :: int
  e_task_id :: string
  e_kind :: task_event_kind
  e_actor :: "string option"
  e_recorded_at :: int
  e_after :: task
  e_detail :: "json option"

record replaced_window =
  rw_owner :: "string option"
  rw_started_at :: "int option"
  rw_lapses :: int
  rw_unleased_seconds :: int
  rw_owner_changed :: bool

record claim_window =
  cw_started_at :: "int option"
  cw_lapses :: int
  cw_unleased_seconds :: int
  cw_replaced :: "replaced_window option"

definition is_continuous :: "claim_window \<Rightarrow> bool" where
  "is_continuous w \<longleftrightarrow> cw_lapses w = 0"

text \<open>Reading a stored row: an unknown status tag reads as open.\<close>

definition row_status :: "string \<Rightarrow> task_status" where
  "row_status tag = (case task_status_from_tag tag of None \<Rightarrow> Open | Some s \<Rightarrow> s)"

lemma row_status_as_str [simp]: "row_status (task_status_as_str s) = s"
  by (simp add: row_status_def status_tag.from_as)

subsection \<open>Scope declarations, dialogue\<close>

record task_scope =
  sc_paths :: "string list"
  sc_symbols :: "string list"

datatype qa_kind = Question | Answer | Note

record task_qa =
  q_id :: int
  q_task_id :: string
  q_kind :: qa_kind
  q_body :: string
  q_author :: string
  q_audience :: "string option"
  q_created_at :: int

record human_question =
  hq_question_id :: int
  hq_task_id :: string
  hq_task_title :: string
  hq_asked_by :: string
  hq_question :: string
  hq_asked_at :: int
  hq_waiting_seconds :: int

record wait =
  w_task_id :: string
  w_waiter :: string
  w_waited_on :: string
  w_asked_at :: int

subsection \<open>Constitution\<close>

datatype goal_kind = Objective | Constraint | Invariant | Principle

fun goal_kind_as_str :: "goal_kind \<Rightarrow> string" where
  "goal_kind_as_str Objective = ''objective''"
| "goal_kind_as_str Constraint = ''constraint''"
| "goal_kind_as_str Invariant = ''invariant''"
| "goal_kind_as_str Principle = ''principle''"

definition goal_kind_from_tag :: "string \<Rightarrow> goal_kind option" where
  "goal_kind_from_tag s =
     (if s = ''objective'' then Some Objective
      else if s = ''constraint'' then Some Constraint
      else if s = ''invariant'' then Some Invariant
      else if s = ''principle'' then Some Principle
      else None)"

interpretation goal_kind_tag: tagged_enum goal_kind_as_str goal_kind_from_tag
proof unfold_locales
  fix x :: goal_kind
  show "goal_kind_from_tag (goal_kind_as_str x) = Some x"
    by (cases x) (simp_all add: goal_kind_from_tag_def)
qed (auto simp: goal_kind_from_tag_def split: if_splits)

fun is_normative :: "goal_kind \<Rightarrow> bool" where
  "is_normative Constraint = True"
| "is_normative Invariant = True"
| "is_normative _ = False"

datatype consequence = Advise | Review | Block

fun consequence_as_str :: "consequence \<Rightarrow> string" where
  "consequence_as_str Advise = ''advise''"
| "consequence_as_str Review = ''review''"
| "consequence_as_str Block = ''block''"

definition consequence_from_tag :: "string \<Rightarrow> consequence option" where
  "consequence_from_tag s =
     (if s = ''advise'' then Some Advise
      else if s = ''review'' then Some Review
      else if s = ''block'' then Some Block
      else None)"

interpretation consequence_tag: tagged_enum consequence_as_str consequence_from_tag
proof unfold_locales
  fix x :: consequence
  show "consequence_from_tag (consequence_as_str x) = Some x"
    by (cases x) (simp_all add: consequence_from_tag_def)
qed (auto simp: consequence_from_tag_def split: if_splits)

text \<open>The derived order of \<^verbatim>\<open>Consequence\<close> is its severity, in declaration order.\<close>

fun severity :: "consequence \<Rightarrow> nat" where
  "severity Advise = 0"
| "severity Review = 1"
| "severity Block = 2"

instantiation consequence :: linorder
begin

definition less_eq_consequence :: "consequence \<Rightarrow> consequence \<Rightarrow> bool" where
  "less_eq_consequence a b \<longleftrightarrow> severity a \<le> severity b"

definition less_consequence :: "consequence \<Rightarrow> consequence \<Rightarrow> bool" where
  "less_consequence a b \<longleftrightarrow> severity a < severity b"

instance
proof
  fix a b :: consequence
  assume "a \<le> b" and "b \<le> a"
  then show "a = b"
    by (cases a; cases b) (simp_all add: less_eq_consequence_def)
qed (auto simp: less_eq_consequence_def less_consequence_def)

end

datatype clause_origin = OriginLocal | OriginPack | OriginDiscovered

fun origin_as_str :: "clause_origin \<Rightarrow> string" where
  "origin_as_str OriginLocal = ''local''"
| "origin_as_str OriginPack = ''pack''"
| "origin_as_str OriginDiscovered = ''discovered''"

definition origin_from_tag :: "string \<Rightarrow> clause_origin option" where
  "origin_from_tag s =
     (if s = ''local'' then Some OriginLocal
      else if s = ''pack'' then Some OriginPack
      else if s = ''discovered'' then Some OriginDiscovered
      else None)"

interpretation origin_tag: tagged_enum origin_as_str origin_from_tag
proof unfold_locales
  fix x :: clause_origin
  show "origin_from_tag (origin_as_str x) = Some x"
    by (cases x) (simp_all add: origin_from_tag_def)
qed (auto simp: origin_from_tag_def split: if_splits)

datatype goal_status = GoalDraft | GoalActive | GoalSuperseded

fun goal_status_as_str :: "goal_status \<Rightarrow> string" where
  "goal_status_as_str GoalDraft = ''draft''"
| "goal_status_as_str GoalActive = ''active''"
| "goal_status_as_str GoalSuperseded = ''superseded''"

definition goal_status_from_tag :: "string \<Rightarrow> goal_status option" where
  "goal_status_from_tag s =
     (if s = ''draft'' then Some GoalDraft
      else if s = ''active'' then Some GoalActive
      else if s = ''superseded'' then Some GoalSuperseded
      else None)"

interpretation goal_status_tag: tagged_enum goal_status_as_str goal_status_from_tag
proof unfold_locales
  fix x :: goal_status
  show "goal_status_from_tag (goal_status_as_str x) = Some x"
    by (cases x) (simp_all add: goal_status_from_tag_def)
qed (auto simp: goal_status_from_tag_def split: if_splits)

datatype binding_mode = Governed | ForbidChange

fun binding_mode_as_str :: "binding_mode \<Rightarrow> string" where
  "binding_mode_as_str Governed = ''governed''"
| "binding_mode_as_str ForbidChange = ''forbid_change''"

definition binding_mode_from_tag :: "string \<Rightarrow> binding_mode option" where
  "binding_mode_from_tag s =
     (if s = ''governed'' then Some Governed
      else if s = ''forbid_change'' then Some ForbidChange
      else None)"

interpretation binding_mode_tag: tagged_enum binding_mode_as_str binding_mode_from_tag
proof unfold_locales
  fix x :: binding_mode
  show "binding_mode_from_tag (binding_mode_as_str x) = Some x"
    by (cases x) (simp_all add: binding_mode_from_tag_def)
qed (auto simp: binding_mode_from_tag_def split: if_splits)

record goal =
  g_id :: string
  g_slug :: string
  g_kind :: goal_kind
  g_title :: string
  g_statement :: string
  g_status :: goal_status
  g_version :: int
  g_parent_id :: "string option"
  g_superseded_by :: "string option"
  g_reason :: "string option"
  g_created_at :: int
  g_constitution_version :: "string option"
  g_rationale :: "string option"
  g_scope :: "string option"
  g_evidence_contract :: "string option"
  g_consequence :: "consequence option"
  g_waivable :: bool
  g_waiver_authority :: "string option"
  g_origin :: clause_origin
  g_source_system :: "string option"
  g_external_id :: "string option"
  g_source_ref :: "string option"
  g_source_digest :: "string option"

definition is_enforceable :: "goal \<Rightarrow> bool" where
  "is_enforceable g \<longleftrightarrow>
     g_scope g \<noteq> None \<and> g_evidence_contract g \<noteq> None \<and> g_consequence g \<noteq> None"

record constitution_version =
  v_id :: string
  v_version :: int
  v_project_identity :: "string option"
  v_purpose :: "string option"
  v_preamble :: "string option"
  v_status :: goal_status
  v_created_by :: "string option"
  v_created_at :: int
  v_activated_by :: "string option"
  v_activated_at :: "int option"

record artifact_binding =
  ab_goal :: goal
  ab_mode :: binding_mode

subsection \<open>Conformance\<close>

datatype verdict = Aligned | Drift | Violation | NeedsHuman

fun verdict_as_str :: "verdict \<Rightarrow> string" where
  "verdict_as_str Aligned = ''aligned''"
| "verdict_as_str Drift = ''drift''"
| "verdict_as_str Violation = ''violation''"
| "verdict_as_str NeedsHuman = ''needs_human''"

definition verdict_from_tag :: "string \<Rightarrow> verdict option" where
  "verdict_from_tag s =
     (if s = ''aligned'' then Some Aligned
      else if s = ''drift'' then Some Drift
      else if s = ''violation'' then Some Violation
      else if s = ''needs_human'' then Some NeedsHuman
      else None)"

interpretation verdict_tag: tagged_enum verdict_as_str verdict_from_tag
proof unfold_locales
  fix x :: verdict
  show "verdict_from_tag (verdict_as_str x) = Some x"
    by (cases x) (simp_all add: verdict_from_tag_def)
qed (auto simp: verdict_from_tag_def split: if_splits)

record evidence_provenance =
  ep_source_id :: string
  ep_target_id :: string
  ep_relation :: string

record conformance_evidence =
  ev_schema_version :: nat
  ev_task_id :: "string option"
  ev_agent_id :: string
  ev_started_at :: int
  ev_ended_at :: int
  ev_changed_node_ids :: "string list"
  ev_failed_node_ids :: "string list"
  ev_execution_ids :: "string list"
  ev_successful_execution_ids :: "string list"
  ev_commit_ids :: "string list"
  ev_ledger_act_ids :: "string list"
  ev_summary :: string
  ev_provenance :: "evidence_provenance list"

record conformance_record =
  cr_id :: int
  cr_task_id :: "string option"
  cr_schema_version :: nat
  cr_evidence :: conformance_evidence
  cr_verdict :: verdict
  cr_findings :: string
  cr_findings_json :: "string list option"
  cr_checked_at :: int

text \<open>
  The store keeps the findings joined by \<^verbatim>\<open>"; "\<close> and, beside them, as a JSON array (absent
  in records older than that column); the evidence is JSON text, kept here as the bundle
  itself.
\<close>

end
