(* ===== verification/Session_Registry.thy ===== *)
theory Session_Registry
  imports Lodestar_Model
begin

text \<open>
  Request-scoped identity (\<^verbatim>\<open>crates/mindleak-session/src/lib.rs\<close>): the working context a client
  declares, its JSON form, the registry of session tokens, the agent identity derived from a
  token, and the test for an owner of the older identity scheme. SHA-256 is the crate \<^verbatim>\<open>sha2\<close>:
  the parameter \<open>sha\<close> gives the digest of a token as its bytes.
\<close>

subsection \<open>Declared context\<close>

record session_context =
  x_branch :: "string option"
  x_head_sha :: "string option"
  x_base :: "string option"
  x_dirty :: "bool option"
  x_behind :: "int option"

definition MAX_CONTEXT_FIELD_LEN :: nat where
  "MAX_CONTEXT_FIELD_LEN = 256"

datatype context_error =
    BlankField string
  | LongField string
  | NotAString string
  | NotABool string
  | NotACount string

definition declared_string :: "json \<Rightarrow> string \<Rightarrow> context_error + string option" where
  "declared_string arguments field =
     (case json_get field arguments of
        None \<Rightarrow> Inr None
      | Some JNull \<Rightarrow> Inr None
      | Some (JStr raw) \<Rightarrow>
          (let value = trim raw in
           if value = [] then Inl (BlankField field)
           else if MAX_CONTEXT_FIELD_LEN < length value then Inl (LongField field)
           else Inr (Some value))
      | Some _ \<Rightarrow> Inl (NotAString field))"

definition declared_dirty :: "json \<Rightarrow> context_error + bool option" where
  "declared_dirty arguments =
     (case json_get ''dirty'' arguments of
        None \<Rightarrow> Inr None
      | Some JNull \<Rightarrow> Inr None
      | Some (JBool flag) \<Rightarrow> Inr (Some flag)
      | Some _ \<Rightarrow> Inl (NotABool ''dirty''))"

definition declared_behind :: "json \<Rightarrow> context_error + int option" where
  "declared_behind arguments =
     (case json_get ''behind'' arguments of
        None \<Rightarrow> Inr None
      | Some JNull \<Rightarrow> Inr None
      | Some (JInt n) \<Rightarrow> if 0 \<le> n then Inr (Some n) else Inl (NotACount ''behind'')
      | Some _ \<Rightarrow> Inl (NotACount ''behind''))"

definition from_arguments :: "json \<Rightarrow> context_error + session_context" where
  "from_arguments arguments =
     and_then (declared_string arguments ''branch'') (\<lambda>branch.
     and_then (declared_string arguments ''head_sha'') (\<lambda>head_sha.
     and_then (declared_string arguments ''base'') (\<lambda>base.
     and_then (declared_dirty arguments) (\<lambda>dirty.
     and_then (declared_behind arguments) (\<lambda>behind.
       Inr \<lparr>x_branch = branch, x_head_sha = head_sha, x_base = base, x_dirty = dirty,
            x_behind = behind\<rparr>)))))"

definition is_declared :: "session_context \<Rightarrow> bool" where
  "is_declared c \<longleftrightarrow>
     x_branch c \<noteq> None \<or> x_head_sha c \<noteq> None \<or> x_base c \<noteq> None \<or> x_dirty c \<noteq> None \<or> x_behind c \<noteq> None"

definition field_json :: "string \<Rightarrow> ('a \<Rightarrow> json) \<Rightarrow> 'a option \<Rightarrow> (string \<times> json) list" where
  "field_json name f v = (case v of None \<Rightarrow> [] | Some x \<Rightarrow> [(name, f x)])"

definition declared_json :: "session_context \<Rightarrow> json option" where
  "declared_json c =
     (if \<not> is_declared c then None
      else Some (JObj (field_json ''branch'' JStr (x_branch c) @
                       field_json ''head_sha'' JStr (x_head_sha c) @
                       field_json ''base'' JStr (x_base c) @
                       field_json ''dirty'' JBool (x_dirty c) @
                       field_json ''behind'' JInt (x_behind c))))"

subsection \<open>Identity\<close>

definition TOKEN_HEX_LEN :: nat where
  "TOKEN_HEX_LEN = 32"

definition AGENT_DIGEST_BYTES :: nat where
  "AGENT_DIGEST_BYTES = 16"

record session_identity =
  si_agent_id :: string
  si_name :: string
  si_context :: session_context

record session_registry =
  sr_default_name :: string
  sr_registered :: "nat list \<rightharpoonup> session_context"

datatype session_error = BadName | BadToken | UnknownSession

definition registry_new :: "string \<Rightarrow> session_error + session_registry" where
  "registry_new name =
     (if trim name = [] \<or>
         \<not> (\<forall>c \<in> set (trim name). is_ascii_alphanumeric c \<or> c \<in> set ''._-'')
      then Inl BadName
      else Inr \<lparr>sr_default_name = trim name, sr_registered = Map.empty\<rparr>)"

definition token_digest :: "(string \<Rightarrow> nat list) \<Rightarrow> string \<Rightarrow> session_error + nat list" where
  "token_digest sha token =
     (if length token \<noteq> TOKEN_HEX_LEN \<or>
         \<not> (\<forall>c \<in> set token. is_ascii_hexdigit c \<and> \<not> is_ascii_uppercase c)
      then Inl BadToken
      else Inr (sha token))"

text \<open>\<^verbatim>\<open>{byte:02x}\<close>\<close>

definition hex_char :: "nat \<Rightarrow> char" where
  "hex_char n = char_of (if n < 10 then 48 + n else 87 + n)"

definition hex_byte :: "nat \<Rightarrow> string" where
  "hex_byte b = [hex_char (b div 16), hex_char (b mod 16)]"

definition identity_for :: "session_registry \<Rightarrow> nat list \<Rightarrow> session_context \<Rightarrow> session_identity" where
  "identity_for reg digest context =
     \<lparr>si_agent_id = ''session:v1:'' @ concat (map hex_byte (take AGENT_DIGEST_BYTES digest)),
      si_name = sr_default_name reg, si_context = context\<rparr>"

definition open_session ::
  "(string \<Rightarrow> nat list) \<Rightarrow> string \<Rightarrow> session_context \<Rightarrow> session_registry \<Rightarrow>
   session_error + (session_identity \<times> session_registry)" where
  "open_session sha token context reg =
     and_then (token_digest sha token) (\<lambda>digest.
       let stored = (case sr_registered reg digest of
                       Some existing \<Rightarrow> if \<not> is_declared context then existing else context
                     | None \<Rightarrow> context)
       in Inr (identity_for reg digest stored,
               reg\<lparr>sr_registered := (sr_registered reg)(digest \<mapsto> stored)\<rparr>))"

definition resolve_session ::
  "(string \<Rightarrow> nat list) \<Rightarrow> string \<Rightarrow> session_registry \<Rightarrow> session_error + session_identity" where
  "resolve_session sha token reg =
     and_then (token_digest sha token) (\<lambda>digest.
       case sr_registered reg digest of
         None \<Rightarrow> Inl UnknownSession
       | Some context \<Rightarrow> Inr (identity_for reg digest context))"

definition compatible_legacy_owner :: "string \<Rightarrow> string \<Rightarrow> string \<Rightarrow> bool" where
  "compatible_legacy_owner expected_owner target_agent name =
     (case strip_prefix ''session:v1:'' target_agent of
        None \<Rightarrow> False
      | Some fingerprint \<Rightarrow>
          if length fingerprint \<noteq> AGENT_DIGEST_BYTES * 2 \<or> \<not> (\<forall>c \<in> set fingerprint. is_ascii_hexdigit c)
          then False
          else if expected_owner = name then True
          else (case strip_prefix (name @ ''-'') expected_owner of
                  None \<Rightarrow> False
                | Some nonce \<Rightarrow> length nonce = 8 \<and> (\<forall>c \<in> set nonce. is_ascii_hexdigit c)))"

subsection \<open>What the registry promises\<close>

definition context_field_ok :: "string option \<Rightarrow> bool" where
  "context_field_ok v \<longleftrightarrow>
     (case v of None \<Rightarrow> True | Some x \<Rightarrow> x \<noteq> [] \<and> trim x = x \<and> length x \<le> MAX_CONTEXT_FIELD_LEN)"

definition context_ok :: "session_context \<Rightarrow> bool" where
  "context_ok c \<longleftrightarrow> context_field_ok (x_branch c) \<and> context_field_ok (x_head_sha c) \<and>
     context_field_ok (x_base c) \<and> (case x_behind c of None \<Rightarrow> True | Some n \<Rightarrow> 0 \<le> n)"

lemma field_json_get:
  "map_of (field_json k f v) j = (if j = k then map_option f v else None)"
  by (auto simp: field_json_def split: option.splits)

lemma declared_string_field:
  assumes "json_get field j = map_option JStr v" and "context_field_ok v"
  shows "declared_string j field = Inr v"
  using assms by (cases v) (auto simp: declared_string_def context_field_ok_def)

lemma declared_string_ok:
  assumes "declared_string j field = Inr v"
  shows "context_field_ok v"
proof (cases "json_get field j")
  case None
  then show ?thesis using assms by (simp add: declared_string_def context_field_ok_def)
next
  case (Some x)
  then show ?thesis
    using assms by (cases x) (auto simp: declared_string_def context_field_ok_def Let_def split: if_splits)
qed

text \<open>
  A declared context survives its JSON form. What the reader accepts is always a well-formed
  context (fields trimmed, not blank, at most 256 long, a count not negative), and every
  well-formed context that declares anything is read back unchanged from the JSON it prints.
\<close>

theorem context_roundtrip:
  "(from_arguments j = Inr c \<longrightarrow> context_ok c) \<and>
   (context_ok d \<and> declared_json d = Some k \<longrightarrow> from_arguments k = Inr d)"
proof (intro conjI impI)
  assume "from_arguments j = Inr c"
  then obtain b h s n where f: "declared_string j ''branch'' = Inr b" "declared_string j ''head_sha'' = Inr h"
      "declared_string j ''base'' = Inr s" "declared_behind j = Inr n"
      "x_branch c = b" "x_head_sha c = h" "x_base c = s" "x_behind c = n"
    by (auto simp: from_arguments_def and_then_Inr)
  have "case n of None \<Rightarrow> True | Some m \<Rightarrow> 0 \<le> m"
    using f(4) by (auto simp: declared_behind_def split: option.splits json.splits if_splits)
  with f show "context_ok c" by (auto simp: context_ok_def dest: declared_string_ok)
next
  assume a: "context_ok d \<and> declared_json d = Some k"
  then have k: "k = JObj (field_json ''branch'' JStr (x_branch d) @
      field_json ''head_sha'' JStr (x_head_sha d) @ field_json ''base'' JStr (x_base d) @
      field_json ''dirty'' JBool (x_dirty d) @ field_json ''behind'' JInt (x_behind d))"
    by (auto simp: declared_json_def split: if_splits)
  have g: "json_get ''branch'' k = map_option JStr (x_branch d)"
    "json_get ''head_sha'' k = map_option JStr (x_head_sha d)"
    "json_get ''base'' k = map_option JStr (x_base d)"
    "json_get ''dirty'' k = map_option JBool (x_dirty d)"
    "json_get ''behind'' k = map_option JInt (x_behind d)"
    by (simp_all add: k field_json_get map_add_def split: option.splits)
  have "declared_dirty k = Inr (x_dirty d)"
    unfolding declared_dirty_def g by (cases "x_dirty d") simp_all
  moreover have "declared_behind k = Inr (x_behind d)"
    unfolding declared_behind_def g using a by (cases "x_behind d") (simp_all add: context_ok_def)
  moreover have "declared_string k ''branch'' = Inr (x_branch d)"
      "declared_string k ''head_sha'' = Inr (x_head_sha d)" "declared_string k ''base'' = Inr (x_base d)"
    using a declared_string_field g by (auto simp: context_ok_def)
  ultimately show "from_arguments k = Inr d"
    by (simp add: from_arguments_def)
qed

theorem context_roundtrip_witness:
  "from_arguments (JObj [(''branch'', JStr ''main''), (''behind'', JInt 2)]) =
     Inr \<lparr>x_branch = Some ''main'', x_head_sha = None, x_base = None, x_dirty = None, x_behind = Some 2\<rparr>"
proof -
  let ?d = "\<lparr>x_branch = Some ''main'', x_head_sha = None, x_base = None, x_dirty = None, x_behind = Some 2\<rparr>"
  have "context_ok ?d" by code_simp
  moreover have "declared_json ?d = Some (JObj [(''branch'', JStr ''main''), (''behind'', JInt 2)])"
    by (simp add: declared_json_def is_declared_def field_json_def)
  ultimately show ?thesis using context_roundtrip by blast
qed

text \<open>
  Identity is a property of the token. Opening a session registers it so that it resolves to the
  same identity; its agent id is the same in every registry, whatever the process is called and
  whatever was declared; a call that declares nothing keeps the context on record, one that
  declares anything replaces it; other sessions keep theirs.
\<close>

theorem session_identity_stable:
  assumes "open_session sha token context reg = Inr (ident, reg')"
  shows "resolve_session sha token reg' = Inr ident \<and>
    (\<forall>other ctx i r. open_session sha token ctx other = Inr (i, r) \<longrightarrow> si_agent_id i = si_agent_id ident) \<and>
    si_context ident = (case sr_registered reg (sha token) of
        Some old \<Rightarrow> if is_declared context then context else old | None \<Rightarrow> context) \<and>
    (\<forall>d. d \<noteq> sha token \<longrightarrow> sr_registered reg' d = sr_registered reg d)"
proof -
  obtain digest where d: "token_digest sha token = Inr digest"
    using assms by (auto simp: open_session_def and_then_Inr)
  then have "digest = sha token" by (auto simp: token_digest_def split: if_splits)
  with d assms show ?thesis
    by (auto simp: open_session_def resolve_session_def identity_for_def Let_def split: option.splits)
qed

theorem session_identity_stable_witness:
  "\<exists>i r. open_session (\<lambda>_. replicate 32 7) (replicate 32 CHR ''a'')
     \<lparr>x_branch = Some ''main'', x_head_sha = None, x_base = None, x_dirty = None, x_behind = None\<rparr>
     \<lparr>sr_default_name = ''dev'', sr_registered = Map.empty\<rparr> = Inr (i, r) \<and>
     resolve_session (\<lambda>_. replicate 32 7) (replicate 32 CHR ''a'') r = Inr i"
proof -
  let ?r = "open_session (\<lambda>_. replicate 32 7) (replicate 32 CHR ''a'')
     \<lparr>x_branch = Some ''main'', x_head_sha = None, x_base = None, x_dirty = None, x_behind = None\<rparr>
     \<lparr>sr_default_name = ''dev'', sr_registered = Map.empty\<rparr>"
  have "token_digest (\<lambda>_. replicate 32 7) (replicate 32 CHR ''a'') = Inr (replicate 32 7)"
    by code_simp
  then obtain i r where r: "?r = Inr (i, r)"
    by (simp add: open_session_def Let_def)
  with session_identity_stable [OF r] show ?thesis by blast
qed

end
