(* ===== verification/Task_Store.thy ===== *)
theory Task_Store
  imports Session_Registry
begin

text \<open>
  The ledger (\<^verbatim>\<open>store/coordination/mod.rs\<close>, \<^verbatim>\<open>store/events.rs\<close>, the tables of
  \<^verbatim>\<open>schema.sql\<close>): the task table, the append-only log of task events, and the reads that
  derive state from the log, \<^verbatim>\<open>project_tasks\<close> and \<^verbatim>\<open>claim_window\<close>. A SQL update is
  \<open>execute_update\<close>, which returns the number of rows it changed; \<open>event_record\<close> appends the
  after-image of the row it reads back. The invariant \<open>logged\<close> says that row identifiers are
  unique, that the last after-image of every task in the log is its row, and that the log
  holds only events this build can read.
\<close>

subsection \<open>Errors\<close>

text \<open>
  Each message that the coordination store puts into \<^verbatim>\<open>LodestarError::Invalid\<close> is a
  constructor that carries the values the message interpolates.
\<close>

datatype policy_refusal =
    WaiverApprover | WaiverReason | WaiverScope | Unwaivable string | WaiverAuthority string string string
  | WaiverExpiry | RevocationAttribution | AlreadyRevoked string
  | ControlIds | ControlBackwards string int | RetireAttribution
  | RatchetIds | RatchetTolerance | NotFinite string | NotARatchet string | NoRatchetConfig string
  | BaselineReviewer | BaselineReason

datatype evidence_refusal =
    EvidenceSchema nat | EvidenceOrder | EvidenceAgent | EvidenceBounds | EvidenceExecutions
  | UnobservedEvent string | UnprovenChange string | UnprovenFailure string
  | EvidenceTask | EvidenceOwner | NoLiveTaskClaim | NoWindowStart | OutsideClaim
  | EvidenceTaskMismatch | CheckMismatch int | StaleCheck int | ClaimChanged string | NoAgent
  | PredatesCompact int

datatype knowledge_refusal =
    SourcePath | SourceActor | SourceNodes | SourceReach | RetirePerson | RetireReason
  | SupersedesItself string | AlreadyRetired string | LessonVanished

datatype clause_refusal =
    ImportSource | ImportFields | ImportRepeats string
  | VersionHoldsClause string string | GoalAlreadyDefined string
  | NotActivatable string goal_status | AnotherActive string | UndecidedProposals nat string | NothingToActivate string
  | ContractFields | UnwaivableAuthority | ContractOfActive string | LockOnlyNormative
  | ActivationAttribution | AlreadyGoverned string | DraftAwaitsReview string
  | AmendmentAttribution | NoActiveConstitution | AmendsItself | AmendsToNothing string
  | AmendsNothing string string | NotAmendable string goal_status | AmendmentUndecided nat string
  | AmendmentApprover | ApprovesOwnAmendment string | NotAuthorable string goal_status
  | PackKey | PackHeader | PackEngines | PackEmpty | PackClauseFields string | PackDuplicateKey string
  | PackConflictFields | PackDigest string | PackIncompatible string string | PackImmutable string string
  | ReviewActor | RejectionReason | DecidedAlready string string | TailoredMissing | TailoredUnexpected
  | TailoredFields | PackConflicts "string list" | PackUpgradeRefused string string string string

datatype refusal =
    ClaimLimit string nat string "(string \<times> string) list"
  | BadScopeGlob string
  | TerminalBlock string
  | OtherHandoffChain string
  | PredecessorComplete string
  | GatedByPredecessor string string
  | CannotReopen string task_status
  | ClaimedAbandon string
  | OwnedAbandon string task_status
  | CannotAbandon string task_status
  | BranchRecorded string "string list"
  | CannotResolve string task_status
  | SelfDependency
  | DifferentGoal string
  | HandsOffElsewhere string string
  | FollowsOther string string
  | DependencyCycle
  | DoneWithoutAligned string
  | AbandonedPredecessor string
  | SelfAddressed string
  | NotParked string string task_status "string option"
  | NotClaimedBy string string
  | AlreadyJudged string
  | AlreadyGoal string
  | NoLiveClaim string string
  | NotSuperseded string string
  | NoSuccessorClause string string
  | AmbiguousSuccessor string nat string
  | VerdictStatus verdict task_status task_status
  | Unauthorised int verdict
  | RecoveryNeedsReason
  | OwnerChanged string string
  | NeedsReviewer
  | SelfReview
  | OwnerShouldResume
  | IncompatibleOwner
  | NotReclaimable
  | RecoveryCap string int
  | ResetConfirmation
  | Policy policy_refusal
  | Evidence evidence_refusal
  | Lesson knowledge_refusal
  | Clause clause_refusal

datatype lodestar_error = NotFound string | Invalid refusal | Federated string | Sqlite string | Json

type_synonym 'a res = "lodestar_error + 'a"

subsection \<open>Tables\<close>

record event_row =
  er_seq :: int
  er_task_id :: string
  er_kind :: string
  er_actor :: "string option"
  er_recorded_at :: int
  er_after :: task
  er_detail :: "json option"

record handoff =
  h_predecessor_id :: string
  h_successor_id :: string
  h_created_at :: int

datatype scope_kind = PathScope | SymbolScope

datatype transfer_source = Archive | Log

record claim_transfer =
  ct_id :: int
  ct_task_id :: string
  ct_from_owner :: string
  ct_to_owner :: string
  ct_recovered_by :: string
  ct_reason :: string
  ct_from_status :: string
  ct_from_claim_started_at :: "int option"
  ct_from_lease_expires_at :: "int option"
  ct_from_parked_at :: "int option"
  ct_to_claim_started_at :: int
  ct_transferred_at :: int
  ct_source :: transfer_source

record ledger =
  s_tasks :: "task list"
  s_events :: "event_row list"
  s_qa :: "task_qa list"
  s_handoffs :: "handoff list"
  s_scopes :: "(string \<times> scope_kind \<times> string) list"
  s_coverage :: "(string \<times> string \<times> int) list"
  s_conformance :: "conformance_record list"
  s_sessions :: "(string \<times> session_context \<times> int) list"
  s_goals :: "goal list"
  s_artifacts :: "(string \<times> string \<times> binding_mode) list"
  s_transfers :: "claim_transfer list"

definition empty_ledger :: ledger where
  "empty_ledger = \<lparr>s_tasks = [], s_events = [], s_qa = [], s_handoffs = [], s_scopes = [],
     s_coverage = [], s_conformance = [], s_sessions = [], s_goals = [],
     s_artifacts = [], s_transfers = []\<rparr>"

definition PARKING_GRACE_SECS :: int where
  "PARKING_GRACE_SECS = 7 * 24 * 3600"

definition MAX_CONCURRENT_CLAIMS :: nat where
  "MAX_CONCURRENT_CLAIMS = 3"

subsection \<open>Reading and updating rows\<close>

definition get_task :: "ledger \<Rightarrow> string \<Rightarrow> task option" where
  "get_task s i = find (\<lambda>t. t_id t = i) (s_tasks s)"

definition execute_update ::
  "string \<Rightarrow> (task \<Rightarrow> bool) \<Rightarrow> (task \<Rightarrow> task) \<Rightarrow> ledger \<Rightarrow> nat \<times> ledger" where
  "execute_update i guard f s =
     (length (filter (\<lambda>t. t_id t = i \<and> guard t) (s_tasks s)),
      s\<lparr>s_tasks := map (\<lambda>t. if t_id t = i \<and> guard t then f t else t) (s_tasks s)\<rparr>)"

text \<open>SQL comparisons with a column that may be \<^verbatim>\<open>NULL\<close> are false there.\<close>

definition sql_lt :: "int option \<Rightarrow> int \<Rightarrow> bool" where
  "sql_lt x n = (case x of None \<Rightarrow> False | Some a \<Rightarrow> a < n)"

definition sql_ge :: "int option \<Rightarrow> int \<Rightarrow> bool" where
  "sql_ge x n = (case x of None \<Rightarrow> False | Some a \<Rightarrow> n \<le> a)"

lemma sql_lt_simps [simp]: "sql_lt None n = False" "sql_lt (Some a) n = (a < n)"
  by (simp_all add: sql_lt_def)

lemma sql_ge_simps [simp]: "sql_ge None n = False" "sql_ge (Some a) n = (n \<le> a)"
  by (simp_all add: sql_ge_def)

subsection \<open>The log\<close>

definition event_append ::
  "task_event_kind \<Rightarrow> string option \<Rightarrow> int \<Rightarrow> task \<Rightarrow> json option \<Rightarrow> ledger \<Rightarrow> ledger" where
  "event_append kind actor recorded_at after detail s =
     s\<lparr>s_events := s_events s @
        [\<lparr>er_seq = int (length (s_events s)) + 1, er_task_id = t_id after,
          er_kind = event_kind_as_str kind, er_actor = actor, er_recorded_at = recorded_at,
          er_after = after, er_detail = detail\<rparr>]\<rparr>"

definition event_record ::
  "string \<Rightarrow> task_event_kind \<Rightarrow> string option \<Rightarrow> int \<Rightarrow> json option \<Rightarrow> ledger \<Rightarrow> ledger res" where
  "event_record i kind actor now detail s =
     (case get_task s i of
        None \<Rightarrow> Inl (NotFound i)
      | Some t \<Rightarrow> Inr (event_append kind actor now t detail s))"

text \<open>
  \<^verbatim>\<open>read\<close>: events in order, those of one task or all; an event whose kind has no name in
  this build is skipped.
\<close>

definition decode_event :: "event_row \<Rightarrow> task_event option" where
  "decode_event r =
     (case event_kind_from_tag (er_kind r) of
        None \<Rightarrow> None
      | Some k \<Rightarrow> Some \<lparr>e_seq = er_seq r, e_task_id = er_task_id r, e_kind = k,
                        e_actor = er_actor r, e_recorded_at = er_recorded_at r,
                        e_after = er_after r, e_detail = er_detail r\<rparr>)"

definition read_events :: "ledger \<Rightarrow> string option \<Rightarrow> task_event list" where
  "read_events s task_id =
     List.map_filter decode_event
       (case task_id of
          None \<Rightarrow> s_events s
        | Some i \<Rightarrow> filter (\<lambda>r. er_task_id r = i) (s_events s))"

definition task_events :: "ledger \<Rightarrow> string \<Rightarrow> task_event list" where
  "task_events s i = read_events s (Some i)"

definition task_log :: "ledger \<Rightarrow> task_event list" where
  "task_log s = read_events s None"

definition project_tasks :: "ledger \<Rightarrow> task list" where
  "project_tasks s =
     map snd (foldl (\<lambda>m r. bt_insert (er_task_id r) (er_after r) m) [] (s_events s))"

text \<open>
  \<^verbatim>\<open>import_genesis\<close>: one \<open>imported\<close> event per task that has none. \<open>legacy\<close> reads the
  pre-log counters, \<^term>\<open>None\<close> once their columns are dropped.
\<close>

definition import_genesis ::
  "(string \<Rightarrow> (int \<times> int) option) \<Rightarrow> int \<Rightarrow> ledger \<Rightarrow> nat \<times> ledger" where
  "import_genesis legacy now s =
     (let rows = sort_key (\<lambda>t. (t_created_at t)) (sort_key t_id
            (filter (\<lambda>t. \<not> (\<exists>r \<in> set (s_events s). er_task_id r = t_id t)) (s_tasks s)))
      in (length rows,
          foldl (\<lambda>s' t. event_append EvImported None now t
              (case legacy (t_id t) of
                 None \<Rightarrow> None
               | Some (lapses, unleased) \<Rightarrow>
                   Some (JObj [(''claim_lapses'', JInt lapses),
                               (''unleased_seconds'', JInt unleased)])) s')
            s rows))"

subsection \<open>The evidence window\<close>

record window_state =
  ws_window :: "(string option \<times> int option) option"
  ws_lapses :: int
  ws_unleased :: int
  ws_previous_lease :: "int option"
  ws_replaced :: "replaced_window option"
  ws_pending :: "(string option \<times> int option \<times> int \<times> int) option"

definition window_init :: window_state where
  "window_init = \<lparr>ws_window = None, ws_lapses = 0, ws_unleased = 0,
     ws_previous_lease = None, ws_replaced = None, ws_pending = None\<rparr>"

text \<open>The displaced window, when an event opens another one.\<close>

definition window_displace ::
  "string option \<times> int option \<Rightarrow> window_state \<Rightarrow> window_state" where
  "window_displace key w =
     (case ws_window w of
        None \<Rightarrow> w
      | Some (previous_owner, previous_started) \<Rightarrow>
          (let (displaced, pending) =
             (if previous_owner \<noteq> None
              then (Some (previous_owner, previous_started, ws_lapses w, ws_unleased w), ws_pending w)
              else (ws_pending w, None))
           in (case (fst key, displaced) of
                 (Some _, Some (owner, started, held_lapses, held_unleased)) \<Rightarrow>
                   w\<lparr>ws_pending := pending,
                     ws_replaced := Some \<lparr>rw_owner = owner, rw_started_at = started,
                       rw_lapses = held_lapses, rw_unleased_seconds = held_unleased,
                       rw_owner_changed = (owner \<noteq> fst key)\<rparr>\<rparr>
               | (None, held) \<Rightarrow> w\<lparr>ws_pending := held\<rparr>
               | (Some _, None) \<Rightarrow> w\<lparr>ws_pending := pending\<rparr>)))"

definition window_step :: "window_state \<Rightarrow> task_event \<Rightarrow> window_state" where
  "window_step w e =
     (let key = (t_owner (e_after e), t_claim_started_at (e_after e));
          same_window = (ws_window w = Some key);
          w1 = (if e_kind e = EvImported then
                  (let seed = parse_detail (e_detail e)
                   in w\<lparr>ws_lapses := detail_i64 ''claim_lapses'' seed,
                        ws_unleased := detail_i64 ''unleased_seconds'' seed\<rparr>)
                else if \<not> same_window then
                  (window_displace key w)\<lparr>ws_lapses := 0, ws_unleased := 0\<rparr>
                else if e_kind e = EvClaimed then
                  (case ws_previous_lease w of
                     None \<Rightarrow> w
                   | Some expired_at \<Rightarrow>
                       if expired_at < e_recorded_at e
                       then w\<lparr>ws_lapses := ws_lapses w + 1,
                              ws_unleased := ws_unleased w + (e_recorded_at e - expired_at)\<rparr>
                       else w)
                else w)
      in w1\<lparr>ws_window := Some key, ws_previous_lease := t_lease_expires_at (e_after e)\<rparr>)"

definition window_run :: "task_event list \<Rightarrow> window_state" where
  "window_run es = foldl window_step window_init es"

definition claim_window_on :: "ledger \<Rightarrow> string \<Rightarrow> claim_window" where
  "claim_window_on s i =
     (let w = window_run (task_events s i)
      in \<lparr>cw_started_at = (case ws_window w of None \<Rightarrow> None | Some (_, started) \<Rightarrow> started),
          cw_lapses = ws_lapses w, cw_unleased_seconds = ws_unleased w,
          cw_replaced = ws_replaced w\<rparr>)"

subsection \<open>Lemmas on rows\<close>

definition keeps_id :: "(task \<Rightarrow> task) \<Rightarrow> bool" where
  "keeps_id f \<longleftrightarrow> (\<forall>t. t_id (f t) = t_id t)"

definition row_table :: "task list \<Rightarrow> string \<rightharpoonup> task" where
  "row_table ts = map_of (map (\<lambda>t. (t_id t, t)) ts)"

lemma find_row_table: "find (\<lambda>t. t_id t = i) ts = row_table ts i"
  by (induction ts) (auto simp: row_table_def)

lemma get_task_table: "get_task s = row_table (s_tasks s)"
  by (simp add: get_task_def find_row_table fun_eq_iff)

lemma get_task_id: "get_task s i = Some t \<Longrightarrow> t_id t = i"
  by (auto simp: get_task_def find_Some_iff)

lemma get_task_in: "get_task s i = Some t \<Longrightarrow> t \<in> set (s_tasks s)"
  by (auto simp: get_task_def find_Some_iff)

lemma get_task_cong: "s_tasks s = s_tasks s' \<Longrightarrow> get_task s = get_task s'"
  by (simp add: get_task_def fun_eq_iff)

lemma get_task_unique:
  "distinct (map t_id (s_tasks s)) \<Longrightarrow> get_task s i = Some t \<longleftrightarrow> t \<in> set (s_tasks s) \<and> t_id t = i"
  unfolding get_task_table row_table_def
  by (subst map_of_eq_Some_iff) (auto simp: comp_def)

lemma snd_execute_update:
  "snd (execute_update i g f s) =
     s\<lparr>s_tasks := map (\<lambda>t. if t_id t = i \<and> g t then f t else t) (s_tasks s)\<rparr>"
  by (simp add: execute_update_def)

lemma ids_execute_update:
  "keeps_id f \<Longrightarrow> map t_id (s_tasks (snd (execute_update i g f s))) = map t_id (s_tasks s)"
  by (simp add: execute_update_def keeps_id_def)

lemma get_execute_update:
  assumes "keeps_id f"
  shows "get_task (snd (execute_update i g f s)) j =
           map_option (\<lambda>t. if j = i \<and> g t then f t else t) (get_task s j)"
proof -
  have "find (\<lambda>t. t_id t = j) (map (\<lambda>t. if t_id t = i \<and> g t then f t else t) ts) =
        map_option (\<lambda>t. if j = i \<and> g t then f t else t) (find (\<lambda>t. t_id t = j) ts)" for ts
    using assms by (induction ts) (auto simp: keeps_id_def)
  then show ?thesis by (simp add: get_task_def execute_update_def)
qed

lemma count_execute_update:
  assumes "distinct (map t_id (s_tasks s))"
  shows "fst (execute_update i g f s) =
           (case get_task s i of None \<Rightarrow> 0 | Some t \<Rightarrow> if g t then 1 else 0)"
proof -
  have "distinct (map t_id ts) \<Longrightarrow>
        length (filter (\<lambda>t. t_id t = i \<and> g t) ts) =
          (case find (\<lambda>t. t_id t = i) ts of None \<Rightarrow> 0 | Some t \<Rightarrow> if g t then 1 else 0)" for ts
  proof (induction ts)
    case Nil
    then show ?case by simp
  next
    case (Cons t ts)
    have "t_id t = i \<Longrightarrow> filter (\<lambda>t. t_id t = i \<and> g t) ts = []"
      using Cons.prems by (auto simp: filter_empty_conv image_iff)
    with Cons show ?case by auto
  qed
  with assms show ?thesis by (simp add: get_task_def execute_update_def)
qed

lemma execute_update_none: "fst (execute_update i g f s) = 0 \<Longrightarrow> snd (execute_update i g f s) = s"
proof -
  assume "fst (execute_update i g f s) = 0"
  then have "map (\<lambda>t. if t_id t = i \<and> g t then f t else t) (s_tasks s) = map (\<lambda>t. t) (s_tasks s)"
    by (intro map_cong) (auto simp: execute_update_def filter_empty_conv)
  then show ?thesis by (simp add: execute_update_def)
qed

subsection \<open>The log agrees with the table\<close>

definition last_image :: "event_row list \<Rightarrow> string \<rightharpoonup> task" where
  "last_image es = map_of (rev (map (\<lambda>r. (er_task_id r, er_after r)) es))"

definition logged :: "ledger \<Rightarrow> bool" where
  "logged s \<longleftrightarrow> distinct (map t_id (s_tasks s)) \<and> last_image (s_events s) = get_task s \<and>
     (\<forall>r \<in> set (s_events s). er_kind r \<in> range event_kind_as_str \<and> er_task_id r = t_id (er_after r))"

lemma logged_distinct [dest]: "logged s \<Longrightarrow> distinct (map t_id (s_tasks s))"
  by (simp add: logged_def)

lemma logged_empty: "logged empty_ledger"
  by (simp add: logged_def empty_ledger_def last_image_def get_task_def fun_eq_iff)

lemma logged_cong:
  "s_tasks s = s_tasks s' \<Longrightarrow> s_events s = s_events s' \<Longrightarrow> logged s = logged s'"
  by (simp add: logged_def get_task_cong [of s s'])

lemma logged_frame [simp]:
  "logged (s\<lparr>s_qa := a\<rparr>) = logged s"
  "logged (s\<lparr>s_handoffs := b\<rparr>) = logged s"
  "logged (s\<lparr>s_scopes := c\<rparr>) = logged s"
  "logged (s\<lparr>s_coverage := d\<rparr>) = logged s"
  "logged (s\<lparr>s_conformance := e\<rparr>) = logged s"
  "logged (s\<lparr>s_sessions := x\<rparr>) = logged s"
  "logged (s\<lparr>s_goals := g\<rparr>) = logged s"
  "logged (s\<lparr>s_artifacts := ar\<rparr>) = logged s"
  "logged (s\<lparr>s_transfers := tr\<rparr>) = logged s"
  by (rule logged_cong; simp)+

lemma get_task_frame [simp]:
  "get_task (s\<lparr>s_qa := a\<rparr>) = get_task s"
  "get_task (s\<lparr>s_handoffs := b\<rparr>) = get_task s"
  "get_task (s\<lparr>s_scopes := c\<rparr>) = get_task s"
  "get_task (s\<lparr>s_coverage := d\<rparr>) = get_task s"
  "get_task (s\<lparr>s_conformance := e\<rparr>) = get_task s"
  "get_task (s\<lparr>s_sessions := x\<rparr>) = get_task s"
  "get_task (s\<lparr>s_goals := g\<rparr>) = get_task s"
  "get_task (s\<lparr>s_artifacts := ar\<rparr>) = get_task s"
  "get_task (s\<lparr>s_transfers := tr\<rparr>) = get_task s"
  "get_task (s\<lparr>s_events := h\<rparr>) = get_task s"
  by (rule get_task_cong; simp)+

lemma last_image_snoc: "last_image (es @ [r]) = (last_image es)(er_task_id r \<mapsto> er_after r)"
  by (simp add: last_image_def)

lemma event_append_simps [simp]:
  "s_tasks (event_append k a n t d s) = s_tasks s"
  "get_task (event_append k a n t d s) = get_task s"
  "s_qa (event_append k a n t d s) = s_qa s"
  "s_handoffs (event_append k a n t d s) = s_handoffs s"
  "s_scopes (event_append k a n t d s) = s_scopes s"
  "s_coverage (event_append k a n t d s) = s_coverage s"
  "s_conformance (event_append k a n t d s) = s_conformance s"
  "s_sessions (event_append k a n t d s) = s_sessions s"
  "s_goals (event_append k a n t d s) = s_goals s"
  "s_artifacts (event_append k a n t d s) = s_artifacts s"
  "s_transfers (event_append k a n t d s) = s_transfers s"
  by (simp_all add: event_append_def)

lemma last_image_event_append:
  "last_image (s_events (event_append k a n t d s)) = (last_image (s_events s))(t_id t \<mapsto> t)"
  by (simp add: event_append_def last_image_snoc)

text \<open>A guarded update that changed its row, followed by the record of it.\<close>

lemma event_record_Inr:
  "event_record i k a n d s = Inr s' \<longleftrightarrow>
     (\<exists>t. get_task s i = Some t \<and> s' = event_append k a n t d s)"
  by (auto simp: event_record_def split: option.splits)

lemma changed_row:
  assumes "logged s" and "fst (execute_update i g f s) = Suc 0"
  obtains t where "get_task s i = Some t" and "g t"
proof -
  have "(case get_task s i of None \<Rightarrow> 0 | Some t \<Rightarrow> if g t then 1 else 0) = Suc 0"
    using assms(2) by (simp only: count_execute_update [OF logged_distinct [OF assms(1)]])
  then obtain t where "get_task s i = Some t" "g t"
    by (cases "get_task s i") (simp_all split: if_splits)
  then show thesis by (rule that)
qed

lemma logged_update_record:
  assumes inv: "logged s" and keep: "keeps_id f"
    and one: "fst (execute_update i g f s) = Suc 0"
    and tasks: "s_tasks s1 = s_tasks (snd (execute_update i g f s))"
    and events: "s_events s1 = s_events s"
    and rec: "event_record i k a n d s1 = Inr s2"
  shows "logged s2"
proof -
  obtain t where t: "get_task s i = Some t" "g t"
    using changed_row [OF inv one] .
  have g1: "get_task s1 = get_task (snd (execute_update i g f s))"
    by (rule get_task_cong) (rule tasks)
  have s2: "s2 = event_append k a n (f t) d s1"
    using rec t by (simp add: event_record_Inr g1 get_execute_update [OF keep])
  have ids: "map t_id (s_tasks s2) = map t_id (s_tasks s)"
    by (simp add: s2 tasks ids_execute_update [OF keep])
  have "last_image (s_events s2) = (get_task s)(i \<mapsto> f t)"
    using inv keep get_task_id [OF t(1)]
    by (simp add: s2 last_image_event_append events logged_def keeps_id_def)
  also have "\<dots> = get_task s2"
    using t by (auto simp: s2 g1 get_execute_update [OF keep] fun_eq_iff option.map_ident)
  finally have img: "last_image (s_events s2) = get_task s2" .
  have "set (s_events s2) = insert (last (s_events s2)) (set (s_events s))"
    and "er_kind (last (s_events s2)) = event_kind_as_str k"
    and "er_task_id (last (s_events s2)) = t_id (er_after (last (s_events s2)))"
    by (simp_all add: s2 event_append_def events)
  with img inv ids show ?thesis
    by (auto simp: logged_def)
qed

theorem project_tasks_table:
  assumes "logged s"
  shows "project_tasks s = sort_key t_id (s_tasks s)"
proof -
  let ?ps = "map (\<lambda>r. (er_task_id r, er_after r)) (s_events s)"
  have run: "project_tasks s = map snd (btree.fill ?ps)"
    by (simp add: project_tasks_def btree.fill_def foldl_map)
  have "map_of (btree.fill ?ps) = map_of (map (\<lambda>t. (t_id t, t)) (s_tasks s))"
    using assms by (simp add: btree.fill_lookup logged_def last_image_def
        get_task_table row_table_def rev_map)
  with assms show ?thesis
    unfolding run by (intro btree.values_of_table btree.fill_invar) auto
qed

subsection \<open>Rows, gates and handoffs\<close>

text \<open>
  What the columns of one row say together. A claim has an owner, a window and a lease; a
  parked task keeps its owner and window, has no lease and records when it was parked; any
  other task has no owner. Only a blocked task names the task that blocks it.
\<close>

definition row_ok :: "task \<Rightarrow> bool" where
  "row_ok t \<longleftrightarrow>
     (case t_status t of
        Claimed \<Rightarrow> t_owner t \<noteq> None \<and> t_claim_started_at t \<noteq> None \<and>
          t_lease_expires_at t \<noteq> None \<and> t_blocked_by t = None
      | NeedsInput \<Rightarrow> t_owner t \<noteq> None \<and> t_claim_started_at t \<noteq> None \<and>
          t_lease_expires_at t = None \<and> t_parked_at t \<noteq> None \<and> t_blocked_by t = None
      | Paused \<Rightarrow> t_owner t \<noteq> None \<and> t_claim_started_at t \<noteq> None \<and>
          t_lease_expires_at t = None \<and> t_parked_at t \<noteq> None \<and> t_blocked_by t = None
      | Blocked \<Rightarrow> t_owner t = None \<and> t_claim_started_at t = None \<and> t_lease_expires_at t = None
      | _ \<Rightarrow> t_owner t = None \<and> t_claim_started_at t = None \<and>
          t_lease_expires_at t = None \<and> t_blocked_by t = None)"

definition terminal :: "task \<Rightarrow> bool" where
  "terminal t \<longleftrightarrow> t_status t \<in> {Done, Abandoned}"

definition edges :: "handoff list \<Rightarrow> (string \<times> string) set" where
  "edges hs = (\<lambda>h. (h_predecessor_id h, h_successor_id h)) ` set hs"

text \<open>
  Handoffs are linear (a task hands off to at most one and follows at most one), acyclic,
  and between tasks of the table; a gated task waits for a predecessor that is on the table
  and not terminal.
\<close>

definition handoffs_ok :: "ledger \<Rightarrow> bool" where
  "handoffs_ok s \<longleftrightarrow>
     distinct (map h_predecessor_id (s_handoffs s)) \<and>
     distinct (map h_successor_id (s_handoffs s)) \<and>
     acyclic (edges (s_handoffs s)) \<and>
     Field (edges (s_handoffs s)) \<subseteq> dom (get_task s)"

definition rows_ok :: "ledger \<Rightarrow> bool" where
  "rows_ok s \<longleftrightarrow> (\<forall>i t. get_task s i = Some t \<longrightarrow> row_ok t)"

definition gates_ok :: "ledger \<Rightarrow> bool" where
  "gates_ok s \<longleftrightarrow>
     (\<forall>i t b. get_task s i = Some t \<longrightarrow> t_blocked_by t = Some b \<longrightarrow>
        (b, i) \<in> edges (s_handoffs s) \<and> (\<exists>p. get_task s b = Some p \<and> \<not> terminal p))"

text \<open>The rows of the dialogue thread are numbered in the order they were written.\<close>

definition qa_numbered :: "ledger \<Rightarrow> bool" where
  "qa_numbered s \<longleftrightarrow> map q_id (s_qa s) = map int [1..<Suc (length (s_qa s))]"

lemma qa_numbered_cong: "s_qa s = s_qa s' \<Longrightarrow> qa_numbered s = qa_numbered s'"
  by (simp add: qa_numbered_def)

lemma qa_numbered_bound: "qa_numbered s \<Longrightarrow> q \<in> set (s_qa s) \<Longrightarrow> q_id q \<le> int (length (s_qa s))"
proof -
  assume n: "qa_numbered s" and "q \<in> set (s_qa s)"
  then have "q_id q \<in> set (map q_id (s_qa s))" by simp
  also have "\<dots> = set (map int [1..<Suc (length (s_qa s))])"
    using n by (simp only: qa_numbered_def)
  finally show ?thesis by auto
qed

definition ledger_ok :: "ledger \<Rightarrow> bool" where
  "ledger_ok s \<longleftrightarrow> logged s \<and> rows_ok s \<and> gates_ok s \<and> handoffs_ok s \<and> qa_numbered s"

lemma ledger_ok_logged [dest]: "ledger_ok s \<Longrightarrow> logged s"
  by (simp add: ledger_ok_def)

lemma ledger_ok_row: "ledger_ok s \<Longrightarrow> get_task s i = Some t \<Longrightarrow> row_ok t"
  by (simp add: ledger_ok_def rows_ok_def)

lemma ledger_ok_empty: "ledger_ok empty_ledger"
  by (simp add: ledger_ok_def logged_empty rows_ok_def gates_ok_def handoffs_ok_def)
    (simp add: empty_ledger_def get_task_def edges_def acyclic_def qa_numbered_def)

lemma ledger_ok_cong:
  assumes "s_tasks s = s_tasks s'" and "s_events s = s_events s'" and "s_handoffs s = s_handoffs s'"
    and "s_qa s = s_qa s'"
  shows "ledger_ok s = ledger_ok s'"
  using assms get_task_cong [OF assms(1)] logged_cong [OF assms(1,2)] qa_numbered_cong [OF assms(4)]
  by (simp add: ledger_ok_def rows_ok_def gates_ok_def handoffs_ok_def)

lemma ledger_ok_frame [simp]:
  "ledger_ok (s\<lparr>s_scopes := c\<rparr>) = ledger_ok s"
  "ledger_ok (s\<lparr>s_coverage := d\<rparr>) = ledger_ok s"
  "ledger_ok (s\<lparr>s_conformance := e\<rparr>) = ledger_ok s"
  "ledger_ok (s\<lparr>s_sessions := x\<rparr>) = ledger_ok s"
  "ledger_ok (s\<lparr>s_goals := g\<rparr>) = ledger_ok s"
  "ledger_ok (s\<lparr>s_artifacts := ar\<rparr>) = ledger_ok s"
  "ledger_ok (s\<lparr>s_transfers := tr\<rparr>) = ledger_ok s"
  by (rule ledger_ok_cong; simp)+

text \<open>
  The elimination every operation uses: the row it changed, the after-image it recorded, and
  the table afterwards.
\<close>

lemma update_recordE:
  assumes inv: "logged s" and keep: "keeps_id f"
    and one: "fst (execute_update i g f s) = Suc 0"
    and tasks: "s_tasks s1 = s_tasks (snd (execute_update i g f s))"
    and events: "s_events s1 = s_events s"
    and rec: "event_record i k a n d s1 = Inr s2"
  obtains t where "get_task s i = Some t" and "g t" and "s2 = event_append k a n (f t) d s1"
    and "get_task s2 = (get_task s)(i \<mapsto> f t)" and "logged s2"
proof -
  obtain t where t: "get_task s i = Some t" "g t"
    using changed_row [OF inv one] .
  have g1: "get_task s1 = get_task (snd (execute_update i g f s))"
    by (rule get_task_cong) (rule tasks)
  have s2: "s2 = event_append k a n (f t) d s1"
    using rec t by (simp add: event_record_Inr g1 get_execute_update [OF keep])
  moreover have "get_task s2 = (get_task s)(i \<mapsto> f t)"
    using t by (auto simp: s2 g1 get_execute_update [OF keep] fun_eq_iff option.map_ident)
  ultimately show thesis
    using that t logged_update_record [OF assms] by blast
qed

text \<open>One row moves to a state that is not terminal and gates nothing new.\<close>

lemma ledger_ok_move:
  assumes ok: "ledger_ok s" and t: "get_task s i = Some t"
    and tab: "get_task s2 = (get_task s)(i \<mapsto> t')" and log: "logged s2"
    and hs: "s_handoffs s2 = s_handoffs s"
    and row: "row_ok t'" and gate: "t_blocked_by t' \<in> {None, t_blocked_by t}"
    and live: "\<not> terminal t'" and qa: "qa_numbered s2"
  shows "ledger_ok s2"
proof -
  have "rows_ok s2"
    using ok row by (auto simp: ledger_ok_def rows_ok_def tab)
  moreover have "gates_ok s2"
    using ok t gate live
    by (auto simp: ledger_ok_def gates_ok_def tab hs split: if_splits)
  moreover have "handoffs_ok s2"
    using ok by (auto simp: ledger_ok_def handoffs_ok_def tab hs)
  ultimately show ?thesis
    using log qa by (simp add: ledger_ok_def)
qed

subsection \<open>The contract of an operation\<close>

text \<open>
  Every operation of the ledger runs in one transaction, appends to the log and keeps the
  log in agreement with the table. An operation of a repository that coordinates locally
  keeps the whole invariant.
\<close>

locale logged_operation =
  fixes run :: "ledger \<Rightarrow> ('r \<times> ledger) res"
  assumes keeps_logged: "logged s \<Longrightarrow> run s = Inr (r, s') \<Longrightarrow> logged s'"
    and appends: "logged s \<Longrightarrow> run s = Inr (r, s') \<Longrightarrow> prefix (s_events s) (s_events s')"
begin

lemma projection:
  "logged s \<Longrightarrow> run s = Inr (r, s') \<Longrightarrow> project_tasks s' = sort_key t_id (s_tasks s')"
  by (rule project_tasks_table) (rule keeps_logged)

lemma history_kept:
  "logged s \<Longrightarrow> run s = Inr (r, s') \<Longrightarrow> prefix (task_events s i) (task_events s' i)"
  using appends [of s r s']
  by (auto simp: prefix_def task_events_def read_events_def map_filter_def)

end

locale ledger_operation = logged_operation +
  assumes keeps_ok: "ledger_ok s \<Longrightarrow> run s = Inr (r, s') \<Longrightarrow> ledger_ok s'"
begin

lemma gates_never_stranded:
  assumes "ledger_ok s" and "run s = Inr (r, s')"
    and "get_task s' i = Some t" and "t_blocked_by t = Some b"
  shows "\<exists>p. get_task s' b = Some p \<and> \<not> terminal p"
  using keeps_ok [OF assms(1,2)] assms(3,4) by (auto simp: ledger_ok_def gates_ok_def)

end

subsection \<open>The shape of a guarded transition\<close>

text \<open>
  Most operations are one SQL update guarded by the state of the row, the rows of other
  tables that belong to it, the record of the event, and the commit; they report whether the
  guard held. \<open>extra\<close> is what runs between the update and the record.
\<close>

definition transact ::
  "string \<Rightarrow> (task \<Rightarrow> bool) \<Rightarrow> (task \<Rightarrow> task) \<Rightarrow> (ledger \<Rightarrow> ledger res) \<Rightarrow>
   task_event_kind \<Rightarrow> string option \<Rightarrow> int \<Rightarrow> json option \<Rightarrow> ledger \<Rightarrow> (bool \<times> ledger) res" where
  "transact i guard f extra kind actor now detail s =
     (let (changed, s1) = execute_update i guard f s
      in if changed = 1
         then and_then (extra s1) (\<lambda>s2.
              and_then (event_record i kind actor now detail s2) (\<lambda>s3. Inr (True, s3)))
         else Inr (False, s1))"

definition side_table :: "(ledger \<Rightarrow> ledger res) \<Rightarrow> bool" where
  "side_table extra \<longleftrightarrow> (\<forall>s s'. extra s = Inr s' \<longrightarrow>
     s_tasks s' = s_tasks s \<and> s_events s' = s_events s \<and> s_handoffs s' = s_handoffs s \<and>
     (qa_numbered s \<longrightarrow> qa_numbered s'))"

lemma side_table_none [simp]: "side_table Inr"
  by (simp add: side_table_def)

lemma side_table_D:
  assumes "side_table extra" and "extra s = Inr s'"
  shows "s_tasks s' = s_tasks s" "s_events s' = s_events s" "s_handoffs s' = s_handoffs s"
    "qa_numbered s \<Longrightarrow> qa_numbered s'"
  using assms by (auto simp: side_table_def)

lemma transact_cases:
  assumes inv: "logged s" and keep: "keeps_id f" and side: "side_table extra"
    and run: "transact i g f extra k a n d s = Inr (b, s')"
  obtains "\<not> b" and "s' = s" and "\<And>t. get_task s i = Some t \<Longrightarrow> \<not> g t"
  | t s2 where "b" and "get_task s i = Some t" and "g t"
      and "extra (snd (execute_update i g f s)) = Inr s2"
      and "s' = event_append k a n (f t) d s2"
      and "get_task s' = (get_task s)(i \<mapsto> f t)" and "logged s'"
      and "s_handoffs s' = s_handoffs s" and "s_events s2 = s_events s"
      and "qa_numbered s \<Longrightarrow> qa_numbered s'"
proof (cases "fst (execute_update i g f s) = 1")
  case True
  then obtain s2 where e: "extra (snd (execute_update i g f s)) = Inr s2"
    and r: "event_record i k a n d s2 = Inr s'" and b: b
    using run by (auto simp: transact_def and_then_Inr case_prod_beta)
  note side' = side_table_D [OF side e]
  have ev: "s_events s2 = s_events s"
    using side'(2) by (simp add: snd_execute_update)
  show thesis
  proof (rule update_recordE [OF inv keep _ _ ev r])
    show "fst (execute_update i g f s) = Suc 0" using True by simp
    show "s_tasks s2 = s_tasks (snd (execute_update i g f s))" by (rule side')
    fix t
    assume "get_task s i = Some t" "g t" and s': "s' = event_append k a n (f t) d s2"
      and "get_task s' = (get_task s)(i \<mapsto> f t)" "logged s'"
    moreover have "s_handoffs s' = s_handoffs s"
      using side'(3) by (simp add: s' snd_execute_update)
    moreover have "qa_numbered s'" if "qa_numbered s"
      using side'(4) that by (simp add: s' snd_execute_update qa_numbered_def)
    ultimately show thesis using that(2) b e ev by blast
  qed
next
  case False
  have c: "fst (execute_update i g f s) =
             (case get_task s i of None \<Rightarrow> 0 | Some t \<Rightarrow> if g t then 1 else 0)"
    by (rule count_execute_update) (rule logged_distinct [OF inv])
  have no: "\<not> g t" if "get_task s i = Some t" for t
    using False c that by (auto split: if_splits)
  then have "fst (execute_update i g f s) = 0"
    using c by (auto split: option.splits)
  then have "snd (execute_update i g f s) = s" by (rule execute_update_none)
  then show thesis
    using that(1) no run False by (auto simp: transact_def case_prod_beta)
qed

text \<open>The same, forwards: when the guard holds and the side rows are written, it takes effect.\<close>

lemma transact_applies:
  assumes inv: "logged s" and keep: "keeps_id f" and side: "side_table extra"
    and t: "get_task s i = Some t" "g t"
    and ex: "extra (snd (execute_update i g f s)) = Inr s2"
  shows "transact i g f extra k a n d s = Inr (True, event_append k a n (f t) d s2)"
proof -
  have "fst (execute_update i g f s) = 1"
    using t by (simp add: count_execute_update [OF logged_distinct [OF inv]])
  moreover have "get_task s2 i = Some (f t)"
    using t get_task_cong [OF side_table_D(1) [OF side ex]]
    by (simp add: get_execute_update [OF keep])
  ultimately show ?thesis
    using ex by (simp add: transact_def case_prod_beta event_record_def)
qed

lemma transact_refuses:
  assumes inv: "logged s" and no: "\<And>t. get_task s i = Some t \<Longrightarrow> \<not> g t"
  shows "transact i g f extra k a n d s = Inr (False, s)"
proof -
  have "fst (execute_update i g f s) = 0"
    using no by (auto simp: count_execute_update [OF logged_distinct [OF inv]] split: option.splits)
  with execute_update_none [OF this] show ?thesis
    by (simp add: transact_def case_prod_beta)
qed

lemma transact_total:
  assumes "logged s" and "keeps_id f" and "side_table extra"
    and "\<And>s1. extra (snd (execute_update i g f s)) \<noteq> Inl s1"
  shows "\<exists>r. transact i g f extra k a n d s = Inr r"
proof (cases "\<exists>t. get_task s i = Some t \<and> g t")
  case True
  then obtain t where t: "get_task s i = Some t" "g t" by blast
  obtain s2 where "extra (snd (execute_update i g f s)) = Inr s2"
    using assms(4) by (cases "extra (snd (execute_update i g f s))") auto
  then show ?thesis using transact_applies [of s f extra i t g] assms(1-3) t by blast
next
  case False
  then show ?thesis using transact_refuses [OF assms(1)] by blast
qed

lemma transact_logged_operation:
  assumes "keeps_id f" and "side_table extra"
  shows "logged_operation (transact i g f extra k a n d)"
proof
  fix s r s'
  assume inv: "logged s" and run: "transact i g f extra k a n d s = Inr (r, s')"
  show "logged s'"
    using inv by (cases rule: transact_cases [OF inv assms run]) auto
  show "prefix (s_events s) (s_events s')"
    by (cases rule: transact_cases [OF inv assms run])
      (auto simp: event_append_def prefix_def)
qed

lemma transact_keeps_ok:
  assumes ok: "ledger_ok s" and keep: "keeps_id f" and side: "side_table extra"
    and run: "transact i g f extra k a n d s = Inr (r, s')"
    and moves: "\<And>t. get_task s i = Some t \<Longrightarrow> g t \<Longrightarrow> row_ok t \<Longrightarrow>
      row_ok (f t) \<and> t_blocked_by (f t) \<in> {None, t_blocked_by t} \<and> \<not> terminal (f t)"
  shows "ledger_ok s'"
proof (cases rule: transact_cases [OF ledger_ok_logged [OF ok] keep side run])
  case 1
  then show ?thesis using ok by simp
next
  case (2 t s2)
  note m = moves [OF 2(2,3) ledger_ok_row [OF ok 2(2)]]
  then show ?thesis
    using 2(10) ok by (intro ledger_ok_move [OF ok 2(2,6,7,8)]) (auto simp: ledger_ok_def)
qed

lemma transact_ledger_operation:
  assumes "keeps_id f" and "side_table extra"
    and "\<And>t. g t \<Longrightarrow> row_ok t \<Longrightarrow>
      row_ok (f t) \<and> t_blocked_by (f t) \<in> {None, t_blocked_by t} \<and> \<not> terminal (f t)"
  shows "ledger_operation (transact i g f extra k a n d)"
proof (intro ledger_operation.intro ledger_operation_axioms.intro)
  show "logged_operation (transact i g f extra k a n d)"
    by (rule transact_logged_operation) fact+
  fix s r s'
  assume "ledger_ok s" and "transact i g f extra k a n d s = Inr (r, s')"
  then show "ledger_ok s'"
    by (rule transact_keeps_ok [OF _ assms(1,2)]) (rule assms(3))
qed

text \<open>An operation that, on each state, is one that keeps the invariant, keeps it.\<close>

lemma ledger_operation_via:
  assumes "\<And>s r s'. run s = Inr (r, s') \<Longrightarrow> \<exists>op. ledger_operation op \<and> op s = Inr (r, s')"
  shows "ledger_operation run"
proof
  fix s r s'
  assume "run s = Inr (r, s')"
  then obtain op where op: "ledger_operation op" "op s = Inr (r, s')"
    using assms by blast
  show "logged s'" if "logged s"
    using logged_operation.keeps_logged [OF ledger_operation.axioms(1) [OF op(1)] that op(2)] .
  show "prefix (s_events s) (s_events s')" if "logged s"
    using logged_operation.appends [OF ledger_operation.axioms(1) [OF op(1)] that op(2)] .
  show "ledger_ok s'" if "ledger_ok s"
    using ledger_operation.keeps_ok [OF op(1) that op(2)] .
qed

text \<open>An operation that writes only other tables keeps the invariant.\<close>

lemma side_operation:
  assumes "\<And>s r s'. run s = Inr (r, s') \<Longrightarrow>
    s_tasks s' = s_tasks s \<and> s_events s' = s_events s \<and> s_handoffs s' = s_handoffs s \<and> s_qa s' = s_qa s"
  shows "ledger_operation run"
proof
  fix s r s'
  assume "run s = Inr (r, s')"
  then have eq: "s_tasks s' = s_tasks s" "s_events s' = s_events s" "s_handoffs s' = s_handoffs s"
      "s_qa s' = s_qa s"
    using assms by blast+
  show "logged s'" if "logged s"
    using that logged_cong [OF eq(1,2)] by blast
  show "prefix (s_events s) (s_events s')"
    by (simp add: eq)
  show "ledger_ok s'" if "ledger_ok s"
    using that ledger_ok_cong [OF eq] by blast
qed

subsection \<open>The window follows the row\<close>

lemma task_events_append:
  "task_events (event_append k a n t d s) i =
     task_events s i @
       (if t_id t = i
        then [\<lparr>e_seq = int (length (s_events s)) + 1, e_task_id = t_id t, e_kind = k, e_actor = a,
               e_recorded_at = n, e_after = t, e_detail = d\<rparr>]
        else [])"
  by (simp add: task_events_def read_events_def event_append_def map_filter_def decode_event_def
      event_tag.from_as)

lemma task_events_cong: "s_events s = s_events s' \<Longrightarrow> task_events s = task_events s'"
  by (simp add: fun_eq_iff task_events_def read_events_def)

lemma window_run_snoc: "window_run (es @ [e]) = window_step (window_run es) e"
  by (simp add: window_run_def)

lemma window_step_key:
  "ws_window (window_step w e) = Some (t_owner (e_after e), t_claim_started_at (e_after e))"
  "ws_previous_lease (window_step w e) = t_lease_expires_at (e_after e)"
  by (simp_all add: window_step_def Let_def)

lemma task_events_last:
  assumes inv: "logged s" and t: "get_task s i = Some t"
  shows "task_events s i \<noteq> [] \<and> e_after (last (task_events s i)) = t"
proof -
  have "last_image es i = Some t \<Longrightarrow>
      \<forall>r \<in> set es. er_kind r \<in> range event_kind_as_str \<Longrightarrow>
      (let ds = List.map_filter decode_event (filter (\<lambda>r. er_task_id r = i) es)
       in ds \<noteq> [] \<and> e_after (last ds) = t)" for es
  proof (induction es rule: rev_induct)
    case Nil
    then show ?case by (simp add: last_image_def)
  next
    case (snoc r es)
    then show ?case
      by (auto simp: last_image_snoc map_filter_def decode_event_def event_tag.from_as Let_def
          split: if_splits)
  qed
  with inv t show ?thesis
    by (auto simp: logged_def task_events_def read_events_def Let_def)
qed

lemma window_of_row:
  assumes "logged s" and "get_task s i = Some t"
  shows "ws_window (window_run (task_events s i)) = Some (t_owner t, t_claim_started_at t)"
    and "ws_previous_lease (window_run (task_events s i)) = t_lease_expires_at t"
proof -
  obtain es e where es: "task_events s i = es @ [e]" and e: "e_after e = t"
    using task_events_last [OF assms] by (metis append_butlast_last_id)
  show "ws_window (window_run (task_events s i)) = Some (t_owner t, t_claim_started_at t)"
    and "ws_previous_lease (window_run (task_events s i)) = t_lease_expires_at t"
    by (simp_all add: es e window_run_snoc window_step_key)
qed

text \<open>An event that keeps owner and window start, and is not a claim, keeps the window.\<close>

lemma same_window_step:
  assumes inv: "logged s" and t: "get_task s i = Some t"
    and same: "t_owner t' = t_owner t" "t_claim_started_at t' = t_claim_started_at t" "t_id t' = i"
    and k: "k \<notin> {EvImported, EvClaimed}" and ev: "s_events s2 = s_events s"
  shows "claim_window_on (event_append k a n t' d s2) i = claim_window_on s i"
  using window_of_row [OF inv t] same k
  by (simp add: claim_window_on_def task_events_append task_events_cong [OF ev] window_run_snoc
      window_step_def Let_def)

lemma window_started: "logged s \<Longrightarrow> get_task s i = Some t \<Longrightarrow>
    cw_started_at (claim_window_on s i) = t_claim_started_at t"
  by (simp add: claim_window_on_def Let_def window_of_row)

lemmas window_simps = claim_window_on_def task_events_append window_run_snoc window_step_def Let_def

subsection \<open>Importing tasks that predate the log\<close>

text \<open>A log that is right about the tasks it knows, but may not know all of them.\<close>

definition partly_logged :: "ledger \<Rightarrow> bool" where
  "partly_logged s \<longleftrightarrow> distinct (map t_id (s_tasks s)) \<and> last_image (s_events s) \<subseteq>\<^sub>m get_task s \<and>
     (\<forall>r \<in> set (s_events s). er_kind r \<in> range event_kind_as_str \<and> er_task_id r = t_id (er_after r))"

lemma dom_last_image: "dom (last_image es) = er_task_id ` set es"
  by (force simp: last_image_def dom_map_of_conv_image_fst)

lemma foldl_append_image:
  "partly_logged s \<Longrightarrow> (\<forall>t \<in> set ts. get_task s (t_id t) = Some t) \<Longrightarrow>
     partly_logged (foldl (\<lambda>s t. event_append EvImported None n t (d t) s) s ts) \<and>
     s_tasks (foldl (\<lambda>s t. event_append EvImported None n t (d t) s) s ts) = s_tasks s \<and>
     dom (last_image (s_events (foldl (\<lambda>s t. event_append EvImported None n t (d t) s) s ts))) =
       dom (last_image (s_events s)) \<union> t_id ` set ts"
proof (induction ts arbitrary: s)
  case (Cons t ts)
  let ?s = "event_append EvImported None n t (d t) s"
  have "partly_logged ?s"
    using Cons.prems
    by (auto simp: partly_logged_def last_image_event_append map_le_def)
      (auto simp: event_append_def image_iff intro: exI [of _ EvImported])
  then show ?case
    using Cons.prems Cons.IH [of ?s] by (auto simp: last_image_event_append)
qed simp

lemma import_genesis_logs:
  assumes "partly_logged s"
  shows "logged (snd (import_genesis legacy now s))"
    and "s_tasks (snd (import_genesis legacy now s)) = s_tasks s"
proof -
  let ?rows = "sort_key t_created_at (sort_key t_id
      (filter (\<lambda>t. \<not> (\<exists>r \<in> set (s_events s). er_task_id r = t_id t)) (s_tasks s)))"
  have d: "distinct (map t_id (s_tasks s))" using assms by (simp add: partly_logged_def)
  have rows: "\<forall>t \<in> set ?rows. get_task s (t_id t) = Some t"
    by (auto simp: get_task_unique [OF d])
  note f = foldl_append_image [OF assms rows, of now
      "\<lambda>t. case legacy (t_id t) of None \<Rightarrow> None | Some (lapses, unleased) \<Rightarrow>
         Some (JObj [(''claim_lapses'', JInt lapses), (''unleased_seconds'', JInt unleased)])"]
  define s' where "s' = snd (import_genesis legacy now s)"
  have g: "partly_logged s'" "s_tasks s' = s_tasks s"
    "dom (last_image (s_events s')) = dom (last_image (s_events s)) \<union> t_id ` set ?rows"
    using f by (simp_all add: s'_def import_genesis_def Let_def)
  have "dom (get_task s') \<subseteq> dom (last_image (s_events s'))"
  proof
    fix i
    assume "i \<in> dom (get_task s')"
    then obtain t where "t \<in> set (s_tasks s)" "t_id t = i"
      using g(2) get_task_in get_task_id by (metis domD)
    then show "i \<in> dom (last_image (s_events s'))"
      unfolding g(3) dom_last_image [of "s_events s"]
      by (cases "\<exists>r \<in> set (s_events s). er_task_id r = i") (auto simp: image_iff, metis)
  qed
  moreover have "dom (last_image (s_events s')) \<subseteq> dom (get_task s')"
    using g(1) by (simp add: partly_logged_def map_le_implies_dom_le)
  ultimately have "last_image (s_events s') = get_task s'"
    using g(1) by (intro map_le_antisym) (auto simp: partly_logged_def map_le_def)
  then show "logged (snd (import_genesis legacy now s))"
    and "s_tasks (snd (import_genesis legacy now s)) = s_tasks s"
    using g(1,2) by (simp_all add: logged_def partly_logged_def s'_def)
qed

text \<open>
  The import completes the log. From a log that is right about the tasks it knows, the
  import makes the log agree with the whole table without touching it; rows with no event
  before it are the ones counted, and importing again adds nothing.
\<close>

theorem import_genesis_completes:
  assumes "partly_logged s" and "import_genesis legacy now s = (n, s')"
  shows "project_tasks s' = sort_key t_id (s_tasks s) \<and>
    n = length (filter (\<lambda>t. \<forall>r \<in> set (s_events s). er_task_id r \<noteq> t_id t) (s_tasks s)) \<and>
    import_genesis legacy later s' = (0, s')"
proof -
  have s': "s' = snd (import_genesis legacy now s)" and n: "n = fst (import_genesis legacy now s)"
    using assms(2) by simp_all
  note l = import_genesis_logs [OF assms(1), of legacy now, folded s']
  have "\<exists>r \<in> set (s_events s'). er_task_id r = t_id t" if "t \<in> set (s_tasks s')" for t
  proof -
    have "t_id t \<in> dom (get_task s')"
      using that l(1) get_task_unique [OF logged_distinct [OF l(1)], of "t_id t" t] by auto
    also have "\<dots> = er_task_id ` set (s_events s')"
      using l(1) dom_last_image [of "s_events s'"] by (simp add: logged_def)
    finally show ?thesis by auto
  qed
  then have "filter (\<lambda>t. \<not> (\<exists>r \<in> set (s_events s'). er_task_id r = t_id t)) (s_tasks s') = []"
    by (simp add: filter_empty_conv)
  then have "import_genesis legacy later s' = (0, s')"
    unfolding import_genesis_def by simp
  moreover have "n = length (filter (\<lambda>t. \<forall>r \<in> set (s_events s). er_task_id r \<noteq> t_id t) (s_tasks s))"
    by (simp add: n import_genesis_def Let_def)
  ultimately show ?thesis
    using project_tasks_table [OF l(1)] l(2) by simp
qed

text \<open>Whether an operation took effect.\<close>

definition wins :: "(bool \<times> 'a) res \<Rightarrow> bool" where
  "wins r = (case r of Inl _ \<Rightarrow> False | Inr (b, _) \<Rightarrow> b)"

lemma wins_iff: "wins r \<longleftrightarrow> (\<exists>s'. r = Inr (True, s'))"
  by (auto simp: wins_def split: sum.splits)

definition on_win :: "(bool \<times> 'a) res \<Rightarrow> ('a \<Rightarrow> bool) \<Rightarrow> bool" where
  "on_win r P = (case r of Inl _ \<Rightarrow> False | Inr (b, s) \<Rightarrow> b \<and> P s)"

lemma on_win_iff: "on_win r P \<longleftrightarrow> (\<exists>s'. r = Inr (True, s') \<and> P s')"
  by (auto simp: on_win_def split: sum.splits)

text \<open>Concrete ledgers: tasks imported into an empty log.\<close>

definition sample_task :: "string \<Rightarrow> task" where
  "sample_task i = \<lparr>t_id = i, t_goal_id = ''goal:g'', t_parent_task_id = None, t_title = i,
     t_acceptance = [], t_status = Open, t_owner = None, t_claim_started_at = None,
     t_lease_expires_at = None, t_blocked_by = None, t_branch = None, t_parked_at = None,
     t_resolved_by = None, t_resolved_at = None, t_resolved_conformance_id = None,
     t_created_at = 0, t_updated_at = 0\<rparr>"

definition sample_claim :: "string \<Rightarrow> string \<Rightarrow> int \<Rightarrow> int \<Rightarrow> task" where
  "sample_claim i owner started expiry =
     (sample_task i)\<lparr>t_status := Claimed, t_owner := Some owner,
        t_claim_started_at := Some started, t_lease_expires_at := Some expiry\<rparr>"

definition imported :: "task list \<Rightarrow> ledger" where
  "imported ts = snd (import_genesis (\<lambda>_. None) 0 (empty_ledger\<lparr>s_tasks := ts\<rparr>))"

lemma imported_logged: "distinct (map t_id ts) \<Longrightarrow> logged (imported ts)"
  unfolding imported_def
  by (rule import_genesis_logs) (simp add: partly_logged_def empty_ledger_def last_image_def)

lemma foldl_append_frame:
  "s_qa (foldl (\<lambda>s t. event_append k a n t (d t) s) s ts) = s_qa s \<and>
   s_handoffs (foldl (\<lambda>s t. event_append k a n t (d t) s) s ts) = s_handoffs s"
  by (induction ts arbitrary: s) simp_all

lemma imported_frame [simp]:
  "s_qa (imported ts) = []" "s_handoffs (imported ts) = []"
  by (simp_all add: imported_def import_genesis_def Let_def foldl_append_frame empty_ledger_def)

lemma imported_tasks: "distinct (map t_id ts) \<Longrightarrow> s_tasks (imported ts) = ts"
  unfolding imported_def
  by (subst import_genesis_logs(2)) (simp_all add: partly_logged_def empty_ledger_def last_image_def)

lemma imported_get: "distinct (map t_id ts) \<Longrightarrow> get_task (imported ts) = row_table ts"
  by (simp add: get_task_table imported_tasks)

lemma imported_ok:
  assumes "distinct (map t_id ts)" and "\<forall>t \<in> set ts. row_ok t \<and> t_blocked_by t = None"
  shows "ledger_ok (imported ts)"
proof -
  have "t \<in> set ts" if "get_task (imported ts) i = Some t" for i t
    using get_task_in [OF that] by (simp add: imported_tasks [OF assms(1)])
  then show ?thesis
    using assms imported_logged [OF assms(1)]
    by (auto simp: ledger_ok_def rows_ok_def gates_ok_def handoffs_ok_def edges_def acyclic_def
        qa_numbered_def)
qed

theorem import_genesis_completes_witness:
  "project_tasks (imported [sample_task ''b'', sample_task ''a'']) =
     [sample_task ''a'', sample_task ''b'']"
proof -
  let ?s = "empty_ledger\<lparr>s_tasks := [sample_task ''b'', sample_task ''a'']\<rparr>"
  have "partly_logged ?s"
    by (simp add: partly_logged_def empty_ledger_def last_image_def sample_task_def)
  from import_genesis_completes [OF this surjective_pairing, of "\<lambda>_. None" 0]
  have "project_tasks (imported [sample_task ''b'', sample_task ''a'']) =
      sort_key t_id [sample_task ''b'', sample_task ''a'']"
    by (simp add: imported_def)
  also have "\<dots> = [sample_task ''a'', sample_task ''b'']"
    by code_simp
  finally show ?thesis .
qed

end
