(* ===== verification/Controls.thy ===== *)
theory Controls
  imports Task_Store
begin

text \<open>
  Typed controls and enforcement ceilings: scope matching (\<^verbatim>\<open>scope.rs\<close>), controls and their
  resolution (\<^verbatim>\<open>controls/mod.rs\<close>), reviewed ratchets (\<^verbatim>\<open>controls/ratchet.rs\<close>) and the table of
  controls (\<^verbatim>\<open>store/controls.rs\<close>). A 64-bit float is its real value where it is finite; the
  rounding of a subtraction is the parameter \<open>rnd\<close>. A configuration is kept as the JSON value
  the store writes as text.
\<close>

subsection \<open>Scopes\<close>

definition WORKFLOW_PREFIX :: string where
  "WORKFLOW_PREFIX = ''workflow:''"

definition is_workflow :: "string \<Rightarrow> bool" where
  "is_workflow scope \<longleftrightarrow> starts_with scope WORKFLOW_PREFIX"

definition workflow_governs :: "string \<Rightarrow> string \<Rightarrow> bool" where
  "workflow_governs declared intended \<longleftrightarrow>
     intended = declared \<or>
     (case strip_prefix declared intended of None \<Rightarrow> False | Some rest \<Rightarrow> starts_with rest ''.'')"

definition covers :: "string \<Rightarrow> string \<Rightarrow> bool" where
  "covers declared target \<longleftrightarrow>
     (if declared = target then True
      else if is_workflow declared then workflow_governs declared target
      else (case strip_suffix ''**'' declared of None \<Rightarrow> False | Some pre \<Rightarrow> starts_with target pre))"

lemma workflow_governs_iff:
  "workflow_governs d i \<longleftrightarrow> i = d \<or> (\<exists>rest. i = d @ CHR ''.'' # rest)"
  by (auto simp: workflow_governs_def starts_with_def strip_prefix_Some prefix_def split: option.splits)
    (metis append_Cons append_Nil option.distinct(1) strip_prefix_Some)

lemma workflow_governs_trans:
  "workflow_governs a b \<Longrightarrow> workflow_governs b c \<Longrightarrow> workflow_governs a c"
  by (auto simp: workflow_governs_iff)

lemma workflow_governs_antisym: "workflow_governs a b \<Longrightarrow> workflow_governs b a \<Longrightarrow> a = b"
  by (auto simp: workflow_governs_iff)

text \<open>
  How far a scope reaches. A workflow scope covers an action exactly when the action is the
  scope or a descendant of it, separated by a dot, and that relation is a partial order, so a
  narrow scope never covers its parent; a code scope covers exactly the target it names or,
  when it ends in two stars, the targets with the prefix before them, even of a longer name.
\<close>

theorem covers_reach:
  "(is_workflow d \<longrightarrow> (covers d t \<longleftrightarrow> t = d \<or> (\<exists>rest. t = d @ CHR ''.'' # rest))) \<and>
   (\<not> is_workflow d \<longrightarrow> (covers d t \<longleftrightarrow> t = d \<or> (\<exists>pre rest. d = pre @ ''**'' \<and> t = pre @ rest))) \<and>
   (is_workflow d \<and> covers d t \<and> covers t d \<longrightarrow> t = d) \<and>
   (is_workflow d \<and> covers d t \<and> covers t u \<longrightarrow> covers d u)"
proof -
  have w: "covers d t \<longleftrightarrow> workflow_governs d t" if "is_workflow d" for d t
    using that by (auto simp: covers_def workflow_governs_def)
  have up: "is_workflow t" if "is_workflow d" "workflow_governs d t" for d t
    using that by (auto simp: is_workflow_def starts_with_def workflow_governs_iff)
  have "covers d t \<longleftrightarrow> t = d \<or> (\<exists>pre rest. d = pre @ ''**'' \<and> t = pre @ rest)" if "\<not> is_workflow d"
    using that by (auto simp: covers_def starts_with_def prefix_def strip_suffix_Some split: option.splits)
      (metis option.distinct(1) strip_suffix_Some)+
  then show ?thesis
    using w up workflow_governs_antisym workflow_governs_trans by (metis workflow_governs_iff)
qed

theorem covers_reach_witness:
  "covers ''workflow:git'' ''workflow:git.publish'' \<and> \<not> covers ''workflow:git'' ''workflow:github''"
proof -
  have "is_workflow ''workflow:git''" by code_simp
  with covers_reach [of "''workflow:git''" "''workflow:git.publish''"]
    covers_reach [of "''workflow:git''" "''workflow:github''"]
  show ?thesis by simp
qed

subsection \<open>Controls\<close>

datatype control_kind = Check | Threshold | RatchetKind | Procedure | Judgment

datatype enforcement_power = Mechanical | Observed | Advisory

fun power_ceiling :: "enforcement_power \<Rightarrow> consequence" where
  "power_ceiling Mechanical = Block"
| "power_ceiling Observed = Review"
| "power_ceiling Advisory = Review"

fun power_as_str :: "enforcement_power \<Rightarrow> string" where
  "power_as_str Mechanical = ''mechanical''"
| "power_as_str Observed = ''observed''"
| "power_as_str Advisory = ''advisory''"

definition power_from_tag :: "string \<Rightarrow> enforcement_power option" where
  "power_from_tag s =
     (if s = ''mechanical'' then Some Mechanical
      else if s = ''observed'' then Some Observed
      else if s = ''advisory'' then Some Advisory
      else None)"

interpretation power_tag: tagged_enum power_as_str power_from_tag
proof unfold_locales
  fix x :: enforcement_power
  show "power_from_tag (power_as_str x) = Some x"
    by (cases x) (simp_all add: power_from_tag_def)
qed (auto simp: power_from_tag_def split: if_splits)

fun kind_tag :: "control_kind \<Rightarrow> string" where
  "kind_tag Check = ''check''"
| "kind_tag Threshold = ''threshold''"
| "kind_tag RatchetKind = ''ratchet''"
| "kind_tag Procedure = ''procedure''"
| "kind_tag Judgment = ''judgment''"

definition control_kind_from_tag :: "string \<Rightarrow> control_kind option" where
  "control_kind_from_tag s =
     (if s = ''check'' then Some Check
      else if s = ''threshold'' then Some Threshold
      else if s = ''ratchet'' then Some RatchetKind
      else if s = ''procedure'' then Some Procedure
      else if s = ''judgment'' then Some Judgment
      else None)"

interpretation control_kind_tag: tagged_enum kind_tag control_kind_from_tag
proof unfold_locales
  fix x :: control_kind
  show "control_kind_from_tag (kind_tag x) = Some x"
    by (cases x) (simp_all add: control_kind_from_tag_def)
qed (auto simp: control_kind_from_tag_def split: if_splits)

datatype control_status = ControlActive | ControlRetired

datatype observation_status = Pass | Fail | Unknown

record control =
  c_id :: string
  c_clause_id :: string
  c_kind :: control_kind
  c_power :: enforcement_power
  c_version :: int
  c_configuration :: "json option"
  c_status :: control_status
  c_retired_by :: "string option"
  c_retired_at :: "int option"

record control_observation =
  o_control_id :: string
  o_clause_id :: string
  o_control_version :: int
  o_scope :: string
  o_status :: observation_status
  o_measurements :: "json option"
  o_baseline :: "json option"
  o_evidence_refs :: "string list"
  o_evaluated_at :: int

record control_resolution =
  r_control_id :: string
  r_clause_id :: string
  r_status :: observation_status
  r_effective :: consequence
  r_finding :: string

definition min_consequence :: "consequence \<Rightarrow> consequence \<Rightarrow> consequence" where
  "min_consequence l r = (if l \<le> r then l else r)"

definition resolution :: "control \<Rightarrow> observation_status \<Rightarrow> consequence \<Rightarrow> string \<Rightarrow> control_resolution" where
  "resolution control st effective finding =
     \<lparr>r_control_id = c_id control, r_clause_id = c_clause_id control, r_status = st,
      r_effective = effective, r_finding = finding\<rparr>"

definition resolve_with_declared ::
  "consequence option \<Rightarrow> control \<Rightarrow> control_observation \<Rightarrow> control_resolution" where
  "resolve_with_declared declared control obs =
     (case declared of
        None \<Rightarrow> resolution control (o_status obs) Advise
          (''control '' @ c_id control @ '' serves no active clause; an orphan control reports but cannot escalate'')
      | Some declared \<Rightarrow>
          if c_status control = ControlRetired
          then resolution control Unknown Advise
            (''control '' @ c_id control @ '' is retired; its report is not current'')
          else if o_control_version obs \<noteq> c_version control
          then resolution control Unknown Advise
            (''control '' @ c_id control @ '' reported at version '' @ show_int (o_control_version obs) @
             '' but is bound at version '' @ show_int (c_version control) @ ''; treating as unknown'')
          else (case o_status obs of
             Pass \<Rightarrow> resolution control Pass Advise
               (''control '' @ c_id control @ '' satisfied clause '' @ c_clause_id control)
           | Unknown \<Rightarrow> resolution control Unknown Advise
               (''control '' @ c_id control @
                '' could not determine an answer; absence of evidence is not conformance'')
           | Fail \<Rightarrow>
               (let effective = min_consequence declared (power_ceiling (c_power control)) in
                resolution control Fail effective
                  (if effective < declared
                   then ''control '' @ c_id control @ '' failed clause '' @ c_clause_id control @
                     ''; clause declares '' @ consequence_as_str declared @ '' but a '' @
                     power_as_str (c_power control) @ '' mechanism caps this at '' @ consequence_as_str effective
                   else ''control '' @ c_id control @ '' failed clause '' @ c_clause_id control @
                     ''; resolves '' @ consequence_as_str effective))))"

definition resolve_observation :: "goal option \<Rightarrow> control \<Rightarrow> control_observation \<Rightarrow> control_resolution" where
  "resolve_observation clause control obs =
     resolve_with_declared
       (case clause of
          None \<Rightarrow> None
        | Some g \<Rightarrow> if g_status g = GoalActive
                    then Some (case g_consequence g of None \<Rightarrow> Review | Some c \<Rightarrow> c) else None)
       control obs"

definition FORBID_CHANGE_CONTROL_ID :: string where
  "FORBID_CHANGE_CONTROL_ID = ''control:forbid_change''"

definition FORBID_CHANGE_CONTROL_VERSION :: int where
  "FORBID_CHANGE_CONTROL_VERSION = 1"

definition forbid_change_control :: "string \<Rightarrow> control" where
  "forbid_change_control clause_id =
     \<lparr>c_id = FORBID_CHANGE_CONTROL_ID, c_clause_id = clause_id, c_kind = Check, c_power = Mechanical,
      c_version = FORBID_CHANGE_CONTROL_VERSION, c_configuration = None, c_status = ControlActive,
      c_retired_by = None, c_retired_at = None\<rparr>"

definition forbid_change_observation :: "string \<Rightarrow> string \<Rightarrow> int \<Rightarrow> control_observation" where
  "forbid_change_observation clause_id node_id evaluated_at =
     \<lparr>o_control_id = FORBID_CHANGE_CONTROL_ID, o_clause_id = clause_id,
      o_control_version = FORBID_CHANGE_CONTROL_VERSION, o_scope = node_id, o_status = Fail,
      o_measurements = None, o_baseline = None, o_evidence_refs = [node_id],
      o_evaluated_at = evaluated_at\<rparr>"

lemma severity_order: "Advise \<le> (c :: consequence)" "c \<le> Block"
  by (cases c; simp add: less_eq_consequence_def)+

lemma effective_cases:
  "r_effective (resolve_with_declared declared control obs) =
     (case declared of
        Some d \<Rightarrow> if c_status control = ControlActive \<and> o_control_version obs = c_version control \<and> o_status obs = Fail
                  then min d (power_ceiling (c_power control)) else Advise
      | None \<Rightarrow> Advise)"
  by (cases "c_status control"; cases "o_status obs")
    (auto simp: resolve_with_declared_def resolution_def min_consequence_def min_def Let_def split: option.splits)

text \<open>
  C31. The ceiling. However an observation resolves, its consequence is at most what the clause
  declares and at most what the mechanism has the power for; it is more than advice only when
  an active clause declares more than advice, the control is in force, the report is of its
  current version and says that it failed. A \<open>forbid_change\<close> lock is the one built-in control
  that blocks.
\<close>

theorem control_ceiling:
  "r_effective (resolve_observation clause control obs) \<le> power_ceiling (c_power control) \<and>
   (\<forall>g c. clause = Some g \<and> g_consequence g = Some c \<longrightarrow> r_effective (resolve_observation clause control obs) \<le> c) \<and>
   (Advise < r_effective (resolve_observation clause control obs) \<longleftrightarrow>
      c_status control = ControlActive \<and> o_control_version obs = c_version control \<and> o_status obs = Fail \<and>
      (\<exists>g. clause = Some g \<and> g_status g = GoalActive \<and> g_consequence g \<noteq> Some Advise)) \<and>
   r_effective (resolve_with_declared (Some Block) (forbid_change_control i) (forbid_change_observation i node n)) = Block"
proof -
  have low: "min d (power_ceiling p) = Advise \<longleftrightarrow> d = Advise" for d p
    by (cases d; cases p) (simp_all add: min_def less_eq_consequence_def)
  have some: "Advise < d \<longleftrightarrow> d \<noteq> Advise" for d
    using severity_order(1) [of d] by (auto simp: order_less_le)
  have lock: "r_effective (resolve_with_declared (Some Block) (forbid_change_control i) (forbid_change_observation i node n)) = Block"
    by (simp add: effective_cases forbid_change_control_def forbid_change_observation_def)
  show ?thesis
    using lock severity_order(1)
    by (auto simp: resolve_observation_def effective_cases some low split: option.splits)
qed

theorem control_ceiling_witness:
  "r_effective (resolve_observation None (forbid_change_control ''goal:g'') (forbid_change_observation ''goal:g'' ''n'' 5)) \<le> Block \<and>
   \<not> Advise < r_effective (resolve_observation None (forbid_change_control ''goal:g'') (forbid_change_observation ''goal:g'' ''n'' 5))"
  using control_ceiling [of None "forbid_change_control ''goal:g''" "forbid_change_observation ''goal:g'' ''n'' 5"]
  by (simp add: forbid_change_control_def)

subsection \<open>Reviewed ratchets\<close>

datatype f64 = Finite real | NonFinite

fun finite_f64 :: "f64 \<Rightarrow> string \<Rightarrow> real res" where
  "finite_f64 (Finite x) what = Inr x"
| "finite_f64 NonFinite what = Inl (Invalid (Policy (NotFinite what)))"

datatype ratchet_direction = NonDecreasing | NonIncreasing

record ratchet_baseline =
  rb_value :: real
  rb_reviewed_by :: string
  rb_reviewed_at :: int
  rb_reason :: "string option"

record ratchet =
  ra_control_id :: string
  ra_clause_id :: string
  ra_metric :: string
  ra_direction :: ratchet_direction
  ra_tolerance :: real
  ra_baseline :: "ratchet_baseline option"
  ra_version :: int

definition ratchet_new ::
  "string \<Rightarrow> string \<Rightarrow> string \<Rightarrow> ratchet_direction \<Rightarrow> f64 \<Rightarrow> ratchet res" where
  "ratchet_new control_id clause_id metric direction tolerance =
     (if blank control_id \<or> blank clause_id \<or> blank metric then Inl (Invalid (Policy RatchetIds))
      else and_then (finite_f64 tolerance ''ratchet tolerance'') (\<lambda>tolerance.
        if tolerance < 0 then Inl (Invalid (Policy RatchetTolerance))
        else Inr \<lparr>ra_control_id = control_id, ra_clause_id = clause_id, ra_metric = metric,
                  ra_direction = direction, ra_tolerance = tolerance, ra_baseline = None,
                  ra_version = 1\<rparr>))"

text \<open>The stored configuration, as serde writes and reads it.\<close>

fun direction_json :: "ratchet_direction \<Rightarrow> json" where
  "direction_json NonDecreasing = JStr ''non_decreasing''"
| "direction_json NonIncreasing = JStr ''non_increasing''"

fun direction_of_json :: "json \<Rightarrow> ratchet_direction option" where
  "direction_of_json (JStr t) =
     (if t = ''non_decreasing'' then Some NonDecreasing
      else if t = ''non_increasing'' then Some NonIncreasing else None)"
| "direction_of_json _ = None"

fun json_as_f64 :: "json \<Rightarrow> real option" where
  "json_as_f64 (JFloat r) = Some r"
| "json_as_f64 (JInt i) = Some (of_int i)"
| "json_as_f64 _ = None"

definition json_field :: "string \<Rightarrow> json \<Rightarrow> (json \<Rightarrow> 'a option) \<Rightarrow> 'a res" where
  "json_field k j decode =
     (case json_get k j of
        None \<Rightarrow> Inl Json
      | Some v \<Rightarrow> (case decode v of None \<Rightarrow> Inl Json | Some x \<Rightarrow> Inr x))"

definition json_option :: "string \<Rightarrow> json \<Rightarrow> (json \<Rightarrow> 'a res) \<Rightarrow> 'a option res" where
  "json_option k j decode =
     (case json_get k j of
        None \<Rightarrow> Inr None
      | Some JNull \<Rightarrow> Inr None
      | Some v \<Rightarrow> and_then (decode v) (\<lambda>x. Inr (Some x)))"

definition baseline_json :: "ratchet_baseline \<Rightarrow> json" where
  "baseline_json b =
     JObj [(''value'', JFloat (rb_value b)), (''reviewed_by'', JStr (rb_reviewed_by b)),
           (''reviewed_at'', JInt (rb_reviewed_at b)), (''reason'', opt_str (rb_reason b))]"

definition baseline_of_json :: "json \<Rightarrow> ratchet_baseline res" where
  "baseline_of_json j =
     and_then (json_field ''value'' j json_as_f64) (\<lambda>v.
     and_then (json_field ''reviewed_by'' j json_as_str) (\<lambda>who.
     and_then (json_field ''reviewed_at'' j json_as_i64) (\<lambda>t.
     and_then (json_option ''reason'' j (\<lambda>x. case json_as_str x of None \<Rightarrow> Inl Json | Some r \<Rightarrow> Inr r)) (\<lambda>reason.
       Inr \<lparr>rb_value = v, rb_reviewed_by = who, rb_reviewed_at = t, rb_reason = reason\<rparr>))))"

definition ratchet_control :: "ratchet \<Rightarrow> control" where
  "ratchet_control r =
     \<lparr>c_id = ra_control_id r, c_clause_id = ra_clause_id r, c_kind = RatchetKind, c_power = Observed,
      c_version = ra_version r,
      c_configuration = Some (JObj [(''metric'', JStr (ra_metric r)),
         (''direction'', direction_json (ra_direction r)), (''tolerance'', JFloat (ra_tolerance r)),
         (''baseline'', (case ra_baseline r of None \<Rightarrow> JNull | Some b \<Rightarrow> baseline_json b))]),
      c_status = ControlActive, c_retired_by = None, c_retired_at = None\<rparr>"

definition from_control :: "control \<Rightarrow> ratchet res" where
  "from_control control =
     (if c_kind control \<noteq> RatchetKind then Inl (Invalid (Policy (NotARatchet (c_id control))))
      else case c_configuration control of
        None \<Rightarrow> Inl (Invalid (Policy (NoRatchetConfig (c_id control))))
      | Some raw \<Rightarrow>
          and_then (json_field ''metric'' raw json_as_str) (\<lambda>metric.
          and_then (json_field ''direction'' raw direction_of_json) (\<lambda>direction.
          and_then (json_field ''tolerance'' raw json_as_f64) (\<lambda>tolerance.
          and_then (json_option ''baseline'' raw baseline_of_json) (\<lambda>baseline.
            Inr \<lparr>ra_control_id = c_id control, ra_clause_id = c_clause_id control, ra_metric = metric,
                 ra_direction = direction, ra_tolerance = tolerance, ra_baseline = baseline,
                 ra_version = c_version control\<rparr>)))))"

definition with_reviewed_baseline :: "ratchet \<Rightarrow> f64 \<Rightarrow> string \<Rightarrow> string \<Rightarrow> int \<Rightarrow> ratchet res" where
  "with_reviewed_baseline r value reviewed_by reason reviewed_at =
     (if blank reviewed_by then Inl (Invalid (Policy BaselineReviewer))
      else if blank reason then Inl (Invalid (Policy BaselineReason))
      else and_then (finite_f64 value ''ratchet baseline'') (\<lambda>v.
        Inr (r\<lparr>ra_baseline := Some \<lparr>rb_value = v, rb_reviewed_by = reviewed_by,
                                    rb_reviewed_at = reviewed_at, rb_reason = Some (trim reason)\<rparr>,
               ra_version := ra_version r + 1\<rparr>)))"

definition regression :: "(real \<Rightarrow> real) \<Rightarrow> ratchet_direction \<Rightarrow> real \<Rightarrow> real \<Rightarrow> real" where
  "regression rnd direction base measured =
     (case direction of NonDecreasing \<Rightarrow> rnd (base - measured) | NonIncreasing \<Rightarrow> rnd (measured - base))"

definition observed_status :: "(real \<Rightarrow> real) \<Rightarrow> ratchet \<Rightarrow> real \<Rightarrow> observation_status" where
  "observed_status rnd r measured =
     (case ra_baseline r of
        None \<Rightarrow> Unknown
      | Some b \<Rightarrow> if ra_tolerance r < regression rnd (ra_direction r) (rb_value b) measured then Fail else Pass)"

definition observe ::
  "(real \<Rightarrow> real) \<Rightarrow> ratchet \<Rightarrow> f64 \<Rightarrow> string \<Rightarrow> string list \<Rightarrow> int \<Rightarrow> control_observation res" where
  "observe rnd r measured scope refs evaluated_at =
     and_then (finite_f64 measured ''ratchet measurement'') (\<lambda>m.
       Inr \<lparr>o_control_id = ra_control_id r, o_clause_id = ra_clause_id r, o_control_version = ra_version r,
            o_scope = scope, o_status = observed_status rnd r m,
            o_measurements = Some (JObj [(''metric'', JStr (ra_metric r)), (''measured'', JFloat m),
              (''direction'', direction_json (ra_direction r)), (''tolerance'', JFloat (ra_tolerance r))]),
            o_baseline = map_option baseline_json (ra_baseline r), o_evidence_refs = refs,
            o_evaluated_at = evaluated_at\<rparr>)"

lemma direction_json_inv [simp]: "direction_of_json (direction_json d) = Some d"
  by (cases d) simp_all

lemma baseline_json_inv [simp]: "baseline_of_json (baseline_json b) = Inr b"
  by (cases "rb_reason b")
    (simp_all add: baseline_of_json_def baseline_json_def json_field_def json_option_def opt_str_def and_then_def)

text \<open>A ratchet is read back from the control it was registered as, with its baseline.\<close>

theorem ratchet_roundtrip: "from_control (ratchet_control r) = Inr r"
proof (cases "ra_baseline r")
  case None
  then show ?thesis
    by (cases r) (simp add: from_control_def ratchet_control_def json_field_def json_option_def and_then_def)
next
  case (Some b)
  have "json_option ''baseline'' (JObj [(''baseline'', baseline_json b)]) baseline_of_json = Inr (Some b)"
    by (simp add: json_option_def baseline_json_def baseline_json_inv [unfolded baseline_json_def])
  then show ?thesis using Some
    by (cases r) (simp add: from_control_def ratchet_control_def json_field_def json_option_def and_then_def)
qed

text \<open>
  What a ratchet may do. Its report never resolves harder than review, whatever its clause
  declares; without a reviewed baseline it never passes; a measurement no better than one that
  failed fails too; and once another baseline is accepted, an observation against the old one
  escalates nothing, because it carries the old version.
\<close>

theorem ratchet_contract:
  assumes "mono rnd" and "observe rnd r (Finite m) scope refs n = Inr obs"
  shows "r_effective (resolve_observation clause (ratchet_control r) obs) \<le> Review \<and>
    (ra_baseline r = None \<longrightarrow> o_status obs = Unknown) \<and>
    (o_status obs = Fail \<longrightarrow>
       (\<forall>m'. (case ra_direction r of NonDecreasing \<Rightarrow> m' \<le> m | NonIncreasing \<Rightarrow> m \<le> m') \<longrightarrow>
          observed_status rnd r m' = Fail)) \<and>
    (\<forall>r' v who why n2. with_reviewed_baseline r v who why n2 = Inr r' \<longrightarrow>
       r_effective (resolve_observation clause (ratchet_control r') obs) = Advise)"
proof -
  have obs: "o_status obs = observed_status rnd r m" "o_control_version obs = ra_version r"
    using assms(2) by (auto simp: observe_def)
  have "r_effective (resolve_observation clause (ratchet_control r) obs) \<le> Review"
    using severity_order(1) [of Review]
    by (auto simp: resolve_observation_def effective_cases ratchet_control_def min.coboundedI2 split: option.splits)
  moreover have "ra_baseline r = None \<longrightarrow> o_status obs = Unknown"
    by (simp add: obs observed_status_def)
  moreover have "observed_status rnd r m' = Fail"
    if f: "o_status obs = Fail" and d: "case ra_direction r of NonDecreasing \<Rightarrow> m' \<le> m | NonIncreasing \<Rightarrow> m \<le> m'" for m'
  proof -
    obtain b where b: "ra_baseline r = Some b" "ra_tolerance r < regression rnd (ra_direction r) (rb_value b) m"
      using f by (auto simp: obs observed_status_def split: option.splits if_splits)
    have "regression rnd (ra_direction r) (rb_value b) m \<le> regression rnd (ra_direction r) (rb_value b) m'"
      using d monoD [OF assms(1)] by (auto simp: regression_def split: ratchet_direction.splits)
    with b show ?thesis by (simp add: observed_status_def)
  qed
  moreover have "r_effective (resolve_observation clause (ratchet_control r') obs) = Advise"
    if "with_reviewed_baseline r v who why n2 = Inr r'" for r' v who why n2
  proof -
    have "ra_version r' = ra_version r + 1"
      using that by (auto simp: with_reviewed_baseline_def and_then_Inr split: if_splits)
    then show ?thesis
      by (auto simp: resolve_observation_def effective_cases ratchet_control_def obs split: option.splits)
  qed
  ultimately show ?thesis by blast
qed

theorem ratchet_contract_witness:
  "\<exists>r obs r'. ratchet_new ''c'' ''goal:g'' ''warnings'' NonIncreasing (Finite 0) = Inr r \<and>
     observe (\<lambda>x. x) r (Finite 7) ''repo'' [] 5 = Inr obs \<and> o_status obs = Unknown \<and>
     with_reviewed_baseline r (Finite 3) ''ana'' ''measured'' 6 = Inr r' \<and>
     r_effective (resolve_observation None (ratchet_control r') obs) = Advise"
proof -
  obtain r where r: "ratchet_new ''c'' ''goal:g'' ''warnings'' NonIncreasing (Finite 0) = Inr r"
    and n: "ra_baseline r = None"
    by (simp add: ratchet_new_def blank_def trim_def is_whitespace_def)
  obtain obs where o: "observe (\<lambda>x. x) r (Finite 7) ''repo'' [] 5 = Inr obs"
    by (simp add: observe_def)
  obtain r' where b: "with_reviewed_baseline r (Finite 3) ''ana'' ''measured'' 6 = Inr r'"
    by (simp add: with_reviewed_baseline_def blank_def trim_def is_whitespace_def)
  have "mono (\<lambda>x :: real. x)" by (simp add: mono_def)
  from ratchet_contract [OF this o, of None] n b have "o_status obs = Unknown"
    "r_effective (resolve_observation None (ratchet_control r') obs) = Advise" by blast+
  with r o b show ?thesis by blast
qed

subsection \<open>The table of controls\<close>

definition find_control :: "control list \<Rightarrow> string \<Rightarrow> control option" where
  "find_control tbl i = find (\<lambda>c. c_id c = i) tbl"

definition register_control :: "goal list \<Rightarrow> control \<Rightarrow> control list \<Rightarrow> (control \<times> control list) res" where
  "register_control goals control tbl =
     (if blank (c_clause_id control) \<or> blank (c_id control) then Inl (Invalid (Policy ControlIds))
      else if \<forall>g \<in> set goals. g_id g \<noteq> c_clause_id control
      then Inl (NotFound (''clause '' @ c_clause_id control @ '' for control '' @ c_id control))
      else case find_control tbl (c_id control) of
        None \<Rightarrow> let row = control\<lparr>c_retired_by := None, c_retired_at := None\<rparr> in Inr (row, tbl @ [row])
      | Some existing \<Rightarrow>
          if c_version control < c_version existing
          then Inl (Invalid (Policy (ControlBackwards (c_id control) (c_version existing))))
          else let row = control\<lparr>c_retired_by := c_retired_by existing, c_retired_at := c_retired_at existing\<rparr>
               in Inr (row, map (\<lambda>c. if c_id c = c_id control then row else c) tbl))"

definition controls_for_clause :: "control list \<Rightarrow> string \<Rightarrow> control list" where
  "controls_for_clause tbl clause_id = sort_key c_id (filter (\<lambda>c. c_clause_id c = clause_id) tbl)"

definition retire_control :: "string \<Rightarrow> string \<Rightarrow> int \<Rightarrow> control list \<Rightarrow> (bool \<times> control list) res" where
  "retire_control i retired_by now tbl =
     (if blank retired_by then Inl (Invalid (Policy RetireAttribution))
      else Inr (\<exists>c \<in> set tbl. c_id c = i \<and> c_status c \<noteq> ControlRetired,
                map (\<lambda>c. if c_id c = i \<and> c_status c \<noteq> ControlRetired
                         then c\<lparr>c_status := ControlRetired, c_retired_by := Some (trim retired_by),
                                c_retired_at := Some now\<rparr> else c) tbl))"

lemma find_control_map:
  assumes "\<And>c. c_id (f c) = c_id c"
  shows "find_control (map f tbl) i = map_option f (find_control tbl i)"
  using assms by (induction tbl) (auto simp: find_control_def)

lemma find_control_snoc:
  "find_control tbl i = None \<Longrightarrow> find_control (tbl @ [c]) j = (if j = i \<and> c_id c = i then Some c else
     case find_control tbl j of None \<Rightarrow> if c_id c = j then Some c else None | Some x \<Rightarrow> Some x)"
  by (induction tbl) (auto simp: find_control_def)

text \<open>
  What registering a control keeps. A registered control is found again under its identifier,
  its version never goes back, and every other control is unchanged. But the version need not
  move: a registration at the same version replaces kind, power and configuration, so an
  observation of the old mechanism still matches; and a registration of a retired control puts
  it in force again while it still names who retired it and when.
\<close>

theorem register_control_outcome:
  assumes "register_control goals control tbl = Inr (row, tbl')"
  shows "find_control tbl' (c_id control) = Some row \<and>
    (\<forall>j. j \<noteq> c_id control \<longrightarrow> find_control tbl' j = find_control tbl j) \<and>
    (\<exists>g \<in> set goals. g_id g = c_clause_id control) \<and>
    c_power row = c_power control \<and> c_status row = c_status control \<and> c_version row = c_version control \<and>
    (\<forall>old. find_control tbl (c_id control) = Some old \<longrightarrow>
       c_version old \<le> c_version row \<and> c_retired_by row = c_retired_by old \<and> c_retired_at row = c_retired_at old)"
proof (cases "find_control tbl (c_id control)")
  case None
  then have r: "row = control\<lparr>c_retired_by := None, c_retired_at := None\<rparr>" "tbl' = tbl @ [row]"
    and g: "\<exists>g \<in> set goals. g_id g = c_clause_id control"
    using assms by (auto simp: register_control_def Let_def split: if_splits)
  have id: "c_id row = c_id control" by (simp add: r)
  show ?thesis
    using None g id by (auto simp: r(2) find_control_snoc [OF None] split: option.splits) (auto simp: r(1))
next
  case (Some old)
  let ?f = "\<lambda>c. if c_id c = c_id control then row else c"
  have r: "row = control\<lparr>c_retired_by := c_retired_by old, c_retired_at := c_retired_at old\<rparr>" "tbl' = map ?f tbl"
    and g: "\<exists>g \<in> set goals. g_id g = c_clause_id control" and v: "c_version old \<le> c_version control"
    using assms Some by (auto simp: register_control_def Let_def split: if_splits)
  have id: "c_id (?f c) = c_id c" for c by (simp add: r(1))
  have key: "find_control tbl j = Some x \<Longrightarrow> c_id x = j" for j x
    by (auto simp: find_control_def find_Some_iff)
  have "find_control tbl' j = find_control tbl j" if "j \<noteq> c_id control" for j
    unfolding r(2) find_control_map [of ?f, OF id] using that key [of j]
    by (cases "find_control tbl j") auto
  moreover have "find_control tbl' (c_id control) = Some row"
    unfolding r(2) find_control_map [of ?f, OF id] using Some key [OF Some] by simp
  ultimately show ?thesis using Some g v by (auto simp: r(1))
qed

theorem register_control_outcome_witness:
  "\<exists>row tbl'. register_control [\<lparr>g_id = ''goal:g'', g_slug = ''g'', g_kind = Objective, g_title = [], g_statement = [],
       g_status = GoalActive, g_version = 1, g_parent_id = None, g_superseded_by = None, g_reason = None,
       g_created_at = 0, g_constitution_version = None, g_rationale = None, g_scope = None,
       g_evidence_contract = None, g_consequence = None, g_waivable = False, g_waiver_authority = None,
       g_origin = OriginLocal, g_source_system = None, g_external_id = None, g_source_ref = None, g_source_digest = None\<rparr>]
     (forbid_change_control ''goal:g'')
     [(forbid_change_control ''goal:g'')\<lparr>c_power := Advisory, c_status := ControlRetired, c_retired_by := Some ''ana''\<rparr>]
     = Inr (row, tbl') \<and> c_power row = Mechanical \<and> c_status row = ControlActive \<and> c_retired_by row = Some ''ana''"
  (is "\<exists>row tbl'. register_control ?gs ?c ?tbl = Inr (row, tbl') \<and> _")
proof -
  obtain row tbl' where r: "register_control ?gs ?c ?tbl = Inr (row, tbl')"
    by (simp add: register_control_def find_control_def forbid_change_control_def blank_def trim_def
        is_whitespace_def FORBID_CHANGE_CONTROL_ID_def Let_def)
  have "find_control ?tbl (c_id ?c) = Some ((forbid_change_control ''goal:g'')\<lparr>c_power := Advisory, c_status := ControlRetired, c_retired_by := Some ''ana''\<rparr>)"
    by (simp add: find_control_def forbid_change_control_def)
  with register_control_outcome [OF r] r show ?thesis
    by (auto simp: forbid_change_control_def)
qed

end
