(* ===== verification/Task_Claim.thy ===== *)
theory Task_Claim
  imports Task_Store
begin

text \<open>
  Claims and leases (\<^verbatim>\<open>store/coordination/claim.rs\<close> and its modules \<^verbatim>\<open>scope\<close>, \<^verbatim>\<open>overlap\<close>,
  \<^verbatim>\<open>federation\<close>, and \<^verbatim>\<open>store/fleet.rs\<close>): the claim compare-and-swap with its advisory
  scope and the limit on concurrent claims, renewal, heartbeat, release, overlap checks, and
  the projection of grants decided by a federated arbiter. Glob matching is the crate
  \<^verbatim>\<open>globset\<close>: the parameter \<open>glob\<close> compiles a pattern to a matcher, or fails.
\<close>

type_synonym globset = "string \<Rightarrow> (string \<Rightarrow> bool) option"

subsection \<open>Declared session context\<close>

definition declare_session_context ::
  "string \<Rightarrow> session_context \<Rightarrow> int \<Rightarrow> ledger \<Rightarrow> (unit \<times> ledger) res" where
  "declare_session_context agent_id context now s =
     Inr ((), s\<lparr>s_sessions :=
       (if \<exists>r \<in> set (s_sessions s). fst r = agent_id
        then map (\<lambda>r. if fst r = agent_id then (agent_id, context, now) else r) (s_sessions s)
        else s_sessions s @ [(agent_id, context, now)])\<rparr>)"

definition session_context_of :: "ledger \<Rightarrow> string \<Rightarrow> (session_context \<times> int) option" where
  "session_context_of s agent_id = map_of (s_sessions s) agent_id"

definition declared_contexts :: "ledger \<Rightarrow> (string \<times> session_context \<times> int) list" where
  "declared_contexts s = sort_key (\<lambda>r. snd (snd r)) (sort_key fst (s_sessions s))"

definition session_branch :: "ledger \<Rightarrow> string \<Rightarrow> string option" where
  "session_branch s agent =
     (case session_context_of s agent of None \<Rightarrow> None | Some (c, _) \<Rightarrow> x_branch c)"

definition declared_branch :: "ledger \<Rightarrow> string option \<Rightarrow> string option" where
  "declared_branch s agent =
     (case agent of
        None \<Rightarrow> None
      | Some a \<Rightarrow>
          if blank a then None
          else (case session_context_of s (trim a) of
                  None \<Rightarrow> None
                | Some (context, _) \<Rightarrow>
                    (case x_branch context of
                       None \<Rightarrow> None
                     | Some branch \<Rightarrow> if blank branch then None else Some (trim branch))))"

subsection \<open>Scopes\<close>

definition slashes :: "string \<Rightarrow> string" where
  "slashes v = map (\<lambda>c. if c = CHR 0x5C then CHR ''/'' else c) v"

definition compile_scope_glob :: "globset \<Rightarrow> string \<Rightarrow> (string \<Rightarrow> bool) res" where
  "compile_scope_glob glob pattern =
     (case glob pattern of None \<Rightarrow> Inl (Invalid (BadScopeGlob pattern)) | Some m \<Rightarrow> Inr m)"

definition normal_paths :: "string list \<Rightarrow> string list" where
  "normal_paths paths = sort_dedup (filter (\<lambda>v. v \<noteq> []) (map (\<lambda>v. slashes (trim v)) paths))"

definition normalize_symbols :: "string list \<Rightarrow> string list" where
  "normalize_symbols symbols = sort_dedup (filter (\<lambda>v. v \<noteq> []) (map trim symbols))"

definition normalize_paths :: "globset \<Rightarrow> string list \<Rightarrow> string list res" where
  "normalize_paths glob paths =
     and_then (try_fold (\<lambda>_ path. and_then (compile_scope_glob glob path) (\<lambda>_. Inr ()))
                 () (normal_paths paths))
       (\<lambda>_. Inr (normal_paths paths))"

definition normalize_scope_values :: "task_scope \<Rightarrow> task_scope" where
  "normalize_scope_values scope =
     \<lparr>sc_paths = normal_paths (sc_paths scope), sc_symbols = normalize_symbols (sc_symbols scope)\<rparr>"

definition task_scope_on :: "ledger \<Rightarrow> string \<Rightarrow> task_scope" where
  "task_scope_on s i =
     \<lparr>sc_paths = sort (map (snd \<circ> snd) (filter (\<lambda>r. fst r = i \<and> fst (snd r) = PathScope) (s_scopes s))),
      sc_symbols = sort (map (snd \<circ> snd) (filter (\<lambda>r. fst r = i \<and> fst (snd r) = SymbolScope) (s_scopes s)))\<rparr>"

definition task_scope_of :: "ledger \<Rightarrow> string \<Rightarrow> task_scope res" where
  "task_scope_of s i =
     (case get_task s i of None \<Rightarrow> Inl (NotFound i) | Some _ \<Rightarrow> Inr (task_scope_on s i))"

text \<open>
  \<^verbatim>\<open>intersect_paths\<close>: the inner loop stops at the first declaration that matches, so a
  malformed declaration after it is not reported.
\<close>

fun matches_any :: "globset \<Rightarrow> string \<Rightarrow> string list \<Rightarrow> bool res" where
  "matches_any glob request [] = Inr False"
| "matches_any glob request (d # ds) =
     and_then (compile_scope_glob glob d)
       (\<lambda>m. if m request then Inr True else matches_any glob request ds)"

definition intersect_paths :: "globset \<Rightarrow> string list \<Rightarrow> string list \<Rightarrow> string list res" where
  "intersect_paths glob requested declared =
     and_then (try_fold (\<lambda>acc request. and_then (matches_any glob request declared)
                  (\<lambda>b. Inr (if b then acc @ [request] else acc))) [] requested)
       (\<lambda>found. Inr (sort_dedup found))"

text \<open>
  \<^verbatim>\<open>task_scopes\<close> has the primary key (task, kind, value); the rows of one kind are deleted
  and written anew.
\<close>

definition insert_scope :: "string \<Rightarrow> scope_kind \<Rightarrow> ledger \<Rightarrow> string \<Rightarrow> ledger res" where
  "insert_scope i kind s v =
     (if (i, kind, v) \<in> set (s_scopes s) then Inl (Sqlite ''task_scopes'')
      else Inr (s\<lparr>s_scopes := s_scopes s @ [(i, kind, v)]\<rparr>))"

definition replace_scope :: "string \<Rightarrow> scope_kind \<Rightarrow> string list option \<Rightarrow> ledger \<Rightarrow> ledger res" where
  "replace_scope i kind vs s =
     (case vs of
        None \<Rightarrow> Inr s
      | Some vs \<Rightarrow>
          try_fold (insert_scope i kind)
            (s\<lparr>s_scopes := filter (\<lambda>r. \<not> (fst r = i \<and> fst (snd r) = kind)) (s_scopes s)\<rparr>) vs)"

definition replace_scopes ::
  "string \<Rightarrow> string list option \<Rightarrow> string list option \<Rightarrow> ledger \<Rightarrow> ledger res" where
  "replace_scopes i paths symbols s =
     and_then (replace_scope i PathScope paths s) (replace_scope i SymbolScope symbols)"

subsection \<open>Claiming\<close>

text \<open>\<^verbatim>\<open>LIKE 'session:v1:%'\<close>: SQLite compares ASCII letters without case.\<close>

definition session_like :: "string \<Rightarrow> bool" where
  "session_like a \<longleftrightarrow> map ascii_lower (take 11 a) = ''session:v1:''"

definition refuse_beyond_claim_limit :: "ledger \<Rightarrow> string \<Rightarrow> string \<Rightarrow> unit res" where
  "refuse_beyond_claim_limit s i agent =
     (if \<exists>t \<in> set (s_tasks s). t_id t = i \<and> t_status t = Claimed \<and> t_owner t = Some agent
      then Inr ()
      else (let held = map (\<lambda>t. (t_id t, t_title t))
                  (sort_key t_updated_at (sort_key t_id
                    (filter (\<lambda>t. t_status t = Claimed \<and> t_owner t = Some agent) (s_tasks s))))
            in if length held < MAX_CONCURRENT_CLAIMS then Inr ()
               else Inl (Invalid (ClaimLimit agent (length held) i held))))"

definition legacy_owner :: "string \<Rightarrow> task \<Rightarrow> bool" where
  "legacy_owner agent t \<longleftrightarrow>
     (case t_owner t of None \<Rightarrow> False | Some w \<Rightarrow> \<not> session_like w \<and> session_like agent)"

definition claim_guard :: "string \<Rightarrow> int \<Rightarrow> task \<Rightarrow> bool" where
  "claim_guard agent now t \<longleftrightarrow>
     t_blocked_by t = None \<and> \<not> legacy_owner agent t \<and>
     (t_status t = Open \<or>
      t_status t = Claimed \<and> sql_lt (t_lease_expires_at t) now \<or>
      t_status t = Claimed \<and> t_owner t = Some agent \<or>
      t_status t \<in> {NeedsInput, Paused} \<and> sql_lt (t_parked_at t) (now - PARKING_GRACE_SECS))"

definition claim_row :: "string option \<Rightarrow> string \<Rightarrow> int \<Rightarrow> int \<Rightarrow> task \<Rightarrow> task" where
  "claim_row session agent lease_secs now t =
     t\<lparr>t_status := Claimed, t_owner := Some agent,
       t_claim_started_at :=
         (if t_status t = Claimed \<and> t_owner t = Some agent then t_claim_started_at t else Some now),
       t_branch :=
         (if t_status t = Claimed \<and> t_owner t = Some agent then t_branch t else session),
       t_lease_expires_at := Some (now + lease_secs), t_parked_at := None, t_updated_at := now\<rparr>"

definition claim_task_with_partial_scope ::
  "globset \<Rightarrow> string \<Rightarrow> string \<Rightarrow> int \<Rightarrow> string list option \<Rightarrow> string list option \<Rightarrow> int \<Rightarrow>
   ledger \<Rightarrow> (bool \<times> ledger) res" where
  "claim_task_with_partial_scope glob i agent lease_secs paths symbols now s =
     and_then (case paths of
                 None \<Rightarrow> Inr None
               | Some ps \<Rightarrow> and_then (normalize_paths glob ps) (\<lambda>ps'. Inr (Some ps'))) (\<lambda>paths'.
     and_then (refuse_beyond_claim_limit s i agent) (\<lambda>_.
       transact i (claim_guard agent now) (claim_row (session_branch s agent) agent lease_secs now)
         (replace_scopes i paths' (map_option normalize_symbols symbols))
         EvClaimed (Some agent) now (Some (JObj [(''lease_secs'', JInt lease_secs)])) s))"

definition claim_task_with_scope ::
  "globset \<Rightarrow> string \<Rightarrow> string \<Rightarrow> int \<Rightarrow> task_scope \<Rightarrow> int \<Rightarrow> ledger \<Rightarrow> (bool \<times> ledger) res" where
  "claim_task_with_scope glob i agent lease_secs scope now =
     claim_task_with_partial_scope glob i agent lease_secs
       (Some (sc_paths scope)) (Some (sc_symbols scope)) now"

definition claim_task :: "globset \<Rightarrow> string \<Rightarrow> string \<Rightarrow> int \<Rightarrow> int \<Rightarrow> ledger \<Rightarrow> (bool \<times> ledger) res" where
  "claim_task glob i agent lease_secs now =
     claim_task_with_scope glob i agent lease_secs \<lparr>sc_paths = [], sc_symbols = []\<rparr> now"

subsection \<open>Keeping and giving up a claim\<close>

definition live_lease_guard :: "string \<Rightarrow> int \<Rightarrow> task \<Rightarrow> bool" where
  "live_lease_guard agent now t \<longleftrightarrow>
     t_owner t = Some agent \<and> t_status t = Claimed \<and> sql_ge (t_lease_expires_at t) now \<and>
     t_blocked_by t = None"

definition renew_lease :: "string \<Rightarrow> string \<Rightarrow> int \<Rightarrow> int \<Rightarrow> ledger \<Rightarrow> (bool \<times> ledger) res" where
  "renew_lease i agent lease_secs now =
     transact i (live_lease_guard agent now)
       (\<lambda>t. t\<lparr>t_lease_expires_at := Some (now + lease_secs), t_updated_at := now\<rparr>) Inr
       EvLeaseRenewed (Some agent) now
       (Some (JObj [(''lease_secs'', JInt lease_secs), (''heartbeat'', JBool False)]))"

definition sql_max :: "int option \<Rightarrow> int \<Rightarrow> int option" where
  "sql_max x n = map_option (\<lambda>a. max a n) x"

definition touch_lease :: "string \<Rightarrow> string \<Rightarrow> int \<Rightarrow> int \<Rightarrow> ledger \<Rightarrow> (bool \<times> ledger) res" where
  "touch_lease i agent lease_secs now =
     transact i (live_lease_guard agent now)
       (\<lambda>t. t\<lparr>t_lease_expires_at := sql_max (t_lease_expires_at t) (now + lease_secs),
              t_updated_at := now\<rparr>) Inr
       EvLeaseRenewed (Some agent) now
       (Some (JObj [(''lease_secs'', JInt lease_secs), (''heartbeat'', JBool True)]))"

definition release_task :: "string \<Rightarrow> string \<Rightarrow> int \<Rightarrow> ledger \<Rightarrow> (bool \<times> ledger) res" where
  "release_task i agent now =
     transact i (\<lambda>t. t_owner t = Some agent \<and> t_status t = Claimed \<and> t_blocked_by t = None)
       (\<lambda>t. t\<lparr>t_status := Open, t_owner := None, t_claim_started_at := None,
              t_lease_expires_at := None, t_updated_at := now\<rparr>) Inr
       EvReleased (Some agent) now None"

subsection \<open>Overlap\<close>

datatype overlap_signal = SameBranchCollision | CrossBranchMergeRisk | Undeclared

definition classify_overlap :: "string option \<Rightarrow> string option \<Rightarrow> overlap_signal" where
  "classify_overlap requester owner =
     (case (requester, owner) of
        (Some r, Some w) \<Rightarrow> if r = w then SameBranchCollision else CrossBranchMergeRisk
      | _ \<Rightarrow> Undeclared)"

fun overlap_signal_as_str :: "overlap_signal \<Rightarrow> string" where
  "overlap_signal_as_str SameBranchCollision = ''same_branch_collision''"
| "overlap_signal_as_str CrossBranchMergeRisk = ''cross_branch_merge_risk''"
| "overlap_signal_as_str Undeclared = ''undeclared''"

record claim_overlap =
  co_task_id :: string
  co_owner :: string
  co_lease_expires_at :: int
  co_scope :: task_scope
  co_matching_paths :: "string list"
  co_matching_symbols :: "string list"
  co_owner_branch :: "string option"
  co_signal :: overlap_signal

record claim_overlap_report =
  rep_requester_branch :: "string option"
  rep_claims :: "claim_overlap list"

record federated_claim =
  fc_task_id :: string
  fc_owner :: string
  fc_owner_branch :: "string option"
  fc_lease_expires_at :: int
  fc_paths :: "string list"
  fc_symbols :: "string list"

text \<open>
  A claim row is read with its owner and lease as values that must be there: a \<^verbatim>\<open>NULL\<close> in
  either column is an error of the row decoder.
\<close>

definition claim_columns :: "task \<Rightarrow> (string \<times> string \<times> int) res" where
  "claim_columns t =
     (case (t_owner t, t_lease_expires_at t) of
        (Some w, Some l) \<Rightarrow> Inr (t_id t, w, l)
      | _ \<Rightarrow> Inl (Sqlite ''tasks''))"

definition overlap_of ::
  "globset \<Rightarrow> task_scope \<Rightarrow> string option \<Rightarrow> string \<Rightarrow> string \<Rightarrow> int \<Rightarrow> task_scope \<Rightarrow> string option \<Rightarrow>
   claim_overlap list \<Rightarrow> claim_overlap list res" where
  "overlap_of glob requested requester_branch task_id owner lease scope owner_branch acc =
     and_then (intersect_paths glob (sc_paths requested) (sc_paths scope)) (\<lambda>matching_paths.
       let matching_symbols = filter (\<lambda>y. y \<in> set (sc_symbols scope)) (sc_symbols requested)
       in if matching_paths \<noteq> [] \<or> matching_symbols \<noteq> []
          then Inr (acc @ [\<lparr>co_task_id = task_id, co_owner = owner, co_lease_expires_at = lease,
                 co_scope = scope, co_matching_paths = matching_paths,
                 co_matching_symbols = matching_symbols, co_owner_branch = owner_branch,
                 co_signal = classify_overlap requester_branch owner_branch\<rparr>])
          else Inr acc)"

definition active_claims :: "ledger \<Rightarrow> string option \<Rightarrow> int \<Rightarrow> task list" where
  "active_claims s exclude now =
     sort_key t_created_at (sort_key t_id
       (filter (\<lambda>t. t_status t = Claimed \<and> sql_ge (t_lease_expires_at t) now \<and>
                    Some (t_id t) \<noteq> exclude) (s_tasks s)))"

definition check_claim_overlap ::
  "globset \<Rightarrow> ledger \<Rightarrow> task_scope \<Rightarrow> string option \<Rightarrow> string option \<Rightarrow> int \<Rightarrow>
   claim_overlap_report res" where
  "check_claim_overlap glob s requested exclude requester now =
     (let wanted = normalize_scope_values requested; rb = declared_branch s requester
      in and_then
           (try_fold (\<lambda>acc t. and_then (claim_columns t) (\<lambda>(task_id, owner, lease).
               overlap_of glob wanted rb task_id owner lease (task_scope_on s task_id)
                 (declared_branch s (Some owner)) acc))
             [] (active_claims s exclude now))
           (\<lambda>overlaps. Inr \<lparr>rep_requester_branch = rb, rep_claims = overlaps\<rparr>))"

text \<open>\<open>source\<close> is the federated claim registry.\<close>

definition check_federated_claim_overlap ::
  "globset \<Rightarrow> (string option \<Rightarrow> federated_claim list res) \<Rightarrow> ledger \<Rightarrow> task_scope \<Rightarrow>
   string option \<Rightarrow> string option \<Rightarrow> claim_overlap_report res" where
  "check_federated_claim_overlap glob source s requested exclude requester =
     (let wanted = normalize_scope_values requested; rb = declared_branch s requester
      in and_then (source exclude) (\<lambda>claims.
         and_then
           (try_fold (\<lambda>acc c. overlap_of glob wanted rb (fc_task_id c) (fc_owner c)
                (fc_lease_expires_at c) \<lparr>sc_paths = fc_paths c, sc_symbols = fc_symbols c\<rparr>
                (fc_owner_branch c) acc) [] claims)
           (\<lambda>overlaps. Inr \<lparr>rep_requester_branch = rb, rep_claims = overlaps\<rparr>)))"

text \<open>The nodes the active policy governs, and those of them a task's declared scope covers.\<close>

definition governed_node_ids :: "ledger \<Rightarrow> string list" where
  "governed_node_ids s =
     sort_dedup (map (\<lambda>a. fst (snd a))
       (filter (\<lambda>a. \<exists>g \<in> set (s_goals s). g_id g = fst a \<and> g_status g = GoalActive) (s_artifacts s)))"

definition governed_nodes_for_task_scope ::
  "globset \<Rightarrow> ledger \<Rightarrow> string \<Rightarrow> string list res" where
  "governed_nodes_for_task_scope glob s i =
     and_then (task_scope_of s i) (\<lambda>scope.
     and_then (try_fold (\<lambda>ms path. and_then (compile_scope_glob glob path) (\<lambda>m. Inr (ms @ [m])))
                 [] (sc_paths scope)) (\<lambda>matchers.
       Inr (sort_dedup (filter (\<lambda>node.
              (case strip_prefix ''artifact:'' node of
                 None \<Rightarrow> False
               | Some path \<Rightarrow> \<exists>m \<in> set matchers. m path) \<or> node \<in> set (sc_symbols scope)) (governed_node_ids s)))))"

subsection \<open>Federated projection\<close>

record federated_claim_grant =
  fg_owner :: string
  fg_branch :: "string option"
  fg_claim_started_at :: int
  fg_lease_expires_at :: int
  fg_claim_lapses :: int
  fg_paths :: "string list"
  fg_symbols :: "string list"

text \<open>
  These updates have no guard: the arbiter decided. When there is no such row nothing is
  updated and the record of the event fails.
\<close>

definition project_update ::
  "string \<Rightarrow> (task \<Rightarrow> task) \<Rightarrow> (ledger \<Rightarrow> ledger res) \<Rightarrow> task_event_kind \<Rightarrow> string \<Rightarrow> int \<Rightarrow> json \<Rightarrow>
   ledger \<Rightarrow> (unit \<times> ledger) res" where
  "project_update i f extra kind actor now detail s =
     (let (_, s1) = execute_update i (\<lambda>_. True) f s
      in and_then (extra s1) (\<lambda>s2.
         and_then (event_record i kind (Some actor) now (Some detail) s2) (\<lambda>s3. Inr ((), s3))))"

definition insert_qa ::
  "string \<Rightarrow> qa_kind \<Rightarrow> string \<Rightarrow> string \<Rightarrow> string option \<Rightarrow> int \<Rightarrow> ledger \<Rightarrow> ledger res" where
  "insert_qa i kind body author audience now s =
     (if get_task s i = None then Inl (Sqlite ''task_qa'')
      else Inr (s\<lparr>s_qa := s_qa s @ [\<lparr>q_id = int (length (s_qa s)) + 1, q_task_id = i, q_kind = kind,
             q_body = body, q_author = author, q_audience = audience, q_created_at = now\<rparr>]\<rparr>))"

definition append_note_on :: "string \<Rightarrow> string option \<Rightarrow> string \<Rightarrow> int \<Rightarrow> ledger \<Rightarrow> ledger res" where
  "append_note_on i note author now s =
     (case note of
        None \<Rightarrow> Inr s
      | Some b \<Rightarrow> if blank b then Inr s else insert_qa i Note (trim b) author None now s)"

definition apply_federated_grant ::
  "string \<Rightarrow> string \<Rightarrow> federated_claim_grant \<Rightarrow> task_event_kind \<Rightarrow> int \<Rightarrow> ledger \<Rightarrow> (unit \<times> ledger) res" where
  "apply_federated_grant i agent grant kind now =
     project_update i
       (\<lambda>t. t\<lparr>t_status := Claimed, t_owner := Some (fg_owner grant), t_branch := fg_branch grant,
              t_claim_started_at := Some (fg_claim_started_at grant),
              t_lease_expires_at := Some (fg_lease_expires_at grant), t_parked_at := None,
              t_updated_at := now\<rparr>)
       (replace_scopes i (Some (fg_paths grant)) (Some (fg_symbols grant)))
       kind agent now
       (JObj [(''source'', JStr ''federated''), (''claim_lapses'', JInt (fg_claim_lapses grant))])"

definition apply_federated_release :: "string \<Rightarrow> string \<Rightarrow> int \<Rightarrow> ledger \<Rightarrow> (unit \<times> ledger) res" where
  "apply_federated_release i agent now =
     project_update i
       (\<lambda>t. t\<lparr>t_status := Open, t_owner := None, t_claim_started_at := None,
              t_lease_expires_at := None, t_updated_at := now\<rparr>)
       Inr EvReleased agent now (JObj [(''source'', JStr ''federated'')])"

definition apply_federated_park ::
  "string \<Rightarrow> string \<Rightarrow> string \<Rightarrow> string option \<Rightarrow> int \<Rightarrow> ledger \<Rightarrow> (unit \<times> ledger) res" where
  "apply_federated_park i agent question audience now =
     project_update i
       (\<lambda>t. t\<lparr>t_status := NeedsInput, t_lease_expires_at := None, t_parked_at := Some now,
              t_updated_at := now\<rparr>)
       (insert_qa i Question question agent audience now) EvQuestioned agent now
       (JObj ((''source'', JStr ''federated'') #
          (case audience of None \<Rightarrow> [] | Some to \<Rightarrow> [(''audience'', JStr to)])))"

definition apply_federated_answer ::
  "string \<Rightarrow> string \<Rightarrow> string \<Rightarrow> federated_claim_grant \<Rightarrow> int \<Rightarrow> ledger \<Rightarrow> (unit \<times> ledger) res" where
  "apply_federated_answer i author answer grant now =
     project_update i
       (\<lambda>t. t\<lparr>t_status := Claimed, t_lease_expires_at := Some (fg_lease_expires_at grant),
              t_parked_at := None, t_updated_at := now\<rparr>)
       (insert_qa i Answer answer author None now) EvAnswered author now
       (JObj [(''source'', JStr ''federated'')])"

definition apply_federated_pause ::
  "string \<Rightarrow> string \<Rightarrow> string option \<Rightarrow> int \<Rightarrow> ledger \<Rightarrow> (unit \<times> ledger) res" where
  "apply_federated_pause i agent reason now =
     project_update i
       (\<lambda>t. t\<lparr>t_status := Paused, t_lease_expires_at := None, t_parked_at := Some now,
              t_updated_at := now\<rparr>)
       (append_note_on i reason agent now) EvPaused agent now
       (JObj [(''source'', JStr ''federated'')])"

definition apply_federated_resume ::
  "string \<Rightarrow> string \<Rightarrow> federated_claim_grant \<Rightarrow> int \<Rightarrow> ledger \<Rightarrow> (unit \<times> ledger) res" where
  "apply_federated_resume i agent grant now =
     project_update i
       (\<lambda>t. t\<lparr>t_status := Claimed, t_lease_expires_at := Some (fg_lease_expires_at grant),
              t_parked_at := None, t_updated_at := now\<rparr>)
       Inr EvResumed agent now (JObj [(''source'', JStr ''federated'')])"

subsection \<open>The operations keep the ledger's invariant\<close>

lemma insert_scope_side: "side_table (\<lambda>s. try_fold (insert_scope i kind) s vs)"
proof (unfold side_table_def, intro allI impI)
  fix s s'
  assume "try_fold (insert_scope i kind) s vs = Inr s'"
  then have "s_tasks s' = s_tasks s \<and> s_events s' = s_events s \<and> s_handoffs s' = s_handoffs s \<and> s_qa s' = s_qa s"
    by (rule try_fold_invariant [where P = "\<lambda>x. s_tasks x = s_tasks s \<and> s_events x = s_events s \<and>
          s_handoffs x = s_handoffs s \<and> s_qa x = s_qa s", rotated 2])
      (auto simp: insert_scope_def split: if_splits)
  then show "s_tasks s' = s_tasks s \<and> s_events s' = s_events s \<and> s_handoffs s' = s_handoffs s \<and>
      (qa_numbered s \<longrightarrow> qa_numbered s')"
    by (simp add: qa_numbered_def)
qed

lemma replace_scope_side: "side_table (replace_scope i kind vs)"
proof (cases vs)
  case None
  then show ?thesis by (simp add: side_table_def replace_scope_def)
next
  case (Some ws)
  show ?thesis
    unfolding side_table_def
    by (auto simp: Some replace_scope_def qa_numbered_def dest!: insert_scope_side [unfolded side_table_def, rule_format])
qed

lemma replace_scopes_side [simp]: "side_table (replace_scopes i paths symbols)"
  unfolding side_table_def replace_scopes_def
  by (auto simp: and_then_Inr dest!: replace_scope_side [unfolded side_table_def, rule_format])

lemma insert_qa_side [simp]: "side_table (insert_qa i k b a u n)"
  by (auto simp: side_table_def insert_qa_def qa_numbered_def split: if_splits)

lemma append_note_side [simp]: "side_table (append_note_on i note a n)"
  using insert_qa_side [of i Note _ a None n]
  by (auto simp: side_table_def append_note_on_def split: option.splits if_splits)

lemma claim_row_keeps [simp]: "keeps_id (claim_row b agent l n)"
  by (simp add: keeps_id_def claim_row_def)

lemma claim_runs:
  assumes "claim_task_with_partial_scope glob i agent l paths symbols now s = Inr (b, s')"
  obtains paths' where "refuse_beyond_claim_limit s i agent = Inr ()"
    and "transact i (claim_guard agent now) (claim_row (session_branch s agent) agent l now)
           (replace_scopes i paths' (map_option normalize_symbols symbols))
           EvClaimed (Some agent) now (Some (JObj [(''lease_secs'', JInt l)])) s = Inr (b, s')"
  using assms by (auto simp: claim_task_with_partial_scope_def and_then_Inr)

interpretation claim: ledger_operation "claim_task_with_partial_scope glob i agent l paths symbols now"
  for glob i agent l paths symbols now
proof (rule ledger_operation_via)
  fix s r s'
  assume "claim_task_with_partial_scope glob i agent l paths symbols now s = Inr (r, s')"
  then obtain paths' where
    run: "transact i (claim_guard agent now) (claim_row (session_branch s agent) agent l now)
           (replace_scopes i paths' (map_option normalize_symbols symbols))
           EvClaimed (Some agent) now (Some (JObj [(''lease_secs'', JInt l)])) s = Inr (r, s')"
    by (rule claim_runs)
  show "\<exists>op. ledger_operation op \<and> op s = Inr (r, s')"
    by (rule exI, rule conjI [OF transact_ledger_operation run])
      (auto simp: claim_guard_def claim_row_def row_ok_def terminal_def)
qed

interpretation renew: ledger_operation "renew_lease i agent l now" for i agent l now
  unfolding renew_lease_def
  by (rule transact_ledger_operation)
    (auto simp: keeps_id_def live_lease_guard_def row_ok_def terminal_def)

interpretation touch: ledger_operation "touch_lease i agent l now" for i agent l now
  unfolding touch_lease_def
  by (rule transact_ledger_operation)
    (auto simp: keeps_id_def live_lease_guard_def row_ok_def terminal_def sql_max_def)

interpretation release: ledger_operation "release_task i agent now" for i agent now
  unfolding release_task_def
  by (rule transact_ledger_operation) (auto simp: keeps_id_def row_ok_def terminal_def)

interpretation declare_ctx: ledger_operation "declare_session_context agent ctx now" for agent ctx now
  by (rule side_operation) (auto simp: declare_session_context_def)

text \<open>The federated projections keep the log in agreement with the table.\<close>

lemma project_update_operation:
  assumes keep: "keeps_id f" and side: "side_table extra"
  shows "logged_operation (project_update i f extra k a n d)"
proof
  fix s r s'
  assume inv: "logged s" and run: "project_update i f extra k a n d s = Inr (r, s')"
  obtain s2 where e: "extra (snd (execute_update i (\<lambda>_. True) f s)) = Inr s2"
    and r: "event_record i k (Some a) n (Some d) s2 = Inr s'"
    using run by (auto simp: project_update_def and_then_Inr case_prod_beta)
  note side' = side_table_D [OF side e]
  have one: "fst (execute_update i (\<lambda>_. True) f s) = Suc 0"
    using r side'(1) get_task_cong [OF side'(1)] count_execute_update [OF logged_distinct [OF inv]]
    by (auto simp: event_record_Inr get_execute_update [OF keep] split: option.splits)
  have ev: "s_events s2 = s_events s"
    using side'(2) by (simp add: snd_execute_update)
  show "logged s'"
    by (rule update_recordE [OF inv keep one side'(1) ev r])
  show "prefix (s_events s) (s_events s')"
    using r ev by (auto simp: event_record_Inr event_append_def prefix_def)
qed

interpretation fed_grant: logged_operation "apply_federated_grant i agent grant kind now"
  for i agent grant kind now
  unfolding apply_federated_grant_def by (rule project_update_operation) (simp_all add: keeps_id_def)

interpretation fed_release: logged_operation "apply_federated_release i agent now" for i agent now
  unfolding apply_federated_release_def by (rule project_update_operation) (simp_all add: keeps_id_def)

interpretation fed_park: logged_operation "apply_federated_park i agent q audience now"
  for i agent q audience now
  unfolding apply_federated_park_def by (rule project_update_operation) (simp_all add: keeps_id_def)

interpretation fed_answer: logged_operation "apply_federated_answer i author a grant now"
  for i author a grant now
  unfolding apply_federated_answer_def by (rule project_update_operation) (simp_all add: keeps_id_def)

interpretation fed_pause: logged_operation "apply_federated_pause i agent reason now"
  for i agent reason now
  unfolding apply_federated_pause_def by (rule project_update_operation) (simp_all add: keeps_id_def)

interpretation fed_resume: logged_operation "apply_federated_resume i agent grant now"
  for i agent grant now
  unfolding apply_federated_resume_def by (rule project_update_operation) (simp_all add: keeps_id_def)

subsection \<open>What a claim does\<close>

lemma side_scopes_try:
  "try_fold (insert_scope i kind) s vs = Inr s' \<Longrightarrow>
     s_scopes s' = s_scopes s @ map (\<lambda>v. (i, kind, v)) vs"
proof (induction vs arbitrary: s)
  case (Cons v vs)
  then show ?case
    by (auto simp: and_then_Inr insert_scope_def split: if_splits dest!: Cons.IH)
qed simp

lemma replace_scope_rows:
  assumes "replace_scope i kind vs s = Inr s'"
  shows "s_scopes s' = (case vs of None \<Rightarrow> s_scopes s
    | Some ws \<Rightarrow> filter (\<lambda>r. \<not> (fst r = i \<and> fst (snd r) = kind)) (s_scopes s) @
                map (\<lambda>v. (i, kind, v)) ws)"
  using assms by (cases vs) (auto simp: replace_scope_def dest: side_scopes_try)

lemma replace_scopes_read:
  assumes "replace_scopes i paths symbols s = Inr s'"
  shows "task_scope_on s' i =
    \<lparr>sc_paths = (case paths of None \<Rightarrow> sc_paths (task_scope_on s i) | Some ps \<Rightarrow> sort ps),
     sc_symbols = (case symbols of None \<Rightarrow> sc_symbols (task_scope_on s i) | Some ys \<Rightarrow> sort ys)\<rparr>"
proof -
  obtain s1 where 1: "replace_scope i PathScope paths s = Inr s1"
    and 2: "replace_scope i SymbolScope symbols s1 = Inr s'"
    using assms by (auto simp: replace_scopes_def and_then_Inr)
  show ?thesis
    by (cases paths; cases symbols)
      (auto simp: task_scope_on_def replace_scope_rows [OF 1] replace_scope_rows [OF 2]
        comp_def filter_map cong: conj_cong
        intro!: arg_cong [where f = "\<lambda>rs. sort (map (\<lambda>r. snd (snd r)) rs)"] filter_cong)
qed

definition held_claims :: "ledger \<Rightarrow> string \<Rightarrow> task list" where
  "held_claims s agent = filter (\<lambda>t. t_status t = Claimed \<and> t_owner t = Some agent) (s_tasks s)"

lemma held_claims_card:
  assumes "logged s"
  shows "length (held_claims s agent) =
    card {j. \<exists>t. get_task s j = Some t \<and> t_status t = Claimed \<and> t_owner t = Some agent}"
proof -
  have d: "distinct (map t_id (held_claims s agent))"
    unfolding held_claims_def by (rule distinct_map_filter) (rule logged_distinct [OF assms])
  have "{j. \<exists>t. get_task s j = Some t \<and> t_status t = Claimed \<and> t_owner t = Some agent} =
        set (map t_id (held_claims s agent))"
    by (auto simp: held_claims_def get_task_unique [OF logged_distinct [OF assms]])
  then show ?thesis
    using distinct_card [OF d] by simp
qed

lemma claim_limit_held:
  assumes "refuse_beyond_claim_limit s i agent = Inr ()"
  shows "(\<exists>t \<in> set (s_tasks s). t_id t = i \<and> t_status t = Claimed \<and> t_owner t = Some agent) \<or>
         length (held_claims s agent) < MAX_CONCURRENT_CLAIMS"
  using assms by (auto simp: refuse_beyond_claim_limit_def held_claims_def Let_def split: if_splits)

lemma claim_cases:
  assumes inv: "logged s"
    and run: "claim_task_with_partial_scope glob i agent l paths symbols now s = Inr (won, s')"
  obtains "\<not> won" and "s' = s" and "\<And>t. get_task s i = Some t \<Longrightarrow> \<not> claim_guard agent now t"
  | t s2 where "won" and "get_task s i = Some t" and "claim_guard agent now t"
      and "s' = event_append EvClaimed (Some agent) now
             (claim_row (session_branch s agent) agent l now t)
             (Some (JObj [(''lease_secs'', JInt l)])) s2"
      and "get_task s' = (get_task s)(i \<mapsto> claim_row (session_branch s agent) agent l now t)"
      and "logged s'" and "s_events s2 = s_events s"
      and "refuse_beyond_claim_limit s i agent = Inr ()"
proof -
  obtain paths' where
    lim: "refuse_beyond_claim_limit s i agent = Inr ()" and
    tr: "transact i (claim_guard agent now) (claim_row (session_branch s agent) agent l now)
           (replace_scopes i paths' (map_option normalize_symbols symbols))
           EvClaimed (Some agent) now (Some (JObj [(''lease_secs'', JInt l)])) s = Inr (won, s')"
    by (rule claim_runs [OF run])
  show thesis
    by (rule transact_cases [OF inv claim_row_keeps replace_scopes_side tr])
      (use that lim in blast)+
qed



lemma unscoped_claim:
  assumes "logged s" "get_task s i = Some t" "claim_guard agent now t" "refuse_beyond_claim_limit s i agent = Inr ()"
  shows "\<exists>s'. claim_task_with_partial_scope glob i agent l None None now s = Inr (True, s') \<and>
    get_task s' = (get_task s)(i \<mapsto> claim_row (session_branch s agent) agent l now t) \<and> task_scope_on s' i = task_scope_on s i"
proof -
  let ?f = "claim_row (session_branch s agent) agent l now"
  let ?s1 = "snd (execute_update i (claim_guard agent now) ?f s)"
  have none: "replace_scopes i None None = Inr" by (simp add: fun_eq_iff replace_scopes_def replace_scope_def)
  note run = transact_applies [where g = "claim_guard agent now", OF assms(1) claim_row_keeps side_table_none assms(2,3) refl]
  have "get_task ?s1 = (get_task s)(i \<mapsto> ?f t)"
    using assms(2,3) by (auto simp: fun_eq_iff get_execute_update [OF claim_row_keeps] option.map_ident)
  moreover have "task_scope_on ?s1 i = task_scope_on s i" by (simp add: task_scope_on_def snd_execute_update)
  moreover have "task_scope_on (event_append k a n u d ?s1) i = task_scope_on ?s1 i" for k a n u d by (simp add: task_scope_on_def)
  ultimately show ?thesis using assms(4) by (simp add: claim_task_with_partial_scope_def none run)
qed


text \<open>
  Exclusion. After an agent wins a claim, no other agent wins the same task while the lease
  runs, whatever scope it declares.
\<close>

theorem claim_excludes_others:
  assumes "logged s"
    and "claim_task_with_partial_scope glob i agent l paths symbols now s = Inr (True, s')"
    and "other \<noteq> agent" and "now' \<le> now + l"
    and "claim_task_with_partial_scope glob' i other l' paths' symbols' now' s' = Inr (won, s'')"
  shows "\<not> won \<and> s'' = s'"
proof -
  have log: "logged s'" using claim.keeps_logged [OF assms(1,2)] .
  have "get_task s' i =
      Some (claim_row (session_branch s agent) agent l now (the (get_task s i)))"
    by (rule claim_cases [OF assms(1,2)]) auto
  then have "\<not> claim_guard other now' t" if "get_task s' i = Some t" for t
    using that assms(3,4) by (auto simp: claim_guard_def claim_row_def)
  then show ?thesis
    by - (rule claim_cases [OF log assms(5)], blast, blast)
qed

text \<open>
  The limit on concurrent claims. A won claim never leaves the claimant holding more
  claims than the limit, unless it held more before, and then it holds no more than before.
\<close>

theorem claim_respects_limit:
  assumes "logged s"
    and "claim_task_with_partial_scope glob i agent l paths symbols now s = Inr (True, s')"
  shows "length (held_claims s' agent) \<le> max MAX_CONCURRENT_CLAIMS (length (held_claims s agent))"
proof -
  let ?H = "\<lambda>s. {j. \<exists>t. get_task s j = Some t \<and> t_status t = Claimed \<and> t_owner t = Some agent}"
  have log: "logged s'" using claim.keeps_logged [OF assms] .
  show ?thesis
  proof (rule claim_cases [OF assms])
    fix t
    assume t: "get_task s i = Some t"
      and tab: "get_task s' = (get_task s)(i \<mapsto> claim_row (session_branch s agent) agent l now t)"
      and lim: "refuse_beyond_claim_limit s i agent = Inr ()"
    have sub: "?H s' = insert i (?H s)"
      by (auto simp: tab claim_row_def)
    have fin: "finite (?H s)"
      by (rule finite_subset [of _ "set (map t_id (s_tasks s))"])
        (auto dest: get_task_in get_task_id)
    have "i \<in> ?H s \<or> card (?H s) < MAX_CONCURRENT_CLAIMS"
      using claim_limit_held [OF lim] get_task_unique [OF logged_distinct [OF assms(1)]]
      unfolding held_claims_card [OF assms(1)] by blast
    then have "card (?H s') \<le> max MAX_CONCURRENT_CLAIMS (card (?H s))"
      unfolding sub card_insert_if [OF fin] by (auto simp: max_def)
    then show ?thesis
      by (simp add: held_claims_card [OF assms(1)] held_claims_card [OF log])
  qed simp
qed

text \<open>
  C25. Lapse accounting. When the owner of a claim claims it again, the evidence window keeps
  its start and what it replaced; if the lease had expired, one lapse is counted and the
  time since the expiry is added, and if it was still running, nothing is.
\<close>

theorem reclaim_accounts_lapse:
  assumes "logged s" and "get_task s i = Some t"
    and "t_status t = Claimed" and "t_owner t = Some agent" and "t_lease_expires_at t = Some expiry"
    and "claim_task_with_partial_scope glob i agent l paths symbols now s = Inr (True, s')"
  shows "claim_window_on s' i =
    (if expiry < now
     then (claim_window_on s i)\<lparr>cw_lapses := cw_lapses (claim_window_on s i) + 1,
            cw_unleased_seconds := cw_unleased_seconds (claim_window_on s i) + (now - expiry)\<rparr>
     else claim_window_on s i)"
proof (rule claim_cases [OF assms(1,6)])
  fix t' s2
  assume "get_task s i = Some t'" and ev: "s_events s2 = s_events s"
    and s': "s' = event_append EvClaimed (Some agent) now
           (claim_row (session_branch s agent) agent l now t')
           (Some (JObj [(''lease_secs'', JInt l)])) s2"
  then have "t' = t" using assms(2) by simp
  then show ?thesis
    using window_of_row [OF assms(1,2)] assms(3-5) get_task_id [OF assms(2)]
    by (simp add: s' window_simps task_events_cong [OF ev] claim_row_def)
qed simp

text \<open>
  C26. Takeover. When another agent takes a claim over, it opens a fresh window that starts now
  with no lapses, and the displaced window is recorded with the owner, start and gaps it had.
\<close>

theorem takeover_opens_fresh_window:
  assumes "logged s" and "get_task s i = Some t"
    and "t_status t = Claimed" and "t_owner t = Some owner" and "owner \<noteq> agent"
    and "claim_task_with_partial_scope glob i agent l paths symbols now s = Inr (True, s')"
  shows "claim_window_on s' i =
    \<lparr>cw_started_at = Some now, cw_lapses = 0, cw_unleased_seconds = 0,
     cw_replaced = Some \<lparr>rw_owner = Some owner, rw_started_at = t_claim_started_at t,
       rw_lapses = cw_lapses (claim_window_on s i),
       rw_unleased_seconds = cw_unleased_seconds (claim_window_on s i), rw_owner_changed = True\<rparr>\<rparr>"
proof (rule claim_cases [OF assms(1,6)])
  fix t' s2
  assume "get_task s i = Some t'" and ev: "s_events s2 = s_events s"
    and s': "s' = event_append EvClaimed (Some agent) now
           (claim_row (session_branch s agent) agent l now t')
           (Some (JObj [(''lease_secs'', JInt l)])) s2"
  then have "t' = t" using assms(2) by simp
  then show ?thesis
    using window_of_row [OF assms(1,2)] assms(3-5) get_task_id [OF assms(2)]
    by (simp add: s' window_simps task_events_cong [OF ev] claim_row_def window_displace_def)
qed simp


theorem claim_excludes_others_witness:
  "\<exists>s'. claim_task_with_partial_scope (\<lambda>_. None) ''a'' ''x'' 10 None None 5
          (imported [sample_task ''a'']) = Inr (True, s') \<and>
        claim_task_with_partial_scope (\<lambda>_. None) ''a'' ''y'' 10 None None 15 s' = Inr (False, s')"
proof -
  let ?s = "imported [sample_task ''a'']"
  let ?c = "\<lambda>agent now. claim_task_with_partial_scope (\<lambda>_. None) ''a'' agent 10 None None now"
  have log: "logged ?s" by (rule imported_logged) simp
  have "wins (?c ''x'' 5 ?s)" by code_simp
  then obtain s' where r: "?c ''x'' 5 ?s = Inr (True, s')"
    by (auto simp: wins_iff)
  have "case ?c ''x'' 5 ?s of Inr (_, s1) \<Rightarrow> \<not> isl (?c ''y'' 15 s1) | Inl _ \<Rightarrow> False"
    by code_simp
  then obtain won s'' where r2: "?c ''y'' 15 s' = Inr (won, s'')"
    by (cases "?c ''y'' 15 s'") (auto simp: r)
  have "\<not> won \<and> s'' = s'"
    by (rule claim_excludes_others [OF log r _ _ r2]) simp_all
  with r r2 show ?thesis by auto
qed

theorem claim_respects_limit_witness:
  "\<exists>s'. claim_task_with_partial_scope (\<lambda>_. None) ''c'' ''x'' 10 None None 5
          (imported [sample_claim ''a'' ''x'' 1 9, sample_claim ''b'' ''x'' 1 9, sample_task ''c'']) =
            Inr (True, s') \<and> length (held_claims s' ''x'') \<le> MAX_CONCURRENT_CLAIMS"
proof -
  let ?s = "imported [sample_claim ''a'' ''x'' 1 9, sample_claim ''b'' ''x'' 1 9, sample_task ''c'']"
  have log: "logged ?s" by (rule imported_logged) (simp add: sample_claim_def sample_task_def)
  have "wins (claim_task_with_partial_scope (\<lambda>_. None) ''c'' ''x'' 10 None None 5 ?s)"
    by code_simp
  then obtain s' where
    r: "claim_task_with_partial_scope (\<lambda>_. None) ''c'' ''x'' 10 None None 5 ?s = Inr (True, s')"
    by (auto simp: wins_iff)
  have "length (held_claims ?s ''x'') \<le> MAX_CONCURRENT_CLAIMS" by code_simp
  with claim_respects_limit [OF log r] r show ?thesis by auto
qed

theorem reclaim_accounts_lapse_witness:
  "\<exists>s'. claim_task_with_partial_scope (\<lambda>_. None) ''a'' ''x'' 10 None None 12
          (imported [sample_claim ''a'' ''x'' 1 9]) = Inr (True, s') \<and>
        cw_lapses (claim_window_on s' ''a'') = 1 \<and> cw_unleased_seconds (claim_window_on s' ''a'') = 3 \<and>
        cw_started_at (claim_window_on s' ''a'') = Some 1"
proof -
  let ?s = "imported [sample_claim ''a'' ''x'' 1 9]"
  have log: "logged ?s" by (rule imported_logged) simp
  have "wins (claim_task_with_partial_scope (\<lambda>_. None) ''a'' ''x'' 10 None None 12 ?s)"
    by code_simp
  then obtain s' where
    r: "claim_task_with_partial_scope (\<lambda>_. None) ''a'' ''x'' 10 None None 12 ?s = Inr (True, s')"
    by (auto simp: wins_iff)
  have t: "get_task ?s ''a'' = Some (sample_claim ''a'' ''x'' 1 9)" by code_simp
  have w: "claim_window_on ?s ''a'' =
      \<lparr>cw_started_at = Some 1, cw_lapses = 0, cw_unleased_seconds = 0, cw_replaced = None\<rparr>"
    by code_simp
  have "claim_window_on s' ''a'' =
      (claim_window_on ?s ''a'')\<lparr>cw_lapses := cw_lapses (claim_window_on ?s ''a'') + 1,
         cw_unleased_seconds := cw_unleased_seconds (claim_window_on ?s ''a'') + (12 - 9)\<rparr>"
    using reclaim_accounts_lapse [OF log t _ _ _ r, of 9] by (simp add: sample_claim_def)
  with r w show ?thesis by auto
qed

theorem takeover_opens_fresh_window_witness:
  "\<exists>s'. claim_task_with_partial_scope (\<lambda>_. None) ''a'' ''y'' 10 None None 12
          (imported [sample_claim ''a'' ''x'' 1 9]) = Inr (True, s') \<and>
        cw_started_at (claim_window_on s' ''a'') = Some 12 \<and>
        map_option rw_owner (cw_replaced (claim_window_on s' ''a'')) = Some (Some ''x'')"
proof -
  let ?s = "imported [sample_claim ''a'' ''x'' 1 9]"
  have log: "logged ?s" by (rule imported_logged) simp
  have "wins (claim_task_with_partial_scope (\<lambda>_. None) ''a'' ''y'' 10 None None 12 ?s)"
    by code_simp
  then obtain s' where
    r: "claim_task_with_partial_scope (\<lambda>_. None) ''a'' ''y'' 10 None None 12 ?s = Inr (True, s')"
    by (auto simp: wins_iff)
  have t: "get_task ?s ''a'' = Some (sample_claim ''a'' ''x'' 1 9)" by code_simp
  show ?thesis
    using r takeover_opens_fresh_window [OF log t _ _ _ r, of "''x''"] by (simp add: sample_claim_def)
qed

subsection \<open>Heartbeats\<close>

text \<open>
  A lease is kept only by its owner and only while it runs. Renewal and heartbeat take
  effect exactly on a claimed task of the caller whose lease has not expired; they keep the
  owner and the whole evidence window, and a heartbeat never shortens the lease. On a lapsed
  lease both change nothing.
\<close>

theorem lease_extension:
  assumes "logged s" and "get_task s i = Some t"
    and "renew_lease i agent l now s = Inr (renewed, s1)"
    and "touch_lease i agent l now s = Inr (touched, s2)"
  shows "(renewed \<longleftrightarrow> live_lease_guard agent now t) \<and> (touched \<longleftrightarrow> live_lease_guard agent now t) \<and>
    (if live_lease_guard agent now t
     then claim_window_on s1 i = claim_window_on s i \<and> claim_window_on s2 i = claim_window_on s i \<and>
       get_task s1 i = Some (t\<lparr>t_lease_expires_at := Some (now + l), t_updated_at := now\<rparr>) \<and>
       get_task s2 i = Some (t\<lparr>t_lease_expires_at :=
           Some (max (the (t_lease_expires_at t)) (now + l)), t_updated_at := now\<rparr>)
     else s1 = s \<and> s2 = s)"
proof -
  let ?f = "\<lambda>t. t\<lparr>t_lease_expires_at := Some (now + l), t_updated_at := now\<rparr>"
  let ?g = "\<lambda>t. t\<lparr>t_lease_expires_at := sql_max (t_lease_expires_at t) (now + l), t_updated_at := now\<rparr>"
  have keep: "keeps_id ?f" "keeps_id ?g" by (simp_all add: keeps_id_def)
  have id: "t_id t = i" using get_task_id [OF assms(2)] .
  have 1: "(renewed \<longleftrightarrow> live_lease_guard agent now t) \<and>
      (if live_lease_guard agent now t
       then claim_window_on s1 i = claim_window_on s i \<and> get_task s1 i = Some (?f t) else s1 = s)"
    by (rule transact_cases [OF assms(1) keep(1) side_table_none assms(3) [unfolded renew_lease_def]])
      (use assms(2) id in \<open>auto simp: same_window_step [OF assms(1,2)]\<close>)
  have 2: "(touched \<longleftrightarrow> live_lease_guard agent now t) \<and>
      (if live_lease_guard agent now t
       then claim_window_on s2 i = claim_window_on s i \<and> get_task s2 i = Some (?g t) else s2 = s)"
    by (rule transact_cases [OF assms(1) keep(2) side_table_none assms(4) [unfolded touch_lease_def]])
      (use assms(2) id in \<open>auto simp: same_window_step [OF assms(1,2)]\<close>)
  have "live_lease_guard agent now t \<Longrightarrow>
      sql_max (t_lease_expires_at t) (now + l) = Some (max (the (t_lease_expires_at t)) (now + l))"
    by (cases "t_lease_expires_at t") (auto simp: live_lease_guard_def sql_max_def)
  with 1 2 show ?thesis by auto
qed

theorem lease_extension_witness:
  "\<exists>s1 s2. renew_lease ''a'' ''x'' 2 5 (imported [sample_claim ''a'' ''x'' 1 9]) = Inr (True, s1) \<and>
     touch_lease ''a'' ''x'' 2 5 (imported [sample_claim ''a'' ''x'' 1 9]) = Inr (True, s2) \<and>
     map_option t_lease_expires_at (get_task s1 ''a'') = Some (Some 7) \<and>
     map_option t_lease_expires_at (get_task s2 ''a'') = Some (Some 9)"
proof -
  let ?s = "imported [sample_claim ''a'' ''x'' 1 9]"
  have log: "logged ?s" by (rule imported_logged) simp
  have "wins (renew_lease ''a'' ''x'' 2 5 ?s)" and "wins (touch_lease ''a'' ''x'' 2 5 ?s)"
    by code_simp+
  then obtain s1 s2 where r: "renew_lease ''a'' ''x'' 2 5 ?s = Inr (True, s1)"
      "touch_lease ''a'' ''x'' 2 5 ?s = Inr (True, s2)"
    by (auto simp: wins_iff)
  have t: "get_task ?s ''a'' = Some (sample_claim ''a'' ''x'' 1 9)" by code_simp
  show ?thesis
    using r lease_extension [OF log t r]
    by (simp add: sample_claim_def sample_task_def live_lease_guard_def)
qed

subsection \<open>What an overlap check reports\<close>

definition glob_hit :: "globset \<Rightarrow> string list \<Rightarrow> string \<Rightarrow> bool" where
  "glob_hit glob decl r \<longleftrightarrow> (\<exists>d \<in> set decl. case glob d of None \<Rightarrow> False | Some m \<Rightarrow> m r)"

lemma matches_any_Inr: "matches_any glob r ds = Inr b \<Longrightarrow> b \<longleftrightarrow> glob_hit glob ds r"
  by (induction ds)
    (auto simp: glob_hit_def and_then_Inr compile_scope_glob_def split: option.splits if_splits)

lemma intersect_paths_set:
  assumes "intersect_paths glob req decl = Inr ms"
  shows "set ms = {r \<in> set req. glob_hit glob decl r}"
proof -
  obtain found where f: "try_fold (\<lambda>acc request. and_then (matches_any glob request decl)
          (\<lambda>b. Inr (if b then acc @ [request] else acc))) [] req = Inr found"
    and ms: "ms = sort_dedup found"
    using assms by (auto simp: intersect_paths_def and_then_Inr)
  let ?P = "\<lambda>r ys. ys = (if glob_hit glob decl r then [r] else [])"
  have "\<exists>yss. list_all2 ?P req yss \<and> found = [] @ concat yss"
    by (rule try_fold_collect [OF _ f]) (auto simp: and_then_Inr dest: matches_any_Inr)
  then obtain yss where y: "list_all2 ?P req yss" "found = concat yss" by auto
  have "set (concat yss) = (\<Union>r \<in> set req. if glob_hit glob decl r then {r} else {})"
    by (rule list_all2_concat_set [OF y(1)]) simp
  then show ?thesis
    by (simp add: ms y(2) set_eq_iff)
qed

definition scopes_meet :: "globset \<Rightarrow> task_scope \<Rightarrow> task_scope \<Rightarrow> bool" where
  "scopes_meet glob req decl \<longleftrightarrow>
     (\<exists>r \<in> set (sc_paths req). glob_hit glob (sc_paths decl) r) \<or>
     (\<exists>y \<in> set (sc_symbols req). y \<in> set (sc_symbols decl))"

lemma overlap_of_Inr:
  assumes "overlap_of glob req rb i w l sc wb acc = Inr acc'"
  shows "\<exists>ys. acc' = acc @ ys \<and> map co_task_id ys = (if scopes_meet glob req sc then [i] else []) \<and>
    (\<forall>c \<in> set ys. co_owner c = w \<and> co_signal c = classify_overlap rb wb)"
proof -
  obtain ms where ms: "intersect_paths glob (sc_paths req) (sc_paths sc) = Inr ms"
    using assms by (auto simp: overlap_of_def and_then_Inr)
  have "ms \<noteq> [] \<or> filter (\<lambda>y. y \<in> set (sc_symbols sc)) (sc_symbols req) \<noteq> [] \<longleftrightarrow>
        scopes_meet glob req sc"
    unfolding scopes_meet_def set_empty [symmetric] intersect_paths_set [OF ms] set_filter by blast
  with assms ms show ?thesis
    by (auto simp: overlap_of_def and_then_Inr Let_def split: if_splits)
qed

text \<open>
  The overlap check is sound and complete. The claims it reports are exactly the tasks that
  are claimed with a running lease, are not the excluded one, and whose declared scope meets
  the requested one: a requested path matched by a declared glob, or a shared symbol.
\<close>

theorem overlap_reports_active_intersections:
  assumes "check_claim_overlap glob s requested exclude requester now = Inr report"
  shows "set (map co_task_id (rep_claims report)) =
    t_id ` {t \<in> set (s_tasks s). t_status t = Claimed \<and> sql_ge (t_lease_expires_at t) now \<and>
       Some (t_id t) \<noteq> exclude \<and>
       scopes_meet glob (normalize_scope_values requested) (task_scope_on s (t_id t))}"
proof -
  let ?req = "normalize_scope_values requested" and ?rb = "declared_branch s requester"
  let ?P = "\<lambda>t ys. map co_task_id ys =
      (if scopes_meet glob ?req (task_scope_on s (t_id t)) then [t_id t] else [])"
  obtain cs where run: "try_fold (\<lambda>acc t. and_then (claim_columns t) (\<lambda>(task_id, owner, lease).
               overlap_of glob ?req ?rb task_id owner lease (task_scope_on s task_id)
                 (declared_branch s (Some owner)) acc))
             [] (active_claims s exclude now) = Inr cs" and rep: "rep_claims report = cs"
    using assms by (auto simp: check_claim_overlap_def and_then_Inr Let_def)
  have "\<exists>yss. list_all2 ?P (active_claims s exclude now) yss \<and> cs = [] @ concat yss"
    by (rule try_fold_collect [OF _ run])
      (auto simp: and_then_Inr claim_columns_def split: option.splits dest!: overlap_of_Inr)
  then obtain yss where y: "list_all2 ?P (active_claims s exclude now) yss" "cs = concat yss"
    by auto
  have "list_all2 (\<lambda>t zs. zs = (if scopes_meet glob ?req (task_scope_on s (t_id t)) then [t_id t] else []))
      (active_claims s exclude now) (map (map co_task_id) yss)"
    using y(1) by (simp add: list_all2_map2 list_all2_mono)
  from list_all2_concat_set [OF this]
  have "set (concat (map (map co_task_id) yss)) =
      (\<Union>t \<in> set (active_claims s exclude now).
         if scopes_meet glob ?req (task_scope_on s (t_id t)) then {t_id t} else {})"
    by (auto split: if_splits)
  then show ?thesis
    by (auto simp: rep y(2) map_concat active_claims_def split: if_splits)
qed

definition sample_scoped :: ledger where
  "sample_scoped = (imported [sample_claim ''a'' ''x'' 1 9, sample_claim ''b'' ''y'' 1 9])
     \<lparr>s_scopes := [(''a'', PathScope, ''src/m.rs''), (''b'', SymbolScope, ''symbol:f'')]\<rparr>"

theorem overlap_reports_active_intersections_witness:
  "\<exists>report. check_claim_overlap (\<lambda>p. Some ((=) p)) sample_scoped
       \<lparr>sc_paths = ['' src/m.rs''], sc_symbols = []\<rparr> None None 5 = Inr report \<and>
     map co_task_id (rep_claims report) = [''a''] \<and>
     ''a'' \<in> t_id ` {t \<in> set (s_tasks sample_scoped). sql_ge (t_lease_expires_at t) 5}"
proof -
  let ?r = "check_claim_overlap (\<lambda>p. Some ((=) p)) sample_scoped
       \<lparr>sc_paths = ['' src/m.rs''], sc_symbols = []\<rparr> None None 5"
  have "case ?r of Inr rep \<Rightarrow> map co_task_id (rep_claims rep) = [''a''] | Inl _ \<Rightarrow> False"
    by code_simp
  then obtain report where r: "?r = Inr report" and c: "map co_task_id (rep_claims report) = [''a'']"
    by (auto split: sum.splits)
  have "''a'' \<in> set (map co_task_id (rep_claims report))" by (simp only: c list.set_intros)
  then have "''a'' \<in> t_id ` {t \<in> set (s_tasks sample_scoped). sql_ge (t_lease_expires_at t) 5}"
    unfolding overlap_reports_active_intersections [OF r] by blast
  with r c show ?thesis by (intro exI [of _ report] conjI)
qed

end
