(* ===== verification/Waivers.thy ===== *)
theory Waivers
  imports Controls Task_Claim
begin

text \<open>
  Bounded exceptions to clauses: what a waiver is and when one may be granted (\<^verbatim>\<open>waiver.rs\<close>), the
  table of waivers (\<^verbatim>\<open>store/waivers.rs\<close>), and the waiver that excuses a change
  (\<^verbatim>\<open>facade/waivers.rs\<close>). The table is the list of its rows in insertion order.
\<close>

datatype waiver_status = WaiverActive | WaiverRevoked

fun waiver_status_as_str :: "waiver_status \<Rightarrow> string" where
  "waiver_status_as_str WaiverActive = ''active''"
| "waiver_status_as_str WaiverRevoked = ''revoked''"

definition waiver_status_from_tag :: "string \<Rightarrow> waiver_status option" where
  "waiver_status_from_tag s =
     (if s = ''active'' then Some WaiverActive else if s = ''revoked'' then Some WaiverRevoked else None)"

interpretation waiver_status_tag: tagged_enum waiver_status_as_str waiver_status_from_tag
proof unfold_locales
  fix x :: waiver_status
  show "waiver_status_from_tag (waiver_status_as_str x) = Some x"
    by (cases x) (simp_all add: waiver_status_from_tag_def)
qed (auto simp: waiver_status_from_tag_def split: if_splits)

record waiver =
  wv_id :: string
  wv_clause_id :: string
  wv_constitution_version :: "string option"
  wv_scope :: string
  wv_reason :: string
  wv_approved_by :: string
  wv_created_at :: int
  wv_expires_at :: int
  wv_remediation_task_id :: "string option"
  wv_status :: waiver_status
  wv_revoked_by :: "string option"
  wv_revoked_at :: "int option"
  wv_revocation_reason :: "string option"

definition applies_to :: "waiver \<Rightarrow> string \<Rightarrow> int \<Rightarrow> bool" where
  "applies_to w target now \<longleftrightarrow>
     wv_status w = WaiverActive \<and> now < wv_expires_at w \<and> covers (wv_scope w) target"

definition is_live :: "waiver \<Rightarrow> int \<Rightarrow> bool" where
  "is_live w now \<longleftrightarrow> wv_status w = WaiverActive \<and> now < wv_expires_at w"

record waiver_request =
  wq_clause_id :: string
  wq_scope :: string
  wq_reason :: string
  wq_approved_by :: string
  wq_expires_at :: int
  wq_remediation_task_id :: "string option"

definition validate_request :: "goal \<Rightarrow> waiver_request \<Rightarrow> int \<Rightarrow> unit res" where
  "validate_request clause req now =
     (if blank (wq_approved_by req) then Inl (Invalid (Policy WaiverApprover))
      else if blank (wq_reason req) then Inl (Invalid (Policy WaiverReason))
      else if blank (wq_scope req) then Inl (Invalid (Policy WaiverScope))
      else if \<not> g_waivable clause then Inl (Invalid (Policy (Unwaivable (g_id clause))))
      else case g_waiver_authority clause of
        Some authority \<Rightarrow>
          if \<not> blank authority \<and> trim authority \<noteq> trim (wq_approved_by req)
          then Inl (Invalid (Policy (WaiverAuthority (g_id clause) authority (wq_approved_by req))))
          else if wq_expires_at req \<le> now then Inl (Invalid (Policy WaiverExpiry))
          else Inr ()
      | None \<Rightarrow> if wq_expires_at req \<le> now then Inl (Invalid (Policy WaiverExpiry)) else Inr ())"

subsection \<open>The table of waivers\<close>

definition get_goal :: "ledger \<Rightarrow> string \<Rightarrow> goal option" where
  "get_goal s i = find (\<lambda>g. g_id g = i) (s_goals s)"

definition active_constitution_version :: "constitution_version list \<Rightarrow> constitution_version option" where
  "active_constitution_version versions =
     (case sort_key (\<lambda>v. - v_version v) (filter (\<lambda>v. v_status v = GoalActive) versions) of
        [] \<Rightarrow> None
      | v # _ \<Rightarrow> Some v)"

definition find_waiver :: "waiver list \<Rightarrow> string \<Rightarrow> waiver option" where
  "find_waiver tbl i = find (\<lambda>w. wv_id w = i) tbl"

definition insert_waiver ::
  "constitution_version list \<Rightarrow> goal \<Rightarrow> string \<Rightarrow> waiver_request \<Rightarrow> int \<Rightarrow> waiver list \<Rightarrow>
   (waiver \<times> waiver list) res" where
  "insert_waiver versions clause i req now tbl =
     (let w = \<lparr>wv_id = i, wv_clause_id = wq_clause_id req,
               wv_constitution_version =
                 (case active_constitution_version versions of
                    Some v \<Rightarrow> Some (v_id v) | None \<Rightarrow> g_constitution_version clause),
               wv_scope = wq_scope req, wv_reason = wq_reason req, wv_approved_by = wq_approved_by req,
               wv_created_at = now, wv_expires_at = wq_expires_at req,
               wv_remediation_task_id = wq_remediation_task_id req, wv_status = WaiverActive,
               wv_revoked_by = None, wv_revoked_at = None, wv_revocation_reason = None\<rparr>
      in if find_waiver tbl i \<noteq> None then Inl (Sqlite ''waivers'') else Inr (w, tbl @ [w]))"

definition store_grant_waiver ::
  "ledger \<Rightarrow> constitution_version list \<Rightarrow> string \<Rightarrow> waiver_request \<Rightarrow> int \<Rightarrow> waiver list \<Rightarrow>
   (waiver \<times> waiver list) res" where
  "store_grant_waiver s versions i req now tbl =
     (case get_goal s (wq_clause_id req) of
        None \<Rightarrow> Inl (NotFound (wq_clause_id req))
      | Some clause \<Rightarrow> and_then (validate_request clause req now) (\<lambda>_.
          case wq_remediation_task_id req of
            Some t \<Rightarrow>
              if get_task s t = None then Inl (NotFound (''remediation task '' @ t))
              else insert_waiver versions clause i req now tbl
          | None \<Rightarrow> insert_waiver versions clause i req now tbl))"

definition revoke_waiver ::
  "string \<Rightarrow> string \<Rightarrow> string \<Rightarrow> int \<Rightarrow> waiver list \<Rightarrow> (waiver \<times> waiver list) res" where
  "revoke_waiver i revoked_by reason now tbl =
     (if blank revoked_by \<or> blank reason then Inl (Invalid (Policy RevocationAttribution))
      else if \<exists>w \<in> set tbl. wv_id w = i \<and> wv_status w = WaiverActive
      then let tbl' = map (\<lambda>w. if wv_id w = i \<and> wv_status w = WaiverActive
                              then w\<lparr>wv_status := WaiverRevoked, wv_revoked_by := Some revoked_by,
                                     wv_revoked_at := Some now, wv_revocation_reason := Some reason\<rparr>
                              else w) tbl
           in case find_waiver tbl' i of None \<Rightarrow> Inl (NotFound i) | Some w \<Rightarrow> Inr (w, tbl')
      else if find_waiver tbl i \<noteq> None then Inl (Invalid (Policy (AlreadyRevoked i)))
      else Inl (NotFound i))"

definition waivers_for_clause :: "waiver list \<Rightarrow> string \<Rightarrow> waiver list" where
  "waivers_for_clause tbl clause_id =
     sort_key (\<lambda>w. - wv_created_at w) (sort_key wv_id (filter (\<lambda>w. wv_clause_id w = clause_id) tbl))"

definition live_waivers_for_clause :: "waiver list \<Rightarrow> string \<Rightarrow> int \<Rightarrow> waiver list" where
  "live_waivers_for_clause tbl clause_id now =
     sort_key (\<lambda>w. - wv_created_at w) (sort_key wv_id
       (filter (\<lambda>w. wv_clause_id w = clause_id \<and> wv_status w = WaiverActive \<and> now < wv_expires_at w) tbl))"

definition live_waivers :: "waiver list \<Rightarrow> int \<Rightarrow> waiver list" where
  "live_waivers tbl now =
     sort_key wv_expires_at (sort_key wv_id
       (filter (\<lambda>w. wv_status w = WaiverActive \<and> now < wv_expires_at w) tbl))"

subsection \<open>The facade\<close>

definition waiver_digest_input :: "waiver_request \<Rightarrow> int \<Rightarrow> string" where
  "waiver_digest_input req now =
     wq_clause_id req @ ''|'' @ wq_scope req @ ''|'' @ wq_approved_by req @ ''|'' @ show_int now"

definition grant_waiver ::
  "(string \<Rightarrow> string) \<Rightarrow> ledger \<Rightarrow> constitution_version list \<Rightarrow> waiver_request \<Rightarrow> int \<Rightarrow> waiver list \<Rightarrow>
   (waiver \<times> waiver list) res" where
  "grant_waiver hash s versions req now tbl =
     store_grant_waiver s versions (''waiver:'' @ hash (waiver_digest_input req now)) req now tbl"

definition excusing_waiver :: "waiver list \<Rightarrow> goal \<Rightarrow> string \<Rightarrow> int \<Rightarrow> waiver option" where
  "excusing_waiver tbl clause target now =
     (let matching = filter (\<lambda>w. applies_to w target now) (live_waivers_for_clause tbl (g_id clause) now) in
      case sort_key (\<lambda>w. - int (length (wv_scope w))) (sort_key wv_id matching) of
        [] \<Rightarrow> None
      | w # _ \<Rightarrow> Some w)"

subsection \<open>What a waiver promises\<close>

lemma find_waiver_snoc:
  "find_waiver (tbl @ [w]) j =
     (case find_waiver tbl j of None \<Rightarrow> if wv_id w = j then Some w else None | Some x \<Rightarrow> Some x)"
  by (induction tbl) (auto simp: find_waiver_def)

lemma validate_request_Inr:
  "validate_request clause req now = Inr u \<longleftrightarrow>
     \<not> blank (wq_approved_by req) \<and> \<not> blank (wq_reason req) \<and> \<not> blank (wq_scope req) \<and> g_waivable clause \<and>
     (\<forall>a. g_waiver_authority clause = Some a \<longrightarrow> blank a \<or> trim a = trim (wq_approved_by req)) \<and>
     now < wq_expires_at req"
  by (auto simp: validate_request_def split: option.splits if_splits)

lemma insert_waiver_Inr:
  "insert_waiver versions clause i req now tbl = Inr (w, tbl') \<Longrightarrow>
     find_waiver tbl i = None \<and> tbl' = tbl @ [w] \<and> wv_id w = i \<and> wv_clause_id w = wq_clause_id req \<and>
     wv_scope w = wq_scope req \<and> wv_expires_at w = wq_expires_at req \<and> wv_status w = WaiverActive \<and>
     wv_approved_by w = wq_approved_by req"
  by (auto simp: insert_waiver_def Let_def split: if_splits)

text \<open>
  When an exception is granted. A waiver is granted exactly when the clause exists and allows
  waivers, the request has an approver, a reason and a scope, the approver is the authority the
  clause names, if it names one, the expiry is in the future, the remediation task exists and
  the identifier is new; the granted waiver is live now and at no time from its expiry on.
\<close>

theorem waiver_granted_iff:
  "((\<exists>w tbl'. store_grant_waiver s versions i req now tbl = Inr (w, tbl')) \<longleftrightarrow>
     (\<exists>clause. get_goal s (wq_clause_id req) = Some clause \<and> g_waivable clause \<and>
        (\<forall>a. g_waiver_authority clause = Some a \<longrightarrow> blank a \<or> trim a = trim (wq_approved_by req))) \<and>
     \<not> blank (wq_approved_by req) \<and> \<not> blank (wq_reason req) \<and> \<not> blank (wq_scope req) \<and>
     now < wq_expires_at req \<and>
     (\<forall>t. wq_remediation_task_id req = Some t \<longrightarrow> get_task s t \<noteq> None) \<and>
     find_waiver tbl i = None) \<and>
   (\<forall>w tbl'. store_grant_waiver s versions i req now tbl = Inr (w, tbl') \<longrightarrow>
     tbl' = tbl @ [w] \<and> is_live w now \<and> (\<forall>n \<ge> wv_expires_at w. \<not> is_live w n \<and> \<not> applies_to w target n))"
proof -
  have ins: "(\<exists>w tbl'. insert_waiver versions c i req now tbl = Inr (w, tbl')) \<longleftrightarrow> find_waiver tbl i = None" for c
    by (auto simp: insert_waiver_def Let_def)
  have "store_grant_waiver s versions i req now tbl = Inr (w, tbl') \<longleftrightarrow>
      (\<exists>clause. get_goal s (wq_clause_id req) = Some clause \<and> validate_request clause req now = Inr () \<and>
        (\<forall>t. wq_remediation_task_id req = Some t \<longrightarrow> get_task s t \<noteq> None) \<and>
        insert_waiver versions clause i req now tbl = Inr (w, tbl'))" for w tbl'
    by (auto simp: store_grant_waiver_def and_then_Inr split: option.splits if_splits)
  then show ?thesis
    using ins
    by (auto simp: validate_request_Inr is_live_def applies_to_def dest!: insert_waiver_Inr)
qed

text \<open>
  C32. Which exception excuses a change. The waiver found is one of the clause's own, neither revoked
  nor lapsed, whose scope covers the target, and no other such waiver has a longer scope; there
  is none exactly when no such waiver exists. A revoked waiver is never the answer again.
\<close>

theorem excusing_waiver_narrowest:
  "(case excusing_waiver tbl clause target now of
      Some w \<Rightarrow> w \<in> set tbl \<and> wv_clause_id w = g_id clause \<and> applies_to w target now \<and>
        (\<forall>v \<in> set tbl. wv_clause_id v = g_id clause \<and> applies_to v target now \<longrightarrow>
           length (wv_scope v) \<le> length (wv_scope w))
    | None \<Rightarrow> (\<forall>v \<in> set tbl. wv_clause_id v = g_id clause \<longrightarrow> \<not> applies_to v target now)) \<and>
   (\<forall>i who why n w' tbl' w. revoke_waiver i who why n tbl = Inr (w', tbl') \<and>
      excusing_waiver tbl' clause target now = Some w \<longrightarrow> wv_id w \<noteq> i)"
proof -
  let ?m = "\<lambda>tbl. filter (\<lambda>w. applies_to w target now) (live_waivers_for_clause tbl (g_id clause) now)"
  have set: "w \<in> set (?m tbl) \<longleftrightarrow> w \<in> set tbl \<and> wv_clause_id w = g_id clause \<and> applies_to w target now" for w tbl
    by (auto simp: live_waivers_for_clause_def applies_to_def)
  have some: "w \<in> set (?m tbl) \<and> (\<forall>v \<in> set (?m tbl). length (wv_scope v) \<le> length (wv_scope w))"
    if e: "excusing_waiver tbl clause target now = Some w" for tbl w
  proof -
    obtain ws where "sort_key (\<lambda>w. - int (length (wv_scope w))) (sort_key wv_id (?m tbl)) = w # ws"
      using e by (auto simp: excusing_waiver_def Let_def split: list.splits)
    from sort_key_hd_min [OF this] show ?thesis by simp
  qed
  have none: "?m tbl = []" if "excusing_waiver tbl clause target now = None" for tbl
    using that by (auto simp: excusing_waiver_def Let_def split: list.splits)
      (metis length_0_conv length_sort)
  have "wv_id w \<noteq> i" if r: "revoke_waiver i who why n tbl = Inr (w', tbl')"
    and e: "excusing_waiver tbl' clause target now = Some w" for i who why n w' tbl' w
  proof -
    have "w \<in> set tbl'" "wv_status w = WaiverActive"
      using some [OF e] set [of w tbl'] by (auto simp: applies_to_def)
    then show ?thesis using r by (auto simp: revoke_waiver_def Let_def split: if_splits option.splits)
  qed
  moreover have "case excusing_waiver tbl clause target now of
      Some w \<Rightarrow> w \<in> set tbl \<and> wv_clause_id w = g_id clause \<and> applies_to w target now \<and>
        (\<forall>v \<in> set tbl. wv_clause_id v = g_id clause \<and> applies_to v target now \<longrightarrow>
           length (wv_scope v) \<le> length (wv_scope w))
    | None \<Rightarrow> (\<forall>v \<in> set tbl. wv_clause_id v = g_id clause \<longrightarrow> \<not> applies_to v target now)"
  proof (cases "excusing_waiver tbl clause target now")
    case None
    from none [OF this] set [of _ tbl] show ?thesis using None by fastforce
  next
    case (Some w)
    from some [OF this] set [of _ tbl] show ?thesis using Some by fastforce
  qed
  ultimately show ?thesis by blast
qed

text \<open>A clause that allows exceptions approved by anyone, and a request for one.\<close>

definition sample_clause :: "string \<Rightarrow> string \<Rightarrow> goal" where
  "sample_clause i slug =
     \<lparr>g_id = i, g_slug = slug, g_kind = Objective, g_title = slug, g_statement = slug, g_status = GoalActive,
      g_version = 1, g_parent_id = None, g_superseded_by = None, g_reason = None, g_created_at = 0,
      g_constitution_version = None, g_rationale = None, g_scope = None, g_evidence_contract = None,
      g_consequence = None, g_waivable = True, g_waiver_authority = None, g_origin = OriginLocal,
      g_source_system = None, g_external_id = None, g_source_ref = None, g_source_digest = None\<rparr>"

definition sample_request :: waiver_request where
  "sample_request = \<lparr>wq_clause_id = ''goal:g'', wq_scope = ''artifact:a**'', wq_reason = ''hotfix'',
     wq_approved_by = ''ana'', wq_expires_at = 50, wq_remediation_task_id = None\<rparr>"

definition sample_policy :: ledger where
  "sample_policy = empty_ledger\<lparr>s_goals := [sample_clause ''goal:g'' ''g'']\<rparr>"

theorem waiver_granted_iff_witness:
  "\<exists>w tbl'. store_grant_waiver sample_policy [] ''w'' sample_request 5 [] = Inr (w, tbl') \<and>
     is_live w 5 \<and> \<not> applies_to w ''artifact:abc'' 50"
proof -
  have "\<not> isl (store_grant_waiver sample_policy [] ''w'' sample_request 5 [])" by code_simp
  then obtain w tbl' where r: "store_grant_waiver sample_policy [] ''w'' sample_request 5 [] = Inr (w, tbl')"
    by (cases "store_grant_waiver sample_policy [] ''w'' sample_request 5 []") auto
  moreover have "wv_expires_at w = 50"
  proof -
    have "case store_grant_waiver sample_policy [] ''w'' sample_request 5 [] of
        Inl _ \<Rightarrow> False | Inr (w, _) \<Rightarrow> wv_expires_at w = 50" by code_simp
    then show ?thesis using r by simp
  qed
  ultimately show ?thesis
    using waiver_granted_iff [of sample_policy "[]" "''w''" sample_request 5 "[]" "''artifact:abc''"] by auto
qed

theorem excusing_waiver_narrowest_witness:
  "\<exists>w tbl. store_grant_waiver sample_policy [] ''w'' sample_request 5 [] = Inr (w, tbl) \<and>
     excusing_waiver tbl (sample_clause ''goal:g'' ''g'') ''artifact:abc'' 49 \<noteq> None"
proof -
  have "case store_grant_waiver sample_policy [] ''w'' sample_request 5 [] of
      Inl _ \<Rightarrow> False
    | Inr (w, tbl) \<Rightarrow> w \<in> set tbl \<and> wv_clause_id w = ''goal:g'' \<and> applies_to w ''artifact:abc'' 49" by code_simp
  then obtain w tbl where r: "store_grant_waiver sample_policy [] ''w'' sample_request 5 [] = Inr (w, tbl)"
    and w: "w \<in> set tbl" "wv_clause_id w = ''goal:g''" "applies_to w ''artifact:abc'' 49"
    by (auto split: sum.splits)
  have "excusing_waiver tbl (sample_clause ''goal:g'' ''g'') ''artifact:abc'' 49 \<noteq> None"
    using excusing_waiver_narrowest [of tbl "sample_clause ''goal:g'' ''g''" "''artifact:abc''" 49] w
    by (auto simp: sample_clause_def split: option.splits)
  with r show ?thesis by blast
qed

end
