(* ===== verification/Knowledge.thy ===== *)
theory Knowledge
  imports Waivers
begin

text \<open>
  Learned knowledge: its decay (\<^verbatim>\<open>decay.rs\<close>), what a lesson refers to (\<^verbatim>\<open>model/knowledge.rs\<close>), the
  tables of lessons and of the notes they come from (\<^verbatim>\<open>store/knowledge.rs\<close>), and the gated ways
  in (\<^verbatim>\<open>facade/knowledge.rs\<close>). The stored evidence is text; reading it as JSON is the parameter
  \<open>parse\<close>, writing JSON as text the parameter \<open>render\<close>, and the short hash of a statement the
  parameter \<open>hash\<close>. Weights are reals; the embedding index of statements is not modelled, and
  failures there are swallowed by the code.
\<close>

subsection \<open>Decay\<close>

definition KNOWLEDGE_DEFAULT_HALF_LIFE_HOURS :: real where
  "KNOWLEDGE_DEFAULT_HALF_LIFE_HOURS = 720"

definition ACTIVE_THRESHOLD :: real where
  "ACTIVE_THRESHOLD = 1 / 20"

definition effective_weight :: "real \<Rightarrow> real \<Rightarrow> int \<Rightarrow> int \<Rightarrow> real" where
  "effective_weight base half_life_hours confirmed_at now =
     (if half_life_hours \<le> 0 then base
      else let dt_hours = of_int (now - confirmed_at) / 3600 in
        if dt_hours \<le> 0 then base else base * 2 powr (- dt_hours / half_life_hours))"

definition is_active :: "real \<Rightarrow> bool" where
  "is_active effective \<longleftrightarrow> ACTIVE_THRESHOLD \<le> effective"

subsection \<open>Lessons\<close>

datatype knowledge_reach = ByNode | ByGoal string | Unreachable

fun reaches :: "knowledge_reach \<Rightarrow> bool" where
  "reaches Unreachable = False"
| "reaches _ = True"

record knowledge =
  k_id :: string
  k_statement :: string
  k_evidence :: string
  k_weight :: real
  k_half_life_hours :: real
  k_confirmed_at :: int
  k_created_at :: int
  k_retired_at :: "int option"
  k_retired_by :: "string option"
  k_retired_reason :: "string option"
  k_superseded_by :: "string option"

fun json_as_array :: "json \<Rightarrow> json list option" where
  "json_as_array (JArr xs) = Some xs"
| "json_as_array _ = None"

definition referenced_nodes_in :: "(string \<Rightarrow> json option) \<Rightarrow> string \<Rightarrow> string list" where
  "referenced_nodes_in parse evidence =
     (case parse evidence of
        None \<Rightarrow> []
      | Some v \<Rightarrow> (case Option.bind (json_get ''nodes'' v) json_as_array of
            None \<Rightarrow> []
          | Some nodes \<Rightarrow> List.map_filter json_as_str nodes))"

definition declared_goal_in :: "(string \<Rightarrow> json option) \<Rightarrow> string \<Rightarrow> string option" where
  "declared_goal_in parse evidence =
     Option.bind (parse evidence) (\<lambda>v. Option.bind (json_get ''goal'' v) json_as_str)"

text \<open>The text after the first occurrence of a pattern.\<close>

fun after_first :: "string \<Rightarrow> string \<Rightarrow> string option" where
  "after_first p s =
     (if prefix p s then Some (drop (length p) s)
      else case s of [] \<Rightarrow> None | _ # rest \<Rightarrow> after_first p rest)"

declare after_first.simps [simp del]

lemma after_first_shorter: "after_first p s = Some r \<Longrightarrow> length r \<le> length s - length p \<and> length p \<le> length s"
proof (induction s)
  case Nil
  then show ?case by (auto simp: after_first.simps [of p "[]"] split: if_splits)
next
  case (Cons x s)
  then show ?case
    by (cases "prefix p (x # s)") (auto simp: after_first.simps [of p "x # s"] dest!: prefix_length_le)
qed

function scan_tasks :: "string list \<Rightarrow> string \<Rightarrow> string list" where
  "scan_tasks found body =
     (case after_first ''task:'' body of
        None \<Rightarrow> found
      | Some rest \<Rightarrow>
          let hex = takeWhile is_ascii_hexdigit rest; i = ''task:'' @ hex in
          scan_tasks (if hex \<noteq> [] \<and> i \<notin> set found then found @ [i] else found)
            (dropWhile is_ascii_hexdigit rest))"
  by pat_completeness auto
termination
proof (relation "measure (\<lambda>(found, body). length body)")
  show "((if x \<noteq> [] \<and> y \<notin> set found then found @ [y] else found, dropWhile is_ascii_hexdigit rest), found, body)
      \<in> measure (\<lambda>(found, body). length body)"
    if "after_first ''task:'' body = Some rest" for found body rest x y
    using after_first_shorter [OF that] length_dropWhile_le [of is_ascii_hexdigit rest]
    by (simp del: length_dropWhile_le) arith
qed simp

declare scan_tasks.simps [simp del]

definition referenced_tasks_in :: "string \<Rightarrow> string list" where
  "referenced_tasks_in evidence = scan_tasks [] evidence"

lemma after_first_Some:
  assumes "after_first p s = Some r" and "p \<noteq> []"
  shows "\<exists>pre. s = pre @ p @ r \<and> (\<forall>a b. s = a @ p @ b \<longrightarrow> length pre \<le> length a)"
  using assms
proof (induction s)
  case Nil
  then show ?case by (simp add: after_first.simps [of p] split: if_splits)
next
  case (Cons x s)
  show ?case
  proof (cases "prefix p (x # s)")
    case True
    then have "x # s = [] @ p @ r" using Cons.prems by (auto simp: after_first.simps [of p] prefix_def)
    then show ?thesis by fastforce
  next
    case False
    then have "after_first p s = Some r" using Cons.prems by (simp add: after_first.simps [of p "x # s"])
    from Cons.IH [OF this Cons.prems(2)] obtain pre where pre: "s = pre @ p @ r"
      and first: "\<And>a b. s = a @ p @ b \<Longrightarrow> length pre \<le> length a" by blast
    have "length (x # pre) \<le> length a" if "x # s = a @ p @ b" for a b
      using that False first [of "tl a" b] by (cases a) (auto simp: prefix_def)
    then show ?thesis using pre by (intro exI [of _ "x # pre"]) simp
  qed
qed

lemma after_first_None: "after_first p s = None \<Longrightarrow> s \<noteq> a @ p @ b"
proof (induction s arbitrary: a)
  case Nil
  then show ?case by (auto simp: after_first.simps [of p] split: if_splits)
next
  case (Cons x s)
  then have "\<not> prefix p (x # s)" "after_first p s = None"
    by (auto simp: after_first.simps [of p "x # s"] split: if_splits)
  then show ?case using Cons.IH by (cases a) (auto simp: prefix_def)
qed

text \<open>An occurrence starts with a letter that is no hexadecimal digit, so the scan steps over none.\<close>

definition names_task :: "string \<Rightarrow> string \<Rightarrow> bool" where
  "names_task body i \<longleftrightarrow>
     (\<exists>a h b. body = a @ ''task:'' @ h @ b \<and> i = ''task:'' @ h \<and> h \<noteq> [] \<and> (\<forall>c \<in> set h. is_ascii_hexdigit c) \<and>
        (b = [] \<or> \<not> is_ascii_hexdigit (hd b)))"

lemma hex_takeWhile:
  assumes "\<forall>c \<in> set h. is_ascii_hexdigit c" and "b = [] \<or> \<not> is_ascii_hexdigit (hd b)"
  shows "takeWhile is_ascii_hexdigit (h @ b) = h" "dropWhile is_ascii_hexdigit (h @ b) = b"
  using assms by (cases b; simp add: takeWhile_append2 dropWhile_append2)+

lemma occurrence_after_hex:
  assumes "h @ s = a @ ''task:'' @ r" and "\<forall>c \<in> set h. is_ascii_hexdigit c"
  shows "\<exists>a'. s = a' @ ''task:'' @ r"
proof -
  have "length h \<le> length a"
  proof (rule ccontr)
    assume "\<not> length h \<le> length a"
    then have "CHR ''t'' \<in> set h"
      using arg_cong [OF assms(1), of "\<lambda>x. x ! length a"] nth_mem [of "length a" h] by (auto simp: nth_append)
    with assms(2) show False by (auto simp: is_ascii_hexdigit_def Let_def)
  qed
  then show ?thesis
    using arg_cong [OF assms(1), of "drop (length h)"] by auto
qed

lemma task_prefix_no_overlap:
  assumes "''task:'' @ rest = a @ ''task:'' @ r" and "a \<noteq> []"
  shows "\<exists>a'. rest = a' @ ''task:'' @ r"
proof -
  obtain x1 a1 where a: "a = x1 # a1" using assms(2) by (cases a) auto
  show ?thesis
    using assms(1) unfolding a
    by (cases a1 rule: list.exhaust; simp; cases "tl a1"; simp; cases "tl (tl a1)"; simp; cases "tl (tl (tl a1))"; simp)
qed

lemma names_task_step:
  assumes "after_first ''task:'' body = Some rest"
  shows "names_task body i \<longleftrightarrow>
    (i = ''task:'' @ takeWhile is_ascii_hexdigit rest \<and> takeWhile is_ascii_hexdigit rest \<noteq> []) \<or>
    names_task (dropWhile is_ascii_hexdigit rest) i"
proof -
  let ?t = "takeWhile is_ascii_hexdigit rest" and ?d = "dropWhile is_ascii_hexdigit rest"
  obtain pre where pre: "body = pre @ ''task:'' @ rest"
    and first: "\<And>a b. body = a @ ''task:'' @ b \<Longrightarrow> length pre \<le> length a"
    using after_first_Some [OF assms] by auto
  have split: "rest = ?t @ ?d" by simp
  have hd: "?d = [] \<or> \<not> is_ascii_hexdigit (hd ?d)" using hd_dropWhile by blast
  show ?thesis
  proof
    assume "names_task body i"
    then obtain a h b where o: "body = a @ ''task:'' @ h @ b" "i = ''task:'' @ h" "h \<noteq> []"
      "\<forall>c \<in> set h. is_ascii_hexdigit c" "b = [] \<or> \<not> is_ascii_hexdigit (hd b)"
      unfolding names_task_def by blast
    show "(i = ''task:'' @ ?t \<and> ?t \<noteq> []) \<or> names_task ?d i"
    proof (cases "length a = length pre")
      case True
      then have "h @ b = rest" using o(1) pre by simp
      then show ?thesis using hex_takeWhile [OF o(4,5)] o by auto
    next
      case False
      then have "length pre < length a" using first [OF o(1)] by simp
      then obtain a2 where a: "a = pre @ a2" "a2 \<noteq> []"
        using o(1) pre by (metis append_eq_append_conv2 le_neq_implies_less length_append less_not_refl
            nat_le_iff_add not_add_less1 append_Nil2)
      have "''task:'' @ rest = a2 @ ''task:'' @ h @ b" using o(1) pre a by simp
      then obtain a3 where "rest = a3 @ ''task:'' @ h @ b"
        using a(2) task_prefix_no_overlap by blast
      then obtain a4 where "?d = a4 @ ''task:'' @ h @ b"
        using occurrence_after_hex [of ?t ?d a3 "h @ b"] split by (metis set_takeWhileD)
      then show ?thesis using o unfolding names_task_def by blast
    qed
  next
    assume "(i = ''task:'' @ ?t \<and> ?t \<noteq> []) \<or> names_task ?d i"
    then show "names_task body i"
    proof
      assume "i = ''task:'' @ ?t \<and> ?t \<noteq> []"
      then show ?thesis
        unfolding names_task_def using pre split hd
        by (intro exI [of _ pre] exI [of _ ?t] exI [of _ ?d]) (auto dest: set_takeWhileD)
    next
      assume "names_task ?d i"
      then obtain a h b where o: "?d = a @ ''task:'' @ h @ b" "i = ''task:'' @ h" "h \<noteq> []"
        "\<forall>c \<in> set h. is_ascii_hexdigit c" "b = [] \<or> \<not> is_ascii_hexdigit (hd b)"
        unfolding names_task_def by blast
      have "body = (pre @ ''task:'' @ ?t @ a) @ ''task:'' @ h @ b" using pre split o(1) by (metis append.assoc)
      then show ?thesis unfolding names_task_def using o by blast
    qed
  qed
qed

lemma scan_tasks_names:
  "set (scan_tasks found body) = set found \<union> {i. names_task body i} \<and>
   (distinct found \<longrightarrow> distinct (scan_tasks found body))"
proof (induction found body rule: scan_tasks.induct)
  case (1 found body)
  show ?case
  proof (cases "after_first ''task:'' body")
    case None
    then have "\<not> names_task body i" for i
      using after_first_None [OF None] by (auto simp: names_task_def)
    then show ?thesis by (simp add: scan_tasks.simps [of found body] None)
  next
    case (Some rest)
    note ih = 1 [OF Some refl refl]
    show ?thesis
      unfolding scan_tasks.simps [of found body] Some option.case Let_def
      using ih names_task_step [OF Some] by (auto split: if_splits)
  qed
qed

text \<open>
  The scan for task identifiers finds exactly the maximal runs of hexadecimal digits after
  the pattern \<open>task:\<close>, wherever they occur in the evidence, each of them once.
\<close>

theorem referenced_tasks_exact:
  "distinct (referenced_tasks_in body) \<and> set (referenced_tasks_in body) = {i. names_task body i}"
  using scan_tasks_names [of "[]" body] by (simp add: referenced_tasks_in_def)

subsection \<open>The tables\<close>

record lessons =
  kn_rows :: "knowledge list"
  kn_sources :: "(string \<times> string \<times> int) list"

definition get_knowledge :: "lessons \<Rightarrow> string \<Rightarrow> knowledge option" where
  "get_knowledge L i = find (\<lambda>k. k_id k = i) (kn_rows L)"

definition knowledge_id :: "(string \<Rightarrow> string) \<Rightarrow> string \<Rightarrow> string" where
  "knowledge_id hash statement = ''knowledge:'' @ hash statement"

definition upsert_knowledge ::
  "(string \<Rightarrow> string) \<Rightarrow> string \<Rightarrow> string \<Rightarrow> real \<Rightarrow> int \<Rightarrow> lessons \<Rightarrow> string \<times> lessons" where
  "upsert_knowledge hash statement evidence half_life_hours now L =
     (let i = knowledge_id hash statement in
      (i, if get_knowledge L i = None
          then L\<lparr>kn_rows := kn_rows L @
                 [\<lparr>k_id = i, k_statement = statement, k_evidence = evidence, k_weight = 1,
                   k_half_life_hours = half_life_hours, k_confirmed_at = now, k_created_at = now,
                   k_retired_at = None, k_retired_by = None, k_retired_reason = None,
                   k_superseded_by = None\<rparr>]\<rparr>
          else L\<lparr>kn_rows := map (\<lambda>k. if k_id k = i
                 then k\<lparr>k_weight := min 1 (k_weight k + 1 / 10), k_evidence := evidence,
                        k_half_life_hours := half_life_hours, k_confirmed_at := now\<rparr> else k) (kn_rows L)\<rparr>))"

definition read_back :: "string \<Rightarrow> lodestar_error \<Rightarrow> lessons \<Rightarrow> knowledge res" where
  "read_back i e L = (case get_knowledge L i of None \<Rightarrow> Inl e | Some k \<Rightarrow> Inr k)"

definition store_record_knowledge ::
  "(string \<Rightarrow> string) \<Rightarrow> string \<Rightarrow> string \<Rightarrow> real \<Rightarrow> int \<Rightarrow> lessons \<Rightarrow> (knowledge \<times> lessons) res" where
  "store_record_knowledge hash statement evidence half_life_hours now L =
     (let (i, L1) = upsert_knowledge hash statement evidence half_life_hours now L in
      and_then (read_back i (Invalid (Lesson LessonVanished)) L1) (\<lambda>k. Inr (k, L1)))"

definition source_of :: "lessons \<Rightarrow> string \<Rightarrow> string option" where
  "source_of L source_ref =
     map_option (\<lambda>r. fst (snd r)) (find (\<lambda>r. fst r = source_ref) (kn_sources L))"

definition set_source :: "string \<Rightarrow> string \<Rightarrow> int \<Rightarrow> lessons \<Rightarrow> lessons" where
  "set_source source_ref i now L =
     L\<lparr>kn_sources :=
        if \<exists>r \<in> set (kn_sources L). fst r = source_ref
        then map (\<lambda>r. if fst r = source_ref then (source_ref, i, now) else r) (kn_sources L)
        else kn_sources L @ [(source_ref, i, now)]\<rparr>"

definition sources_naming :: "lessons \<Rightarrow> string \<Rightarrow> nat" where
  "sources_naming L i = length (filter (\<lambda>r. fst (snd r) = i) (kn_sources L))"

definition retire_row :: "string \<Rightarrow> string \<Rightarrow> string \<Rightarrow> (string option \<Rightarrow> string option) \<Rightarrow> int \<Rightarrow> lessons \<Rightarrow> bool \<times> lessons" where
  "retire_row i actor reason superseded now L =
     (\<exists>k \<in> set (kn_rows L). k_id k = i \<and> k_retired_at k = None,
      L\<lparr>kn_rows := map (\<lambda>k. if k_id k = i \<and> k_retired_at k = None
         then k\<lparr>k_retired_at := Some now, k_retired_by := Some actor, k_retired_reason := Some reason,
                k_superseded_by := superseded (k_superseded_by k)\<rparr> else k) (kn_rows L)\<rparr>)"

definition store_record_sourced_knowledge ::
  "(string \<Rightarrow> string) \<Rightarrow> string \<Rightarrow> string \<Rightarrow> real \<Rightarrow> string \<Rightarrow> string \<Rightarrow> int \<Rightarrow> lessons \<Rightarrow>
   ((knowledge \<times> string option) \<times> lessons) res" where
  "store_record_sourced_knowledge hash statement evidence half_life_hours source_ref actor now L =
     (let previous = source_of L source_ref;
          (i, L1) = upsert_knowledge hash statement evidence half_life_hours now L;
          L2 = set_source source_ref i now L1;
          (superseded, L3) =
            (case previous of
               None \<Rightarrow> (None, L2)
             | Some p \<Rightarrow>
                 if p = i \<or> sources_naming L2 p \<noteq> 0 then (None, L2)
                 else let (retired, L3) = retire_row p actor (''source '' @ source_ref @ '' was updated'') (\<lambda>_. Some i) now L2
                      in (if retired then Some p else None, L3))
      in and_then (read_back i (Invalid (Lesson LessonVanished)) L3) (\<lambda>k. Inr ((k, superseded), L3)))"

definition active_knowledge_for_source :: "lessons \<Rightarrow> string \<Rightarrow> knowledge option" where
  "active_knowledge_for_source L source_ref =
     (case source_of L source_ref of
        None \<Rightarrow> None
      | Some i \<Rightarrow> (case get_knowledge L i of
            None \<Rightarrow> None
          | Some k \<Rightarrow> if k_retired_at k = None then Some k else None))"

definition store_retire_knowledge_source ::
  "string \<Rightarrow> string \<Rightarrow> string \<Rightarrow> int \<Rightarrow> lessons \<Rightarrow> ((knowledge \<times> bool) \<times> lessons) res" where
  "store_retire_knowledge_source source_ref actor reason now L =
     (case source_of L source_ref of
        None \<Rightarrow> Inl (NotFound source_ref)
      | Some i \<Rightarrow>
          let L1 = L\<lparr>kn_sources := filter (\<lambda>r. fst r \<noteq> source_ref) (kn_sources L)\<rparr>;
              (retired, L2) = (if sources_naming L1 i = 0 then retire_row i actor reason (\<lambda>x. x) now L1 else (False, L1))
          in and_then (read_back i (NotFound i) L2) (\<lambda>k. Inr ((k, retired), L2)))"

definition reconfirm_knowledge :: "string \<Rightarrow> int \<Rightarrow> lessons \<Rightarrow> bool \<times> lessons" where
  "reconfirm_knowledge i now L =
     (get_knowledge L i \<noteq> None,
      L\<lparr>kn_rows := map (\<lambda>k. if k_id k = i then k\<lparr>k_confirmed_at := now, k_weight := min 1 (k_weight k + 1 / 10)\<rparr> else k) (kn_rows L)\<rparr>)"

definition weight_at :: "int \<Rightarrow> knowledge \<Rightarrow> real" where
  "weight_at now k = effective_weight (k_weight k) (k_half_life_hours k) (k_confirmed_at k) now"

definition active_knowledge :: "lessons \<Rightarrow> int \<Rightarrow> knowledge list" where
  "active_knowledge L now =
     sort_key (\<lambda>k. - weight_at now k)
       (filter (\<lambda>k. k_retired_at k = None \<and> ACTIVE_THRESHOLD \<le> weight_at now k) (kn_rows L))"

definition store_retire_knowledge ::
  "string \<Rightarrow> string \<Rightarrow> string \<Rightarrow> string option \<Rightarrow> int \<Rightarrow> lessons \<Rightarrow> (knowledge \<times> lessons) res" where
  "store_retire_knowledge i human reason superseded_by now L =
     (if get_knowledge L i = None then Inl (NotFound i)
      else let retire = (let (changed, L1) = retire_row i human reason (\<lambda>_. superseded_by) now L in
             if \<not> changed then Inl (Invalid (Lesson (AlreadyRetired i)))
             else and_then (read_back i (NotFound i) L1) (\<lambda>k. Inr (k, L1)))
      in case superseded_by of
           None \<Rightarrow> retire
         | Some successor \<Rightarrow>
             if successor = i then Inl (Invalid (Lesson (SupersedesItself i)))
             else if get_knowledge L successor = None then Inl (NotFound successor)
             else retire)"

text \<open>Deleting a lesson deletes the rows of its sources: the foreign key cascades.\<close>

definition prune_knowledge :: "int \<Rightarrow> lessons \<Rightarrow> nat \<times> lessons" where
  "prune_knowledge now L =
     (let dead = filter (\<lambda>k. weight_at now k < ACTIVE_THRESHOLD) (kn_rows L) in
      (length dead,
       L\<lparr>kn_rows := filter (\<lambda>k. \<not> weight_at now k < ACTIVE_THRESHOLD) (kn_rows L),
         kn_sources := filter (\<lambda>r. fst (snd r) \<notin> k_id ` set dead) (kn_sources L)\<rparr>))"

subsection \<open>The facade\<close>

fun split_on :: "char \<Rightarrow> string \<Rightarrow> string list" where
  "split_on c [] = [[]]"
| "split_on c (x # xs) =
     (if x = c then [] # split_on c xs
      else (case split_on c xs of [] \<Rightarrow> [[x]] | seg # segs \<Rightarrow> (x # seg) # segs))"

definition valid_memory_source_ref :: "string \<Rightarrow> bool" where
  "valid_memory_source_ref source_ref \<longleftrightarrow>
     (case (case strip_prefix ''/memories/repo/'' source_ref of
              Some r \<Rightarrow> Some r | None \<Rightarrow> strip_prefix ''/memories/session/'' source_ref) of
        None \<Rightarrow> False
      | Some relative \<Rightarrow>
          relative \<noteq> [] \<and> CHR 0x5C \<notin> set relative \<and>
          (\<forall>seg \<in> set (split_on (CHR ''/'') relative). seg \<noteq> [] \<and> seg \<noteq> ''.'' \<and> seg \<noteq> ''..''))"

definition validated_retirement :: "string \<Rightarrow> string \<Rightarrow> (string \<times> string) res" where
  "validated_retirement actor reason =
     (if blank actor then Inl (Invalid (Lesson RetirePerson))
      else if blank reason then Inl (Invalid (Lesson RetireReason))
      else Inr (trim actor, trim reason))"

definition valid_repository_node :: "string \<Rightarrow> bool" where
  "valid_repository_node i \<longleftrightarrow>
     (case (case strip_prefix ''artifact:'' i of Some r \<Rightarrow> Some r | None \<Rightarrow> strip_prefix ''symbol:'' i) of
        None \<Rightarrow> False
      | Some v \<Rightarrow>
          v \<noteq> [] \<and> \<not> starts_with v ''/'' \<and> CHR 0x5C \<notin> set v \<and>
          (1 < length v \<longrightarrow> v ! 1 \<noteq> CHR '':'') \<and>
          (\<forall>seg \<in> set (split_on (CHR ''/'') v). seg \<noteq> ''..''))"

definition record_knowledge ::
  "(string \<Rightarrow> string) \<Rightarrow> string \<Rightarrow> string \<Rightarrow> real option \<Rightarrow> int \<Rightarrow> lessons \<Rightarrow> (knowledge \<times> lessons) res" where
  "record_knowledge hash statement evidence half_life_hours now L =
     store_record_knowledge hash statement evidence
       (case half_life_hours of None \<Rightarrow> KNOWLEDGE_DEFAULT_HALF_LIFE_HOURS | Some h \<Rightarrow> h) now L"

definition knowledge_reach_for_evidence :: "(string \<Rightarrow> json option) \<Rightarrow> ledger \<Rightarrow> string \<Rightarrow> knowledge_reach" where
  "knowledge_reach_for_evidence parse s evidence =
     (if referenced_nodes_in parse evidence \<noteq> [] then ByNode
      else case declared_goal_in parse evidence of
        Some goal \<Rightarrow> ByGoal goal
      | None \<Rightarrow>
          (case List.map_filter (get_task s) (referenced_tasks_in evidence) of
             [] \<Rightarrow> Unreachable
           | t # _ \<Rightarrow> ByGoal (t_goal_id t)))"

definition record_sourced_knowledge ::
  "(string \<Rightarrow> string) \<Rightarrow> (string \<Rightarrow> json option) \<Rightarrow> ledger \<Rightarrow> string \<Rightarrow> string \<Rightarrow> real option \<Rightarrow> string \<Rightarrow> string \<Rightarrow>
   int \<Rightarrow> lessons \<Rightarrow> ((knowledge \<times> string option) \<times> lessons) res" where
  "record_sourced_knowledge hash parse s statement evidence half_life_hours source_ref actor now L =
     (if \<not> valid_memory_source_ref (trim source_ref) then Inl (Invalid (Lesson SourcePath))
      else if blank actor then Inl (Invalid (Lesson SourceActor))
      else if \<exists>node \<in> set (referenced_nodes_in parse evidence). \<not> valid_repository_node node
      then Inl (Invalid (Lesson SourceNodes))
      else if \<not> reaches (knowledge_reach_for_evidence parse s evidence) then Inl (Invalid (Lesson SourceReach))
      else store_record_sourced_knowledge hash statement evidence
        (case half_life_hours of None \<Rightarrow> KNOWLEDGE_DEFAULT_HALF_LIFE_HOURS | Some h \<Rightarrow> h)
        (trim source_ref) (trim actor) now L)"

definition retire_knowledge ::
  "string \<Rightarrow> string \<Rightarrow> string \<Rightarrow> string option \<Rightarrow> int \<Rightarrow> lessons \<Rightarrow> (knowledge \<times> lessons) res" where
  "retire_knowledge i human reason superseded_by now L =
     and_then (validated_retirement human reason) (\<lambda>(human, reason).
       store_retire_knowledge i human reason superseded_by now L)"

definition retire_knowledge_source ::
  "string \<Rightarrow> string \<Rightarrow> string \<Rightarrow> int \<Rightarrow> lessons \<Rightarrow> ((knowledge \<times> bool) \<times> lessons) res" where
  "retire_knowledge_source source_ref actor reason now L =
     (if \<not> valid_memory_source_ref (trim source_ref) then Inl (Invalid (Lesson SourcePath))
      else and_then (validated_retirement actor reason) (\<lambda>(actor, reason).
        store_retire_knowledge_source (trim source_ref) actor reason now L))"

definition MIN_EVIDENCE_COUNT :: nat where
  "MIN_EVIDENCE_COUNT = 3"

definition MIN_EVIDENCE_SPAN_SECS :: int where
  "MIN_EVIDENCE_SPAN_SECS = 3 * 24 * 3600"

definition consolidate ::
  "(string \<Rightarrow> string) \<Rightarrow> (json \<Rightarrow> string) \<Rightarrow> string \<Rightarrow> string list \<Rightarrow> int \<Rightarrow> int \<Rightarrow> int \<Rightarrow> lessons \<Rightarrow>
   (knowledge option \<times> lessons) res" where
  "consolidate hash render statement nodes first_seen last_seen now L =
     (if length nodes < MIN_EVIDENCE_COUNT \<or> last_seen - first_seen < MIN_EVIDENCE_SPAN_SECS
      then Inr (None, L)
      else and_then (store_record_knowledge hash statement
             (render (JObj [(''nodes'', JArr (map JStr nodes)), (''count'', JInt (int (length nodes))),
                            (''first_seen'', JInt first_seen), (''last_seen'', JInt last_seen)]))
             KNOWLEDGE_DEFAULT_HALF_LIFE_HOURS now L)
           (\<lambda>(k, L1). Inr (Some k, L1)))"

record signal_promotion =
  sp_subject :: string
  sp_evidence_node_ids :: "string list"
  sp_first_seen :: int
  sp_last_seen :: int
  sp_statement :: "string option"

definition templated_statement :: "signal_promotion \<Rightarrow> string" where
  "templated_statement c =
     ''proven regularity around '' @ sp_subject c @ '': reinforced across '' @
     show_nat (length (sp_evidence_node_ids c)) @ '' corroborating signals''"

definition promote_signals ::
  "(string \<Rightarrow> string) \<Rightarrow> (json \<Rightarrow> string) \<Rightarrow> signal_promotion list \<Rightarrow> int \<Rightarrow> lessons \<Rightarrow>
   (knowledge list \<times> lessons) res" where
  "promote_signals hash render candidates now L =
     try_fold (\<lambda>(promoted, L) c.
       and_then (consolidate hash render
           (case sp_statement c of Some st \<Rightarrow> st | None \<Rightarrow> templated_statement c)
           (sp_evidence_node_ids c) (sp_first_seen c) (sp_last_seen c) now L)
         (\<lambda>(k, L1). Inr (case k of None \<Rightarrow> promoted | Some k \<Rightarrow> promoted @ [k], L1))) ([], L) candidates"

subsection \<open>Decay halves\<close>

lemma decay_shape:
  assumes "0 < h" and "c \<le> n"
  shows "effective_weight base h c n = base * 2 powr (- (of_int (n - c) / 3600) / h)"
proof (cases "n = c")
  case False
  then have "\<not> (of_int (n - c) / 3600 :: real) \<le> 0" using assms(2) by simp
  then show ?thesis using assms(1) by (simp add: effective_weight_def Let_def)
qed (use assms in \<open>simp add: effective_weight_def\<close>)

text \<open>
  Decay. From its last confirmation on, the weight of a lesson never grows and never leaves the
  range from nothing to its base weight, and every time a half-life passes it is halved.
\<close>

theorem decay_law:
  assumes "0 < h" and "0 \<le> base" and "c \<le> n" and "n \<le> n'"
  shows "0 \<le> effective_weight base h c n' \<and> effective_weight base h c n' \<le> effective_weight base h c n \<and>
    effective_weight base h c n \<le> base \<and>
    (of_int (n' - n) = 3600 * h \<longrightarrow> effective_weight base h c n' = effective_weight base h c n / 2)"
proof -
  let ?e = "\<lambda>n. - (of_int (n - c) / 3600) / h :: real"
  have w: "effective_weight base h c n = base * 2 powr (?e n)" "effective_weight base h c n' = base * 2 powr (?e n')"
    using assms by (intro decay_shape; simp)+
  have le: "?e n' \<le> ?e n" "?e n \<le> 0"
    using assms by (simp_all add: divide_le_cancel divide_nonneg_pos)
  have half: "?e n' = ?e n - 1" if "of_int (n' - n) = 3600 * h"
  proof -
    have "of_int (n' - c) = of_int (n - c) + 3600 * h" using that by simp
    then show ?thesis using assms(1) by (simp add: field_simps)
  qed
  have p: "2 powr (?e n') \<le> (2 powr (?e n) :: real)" "2 powr (?e n) \<le> (2 powr 0 :: real)"
    using le by (intro powr_mono; simp)+
  show ?thesis
    unfolding w using p assms(2) half
    by (auto intro!: mult_left_mono mult_left_le simp: powr_diff)
qed

theorem decay_law_witness: "effective_weight 1 720 0 2592000 = 1 / 2"
  using decay_law [of 720 1 0 0 2592000] by (simp add: effective_weight_def)

subsection \<open>Retirement is final\<close>

definition ended :: "knowledge \<Rightarrow> int option \<times> string option \<times> string option \<times> string option" where
  "ended k = (k_retired_at k, k_retired_by k, k_retired_reason k, k_superseded_by k)"

definition keeps_ended :: "lessons \<Rightarrow> lessons \<Rightarrow> bool" where
  "keeps_ended L L' \<longleftrightarrow>
     (\<forall>i k. get_knowledge L i = Some k \<and> k_retired_at k \<noteq> None \<longrightarrow>
        (\<exists>k'. get_knowledge L' i = Some k' \<and> ended k' = ended k))"

lemma keeps_ended_refl [simp]: "keeps_ended L L"
  by (simp add: keeps_ended_def)

lemma keeps_ended_trans [trans]: "keeps_ended L L1 \<Longrightarrow> keeps_ended L1 L2 \<Longrightarrow> keeps_ended L L2"
  unfolding keeps_ended_def by (metis Pair_inject ended_def)

lemma get_knowledge_map:
  assumes "\<And>k. k_id (f k) = k_id k"
  shows "get_knowledge (L\<lparr>kn_rows := map f (kn_rows L)\<rparr>) i = map_option f (get_knowledge L i)"
proof -
  have "find (\<lambda>k. k_id k = i) (map f ks) = map_option f (find (\<lambda>k. k_id k = i) ks)" for ks
    using assms by (induction ks) auto
  then show ?thesis by (simp add: get_knowledge_def)
qed

lemma get_knowledge_snoc:
  "get_knowledge (L\<lparr>kn_rows := kn_rows L @ [k]\<rparr>) i =
     (case get_knowledge L i of None \<Rightarrow> if k_id k = i then Some k else None | Some x \<Rightarrow> Some x)"
proof -
  have "find (\<lambda>k. k_id k = i) (ks @ [k]) =
      (case find (\<lambda>k. k_id k = i) ks of None \<Rightarrow> if k_id k = i then Some k else None | Some x \<Rightarrow> Some x)" for ks
    by (induction ks) auto
  then show ?thesis by (simp add: get_knowledge_def)
qed

lemma get_knowledge_sources [simp]: "get_knowledge (L\<lparr>kn_sources := x\<rparr>) = get_knowledge L"
  by (simp add: get_knowledge_def fun_eq_iff)

lemma get_knowledge_set_source [simp]: "get_knowledge (set_source r i n L) = get_knowledge L"
  by (simp add: set_source_def)

lemma map_keeps_ended:
  assumes "\<And>k. k_id (f k) = k_id k" and "\<And>k. k_retired_at k \<noteq> None \<Longrightarrow> ended (f k) = ended k"
  shows "keeps_ended L (L\<lparr>kn_rows := map f (kn_rows L)\<rparr>)"
  using assms(2) by (auto simp: keeps_ended_def get_knowledge_map [OF assms(1)])

lemma upsert_keeps_ended: "keeps_ended L (snd (upsert_knowledge hash st ev h n L))"
proof (cases "get_knowledge L (knowledge_id hash st) = None")
  case True
  then show ?thesis
    by (auto simp: upsert_knowledge_def Let_def keeps_ended_def get_knowledge_snoc)
next
  case False
  then show ?thesis
    unfolding upsert_knowledge_def Let_def snd_conv if_not_P [OF False]
    by (intro map_keeps_ended) (simp_all add: ended_def)
qed

lemma retire_row_keeps_ended: "keeps_ended L (snd (retire_row i a r f n L))"
  by (simp add: retire_row_def) (rule map_keeps_ended; simp add: ended_def)

lemma sources_keep_ended [simp]:
  "keeps_ended L (set_source r i n L1) = keeps_ended L L1"
  "keeps_ended L (L1\<lparr>kn_sources := x\<rparr>) = keeps_ended L L1"
  by (simp_all add: keeps_ended_def)

text \<open>
  The contract every operation on lessons but pruning has: a retired lesson stays retired, by the
  one who retired it, for the reason given.
\<close>

locale lesson_operation =
  fixes run :: "lessons \<Rightarrow> ('r \<times> lessons) res"
  assumes keeps_retirements: "run L = Inr (r, L') \<Longrightarrow> keeps_ended L L'"
begin

lemma not_carried:
  assumes "run L = Inr (r, L')" and "get_knowledge L i = Some k" and "k_retired_at k \<noteq> None"
    and "distinct (map k_id (kn_rows L'))"
  shows "i \<notin> k_id ` set (active_knowledge L' now)"
proof
  assume "i \<in> k_id ` set (active_knowledge L' now)"
  then obtain x where x: "x \<in> set (kn_rows L')" "k_id x = i" "k_retired_at x = None"
    by (auto simp: active_knowledge_def)
  obtain k' where k': "get_knowledge L' i = Some k'" "ended k' = ended k"
    using keeps_retirements [OF assms(1)] assms(2,3) by (auto simp: keeps_ended_def)
  then have "k' \<in> set (kn_rows L')" "k_id k' = i"
    by (auto simp: get_knowledge_def find_Some_iff)
  then have "k' = x" using x assms(4) by (metis (mono_tags, lifting) distinct_map inj_onD)
  then show False using k'(2) x(3) assms(3) by (simp add: ended_def)
qed

end

interpretation recorded: lesson_operation "store_record_knowledge hash st ev h n" for hash st ev h n
proof
  show "keeps_ended L L'" if "store_record_knowledge hash st ev h n L = Inr (r, L')" for L r L'
  proof -
    have "L' = snd (upsert_knowledge hash st ev h n L)"
      using that by (auto simp: store_record_knowledge_def and_then_Inr case_prod_beta Let_def)
    then show ?thesis using upsert_keeps_ended by simp
  qed
qed

interpretation sourced: lesson_operation "store_record_sourced_knowledge hash st ev h ref actor n"
  for hash st ev h ref actor n
proof
  show "keeps_ended L L'" if run: "store_record_sourced_knowledge hash st ev h ref actor n L = Inr (r, L')" for L r L'
  proof -
    let ?i = "knowledge_id hash st"
    let ?L2 = "set_source ref ?i n (snd (upsert_knowledge hash st ev h n L))"
    have fst: "fst (upsert_knowledge hash st ev h n L) = ?i"
      by (simp add: upsert_knowledge_def Let_def)
    have "L' = ?L2 \<or> (\<exists>p a w f. L' = snd (retire_row p a w f n ?L2))"
      using run fst
      by (auto simp: store_record_sourced_knowledge_def and_then_Inr Let_def case_prod_beta
          split: option.splits if_splits)
    moreover have "keeps_ended L ?L2" using upsert_keeps_ended by simp
    ultimately show ?thesis using retire_row_keeps_ended keeps_ended_trans by blast
  qed
qed

interpretation retire_source: lesson_operation "store_retire_knowledge_source ref actor why n" for ref actor why n
proof
  show "keeps_ended L L'" if run: "store_retire_knowledge_source ref actor why n L = Inr (r, L')" for L r L'
  proof -
    let ?L1 = "L\<lparr>kn_sources := filter (\<lambda>r. fst r \<noteq> ref) (kn_sources L)\<rparr>"
    have "L' = ?L1 \<or> (\<exists>p a w f. L' = snd (retire_row p a w f n ?L1))"
      using run
      by (auto simp: store_retire_knowledge_source_def and_then_Inr Let_def case_prod_beta
          split: option.splits if_splits)
    moreover have "keeps_ended L ?L1" by simp
    ultimately show ?thesis using retire_row_keeps_ended keeps_ended_trans by blast
  qed
qed

interpretation retire: lesson_operation "store_retire_knowledge i human why sup n" for i human why sup n
proof
  show "keeps_ended L L'" if "store_retire_knowledge i human why sup n L = Inr (r, L')" for L r L'
  proof -
    have "L' = snd (retire_row i human why (\<lambda>_. sup) n L)"
      using that
      by (auto simp: store_retire_knowledge_def and_then_Inr Let_def case_prod_beta
          split: option.splits if_splits)
    then show ?thesis using retire_row_keeps_ended by simp
  qed
qed

text \<open>
  Retirement is final. Whatever is recorded, recorded under a source, reconfirmed or retired
  later, a retired lesson stays retired, with the time, the person, the reason and the
  replacement that were given.
\<close>

theorem retirement_is_final:
  assumes "get_knowledge L i = Some k" and "k_retired_at k \<noteq> None"
    and "record_knowledge hash st ev hl n L = Inr (r1, L') \<or>
      record_sourced_knowledge hash parse s st ev hl ref actor n L = Inr (r2, L') \<or>
      retire_knowledge j human why succ n L = Inr (r3, L') \<or>
      retire_knowledge_source ref human why n L = Inr (r4, L') \<or>
      reconfirm_knowledge j n L = (b, L')"
  shows "\<exists>k'. get_knowledge L' i = Some k' \<and> k_retired_at k' = k_retired_at k \<and>
    k_retired_by k' = k_retired_by k \<and> k_retired_reason k' = k_retired_reason k \<and>
    k_superseded_by k' = k_superseded_by k"
proof -
  have rec: "keeps_ended L (snd (reconfirm_knowledge j n L))"
    unfolding reconfirm_knowledge_def snd_conv by (intro map_keeps_ended) (simp_all add: ended_def)
  have "keeps_ended L L'"
    using assms(3)
  proof (elim disjE)
    assume "record_sourced_knowledge hash parse s st ev hl ref actor n L = Inr (r2, L')"
    then show ?thesis
      by (auto simp: record_sourced_knowledge_def split: if_splits intro: sourced.keeps_retirements)
  next
    assume "retire_knowledge_source ref human why n L = Inr (r4, L')"
    then show ?thesis
      by (auto simp: retire_knowledge_source_def and_then_Inr split: if_splits
          intro: retire_source.keeps_retirements)
  qed (use rec in \<open>auto simp: record_knowledge_def retire_knowledge_def and_then_Inr
      intro: recorded.keeps_retirements retire.keeps_retirements\<close>)
  then show ?thesis
    using assms(1,2) by (force simp: keeps_ended_def ended_def)
qed

text \<open>
  A note that returns to an earlier text is lost. A memory note recorded as \<open>a\<close>, edited to \<open>b\<close>
  and edited back to \<open>a\<close> carries no lesson any more: recording \<open>a\<close> again confirms the row that
  the first edit retired, and the second edit retires the row of \<open>b\<close>, so the source names a
  retired lesson and no lesson is active at any time.
\<close>

theorem reverted_note_is_lost:
  assumes "hash a \<noteq> hash b"
  shows "\<exists>k1 L1 k2 L2 k3 L3.
    store_record_sourced_knowledge hash a ev h ref actor 1 \<lparr>kn_rows = [], kn_sources = []\<rparr> = Inr (k1, L1) \<and>
    active_knowledge_for_source L1 ref \<noteq> None \<and>
    store_record_sourced_knowledge hash b ev h ref actor 2 L1 = Inr (k2, L2) \<and>
    store_record_sourced_knowledge hash a ev h ref actor 3 L2 = Inr (k3, L3) \<and>
    active_knowledge_for_source L3 ref = None \<and> (\<forall>now. active_knowledge L3 now = [])"
proof -
  let ?A = "knowledge_id hash a" and ?B = "knowledge_id hash b"
  have ne: "?A \<noteq> ?B" "?B \<noteq> ?A" using assms by (auto simp: knowledge_id_def)
  let ?row = "\<lambda>i st n. \<lparr>k_id = i, k_statement = st, k_evidence = ev, k_weight = 1,
      k_half_life_hours = h, k_confirmed_at = n, k_created_at = n,
      k_retired_at = None, k_retired_by = None, k_retired_reason = None, k_superseded_by = None\<rparr>"
  let ?gone = "\<lambda>k n i. k\<lparr>k_retired_at := Some n, k_retired_by := Some actor,
      k_retired_reason := Some (''source '' @ ref @ '' was updated''), k_superseded_by := Some i\<rparr>"
  let ?L1 = "\<lparr>kn_rows = [?row ?A a 1], kn_sources = [(ref, ?A, 1)]\<rparr>"
  let ?L2 = "\<lparr>kn_rows = [?gone (?row ?A a 1) 2 ?B, ?row ?B b 2], kn_sources = [(ref, ?B, 2)]\<rparr>"
  let ?L3 = "\<lparr>kn_rows = [(?gone (?row ?A a 1) 2 ?B)\<lparr>k_confirmed_at := 3\<rparr>, ?gone (?row ?B b 2) 3 ?A],
      kn_sources = [(ref, ?A, 3)]\<rparr>"
  note defs = store_record_sourced_knowledge_def upsert_knowledge_def Let_def get_knowledge_def source_of_def
    set_source_def sources_naming_def retire_row_def read_back_def
  have "\<exists>k. store_record_sourced_knowledge hash a ev h ref actor 1 \<lparr>kn_rows = [], kn_sources = []\<rparr> = Inr (k, ?L1)"
    by (simp add: defs)
  moreover have "\<exists>k. store_record_sourced_knowledge hash b ev h ref actor 2 ?L1 = Inr (k, ?L2)"
    using ne by (simp add: defs)
  moreover have "\<exists>k. store_record_sourced_knowledge hash a ev h ref actor 3 ?L2 = Inr (k, ?L3)"
    using ne by (simp add: defs)
  moreover have "active_knowledge_for_source ?L1 ref \<noteq> None" "active_knowledge_for_source ?L3 ref = None"
    "active_knowledge ?L3 now = []" for now
    by (simp_all add: active_knowledge_for_source_def source_of_def get_knowledge_def active_knowledge_def)
  ultimately show ?thesis by blast
qed

definition clears_gate :: "signal_promotion \<Rightarrow> bool" where
  "clears_gate c \<longleftrightarrow> 3 \<le> length (sp_evidence_node_ids c) \<and> sp_first_seen c + 259200 \<le> sp_last_seen c"

definition statement_of :: "signal_promotion \<Rightarrow> string" where
  "statement_of c = (case sp_statement c of Some st \<Rightarrow> st | None \<Rightarrow> templated_statement c)"

lemma record_always:
  "\<exists>k L'. store_record_knowledge hash st ev h n L = Inr (k, L') \<and> k_id k = knowledge_id hash st \<and>
     k_statement k = (case get_knowledge L (knowledge_id hash st) of None \<Rightarrow> st | Some old \<Rightarrow> k_statement old)"
proof -
  have "k_id k = i" if "get_knowledge L i = Some k" for i k
    using that by (auto simp: get_knowledge_def find_Some_iff)
  then show ?thesis
    by (cases "get_knowledge L (knowledge_id hash st)")
      (auto simp: store_record_knowledge_def upsert_knowledge_def read_back_def Let_def
        get_knowledge_map get_knowledge_snoc)
qed

lemma consolidate_gate:
  "\<exists>k L'. consolidate hash render st nodes seen0 seen1 n L = Inr (k, L') \<and>
     map_option k_id k =
       (if length nodes < 3 \<or> seen1 - seen0 < 259200 then None else Some (knowledge_id hash st)) \<and>
     (k = None \<longrightarrow> L' = L)"
proof (cases "length nodes < 3 \<or> seen1 - seen0 < 259200")
  case True
  then show ?thesis by (simp add: consolidate_def MIN_EVIDENCE_COUNT_def MIN_EVIDENCE_SPAN_SECS_def)
next
  case False
  obtain k L' where "store_record_knowledge hash st
      (render (JObj [(''nodes'', JArr (map JStr nodes)), (''count'', JInt (int (length nodes))),
                     (''first_seen'', JInt seen0), (''last_seen'', JInt seen1)]))
      KNOWLEDGE_DEFAULT_HALF_LIFE_HOURS n L = Inr (k, L')" "k_id k = knowledge_id hash st"
    using record_always by blast
  with False show ?thesis
    by (simp add: consolidate_def MIN_EVIDENCE_COUNT_def MIN_EVIDENCE_SPAN_SECS_def)
qed

text \<open>
  The promotion gate. Promoting signals never fails, promotes exactly those that three nodes or
  more corroborate over at least three days, one lesson for each and in their order, each the
  lesson of the signal's statement, and changes no lesson when none of them clears the gate.
\<close>

theorem promotion_gate:
  "\<exists>ks L'. promote_signals hash render candidates now L = Inr (ks, L') \<and>
     map k_id ks = map (\<lambda>c. knowledge_id hash (statement_of c)) (filter clears_gate candidates) \<and>
     (filter clears_gate candidates = [] \<longrightarrow> L' = L)"
proof -
  define step where "step = (\<lambda>(promoted, L) c.
       and_then (consolidate hash render
           (case sp_statement c of Some st \<Rightarrow> st | None \<Rightarrow> templated_statement c)
           (sp_evidence_node_ids c) (sp_first_seen c) (sp_last_seen c) now L)
         (\<lambda>(k, L1). Inr (case k of None \<Rightarrow> promoted | Some k \<Rightarrow> promoted @ [k], L1)))"
  define lesson where "lesson = (\<lambda>c. knowledge_id hash (statement_of c))"
  have st: "\<exists>ks1 L1. step (ks, L) c = Inr (ks1, L1) \<and>
      map k_id ks1 = map k_id ks @ map lesson (filter clears_gate [c]) \<and>
      (\<not> clears_gate c \<longrightarrow> L1 = L)" for ks L c
    using consolidate_gate [of hash render "statement_of c"
        "sp_evidence_node_ids c" "sp_first_seen c" "sp_last_seen c" now L]
    by (fastforce simp: step_def and_then_def clears_gate_def lesson_def statement_of_def
        split: option.splits if_splits)
  have "\<exists>ks1 L1. try_fold step (ks, L) cs = Inr (ks1, L1) \<and>
      map k_id ks1 = map k_id ks @ map lesson (filter clears_gate cs) \<and>
      (filter clears_gate cs = [] \<longrightarrow> L1 = L)" for ks cs
  proof (induction cs arbitrary: ks L)
    case (Cons c cs)
    obtain ks1 L1 where 1: "step (ks, L) c = Inr (ks1, L1)"
      "map k_id ks1 = map k_id ks @ map lesson (filter clears_gate [c])" "\<not> clears_gate c \<longrightarrow> L1 = L"
      using st by blast
    from Cons.IH [of ks1 L1] obtain ks2 L2 where "try_fold step (ks1, L1) cs = Inr (ks2, L2)"
      "map k_id ks2 = map k_id ks1 @ map lesson (filter clears_gate cs)"
      "filter clears_gate cs = [] \<longrightarrow> L2 = L1"
      by blast
    with 1 show ?case by (auto simp: and_then_def)
  qed simp
  from this [of "[]" candidates] show ?thesis by (simp add: promote_signals_def step_def lesson_def)
qed

theorem promotion_gate_witness:
  "let c = \<lparr>sp_subject = ''x'', sp_evidence_node_ids = [''a'', ''b''], sp_first_seen = 0,
            sp_last_seen = 300000, sp_statement = None\<rparr>;
       L = \<lparr>kn_rows = [], kn_sources = []\<rparr>
   in promote_signals (\<lambda>x. x) (\<lambda>j. []) [c] 300000 L = Inr ([], L)"
  using promotion_gate [of "\<lambda>x. x" "\<lambda>j. []" "[\<lparr>sp_subject = ''x'', sp_evidence_node_ids = [''a'', ''b''],
      sp_first_seen = 0, sp_last_seen = 300000, sp_statement = None\<rparr>]" 300000
      "\<lparr>kn_rows = [], kn_sources = []\<rparr>"]
  by (auto simp: clears_gate_def)

theorem retirement_is_final_witness:
  "\<exists>k L1 k2 L2. store_record_knowledge (\<lambda>x. x) ''a'' ''e'' 720 1 \<lparr>kn_rows = [], kn_sources = []\<rparr> = Inr (k, L1) \<and>
     retire_knowledge ''knowledge:a'' ''ana'' ''wrong'' None 2 L1 = Inr (k2, L2) \<and>
     (\<exists>k3. get_knowledge (snd (reconfirm_knowledge ''knowledge:a'' 3 L2)) ''knowledge:a'' = Some k3 \<and>
        k_retired_by k3 = Some ''ana'')"
proof -
  let ?k = "\<lparr>k_id = ''knowledge:a'', k_statement = ''a'', k_evidence = ''e'', k_weight = 1,
      k_half_life_hours = 720, k_confirmed_at = 1, k_created_at = 1,
      k_retired_at = None, k_retired_by = None, k_retired_reason = None, k_superseded_by = None\<rparr> :: knowledge"
  let ?r = "?k\<lparr>k_retired_at := Some 2, k_retired_by := Some ''ana'', k_retired_reason := Some ''wrong''\<rparr>"
  let ?L1 = "\<lparr>kn_rows = [?k], kn_sources = []\<rparr>" and ?L2 = "\<lparr>kn_rows = [?r], kn_sources = []\<rparr>"
  have 1: "store_record_knowledge (\<lambda>x. x) ''a'' ''e'' 720 1 \<lparr>kn_rows = [], kn_sources = []\<rparr> = Inr (?k, ?L1)"
    by (simp add: store_record_knowledge_def upsert_knowledge_def get_knowledge_def read_back_def knowledge_id_def Let_def)
  have 2: "retire_knowledge ''knowledge:a'' ''ana'' ''wrong'' None 2 ?L1 = Inr (?r, ?L2)"
    by (simp add: retire_knowledge_def validated_retirement_def store_retire_knowledge_def retire_row_def
        get_knowledge_def read_back_def blank_def trim_def is_whitespace_def Let_def)
  have g: "get_knowledge ?L2 ''knowledge:a'' = Some ?r" by (simp add: get_knowledge_def)
  obtain b L3 where 3: "reconfirm_knowledge ''knowledge:a'' 3 ?L2 = (b, L3)" by fastforce
  have "k_retired_at ?r \<noteq> None" by simp
  from retirement_is_final [OF g this, where L' = L3 and j = "''knowledge:a''" and n = 3 and b = b] 3
  obtain k3 where "get_knowledge L3 ''knowledge:a'' = Some k3" "k_retired_by k3 = Some ''ana''" by auto
  with 1 2 3 show ?thesis by auto
qed

theorem reverted_note_is_lost_witness:
  "\<exists>k3 L3. active_knowledge_for_source L3 ''/memories/repo/n'' = None \<and>
     (\<exists>L2. store_record_sourced_knowledge (\<lambda>x. x) ''a'' ''e'' 720 ''/memories/repo/n'' ''x'' 3 L2 = Inr (k3, L3))"
  using reverted_note_is_lost [of "\<lambda>x. x" "''a''" "''b''" "''e''" 720 "''/memories/repo/n''" "''x''"] by auto

end
