(* ===== verification/Task_Transitions.thy ===== *)
theory Task_Transitions
  imports Task_Claim
begin

text \<open>
  Lifecycle transitions and progressive handoffs (\<^verbatim>\<open>store/coordination/transitions.rs\<close>):
  blocking on a validated predecessor, reopening, abandoning, human acceptance of work in
  review, and the opening of a blocked successor when its predecessor becomes terminal. The
  cycle test is a recursive SQL query; \<open>cte_rows\<close> evaluates it the way SQLite does, and is
  shown to compute the transitive closure of the handoffs.
\<close>

subsection \<open>Handoff lookups\<close>

definition detail_json :: "string option \<Rightarrow> json option" where
  "detail_json reason =
     (case reason of
        None \<Rightarrow> None
      | Some r \<Rightarrow> if blank r then None else Some (JObj [(''reason'', JStr (trim r))]))"

definition successor_of :: "ledger \<Rightarrow> string \<Rightarrow> string option" where
  "successor_of s i = map_option h_successor_id (find (\<lambda>h. h_predecessor_id h = i) (s_handoffs s))"

definition predecessor_of :: "ledger \<Rightarrow> string \<Rightarrow> string option" where
  "predecessor_of s i = map_option h_predecessor_id (find (\<lambda>h. h_successor_id h = i) (s_handoffs s))"

text \<open>
  \<^verbatim>\<open>WITH RECURSIVE chain ... UNION ...\<close>: rows wait in a queue; each is taken out once, and the
  rows it yields that the result does not hold yet enter both queue and result.
\<close>

definition cte_step :: "handoff list \<Rightarrow> string \<Rightarrow> string list \<Rightarrow> string list" where
  "cte_step hs x seen =
     remdups (filter (\<lambda>y. y \<notin> set seen) (map h_successor_id (filter (\<lambda>h. h_predecessor_id h = x) hs)))"

function cte_rows :: "handoff list \<Rightarrow> string list \<Rightarrow> string list \<Rightarrow> string list" where
  "cte_rows hs [] seen = seen"
| "cte_rows hs (x # queue) seen =
     cte_rows hs (queue @ cte_step hs x seen) (seen @ cte_step hs x seen)"
  by pat_completeness auto

lemma cte_step_set:
  "set (cte_step hs x seen) = {y. (x, y) \<in> edges hs} - set seen"
  by (auto simp: cte_step_def edges_def image_iff)

termination cte_rows
proof (relation "measures [\<lambda>(hs, queue, seen). card (h_successor_id ` set hs - set seen),
                           \<lambda>(hs, queue, seen). length queue]", goal_cases)
  case 1
  show ?case by simp
next
  case (2 hs x queue seen)
  show ?case
  proof (cases "cte_step hs x seen = []")
    case True
    then show ?thesis by simp
  next
    case False
    then obtain y where y: "y \<in> set (cte_step hs x seen)" by (cases "cte_step hs x seen") auto
    then have "y \<in> h_successor_id ` set hs - set seen"
      by (auto simp: cte_step_set edges_def)
    with y have "h_successor_id ` set hs - set (seen @ cte_step hs x seen) \<subset>
        h_successor_id ` set hs - set seen" by auto
    then have "card (h_successor_id ` set hs - set (seen @ cte_step hs x seen)) <
        card (h_successor_id ` set hs - set seen)"
      by (rule psubset_card_mono [rotated]) simp
    then show ?thesis by simp
  qed
qed

definition chain :: "handoff list \<Rightarrow> string \<Rightarrow> string list" where
  "chain hs i = cte_rows hs (cte_step hs i []) (cte_step hs i [])"

subsection \<open>Dependencies\<close>

definition validate_dependency_on :: "ledger \<Rightarrow> string \<Rightarrow> string \<Rightarrow> string \<Rightarrow> bool res" where
  "validate_dependency_on s task_id goal_id blocker_id =
     (if task_id = blocker_id then Inl (Invalid SelfDependency)
      else case get_task s blocker_id of
        None \<Rightarrow> Inl (NotFound blocker_id)
      | Some blocker \<Rightarrow>
          if t_goal_id blocker \<noteq> goal_id then Inl (Invalid (DifferentGoal blocker_id))
          else case find (\<lambda>h. h_predecessor_id h = blocker_id \<and> h_successor_id h \<noteq> task_id) (s_handoffs s) of
            Some h \<Rightarrow> Inl (Invalid (HandsOffElsewhere blocker_id (h_successor_id h)))
          | None \<Rightarrow>
              (case find (\<lambda>h. h_successor_id h = task_id \<and> h_predecessor_id h \<noteq> blocker_id) (s_handoffs s) of
                 Some h \<Rightarrow> Inl (Invalid (FollowsOther task_id (h_predecessor_id h)))
               | None \<Rightarrow>
                   if blocker_id \<in> set (chain (s_handoffs s) task_id) then Inl (Invalid DependencyCycle)
                   else if t_status blocker = Done then
                     (if \<exists>r \<in> set (s_conformance s). cr_task_id r = Some blocker_id \<and> cr_verdict r = Aligned
                      then Inr True else Inl (Invalid (DoneWithoutAligned blocker_id)))
                   else if t_status blocker = Abandoned then Inl (Invalid (AbandonedPredecessor blocker_id))
                   else Inr False))"

text \<open>
  \<^verbatim>\<open>INSERT OR IGNORE INTO task_handoffs\<close>: a row that would repeat a predecessor or a
  successor is not inserted.
\<close>

definition insert_handoff :: "string \<Rightarrow> string \<Rightarrow> int \<Rightarrow> ledger \<Rightarrow> ledger" where
  "insert_handoff p i now s =
     (if \<exists>h \<in> set (s_handoffs s). h_predecessor_id h = p \<or> h_successor_id h = i then s
      else s\<lparr>s_handoffs := s_handoffs s @
             [\<lparr>h_predecessor_id = p, h_successor_id = i, h_created_at = now\<rparr>]\<rparr>)"

definition open_blocked_successor_on :: "string \<Rightarrow> int \<Rightarrow> ledger \<Rightarrow> ledger res" where
  "open_blocked_successor_on predecessor_id now s =
     (case successor_of s predecessor_id of
        None \<Rightarrow> Inr s
      | Some successor_id \<Rightarrow>
          and_then (transact successor_id
              (\<lambda>t. t_blocked_by t = Some predecessor_id \<and> t_status t = Blocked)
              (\<lambda>t. t\<lparr>t_status := Open, t_owner := None, t_claim_started_at := None,
                     t_lease_expires_at := None, t_parked_at := None, t_blocked_by := None,
                     t_updated_at := now\<rparr>)
              Inr EvReopened None now (Some (JObj [(''unblocked_by'', JStr predecessor_id)])) s)
            (\<lambda>(_, s'). Inr s'))"

subsection \<open>Transitions\<close>

definition block_row :: "string option \<Rightarrow> int \<Rightarrow> task \<Rightarrow> task" where
  "block_row dependency now t =
     t\<lparr>t_status := Blocked, t_owner := None, t_claim_started_at := None,
       t_lease_expires_at := None, t_blocked_by := dependency, t_updated_at := now\<rparr>"

definition block_dependency :: "ledger \<Rightarrow> task \<Rightarrow> string option \<Rightarrow> string option res" where
  "block_dependency s t blocked_by =
     (case blocked_by of
        None \<Rightarrow> Inr None
      | Some blocker_id \<Rightarrow>
          if predecessor_of s (t_id t) \<noteq> None \<and> predecessor_of s (t_id t) \<noteq> Some blocker_id
          then Inl (Invalid (OtherHandoffChain (t_id t)))
          else and_then (validate_dependency_on s (t_id t) (t_goal_id t) blocker_id) (\<lambda>complete.
                 if complete then Inl (Invalid (PredecessorComplete blocker_id))
                 else Inr (Some blocker_id)))"

definition block_task ::
  "string \<Rightarrow> string option \<Rightarrow> string option \<Rightarrow> string \<Rightarrow> int \<Rightarrow> ledger \<Rightarrow> (bool \<times> ledger) res" where
  "block_task i blocked_by reason actor now s =
     (case get_task s i of
        None \<Rightarrow> Inl (NotFound i)
      | Some t \<Rightarrow>
          if terminal t then Inl (Invalid (TerminalBlock i))
          else and_then (block_dependency s t blocked_by) (\<lambda>dependency.
            let (changed, s1) = execute_update i (\<lambda>_. True) (block_row dependency now) s;
                s2 = (case dependency of None \<Rightarrow> s1 | Some p \<Rightarrow> insert_handoff p i now s1)
            in if changed = 1
               then and_then (append_note_on i reason actor now s2) (\<lambda>s3.
                    and_then (event_record i EvBlocked (Some actor) now (detail_json reason) s3)
                      (\<lambda>s4. Inr (True, s4)))
               else Inr (False, s2)))"

definition reopen_task :: "string \<Rightarrow> int \<Rightarrow> ledger \<Rightarrow> (bool \<times> ledger) res" where
  "reopen_task i now s =
     (case get_task s i of
        None \<Rightarrow> Inl (NotFound i)
      | Some t \<Rightarrow>
          if t_status t = InReview \<or> t_status t = Blocked \<and> t_blocked_by t = None then
            transact i (\<lambda>_. True)
              (\<lambda>t. t\<lparr>t_status := Open, t_owner := None, t_claim_started_at := None,
                     t_lease_expires_at := None, t_blocked_by := None, t_updated_at := now\<rparr>)
              Inr EvReopened None now None s
          else if t_status t = Blocked
          then Inl (Invalid (GatedByPredecessor i (case t_blocked_by t of None \<Rightarrow> [] | Some b \<Rightarrow> b)))
          else Inl (Invalid (CannotReopen i (t_status t))))"

text \<open>Every distinct branch of a log, oldest first, blank ones left out.\<close>

definition recorded_branches :: "task_event list \<Rightarrow> string list" where
  "recorded_branches es =
     foldl (\<lambda>branches e.
       case t_branch (e_after e) of
         None \<Rightarrow> branches
       | Some b \<Rightarrow> if blank b then branches
                   else if trim b \<in> set branches then branches
                   else branches @ [trim b]) [] es"

definition abandon_task :: "string \<Rightarrow> bool \<Rightarrow> int \<Rightarrow> ledger \<Rightarrow> (bool \<times> ledger) res" where
  "abandon_task i acknowledge_branch now s =
     (case get_task s i of
        None \<Rightarrow> Inl (NotFound i)
      | Some t \<Rightarrow>
          if t_status t = Claimed \<and>
             (case t_lease_expires_at t of None \<Rightarrow> True | Some e \<Rightarrow> now \<le> e)
          then Inl (Invalid (ClaimedAbandon i))
          else if t_status t \<in> {NeedsInput, Paused} then Inl (Invalid (OwnedAbandon i (t_status t)))
          else if t_status t \<in> {Done, Abandoned} then Inl (Invalid (CannotAbandon i (t_status t)))
          else if \<not> acknowledge_branch \<and> recorded_branches (task_events s i) \<noteq> []
          then Inl (Invalid (BranchRecorded i (recorded_branches (task_events s i))))
          else and_then (transact i (\<lambda>_. True)
                 (\<lambda>t. t\<lparr>t_status := Abandoned, t_owner := None, t_claim_started_at := None,
                        t_lease_expires_at := None, t_parked_at := None, t_blocked_by := None,
                        t_updated_at := now\<rparr>)
                 Inr EvAbandoned None now None s) (\<lambda>(changed, s1).
               and_then (open_blocked_successor_on i now s1) (\<lambda>s2. Inr (changed, s2))))"

definition latest_conformance :: "ledger \<Rightarrow> string \<Rightarrow> conformance_record option" where
  "latest_conformance s i =
     (case sort_key (\<lambda>r. - cr_id r) (filter (\<lambda>r. cr_task_id r = Some i) (s_conformance s)) of
        [] \<Rightarrow> None
      | r # _ \<Rightarrow> Some r)"

definition accept_note :: "conformance_record option \<Rightarrow> string" where
  "accept_note overruled =
     (case overruled of
        Some r \<Rightarrow> ''accepted out of in_review to done, overruling conformance record '' @
                  show_int (cr_id r) @ '' ('' @ verdict_as_str (cr_verdict r) @ '')''
      | None \<Rightarrow> ''accepted out of in_review to done; the task carried no conformance record'')"

definition resolve_in_review :: "string \<Rightarrow> string \<Rightarrow> int \<Rightarrow> ledger \<Rightarrow> (bool \<times> ledger) res" where
  "resolve_in_review i resolver now s =
     (case get_task s i of
        None \<Rightarrow> Inl (NotFound i)
      | Some t \<Rightarrow>
          if t_status t \<noteq> InReview then Inl (Invalid (CannotResolve i (t_status t)))
          else let overruled = latest_conformance s i in
            and_then (transact i (\<lambda>t. t_status t = InReview)
                (\<lambda>t. t\<lparr>t_status := Done, t_owner := None, t_claim_started_at := None,
                       t_lease_expires_at := None, t_blocked_by := None, t_updated_at := now,
                       t_resolved_by := Some resolver, t_resolved_at := Some now,
                       t_resolved_conformance_id := map_option cr_id overruled\<rparr>)
                (append_note_on i (Some (accept_note overruled)) resolver now)
                EvResolved (Some resolver) now
                (case overruled of
                   None \<Rightarrow> None
                 | Some r \<Rightarrow> Some (JObj [(''overruled_conformance_id'', JInt (cr_id r)),
                                       (''overruled_verdict'', JStr (verdict_as_str (cr_verdict r)))])) s)
              (\<lambda>(changed, s1). and_then (open_blocked_successor_on i now s1) (\<lambda>s2. Inr (changed, s2))))"

subsection \<open>The chain query computes the transitive closure\<close>

lemma cte_rows_closed:
  assumes "set queue \<subseteq> set seen" and "edges hs `` (set seen - set queue) \<subseteq> set seen"
  shows "set seen \<subseteq> set (cte_rows hs queue seen) \<and>
    edges hs `` set (cte_rows hs queue seen) \<subseteq> set (cte_rows hs queue seen) \<and>
    set (cte_rows hs queue seen) \<subseteq> (edges hs)\<^sup>* `` set seen"
  using assms
proof (induction hs queue seen rule: cte_rows.induct)
  case (1 hs seen)
  then show ?case by auto
next
  case (2 hs x queue seen)
  let ?new = "cte_step hs x seen"
  have new: "set ?new = edges hs `` {x} - set seen"
    by (auto simp: cte_step_set)
  have "set (queue @ ?new) \<subseteq> set (seen @ ?new)"
    using 2(2) by auto
  moreover have "edges hs `` (set (seen @ ?new) - set (queue @ ?new)) \<subseteq> set (seen @ ?new)"
  proof
    fix z
    assume "z \<in> edges hs `` (set (seen @ ?new) - set (queue @ ?new))"
    then obtain u where u: "u \<in> set seen" "u \<notin> set queue" "(u, z) \<in> edges hs" by auto
    show "z \<in> set (seen @ ?new)"
      using u 2(3) new by (cases "u = x") auto
  qed
  ultimately have "set (seen @ ?new) \<subseteq> set (cte_rows hs (queue @ ?new) (seen @ ?new)) \<and>
      edges hs `` set (cte_rows hs (queue @ ?new) (seen @ ?new)) \<subseteq>
        set (cte_rows hs (queue @ ?new) (seen @ ?new)) \<and>
      set (cte_rows hs (queue @ ?new) (seen @ ?new)) \<subseteq> (edges hs)\<^sup>* `` set (seen @ ?new)"
    by (rule 2(1))
  moreover have "(edges hs)\<^sup>* `` set (seen @ ?new) \<subseteq> (edges hs)\<^sup>* `` set seen"
    using 2(2) new by (auto intro: converse_rtrancl_into_rtrancl)
  ultimately show ?case by auto
qed

lemma chain_trancl: "set (chain hs i) = {j. (i, j) \<in> (edges hs)\<^sup>+}"
proof -
  have first: "set (cte_step hs i []) = edges hs `` {i}"
    by (auto simp: cte_step_set)
  have "set (chain hs i) = (edges hs)\<^sup>* `` set (cte_step hs i [])"
    unfolding chain_def by (rule reach_closed) (use cte_rows_closed [of "cte_step hs i []" "cte_step hs i []" hs] in auto)
  then show ?thesis
    by (auto simp: first trancl_unfold_left)
qed

subsection \<open>A validated dependency\<close>

lemma validate_dependency_Inr:
  assumes "validate_dependency_on s i goal b = Inr ready"
  shows "i \<noteq> b \<and> (\<exists>p. get_task s b = Some p \<and> t_goal_id p = goal \<and> t_status p \<noteq> Abandoned \<and>
      (ready \<longleftrightarrow> t_status p = Done)) \<and>
    (\<forall>h \<in> set (s_handoffs s). (h_predecessor_id h = b \<longleftrightarrow> h_successor_id h = i)) \<and>
    (b, i) \<notin> ((edges (s_handoffs s))\<^sup>+)\<inverse>"
proof -
  obtain p where p: "get_task s b = Some p" "t_goal_id p = goal" and ne: "i \<noteq> b"
    and n1: "find (\<lambda>h. h_predecessor_id h = b \<and> h_successor_id h \<noteq> i) (s_handoffs s) = None"
    and n2: "find (\<lambda>h. h_successor_id h = i \<and> h_predecessor_id h \<noteq> b) (s_handoffs s) = None"
    and c: "b \<notin> set (chain (s_handoffs s) i)"
    and st: "t_status p \<noteq> Abandoned" "ready \<longleftrightarrow> t_status p = Done"
    using assms by (auto simp: validate_dependency_on_def split: if_splits option.splits)
  from n1 n2 have "\<forall>h \<in> set (s_handoffs s). (h_predecessor_id h = b \<longleftrightarrow> h_successor_id h = i)"
    by (auto simp: find_None_iff)
  with p ne c st show ?thesis by (simp add: chain_trancl)
qed

lemma edges_insert_handoff:
  assumes "\<forall>h \<in> set (s_handoffs s). (h_predecessor_id h = p \<longleftrightarrow> h_successor_id h = i)"
  shows "edges (s_handoffs (insert_handoff p i now s)) = insert (p, i) (edges (s_handoffs s))"
  using assms by (auto simp: insert_handoff_def edges_def image_iff)

lemma insert_handoff_simps [simp]:
  "s_tasks (insert_handoff p i now s) = s_tasks s"
  "s_events (insert_handoff p i now s) = s_events s"
  "get_task (insert_handoff p i now s) = get_task s"
  "s_qa (insert_handoff p i now s) = s_qa s"
  by (auto simp: insert_handoff_def)

lemma handoffs_ok_insert:
  assumes ok: "handoffs_ok s" and dom: "p \<in> dom (get_task s)" "i \<in> dom (get_task s)" and ne: "i \<noteq> p"
    and lin: "\<forall>h \<in> set (s_handoffs s). (h_predecessor_id h = p \<longleftrightarrow> h_successor_id h = i)"
    and acyc: "(p, i) \<notin> ((edges (s_handoffs s))\<^sup>+)\<inverse>"
  shows "handoffs_ok (insert_handoff p i now s)"
proof -
  have "(i, p) \<notin> (edges (s_handoffs s))\<^sup>*"
    using acyc ne by (auto simp: rtrancl_eq_or_trancl)
  then have "acyclic (insert (p, i) (edges (s_handoffs s)))"
    using ok by (simp add: handoffs_ok_def acyclic_insert)
  moreover have "distinct (map h_predecessor_id (s_handoffs (insert_handoff p i now s)))"
    and "distinct (map h_successor_id (s_handoffs (insert_handoff p i now s)))"
    using ok by (auto simp: handoffs_ok_def insert_handoff_def)
  moreover have "Field (insert (p, i) (edges (s_handoffs s))) \<subseteq> dom (get_task s)"
    using ok dom by (auto simp: handoffs_ok_def Field_def)
  ultimately show ?thesis
    by (simp add: handoffs_ok_def edges_insert_handoff [OF lin])
qed

subsection \<open>Blocking keeps the invariant\<close>

lemma block_row_keeps [simp]: "keeps_id (block_row d n)"
  by (simp add: keeps_id_def block_row_def)

lemma block_dependency_Inr:
  assumes "block_dependency s t blocked_by = Inr dep"
  shows "dep = blocked_by \<and> (\<forall>b. dep = Some b \<longrightarrow> t_id t \<noteq> b \<and>
    (\<exists>p. get_task s b = Some p \<and> \<not> terminal p) \<and>
    (\<forall>h \<in> set (s_handoffs s). (h_predecessor_id h = b \<longleftrightarrow> h_successor_id h = t_id t)) \<and>
    (b, t_id t) \<notin> ((edges (s_handoffs s))\<^sup>+)\<inverse>)"
  using assms
  by (auto simp: block_dependency_def and_then_Inr terminal_def split: option.splits if_splits
      dest!: validate_dependency_Inr)

lemma block_cases:
  assumes inv: "logged s" and run: "block_task i blocked_by reason actor now s = Inr (b, s')"
  obtains t s2 s3 where "b" and "get_task s i = Some t" and "\<not> terminal t"
    and "block_dependency s t blocked_by = Inr blocked_by"
    and "s_handoffs s3 = s_handoffs (case blocked_by of None \<Rightarrow> s | Some p \<Rightarrow> insert_handoff p i now s)"
    and "s' = event_append EvBlocked (Some actor) now (block_row blocked_by now t) (detail_json reason) s3"
    and "get_task s' = (get_task s)(i \<mapsto> block_row blocked_by now t)" and "logged s'"
    and "s_events s3 = s_events s" and "qa_numbered s \<Longrightarrow> qa_numbered s'"
proof -
  obtain t where t: "get_task s i = Some t" "\<not> terminal t"
      and dep: "block_dependency s t blocked_by = Inr blocked_by"
    using run block_dependency_Inr
    by (fastforce simp: block_task_def and_then_Inr split: option.splits if_splits)
  let ?u = "execute_update i (\<lambda>_. True) (block_row blocked_by now) s"
  let ?s2 = "case blocked_by of None \<Rightarrow> snd ?u | Some p \<Rightarrow> insert_handoff p i now (snd ?u)"
  have one: "fst ?u = Suc 0"
    using t count_execute_update [OF logged_distinct [OF inv]] by simp
  obtain s3 where n: "append_note_on i reason actor now ?s2 = Inr s3"
    and r: "event_record i EvBlocked (Some actor) now (detail_json reason) s3 = Inr s'" and b: b
    using run t dep one by (auto simp: block_task_def and_then_Inr Let_def case_prod_beta)
  note side = side_table_D [OF append_note_side n]
  have ht: "s_tasks s3 = s_tasks (snd ?u)" "s_events s3 = s_events s"
    using side by (auto split: option.splits simp: snd_execute_update)
  have hh: "s_handoffs s3 = s_handoffs (case blocked_by of None \<Rightarrow> s | Some p \<Rightarrow> insert_handoff p i now s)"
    using side(3) by (auto simp: insert_handoff_def snd_execute_update split: option.splits)
  have "s_qa ?s2 = s_qa s" by (simp add: snd_execute_update split: option.splits)
  then have qa: "qa_numbered s3" if "qa_numbered s"
    using side(4) that qa_numbered_cong by blast
  show thesis
    by (rule update_recordE [OF inv block_row_keeps one ht r])
      (use that b t dep hh ht qa in \<open>auto simp: qa_numbered_def\<close>)
qed

interpretation block: ledger_operation "block_task i blocked_by reason actor now"
  for i blocked_by reason actor now
proof
  fix s r s'
  assume run: "block_task i blocked_by reason actor now s = Inr (r, s')"
  show "logged s'" if inv: "logged s"
    by (rule block_cases [OF inv run])
  show "prefix (s_events s) (s_events s')" if inv: "logged s"
    by (rule block_cases [OF inv run]) (simp add: event_append_def)
  show "ledger_ok s'" if ok: "ledger_ok s"
  proof (rule block_cases [OF ledger_ok_logged [OF ok] run])
    fix t s3
    assume t: "get_task s i = Some t" and dep: "block_dependency s t blocked_by = Inr blocked_by"
      and hh: "s_handoffs s3 = s_handoffs (case blocked_by of None \<Rightarrow> s | Some p \<Rightarrow> insert_handoff p i now s)"
      and s': "s' = event_append EvBlocked (Some actor) now (block_row blocked_by now t) (detail_json reason) s3"
      and tab: "get_task s' = (get_task s)(i \<mapsto> block_row blocked_by now t)" and log: "logged s'"
      and qa': "qa_numbered s \<Longrightarrow> qa_numbered s'"
    note id = get_task_id [OF t]
    have qa: "qa_numbered s'" using qa' ok by (simp add: ledger_ok_def)
    show "ledger_ok s'"
    proof (cases blocked_by)
      case None
      then show ?thesis
        using qa by (intro ledger_ok_move [OF ok t tab log])
          (auto simp: s' hh row_ok_def block_row_def terminal_def)
    next
      case (Some p)
      note d = block_dependency_Inr [OF dep, unfolded id, simplified Some, simplified]
      have hs: "s_handoffs s' = s_handoffs (insert_handoff p i now s)"
        by (simp add: s' hh Some)
      have "handoffs_ok (insert_handoff p i now s)"
        using ok d t by (intro handoffs_ok_insert) (auto simp: ledger_ok_def)
      then have "handoffs_ok s'"
        by (auto simp: handoffs_ok_def hs tab)
      moreover have "rows_ok s'"
        using ok by (auto simp: ledger_ok_def rows_ok_def tab row_ok_def block_row_def)
      moreover have "edges (s_handoffs s') = insert (p, i) (edges (s_handoffs s))"
        unfolding hs using d by (intro edges_insert_handoff) blast
      then have "gates_ok s'"
        using ok t d by (auto simp: ledger_ok_def gates_ok_def tab block_row_def terminal_def Some)
      ultimately show ?thesis using log qa by (simp add: ledger_ok_def)
    qed
  qed
qed

subsection \<open>Opening the successor\<close>

lemma open_successor_runs:
  assumes "open_blocked_successor_on p now s = Inr s'"
  obtains "successor_of s p = None" and "s' = s"
  | j b where "successor_of s p = Some j"
      and "transact j (\<lambda>t. t_blocked_by t = Some p \<and> t_status t = Blocked)
              (\<lambda>t. t\<lparr>t_status := Open, t_owner := None, t_claim_started_at := None,
                     t_lease_expires_at := None, t_parked_at := None, t_blocked_by := None,
                     t_updated_at := now\<rparr>)
              Inr EvReopened None now (Some (JObj [(''unblocked_by'', JStr p)])) s = Inr (b, s')"
proof (cases "successor_of s p")
  case None
  then have "s' = s" using assms by (simp add: open_blocked_successor_on_def)
  with None show thesis by (rule that(1))
next
  case (Some j)
  with assms obtain b where "transact j (\<lambda>t. t_blocked_by t = Some p \<and> t_status t = Blocked)
              (\<lambda>t. t\<lparr>t_status := Open, t_owner := None, t_claim_started_at := None,
                     t_lease_expires_at := None, t_parked_at := None, t_blocked_by := None,
                     t_updated_at := now\<rparr>)
              Inr EvReopened None now (Some (JObj [(''unblocked_by'', JStr p)])) s = Inr (b, s')"
    by (auto simp: open_blocked_successor_on_def and_then_Inr)
  with Some show thesis by (rule that(2))
qed

lemma open_successor_cases:
  assumes inv: "logged s" and run: "open_blocked_successor_on p now s = Inr s'"
  obtains "s' = s" and "\<And>j t. successor_of s p = Some j \<Longrightarrow> get_task s j = Some t \<Longrightarrow>
             \<not> (t_blocked_by t = Some p \<and> t_status t = Blocked)"
  | j t where "successor_of s p = Some j" and "get_task s j = Some t"
      and "t_blocked_by t = Some p" and "t_status t = Blocked"
      and "get_task s' = (get_task s)(j \<mapsto> t\<lparr>t_status := Open, t_owner := None,
             t_claim_started_at := None, t_lease_expires_at := None, t_parked_at := None,
             t_blocked_by := None, t_updated_at := now\<rparr>)"
      and "logged s'" and "s_handoffs s' = s_handoffs s" and "prefix (s_events s) (s_events s')"
      and "qa_numbered s \<Longrightarrow> qa_numbered s'"
proof (rule open_successor_runs [OF run])
  assume "successor_of s p = None" and "s' = s"
  then show thesis using that(1) by simp
next
  fix j b
  assume j: "successor_of s p = Some j"
    and tr: "transact j (\<lambda>t. t_blocked_by t = Some p \<and> t_status t = Blocked)
              (\<lambda>t. t\<lparr>t_status := Open, t_owner := None, t_claim_started_at := None,
                     t_lease_expires_at := None, t_parked_at := None, t_blocked_by := None,
                     t_updated_at := now\<rparr>)
              Inr EvReopened None now (Some (JObj [(''unblocked_by'', JStr p)])) s = Inr (b, s')"
  have keep: "keeps_id (\<lambda>t. t\<lparr>t_status := Open, t_owner := None, t_claim_started_at := None,
                     t_lease_expires_at := None, t_parked_at := None, t_blocked_by := None,
                     t_updated_at := now\<rparr>)" by (simp add: keeps_id_def)
  note pre = logged_operation.appends [OF transact_logged_operation [OF keep side_table_none] inv tr]
  show thesis
    by (rule transact_cases [OF inv keep side_table_none tr]) (use that j pre in auto)
qed

lemma open_successor_total:
  assumes "logged s"
  shows "\<exists>s'. open_blocked_successor_on p now s = Inr s'"
proof (cases "successor_of s p")
  case None
  then show ?thesis by (simp add: open_blocked_successor_on_def)
next
  case (Some j)
  let ?g = "\<lambda>t. t_blocked_by t = Some p \<and> t_status t = Blocked"
  let ?f = "\<lambda>t. t\<lparr>t_status := Open, t_owner := None, t_claim_started_at := None,
                     t_lease_expires_at := None, t_parked_at := None, t_blocked_by := None,
                     t_updated_at := now\<rparr>"
  have keep: "keeps_id ?f" by (simp add: keeps_id_def)
  have "\<exists>r. transact j ?g ?f Inr EvReopened None now (Some (JObj [(''unblocked_by'', JStr p)])) s = Inr r"
    using transact_total [OF assms keep side_table_none] by blast
  then show ?thesis
    using Some by (auto simp: open_blocked_successor_on_def)
qed

lemma successor_of_edge:
  assumes "handoffs_ok s"
  shows "successor_of s p = Some j \<longleftrightarrow> (p, j) \<in> edges (s_handoffs s)"
proof -
  have d: "distinct (map h_predecessor_id hs) \<Longrightarrow>
      map_option h_successor_id (find (\<lambda>h. h_predecessor_id h = p) hs) = Some j \<longleftrightarrow>
        (p, j) \<in> edges hs" for hs
    by (induction hs) (auto simp: edges_def image_iff find_Some_iff)
  show ?thesis
    using d [of "s_handoffs s"] assms by (simp add: successor_of_def handoffs_ok_def)
qed

lemma row_ok_gate: "row_ok t \<Longrightarrow> t_blocked_by t = Some b \<Longrightarrow> t_status t = Blocked"
  by (cases "t_status t") (auto simp: row_ok_def)

text \<open>A task that becomes terminal and then opens its successor leaves no gate behind.\<close>

lemma ledger_ok_finish:
  assumes ok: "ledger_ok s" and t: "get_task s i = Some t"
    and tab: "get_task s1 = (get_task s)(i \<mapsto> t')" and log: "logged s1"
    and hs: "s_handoffs s1 = s_handoffs s"
    and row: "row_ok t'" and nogate: "t_blocked_by t' = None"
    and open_ok: "open_blocked_successor_on i now s1 = Inr s2" and qa: "qa_numbered s1"
  shows "ledger_ok s2"
proof -
  have ho: "handoffs_ok s1" and hos: "handoffs_ok s"
    using ok by (auto simp: ledger_ok_def handoffs_ok_def tab hs)
  have rows: "rows_ok s1"
    using ok row by (auto simp: ledger_ok_def rows_ok_def tab)
  have others: "(b, j) \<in> edges (s_handoffs s1) \<and> (b \<noteq> i \<longrightarrow> (\<exists>p. get_task s1 b = Some p \<and> \<not> terminal p))"
    if "get_task s1 j = Some u" "t_blocked_by u = Some b" for j u b
    using ok that nogate by (auto simp: ledger_ok_def gates_ok_def tab hs split: if_splits)
  have gated: "successor_of s1 i = Some j \<and> t_status u = Blocked"
    if "get_task s1 j = Some u" "t_blocked_by u = Some i" for j u
    using others [OF that] rows that successor_of_edge [OF ho] row_ok_gate
    by (auto simp: rows_ok_def)
  show ?thesis
  proof (rule open_successor_cases [OF log open_ok])
    assume "s2 = s1" and none: "\<And>j t. successor_of s1 i = Some j \<Longrightarrow> get_task s1 j = Some t \<Longrightarrow>
             \<not> (t_blocked_by t = Some i \<and> t_status t = Blocked)"
    then show ?thesis
      using log rows ho others gated qa by (auto simp: ledger_ok_def gates_ok_def) metis+
  next
    fix j u
    assume j: "successor_of s1 i = Some j" "get_task s1 j = Some u"
      and tab2: "get_task s2 = (get_task s1)(j \<mapsto> u\<lparr>t_status := Open, t_owner := None,
             t_claim_started_at := None, t_lease_expires_at := None, t_parked_at := None,
             t_blocked_by := None, t_updated_at := now\<rparr>)"
      and log2: "logged s2" and hs2: "s_handoffs s2 = s_handoffs s1"
      and qa2: "qa_numbered s1 \<Longrightarrow> qa_numbered s2"
    have "gates_ok s2"
      unfolding gates_ok_def
    proof (intro allI impI)
      fix k w b
      assume "get_task s2 k = Some w" and b: "t_blocked_by w = Some b"
      then have k: "get_task s1 k = Some w" "k \<noteq> j"
        by (auto simp: tab2 split: if_splits)
      then have "b \<noteq> i" using gated j(1) b by auto
      with others [OF k(1) b] show "(b, k) \<in> edges (s_handoffs s2) \<and> (\<exists>p. get_task s2 b = Some p \<and> \<not> terminal p)"
        by (auto simp: hs2 tab2 terminal_def)
    qed
    moreover have "rows_ok s2"
      using rows by (auto simp: rows_ok_def tab2 row_ok_def)
    moreover have "handoffs_ok s2"
      using ho by (auto simp: handoffs_ok_def tab2 hs2)
    ultimately show ?thesis using log2 qa2 [OF qa] by (simp add: ledger_ok_def)
  qed
qed

text \<open>
  The two operations that finish a task run a guarded transition and then open the
  successor; both follow from one lemma.
\<close>

lemma finish_operation:
  assumes keep: "keeps_id f" and side: "side_table extra"
    and row: "\<And>t. row_ok (f t) \<and> t_blocked_by (f t) = None"
    and sel: "\<And>t. get_task s i = Some t \<Longrightarrow> g t"
    and run: "and_then (transact i g f extra k a n d s)
        (\<lambda>(changed, s1). and_then (open_blocked_successor_on i n s1) (\<lambda>s2. Inr (changed, s2))) = Inr (r, s')"
    and t: "get_task s i = Some t"
  shows "logged s \<Longrightarrow> logged s'" and "logged s \<Longrightarrow> prefix (s_events s) (s_events s')"
    and "ledger_ok s \<Longrightarrow> ledger_ok s'"
    and "logged s \<Longrightarrow> r"
    and "logged s \<Longrightarrow> \<exists>s1. logged s1 \<and> get_task s1 = (get_task s)(i \<mapsto> f t) \<and>
      s_handoffs s1 = s_handoffs s \<and> open_blocked_successor_on i n s1 = Inr s'"
proof -
  obtain s1 where tr: "transact i g f extra k a n d s = Inr (r, s1)"
    and op: "open_blocked_successor_on i n s1 = Inr s'"
    using run by (auto simp: and_then_Inr)
  have mid: "r \<and> logged s1 \<and> get_task s1 = (get_task s)(i \<mapsto> f t) \<and> s_handoffs s1 = s_handoffs s \<and>
      prefix (s_events s) (s_events s1) \<and> (qa_numbered s \<longrightarrow> qa_numbered s1)" if inv: "logged s"
    by (rule transact_cases [OF inv keep side tr])
      (use t sel in \<open>auto simp: event_append_def\<close>)
  show "logged s'" if inv: "logged s"
    by (rule open_successor_cases [OF _ op]) (use mid [OF inv] in auto)
  show "prefix (s_events s) (s_events s')" if inv: "logged s"
    by (rule open_successor_cases [OF _ op]) (use mid [OF inv] in \<open>auto intro: prefix_order.trans\<close>)
  show "ledger_ok s'" if ok: "ledger_ok s"
    by (rule ledger_ok_finish [OF ok t _ _ _ _ _ op])
      (use mid [OF ledger_ok_logged [OF ok]] row ok in \<open>auto simp: ledger_ok_def\<close>)
  show r if "logged s" using mid [OF that] by simp
  show "\<exists>s1. logged s1 \<and> get_task s1 = (get_task s)(i \<mapsto> f t) \<and>
      s_handoffs s1 = s_handoffs s \<and> open_blocked_successor_on i n s1 = Inr s'" if "logged s"
    using mid [OF that] op by blast
qed

definition abandoned_row :: "int \<Rightarrow> task \<Rightarrow> task" where
  "abandoned_row now t =
     t\<lparr>t_status := Abandoned, t_owner := None, t_claim_started_at := None,
       t_lease_expires_at := None, t_parked_at := None, t_blocked_by := None, t_updated_at := now\<rparr>"

lemma abandoned_row_ok [simp]:
  "keeps_id (abandoned_row n)" "row_ok (abandoned_row n t)" "t_blocked_by (abandoned_row n t) = None"
  by (simp_all add: keeps_id_def abandoned_row_def row_ok_def)

lemma abandon_runs:
  assumes "abandon_task i ack now s = Inr (r, s')"
  obtains t where "get_task s i = Some t"
    and "t_status t \<in> {Open, InReview, Blocked} \<or> t_status t = Claimed \<and> sql_lt (t_lease_expires_at t) now"
    and "ack \<or> recorded_branches (task_events s i) = []"
    and "and_then (transact i (\<lambda>_. True) (abandoned_row now) Inr EvAbandoned None now None s)
          (\<lambda>(changed, s1). and_then (open_blocked_successor_on i now s1) (\<lambda>s2. Inr (changed, s2))) = Inr (r, s')"
proof -
  obtain t where t: "get_task s i = Some t"
    using assms by (auto simp: abandon_task_def split: option.splits)
  show thesis
    using assms t
    by (intro that [OF t]; cases "t_status t")
      (auto simp: abandon_task_def abandoned_row_def [abs_def] not_le
        split: option.splits if_splits)
qed

interpretation abandon: ledger_operation "abandon_task i ack now" for i ack now
proof
  fix s r s'
  assume "abandon_task i ack now s = Inr (r, s')"
  then obtain t where t: "get_task s i = Some t"
    and run: "and_then (transact i (\<lambda>_. True) (abandoned_row now) Inr EvAbandoned None now None s)
        (\<lambda>(changed, s1). and_then (open_blocked_successor_on i now s1) (\<lambda>s2. Inr (changed, s2))) = Inr (r, s')"
    by (rule abandon_runs)
  note fin = finish_operation [OF _ _ _ _ run t]
  show "logged s \<Longrightarrow> logged s'" and "logged s \<Longrightarrow> prefix (s_events s) (s_events s')"
    and "ledger_ok s \<Longrightarrow> ledger_ok s'"
    by (rule fin; simp)+
qed

definition accepted_row :: "string \<Rightarrow> int \<Rightarrow> conformance_record option \<Rightarrow> task \<Rightarrow> task" where
  "accepted_row resolver now overruled t =
     t\<lparr>t_status := Done, t_owner := None, t_claim_started_at := None,
       t_lease_expires_at := None, t_blocked_by := None, t_updated_at := now,
       t_resolved_by := Some resolver, t_resolved_at := Some now,
       t_resolved_conformance_id := map_option cr_id overruled\<rparr>"

lemma accepted_row_ok [simp]:
  "keeps_id (accepted_row w n c)" "row_ok (accepted_row w n c t)" "t_blocked_by (accepted_row w n c t) = None"
  by (simp_all add: keeps_id_def accepted_row_def row_ok_def)

lemma resolve_runs:
  assumes "resolve_in_review i resolver now s = Inr (r, s')"
  obtains t d where "get_task s i = Some t" and "t_status t = InReview"
    and "and_then (transact i (\<lambda>t. t_status t = InReview)
            (accepted_row resolver now (latest_conformance s i))
            (append_note_on i (Some (accept_note (latest_conformance s i))) resolver now)
            EvResolved (Some resolver) now d s)
          (\<lambda>(changed, s1). and_then (open_blocked_successor_on i now s1) (\<lambda>s2. Inr (changed, s2))) = Inr (r, s')"
  using assms
  by (auto simp: resolve_in_review_def accepted_row_def [abs_def] Let_def split: option.splits if_splits)

interpretation resolve: ledger_operation "resolve_in_review i resolver now" for i resolver now
proof
  fix s r s'
  assume "resolve_in_review i resolver now s = Inr (r, s')"
  then obtain t d where t: "get_task s i = Some t" and st: "t_status t = InReview"
    and run: "and_then (transact i (\<lambda>t. t_status t = InReview)
            (accepted_row resolver now (latest_conformance s i))
            (append_note_on i (Some (accept_note (latest_conformance s i))) resolver now)
            EvResolved (Some resolver) now d s)
          (\<lambda>(changed, s1). and_then (open_blocked_successor_on i now s1) (\<lambda>s2. Inr (changed, s2))) = Inr (r, s')"
    by (rule resolve_runs)
  have sel: "\<And>u. get_task s i = Some u \<Longrightarrow> t_status u = InReview"
    using t st by simp
  note fin = finish_operation [OF _ _ _ sel run t]
  show "logged s \<Longrightarrow> logged s'" and "logged s \<Longrightarrow> prefix (s_events s) (s_events s')"
    and "ledger_ok s \<Longrightarrow> ledger_ok s'"
    by (rule fin; simp)+
qed

interpretation reopen: ledger_operation "reopen_task i now" for i now
proof (rule ledger_operation_via)
  fix s r s'
  assume run: "reopen_task i now s = Inr (r, s')"
  let ?op = "transact i (\<lambda>t. True)
      (\<lambda>t. t\<lparr>t_status := Open, t_owner := None, t_claim_started_at := None,
             t_lease_expires_at := None, t_blocked_by := None, t_updated_at := now\<rparr>)
      Inr EvReopened None now None"
  have "?op s = Inr (r, s')"
    using run by (auto simp: reopen_task_def split: option.splits if_splits)
  moreover have "ledger_operation ?op"
    by (rule transact_ledger_operation) (auto simp: keeps_id_def row_ok_def terminal_def)
  ultimately show "\<exists>op. ledger_operation op \<and> op s = Inr (r, s')" by blast
qed

lemma abandon_succeeds:
  assumes "ledger_ok s" and t: "get_task s i = Some t"
    and st: "t_status t \<in> {Open, InReview, Blocked} \<or> t_status t = Claimed \<and> sql_lt (t_lease_expires_at t) now"
    and br: "ack \<or> recorded_branches (task_events s i) = []"
  shows "\<exists>s'. abandon_task i ack now s = Inr (True, s')"
proof -
  have inv: "logged s" using assms(1) by (rule ledger_ok_logged)
  define s1 where "s1 = event_append EvAbandoned None now (abandoned_row now t) None
      (snd (execute_update i (\<lambda>_. True) (abandoned_row now) s))"
  have tr: "transact i (\<lambda>_. True) (abandoned_row now) Inr EvAbandoned None now None s = Inr (True, s1)"
    unfolding s1_def by (rule transact_applies [OF inv abandoned_row_ok(1) side_table_none t]) simp_all
  have log: "logged s1"
    by (rule logged_operation.keeps_logged [OF transact_logged_operation inv tr]) simp_all
  obtain s2 where "open_blocked_successor_on i now s1 = Inr s2"
    using open_successor_total [OF log] by blast
  with tr t st br show ?thesis
    by (cases "t_status t")
      (auto simp: abandon_task_def abandoned_row_def [abs_def] and_then_def sql_lt_def
        split: option.splits)
qed

lemma abandon_effect:
  assumes inv: "logged s" and "abandon_task i ack now s = Inr (r, s')"
  obtains t s1 where "get_task s i = Some t" and "logged s1"
    and "get_task s1 = (get_task s)(i \<mapsto> abandoned_row now t)"
    and "s_handoffs s1 = s_handoffs s" and "open_blocked_successor_on i now s1 = Inr s'"
proof -
  obtain t where t: "get_task s i = Some t"
    and run: "and_then (transact i (\<lambda>_. True) (abandoned_row now) Inr EvAbandoned None now None s)
      (\<lambda>(changed, s1). and_then (open_blocked_successor_on i now s1) (\<lambda>s2. Inr (changed, s2))) = Inr (r, s')"
    by (rule abandon_runs [OF assms(2)])
  show thesis
    using finish_operation(5) [OF _ _ _ _ run t] inv that [OF t] by auto
qed

lemma opened_successor:
  assumes ok: "ledger_ok s" and u: "get_task s j = Some u" "t_blocked_by u = Some i"
    and mid: "logged s1" "get_task s1 = (get_task s)(i \<mapsto> t')" "s_handoffs s1 = s_handoffs s"
      "open_blocked_successor_on i now s1 = Inr s'"
  shows "\<exists>u'. get_task s' j = Some u' \<and> t_status u' = Open \<and> t_blocked_by u' = None \<and> t_owner u' = None"
proof -
  have edge: "(i, j) \<in> edges (s_handoffs s)" and ho: "handoffs_ok s"
    using ok u by (auto simp: ledger_ok_def gates_ok_def)
  have "i \<noteq> j" using ho edge by (auto simp: handoffs_ok_def acyclic_def)
  then have u1: "get_task s1 j = Some u" using mid(2) u by simp
  have succ: "successor_of s1 i = Some j"
    using successor_of_edge [OF ho, of i j] edge mid(3) by (simp add: successor_of_def)
  have st: "t_status u = Blocked"
    by (rule row_ok_gate [OF ledger_ok_row [OF ok u(1)] u(2)])
  show ?thesis
    by (rule open_successor_cases [OF mid(1,4)]) (use succ st u1 u(2) in auto)
qed

lemma block_without_predecessor:
  assumes inv: "logged s" and t: "get_task s i = Some t" "\<not> terminal t"
  obtains s1 where "block_task i None None actor now s = Inr (True, s1)"
    and "get_task s1 = (get_task s)(i \<mapsto> block_row None now t)" and "s_handoffs s1 = s_handoffs s"
proof -
  obtain s1 where b: "block_task i None None actor now s = Inr (True, s1)"
    using t count_execute_update [OF logged_distinct [OF inv]]
    by (simp add: block_task_def block_dependency_def Let_def case_prod_beta
        append_note_on_def event_record_def get_execute_update)
  moreover have "get_task s1 = (get_task s)(i \<mapsto> block_row None now t)" and "s_handoffs s1 = s_handoffs s"
    by (rule block_cases [OF inv b], use t in simp)+
  ultimately show thesis by (rule that)
qed

subsection \<open>What the transitions promise\<close>

text \<open>
  C24. A validated dependency keeps handoffs a set of linear chains. When validation accepts a
  predecessor, it is another task on the table, of the same goal and not abandoned, and with
  the new edge the handoffs are still acyclic and one to one; an edge that would close a
  cycle through any number of handoffs is always refused.
\<close>

theorem dependency_validation:
  assumes "handoffs_ok s" and "get_task s i = Some t"
  shows "(validate_dependency_on s i goal b = Inr ready \<longrightarrow>
            handoffs_ok (insert_handoff b i now s) \<and>
            (b, i) \<in> edges (s_handoffs (insert_handoff b i now s)) \<and>
            (\<exists>p. get_task s b = Some p \<and> t_goal_id p = goal \<and> t_status p \<noteq> Abandoned)) \<and>
         ((i, b) \<in> (edges (s_handoffs s))\<^sup>* \<longrightarrow> isl (validate_dependency_on s i goal b))"
proof (intro conjI impI)
  assume "validate_dependency_on s i goal b = Inr ready"
  note v = validate_dependency_Inr [OF this]
  then show "handoffs_ok (insert_handoff b i now s)"
    using assms by (intro handoffs_ok_insert) auto
  show "(b, i) \<in> edges (s_handoffs (insert_handoff b i now s))"
    using edges_insert_handoff [of s b i now] v by blast
  show "\<exists>p. get_task s b = Some p \<and> t_goal_id p = goal \<and> t_status p \<noteq> Abandoned"
    using v by blast
next
  assume c: "(i, b) \<in> (edges (s_handoffs s))\<^sup>*"
  show "isl (validate_dependency_on s i goal b)"
  proof (cases "validate_dependency_on s i goal b")
    case (Inr ready)
    then show ?thesis
      using validate_dependency_Inr [OF Inr] c by (auto simp: rtrancl_eq_or_trancl)
  qed simp
qed

text \<open>
  C23. No chain is stranded by a finished predecessor. When a task is abandoned or accepted out of
  review, the task it gated, if any, is open and ungated in the same transaction.
\<close>

theorem finishing_opens_successor:
  assumes "ledger_ok s" and "get_task s j = Some u" and "t_blocked_by u = Some i"
    and "abandon_task i ack now s = Inr (r, s') \<or> resolve_in_review i resolver now s = Inr (r, s')"
  shows "\<exists>u'. get_task s' j = Some u' \<and> t_status u' = Open \<and> t_blocked_by u' = None \<and>
    claim_guard agent later u'"
proof -
  have inv: "logged s" using assms(1) by (rule ledger_ok_logged)
  obtain s1 t t' where mid: "logged s1" "get_task s1 = (get_task s)(i \<mapsto> t')" "t_blocked_by t' = None"
      "s_handoffs s1 = s_handoffs s" "open_blocked_successor_on i now s1 = Inr s'"
    using assms(4)
  proof
    assume "abandon_task i ack now s = Inr (r, s')"
    then show thesis
      by (rule abandon_effect [OF inv]) (rule that [OF _ _ abandoned_row_ok(3)], assumption+)
  next
    assume "resolve_in_review i resolver now s = Inr (r, s')"
    then obtain t d where t: "get_task s i = Some t" and st: "t_status t = InReview"
      and run: "and_then (transact i (\<lambda>t. t_status t = InReview)
            (accepted_row resolver now (latest_conformance s i))
            (append_note_on i (Some (accept_note (latest_conformance s i))) resolver now)
            EvResolved (Some resolver) now d s)
          (\<lambda>(changed, s1). and_then (open_blocked_successor_on i now s1) (\<lambda>s2. Inr (changed, s2))) = Inr (r, s')"
      by (rule resolve_runs)
    have sel: "\<And>u. get_task s i = Some u \<Longrightarrow> t_status u = InReview" using t st by simp
    show thesis
      using finish_operation(5) [OF _ _ _ sel run t] inv that by auto
  qed
  show ?thesis
    using opened_successor [OF assms(1-3) mid(1,2,4,5)] by (auto simp: claim_guard_def legacy_owner_def)
qed

text \<open>
  C30. When a task may be abandoned. It succeeds exactly on a task that is open, in review or
  blocked, or claimed with a lapsed lease, and, unless the caller acknowledges it, that never
  recorded a branch in any of its events.
\<close>

theorem abandon_iff:
  assumes "ledger_ok s"
  shows "(\<exists>s'. abandon_task i ack now s = Inr (True, s')) \<longleftrightarrow>
    (\<exists>t. get_task s i = Some t \<and>
       (t_status t \<in> {Open, InReview, Blocked} \<or>
        t_status t = Claimed \<and> sql_lt (t_lease_expires_at t) now) \<and>
       (ack \<or> recorded_branches (task_events s i) = []))"
proof
  assume "\<exists>s'. abandon_task i ack now s = Inr (True, s')"
  then obtain s' where "abandon_task i ack now s = Inr (True, s')" ..
  then show "\<exists>t. get_task s i = Some t \<and>
       (t_status t \<in> {Open, InReview, Blocked} \<or>
        t_status t = Claimed \<and> sql_lt (t_lease_expires_at t) now) \<and>
       (ack \<or> recorded_branches (task_events s i) = [])"
    by (rule abandon_runs) blast
next
  assume "\<exists>t. get_task s i = Some t \<and>
       (t_status t \<in> {Open, InReview, Blocked} \<or>
        t_status t = Claimed \<and> sql_lt (t_lease_expires_at t) now) \<and>
       (ack \<or> recorded_branches (task_events s i) = [])"
  then show "\<exists>s'. abandon_task i ack now s = Inr (True, s')"
    using abandon_succeeds [OF assms] by blast
qed

text \<open>
  What keeps a gate shut. Reopening never opens a task while it names a predecessor, but the
  gate is not held by the handoff: blocking the same task again without a predecessor clears
  it, and then the task reopens although the handoff and its unfinished predecessor remain.
\<close>

theorem reopen_respects_gate_until_reblocked:
  assumes "logged s" and "get_task s i = Some t" and "t_blocked_by t = Some b"
    and "t_status t = Blocked"
  shows "reopen_task i now s = Inl (Invalid (GatedByPredecessor i b)) \<and>
    (\<exists>s1 s2. block_task i None None actor now s = Inr (True, s1) \<and>
       reopen_task i now s1 = Inr (True, s2) \<and> s_handoffs s2 = s_handoffs s \<and>
       map_option t_status (get_task s2 i) = Some Open)"
proof
  show "reopen_task i now s = Inl (Invalid (GatedByPredecessor i b))"
    using assms(2-4) by (simp add: reopen_task_def)
  let ?f = "\<lambda>t. t\<lparr>t_status := Open, t_owner := None, t_claim_started_at := None,
             t_lease_expires_at := None, t_blocked_by := None, t_updated_at := now\<rparr>"
  have keep: "keeps_id ?f" by (simp add: keeps_id_def)
  have "\<not> terminal t" using assms(4) by (simp add: terminal_def)
  then obtain s1 where b: "block_task i None None actor now s = Inr (True, s1)"
    and g1: "get_task s1 = (get_task s)(i \<mapsto> block_row None now t)" and h1: "s_handoffs s1 = s_handoffs s"
    by (rule block_without_predecessor [OF assms(1,2)])
  have log: "logged s1" using block.keeps_logged [OF assms(1) b] .
  have t1: "get_task s1 i = Some (block_row None now t)" by (simp add: g1)
  let ?s2 = "event_append EvReopened None now (?f (block_row None now t)) None
               (snd (execute_update i (\<lambda>_. True) ?f s1))"
  have "reopen_task i now s1 = Inr (True, ?s2)"
    using transact_applies [OF log keep side_table_none t1, of "\<lambda>_. True"]
    by (simp add: reopen_task_def t1 block_row_def)
  moreover have "get_task ?s2 i = Some (?f (block_row None now t))"
    by (simp add: get_execute_update [OF keep] t1)
  ultimately show "\<exists>s1 s2. block_task i None None actor now s = Inr (True, s1) \<and>
       reopen_task i now s1 = Inr (True, s2) \<and> s_handoffs s2 = s_handoffs s \<and>
       map_option t_status (get_task s2 i) = Some Open"
    using b h1 by (intro exI [of _ s1] exI [of _ ?s2]) (simp add: snd_execute_update)
qed

subsection \<open>Concrete chains\<close>

text \<open>Task \<open>a\<close> hands off to \<open>b\<close>, which waits for it.\<close>

definition sample_chain :: "task \<Rightarrow> ledger" where
  "sample_chain a = (imported [a, (sample_task ''b'')\<lparr>t_status := Blocked, t_blocked_by := Some ''a''\<rparr>])
     \<lparr>s_handoffs := [\<lparr>h_predecessor_id = ''a'', h_successor_id = ''b'', h_created_at = 0\<rparr>]\<rparr>"

lemma sample_chain_rows:
  assumes "t_id a = ''a''"
  shows "get_task (sample_chain a) = [''a'' \<mapsto> a,
     ''b'' \<mapsto> (sample_task ''b'')\<lparr>t_status := Blocked, t_blocked_by := Some ''a''\<rparr>]"
proof -
  have "s_tasks (sample_chain a) = [a, (sample_task ''b'')\<lparr>t_status := Blocked, t_blocked_by := Some ''a''\<rparr>]"
    using assms by (simp add: sample_chain_def imported_tasks sample_task_def)
  then show ?thesis
    using assms by (auto simp: get_task_def fun_eq_iff sample_task_def)
qed

lemma sample_chain_ok:
  assumes a: "t_id a = ''a''" and "row_ok a" and "\<not> terminal a" and "t_blocked_by a = None"
  shows "ledger_ok (sample_chain a)"
proof -
  have "logged (sample_chain a)"
    using a by (auto simp: sample_chain_def sample_task_def intro!: imported_logged)
  moreover have "rows_ok (sample_chain a)"
    using assms by (auto simp: rows_ok_def sample_chain_rows row_ok_def sample_task_def)
  moreover have e: "edges (s_handoffs (sample_chain a)) = {(''a'', ''b'')}"
    by (simp add: edges_def sample_chain_def)
  have "gates_ok (sample_chain a)"
    unfolding gates_ok_def e using assms
    by (auto simp: sample_chain_rows sample_task_def split: if_splits)
  moreover have "acyclic {(''a'', ''b'')}"
    using acyclic_insert [of "''a''" "''b''" "{}"] by (simp add: acyclic_def)
  then have "handoffs_ok (sample_chain a)"
    unfolding handoffs_ok_def e sample_chain_rows [OF a]
    by (simp add: Field_def) (simp add: sample_chain_def)
  moreover have "s_qa (sample_chain a) = []"
    by (simp add: sample_chain_def)
  ultimately show ?thesis by (simp add: ledger_ok_def qa_numbered_def)
qed

theorem dependency_validation_witness:
  "isl (validate_dependency_on (sample_chain (sample_task ''a'')) ''a'' ''goal:g'' ''b'')"
proof -
  let ?s = "sample_chain (sample_task ''a'')"
  have ok: "handoffs_ok ?s"
    using sample_chain_ok [of "sample_task ''a''"]
    by (simp add: ledger_ok_def sample_task_def row_ok_def terminal_def)
  have t: "get_task ?s ''a'' = Some (sample_task ''a'')"
    by (simp add: sample_chain_rows sample_task_def)
  have "(''a'', ''b'') \<in> (edges (s_handoffs ?s))\<^sup>*"
    by (auto simp: edges_def sample_chain_def)
  then show ?thesis
    using dependency_validation [OF ok t, of "''goal:g''" "''b''"] by blast
qed

theorem finishing_opens_successor_witness:
  "\<exists>s' u'. abandon_task ''a'' False 5 (sample_chain (sample_task ''a'')) = Inr (True, s') \<and>
     get_task s' ''b'' = Some u' \<and> t_status u' = Open"
proof -
  let ?s = "sample_chain (sample_task ''a'')"
  have ok: "ledger_ok ?s"
    using sample_chain_ok [of "sample_task ''a''"]
    by (simp add: sample_task_def row_ok_def terminal_def)
  have "wins (abandon_task ''a'' False 5 ?s)" by code_simp
  then obtain s' where r: "abandon_task ''a'' False 5 ?s = Inr (True, s')" by (auto simp: wins_iff)
  have b: "get_task ?s ''b'' = Some ((sample_task ''b'')\<lparr>t_status := Blocked, t_blocked_by := Some ''a''\<rparr>)"
    by (simp add: sample_chain_rows sample_task_def)
  show ?thesis
    using finishing_opens_successor [OF ok b, of "''a''" False 5 True s'] r by auto
qed

theorem abandon_iff_witness:
  "\<exists>s'. abandon_task ''a'' False 12 (sample_chain (sample_claim ''a'' ''x'' 1 9)) = Inr (True, s')"
proof -
  let ?s = "sample_chain (sample_claim ''a'' ''x'' 1 9)"
  have ok: "ledger_ok ?s"
    using sample_chain_ok [of "sample_claim ''a'' ''x'' 1 9"]
    by (simp add: sample_claim_def sample_task_def row_ok_def terminal_def)
  have t: "get_task ?s ''a'' = Some (sample_claim ''a'' ''x'' 1 9)"
    by (simp add: sample_chain_rows sample_claim_def sample_task_def)
  have "recorded_branches (task_events ?s ''a'') = []" by code_simp
  with t show ?thesis
    unfolding abandon_iff [OF ok] by (simp add: sample_claim_def)
qed

theorem reopen_respects_gate_until_reblocked_witness:
  "\<exists>s1 s2. block_task ''b'' None None ''x'' 5 (sample_chain (sample_task ''a'')) = Inr (True, s1) \<and>
     reopen_task ''b'' 5 s1 = Inr (True, s2) \<and> map_option t_status (get_task s2 ''b'') = Some Open"
proof -
  let ?s = "sample_chain (sample_task ''a'')"
  have log: "logged ?s"
    using sample_chain_ok [of "sample_task ''a''"]
    by (auto simp: sample_task_def row_ok_def terminal_def)
  have b: "get_task ?s ''b'' = Some ((sample_task ''b'')\<lparr>t_status := Blocked, t_blocked_by := Some ''a''\<rparr>)"
    by (simp add: sample_chain_rows sample_task_def)
  show ?thesis
    using reopen_respects_gate_until_reblocked [OF log b, of "''a''" 5 "''x''"] by auto
qed

end
