(* ===== verification/Task_Questions.thy ===== *)
theory Task_Questions
  imports Task_Transitions
begin

text \<open>
  Parking and dialogue (\<^verbatim>\<open>store/coordination/questions.rs\<close>): a claimed task parks with a
  durable question or a pause and keeps its owner and evidence window; an answer or a resume
  returns it to the same owner with a fresh lease. The inbox reads are queries over the
  append-only thread.
\<close>

definition normalize_audience :: "string option \<Rightarrow> string option" where
  "normalize_audience audience =
     (case audience of None \<Rightarrow> None | Some a \<Rightarrow> if blank a then None else Some (trim a))"

definition park_row :: "task_status \<Rightarrow> int \<Rightarrow> task \<Rightarrow> task" where
  "park_row status now t =
     t\<lparr>t_status := status, t_lease_expires_at := None, t_parked_at := Some now, t_updated_at := now\<rparr>"

definition unpark_row :: "int \<Rightarrow> int \<Rightarrow> task \<Rightarrow> task" where
  "unpark_row lease_secs now t =
     t\<lparr>t_status := Claimed, t_lease_expires_at := Some (now + lease_secs), t_parked_at := None,
       t_updated_at := now\<rparr>"

text \<open>
  A rejected park is an error that names the holder. The addressee enters the event's detail
  as a JSON string.
\<close>

definition ask_question ::
  "string \<Rightarrow> string \<Rightarrow> string \<Rightarrow> string option \<Rightarrow> int \<Rightarrow> ledger \<Rightarrow> (bool \<times> ledger) res" where
  "ask_question i agent question audience now s =
     (let audience' = normalize_audience audience in
      if audience' = Some agent then Inl (Invalid (SelfAddressed i))
      else and_then
        (transact i (\<lambda>t. t_owner t = Some agent \<and> t_status t = Claimed) (park_row NeedsInput now)
           (insert_qa i Question question agent audience' now) EvQuestioned (Some agent) now
           (map_option (\<lambda>to. JObj [(''audience'', JStr to)]) audience') s)
        (\<lambda>(changed, s1).
           if changed then Inr (True, s1)
           else (case get_task s1 i of
                   None \<Rightarrow> Inl (NotFound i)
                 | Some t \<Rightarrow> Inl (Invalid (NotParked i agent (t_status t) (t_owner t))))))"

definition answer_question ::
  "string \<Rightarrow> string \<Rightarrow> string \<Rightarrow> int \<Rightarrow> int \<Rightarrow> ledger \<Rightarrow> (bool \<times> ledger) res" where
  "answer_question i answer author lease_secs now =
     transact i (\<lambda>t. t_status t = NeedsInput) (unpark_row lease_secs now)
       (insert_qa i Answer answer author None now) EvAnswered (Some author) now
       (Some (JObj [(''lease_secs'', JInt lease_secs)]))"

definition pause_task :: "string \<Rightarrow> string \<Rightarrow> string option \<Rightarrow> int \<Rightarrow> ledger \<Rightarrow> (bool \<times> ledger) res" where
  "pause_task i agent reason now =
     transact i (\<lambda>t. t_owner t = Some agent \<and> t_status t = Claimed) (park_row Paused now)
       (append_note_on i reason agent now) EvPaused (Some agent) now (detail_json reason)"

definition resume_task :: "string \<Rightarrow> string \<Rightarrow> int \<Rightarrow> int \<Rightarrow> ledger \<Rightarrow> (bool \<times> ledger) res" where
  "resume_task i agent lease_secs now =
     transact i (\<lambda>t. t_owner t = Some agent \<and> t_status t = Paused) (unpark_row lease_secs now)
       Inr EvResumed (Some agent) now (Some (JObj [(''lease_secs'', JInt lease_secs)]))"

subsection \<open>Reading the thread\<close>

definition unanswered :: "ledger \<Rightarrow> task_qa \<Rightarrow> bool" where
  "unanswered s question \<longleftrightarrow>
     \<not> (\<exists>reply \<in> set (s_qa s). q_task_id reply = q_task_id question \<and> q_kind reply = Answer \<and>
          q_id question < q_id reply)"

definition pending_questions :: "ledger \<Rightarrow> string \<Rightarrow> task_qa list" where
  "pending_questions s agent =
     sort_key q_id (filter (\<lambda>q. q_kind q = Question \<and> q_audience q = Some agent \<and> unanswered s q) (s_qa s))"

definition awaiting_input :: "ledger \<Rightarrow> task_qa \<Rightarrow> bool" where
  "awaiting_input s q \<longleftrightarrow>
     (case get_task s (q_task_id q) of None \<Rightarrow> False | Some t \<Rightarrow> t_status t = NeedsInput)"

definition questions_for_a_human :: "ledger \<Rightarrow> int \<Rightarrow> human_question list" where
  "questions_for_a_human s now =
     map (\<lambda>q. \<lparr>hq_question_id = q_id q, hq_task_id = q_task_id q,
               hq_task_title = (case get_task s (q_task_id q) of None \<Rightarrow> [] | Some t \<Rightarrow> t_title t),
               hq_asked_by = q_author q, hq_question = q_body q, hq_asked_at = q_created_at q,
               hq_waiting_seconds = max (now - q_created_at q) 0\<rparr>)
       (sort_key q_id (filter (\<lambda>q. q_kind q = Question \<and> q_audience q = None \<and>
            awaiting_input s q \<and> unanswered s q) (s_qa s)))"

definition waits :: "ledger \<Rightarrow> wait list" where
  "waits s =
     map (\<lambda>q. \<lparr>w_task_id = q_task_id q, w_waiter = q_author q,
               w_waited_on = (case q_audience q of None \<Rightarrow> [] | Some a \<Rightarrow> a),
               w_asked_at = q_created_at q\<rparr>)
       (sort_key q_id (filter (\<lambda>q. q_kind q = Question \<and> q_audience q \<noteq> None \<and>
            awaiting_input s q \<and> unanswered s q) (s_qa s)))"

definition task_qa_of :: "ledger \<Rightarrow> string \<Rightarrow> task_qa list" where
  "task_qa_of s i = sort_key q_id (filter (\<lambda>q. q_task_id q = i) (s_qa s))"

subsection \<open>The operations keep the ledger's invariant\<close>

lemma park_row_keeps [simp]: "keeps_id (park_row st n)" "keeps_id (unpark_row l n)"
  by (simp_all add: keeps_id_def park_row_def unpark_row_def)

lemma ask_runs:
  assumes "ask_question i agent question audience now s = Inr (b, s')"
  obtains "b" and "normalize_audience audience \<noteq> Some agent"
    and "transact i (\<lambda>t. t_owner t = Some agent \<and> t_status t = Claimed) (park_row NeedsInput now)
           (insert_qa i Question question agent (normalize_audience audience) now)
           EvQuestioned (Some agent) now
           (map_option (\<lambda>to. JObj [(''audience'', JStr to)]) (normalize_audience audience)) s =
         Inr (True, s')"
  using assms
  by (auto simp: ask_question_def Let_def and_then_Inr split: if_splits option.splits)

interpretation ask: ledger_operation "ask_question i agent question audience now"
  for i agent question audience now
proof (rule ledger_operation_via)
  fix s r s'
  let ?op = "\<lambda>a d. transact i (\<lambda>t. t_owner t = Some agent \<and> t_status t = Claimed) (park_row NeedsInput now)
      (insert_qa i Question question agent a now) EvQuestioned (Some agent) now d"
  assume "ask_question i agent question audience now s = Inr (r, s')"
  then have "\<exists>a d. ?op a d s = Inr (r, s')"
    by (rule ask_runs) auto
  moreover have "ledger_operation (?op a d)" for a d
    by (rule transact_ledger_operation) (auto simp: park_row_def row_ok_def terminal_def)
  ultimately show "\<exists>op. ledger_operation op \<and> op s = Inr (r, s')" by blast
qed

interpretation answer: ledger_operation "answer_question i a author l now" for i a author l now
  unfolding answer_question_def
  by (rule transact_ledger_operation) (auto simp: unpark_row_def row_ok_def terminal_def)

interpretation pause: ledger_operation "pause_task i agent reason now" for i agent reason now
  unfolding pause_task_def
  by (rule transact_ledger_operation) (auto simp: park_row_def row_ok_def terminal_def)

interpretation resume: ledger_operation "resume_task i agent l now" for i agent l now
  unfolding resume_task_def
  by (rule transact_ledger_operation) (auto simp: unpark_row_def row_ok_def terminal_def)

subsection \<open>Parking keeps the claim\<close>

lemma transact_same_window:
  assumes inv: "logged s" and keep: "keeps_id f" and side: "side_table extra"
    and run: "transact i g f extra k a n d s = Inr (True, s')"
    and t: "get_task s i = Some t" and k: "k \<notin> {EvImported, EvClaimed}"
    and same: "t_owner (f t) = t_owner t" "t_claim_started_at (f t) = t_claim_started_at t"
  shows "get_task s' i = Some (f t) \<and> claim_window_on s' i = claim_window_on s i"
proof (rule transact_cases [OF inv keep side run])
  fix t' s2
  assume "get_task s i = Some t'" and s': "s' = event_append k a n (f t') d s2"
    and tab: "get_task s' = (get_task s)(i \<mapsto> f t')" and ev: "s_events s2 = s_events s"
  then have "t' = t" using t by simp
  moreover have "t_id (f t) = i"
    using keep get_task_id [OF t] by (simp add: keeps_id_def)
  ultimately show ?thesis
    using same_window_step [OF inv t same _ k ev] tab s' by simp
qed simp

text \<open>
  C27. Parking keeps the claim. Asking a question or pausing leaves the owner, the branch and the
  whole evidence window as they were, with the lease cleared; answering or resuming returns
  the task to claimed under that same owner, with the same window and a lease from now.
\<close>

theorem parking_keeps_claim:
  assumes "logged s" and "get_task s i = Some t"
  shows "(ask_question i agent question audience now s = Inr (True, s') \<or>
          pause_task i agent reason now s = Inr (True, s') \<longrightarrow>
            t_owner t = Some agent \<and>
            (\<exists>st \<in> {NeedsInput, Paused}. get_task s' i = Some (park_row st now t)) \<and>
            claim_window_on s' i = claim_window_on s i) \<and>
         (answer_question i answer author l now s = Inr (True, s') \<or>
          resume_task i agent l now s = Inr (True, s') \<longrightarrow>
            get_task s' i = Some (unpark_row l now t) \<and>
            claim_window_on s' i = claim_window_on s i)"
proof (intro conjI impI)
  assume "ask_question i agent question audience now s = Inr (True, s') \<or>
          pause_task i agent reason now s = Inr (True, s')"
  then obtain st extra k d where st: "st \<in> {NeedsInput, Paused}" and side: "side_table extra"
    and k: "k \<notin> {EvImported, EvClaimed}"
    and run: "transact i (\<lambda>t. t_owner t = Some agent \<and> t_status t = Claimed) (park_row st now)
      extra k (Some agent) now d s = Inr (True, s')"
  proof
    assume "ask_question i agent question audience now s = Inr (True, s')"
    then show thesis by (rule ask_runs) (rule that; simp)
  next
    assume "pause_task i agent reason now s = Inr (True, s')"
    then show thesis unfolding pause_task_def by (intro that) simp_all
  qed
  have w: "get_task s' i = Some (park_row st now t) \<and> claim_window_on s' i = claim_window_on s i"
    by (rule transact_same_window [OF assms(1) park_row_keeps(1) side run assms(2) k])
      (simp_all add: park_row_def)
  show "t_owner t = Some agent"
    by (rule transact_cases [OF assms(1) park_row_keeps(1) side run]) (use assms(2) in auto)
  show "\<exists>st \<in> {NeedsInput, Paused}. get_task s' i = Some (park_row st now t)"
    using w st by blast
  show "claim_window_on s' i = claim_window_on s i" using w by blast
next
  assume "answer_question i answer author l now s = Inr (True, s') \<or>
          resume_task i agent l now s = Inr (True, s')"
  then obtain g extra k a d where side: "side_table extra" and k: "k \<notin> {EvImported, EvClaimed}"
    and run: "transact i g (unpark_row l now) extra k a now d s = Inr (True, s')"
    unfolding answer_question_def resume_task_def using insert_qa_side side_table_none by blast
  have w: "get_task s' i = Some (unpark_row l now t) \<and> claim_window_on s' i = claim_window_on s i"
    by (rule transact_same_window [OF assms(1) park_row_keeps(2) side run assms(2) k])
      (simp_all add: unpark_row_def)
  show "get_task s' i = Some (unpark_row l now t)" using w by blast
  show "claim_window_on s' i = claim_window_on s i" using w by blast
qed

subsection \<open>The inbox\<close>

lemma insert_qa_Inr:
  "insert_qa i k b a u n s = Inr s' \<Longrightarrow>
     s_qa s' = s_qa s @ [\<lparr>q_id = int (length (s_qa s)) + 1, q_task_id = i, q_kind = k,
             q_body = b, q_author = a, q_audience = u, q_created_at = n\<rparr>]"
  by (auto simp: insert_qa_def split: if_splits)

text \<open>
  An addressed question reaches its addressee. After an agent parks its task with a question to
  a peer, the peer's inbox holds the question and the fleet's waits name asker and peer.
\<close>

theorem asked_question_pends:
  assumes "ledger_ok s" and "ask_question i agent question audience now s = Inr (b, s')"
    and "normalize_audience audience = Some peer"
  shows "(\<exists>q \<in> set (pending_questions s' peer). q_task_id q = i \<and> q_body q = question \<and> q_author q = agent) \<and>
    \<lparr>w_task_id = i, w_waiter = agent, w_waited_on = peer, w_asked_at = now\<rparr> \<in> set (waits s') \<and> peer \<noteq> agent"
proof (rule ask_runs [OF assms(2)])
  assume ne: "normalize_audience audience \<noteq> Some agent"
    and run: "transact i (\<lambda>t. t_owner t = Some agent \<and> t_status t = Claimed) (park_row NeedsInput now)
           (insert_qa i Question question agent (normalize_audience audience) now)
           EvQuestioned (Some agent) now
           (map_option (\<lambda>to. JObj [(''audience'', JStr to)]) (normalize_audience audience)) s =
         Inr (True, s')"
  have inv: "logged s" using assms(1) by (rule ledger_ok_logged)
  let ?q = "\<lparr>q_id = int (length (s_qa s)) + 1, q_task_id = i, q_kind = Question, q_body = question,
      q_author = agent, q_audience = Some peer, q_created_at = now\<rparr>"
  have eq: "s_qa s' = s_qa s @ [?q]" and st: "map_option t_status (get_task s' i) = Some NeedsInput"
    by (rule transact_cases [OF inv park_row_keeps(1) insert_qa_side run],
        use assms(3) in \<open>auto dest!: insert_qa_Inr simp: snd_execute_update park_row_def\<close>)+
  have "unanswered s' ?q"
    using qa_numbered_bound [of s] assms(1) by (force simp: unanswered_def eq ledger_ok_def)
  moreover have "awaiting_input s' ?q"
    using st by (auto simp: awaiting_input_def)
  ultimately show ?thesis
    using ne assms(3) by (auto simp: pending_questions_def waits_def eq)
qed

text \<open>
  An answer settles the task's questions and no others. After an answer, each inbox holds
  exactly the questions it held before that are not about the answered task, and nobody is
  waiting on that task.
\<close>

theorem answer_settles_questions:
  assumes "ledger_ok s" and "answer_question i answer author l now s = Inr (True, s')"
  shows "set (pending_questions s' peer) = {q \<in> set (pending_questions s peer). q_task_id q \<noteq> i} \<and>
    (\<forall>w \<in> set (waits s'). w_task_id w \<noteq> i)"
proof -
  have inv: "logged s" using assms(1) by (rule ledger_ok_logged)
  note run = assms(2) [unfolded answer_question_def]
  let ?r = "\<lparr>q_id = int (length (s_qa s)) + 1, q_task_id = i, q_kind = Answer, q_body = answer,
      q_author = author, q_audience = None, q_created_at = now\<rparr>"
  have eq: "s_qa s' = s_qa s @ [?r]" and st: "map_option t_status (get_task s' i) = Some Claimed"
    by (rule transact_cases [OF inv park_row_keeps(2) insert_qa_side run],
        auto dest!: insert_qa_Inr simp: snd_execute_update unpark_row_def)+
  have "unanswered s' q \<longleftrightarrow> unanswered s q \<and> q_task_id q \<noteq> i" if "q \<in> set (s_qa s)" for q
    using qa_numbered_bound [of s q] assms(1) that by (auto simp: unanswered_def eq ledger_ok_def)
  then have "set (pending_questions s' peer) = {q \<in> set (pending_questions s peer). q_task_id q \<noteq> i}"
    by (auto simp: pending_questions_def eq)
  moreover have "\<forall>w \<in> set (waits s'). w_task_id w \<noteq> i"
    using st by (auto simp: waits_def awaiting_input_def split: option.splits)
  ultimately show ?thesis ..
qed

definition sample_three :: ledger where
  "sample_three = imported [sample_claim ''a'' ''x'' 1 99, sample_claim ''b'' ''x'' 1 99,
     sample_claim ''c'' ''x'' 1 99, sample_task ''d'']"

text \<open>
  The limit on concurrent claims binds claiming only. Three claims held, one of them paused, a
  fourth task claimed, the paused one resumed: every step succeeds and the agent holds four
  claims, one more than the limit.
\<close>

theorem resume_exceeds_claim_limit:
  "\<exists>s1 s2 s3. pause_task ''a'' ''x'' None 5 sample_three = Inr (True, s1) \<and>
     claim_task (\<lambda>_. None) ''d'' ''x'' 60 6 s1 = Inr (True, s2) \<and>
     resume_task ''a'' ''x'' 60 7 s2 = Inr (True, s3) \<and>
     length (held_claims s3 ''x'') = Suc MAX_CONCURRENT_CLAIMS"
proof -
  have "on_win (pause_task ''a'' ''x'' None 5 sample_three) (\<lambda>s1.
      on_win (claim_task (\<lambda>_. None) ''d'' ''x'' 60 6 s1) (\<lambda>s2.
        on_win (resume_task ''a'' ''x'' 60 7 s2) (\<lambda>s3.
          length (held_claims s3 ''x'') = Suc MAX_CONCURRENT_CLAIMS)))"
    by code_simp
  then show ?thesis unfolding on_win_iff by blast
qed

theorem parking_keeps_claim_witness:
  "\<exists>s'. ask_question ''a'' ''x'' ''why'' (Some ''y'') 5 (imported [sample_claim ''a'' ''x'' 1 9]) = Inr (True, s') \<and>
     cw_started_at (claim_window_on s' ''a'') = Some 1"
proof -
  let ?s = "imported [sample_claim ''a'' ''x'' 1 9]"
  have log: "logged ?s" by (rule imported_logged) simp
  have "wins (ask_question ''a'' ''x'' ''why'' (Some ''y'') 5 ?s)" by code_simp
  then obtain s' where r: "ask_question ''a'' ''x'' ''why'' (Some ''y'') 5 ?s = Inr (True, s')"
    by (auto simp: wins_iff)
  have t: "get_task ?s ''a'' = Some (sample_claim ''a'' ''x'' 1 9)" by code_simp
  have "cw_started_at (claim_window_on ?s ''a'') = Some 1" by code_simp
  then show ?thesis
    using r parking_keeps_claim [OF log t, of "''x''" "''why''" "Some ''y''" 5 s'] by auto
qed

theorem asked_question_pends_witness:
  "\<exists>s'. ask_question ''a'' ''x'' ''why'' (Some '' y '') 5 (imported [sample_claim ''a'' ''x'' 1 9]) = Inr (True, s') \<and>
     \<lparr>w_task_id = ''a'', w_waiter = ''x'', w_waited_on = ''y'', w_asked_at = 5\<rparr> \<in> set (waits s')"
proof -
  let ?s = "imported [sample_claim ''a'' ''x'' 1 9]"
  have ok: "ledger_ok ?s"
    by (rule imported_ok) (simp_all add: sample_claim_def sample_task_def row_ok_def)
  have "wins (ask_question ''a'' ''x'' ''why'' (Some '' y '') 5 ?s)" by code_simp
  then obtain s' where r: "ask_question ''a'' ''x'' ''why'' (Some '' y '') 5 ?s = Inr (True, s')"
    by (auto simp: wins_iff)
  have "normalize_audience (Some '' y '') = Some ''y''" by code_simp
  from asked_question_pends [OF ok r this] r show ?thesis by auto
qed

theorem answer_settles_questions_witness:
  "\<exists>s1 s2. ask_question ''a'' ''x'' ''why'' (Some ''y'') 5 (imported [sample_claim ''a'' ''x'' 1 9]) = Inr (True, s1) \<and>
     answer_question ''a'' ''so'' ''y'' 60 7 s1 = Inr (True, s2) \<and>
     (\<forall>q \<in> set (pending_questions s2 ''y''). q_task_id q \<noteq> ''a'')"
proof -
  let ?s = "imported [sample_claim ''a'' ''x'' 1 9]"
  have ok: "ledger_ok ?s"
    by (rule imported_ok) (simp_all add: sample_claim_def sample_task_def row_ok_def)
  have "on_win (ask_question ''a'' ''x'' ''why'' (Some ''y'') 5 ?s)
      (\<lambda>s1. wins (answer_question ''a'' ''so'' ''y'' 60 7 s1))" by code_simp
  then obtain s1 s2 where r: "ask_question ''a'' ''x'' ''why'' (Some ''y'') 5 ?s = Inr (True, s1)"
      "answer_question ''a'' ''so'' ''y'' 60 7 s1 = Inr (True, s2)"
    by (auto simp: on_win_iff wins_iff)
  have "ledger_ok s1" using ask.keeps_ok [OF ok r(1)] .
  from answer_settles_questions [OF this r(2), of "''y''"] r show ?thesis by auto
qed

end
