(* ===== verification/Task_Creation.thy ===== *)
theory Task_Creation
  imports Task_Questions
begin

text \<open>
  Creation and coverage (\<^verbatim>\<open>store/coordination/creation.rs\<close>, \<^verbatim>\<open>util.rs\<close>, \<^verbatim>\<open>goal_exists_on\<close>
  of \<^verbatim>\<open>store/goals.rs\<close>): task identifiers from a short hash with a discriminator, creation
  behind an optional predecessor, the goals a task declares it serves, and the reconnection of
  a live claim to the successor of a superseded clause. The hash is SHA-256 truncated, from the
  crate \<^verbatim>\<open>sha2\<close>: the parameter \<open>hash\<close>.
\<close>

subsection \<open>Identity of goals and tasks\<close>

text \<open>The loop of \<^verbatim>\<open>slugify\<close> over the characters, with its accumulator and last-dash flag.\<close>

fun slug_chars :: "string \<Rightarrow> bool \<Rightarrow> string \<Rightarrow> string" where
  "slug_chars out prev_dash [] = out"
| "slug_chars out prev_dash (c # cs) =
     (if is_ascii_alphanumeric c then slug_chars (out @ [ascii_lower c]) False cs
      else if out \<noteq> [] \<and> \<not> prev_dash then slug_chars (out @ ''-'') True cs
      else slug_chars out prev_dash cs)"

definition trim_dashes :: "string \<Rightarrow> string" where
  "trim_dashes s = rev (dropWhile ((=) CHR ''-'') (rev (dropWhile ((=) CHR ''-'') s)))"

definition slugify :: "(string \<Rightarrow> string) \<Rightarrow> string \<Rightarrow> string" where
  "slugify hash input =
     (let slug = trim_dashes (take 48 (slug_chars [] False input))
      in if slug = [] then hash input else slug)"

definition goal_slug :: "string \<Rightarrow> string" where
  "goal_slug goal_id =
     (let without_prefix = (case strip_prefix ''goal:'' goal_id of None \<Rightarrow> goal_id | Some r \<Rightarrow> r)
      in case split_once CHR ''@'' without_prefix of
           Some (slug, _) \<Rightarrow> slug
         | None \<Rightarrow> without_prefix)"

definition goal_exists_on :: "ledger \<Rightarrow> string \<Rightarrow> bool" where
  "goal_exists_on s i \<longleftrightarrow> (\<exists>g \<in> set (s_goals s). g_id g = i)"

definition live_tasks_titled_on :: "ledger \<Rightarrow> string \<Rightarrow> task list" where
  "live_tasks_titled_on s title =
     sort_key t_created_at
       (filter (\<lambda>t. t_title t = title \<and> t_status t \<notin> {Done, Abandoned}) (s_tasks s))"

definition live_task_titled_on :: "ledger \<Rightarrow> string \<Rightarrow> string \<Rightarrow> task option" where
  "live_task_titled_on s goal_id title =
     find (\<lambda>t. goal_slug (t_goal_id t) = goal_slug goal_id) (live_tasks_titled_on s title)"

definition live_tasks_titled_elsewhere_on :: "ledger \<Rightarrow> string \<Rightarrow> string \<Rightarrow> task list" where
  "live_tasks_titled_elsewhere_on s goal_id title =
     filter (\<lambda>t. goal_slug (t_goal_id t) \<noteq> goal_slug goal_id) (live_tasks_titled_on s title)"

subsection \<open>Coverage\<close>

definition insert_coverage_row :: "string \<Rightarrow> string \<Rightarrow> int \<Rightarrow> ledger \<Rightarrow> ledger" where
  "insert_coverage_row i covered now s =
     (if \<exists>r \<in> set (s_coverage s). fst r = i \<and> fst (snd r) = covered then s
      else s\<lparr>s_coverage := s_coverage s @ [(i, covered, now)]\<rparr>)"

definition insert_coverage_on :: "string \<Rightarrow> string \<Rightarrow> string list \<Rightarrow> int \<Rightarrow> ledger \<Rightarrow> ledger res" where
  "insert_coverage_on i goal_id also_serves now s =
     try_fold (\<lambda>s covered.
       if covered = goal_id then Inl (Invalid (AlreadyGoal covered))
       else if \<not> goal_exists_on s covered then Inl (NotFound covered)
       else Inr (insert_coverage_row i covered now s)) s also_serves"

definition goal_coverage_on :: "ledger \<Rightarrow> string \<Rightarrow> string list" where
  "goal_coverage_on s i = sort (map (\<lambda>r. fst (snd r)) (filter (\<lambda>r. fst r = i) (s_coverage s)))"

definition declare_coverage ::
  "string \<Rightarrow> string \<Rightarrow> string list \<Rightarrow> int \<Rightarrow> ledger \<Rightarrow> (string list \<times> ledger) res" where
  "declare_coverage i agent also_serves now s =
     (case get_task s i of
        None \<Rightarrow> Inl (NotFound i)
      | Some t \<Rightarrow>
          if t_status t \<noteq> Claimed \<or> t_owner t \<noteq> Some agent then Inl (Invalid (NotClaimedBy i agent))
          else if 0 < length (filter (\<lambda>r. cr_task_id r = Some i) (s_conformance s))
          then Inl (Invalid (AlreadyJudged i))
          else and_then (insert_coverage_on i (t_goal_id t) also_serves now s) (\<lambda>s1.
               and_then (event_record i EvCoverageDeclared (Some agent) now
                   (Some (JObj [(''also_serves'', JArr (map JStr also_serves))])) s1) (\<lambda>s2.
                 Inr (goal_coverage_on s2 i, s2))))"

subsection \<open>Creation\<close>

definition task_id_candidate :: "(string \<Rightarrow> string) \<Rightarrow> string \<Rightarrow> string \<Rightarrow> int \<Rightarrow> nat \<Rightarrow> string" where
  "task_id_candidate hash goal_id title now k =
     ''task:'' @ hash (goal_id @ ''|'' @ title @ ''|'' @ show_int now @
       (if k = 0 then [] else ''|'' @ show_nat k))"

text \<open>
  The loop that looks for an identifier no task has; \<^term>\<open>None\<close> if it never ends. The source
  counts discriminators in 32 bits.
\<close>

partial_function (option) fresh_task_id ::
  "(string \<Rightarrow> string) \<Rightarrow> ledger \<Rightarrow> string \<Rightarrow> string \<Rightarrow> int \<Rightarrow> nat \<Rightarrow> string option" where
  "fresh_task_id hash s goal_id title now k =
     (if get_task s (task_id_candidate hash goal_id title now k) = None
      then Some (task_id_candidate hash goal_id title now k)
      else fresh_task_id hash s goal_id title now (Suc k))"

declare fresh_task_id.simps [code]

definition insert_handoff_row :: "string \<Rightarrow> string \<Rightarrow> int \<Rightarrow> ledger \<Rightarrow> ledger res" where
  "insert_handoff_row p i now s =
     (if \<exists>h \<in> set (s_handoffs s). h_predecessor_id h = p \<or> h_successor_id h = i
      then Inl (Sqlite ''task_handoffs'')
      else Inr (insert_handoff p i now s))"

definition new_task ::
  "string \<Rightarrow> string \<Rightarrow> string \<Rightarrow> string \<Rightarrow> string option \<Rightarrow> string option \<Rightarrow> int \<Rightarrow> task" where
  "new_task i goal_id title acceptance parent blocked_by now =
     \<lparr>t_id = i, t_goal_id = goal_id, t_parent_task_id = parent, t_title = title,
      t_acceptance = acceptance, t_status = (if blocked_by \<noteq> None then Blocked else Open),
      t_owner = None, t_claim_started_at = None, t_lease_expires_at = None,
      t_blocked_by = blocked_by, t_branch = None, t_parked_at = None, t_resolved_by = None,
      t_resolved_at = None, t_resolved_conformance_id = None, t_created_at = now,
      t_updated_at = now\<rparr>"

definition insert_task :: "task \<Rightarrow> ledger \<Rightarrow> ledger res" where
  "insert_task t s =
     (if get_task s (t_id t) \<noteq> None then Inl (Sqlite ''tasks'')
      else Inr (s\<lparr>s_tasks := s_tasks s @ [t]\<rparr>))"

text \<open>The part of \<^verbatim>\<open>create_task_after_on\<close> after the identifier is chosen.\<close>

definition create_task_with_id ::
  "string \<Rightarrow> string \<Rightarrow> string \<Rightarrow> string \<Rightarrow> string option \<Rightarrow> string option \<Rightarrow> string list \<Rightarrow> int \<Rightarrow>
   ledger \<Rightarrow> (task \<times> ledger) res" where
  "create_task_with_id i goal_id title acceptance parent predecessor also_serves now s =
     and_then (case predecessor of
                 None \<Rightarrow> Inr None
               | Some blocker_id \<Rightarrow>
                   and_then (validate_dependency_on s i goal_id blocker_id)
                     (\<lambda>complete. Inr (if complete then None else Some blocker_id))) (\<lambda>blocked_by.
     let t = new_task i goal_id title acceptance parent blocked_by now in
     and_then (insert_task t s) (\<lambda>s1.
     and_then (case predecessor of None \<Rightarrow> Inr s1 | Some p \<Rightarrow> insert_handoff_row p i now s1) (\<lambda>s2.
     and_then (insert_coverage_on i goal_id also_serves now s2) (\<lambda>s3.
       Inr (t, event_append EvCreated None now t None s3)))))"

definition create_task_after_on ::
  "(string \<Rightarrow> string) \<Rightarrow> string \<Rightarrow> string \<Rightarrow> string \<Rightarrow> string option \<Rightarrow> string option \<Rightarrow> string list \<Rightarrow>
   int \<Rightarrow> ledger \<Rightarrow> (task \<times> ledger) res option" where
  "create_task_after_on hash goal_id title acceptance parent predecessor also_serves now s =
     (if \<not> goal_exists_on s goal_id then Some (Inl (NotFound goal_id))
      else map_option (\<lambda>i. create_task_with_id i goal_id title acceptance parent predecessor
                            also_serves now s)
             (fresh_task_id hash s goal_id title now 0))"

definition create_task_after ::
  "(string \<Rightarrow> string) \<Rightarrow> string \<Rightarrow> string \<Rightarrow> string \<Rightarrow> string option \<Rightarrow> string option \<Rightarrow>
   int \<Rightarrow> ledger \<Rightarrow> (task \<times> ledger) res option" where
  "create_task_after hash goal_id title acceptance parent blocked_by now =
     create_task_after_on hash goal_id title acceptance parent blocked_by [] now"

definition create_task ::
  "(string \<Rightarrow> string) \<Rightarrow> string \<Rightarrow> string \<Rightarrow> string \<Rightarrow> string option \<Rightarrow>
   int \<Rightarrow> ledger \<Rightarrow> (task \<times> ledger) res option" where
  "create_task hash goal_id title acceptance parent now =
     create_task_after hash goal_id title acceptance parent None now"

subsection \<open>Reconnecting a live claim\<close>

definition reconnect_claim_clause ::
  "string \<Rightarrow> string \<Rightarrow> int \<Rightarrow> ledger \<Rightarrow> (string \<times> ledger) res" where
  "reconnect_claim_clause i agent now s =
     (case get_task s i of
        None \<Rightarrow> Inl (NotFound i)
      | Some t \<Rightarrow>
          if \<not> (t_status t = Claimed \<and> t_owner t = Some agent \<and>
                (case t_lease_expires_at t of None \<Rightarrow> False | Some e \<Rightarrow> now < e))
          then Inl (Invalid (NoLiveClaim i agent))
          else case find (\<lambda>g. g_id g = t_goal_id t \<and> g_status g = GoalSuperseded) (s_goals s) of
            None \<Rightarrow> Inl (Invalid (NotSuperseded i (t_goal_id t)))
          | Some outgoing \<Rightarrow>
              (case map g_id (filter (\<lambda>g. g_status g = GoalActive \<and> g_slug g = g_slug outgoing) (s_goals s)) of
                 [] \<Rightarrow> Inl (Invalid (NoSuccessorClause (t_goal_id t) (g_slug outgoing)))
               | [new_goal_id] \<Rightarrow>
                   and_then (transact i (\<lambda>_. True)
                       (\<lambda>t. t\<lparr>t_goal_id := new_goal_id, t_updated_at := now\<rparr>) Inr
                       EvClauseReconnected (Some agent) now
                       (Some (JObj [(''from_goal_id'', JStr (t_goal_id t)),
                                    (''to_goal_id'', JStr new_goal_id)])) s)
                     (\<lambda>(_, s1). Inr (new_goal_id, s1))
               | gs \<Rightarrow> Inl (Invalid (AmbiguousSuccessor (g_slug outgoing) (length gs) (t_goal_id t)))))"

subsection \<open>The operations keep the ledger's invariant\<close>

lemma insert_coverage_Inr:
  assumes "insert_coverage_on i goal goals now s = Inr s'"
  shows "s_tasks s' = s_tasks s \<and> s_events s' = s_events s \<and> s_handoffs s' = s_handoffs s \<and>
    s_qa s' = s_qa s \<and> s_goals s' = s_goals s \<and> s_conformance s' = s_conformance s"
  using assms unfolding insert_coverage_on_def
  by (rule try_fold_invariant [where P = "\<lambda>x. s_tasks x = s_tasks s \<and> s_events x = s_events s \<and>
      s_handoffs x = s_handoffs s \<and> s_qa x = s_qa s \<and> s_goals x = s_goals s \<and>
      s_conformance x = s_conformance s", rotated 2])
    (auto simp: insert_coverage_row_def split: if_splits)

text \<open>An event that records the row as it stands keeps log and table in agreement.\<close>

lemma logged_record_only:
  assumes inv: "logged s" and t: "get_task s i = Some t"
  shows "logged (event_append k a n t d s)"
proof -
  have "last_image (s_events (event_append k a n t d s)) = get_task s"
    using inv t get_task_id [OF t]
    by (auto simp: last_image_event_append logged_def)
  then show ?thesis
    using inv by (auto simp: logged_def) (auto simp: event_append_def)
qed

lemma ledger_ok_record_only:
  assumes "ledger_ok s" and "get_task s i = Some t"
  shows "ledger_ok (event_append k a n t d s)"
  using assms logged_record_only [of s i t k a n d]
  by (auto simp: ledger_ok_def rows_ok_def gates_ok_def handoffs_ok_def qa_numbered_def)

lemma declare_coverage_runs:
  assumes "declare_coverage i agent goals now s = Inr (r, s')"
  obtains t s1 where "get_task s i = Some t" and "t_status t = Claimed" and "t_owner t = Some agent"
    and "\<forall>c \<in> set (s_conformance s). cr_task_id c \<noteq> Some i"
    and "insert_coverage_on i (t_goal_id t) goals now s = Inr s1" and "get_task s1 = get_task s"
    and "s' = event_append EvCoverageDeclared (Some agent) now t
           (Some (JObj [(''also_serves'', JArr (map JStr goals))])) s1"
proof -
  obtain t s1 where t: "get_task s i = Some t" "t_status t = Claimed" "t_owner t = Some agent"
    and j: "\<forall>c \<in> set (s_conformance s). cr_task_id c \<noteq> Some i"
    and c: "insert_coverage_on i (t_goal_id t) goals now s = Inr s1"
    and r: "event_record i EvCoverageDeclared (Some agent) now
           (Some (JObj [(''also_serves'', JArr (map JStr goals))])) s1 = Inr s'"
    using assms by (auto simp: declare_coverage_def and_then_Inr filter_empty_conv
        split: option.splits if_splits)
  have g: "get_task s1 = get_task s"
    using insert_coverage_Inr [OF c] get_task_cong by blast
  show thesis
    using that t j c g r by (auto simp: event_record_Inr)
qed

interpretation coverage: ledger_operation "declare_coverage i agent goals now" for i agent goals now
proof
  fix s r s'
  assume run: "declare_coverage i agent goals now s = Inr (r, s')"
  obtain t s1 where t: "get_task s i = Some t" and g: "get_task s1 = get_task s"
    and c: "insert_coverage_on i (t_goal_id t) goals now s = Inr s1"
    and s': "s' = event_append EvCoverageDeclared (Some agent) now t
           (Some (JObj [(''also_serves'', JArr (map JStr goals))])) s1"
    by (rule declare_coverage_runs [OF run])
  note f = insert_coverage_Inr [OF c]
  have t1: "get_task s1 i = Some t" using t g by simp
  show "logged s'" if "logged s"
    unfolding s' by (rule logged_record_only [OF _ t1]) (use that f logged_cong [of s1 s] in simp)
  show "prefix (s_events s) (s_events s')"
    using f by (simp add: s' event_append_def)
  show "ledger_ok s'" if "ledger_ok s"
    unfolding s' by (rule ledger_ok_record_only [OF _ t1]) (use that f ledger_ok_cong [of s1 s] in simp)
qed

lemma reconnect_runs:
  assumes "reconnect_claim_clause i agent now s = Inr (r, s')"
  obtains t d b where "get_task s i = Some t" and "t_status t = Claimed" and "t_owner t = Some agent"
    and "\<exists>e. t_lease_expires_at t = Some e \<and> now < e"
    and "transact i (\<lambda>_. True) (\<lambda>t. t\<lparr>t_goal_id := r, t_updated_at := now\<rparr>) Inr
           EvClauseReconnected (Some agent) now d s = Inr (b, s')"
  using assms
  by (auto simp: reconnect_claim_clause_def and_then_Inr split: option.splits if_splits list.splits)

interpretation reconnect: ledger_operation "reconnect_claim_clause i agent now" for i agent now
proof
  fix s r s'
  assume run: "reconnect_claim_clause i agent now s = Inr (r, s')"
  let ?f = "\<lambda>t. t\<lparr>t_goal_id := r, t_updated_at := now\<rparr>"
  have keep: "keeps_id ?f" by (simp add: keeps_id_def)
  obtain t d b where t: "get_task s i = Some t" "t_status t = Claimed"
    and tr: "transact i (\<lambda>_. True) ?f Inr EvClauseReconnected (Some agent) now d s = Inr (b, s')"
    by (rule reconnect_runs [OF run]) blast
  note op = transact_logged_operation [OF keep side_table_none]
  show "logged s'" if "logged s"
    using logged_operation.keeps_logged [OF op that tr] .
  show "prefix (s_events s) (s_events s')" if "logged s"
    using logged_operation.appends [OF op that tr] .
  show "ledger_ok s'" if "ledger_ok s"
    by (rule transact_keeps_ok [OF that keep side_table_none tr])
      (use t in \<open>auto simp: row_ok_def terminal_def\<close>)
qed

subsection \<open>Creation\<close>

lemma get_task_snoc:
  assumes "get_task s (t_id t) = None"
  shows "get_task (s\<lparr>s_tasks := s_tasks s @ [t]\<rparr>) = (get_task s)(t_id t \<mapsto> t)"
proof -
  have "find (\<lambda>x. t_id x = j) (ts @ [t]) = (case find (\<lambda>x. t_id x = j) ts of None \<Rightarrow>
      if t_id t = j then Some t else None | Some x \<Rightarrow> Some x)" for j ts
    by (induction ts) auto
  then show ?thesis
    using assms by (auto simp: get_task_def fun_eq_iff split: option.splits)
qed

lemma insert_handoff_tasks:
  "s_handoffs (insert_handoff p i now (s\<lparr>s_tasks := ts\<rparr>)) = s_handoffs (insert_handoff p i now s)"
  by (simp add: insert_handoff_def)

lemma create_runs:
  assumes "create_task_with_id i goal title acc parent pred goals now s = Inr (t, s')"
  obtains gate s1 s2 s3 where "t = new_task i goal title acc parent gate now"
    and "gate \<in> {None, pred}"
    and "\<And>p. pred = Some p \<Longrightarrow> validate_dependency_on s i goal p = Inr (gate = None)"
    and "insert_task t s = Inr s1"
    and "(case pred of None \<Rightarrow> Inr s1 | Some p \<Rightarrow> insert_handoff_row p i now s1) = Inr s2"
    and "insert_coverage_on i goal goals now s2 = Inr s3"
    and "s' = event_append EvCreated None now t None s3"
proof -
  obtain gate s1 s2 s3 where
    g: "(case pred of None \<Rightarrow> Inr None | Some b \<Rightarrow> and_then (validate_dependency_on s i goal b)
         (\<lambda>complete. Inr (if complete then None else Some b))) = Inr gate"
    and rest: "t = new_task i goal title acc parent gate now" "insert_task t s = Inr s1"
    "(case pred of None \<Rightarrow> Inr s1 | Some p \<Rightarrow> insert_handoff_row p i now s1) = Inr s2"
    "insert_coverage_on i goal goals now s2 = Inr s3" "s' = event_append EvCreated None now t None s3"
    using assms by (auto simp: create_task_with_id_def and_then_Inr Let_def)
  have "gate \<in> {None, pred} \<and> (\<forall>p. pred = Some p \<longrightarrow> validate_dependency_on s i goal p = Inr (gate = None))"
    using g by (cases pred) (auto simp: and_then_Inr split: if_splits)
  with rest show thesis by (intro that) auto
qed

lemma create_cases:
  assumes inv: "logged s"
    and run: "create_task_with_id i goal title acc parent pred goals now s = Inr (t, s')"
  obtains gate where "t = new_task i goal title acc parent gate now"
    and "get_task s i = None" and "get_task s' = (get_task s)(i \<mapsto> t)" and "logged s'"
    and "prefix (s_events s) (s_events s')" and "s_qa s' = s_qa s"
    and "s_handoffs s' = (case pred of None \<Rightarrow> s_handoffs s | Some p \<Rightarrow> s_handoffs (insert_handoff p i now s))"
    and "gate \<in> {None, pred}"
    and "\<And>p. pred = Some p \<Longrightarrow> validate_dependency_on s i goal p = Inr (gate = None)"
proof -
  obtain gate s1 s2 s3 where t: "t = new_task i goal title acc parent gate now"
    and gate: "gate \<in> {None, pred}"
    and val: "\<And>p. pred = Some p \<Longrightarrow> validate_dependency_on s i goal p = Inr (gate = None)"
    and 1: "insert_task t s = Inr s1"
    and 2: "(case pred of None \<Rightarrow> Inr s1 | Some p \<Rightarrow> insert_handoff_row p i now s1) = Inr s2"
    and 3: "insert_coverage_on i goal goals now s2 = Inr s3"
    and s': "s' = event_append EvCreated None now t None s3"
    by (rule create_runs [OF run]) (rule that; assumption)
  have id: "t_id t = i" by (simp add: t new_task_def)
  have new: "get_task s i = None" and s1: "s1 = s\<lparr>s_tasks := s_tasks s @ [t]\<rparr>"
    using 1 id by (auto simp: insert_task_def split: if_splits)
  have s2: "s_tasks s2 = s_tasks s1 \<and> s_events s2 = s_events s \<and> s_qa s2 = s_qa s \<and>
      s_handoffs s2 = (case pred of None \<Rightarrow> s_handoffs s | Some p \<Rightarrow> s_handoffs (insert_handoff p i now s))"
    using 2 by (auto simp: s1 insert_handoff_row_def insert_handoff_def split: option.splits if_splits)
  note s3 = insert_coverage_Inr [OF 3]
  have g: "get_task s' = (get_task s)(i \<mapsto> t)"
    using get_task_snoc [of s t] new id s2 s3 get_task_cong [of s' s1] by (simp add: s' s1)
  have "i \<notin> t_id ` set (s_tasks s)"
    using new by (auto simp: get_task_def find_None_iff)
  then have "logged s'"
    using inv g s2 s3 id
    by (auto simp: logged_def s' last_image_event_append s1)
      (auto simp: event_append_def image_iff intro: exI [of _ EvCreated])
  moreover have "prefix (s_events s) (s_events s')"
    using s2 s3 by (simp add: s' event_append_def)
  ultimately show thesis
    using that [OF t new g _ _ _ _ gate val] s2 s3 by (simp add: s')
qed

interpretation create: ledger_operation "create_task_with_id i goal title acc parent pred goals now"
  for i goal title acc parent pred goals now
proof
  fix s t s'
  assume run: "create_task_with_id i goal title acc parent pred goals now s = Inr (t, s')"
  show "logged s'" and "prefix (s_events s) (s_events s')" if "logged s"
    by (rule create_cases [OF that run]; assumption)+
  show "ledger_ok s'" if ok: "ledger_ok s"
  proof (rule create_cases [OF ledger_ok_logged [OF ok] run])
    fix gate
    assume t: "t = new_task i goal title acc parent gate now" and new: "get_task s i = None"
      and tab: "get_task s' = (get_task s)(i \<mapsto> t)" and log: "logged s'" and qa: "s_qa s' = s_qa s"
      and hs: "s_handoffs s' = (case pred of None \<Rightarrow> s_handoffs s | Some p \<Rightarrow> s_handoffs (insert_handoff p i now s))"
      and gate: "gate \<in> {None, pred}"
      and val: "\<And>p. pred = Some p \<Longrightarrow> validate_dependency_on s i goal p = Inr (gate = None)"
    have rows: "rows_ok s'"
      using ok by (auto simp: ledger_ok_def rows_ok_def tab t row_ok_def new_task_def)
    have old: "gates_ok s" "handoffs_ok s" using ok by (auto simp: ledger_ok_def)
    have ne: "b \<noteq> i" if "get_task s b = Some q" for b q using that new by auto
    have "gates_ok s' \<and> handoffs_ok s'"
    proof (cases pred)
      case None
      then show ?thesis
        using old gate ne by (auto simp: gates_ok_def handoffs_ok_def tab hs t new_task_def) blast+
    next
      case (Some p)
      note v = validate_dependency_Inr [OF val [OF Some]]
      have e: "edges (s_handoffs s') = insert (p, i) (edges (s_handoffs s))"
        unfolding hs Some using edges_insert_handoff v by simp
      let ?s = "s\<lparr>s_tasks := s_tasks s @ [t]\<rparr>"
      have gt: "get_task ?s = (get_task s)(i \<mapsto> t)"
        using get_task_snoc [of s t] new by (simp add: t new_task_def)
      have "handoffs_ok ?s"
        using old(2) by (auto simp: handoffs_ok_def gt)
      then have "handoffs_ok (insert_handoff p i now ?s)"
        by (rule handoffs_ok_insert) (use v in \<open>auto simp: gt\<close>)
      then have h: "handoffs_ok s'"
        by (simp add: handoffs_ok_def hs Some tab gt insert_handoff_tasks)
      have "gates_ok s'"
        using old(1) v gate ne
        by (auto simp: gates_ok_def e tab t new_task_def Some terminal_def split: if_splits)
      with h show ?thesis by blast
    qed
    then show ?thesis
      using log rows ok qa by (auto simp: ledger_ok_def qa_numbered_def)
  qed
qed

subsection \<open>What creation promises\<close>

lemma fresh_task_id_Some:
  "fresh_task_id hash s goal title now k = Some i \<Longrightarrow> get_task s i = None"
  by (erule fresh_task_id.raw_induct [where P = "\<lambda>hash s goal title now k i. get_task s i = None", rotated])
    (auto split: if_splits)

lemma fresh_task_id_returns:
  assumes "get_task s (task_id_candidate hash goal title now (k + n)) = None"
  shows "\<exists>i. fresh_task_id hash s goal title now k = Some i"
  using assms
proof (induction n arbitrary: k)
  case 0
  then show ?case by (subst fresh_task_id.simps) simp
next
  case (Suc n)
  then have "\<exists>i. fresh_task_id hash s goal title now (Suc k) = Some i" by simp
  then show ?case by (subst fresh_task_id.simps) auto
qed

lemma candidate_free:
  assumes "inj_on (task_id_candidate hash goal title now) {..length (s_tasks s)}"
  shows "\<exists>k \<le> length (s_tasks s). get_task s (task_id_candidate hash goal title now k) = None"
proof (rule ccontr)
  assume "\<not> ?thesis"
  then have sub: "task_id_candidate hash goal title now ` {..length (s_tasks s)} \<subseteq> t_id ` set (s_tasks s)"
    by (intro image_subsetI) (metis atMost_iff get_task_id get_task_in image_eqI not_None_eq)
  have "Suc (length (s_tasks s)) = card (task_id_candidate hash goal title now ` {..length (s_tasks s)})"
    using card_image [OF assms] by simp
  also have "\<dots> \<le> card (t_id ` set (s_tasks s))"
    by (rule card_mono [OF _ sub]) simp
  also have "\<dots> \<le> length (s_tasks s)"
    using card_image_le [of "set (s_tasks s)" t_id] card_length [of "s_tasks s"] by simp
  finally show False by simp
qed

text \<open>
  C29. Creation ends and creates. If the hash tells the first candidate identifiers apart (one more
  than there are tasks), the search for an identifier ends, and creating a task for an
  existing goal adds exactly one open task, under an identifier no task had, that any agent
  may claim.
\<close>

theorem create_task_creates:
  assumes "ledger_ok s" and "goal_exists_on s goal"
    and "inj_on (task_id_candidate hash goal title now) {..length (s_tasks s)}"
  shows "\<exists>t s'. create_task hash goal title acc parent now s = Some (Inr (t, s')) \<and>
    get_task s (t_id t) = None \<and> get_task s' = (get_task s)(t_id t \<mapsto> t) \<and>
    t_goal_id t = goal \<and> t_title t = title \<and> claim_guard agent later t \<and> ledger_ok s'"
proof -
  obtain k where "get_task s (task_id_candidate hash goal title now k) = None"
    using candidate_free [OF assms(3)] by blast
  then obtain i where i: "fresh_task_id hash s goal title now 0 = Some i"
    using fresh_task_id_returns [of s hash goal title now 0 k] by auto
  have new: "get_task s i = None" by (rule fresh_task_id_Some [OF i])
  let ?t = "new_task i goal title acc parent None now"
  let ?s = "event_append EvCreated None now ?t None (s\<lparr>s_tasks := s_tasks s @ [?t]\<rparr>)"
  have c: "create_task_with_id i goal title acc parent None [] now s = Inr (?t, ?s)"
    using new by (simp add: create_task_with_id_def insert_task_def insert_coverage_on_def Let_def new_task_def)
  then have "create_task hash goal title acc parent now s = Some (Inr (?t, ?s))"
    using assms(2) i by (simp add: create_task_def create_task_after_def create_task_after_on_def)
  moreover have "get_task ?s = (get_task s)(i \<mapsto> ?t)"
    using get_task_snoc [of s ?t] new by (simp add: new_task_def)
  moreover have "ledger_ok ?s" by (rule create.keeps_ok [OF assms(1) c])
  ultimately show ?thesis
    using new
    by (intro exI [of _ ?t] exI [of _ ?s]) (simp add: new_task_def claim_guard_def legacy_owner_def)
qed

text \<open>
  Creation behind a predecessor. The new task waits for its predecessor exactly when the
  predecessor is not yet complete, and is open at once when the predecessor is done with an
  aligned verdict on record; either way the handoff is recorded.
\<close>

theorem create_behind_predecessor:
  assumes "logged s" and "create_task_with_id i goal title acc parent (Some p) goals now s = Inr (t, s')"
  shows "\<exists>q. get_task s p = Some q \<and> t_goal_id q = goal \<and> t_status q \<noteq> Abandoned \<and>
    (p, i) \<in> edges (s_handoffs s') \<and>
    (if t_status q = Done
     then t_status t = Open \<and> t_blocked_by t = None \<and>
       (\<exists>r \<in> set (s_conformance s). cr_task_id r = Some p \<and> cr_verdict r = Aligned)
     else t_status t = Blocked \<and> t_blocked_by t = Some p)"
proof (rule create_cases [OF assms])
  fix gate
  assume t: "t = new_task i goal title acc parent gate now"
    and hs: "s_handoffs s' = (case Some p of None \<Rightarrow> s_handoffs s | Some p \<Rightarrow> s_handoffs (insert_handoff p i now s))"
    and gate: "gate \<in> {None, Some p}"
    and val: "\<And>p'. Some p = Some p' \<Longrightarrow> validate_dependency_on s i goal p' = Inr (gate = None)"
  have v: "validate_dependency_on s i goal p = Inr (gate = None)" using val by simp
  note d = validate_dependency_Inr [OF v]
  then have "(p, i) \<in> edges (s_handoffs s')"
    using edges_insert_handoff [of s p i now] by (simp add: hs)
  moreover have "\<exists>r \<in> set (s_conformance s). cr_task_id r = Some p \<and> cr_verdict r = Aligned"
    if "get_task s p = Some q" "t_status q = Done" for q
    using v that by (auto simp: validate_dependency_on_def split: if_splits option.splits)
  ultimately show ?thesis
    using d gate by (auto simp: t new_task_def)
qed

lemma insert_coverage_set:
  assumes "insert_coverage_on i goal goals now s = Inr s'"
  shows "set (goal_coverage_on s' i) = set (goal_coverage_on s i) \<union> set goals \<and>
    (\<forall>c \<in> set goals. c \<noteq> goal \<and> goal_exists_on s c)"
  using assms unfolding insert_coverage_on_def
proof (induction goals arbitrary: s)
  case (Cons c goals)
  let ?s = "insert_coverage_row i c now s"
  have c: "c \<noteq> goal" "goal_exists_on s c"
    and rest: "try_fold (\<lambda>s covered.
       if covered = goal then Inl (Invalid (AlreadyGoal covered))
       else if \<not> goal_exists_on s covered then Inl (NotFound covered)
       else Inr (insert_coverage_row i covered now s)) ?s goals = Inr s'"
    using Cons.prems by (auto simp: and_then_Inr split: if_splits)
  have "set (goal_coverage_on ?s i) = insert c (set (goal_coverage_on s i))"
    by (auto simp: goal_coverage_on_def insert_coverage_row_def image_iff)
  moreover have "goal_exists_on ?s = goal_exists_on s"
    by (simp add: fun_eq_iff goal_exists_on_def insert_coverage_row_def)
  ultimately show ?case using Cons.IH [OF rest] c by auto
qed simp

text \<open>
  Coverage is a plan, not an excuse. A declaration succeeds only for the holder of the claim and
  only before any verdict on the task; it adds to what was declared and drops nothing, and never
  names the task's own goal or a goal that does not exist.
\<close>

theorem coverage_declared_before_verdict:
  assumes "declare_coverage i agent goals now s = Inr (covered, s')"
  shows "set covered = set (goal_coverage_on s i) \<union> set goals \<and>
    (\<exists>t. get_task s i = Some t \<and> t_status t = Claimed \<and> t_owner t = Some agent \<and>
       (\<forall>c \<in> set goals. c \<noteq> t_goal_id t \<and> goal_exists_on s c)) \<and>
    (\<forall>r \<in> set (s_conformance s). cr_task_id r \<noteq> Some i)"
proof -
  obtain t s1 where t: "get_task s i = Some t" "t_status t = Claimed" "t_owner t = Some agent"
    and j: "\<forall>c \<in> set (s_conformance s). cr_task_id c \<noteq> Some i"
    and c: "insert_coverage_on i (t_goal_id t) goals now s = Inr s1"
    and s': "s' = event_append EvCoverageDeclared (Some agent) now t
           (Some (JObj [(''also_serves'', JArr (map JStr goals))])) s1"
    by (rule declare_coverage_runs [OF assms])
  have "covered = goal_coverage_on s' i"
    using assms t by (auto simp: declare_coverage_def and_then_Inr split: if_splits)
  moreover have "goal_coverage_on s' i = goal_coverage_on s1 i"
    by (simp add: s' goal_coverage_on_def)
  ultimately show ?thesis
    using t j insert_coverage_set [OF c] by auto
qed

subsection \<open>Slugs\<close>

definition slug_char :: "char \<Rightarrow> bool" where
  "slug_char c \<longleftrightarrow> (let n = (of_char c :: nat) in 48 \<le> n \<and> n \<le> 57 \<or> 97 \<le> n \<and> n \<le> 122 \<or> c = CHR ''-'')"

lemma ascii_lower_slug: "is_ascii_alphanumeric c \<Longrightarrow> slug_char (ascii_lower c)"
  by (auto simp: is_ascii_alphanumeric_def slug_char_def ascii_lower_def Let_def)

lemma slug_chars_set: "\<forall>c \<in> set out. slug_char c \<Longrightarrow> \<forall>c \<in> set (slug_chars out d cs). slug_char c"
proof (induction out d cs rule: slug_chars.induct)
  case (2 out d c cs)
  have "slug_char CHR ''-''" by (simp add: slug_char_def)
  with 2 ascii_lower_slug show ?case by simp
qed simp

lemma trim_dashes_props:
  shows "set (trim_dashes s) \<subseteq> set s" and "length (trim_dashes s) \<le> length s"
proof -
  show "set (trim_dashes s) \<subseteq> set s"
    by (auto simp: trim_dashes_def dest!: set_dropWhileD)
  have "length (trim_dashes s) \<le> length (rev (dropWhile ((=) CHR ''-'') s))"
    unfolding trim_dashes_def length_rev [of "dropWhile _ (rev _)"] by (rule length_dropWhile_le)
  also have "\<dots> \<le> length s" by (simp add: length_dropWhile_le)
  finally show "length (trim_dashes s) \<le> length s" .
qed

lemma trim_dashes_ends:
  assumes "trim_dashes s \<noteq> []"
  shows "hd (trim_dashes s) \<noteq> CHR ''-'' \<and> last (trim_dashes s) \<noteq> CHR ''-''"
proof -
  define u where "u = dropWhile ((=) CHR ''-'') s"
  have t: "trim_dashes s = rev (dropWhile ((=) CHR ''-'') (rev u))"
    by (simp add: trim_dashes_def u_def)
  obtain v where "rev u = v @ dropWhile ((=) CHR ''-'') (rev u)"
    by (metis takeWhile_dropWhile_id)
  then have uv: "u = trim_dashes s @ rev v"
    by (metis rev_append rev_rev_ident t)
  then have "u \<noteq> []" using assms by auto
  then have "hd u \<noteq> CHR ''-''"
    unfolding u_def using hd_dropWhile by metis
  then have "hd (trim_dashes s) \<noteq> CHR ''-''"
    using assms uv by simp
  moreover have "hd (dropWhile ((=) CHR ''-'') (rev u)) \<noteq> CHR ''-''"
    using assms t hd_dropWhile [of "(=) CHR ''-''" "rev u"] by auto
  then have "last (trim_dashes s) \<noteq> CHR ''-''"
    using assms by (simp add: t last_rev)
  ultimately show ?thesis ..
qed

text \<open>
  Slugs are well formed. Whatever the title, a slug that is not the fallback hash has between 1
  and 48 characters, all of them lower-case letters, digits or dashes, and neither begins nor
  ends with a dash.
\<close>

theorem slugify_wellformed:
  "slugify hash title = hash title \<or>
   (0 < length (slugify hash title) \<and> length (slugify hash title) \<le> 48 \<and>
    list_all slug_char (slugify hash title) \<and>
    hd (slugify hash title) \<noteq> CHR ''-'' \<and> last (slugify hash title) \<noteq> CHR ''-'')"
proof (cases "trim_dashes (take 48 (slug_chars [] False title)) = []")
  case True
  then show ?thesis by (simp add: slugify_def)
next
  case False
  let ?s = "take 48 (slug_chars [] False title)"
  have "set (trim_dashes ?s) \<subseteq> set (slug_chars [] False title)"
    using trim_dashes_props(1) [of ?s] set_take_subset by fastforce
  then have "list_all slug_char (trim_dashes ?s)"
    using slug_chars_set [of "[]" False title] by (auto simp: list_all_iff)
  moreover have "length (trim_dashes ?s) \<le> 48"
    using trim_dashes_props(2) [of ?s] by simp
  ultimately show ?thesis
    using False trim_dashes_ends [OF False] by (simp add: slugify_def)
qed

text \<open>
  A goal keeps its identity across constitutional versions: a clause re-issued under a version
  suffix has the slug of the bare clause.
\<close>

theorem goal_slug_versions:
  assumes "CHR ''@'' \<notin> set slug"
  shows "goal_slug (''goal:'' @ slug @ CHR ''@'' # version) = slug \<and> goal_slug (''goal:'' @ slug) = slug"
proof -
  have "split_once CHR ''@'' (slug @ CHR ''@'' # version) = Some (slug, version)"
    using assms by (induction slug) auto
  moreover have "split_once CHR ''@'' slug = None"
    using assms by (simp add: split_once_None)
  ultimately show ?thesis
    by (simp add: goal_slug_def strip_prefix_def)
qed

theorem goal_slug_versions_witness:
  "goal_slug ''goal:zero-token@constitution:v3'' = ''zero-token''"
  using goal_slug_versions [of "''zero-token''" "''constitution:v3''"] by simp

subsection \<open>Concrete creations\<close>

definition sample_goal :: "string \<Rightarrow> goal" where
  "sample_goal i = \<lparr>g_id = i, g_slug = goal_slug i, g_kind = Objective, g_title = i, g_statement = i,
     g_status = GoalActive, g_version = 1, g_parent_id = None, g_superseded_by = None, g_reason = None,
     g_created_at = 0, g_constitution_version = None, g_rationale = None, g_scope = None,
     g_evidence_contract = None, g_consequence = None, g_waivable = False, g_waiver_authority = None,
     g_origin = OriginLocal, g_source_system = None, g_external_id = None, g_source_ref = None,
     g_source_digest = None\<rparr>"

definition sample_goals :: "task list \<Rightarrow> ledger" where
  "sample_goals ts = (imported ts)\<lparr>s_goals := [sample_goal ''goal:g'', sample_goal ''goal:h'']\<rparr>"

theorem create_task_creates_witness:
  "\<exists>t s'. create_task (\<lambda>x. x) ''goal:g'' ''build'' [] None 5 (sample_goals [sample_task ''a'']) =
      Some (Inr (t, s')) \<and> get_task s' (t_id t) = Some t"
proof -
  let ?s = "sample_goals [sample_task ''a'']"
  have ok: "ledger_ok ?s"
    unfolding sample_goals_def ledger_ok_frame
    by (rule imported_ok) (simp_all add: sample_task_def row_ok_def)
  have g: "goal_exists_on ?s ''goal:g''"
    by (simp add: goal_exists_on_def sample_goals_def sample_goal_def)
  have inj: "inj_on (task_id_candidate (\<lambda>x. x) ''goal:g'' ''build'' 5) {..length (s_tasks ?s)}"
    by (rule inj_onI) (auto simp: task_id_candidate_def split: if_splits)
  show ?thesis
    using create_task_creates [OF ok g inj, of "[]" None "''x''" 6] by auto
qed

theorem create_behind_predecessor_witness:
  "\<exists>t s'. create_task_with_id ''b'' ''goal:g'' ''next'' [] None (Some ''a'') [] 5
      (sample_goals [sample_task ''a'']) = Inr (t, s') \<and> t_blocked_by t = Some ''a''"
proof -
  let ?s = "sample_goals [sample_task ''a'']"
  let ?r = "create_task_with_id ''b'' ''goal:g'' ''next'' [] None (Some ''a'') [] 5 ?s"
  have log: "logged ?s"
    unfolding sample_goals_def logged_frame by (rule imported_logged) simp
  have "\<not> isl ?r" by code_simp
  then obtain t s' where r: "?r = Inr (t, s')" by (cases ?r) auto
  have "get_task ?s ''a'' = Some (sample_task ''a'')" by code_simp
  with create_behind_predecessor [OF log r] r show ?thesis
    by (auto simp: sample_task_def)
qed

theorem coverage_declared_before_verdict_witness:
  "\<exists>c s'. declare_coverage ''a'' ''x'' [''goal:h''] 5 (sample_goals [sample_claim ''a'' ''x'' 1 9]) = Inr (c, s') \<and>
     set c = {''goal:h''}"
proof -
  let ?s = "sample_goals [sample_claim ''a'' ''x'' 1 9]"
  let ?r = "declare_coverage ''a'' ''x'' [''goal:h''] 5 ?s"
  have "\<not> isl ?r" by code_simp
  then obtain c s' where r: "?r = Inr (c, s')" by (cases ?r) auto
  have "goal_coverage_on ?s ''a'' = []" by code_simp
  with coverage_declared_before_verdict [OF r] r show ?thesis by auto
qed

end
