(* ===== verification/Task_Conformance.thy ===== *)
theory Task_Conformance
  imports Task_Creation
begin

text \<open>
  The conformance audit and the transition it authorises (\<^verbatim>\<open>store/coordination/conformance.rs\<close>):
  audits are appended and read by identifier or by task; a claimed task leaves \<open>claimed\<close> only
  on an audit that is stored for that very task with that very verdict.
\<close>

subsection \<open>Audits\<close>

record conformance_audit =
  au_schema_version :: nat
  au_evidence :: conformance_evidence
  au_verdict :: verdict
  au_findings :: string

definition record_conformance ::
  "string option \<Rightarrow> conformance_audit \<Rightarrow> string list option \<Rightarrow> int \<Rightarrow> ledger \<Rightarrow> (int \<times> ledger) res" where
  "record_conformance task_id audit findings_json now s =
     (let i = int (length (s_conformance s)) + 1
      in Inr (i, s\<lparr>s_conformance := s_conformance s @
           [\<lparr>cr_id = i, cr_task_id = task_id, cr_schema_version = au_schema_version audit,
             cr_evidence = au_evidence audit, cr_verdict = au_verdict audit,
             cr_findings = au_findings audit, cr_findings_json = findings_json,
             cr_checked_at = now\<rparr>]\<rparr>))"

definition conformance_record_of :: "ledger \<Rightarrow> int \<Rightarrow> conformance_record option" where
  "conformance_record_of s i = find (\<lambda>r. cr_id r = i) (s_conformance s)"

definition conformance_findings_json :: "ledger \<Rightarrow> int \<Rightarrow> string list option" where
  "conformance_findings_json s i =
     (case conformance_record_of s i of None \<Rightarrow> None | Some r \<Rightarrow> cr_findings_json r)"

definition conformance_history :: "ledger \<Rightarrow> string \<Rightarrow> conformance_record list" where
  "conformance_history s task_id =
     sort_key cr_id (filter (\<lambda>r. cr_task_id r = Some task_id) (s_conformance s))"

subsection \<open>The transition an audit authorises\<close>

fun verdict_status :: "verdict \<Rightarrow> task_status" where
  "verdict_status Aligned = Done"
| "verdict_status Violation = Blocked"
| "verdict_status Drift = InReview"
| "verdict_status NeedsHuman = InReview"

definition judged_row :: "task_status \<Rightarrow> int \<Rightarrow> task \<Rightarrow> task" where
  "judged_row status now t =
     t\<lparr>t_status := status, t_owner := None, t_claim_started_at := None,
       t_lease_expires_at := None, t_updated_at := now\<rparr>"

definition transition_with_checked_conformance ::
  "string \<Rightarrow> string \<Rightarrow> int \<Rightarrow> verdict \<Rightarrow> task_status \<Rightarrow> int \<Rightarrow> ledger \<Rightarrow> (bool \<times> ledger) res" where
  "transition_with_checked_conformance task_id agent conformance_id verdict target now s =
     (if target \<noteq> verdict_status verdict
      then Inl (Invalid (VerdictStatus verdict (verdict_status verdict) target))
      else if map_option cr_verdict
             (find (\<lambda>r. cr_id r = conformance_id \<and> cr_task_id r = Some task_id) (s_conformance s)) \<noteq>
             Some verdict
      then Inl (Invalid (Unauthorised conformance_id verdict))
      else and_then
        (transact task_id (live_lease_guard agent now) (judged_row target now) Inr
           EvConformanceRecorded (Some agent) now
           (Some (JObj [(''verdict'', JStr (verdict_as_str verdict)),
                        (''conformance_id'', JInt conformance_id)])) s)
        (\<lambda>(changed, s1).
           if \<not> changed then Inr (False, s1)
           else if target = Done
           then and_then (open_blocked_successor_on task_id now s1) (\<lambda>s2. Inr (True, s2))
           else Inr (True, s1)))"

subsection \<open>The operations keep the ledger's invariant\<close>

lemma judged_row_keeps [simp]: "keeps_id (judged_row st n)"
  by (simp add: keeps_id_def judged_row_def)

interpretation audit: ledger_operation "record_conformance task_id a fj now" for task_id a fj now
  by (rule side_operation) (auto simp: record_conformance_def Let_def)

lemma judged_runs:
  assumes "transition_with_checked_conformance i agent c v target now s = Inr (b, s')"
  obtains d s1 where "target = verdict_status v"
    and "\<exists>r \<in> set (s_conformance s). cr_id r = c \<and> cr_task_id r = Some i \<and> cr_verdict r = v"
    and "transact i (live_lease_guard agent now) (judged_row target now) Inr
           EvConformanceRecorded (Some agent) now d s = Inr (b, s1)"
    and "if b \<and> target = Done then open_blocked_successor_on i now s1 = Inr s' else s' = s1"
proof -
  have t: "target = verdict_status v"
    and a: "map_option cr_verdict (find (\<lambda>r. cr_id r = c \<and> cr_task_id r = Some i) (s_conformance s)) = Some v"
    using assms by (auto simp: transition_with_checked_conformance_def split: if_splits)
  obtain d s1 where "transact i (live_lease_guard agent now) (judged_row target now) Inr
           EvConformanceRecorded (Some agent) now d s = Inr (b, s1)"
    and "if b \<and> target = Done then open_blocked_successor_on i now s1 = Inr s' else s' = s1"
    using assms t a
    by (auto simp: transition_with_checked_conformance_def and_then_Inr split: if_splits)
  moreover have "\<exists>r \<in> set (s_conformance s). cr_id r = c \<and> cr_task_id r = Some i \<and> cr_verdict r = v"
    using a by (auto simp: find_Some_iff)
  ultimately show thesis using that t by blast
qed

lemma judged_row_ok: "live_lease_guard agent now t \<Longrightarrow> row_ok t \<Longrightarrow> row_ok (judged_row (verdict_status v) n t)"
  by (cases v) (auto simp: live_lease_guard_def judged_row_def row_ok_def)

interpretation judge: ledger_operation "transition_with_checked_conformance i agent c v target now"
  for i agent c v target now
proof
  fix s r s'
  assume run: "transition_with_checked_conformance i agent c v target now s = Inr (r, s')"
  obtain d s1 where tgt: "target = verdict_status v"
    and tr: "transact i (live_lease_guard agent now) (judged_row target now) Inr
           EvConformanceRecorded (Some agent) now d s = Inr (r, s1)"
    and fin: "if r \<and> target = Done then open_blocked_successor_on i now s1 = Inr s' else s' = s1"
    by (rule judged_runs [OF run])
  note op = transact_logged_operation [OF judged_row_keeps side_table_none]
  have mid: "logged s1" "prefix (s_events s) (s_events s1)" if "logged s"
    using logged_operation.keeps_logged [OF op that tr] logged_operation.appends [OF op that tr] .
  show "logged s'" if "logged s"
  proof (cases "r \<and> target = Done")
    case True
    then have "open_blocked_successor_on i now s1 = Inr s'" using fin by simp
    then show ?thesis
      by (rule open_successor_cases [OF mid(1) [OF that]]) (use mid(1) [OF that] in auto)
  qed (use fin mid(1) [OF that] in auto)
  show "prefix (s_events s) (s_events s')" if "logged s"
  proof (cases "r \<and> target = Done")
    case True
    then have "open_blocked_successor_on i now s1 = Inr s'" using fin by simp
    then show ?thesis
      by (rule open_successor_cases [OF mid(1) [OF that]])
        (use mid(2) [OF that] in \<open>auto intro: prefix_order.trans\<close>)
  qed (use fin mid(2) [OF that] in auto)
  show "ledger_ok s'" if ok: "ledger_ok s"
  proof (cases "r \<and> target = Done")
    case True
    then have op: "open_blocked_successor_on i now s1 = Inr s'" using fin by simp
    show ?thesis
    proof (rule transact_cases [OF ledger_ok_logged [OF ok] judged_row_keeps side_table_none tr])
      fix t
      assume t: "get_task s i = Some t" and g: "live_lease_guard agent now t"
        and tab: "get_task s1 = (get_task s)(i \<mapsto> judged_row target now t)" and log: "logged s1"
        and hs: "s_handoffs s1 = s_handoffs s" and qa: "qa_numbered s \<Longrightarrow> qa_numbered s1"
      show ?thesis
        by (rule ledger_ok_finish [OF ok t tab log hs _ _ op])
          (use g qa ok judged_row_ok [OF g ledger_ok_row [OF ok t], of v] in
            \<open>auto simp: tgt ledger_ok_def live_lease_guard_def judged_row_def\<close>)
    qed (use True in simp)
  next
    case False
    then have s': "s' = s1" using fin by simp
    show ?thesis
    proof (cases "target = Done")
      case True
      then have no: "\<not> r" using False by simp
      show ?thesis
        by (rule transact_cases [OF ledger_ok_logged [OF ok] judged_row_keeps side_table_none tr])
          (use ok s' no in auto)
    next
      case nd: False
      show ?thesis unfolding s'
        by (rule transact_keeps_ok [OF ok judged_row_keeps side_table_none tr])
          (use nd judged_row_ok [of agent now _ v] in
            \<open>auto simp: tgt terminal_def judged_row_def live_lease_guard_def elim: verdict_status.elims\<close>)
    qed
  qed
qed

subsection \<open>What a verdict does\<close>

text \<open>
  A verdict moves a task only where it may. The transition succeeds only for the owner of a
  running lease and only on an audit stored for this task with this verdict; then the task is
  done for aligned, blocked for violation, in review otherwise, nobody owns it, and a done task
  has opened the task it gated. Otherwise nothing changes.
\<close>

theorem verdict_moves_task:
  assumes "ledger_ok s" and "get_task s i = Some t"
    and "transition_with_checked_conformance i agent c v target now s = Inr (moved, s')"
  shows "(moved \<longleftrightarrow> live_lease_guard agent now t) \<and> target = verdict_status v \<and>
    (\<exists>r \<in> set (s_conformance s). cr_id r = c \<and> cr_task_id r = Some i \<and> cr_verdict r = v) \<and>
    (if moved
     then get_task s' i = Some (judged_row (verdict_status v) now t) \<and>
       (v = Aligned \<longrightarrow> (\<forall>j u. get_task s' j = Some u \<longrightarrow> t_blocked_by u \<noteq> Some i))
     else s' = s)"
proof -
  have inv: "logged s" using assms(1) by (rule ledger_ok_logged)
  obtain d s1 where tgt: "target = verdict_status v"
    and aud: "\<exists>r \<in> set (s_conformance s). cr_id r = c \<and> cr_task_id r = Some i \<and> cr_verdict r = v"
    and tr: "transact i (live_lease_guard agent now) (judged_row target now) Inr
           EvConformanceRecorded (Some agent) now d s = Inr (moved, s1)"
    and fin: "if moved \<and> target = Done then open_blocked_successor_on i now s1 = Inr s' else s' = s1"
    by (rule judged_runs [OF assms(3)])
  have ok': "ledger_ok s'" using judge.keeps_ok [OF assms(1,3)] .
  have mid: "(moved \<longleftrightarrow> live_lease_guard agent now t) \<and>
      (if moved then logged s1 \<and> get_task s1 = (get_task s)(i \<mapsto> judged_row target now t) else s1 = s)"
    by (rule transact_cases [OF inv judged_row_keeps side_table_none tr]) (use assms(2) in auto)
  have row: "get_task s' i = Some (judged_row target now t)" if "moved"
  proof (cases "target = Done")
    case True
    then have op: "open_blocked_successor_on i now s1 = Inr s'" using fin that by simp
    have l: "logged s1" and g: "get_task s1 i = Some (judged_row target now t)" using mid that by auto
    show ?thesis
      by (rule open_successor_cases [OF l op]) (use g True in \<open>auto simp: judged_row_def\<close>)
  qed (use fin mid that in simp)
  moreover have "t_blocked_by u \<noteq> Some i"
    if m: "moved" "v = Aligned" "get_task s' j = Some u" for j u
  proof
    assume "t_blocked_by u = Some i"
    then obtain q where "get_task s' i = Some q" "\<not> terminal q"
      using ok' m(3) unfolding ledger_ok_def gates_ok_def by blast
    then show False using row m tgt by (auto simp: terminal_def judged_row_def)
  qed
  ultimately show ?thesis
    using mid aud tgt fin by auto
qed

definition audits_numbered :: "ledger \<Rightarrow> bool" where
  "audits_numbered s \<longleftrightarrow> map cr_id (s_conformance s) = map int [1..<Suc (length (s_conformance s))]"

lemma numbered_sorted:
  assumes "map f xs = map int [1..<Suc n]"
  shows "sorted (map f xs)" and "x \<in> set xs \<Longrightarrow> f x \<le> int n"
proof -
  show "sorted (map f xs)"
    unfolding assms by (auto simp: sorted_map sorted_append simp del: upt_Suc)
  assume "x \<in> set xs"
  then have "f x \<in> set (map f xs)" by simp
  then have "f x \<in> int ` {1..<Suc n}" unfolding assms by (simp only: set_map set_upt)
  then show "f x \<le> int n" by auto
qed

lemma history_numbered:
  assumes "audits_numbered s"
  shows "conformance_history s i = filter (\<lambda>r. cr_task_id r = Some i) (s_conformance s)"
  unfolding conformance_history_def
  by (rule sort_key_id_if_sorted)
    (rule sorted_filter, rule numbered_sorted(1) [OF assms [unfolded audits_numbered_def]])

text \<open>
  Audits are append-only and addressable. Recording returns an identifier no audit had, under
  which exactly the recorded audit is read back; every audit read before is read the same after,
  and the task's history grows by that audit at its end.
\<close>

theorem audit_append_only:
  assumes "audits_numbered s" and "record_conformance (Some i) audit fj now s = Inr (c, s')"
  shows "audits_numbered s' \<and> conformance_record_of s c = None \<and>
    (\<forall>k r. conformance_record_of s k = Some r \<longrightarrow> conformance_record_of s' k = Some r) \<and>
    (\<exists>r. conformance_record_of s' c = Some r \<and> cr_verdict r = au_verdict audit \<and>
       cr_evidence r = au_evidence audit \<and> cr_findings_json r = fj \<and>
       conformance_history s' i = conformance_history s i @ [r])"
proof -
  let ?r = "\<lparr>cr_id = int (length (s_conformance s)) + 1, cr_task_id = Some i,
      cr_schema_version = au_schema_version audit, cr_evidence = au_evidence audit,
      cr_verdict = au_verdict audit, cr_findings = au_findings audit, cr_findings_json = fj,
      cr_checked_at = now\<rparr>"
  have c: "c = cr_id ?r" and s': "s' = s\<lparr>s_conformance := s_conformance s @ [?r]\<rparr>"
    using assms(2) by (auto simp: record_conformance_def Let_def)
  have num: "audits_numbered s'"
    using assms(1) by (simp add: audits_numbered_def s')
  have app: "find P (xs @ ys) = (case find P xs of None \<Rightarrow> find P ys | Some x \<Rightarrow> Some x)" for P and xs ys :: "conformance_record list"
    by (induction xs) auto
  have none: "conformance_record_of s c = None"
    using numbered_sorted(2) [OF assms(1) [unfolded audits_numbered_def]]
    by (fastforce simp: conformance_record_of_def find_None_iff c)
  then have "conformance_record_of s' c = Some ?r"
    by (simp add: conformance_record_of_def s' app c)
  moreover have "conformance_record_of s' k = Some r" if "conformance_record_of s k = Some r" for k r
    using that by (simp add: conformance_record_of_def s' app)
  moreover have "conformance_history s' i = conformance_history s i @ [?r]"
    unfolding history_numbered [OF num] history_numbered [OF assms(1)] by (simp add: s')
  ultimately show ?thesis using num none by auto
qed

subsection \<open>Concrete audits\<close>

definition sample_evidence :: "string \<Rightarrow> string \<Rightarrow> conformance_evidence" where
  "sample_evidence i agent = \<lparr>ev_schema_version = 1, ev_task_id = Some i, ev_agent_id = agent, ev_started_at = 1,
     ev_ended_at = 5, ev_changed_node_ids = [''artifact:src/a.rs''], ev_failed_node_ids = [],
     ev_execution_ids = [], ev_successful_execution_ids = [], ev_commit_ids = [], ev_ledger_act_ids = [],
     ev_summary = ''did it'', ev_provenance = []\<rparr>"

definition sample_audit :: "verdict \<Rightarrow> conformance_audit" where
  "sample_audit v = \<lparr>au_schema_version = 1, au_evidence = sample_evidence ''a'' ''x'', au_verdict = v, au_findings = []\<rparr>"

theorem audit_append_only_witness:
  "\<exists>c s'. record_conformance (Some ''a'') (sample_audit Drift) None 5 empty_ledger = Inr (c, s') \<and>
     map cr_verdict (conformance_history s' ''a'') = [Drift]"
proof -
  let ?run = "record_conformance (Some ''a'') (sample_audit Drift) None 5 empty_ledger"
  have num: "audits_numbered empty_ledger" by (simp add: audits_numbered_def empty_ledger_def)
  obtain c s' where r: "?run = Inr (c, s')" by (simp add: record_conformance_def Let_def)
  have "conformance_history empty_ledger ''a'' = []"
    by (simp add: conformance_history_def empty_ledger_def)
  with audit_append_only [OF num r] r show ?thesis
    by (auto simp: sample_audit_def)
qed

theorem verdict_moves_task_witness:
  "\<exists>s'. transition_with_checked_conformance ''a'' ''x'' 1 Aligned Done 5
        ((sample_chain (sample_claim ''a'' ''x'' 1 9))
          \<lparr>s_conformance := [\<lparr>cr_id = 1, cr_task_id = Some ''a'', cr_schema_version = 1,
             cr_evidence = sample_evidence ''a'' ''x'', cr_verdict = Aligned, cr_findings = [],
             cr_findings_json = None, cr_checked_at = 4\<rparr>]\<rparr>) = Inr (True, s') \<and>
     (\<forall>j u. get_task s' j = Some u \<longrightarrow> t_blocked_by u \<noteq> Some ''a'')"
proof -
  let ?s = "(sample_chain (sample_claim ''a'' ''x'' 1 9))
          \<lparr>s_conformance := [\<lparr>cr_id = 1, cr_task_id = Some ''a'', cr_schema_version = 1,
             cr_evidence = sample_evidence ''a'' ''x'', cr_verdict = Aligned, cr_findings = [],
             cr_findings_json = None, cr_checked_at = 4\<rparr>]\<rparr>"
  have ok: "ledger_ok ?s"
    using sample_chain_ok [of "sample_claim ''a'' ''x'' 1 9"]
    by (simp add: sample_claim_def sample_task_def row_ok_def terminal_def)
  have t: "get_task ?s ''a'' = Some (sample_claim ''a'' ''x'' 1 9)"
    by (simp add: sample_chain_rows sample_claim_def sample_task_def)
  have "wins (transition_with_checked_conformance ''a'' ''x'' 1 Aligned Done 5 ?s)" by code_simp
  then obtain s' where r: "transition_with_checked_conformance ''a'' ''x'' 1 Aligned Done 5 ?s = Inr (True, s')"
    by (auto simp: wins_iff)
  with verdict_moves_task [OF ok t r] show ?thesis by auto
qed

end
