(* ===== verification/Claim_Transfer.thy ===== *)
theory Claim_Transfer
  imports Task_Conformance
begin

text \<open>
  Recovery of stranded claims (\<^verbatim>\<open>store/claim_transfer.rs\<close>): the guarded transfer of a claim
  whose owner is gone, or of paused work under a distinct reviewer; the history of transfers,
  read from the closed archive and from the log; and the walk back along it to the window that
  authorised the work. The walk is a loop that the source does not bound: it is a partial
  function, \<^term>\<open>None\<close> when it never returns.
\<close>

subsection \<open>Recovery\<close>

record recovering_session =
  rs_agent :: string
  rs_name :: string

record prior_claim =
  pc_owner :: string
  pc_status :: task_status
  pc_lease_expires_at :: "int option"
  pc_parked_at :: "int option"

definition load_prior_claim :: "ledger \<Rightarrow> string \<Rightarrow> prior_claim res" where
  "load_prior_claim s task_id =
     (case get_task s task_id of
        None \<Rightarrow> Inl (NotFound task_id)
      | Some t \<Rightarrow>
          (case t_owner t of
             None \<Rightarrow> Inl (NotFound task_id)
           | Some w \<Rightarrow> Inr \<lparr>pc_owner = w, pc_status = t_status t,
                             pc_lease_expires_at = t_lease_expires_at t,
                             pc_parked_at = t_parked_at t\<rparr>))"

definition named_reviewer :: "string option \<Rightarrow> string option" where
  "named_reviewer reviewer =
     (case reviewer of None \<Rightarrow> None | Some r \<Rightarrow> if blank r then None else Some (trim r))"

definition parked_before_grace :: "prior_claim \<Rightarrow> int \<Rightarrow> bool" where
  "parked_before_grace prior now \<longleftrightarrow>
     pc_status prior = Paused \<and>
     (case pc_parked_at prior of None \<Rightarrow> False | Some parked \<Rightarrow> now \<le> parked + PARKING_GRACE_SECS)"

definition reclaimable :: "prior_claim \<Rightarrow> int \<Rightarrow> bool" where
  "reclaimable prior now \<longleftrightarrow>
     parked_before_grace prior now \<or>
     (case pc_status prior of
        Claimed \<Rightarrow> sql_lt (pc_lease_expires_at prior) now
      | NeedsInput \<Rightarrow> (case pc_parked_at prior of None \<Rightarrow> False | Some p \<Rightarrow> p + PARKING_GRACE_SECS < now)
      | Paused \<Rightarrow> (case pc_parked_at prior of None \<Rightarrow> False | Some p \<Rightarrow> p + PARKING_GRACE_SECS < now)
      | _ \<Rightarrow> False)"

definition authorise_transfer ::
  "prior_claim \<Rightarrow> string \<Rightarrow> recovering_session \<Rightarrow> string option \<Rightarrow> int \<Rightarrow> unit res" where
  "authorise_transfer prior expected_owner recovering reviewer now =
     (if parked_before_grace prior now then
        (case reviewer of
           None \<Rightarrow> Inl (Invalid NeedsReviewer)
         | Some r \<Rightarrow>
             if r = expected_owner \<or> r = rs_agent recovering then Inl (Invalid SelfReview)
             else if expected_owner = rs_agent recovering then Inl (Invalid OwnerShouldResume)
             else Inr ())
      else if \<not> compatible_legacy_owner expected_owner (rs_agent recovering) (rs_name recovering)
      then Inl (Invalid IncompatibleOwner)
      else Inr ())"

definition recovered_row :: "string \<Rightarrow> int \<Rightarrow> int \<Rightarrow> task \<Rightarrow> task" where
  "recovered_row agent lease_secs now t =
     t\<lparr>t_status := Claimed, t_owner := Some agent, t_claim_started_at := Some now,
       t_lease_expires_at := Some (now + max lease_secs 1), t_parked_at := None, t_updated_at := now\<rparr>"

definition transfer_note :: "string \<Rightarrow> string \<Rightarrow> string \<Rightarrow> string \<Rightarrow> string" where
  "transfer_note reviewer from to reason =
     reviewer @ '' authorized transfer of paused work from '' @ from @ '' to '' @ to @ '': '' @ trim reason"

definition recover_claim_authorized ::
  "string \<Rightarrow> string \<Rightarrow> recovering_session \<Rightarrow> string \<times> string option \<Rightarrow> int \<Rightarrow> int \<Rightarrow>
   ledger \<Rightarrow> (bool \<times> ledger) res" where
  "recover_claim_authorized task_id expected_owner recovering authorization lease_secs now s =
     (let reason = fst authorization; reviewer = named_reviewer (snd authorization) in
      if blank reason then Inl (Invalid RecoveryNeedsReason)
      else and_then (load_prior_claim s task_id) (\<lambda>prior.
        if pc_owner prior \<noteq> expected_owner
        then Inl (Invalid (OwnerChanged expected_owner (pc_owner prior)))
        else and_then (authorise_transfer prior expected_owner recovering reviewer now) (\<lambda>_.
          if \<not> reclaimable prior now then Inl (Invalid NotReclaimable)
          else if int MAX_CONCURRENT_CLAIMS \<le> int (length (held_claims s (rs_agent recovering)))
          then Inl (Invalid (RecoveryCap (rs_agent recovering)
                 (int (length (held_claims s (rs_agent recovering))))))
          else and_then
            (transact task_id (\<lambda>t. t_owner t = Some expected_owner \<and> t_status t = pc_status prior)
               (recovered_row (rs_agent recovering) lease_secs now) Inr
               EvClaimRecovered
               (Some (case reviewer of None \<Rightarrow> rs_agent recovering | Some r \<Rightarrow> r)) now
               (Some (JObj [(''from_owner'', JStr (pc_owner prior)),
                            (''from_status'', JStr (task_status_as_str (pc_status prior))),
                            (''reason'', JStr (trim reason)), (''reviewer'', opt_str reviewer)])) s)
            (\<lambda>(changed, s1).
               if \<not> changed then Inr (False, s1)
               else (case reviewer of
                       None \<Rightarrow> Inr (True, s1)
                     | Some r \<Rightarrow>
                         and_then (insert_qa task_id Note
                             (transfer_note r expected_owner (rs_agent recovering) reason) r None now s1)
                           (\<lambda>s2. Inr (True, s2)))))))"

definition recover_claim ::
  "string \<Rightarrow> string \<Rightarrow> recovering_session \<Rightarrow> string \<Rightarrow> int \<Rightarrow> int \<Rightarrow> ledger \<Rightarrow> (bool \<times> ledger) res" where
  "recover_claim task_id expected_owner recovering reason lease_secs now =
     recover_claim_authorized task_id expected_owner recovering (reason, None) lease_secs now"

subsection \<open>History\<close>

definition archived_transfers :: "ledger \<Rightarrow> string \<Rightarrow> claim_transfer list" where
  "archived_transfers s task_id =
     map (\<lambda>c. c\<lparr>ct_source := Archive\<rparr>)
       (sort_key ct_id (filter (\<lambda>c. ct_task_id c = task_id) (s_transfers s)))"

definition transfer_of :: "task_event option \<Rightarrow> task_event \<Rightarrow> claim_transfer" where
  "transfer_of previous e =
     (let detail = parse_detail (e_detail e);
          before = (\<lambda>f. case previous of None \<Rightarrow> None | Some p \<Rightarrow> f (e_after p))
      in \<lparr>ct_id = e_seq e, ct_task_id = e_task_id e, ct_from_owner = detail_text ''from_owner'' detail,
          ct_to_owner = (case t_owner (e_after e) of None \<Rightarrow> [] | Some w \<Rightarrow> w),
          ct_recovered_by = (case e_actor e of None \<Rightarrow> [] | Some a \<Rightarrow> a),
          ct_reason = detail_text ''reason'' detail, ct_from_status = detail_text ''from_status'' detail,
          ct_from_claim_started_at = before t_claim_started_at,
          ct_from_lease_expires_at = before t_lease_expires_at,
          ct_from_parked_at = before t_parked_at,
          ct_to_claim_started_at =
            (case t_claim_started_at (e_after e) of None \<Rightarrow> e_recorded_at e | Some n \<Rightarrow> n),
          ct_transferred_at = e_recorded_at e, ct_source = Log\<rparr>)"

fun transfers_from :: "task_event option \<Rightarrow> task_event list \<Rightarrow> claim_transfer list" where
  "transfers_from previous [] = []"
| "transfers_from previous (e # es) =
     (if e_kind e \<noteq> EvClaimRecovered then transfers_from (Some e) es
      else transfer_of previous e # transfers_from (Some e) es)"

definition logged_transfers :: "ledger \<Rightarrow> string \<Rightarrow> claim_transfer list" where
  "logged_transfers s task_id = transfers_from None (task_events s task_id)"

definition claim_transfer_history :: "ledger \<Rightarrow> string \<Rightarrow> claim_transfer list" where
  "claim_transfer_history s task_id =
     sort_key ct_transferred_at (archived_transfers s task_id @ logged_transfers s task_id)"

subsection \<open>The authorising window\<close>

definition or_else :: "'a option \<Rightarrow> 'a option \<Rightarrow> 'a option" where
  "or_else x y = (case x of None \<Rightarrow> y | Some a \<Rightarrow> Some a)"

partial_function (option) walk_back ::
  "claim_transfer list \<Rightarrow> string \<Rightarrow> int option \<Rightarrow> int option option" where
  "walk_back history holder earliest =
     (case find (\<lambda>c. ct_to_owner c = holder) (rev history) of
        None \<Rightarrow> Some earliest
      | Some c \<Rightarrow>
          if list_all (\<lambda>x. ct_to_owner x \<noteq> ct_from_owner c) history
          then Some (or_else (ct_from_claim_started_at c) earliest)
          else walk_back history (ct_from_owner c) (or_else (ct_from_claim_started_at c) earliest))"

declare walk_back.simps [code]

definition authorising_window_start :: "ledger \<Rightarrow> string \<Rightarrow> string \<Rightarrow> int option option" where
  "authorising_window_start s task_id owner =
     walk_back (claim_transfer_history s task_id) owner
       (case get_task s task_id of
          None \<Rightarrow> None
        | Some t \<Rightarrow> if t_owner t = Some owner then t_claim_started_at t else None)"

subsection \<open>Recovery keeps the ledger's invariant\<close>

lemma recovered_row_keeps [simp]: "keeps_id (recovered_row a l n)"
  by (simp add: keeps_id_def recovered_row_def)

lemma insert_qa_keeps:
  assumes "insert_qa i k b a u n s = Inr s'"
  shows "s_tasks s' = s_tasks s" "s_events s' = s_events s" "get_task s' = get_task s"
    "logged s' = logged s" "ledger_ok s \<Longrightarrow> ledger_ok s'"
proof -
  show f: "s_tasks s' = s_tasks s" "s_events s' = s_events s"
    by (rule side_table_D [OF insert_qa_side assms])+
  show g: "get_task s' = get_task s" by (rule get_task_cong [OF f(1)])
  show l: "logged s' = logged s" by (rule logged_cong [OF f])
  show "ledger_ok s'" if "ledger_ok s"
    using that side_table_D(3,4) [OF insert_qa_side assms] l g
    by (simp add: ledger_ok_def rows_ok_def gates_ok_def handoffs_ok_def)
qed

lemma recover_runs:
  assumes "recover_claim_authorized i old rec auth l now s = Inr (b, s')"
  obtains t d a s1 where "get_task s i = Some t" and "t_owner t = Some old"
    and "authorise_transfer \<lparr>pc_owner = old, pc_status = t_status t,
           pc_lease_expires_at = t_lease_expires_at t, pc_parked_at = t_parked_at t\<rparr>
           old rec (named_reviewer (snd auth)) now = Inr ()"
    and "reclaimable \<lparr>pc_owner = old, pc_status = t_status t,
           pc_lease_expires_at = t_lease_expires_at t, pc_parked_at = t_parked_at t\<rparr> now"
    and "length (held_claims s (rs_agent rec)) < MAX_CONCURRENT_CLAIMS"
    and "transact i (\<lambda>u. t_owner u = Some old \<and> t_status u = t_status t)
           (recovered_row (rs_agent rec) l now) Inr EvClaimRecovered (Some a) now d s = Inr (b, s1)"
    and "s' = s1 \<or> (b \<and> (\<exists>m r. insert_qa i Note m r None now s1 = Inr s'))"
proof -
  obtain t where t: "get_task s i = Some t" "t_owner t = Some old"
    using assms by (auto simp: recover_claim_authorized_def load_prior_claim_def and_then_Inr Let_def
        split: if_splits option.splits)
  let ?p = "\<lparr>pc_owner = old, pc_status = t_status t, pc_lease_expires_at = t_lease_expires_at t,
      pc_parked_at = t_parked_at t\<rparr>"
  have load: "load_prior_claim s i = Inr ?p" using t by (simp add: load_prior_claim_def)
  have auth: "authorise_transfer ?p old rec (named_reviewer (snd auth)) now = Inr ()"
    using assms by (auto simp: recover_claim_authorized_def load and_then_Inr Let_def split: if_splits)
  have rest: "reclaimable ?p now" "length (held_claims s (rs_agent rec)) < MAX_CONCURRENT_CLAIMS"
    using assms by (auto simp: recover_claim_authorized_def load auth Let_def split: if_splits)
  obtain d s1 where tr: "transact i (\<lambda>u. t_owner u = Some old \<and> t_status u = t_status t)
      (recovered_row (rs_agent rec) l now) Inr EvClaimRecovered
      (Some (case named_reviewer (snd auth) of None \<Rightarrow> rs_agent rec | Some r \<Rightarrow> r)) now d s = Inr (b, s1)"
    and fin: "s' = s1 \<or> (b \<and> (\<exists>m r. insert_qa i Note m r None now s1 = Inr s'))"
    using assms rest
    by (auto simp: recover_claim_authorized_def load auth Let_def and_then_Inr
        split: if_splits option.splits) blast+
  show thesis by (rule that [OF t auth rest tr fin])
qed

lemma reclaimable_owned:
  "reclaimable p now \<Longrightarrow> pc_status p \<in> {Claimed, NeedsInput, Paused}"
  by (auto simp: reclaimable_def parked_before_grace_def split: task_status.splits)

interpretation recover: ledger_operation "recover_claim_authorized i old rec auth l now"
  for i old rec auth l now
proof
  fix s r s'
  assume run: "recover_claim_authorized i old rec auth l now s = Inr (r, s')"
  obtain t d a s1 where t: "get_task s i = Some t"
    and re: "reclaimable \<lparr>pc_owner = old, pc_status = t_status t,
           pc_lease_expires_at = t_lease_expires_at t, pc_parked_at = t_parked_at t\<rparr> now"
    and tr: "transact i (\<lambda>u. t_owner u = Some old \<and> t_status u = t_status t)
           (recovered_row (rs_agent rec) l now) Inr EvClaimRecovered (Some a) now d s = Inr (r, s1)"
    and fin: "s' = s1 \<or> (r \<and> (\<exists>m r. insert_qa i Note m r None now s1 = Inr s'))"
    by (rule recover_runs [OF run])
  note op = transact_logged_operation [OF recovered_row_keeps side_table_none]
  show "logged s'" if "logged s"
    using logged_operation.keeps_logged [OF op that tr] fin insert_qa_keeps(4) by blast
  show "prefix (s_events s) (s_events s')" if "logged s"
    using logged_operation.appends [OF op that tr] fin insert_qa_keeps(2) by metis
  show "ledger_ok s'" if "ledger_ok s"
  proof -
    have "ledger_ok s1"
      by (rule transact_keeps_ok [OF that recovered_row_keeps side_table_none tr])
        (use t reclaimable_owned [OF re] in \<open>auto simp: recovered_row_def row_ok_def terminal_def\<close>)
    then show ?thesis using fin insert_qa_keeps(5) by blast
  qed
qed

subsection \<open>What recovery promises\<close>

lemma transfers_from_snoc:
  assumes "e_kind e = EvClaimRecovered"
  shows "transfers_from p (es @ [e]) =
    transfers_from p es @ [transfer_of (if es = [] then p else Some (last es)) e]"
  using assms by (induction es arbitrary: p) auto

text \<open>A recovery appends one event, and one note when a reviewer vouched for it.\<close>

lemma recover_records:
  assumes log: "logged s" and run: "recover_claim_authorized i old rec (reason, reviewer) l now s = Inr (True, s')"
    and t: "get_task s i = Some t"
  defines "by_whom \<equiv> case named_reviewer reviewer of None \<Rightarrow> rs_agent rec | Some r \<Rightarrow> r"
  shows "\<not> blank reason" and "get_task s' = (get_task s)(i \<mapsto> recovered_row (rs_agent rec) l now t)"
    and "task_events s' i = task_events s i @
      [\<lparr>e_seq = int (length (s_events s)) + 1, e_task_id = i, e_kind = EvClaimRecovered, e_actor = Some by_whom,
        e_recorded_at = now, e_after = recovered_row (rs_agent rec) l now t,
        e_detail = Some (JObj [(''from_owner'', JStr old), (''from_status'', JStr (task_status_as_str (t_status t))),
          (''reason'', JStr (trim reason)), (''reviewer'', opt_str (named_reviewer reviewer))])\<rparr>]"
    and "named_reviewer reviewer = Some r \<Longrightarrow> \<exists>q \<in> set (s_qa s'). q_task_id q = i \<and> q_kind q = Note \<and>
      q_author q = r \<and> q_created_at q = now \<and>
      q_body q = r @ '' authorized transfer of paused work from '' @ old @ '' to '' @ rs_agent rec @ '': '' @ trim reason"
proof -
  have own: "t_owner t = Some old"
    by (rule recover_runs [OF run]) (use t in auto)
  let ?d = "Some (JObj [(''from_owner'', JStr old), (''from_status'', JStr (task_status_as_str (t_status t))),
      (''reason'', JStr (trim reason)), (''reviewer'', opt_str (named_reviewer reviewer))])"
  obtain s1 where reason: "\<not> blank reason"
    and tr: "transact i (\<lambda>u. t_owner u = Some old \<and> t_status u = t_status t)
      (recovered_row (rs_agent rec) l now) Inr EvClaimRecovered (Some by_whom) now ?d s = Inr (True, s1)"
    and fin: "case named_reviewer reviewer of None \<Rightarrow> s' = s1
      | Some r \<Rightarrow> insert_qa i Note (transfer_note r old (rs_agent rec) reason) r None now s1 = Inr s'"
    using run t own by (auto simp: recover_claim_authorized_def load_prior_claim_def by_whom_def and_then_Inr Let_def
        split: if_splits option.splits)
  have keep: "get_task s' = get_task s1" "s_events s' = s_events s1"
    using fin insert_qa_keeps(2,3) by (auto split: option.splits)
  have s1: "get_task s1 = (get_task s)(i \<mapsto> recovered_row (rs_agent rec) l now t)"
    "task_events s1 i = task_events s i @ [\<lparr>e_seq = int (length (s_events s)) + 1, e_task_id = i,
      e_kind = EvClaimRecovered, e_actor = Some by_whom, e_recorded_at = now,
      e_after = recovered_row (rs_agent rec) l now t, e_detail = ?d\<rparr>]"
    by (rule transact_cases [OF log recovered_row_keeps side_table_none tr];
        use t in \<open>auto simp: task_events_append recovered_row_def get_task_id dest: task_events_cong\<close>)+
  show "\<not> blank reason" by (rule reason)
  show "get_task s' = (get_task s)(i \<mapsto> recovered_row (rs_agent rec) l now t)" by (simp add: keep(1) s1(1))
  show "task_events s' i = task_events s i @ [\<lparr>e_seq = int (length (s_events s)) + 1, e_task_id = i,
      e_kind = EvClaimRecovered, e_actor = Some by_whom, e_recorded_at = now,
      e_after = recovered_row (rs_agent rec) l now t, e_detail = ?d\<rparr>]"
    using s1(2) task_events_cong [OF keep(2)] by simp
  show "\<exists>q \<in> set (s_qa s'). q_task_id q = i \<and> q_kind q = Note \<and> q_author q = r \<and> q_created_at q = now \<and>
      q_body q = r @ '' authorized transfer of paused work from '' @ old @ '' to '' @ rs_agent rec @ '': '' @ trim reason"
    if "named_reviewer reviewer = Some r"
    using fin that by (auto simp: insert_qa_def transfer_note_def split: if_splits)
qed

text \<open>
  C28. A recovery never takes a claim from an owner who still has it. It moves the task only from the
  owner the caller named, with a reason, and only when the lease has lapsed, or the task has been parked
  past the grace, or it is paused and a reviewer who is neither the old nor the new owner vouches
  for it; in the first two cases the new owner is a session of the name that owned it. The new
  owner gets a window that starts now and stays within the limit on concurrent claims; no other task
  changes. The transfer is recorded: the history of the task grows by exactly one entry, which names both
  owners, who decided, the reason and the interrupted window, and a reviewer's decision also leaves a note.
\<close>

theorem recovery_is_guarded:
  assumes "ledger_ok s" and "recover_claim_authorized i old rec (reason, reviewer) l now s = Inr (True, s')"
  shows "\<exists>t. get_task s i = Some t \<and> t_owner t = Some old \<and> \<not> blank reason \<and>
    get_task s' = (get_task s)(i \<mapsto> t\<lparr>t_status := Claimed, t_owner := Some (rs_agent rec),
      t_claim_started_at := Some now, t_lease_expires_at := Some (now + max l 1), t_parked_at := None,
      t_updated_at := now\<rparr>) \<and>
    (if t_status t = Paused \<and> \<not> sql_lt (t_parked_at t) (now - PARKING_GRACE_SECS)
     then (\<exists>r. named_reviewer reviewer = Some r \<and> r \<noteq> old \<and> r \<noteq> rs_agent rec) \<and> old \<noteq> rs_agent rec
     else compatible_legacy_owner old (rs_agent rec) (rs_name rec) \<and>
       (t_status t = Claimed \<and> sql_lt (t_lease_expires_at t) now \<or>
        t_status t \<in> {NeedsInput, Paused} \<and> sql_lt (t_parked_at t) (now - PARKING_GRACE_SECS))) \<and>
    length (held_claims s (rs_agent rec)) < MAX_CONCURRENT_CLAIMS \<and>
    (\<exists>c. logged_transfers s' i = logged_transfers s i @ [c] \<and> c \<in> set (claim_transfer_history s' i) \<and>
       ct_from_owner c = old \<and> ct_to_owner c = rs_agent rec \<and>
       ct_recovered_by c = (case named_reviewer reviewer of None \<Rightarrow> rs_agent rec | Some r \<Rightarrow> r) \<and>
       ct_reason c = trim reason \<and> ct_from_status c = task_status_as_str (t_status t) \<and>
       ct_from_claim_started_at c = t_claim_started_at t \<and> ct_from_lease_expires_at c = t_lease_expires_at t \<and>
       ct_to_claim_started_at c = now \<and> ct_transferred_at c = now) \<and>
    (\<forall>r. named_reviewer reviewer = Some r \<longrightarrow> (\<exists>q \<in> set (s_qa s'). q_task_id q = i \<and> q_kind q = Note \<and>
       q_author q = r \<and> q_created_at q = now \<and>
       q_body q = r @ '' authorized transfer of paused work from '' @ old @ '' to '' @ rs_agent rec @ '': '' @ trim reason))"
proof -
  obtain t where t: "get_task s i = Some t" "t_owner t = Some old"
    and auth: "authorise_transfer \<lparr>pc_owner = old, pc_status = t_status t,
           pc_lease_expires_at = t_lease_expires_at t, pc_parked_at = t_parked_at t\<rparr>
           old rec (named_reviewer (snd (reason, reviewer))) now = Inr ()"
    and re: "reclaimable \<lparr>pc_owner = old, pc_status = t_status t,
           pc_lease_expires_at = t_lease_expires_at t, pc_parked_at = t_parked_at t\<rparr> now"
    and cap: "length (held_claims s (rs_agent rec)) < MAX_CONCURRENT_CLAIMS"
    by (rule recover_runs [OF assms(2)])
  have log: "logged s" by (rule ledger_ok_logged [OF assms(1)])
  note rec = recover_records [OF log assms(2) t(1)]
  have "t_status t = Paused \<Longrightarrow> \<exists>p. t_parked_at t = Some p"
    using ledger_ok_row [OF assms(1) t(1)] by (simp add: row_ok_def)
  then have guard: "if t_status t = Paused \<and> \<not> sql_lt (t_parked_at t) (now - PARKING_GRACE_SECS)
     then (\<exists>r. named_reviewer reviewer = Some r \<and> r \<noteq> old \<and> r \<noteq> rs_agent rec) \<and> old \<noteq> rs_agent rec
     else compatible_legacy_owner old (rs_agent rec) (rs_name rec) \<and>
       (t_status t = Claimed \<and> sql_lt (t_lease_expires_at t) now \<or>
        t_status t \<in> {NeedsInput, Paused} \<and> sql_lt (t_parked_at t) (now - PARKING_GRACE_SECS))"
    using auth re
    by (cases "t_parked_at t")
      (auto simp: authorise_transfer_def reclaimable_def parked_before_grace_def
        split: if_splits option.splits task_status.splits)
  have last: "task_events s i \<noteq> []" "e_after (last (task_events s i)) = t"
    using task_events_last [OF log t(1)] by auto
  let ?e = "last (task_events s' i)"
  have hist: "logged_transfers s' i = logged_transfers s i @ [transfer_of (Some (last (task_events s i))) ?e]"
    unfolding logged_transfers_def rec(3) using last(1) by (simp add: transfers_from_snoc)
  then have "transfer_of (Some (last (task_events s i))) ?e \<in> set (claim_transfer_history s' i)"
    by (simp add: claim_transfer_history_def)
  then show ?thesis
    by (intro exI [of _ t] conjI exI [of _ "transfer_of (Some (last (task_events s i))) ?e"] allI impI rec(4))
      (use t hist guard cap rec(1) last(2) in \<open>simp_all add: rec(2,3) recovered_row_def transfer_of_def parse_detail_def
        detail_text_def Let_def\<close>)
qed

subsection \<open>The walk back\<close>

definition transfer_edges :: "claim_transfer list \<Rightarrow> (string \<times> string) set" where
  "transfer_edges history = (\<lambda>c. (ct_from_owner c, ct_to_owner c)) ` set history"

lemma walk_back_returns:
  assumes "acyclic (transfer_edges history)"
  shows "\<exists>e. walk_back history holder earliest = Some e"
proof -
  have "wf (transfer_edges history)"
    by (rule finite_acyclic_wf) (simp_all add: transfer_edges_def assms [unfolded transfer_edges_def])
  then show ?thesis
  proof (induction holder arbitrary: earliest)
    case (less holder)
    show ?case
    proof (cases "find (\<lambda>c. ct_to_owner c = holder) (rev history)")
      case None
      then show ?thesis by (subst walk_back.simps) simp
    next
      case (Some c)
      then have "(ct_from_owner c, holder) \<in> transfer_edges history"
        by (auto simp: transfer_edges_def find_Some_iff image_iff)
          (metis length_rev nth_mem set_rev)
      from less [OF this] Some show ?thesis by (subst walk_back.simps) auto
    qed
  qed
qed

text \<open>
  C40. The authorising window is found when recoveries form no cycle. Then the walk back ends, whatever
  the chain of transfers, and for an owner nobody recovered the task to, it is the start of that owner's
  own window.
\<close>

theorem authorising_window_returns:
  assumes "acyclic (transfer_edges (claim_transfer_history s i))"
  shows "\<exists>e. authorising_window_start s i owner = Some e \<and>
    ((\<forall>c \<in> set (claim_transfer_history s i). ct_to_owner c \<noteq> owner) \<longrightarrow>
       e = (case get_task s i of None \<Rightarrow> None
            | Some t \<Rightarrow> if t_owner t = Some owner then t_claim_started_at t else None))"
proof -
  have "find (\<lambda>c. ct_to_owner c = owner) (rev (claim_transfer_history s i)) = None"
    if "\<forall>c \<in> set (claim_transfer_history s i). ct_to_owner c \<noteq> owner"
    using that by (auto simp: find_None_iff)
  then have none: "(\<forall>c \<in> set (claim_transfer_history s i). ct_to_owner c \<noteq> owner) \<Longrightarrow>
      walk_back (claim_transfer_history s i) owner e = Some e" for e
    by (subst walk_back.simps) simp
  obtain e where "authorising_window_start s i owner = Some e"
    using walk_back_returns [OF assms] by (auto simp: authorising_window_start_def)
  then show ?thesis
    using none by (auto simp: authorising_window_start_def)
qed

definition owners_loop :: "claim_transfer list \<Rightarrow> string list \<Rightarrow> bool" where
  "owners_loop history H \<longleftrightarrow>
     list_all (\<lambda>h. case find (\<lambda>c. ct_to_owner c = h) (rev history) of
        None \<Rightarrow> False | Some c \<Rightarrow> ct_from_owner c \<in> set H) H"

lemma walk_back_diverges:
  assumes loop: "owners_loop history H" and h: "h \<in> set H"
  shows "walk_back history h e = None"
proof -
  have "owners_loop history H \<longrightarrow> h \<notin> set H" if "walk_back history h e = Some y" for y
    using that
  proof (rule walk_back.raw_induct [where P = "\<lambda>history h e y. owners_loop history H \<longrightarrow> h \<notin> set H", rotated])
    fix walk history h e y
    assume ih: "\<And>history h e y. walk history h e = Some y \<Longrightarrow> owners_loop history H \<longrightarrow> h \<notin> set H"
      and step: "(case find (\<lambda>c. ct_to_owner c = h) (rev history) of None \<Rightarrow> Some e
        | Some c \<Rightarrow> if list_all (\<lambda>x. ct_to_owner x \<noteq> ct_from_owner c) history
            then Some (or_else (ct_from_claim_started_at c) e)
            else walk history (ct_from_owner c) (or_else (ct_from_claim_started_at c) e)) = Some y"
    show "owners_loop history H \<longrightarrow> h \<notin> set H"
    proof (intro impI notI)
      assume loop: "owners_loop history H" and "h \<in> set H"
      then obtain c where c: "find (\<lambda>c. ct_to_owner c = h) (rev history) = Some c" "ct_from_owner c \<in> set H"
        by (auto simp: owners_loop_def list_all_iff split: option.splits)
      obtain c' where "find (\<lambda>x. ct_to_owner x = ct_from_owner c) (rev history) = Some c'"
        using loop c(2) by (auto simp: owners_loop_def list_all_iff split: option.splits)
      then have "\<not> list_all (\<lambda>x. ct_to_owner x \<noteq> ct_from_owner c) history"
        by (auto simp: find_Some_iff list_all_iff) (metis length_rev nth_mem set_rev)
      then have "walk history (ct_from_owner c) (or_else (ct_from_claim_started_at c) e) = Some y"
        using step c(1) by simp
      from ih [OF this] loop c(2) show False by blast
    qed
  qed
  with loop h show ?thesis by (cases "walk_back history h e") auto
qed

text \<open>
  The walk back need not end. Two reviewed transfers of one paused task, from \<open>x\<close> to \<open>y\<close>
  and back to \<open>x\<close>, are both granted; afterwards the search for the window that authorised \<open>x\<close>
  never returns.
\<close>

theorem authorising_window_can_diverge:
  "\<exists>s1 s2 s3 s4.
     pause_task ''a'' ''x'' None 5 (imported [sample_claim ''a'' ''x'' 1 99]) = Inr (True, s1) \<and>
     recover_claim_authorized ''a'' ''x'' \<lparr>rs_agent = ''y'', rs_name = ''y''\<rparr> (''ill'', Some ''r'') 60 6 s1 = Inr (True, s2) \<and>
     pause_task ''a'' ''y'' None 7 s2 = Inr (True, s3) \<and>
     recover_claim_authorized ''a'' ''y'' \<lparr>rs_agent = ''x'', rs_name = ''x''\<rparr> (''back'', Some ''r'') 60 8 s3 = Inr (True, s4) \<and>
     authorising_window_start s4 ''a'' ''x'' = None"
proof -
  have "on_win (pause_task ''a'' ''x'' None 5 (imported [sample_claim ''a'' ''x'' 1 99])) (\<lambda>s1.
     on_win (recover_claim_authorized ''a'' ''x'' \<lparr>rs_agent = ''y'', rs_name = ''y''\<rparr> (''ill'', Some ''r'') 60 6 s1) (\<lambda>s2.
     on_win (pause_task ''a'' ''y'' None 7 s2) (\<lambda>s3.
     on_win (recover_claim_authorized ''a'' ''y'' \<lparr>rs_agent = ''x'', rs_name = ''x''\<rparr> (''back'', Some ''r'') 60 8 s3) (\<lambda>s4.
       owners_loop (claim_transfer_history s4 ''a'') [''x'', ''y'']))))"
    by code_simp
  then obtain s1 s2 s3 s4 where
      "pause_task ''a'' ''x'' None 5 (imported [sample_claim ''a'' ''x'' 1 99]) = Inr (True, s1)"
      "recover_claim_authorized ''a'' ''x'' \<lparr>rs_agent = ''y'', rs_name = ''y''\<rparr> (''ill'', Some ''r'') 60 6 s1 = Inr (True, s2)"
      "pause_task ''a'' ''y'' None 7 s2 = Inr (True, s3)"
      "recover_claim_authorized ''a'' ''y'' \<lparr>rs_agent = ''x'', rs_name = ''x''\<rparr> (''back'', Some ''r'') 60 8 s3 = Inr (True, s4)"
    and loop: "owners_loop (claim_transfer_history s4 ''a'') [''x'', ''y'']"
    unfolding on_win_iff by (elim exE conjE) (rule that)
  moreover have "authorising_window_start s4 ''a'' ''x'' = None"
    unfolding authorising_window_start_def by (rule walk_back_diverges [OF loop]) simp
  ultimately show ?thesis
    by (intro exI [of _ s1] exI [of _ s2] exI [of _ s3] exI [of _ s4] conjI)
qed

theorem recovery_is_guarded_witness:
  "\<exists>s'. recover_claim_authorized ''a'' ''dev'' \<lparr>rs_agent = ''session:v1:0123456789abcdef0123456789abcdef'', rs_name = ''dev''\<rparr>
       (''moved'', None) 60 12 (imported [sample_claim ''a'' ''dev'' 1 9]) = Inr (True, s') \<and>
     map_option t_claim_started_at (get_task s' ''a'') = Some (Some 12)"
proof -
  let ?s = "imported [sample_claim ''a'' ''dev'' 1 9]"
  let ?rec = "\<lparr>rs_agent = ''session:v1:0123456789abcdef0123456789abcdef'', rs_name = ''dev''\<rparr>"
  have ok: "ledger_ok ?s"
    by (rule imported_ok) (simp_all add: sample_claim_def sample_task_def row_ok_def)
  have "wins (recover_claim_authorized ''a'' ''dev'' ?rec (''moved'', None) 60 12 ?s)" by code_simp
  then obtain s' where r: "recover_claim_authorized ''a'' ''dev'' ?rec (''moved'', None) 60 12 ?s = Inr (True, s')"
    by (auto simp: wins_iff)
  with recovery_is_guarded [OF ok r] show ?thesis by (auto simp: recovered_row_def)
qed

text \<open>
  A claim of \<open>x\<close> from 1 is paused and transferred to \<open>y\<close>, whose claim is paused and transferred to \<open>z\<close>: the walk
  from \<open>z\<close> passes \<open>y\<close> and returns the start of the window of \<open>x\<close>.
\<close>

definition sample_transfers :: ledger where
  "sample_transfers =
     (let go = (\<lambda>r. case r of Inl _ \<Rightarrow> empty_ledger | Inr (_, s) \<Rightarrow> s);
          s1 = go (pause_task ''a'' ''x'' None 5 (imported [sample_claim ''a'' ''x'' 1 99]));
          s2 = go (recover_claim_authorized ''a'' ''x'' \<lparr>rs_agent = ''y'', rs_name = ''y''\<rparr> (''ill'', Some ''r'') 60 6 s1);
          s3 = go (pause_task ''a'' ''y'' None 7 s2)
      in go (recover_claim_authorized ''a'' ''y'' \<lparr>rs_agent = ''z'', rs_name = ''z''\<rparr> (''on'', Some ''r'') 60 8 s3))"

theorem authorising_window_returns_witness:
  "map (\<lambda>c. (ct_from_owner c, ct_to_owner c)) (claim_transfer_history sample_transfers ''a'') = [(''x'', ''y''), (''y'', ''z'')] \<and>
   authorising_window_start sample_transfers ''a'' ''z'' = Some (Some 1) \<and>
   (\<exists>e. authorising_window_start sample_transfers ''a'' ''z'' = Some e)"
proof -
  have h: "map (\<lambda>c. (ct_from_owner c, ct_to_owner c)) (claim_transfer_history sample_transfers ''a'') = [(''x'', ''y''), (''y'', ''z'')]"
    by code_simp
  have "transfer_edges (claim_transfer_history sample_transfers ''a'') =
      set (map (\<lambda>c. (ct_from_owner c, ct_to_owner c)) (claim_transfer_history sample_transfers ''a''))"
    by (simp add: transfer_edges_def)
  then have e: "transfer_edges (claim_transfer_history sample_transfers ''a'') = {(''x'', ''y''), (''y'', ''z'')}" unfolding h by simp
  have "acyclic {(''x'', ''y''), (''y'', ''z'')}"
    by (rule wf_acyclic, rule wf_subset [OF wf_measure [of "\<lambda>w. if w = ''x'' then 0 else if w = ''y'' then 1 else 2"]]) simp
  then have "\<exists>e. authorising_window_start sample_transfers ''a'' ''z'' = Some e"
    using authorising_window_returns [of sample_transfers "''a''" "''z''"] unfolding e by blast
  moreover have "authorising_window_start sample_transfers ''a'' ''z'' = Some (Some 1)" by code_simp
  ultimately show ?thesis using h by blast
qed

end
