(* ===== verification/Task_Queries.thy ===== *)
theory Task_Queries
  imports Claim_Transfer
begin

text \<open>
  Board queries (\<^verbatim>\<open>store/coordination/query.rs\<close>, \<^verbatim>\<open>model/executive/board.rs\<close>): the next claimable
  task, the board, its diagnosis, the rework rate and the search for existing work. Rows that a
  query orders by creation time and that were created in the same second come in the order of
  the table.
\<close>

subsection \<open>The board\<close>

definition next_guard :: "int \<Rightarrow> task \<Rightarrow> bool" where
  "next_guard now t \<longleftrightarrow>
     t_blocked_by t = None \<and>
     (t_status t = Open \<or>
      t_status t = Claimed \<and> sql_lt (t_lease_expires_at t) now \<or>
      t_status t \<in> {NeedsInput, Paused} \<and> sql_lt (t_parked_at t) (now - PARKING_GRACE_SECS))"

definition next_task :: "ledger \<Rightarrow> int \<Rightarrow> task option" where
  "next_task s now =
     (case sort_key t_created_at (filter (next_guard now) (s_tasks s)) of
        [] \<Rightarrow> None
      | t # _ \<Rightarrow> Some t)"

definition board :: "ledger \<Rightarrow> bool \<Rightarrow> task list" where
  "board s include_terminal =
     sort_key t_created_at
       (if include_terminal then s_tasks s
        else filter (\<lambda>t. t_status t \<notin> {Done, Abandoned}) (s_tasks s))"

datatype board_ailment = DuplicateTitle | SameTitleAcrossGoals | BlockedWithoutGate

record board_finding =
  bf_ailment :: board_ailment
  bf_task_ids :: "string list"
  bf_subject :: string
  bf_remedy :: string

fun board_remedy :: "board_ailment \<Rightarrow> string" where
  "board_remedy DuplicateTitle =
     ''one goal, one title, more than one live task: decide which is the work and abandon the rest before two agents claim both''"
| "board_remedy SameTitleAcrossGoals =
     ''the same title is live under several goals: keep the one whose goal the work actually serves, declare any genuine breadth with also_serves on that single task (ADR-0041), and abandon the rest''"
| "board_remedy BlockedWithoutGate =
     ''blocked on no predecessor and with no reason recorded, so nothing will unblock it and nothing says what would: reopen it if the work is wanted, abandon it if it is not, or re-block it with a reason naming what clears it''"

text \<open>The grouping loop: a task joins the group of its title, or opens one at the end.\<close>

fun push_group :: "task \<Rightarrow> (string \<times> task list) list \<Rightarrow> (string \<times> task list) list" where
  "push_group t [] = [(t_title t, [t])]"
| "push_group t ((title, grp) # gs) =
     (if title = t_title t then (title, grp @ [t]) # gs else (title, grp) # push_group t gs)"

definition by_title :: "task list \<Rightarrow> (string \<times> task list) list" where
  "by_title ts = foldl (\<lambda>gs t. push_group t gs) [] ts"

definition same_goal_ids :: "task list \<Rightarrow> string list" where
  "same_goal_ids grp =
     map t_id (filter (\<lambda>t. \<exists>u \<in> set grp. t_id u \<noteq> t_id t \<and> goal_slug (t_goal_id u) = goal_slug (t_goal_id t)) grp)"

definition across_goal_ids :: "task list \<Rightarrow> string list" where
  "across_goal_ids grp =
     map t_id (filter (\<lambda>t. \<exists>u \<in> set grp. goal_slug (t_goal_id u) \<noteq> goal_slug (t_goal_id t)) grp)"

definition title_findings :: "string \<times> task list \<Rightarrow> board_finding list" where
  "title_findings g =
     (let title = fst g; grp = snd g in
      if length grp < 2 then []
      else (if same_goal_ids grp \<noteq> []
            then [\<lparr>bf_ailment = DuplicateTitle, bf_task_ids = same_goal_ids grp, bf_subject = title,
                   bf_remedy = board_remedy DuplicateTitle\<rparr>] else []) @
           (if across_goal_ids grp \<noteq> []
            then [\<lparr>bf_ailment = SameTitleAcrossGoals, bf_task_ids = across_goal_ids grp, bf_subject = title,
                   bf_remedy = board_remedy SameTitleAcrossGoals\<rparr>] else []))"

definition blocks_that_stated_a_reason :: "ledger \<Rightarrow> string set" where
  "blocks_that_stated_a_reason s =
     er_task_id ` set (filter (\<lambda>e.
        er_kind e = event_kind_as_str EvBlocked \<and>
        (\<forall>x \<in> set (s_events s). er_task_id x = er_task_id e \<and> er_kind x = event_kind_as_str EvBlocked \<longrightarrow>
           er_seq x \<le> er_seq e) \<and>
        (case json_get ''reason'' (parse_detail (er_detail e)) of
           None \<Rightarrow> False
         | Some v \<Rightarrow> (case json_as_str v of None \<Rightarrow> False | Some r \<Rightarrow> \<not> blank r))) (s_events s))"

definition diagnose_board :: "ledger \<Rightarrow> board_finding list" where
  "diagnose_board s =
     (let live = board s False in
      concat (map title_findings (by_title live)) @
      map (\<lambda>t. \<lparr>bf_ailment = BlockedWithoutGate, bf_task_ids = [t_id t], bf_subject = t_title t,
                bf_remedy = board_remedy BlockedWithoutGate\<rparr>)
        (filter (\<lambda>t. t_status t = Blocked \<and> t_blocked_by t = None \<and>
                     t_id t \<notin> blocks_that_stated_a_reason s) live))"

subsection \<open>Rework\<close>

record repeated_title =
  rt_title :: string
  rt_seeds :: nat
  rt_redundant :: nat
  rt_goals :: nat

record rework_report =
  rr_created :: nat
  rr_redundant :: nat
  rr_same_second :: nat
  rr_abandoned :: nat
  rr_repeated_titles :: "repeated_title list"

text \<open>
  One group of the loop: sorted by creation time and identifier, its first task is the
  original, the others created in the window are redundant.
\<close>

definition rework_group :: "int \<Rightarrow> rework_report \<Rightarrow> string \<times> task list \<Rightarrow> rework_report" where
  "rework_group since report g =
     (let grp = sort_key t_created_at (sort_key t_id (snd g));
          window = filter (\<lambda>t. since \<le> t_created_at t) grp;
          redundant = filter (\<lambda>t. since \<le> t_created_at t) (tl grp)
      in report\<lparr>rr_created := rr_created report + length window,
           rr_abandoned := rr_abandoned report + length (filter (\<lambda>t. t_status t = Abandoned) window),
           rr_redundant := rr_redundant report + length redundant,
           rr_same_second := rr_same_second report +
             length (filter (\<lambda>t. t_created_at t = t_created_at (hd grp)) redundant),
           rr_repeated_titles := rr_repeated_titles report @
             (if 0 < length redundant
              then [\<lparr>rt_title = fst g, rt_seeds = length grp, rt_redundant = length redundant,
                     rt_goals = length (sort_dedup (map t_goal_id grp))\<rparr>]
              else [])\<rparr>)"

definition rework_rate :: "ledger \<Rightarrow> int \<Rightarrow> rework_report" where
  "rework_rate s since =
     (let report = foldl (rework_group since)
            \<lparr>rr_created = 0, rr_redundant = 0, rr_same_second = 0, rr_abandoned = 0, rr_repeated_titles = []\<rparr>
            (by_title (board s True))
      in report\<lparr>rr_repeated_titles :=
           sort_key (\<lambda>r. - int (rt_redundant r)) (sort_key rt_title (rr_repeated_titles report))\<rparr>)"

subsection \<open>Existing work\<close>

definition existing_work :: "globset \<Rightarrow> ledger \<Rightarrow> string option \<Rightarrow> string list \<Rightarrow> task list res" where
  "existing_work glob s goal_id paths =
     (let by_goal = (case goal_id of
            None \<Rightarrow> []
          | Some g \<Rightarrow> filter (\<lambda>t. goal_slug (t_goal_id t) = goal_slug g) (sort_key t_created_at (s_tasks s)))
      in and_then
           (if paths = [] then Inr by_goal
            else try_fold (\<lambda>found t.
                 if t_id t \<in> set (map t_id found) then Inr found
                 else and_then (intersect_paths glob paths (sc_paths (task_scope_on s (t_id t))))
                   (\<lambda>ms. Inr (if ms \<noteq> [] then found @ [t] else found)))
               by_goal
               (sort_key t_created_at (filter (\<lambda>t. \<exists>r \<in> set (s_scopes s). fst r = t_id t \<and> fst (snd r) = PathScope) (s_tasks s))))
           (\<lambda>found. Inr (sort_key t_created_at found)))"

subsection \<open>What the board promises\<close>

text \<open>
  What the next task is. It is the oldest task that any agent but its holder could claim; it is
  one the asking agent can claim, unless it is stranded under an owner of the older identity
  scheme and has to be recovered; and when there is none, no agent can claim any task it does
  not already hold.
\<close>

theorem next_task_is_claimable:
  "case next_task s now of
     Some t \<Rightarrow> t \<in> set (s_tasks s) \<and> (claim_guard agent now t \<or> legacy_owner agent t) \<and>
       (\<forall>u \<in> set (s_tasks s). claim_guard agent now u \<longrightarrow>
          t_created_at t \<le> t_created_at u \<or> t_status u = Claimed \<and> t_owner u = Some agent)
   | None \<Rightarrow> (\<forall>u \<in> set (s_tasks s). claim_guard agent now u \<longrightarrow>
          t_status u = Claimed \<and> t_owner u = Some agent)"
proof -
  have g: "claim_guard agent now u \<Longrightarrow> next_guard now u \<or> t_status u = Claimed \<and> t_owner u = Some agent"
    and c: "next_guard now u \<Longrightarrow> claim_guard agent now u \<or> legacy_owner agent u" for u
    by (auto simp: claim_guard_def next_guard_def)
  show ?thesis
  proof (cases "sort_key t_created_at (filter (next_guard now) (s_tasks s))")
    case Nil
    then have "filter (next_guard now) (s_tasks s) = []"
      by (metis length_0_conv length_sort)
    then have "\<forall>u \<in> set (s_tasks s). \<not> next_guard now u" by (simp add: filter_empty_conv)
    then show ?thesis using Nil g by (auto simp: next_task_def)
  next
    case (Cons t ts)
    then show ?thesis
      using sort_key_hd_min [OF Cons] g c by (auto simp: next_task_def)
  qed
qed

theorem next_task_is_claimable_witness:
  "\<exists>t. next_task (imported [sample_task ''a'']) 5 = Some t \<and> claim_guard ''x'' 5 t"
proof -
  have "(case next_task (imported [sample_task ''a'']) 5 of None \<Rightarrow> False | Some t \<Rightarrow> \<not> legacy_owner ''x'' t)"
    by code_simp
  then show ?thesis
    using next_task_is_claimable [where s = "imported [sample_task ''a'']" and now = 5 and agent = "''x''"]
    by (auto split: option.splits)
qed

lemma push_group_titles: "fst ` set (push_group t gs) = insert (t_title t) (fst ` set gs)"
  by (induction t gs rule: push_group.induct) auto

lemma push_group_props:
  "sum_list (map (length \<circ> snd) (push_group t gs)) = Suc (sum_list (map (length \<circ> snd) gs))"
  "fst ` set (push_group t gs) = insert (t_title t) (fst ` set gs)"
  "distinct (map fst gs) \<Longrightarrow> distinct (map fst (push_group t gs))"
  "\<forall>g \<in> set gs. snd g \<noteq> [] \<Longrightarrow> \<forall>g \<in> set (push_group t gs). snd g \<noteq> []"
  "set (concat (map snd (push_group t gs))) = insert t (set (concat (map snd gs)))"
proof -
  show "sum_list (map (length \<circ> snd) (push_group t gs)) = Suc (sum_list (map (length \<circ> snd) gs))"
    by (induction t gs rule: push_group.induct) auto
  show "fst ` set (push_group t gs) = insert (t_title t) (fst ` set gs)"
    by (rule push_group_titles)
  show "distinct (map fst gs) \<Longrightarrow> distinct (map fst (push_group t gs))"
  proof (induction t gs rule: push_group.induct)
    case (2 t title grp gs)
    have "set (map fst (push_group t gs)) = insert (t_title t) (set (map fst gs))"
      using push_group_titles by simp
    with 2 show ?case by (cases "title = t_title t") (simp_all del: set_map)
  qed simp
  show "\<forall>g \<in> set gs. snd g \<noteq> [] \<Longrightarrow> \<forall>g \<in> set (push_group t gs). snd g \<noteq> []"
    by (induction t gs rule: push_group.induct) auto
  show "set (concat (map snd (push_group t gs))) = insert t (set (concat (map snd gs)))"
    by (induction t gs rule: push_group.induct) auto
qed

lemma by_title_props:
  shows "sum_list (map (length \<circ> snd) (by_title ts)) = length ts"
    and "length (by_title ts) = card (t_title ` set ts)"
    and "\<forall>g \<in> set (by_title ts). snd g \<noteq> []"
    and "set (concat (map snd (by_title ts))) = set ts"
proof -
  have inv: "sum_list (map (length \<circ> snd) (foldl (\<lambda>gs t. push_group t gs) gs ts)) =
        sum_list (map (length \<circ> snd) gs) + length ts \<and>
      fst ` set (foldl (\<lambda>gs t. push_group t gs) gs ts) = fst ` set gs \<union> t_title ` set ts \<and>
      distinct (map fst (foldl (\<lambda>gs t. push_group t gs) gs ts)) \<and>
      (\<forall>g \<in> set (foldl (\<lambda>gs t. push_group t gs) gs ts). snd g \<noteq> []) \<and>
      set (concat (map snd (foldl (\<lambda>gs t. push_group t gs) gs ts))) = set (concat (map snd gs)) \<union> set ts"
    if "distinct (map fst gs)" "\<forall>g \<in> set gs. snd g \<noteq> []" for gs
    using that
  proof (induction ts arbitrary: gs)
    case (Cons t ts)
    note i = Cons.IH [OF push_group_props(3) [OF Cons.prems(1), of t] push_group_props(4) [OF Cons.prems(2), of t]]
    have e: "foldl (\<lambda>gs t. push_group t gs) gs (t # ts) = foldl (\<lambda>gs t. push_group t gs) (push_group t gs) ts"
      by simp
    show ?case
      unfolding e using i
      by (elim conjE, intro conjI) (assumption | simp only: push_group_props(1,2,5) list.set image_insert Un_insert_left Un_insert_right list.size add_Suc add_Suc_right)+
  qed simp
  note i = inv [of "[]", simplified, folded by_title_def]
  show "sum_list (map (length \<circ> snd) (by_title ts)) = length ts"
    and "\<forall>g \<in> set (by_title ts). snd g \<noteq> []" and "set (concat (map snd (by_title ts))) = set ts"
    using i by (auto simp: comp_def)
  have "length (by_title ts) = card (set (map fst (by_title ts)))"
    using i distinct_card [of "map fst (by_title ts)"] by simp
  also have "set (map fst (by_title ts)) = t_title ` set ts" using i by simp
  finally show "length (by_title ts) = card (t_title ` set ts)" .
qed

lemma rework_fold:
  assumes "\<forall>g \<in> set gs. snd g \<noteq> [] \<and> (\<forall>t \<in> set (snd g). since \<le> t_created_at t)"
  shows "rr_created (foldl (rework_group since) r gs) = rr_created r + sum_list (map (length \<circ> snd) gs) \<and>
    rr_redundant (foldl (rework_group since) r gs) + length gs =
      rr_redundant r + sum_list (map (length \<circ> snd) gs)"
  using assms
proof (induction gs arbitrary: r)
  case (Cons g gs)
  let ?grp = "sort_key t_created_at (sort_key t_id (snd g))"
  have all: "filter (\<lambda>t. since \<le> t_created_at t) ?grp = ?grp"
    using Cons.prems by (intro filter_True) simp
  have "set (tl ?grp) \<subseteq> set ?grp" by (cases ?grp) auto
  then have "filter (\<lambda>t. since \<le> t_created_at t) (tl ?grp) = tl ?grp"
    using Cons.prems by (intro filter_True) auto
  moreover have "0 < length (snd g)" using Cons.prems by simp
  ultimately have "rr_created (rework_group since r g) = rr_created r + length (snd g)"
    and "Suc (rr_redundant (rework_group since r g)) = rr_redundant r + length (snd g)"
    using all by (simp_all add: rework_group_def Let_def)
  then show ?case using Cons.IH [of "rework_group since r g"] Cons.prems by simp
qed simp

text \<open>
  The rework rate counts what it says. Over a window that holds the whole ledger, every task is
  counted as created once, and the redundant ones are exactly as many as there are tasks beyond
  the first of each title.
\<close>

theorem rework_rate_counts:
  assumes "\<forall>t \<in> set (s_tasks s). since \<le> t_created_at t"
  shows "rr_created (rework_rate s since) = length (s_tasks s) \<and>
    rr_redundant (rework_rate s since) + card (t_title ` set (s_tasks s)) = length (s_tasks s)"
proof -
  let ?gs = "by_title (board s True)"
  have b: "set (board s True) = set (s_tasks s)" "length (board s True) = length (s_tasks s)"
    by (simp_all add: board_def)
  have "\<forall>g \<in> set ?gs. snd g \<noteq> [] \<and> (\<forall>t \<in> set (snd g). since \<le> t_created_at t)"
    using by_title_props(3,4) [of "board s True"] assms b by fastforce
  from rework_fold [OF this]
  have "rr_created (foldl (rework_group since)
      \<lparr>rr_created = 0, rr_redundant = 0, rr_same_second = 0, rr_abandoned = 0, rr_repeated_titles = []\<rparr> ?gs) = length (s_tasks s)"
    and "rr_redundant (foldl (rework_group since)
      \<lparr>rr_created = 0, rr_redundant = 0, rr_same_second = 0, rr_abandoned = 0, rr_repeated_titles = []\<rparr> ?gs) + length ?gs = length (s_tasks s)"
    using by_title_props(1) [of "board s True"] b by auto
  then show ?thesis
    using by_title_props(2) [of "board s True"] b by (simp add: rework_rate_def Let_def)
qed

theorem rework_rate_counts_witness:
  "rr_redundant (rework_rate (imported [sample_task ''a'', (sample_task ''b'')\<lparr>t_title := ''a''\<rparr>]) 0) = 1"
proof -
  let ?ts = "[sample_task ''a'', (sample_task ''b'')\<lparr>t_title := ''a''\<rparr>]"
  have t: "s_tasks (imported ?ts) = ?ts"
    by (rule imported_tasks) (simp add: sample_task_def)
  have "\<forall>t \<in> set (s_tasks (imported ?ts)). 0 \<le> t_created_at t"
    unfolding t by (simp add: sample_task_def)
  from rework_rate_counts [OF this] show ?thesis
    unfolding t by (simp add: sample_task_def)
qed

end
