(* ===== verification/Task_Machine.thy ===== *)
theory Task_Machine
  imports Task_Queries
begin

text \<open>
  The ledger as one state machine. Every operation of the task ledger of a repository that coordinates
  locally is a step; amending the constitution and clearing the store, which also write task rows, are
  steps of the constitution (\<open>Constitution_Machine\<close>). A run starts from a ledger with a constitution
  and no tasks, and its clock does not go back. The contract of an operation that respects claims is proved once and interpreted for
  each of them; the invariants of reachable ledgers follow by rule induction.
\<close>

subsection \<open>Operations that respect running claims\<close>

definition live_claim :: "ledger \<Rightarrow> string \<Rightarrow> string \<Rightarrow> int \<Rightarrow> bool" where
  "live_claim s i agent now \<longleftrightarrow>
     (case get_task s i of
        None \<Rightarrow> False
      | Some t \<Rightarrow> t_status t = Claimed \<and> t_owner t = Some agent \<and>
          (case t_lease_expires_at t of None \<Rightarrow> False | Some e \<Rightarrow> now \<le> e))"

definition still_held :: "ledger \<Rightarrow> string \<Rightarrow> string \<Rightarrow> bool" where
  "still_held s i agent \<longleftrightarrow>
     (case get_task s i of None \<Rightarrow> False | Some t \<Rightarrow> t_owner t \<in> {Some agent, None})"

lemma live_claim_iff:
  "live_claim s i agent now \<longleftrightarrow>
     (\<exists>t e. get_task s i = Some t \<and> t_status t = Claimed \<and> t_owner t = Some agent \<and>
        t_lease_expires_at t = Some e \<and> now \<le> e)"
  by (auto simp: live_claim_def split: option.splits)

lemma still_held_iff:
  "still_held s i agent \<longleftrightarrow> (\<exists>t. get_task s i = Some t \<and> t_owner t \<in> {Some agent, None})"
  by (auto simp: still_held_def split: option.splits)

lemma live_still_held: "live_claim s i agent now \<Longrightarrow> still_held s i agent"
  by (auto simp: live_claim_iff still_held_iff)

lemma still_held_frame [simp]:
  "still_held (s\<lparr>s_sessions := x\<rparr>) i agent = still_held s i agent"
  "still_held (s\<lparr>s_conformance := c\<rparr>) i agent = still_held s i agent"
  by (simp_all add: still_held_def)

text \<open>
  An operation that respects claims keeps the ledger's invariant and never moves a task from the
  holder of a running lease to another agent: the holder keeps it, or nobody has it.
\<close>

locale respectful_operation = ledger_operation run
  for run :: "ledger \<Rightarrow> ('r \<times> ledger) res" +
  fixes now :: int
  assumes respects: "logged s \<Longrightarrow> run s = Inr (r, s') \<Longrightarrow> live_claim s i agent now \<Longrightarrow> still_held s' i agent"
begin

lemma never_handed_over:
  assumes "ledger_ok s" and "run s = Inr (r, s')" and "live_claim s i agent now"
    and "live_claim s' i other now"
  shows "other = agent"
  using respects [OF ledger_ok_logged [OF assms(1)] assms(2,3)] assms(4)
  by (auto simp: live_claim_iff still_held_iff)

end

lemma respectful_operationI:
  assumes "ledger_operation run"
    and "\<And>s r s' i agent. logged s \<Longrightarrow> run s = Inr (r, s') \<Longrightarrow> live_claim s i agent now \<Longrightarrow>
      still_held s' i agent"
  shows "respectful_operation run now"
  using assms by (intro respectful_operation.intro respectful_operation_axioms.intro) blast+

lemma row_move_respects:
  assumes "get_task s' = (get_task s)(j \<mapsto> t')" and "get_task s j = Some t"
    and "\<And>agent e. t_status t = Claimed \<Longrightarrow> t_owner t = Some agent \<Longrightarrow> t_lease_expires_at t = Some e \<Longrightarrow>
      now \<le> e \<Longrightarrow> t_owner t' \<in> {Some agent, None}"
    and "live_claim s i agent now"
  shows "still_held s' i agent"
  using assms by (auto simp: live_claim_iff still_held_iff)

lemma transact_respects:
  assumes "logged s" and "keeps_id f" and "side_table extra"
    and "transact j g f extra k a n d s = Inr (r, s')"
    and "live_claim s i agent now"
    and "\<And>t agent e. get_task s j = Some t \<Longrightarrow> g t \<Longrightarrow> t_status t = Claimed \<Longrightarrow> t_owner t = Some agent \<Longrightarrow>
      t_lease_expires_at t = Some e \<Longrightarrow> now \<le> e \<Longrightarrow> t_owner (f t) \<in> {Some agent, None}"
  shows "still_held s' i agent"
proof (cases rule: transact_cases [OF assms(1-4)])
  case 1
  then show ?thesis using live_still_held [OF assms(5)] by simp
next
  case (2 t s2)
  show ?thesis
    by (rule row_move_respects [OF 2(6) 2(2) _ assms(5)]) (rule assms(6) [OF 2(2,3)])
qed

lemma transact_respectful:
  assumes "keeps_id f" and "side_table extra"
    and "\<And>t. g t \<Longrightarrow> row_ok t \<Longrightarrow>
      row_ok (f t) \<and> t_blocked_by (f t) \<in> {None, t_blocked_by t} \<and> \<not> terminal (f t)"
    and "\<And>t agent e. g t \<Longrightarrow> t_status t = Claimed \<Longrightarrow> t_owner t = Some agent \<Longrightarrow>
      t_lease_expires_at t = Some e \<Longrightarrow> now \<le> e \<Longrightarrow> t_owner (f t) \<in> {Some agent, None}"
  shows "respectful_operation (transact j g f extra k a n d) now"
proof (rule respectful_operationI)
  show "ledger_operation (transact j g f extra k a n d)"
    by (rule transact_ledger_operation) (fact assms)+
  show "still_held s' i agent"
    if "logged s" "transact j g f extra k a n d s = Inr (r, s')" "live_claim s i agent now" for s r s' i agent
    by (rule transact_respects [OF that(1) assms(1,2) that(2,3)]) (rule assms(4))
qed

lemma open_successor_respects:
  assumes "logged s" and "open_blocked_successor_on p n s = Inr s'" and "still_held s i agent"
  shows "still_held s' i agent"
  by (rule open_successor_cases [OF assms(1,2)]) (use assms(3) in \<open>auto simp: still_held_iff\<close>)

subsection \<open>Each operation respects running claims\<close>

interpretation claim: respectful_operation "claim_task_with_partial_scope glob i agent l paths symbols now" now
  for glob i agent l paths symbols now
proof (rule respectful_operationI [OF claim.ledger_operation_axioms])
  show "still_held s' j a" if "logged s" "live_claim s j a now"
    and run: "claim_task_with_partial_scope glob i agent l paths symbols now s = Inr (r, s')" for s r s' j a
  proof (cases rule: claim_cases [OF that(1) run])
    case 1
    then show ?thesis using live_still_held [OF that(2)] by simp
  next
    case (2 t s2)
    show ?thesis
      by (rule row_move_respects [OF 2(5,2) _ that(2)])
        (use 2(3) in \<open>auto simp: claim_guard_def claim_row_def\<close>)
  qed
qed

interpretation renew: respectful_operation "renew_lease i agent l now" now for i agent l now
  unfolding renew_lease_def
  by (rule transact_respectful)
    (auto simp: keeps_id_def live_lease_guard_def row_ok_def terminal_def)

interpretation touch: respectful_operation "touch_lease i agent l now" now for i agent l now
  unfolding touch_lease_def
  by (rule transact_respectful)
    (auto simp: keeps_id_def live_lease_guard_def row_ok_def terminal_def sql_max_def)

interpretation release: respectful_operation "release_task i agent now" now for i agent now
  unfolding release_task_def
  by (rule transact_respectful) (auto simp: keeps_id_def row_ok_def terminal_def)

interpretation declare_ctx: respectful_operation "declare_session_context agent ctx now" now for agent ctx now
  by (rule respectful_operationI [OF declare_ctx.ledger_operation_axioms])
    (auto simp: declare_session_context_def intro: live_still_held)

interpretation block: respectful_operation "block_task i blocked_by reason actor now" now
  for i blocked_by reason actor now
proof (rule respectful_operationI [OF block.ledger_operation_axioms])
  show "still_held s' j a" if "logged s" "live_claim s j a now"
    and run: "block_task i blocked_by reason actor now s = Inr (r, s')" for s r s' j a
    by (rule block_cases [OF that(1) run], rule row_move_respects [OF _ _ _ that(2)])
      (assumption | simp add: block_row_def)+
qed

interpretation reopen: respectful_operation "reopen_task i now" now for i now
proof (rule respectful_operationI [OF reopen.ledger_operation_axioms])
  show "still_held s' j a" if "logged s" "live_claim s j a now" "reopen_task i now s = Inr (r, s')" for s r s' j a
  proof -
    have "transact i (\<lambda>t. True)
      (\<lambda>t. t\<lparr>t_status := Open, t_owner := None, t_claim_started_at := None,
             t_lease_expires_at := None, t_blocked_by := None, t_updated_at := now\<rparr>)
      Inr EvReopened None now None s = Inr (r, s')"
      using that(3) by (auto simp: reopen_task_def split: option.splits if_splits)
    from transact_respects [OF that(1) _ side_table_none this that(2)] show ?thesis
      by (simp add: keeps_id_def)
  qed
qed

lemma finish_respects:
  assumes "logged s" and "live_claim s j a now" and keep: "keeps_id f" and side: "side_table extra"
    and row: "\<And>t. t_owner (f t) = None"
    and run: "and_then (transact i g f extra k ac n d s)
        (\<lambda>(changed, s1). and_then (open_blocked_successor_on i n s1) (\<lambda>s2. Inr (changed, s2))) = Inr (r, s')"
  shows "still_held s' j a"
proof -
  obtain s1 where tr: "transact i g f extra k ac n d s = Inr (r, s1)"
    and op: "open_blocked_successor_on i n s1 = Inr s'"
    using run by (auto simp: and_then_Inr)
  have "logged s1"
    by (rule logged_operation.keeps_logged [OF transact_logged_operation [OF keep side] assms(1) tr])
  moreover have "still_held s1 j a"
    by (rule transact_respects [OF assms(1) keep side tr assms(2)]) (simp add: row)
  ultimately show ?thesis by (rule open_successor_respects [OF _ op])
qed

interpretation abandon: respectful_operation "abandon_task i ack now" now for i ack now
proof (rule respectful_operationI [OF abandon.ledger_operation_axioms])
  show "still_held s' j a" if "logged s" "live_claim s j a now" "abandon_task i ack now s = Inr (r, s')" for s r s' j a
    by (rule abandon_runs [OF that(3)], rule finish_respects [OF that(1,2)], assumption?)
      (auto simp: abandoned_row_def)
qed

interpretation resolve: respectful_operation "resolve_in_review i resolver now" now for i resolver now
proof (rule respectful_operationI [OF resolve.ledger_operation_axioms])
  show "still_held s' j a" if "logged s" "live_claim s j a now" "resolve_in_review i resolver now s = Inr (r, s')" for s r s' j a
    by (rule resolve_runs [OF that(3)], rule finish_respects [OF that(1,2)])
      (auto simp: accepted_row_def)
qed

interpretation ask: respectful_operation "ask_question i agent question audience now" now
  for i agent question audience now
proof (rule respectful_operationI [OF ask.ledger_operation_axioms])
  show "still_held s' j a" if "logged s" "live_claim s j a now"
    and run: "ask_question i agent question audience now s = Inr (r, s')" for s r s' j a
  proof -
    obtain au d where "transact i (\<lambda>t. t_owner t = Some agent \<and> t_status t = Claimed) (park_row NeedsInput now)
      (insert_qa i Question question agent au now) EvQuestioned (Some agent) now d s = Inr (r, s')"
      using run by (auto simp: ask_question_def and_then_Inr Let_def split: if_splits option.splits)
    from transact_respects [OF that(1) _ _ this that(2)] show ?thesis
      by (simp add: park_row_def keeps_id_def)
  qed
qed

interpretation answer: respectful_operation "answer_question i ans author l now" now for i ans author l now
  unfolding answer_question_def
  by (rule transact_respectful) (auto simp: unpark_row_def row_ok_def terminal_def)

interpretation pause: respectful_operation "pause_task i agent reason now" now for i agent reason now
  unfolding pause_task_def
  by (rule transact_respectful) (auto simp: park_row_def row_ok_def terminal_def)

interpretation resume: respectful_operation "resume_task i agent l now" now for i agent l now
  unfolding resume_task_def
  by (rule transact_respectful) (auto simp: unpark_row_def row_ok_def terminal_def)

interpretation coverage: respectful_operation "declare_coverage i agent goals now" now for i agent goals now
proof (rule respectful_operationI [OF coverage.ledger_operation_axioms])
  show "still_held s' j a" if "logged s" "live_claim s j a now" "declare_coverage i agent goals now s = Inr (r, s')" for s r s' j a
    by (rule declare_coverage_runs [OF that(3)]) (use live_still_held [OF that(2)] in \<open>simp add: still_held_def\<close>)
qed

interpretation reconnect: respectful_operation "reconnect_claim_clause i agent now" now for i agent now
proof (rule respectful_operationI [OF reconnect.ledger_operation_axioms])
  show "still_held s' j a" if "logged s" "live_claim s j a now"
    and run: "reconnect_claim_clause i agent now s = Inr (r, s')" for s r s' j a
  proof -
    obtain d b where tr: "transact i (\<lambda>_. True) (\<lambda>t. t\<lparr>t_goal_id := r, t_updated_at := now\<rparr>) Inr
        EvClauseReconnected (Some agent) now d s = Inr (b, s')"
      by (rule reconnect_runs [OF run])
    show ?thesis
      by (rule transact_respects [OF that(1) _ side_table_none tr that(2)]) (simp_all add: keeps_id_def)
  qed
qed

interpretation create: respectful_operation "create_task_with_id i goal title acc parent pred goals now" now
  for i goal title acc parent pred goals now
proof (rule respectful_operationI [OF create.ledger_operation_axioms])
  show "still_held s' j a" if "logged s" "live_claim s j a now"
    and run: "create_task_with_id i goal title acc parent pred goals now s = Inr (r, s')" for s r s' j a
    by (rule create_cases [OF that(1) run]) (use that(2) in \<open>auto simp: live_claim_iff still_held_iff\<close>)
qed

interpretation audit: respectful_operation "record_conformance task_id a fj now" now for task_id a fj now
  by (rule respectful_operationI [OF audit.ledger_operation_axioms])
    (auto simp: record_conformance_def Let_def intro: live_still_held)

interpretation judge: respectful_operation "transition_with_checked_conformance i agent c v target now" now
  for i agent c v target now
proof (rule respectful_operationI [OF judge.ledger_operation_axioms])
  show "still_held s' j a" if "logged s" "live_claim s j a now"
    and run: "transition_with_checked_conformance i agent c v target now s = Inr (r, s')" for s r s' j a
  proof -
    obtain d s1 where tr: "transact i (live_lease_guard agent now) (judged_row target now) Inr
           EvConformanceRecorded (Some agent) now d s = Inr (r, s1)"
      and fin: "if r \<and> target = Done then open_blocked_successor_on i now s1 = Inr s' else s' = s1"
      by (rule judged_runs [OF run])
    have "logged s1"
      by (rule logged_operation.keeps_logged [OF transact_logged_operation that(1) tr]) simp_all
    moreover have "still_held s1 j a"
      by (rule transact_respects [OF that(1) _ _ tr that(2)]) (auto simp: judged_row_def)
    ultimately show ?thesis
      using fin open_successor_respects by (auto split: if_splits)
  qed
qed

interpretation recover: respectful_operation "recover_claim_authorized i old rec auth l now" now
  for i old rec auth l now
proof (rule respectful_operationI [OF recover.ledger_operation_axioms])
  show "still_held s' j a" if "logged s" "live_claim s j a now"
    and run: "recover_claim_authorized i old rec auth l now s = Inr (r, s')" for s r s' j a
  proof -
    obtain t d ac s1 where t: "get_task s i = Some t"
      and re: "reclaimable \<lparr>pc_owner = old, pc_status = t_status t,
             pc_lease_expires_at = t_lease_expires_at t, pc_parked_at = t_parked_at t\<rparr> now"
      and tr: "transact i (\<lambda>u. t_owner u = Some old \<and> t_status u = t_status t)
             (recovered_row (rs_agent rec) l now) Inr EvClaimRecovered (Some ac) now d s = Inr (r, s1)"
      and fin: "s' = s1 \<or> (r \<and> (\<exists>m r. insert_qa i Note m r None now s1 = Inr s'))"
      by (rule recover_runs [OF run])
    have "still_held s1 j a"
      by (rule transact_respects [OF that(1) _ _ tr that(2)])
        (use t re in \<open>auto simp: reclaimable_def parked_before_grace_def\<close>)
    moreover have "get_task s' = get_task s1" using fin insert_qa_keeps(3) by blast
    ultimately show ?thesis by (simp add: still_held_def)
  qed
qed

subsection \<open>The machine\<close>

inductive task_step :: "globset \<Rightarrow> (string \<Rightarrow> string) \<Rightarrow> int \<Rightarrow> ledger \<Rightarrow> ledger \<Rightarrow> bool"
  for glob hash now where
  step_create: "create_task_after_on hash goal title acc parent pred goals now s = Some (Inr (t, s')) \<Longrightarrow>
    task_step glob hash now s s'"
| step_claim: "claim_task_with_partial_scope glob i agent l paths symbols now s = Inr (b, s') \<Longrightarrow>
    task_step glob hash now s s'"
| step_renew: "renew_lease i agent l now s = Inr (b, s') \<Longrightarrow> task_step glob hash now s s'"
| step_touch: "touch_lease i agent l now s = Inr (b, s') \<Longrightarrow> task_step glob hash now s s'"
| step_release: "release_task i agent now s = Inr (b, s') \<Longrightarrow> task_step glob hash now s s'"
| step_recover: "recover_claim_authorized i old rec auth l now s = Inr (b, s') \<Longrightarrow> task_step glob hash now s s'"
| step_context: "declare_session_context agent ctx now s = Inr ((), s') \<Longrightarrow> task_step glob hash now s s'"
| step_block: "block_task i blocked_by reason actor now s = Inr (b, s') \<Longrightarrow> task_step glob hash now s s'"
| step_reopen: "reopen_task i now s = Inr (b, s') \<Longrightarrow> task_step glob hash now s s'"
| step_abandon: "abandon_task i ack now s = Inr (b, s') \<Longrightarrow> task_step glob hash now s s'"
| step_resolve: "resolve_in_review i resolver now s = Inr (b, s') \<Longrightarrow> task_step glob hash now s s'"
| step_ask: "ask_question i agent question audience now s = Inr (b, s') \<Longrightarrow> task_step glob hash now s s'"
| step_answer: "answer_question i ans author l now s = Inr (b, s') \<Longrightarrow> task_step glob hash now s s'"
| step_pause: "pause_task i agent reason now s = Inr (b, s') \<Longrightarrow> task_step glob hash now s s'"
| step_resume: "resume_task i agent l now s = Inr (b, s') \<Longrightarrow> task_step glob hash now s s'"
| step_coverage: "declare_coverage i agent goals now s = Inr (ts, s') \<Longrightarrow> task_step glob hash now s s'"
| step_reconnect: "reconnect_claim_clause i agent now s = Inr (g, s') \<Longrightarrow> task_step glob hash now s s'"
| step_audit: "record_conformance task_id audit fj now s = Inr (c, s') \<Longrightarrow> task_step glob hash now s s'"
| step_judge: "transition_with_checked_conformance i agent c v target now s = Inr (b, s') \<Longrightarrow>
    task_step glob hash now s s'"

inductive reachable :: "globset \<Rightarrow> (string \<Rightarrow> string) \<Rightarrow> int \<Rightarrow> ledger \<Rightarrow> bool"
  for glob hash where
  reach_init: "reachable glob hash now (empty_ledger\<lparr>s_goals := goals, s_artifacts := artifacts\<rparr>)"
| reach_step: "reachable glob hash now s \<Longrightarrow> now \<le> now' \<Longrightarrow> task_step glob hash now' s s' \<Longrightarrow>
    reachable glob hash now' s'"

text \<open>A step is one of the operations, and every one of them respects claims.\<close>

lemma create_runs_with_id:
  assumes "create_task_after_on hash goal title acc parent pred goals now s = Some (Inr (t, s'))"
  shows "\<exists>i. create_task_with_id i goal title acc parent pred goals now s = Inr (t, s')"
  using assms by (auto simp: create_task_after_on_def split: if_splits)

lemma step_keeps_ok: "task_step glob hash now s s' \<Longrightarrow> ledger_ok s \<Longrightarrow> ledger_ok s'"
  by (cases rule: task_step.cases, assumption)
    (metis create_runs_with_id create.keeps_ok claim.keeps_ok renew.keeps_ok touch.keeps_ok release.keeps_ok
      recover.keeps_ok declare_ctx.keeps_ok block.keeps_ok reopen.keeps_ok abandon.keeps_ok
      resolve.keeps_ok ask.keeps_ok answer.keeps_ok pause.keeps_ok resume.keeps_ok
      coverage.keeps_ok reconnect.keeps_ok audit.keeps_ok judge.keeps_ok)+

lemma step_appends: "task_step glob hash now s s' \<Longrightarrow> logged s \<Longrightarrow> prefix (s_events s) (s_events s')"
  by (cases rule: task_step.cases, assumption)
    (metis create_runs_with_id create.appends claim.appends renew.appends touch.appends release.appends
      recover.appends declare_ctx.appends block.appends reopen.appends abandon.appends
      resolve.appends ask.appends answer.appends pause.appends resume.appends
      coverage.appends reconnect.appends audit.appends judge.appends)+

lemma step_respects:
  "task_step glob hash now s s' \<Longrightarrow> logged s \<Longrightarrow> live_claim s i agent now \<Longrightarrow> still_held s' i agent"
  by (cases rule: task_step.cases, assumption)
    (metis create_runs_with_id create.respects claim.respects renew.respects touch.respects release.respects
      recover.respects declare_ctx.respects block.respects reopen.respects abandon.respects
      resolve.respects ask.respects answer.respects pause.respects resume.respects
      coverage.respects reconnect.respects audit.respects judge.respects)+

lemma reachable_ok: "reachable glob hash now s \<Longrightarrow> ledger_ok s"
  by (induction rule: reachable.induct) (simp_all add: ledger_ok_empty step_keeps_ok)

subsection \<open>What every run keeps\<close>

text \<open>
  C2. The table is the projection of the log in every ledger that the task operations reach, in any
  order and at any times: replaying the log gives exactly the rows. In every such ledger the
  handoffs form chains without cycles, a task that waits names a predecessor that is not
  finished, every row is in a well-formed state, and a step only adds to the log. The task
  operations are the steps of \<open>task_step\<close>. Two operations outside the ledger's own do
  write its tables without an event and break the agreement of log and table: an amendment of the
  constitution, which moves tasks (\<open>amendment_bypasses_log\<close>), and the clearing of the store
  (\<open>reset_bypasses_log\<close>).
\<close>

theorem reachable_ledgers_are_sound:
  assumes "reachable glob hash now s"
  shows "project_tasks s = sort_key t_id (s_tasks s) \<and>
    acyclic (edges (s_handoffs s)) \<and>
    (\<forall>i t. get_task s i = Some t \<longrightarrow> row_ok t \<and>
       (\<forall>b. t_blocked_by t = Some b \<longrightarrow>
          (\<exists>p. get_task s b = Some p \<and> \<not> terminal p \<and> (b, i) \<in> edges (s_handoffs s)))) \<and>
    (\<forall>now' s'. task_step glob hash now' s s' \<longrightarrow> prefix (s_events s) (s_events s'))"
proof -
  have ok: "ledger_ok s" using assms by (rule reachable_ok)
  have "project_tasks s = sort_key t_id (s_tasks s)"
    by (rule project_tasks_table) (rule ledger_ok_logged [OF ok])
  moreover have "acyclic (edges (s_handoffs s))"
    using ok by (simp add: ledger_ok_def handoffs_ok_def)
  moreover have "row_ok t" if "get_task s i = Some t" for i t
    using ledger_ok_row [OF ok that] .
  moreover have "\<exists>p. get_task s b = Some p \<and> \<not> terminal p \<and> (b, i) \<in> edges (s_handoffs s)"
    if "get_task s i = Some t" "t_blocked_by t = Some b" for i t b
    using ok that unfolding ledger_ok_def gates_ok_def by blast
  ultimately show ?thesis
    using step_appends [OF _ ledger_ok_logged [OF ok]] by blast
qed

text \<open>
  C3. A running claim is never taken. While the lease of a claim runs, no operation of the ledger
  hands the task to another agent: not a claim, not a recovery with or without a reviewer, not
  a block, a verdict or an answer. Afterwards the holder has it, or nobody has.
\<close>

theorem live_claim_never_taken:
  assumes "reachable glob hash now s" and "task_step glob hash now' s s'"
    and "live_claim s i agent now'"
  shows "(\<exists>t. get_task s' i = Some t \<and> t_owner t \<in> {Some agent, None}) \<and>
    (\<forall>other later. live_claim s' i other later \<longrightarrow> other = agent)"
  using step_respects [OF assms(2) ledger_ok_logged [OF reachable_ok [OF assms(1)]] assms(3)]
  by (auto simp: still_held_iff live_claim_iff)

text \<open>
  C22. No task is stuck. From every reachable ledger, any task that is not finished, whoever holds
  it and whatever it waits for, is ended by two operations at that very moment: blocking it and
  abandoning it with its branch acknowledged; the task it gated is open afterwards.
\<close>

theorem every_task_can_end:
  assumes "reachable glob hash now s" and "get_task s i = Some t" and "\<not> terminal t"
  shows "\<exists>s1 s2. block_task i None None actor now s = Inr (True, s1) \<and>
    abandon_task i True now s1 = Inr (True, s2) \<and> reachable glob hash now s2 \<and>
    (\<exists>u. get_task s2 i = Some u \<and> t_status u = Abandoned \<and> t_owner u = None) \<and>
    (\<forall>j u. get_task s j = Some u \<and> t_blocked_by u = Some i \<longrightarrow>
       (\<exists>v. get_task s2 j = Some v \<and> t_status v = Open))"
proof -
  have ok: "ledger_ok s" by (rule reachable_ok) fact
  obtain s1 where 1: "block_task i None None actor now s = Inr (True, s1)"
    and g1: "get_task s1 = (get_task s)(i \<mapsto> block_row None now t)"
    and h1: "s_handoffs s1 = s_handoffs s"
    by (rule block_without_predecessor [OF ledger_ok_logged [OF ok] assms(2,3)])
  have r1: "reachable glob hash now s1"
    by (rule reach_step [OF assms(1) _ step_block [OF 1]]) simp
  note ok1 = reachable_ok [OF r1]
  obtain s2 where 2: "abandon_task i True now s1 = Inr (True, s2)"
    using abandon_succeeds [OF ok1, of i "block_row None now t"] g1 by (auto simp: block_row_def)
  have r2: "reachable glob hash now s2"
    by (rule reach_step [OF r1 _ step_abandon [OF 2]]) simp
  obtain v s3 where v: "get_task s1 i = Some v" and s3: "logged s3"
      "get_task s3 = (get_task s1)(i \<mapsto> abandoned_row now v)" "s_handoffs s3 = s_handoffs s1"
      "open_blocked_successor_on i now s3 = Inr s2"
    by (rule abandon_effect [OF ledger_ok_logged [OF ok1] 2])
  have "\<exists>u. get_task s2 i = Some u \<and> t_status u = Abandoned \<and> t_owner u = None"
    by (rule open_successor_cases [OF s3(1,4)]) (auto simp: s3(2) abandoned_row_def split: if_splits)
  moreover have "\<exists>v. get_task s2 j = Some v \<and> t_status v = Open"
    if "get_task s j = Some u" "t_blocked_by u = Some i" for j u
  proof -
    have "(i, j) \<in> edges (s_handoffs s)"
      using ok that unfolding ledger_ok_def gates_ok_def by blast
    then have "j \<noteq> i" using ok by (auto simp: ledger_ok_def handoffs_ok_def acyclic_def)
    then have "get_task s1 j = Some u" using that g1 by simp
    from opened_successor [OF ok1 this that(2) s3] show ?thesis by blast
  qed
  ultimately show ?thesis using 1 2 r2 by blast
qed

subsection \<open>A concrete run\<close>

text \<open>A task is created at 5 and claimed at 6; the identifiers are their own hashes.\<close>

definition sample_constitution :: ledger where
  "sample_constitution = empty_ledger\<lparr>s_goals := [sample_goal ''goal:g''], s_artifacts := []\<rparr>"

definition sample_run :: "(string \<times> ledger) option" where
  "sample_run =
     (case create_task_after_on (\<lambda>x. x) ''goal:g'' ''build'' [] None None [] 5 sample_constitution of
        Some (Inr (t, s)) \<Rightarrow>
          (case claim_task_with_partial_scope (\<lambda>_. None) (t_id t) ''x'' 10 None None 6 s of
             Inr (True, s') \<Rightarrow> Some (t_id t, s')
           | _ \<Rightarrow> None)
      | _ \<Rightarrow> None)"

lemma sample_run_reachable:
  assumes "sample_run = Some (i, s)"
  shows "reachable (\<lambda>_. None) (\<lambda>x. x) 6 s"
proof -
  obtain t s0 where c: "create_task_after_on (\<lambda>x. x) ''goal:g'' ''build'' [] None None [] 5 sample_constitution =
      Some (Inr (t, s0))"
    and k: "claim_task_with_partial_scope (\<lambda>_. None) (t_id t) ''x'' 10 None None 6 s0 = Inr (True, s)"
    using assms by (auto simp: sample_run_def split: option.splits sum.splits prod.splits bool.splits)
  have "reachable (\<lambda>_. None) (\<lambda>x. x) 5 sample_constitution"
    unfolding sample_constitution_def by (rule reach_init)
  then have "reachable (\<lambda>_. None) (\<lambda>x. x) 5 s0" by (rule reach_step [OF _ _ step_create [OF c]]) simp
  then show ?thesis by (rule reach_step [OF _ _ step_claim [OF k]]) simp
qed

lemma sample_run_returns:
  "\<exists>i s r. sample_run = Some (i, s) \<and> live_claim s i ''x'' 16 \<and> s_tasks s \<noteq> [] \<and>
     claim_task_with_partial_scope (\<lambda>_. None) i ''y'' 10 None None 16 s = Inr r"
proof -
  have "case sample_run of None \<Rightarrow> False
        | Some (i, s) \<Rightarrow> live_claim s i ''x'' 16 \<and> s_tasks s \<noteq> [] \<and>
            \<not> isl (claim_task_with_partial_scope (\<lambda>_. None) i ''y'' 10 None None 16 s)"
    by code_simp
  then obtain i s where s: "sample_run = Some (i, s)" "live_claim s i ''x'' 16" "s_tasks s \<noteq> []"
    and n: "\<not> isl (claim_task_with_partial_scope (\<lambda>_. None) i ''y'' 10 None None 16 s)"
    by (auto split: option.splits)
  then show ?thesis by (cases "claim_task_with_partial_scope (\<lambda>_. None) i ''y'' 10 None None 16 s") auto
qed

theorem reachable_ledgers_are_sound_witness:
  "\<exists>i s. sample_run = Some (i, s) \<and> s_tasks s \<noteq> [] \<and> project_tasks s = sort_key t_id (s_tasks s)"
proof -
  obtain i s where r: "sample_run = Some (i, s)" "s_tasks s \<noteq> []" using sample_run_returns by blast
  from reachable_ledgers_are_sound [OF sample_run_reachable [OF r(1)]] r show ?thesis by blast
qed

theorem live_claim_never_taken_witness:
  "\<exists>i s r s'. sample_run = Some (i, s) \<and>
     claim_task_with_partial_scope (\<lambda>_. None) i ''y'' 10 None None 16 s = Inr (r, s') \<and>
     \<not> live_claim s' i ''y'' 16"
proof -
  obtain i s r s' where r: "sample_run = Some (i, s)" "live_claim s i ''x'' 16"
    and k: "claim_task_with_partial_scope (\<lambda>_. None) i ''y'' 10 None None 16 s = Inr (r, s')"
    using sample_run_returns by fastforce
  from live_claim_never_taken [OF sample_run_reachable [OF r(1)] step_claim [OF k] r(2)] r(1) k
  have "\<not> live_claim s' i ''y'' 16" by fastforce
  with r(1) k show ?thesis by blast
qed

theorem every_task_can_end_witness:
  "\<exists>i s s1 s2. sample_run = Some (i, s) \<and> block_task i None None ''y'' 6 s = Inr (True, s1) \<and>
     abandon_task i True 6 s1 = Inr (True, s2) \<and>
     (\<exists>u. get_task s2 i = Some u \<and> t_status u = Abandoned)"
proof -
  obtain i s where r: "sample_run = Some (i, s)" "live_claim s i ''x'' 16" using sample_run_returns by blast
  obtain t where t: "get_task s i = Some t" "\<not> terminal t"
    using r(2) by (auto simp: live_claim_iff terminal_def)
  from every_task_can_end [OF sample_run_reachable [OF r(1)] t, of "''y''"] r(1) show ?thesis by blast
qed

end
