(* ===== verification/Conformance_Engine.thy ===== *)
theory Conformance_Engine
  imports Knowledge Task_Machine
begin

text \<open>
  From evidence to a verdict, and from a verdict to a finished task: which clauses govern a change
  (\<^verbatim>\<open>facade/conformance/clauses.rs\<close>), what evidence is admitted (\<^verbatim>\<open>evidence.rs\<close>), how it is judged
  (\<^verbatim>\<open>verdict.rs\<close>), what a check was issued against (\<^verbatim>\<open>token.rs\<close>), the check and the completion
  (\<^verbatim>\<open>mod.rs\<close>), and certification (\<^verbatim>\<open>certification.rs\<close>). The semantic judge is the parameter
  \<open>judge\<close>, \<^term>\<open>None\<close> when the model cannot be reached; serde's renderings and SHA-256 are the
  fields of the parameter \<open>h\<close>. Every read of the clock within one call gives the same second.
  The walk to the authorising window may not end, so what depends on it returns an option.
\<close>

subsection \<open>Policy state and governing clauses\<close>

record policy =
  p_waivers :: "waiver list"
  p_controls :: "control list"
  p_versions :: "constitution_version list"
  p_lessons :: lessons

fun join_with :: "string \<Rightarrow> string list \<Rightarrow> string" where
  "join_with sep [] = []"
| "join_with sep [x] = x"
| "join_with sep (x # y # ys) = x @ sep @ join_with sep (y # ys)"

definition is_documentation_node :: "string \<Rightarrow> bool" where
  "is_documentation_node node =
     (let path = (case strip_prefix ''artifact:'' node of None \<Rightarrow> node | Some p \<Rightarrow> p);
          file = last (split_on (CHR ''/'') path)
      in suffix ''.md'' (map ascii_lower path) \<or> file \<in> {''LICENSE'', ''CODEOWNERS''})"

definition active_bindings_for_node :: "ledger \<Rightarrow> string \<Rightarrow> artifact_binding list" where
  "active_bindings_for_node s node =
     concat (map (\<lambda>(goal_id, n, mode).
       if n \<noteq> node then []
       else case get_goal s goal_id of
         None \<Rightarrow> []
       | Some g \<Rightarrow> if g_status g = GoalActive then [\<lparr>ab_goal = g, ab_mode = mode\<rparr>] else []) (s_artifacts s))"

record governing_clauses =
  gc_forbid :: "(string \<times> goal) list"
  gc_in_scope :: "(string \<times> goal) list"
  gc_other :: "(string \<times> goal) list"
  gc_workflow :: "(string \<times> goal) list"
  gc_relied_on_coverage :: "string list"

definition no_clauses :: governing_clauses where
  "no_clauses = \<lparr>gc_forbid = [], gc_in_scope = [], gc_other = [], gc_workflow = [], gc_relied_on_coverage = []\<rparr>"

definition classify_binding ::
  "string option \<Rightarrow> string list \<Rightarrow> string \<Rightarrow> governing_clauses \<Rightarrow> artifact_binding \<Rightarrow> governing_clauses" where
  "classify_binding task_slug covered node r b =
     (let g = ab_goal b in
      if ab_mode b = ForbidChange then r\<lparr>gc_forbid := gc_forbid r @ [(node, g)]\<rparr>
      else if task_slug = Some (g_slug g) then r\<lparr>gc_in_scope := gc_in_scope r @ [(node, g)]\<rparr>
      else if \<exists>c \<in> set covered. goal_slug c = g_slug g
      then r\<lparr>gc_relied_on_coverage := gc_relied_on_coverage r @ [g_id g], gc_in_scope := gc_in_scope r @ [(node, g)]\<rparr>
      else if is_documentation_node node then r
      else r\<lparr>gc_other := gc_other r @ [(node, g)]\<rparr>)"

definition resolve_governing_clauses_covering ::
  "ledger \<Rightarrow> string list \<Rightarrow> string option \<Rightarrow> string list \<Rightarrow> governing_clauses" where
  "resolve_governing_clauses_covering s node_ids task_goal_id covered =
     (let r = foldl (\<lambda>r node. foldl (classify_binding (map_option goal_slug task_goal_id) covered node) r
                (active_bindings_for_node s node)) no_clauses node_ids
      in r\<lparr>gc_relied_on_coverage := sort_dedup (gc_relied_on_coverage r)\<rparr>)"

definition resolve_governing_clauses :: "ledger \<Rightarrow> string list \<Rightarrow> string option \<Rightarrow> governing_clauses" where
  "resolve_governing_clauses s node_ids task_goal_id =
     resolve_governing_clauses_covering s node_ids task_goal_id []"

definition goals_by_status :: "ledger \<Rightarrow> goal_status \<Rightarrow> goal list" where
  "goals_by_status s status =
     sort_key (\<lambda>g. goal_kind_as_str (g_kind g)) (sort_key g_created_at (filter (\<lambda>g. g_status g = status) (s_goals s)))"

definition resolve_workflow_clauses :: "ledger \<Rightarrow> string list \<Rightarrow> (string \<times> goal) list" where
  "resolve_workflow_clauses s scopes =
     (if scopes = [] then []
      else List.map_filter (\<lambda>g.
        case g_scope g of
          None \<Rightarrow> None
        | Some declared \<Rightarrow>
            if \<not> is_workflow declared then None
            else map_option (\<lambda>intended. (intended, g)) (find (workflow_governs declared) scopes))
        (goals_by_status s GoalActive))"

record governing_clause =
  cl_node_id :: string
  cl_goal :: goal
  cl_mode :: binding_mode

definition clauses :: "governing_clauses \<Rightarrow> governing_clause list" where
  "clauses r =
     map (\<lambda>(n, g). \<lparr>cl_node_id = n, cl_goal = g, cl_mode = ForbidChange\<rparr>) (gc_forbid r) @
     map (\<lambda>(n, g). \<lparr>cl_node_id = n, cl_goal = g, cl_mode = Governed\<rparr>) (gc_in_scope r @ gc_other r) @
     map (\<lambda>(n, g). \<lparr>cl_node_id = n, cl_goal = g, cl_mode = Governed\<rparr>) (gc_workflow r)"

subsection \<open>Evidence\<close>

definition MAX_EVIDENCE_EVENTS :: nat where
  "MAX_EVIDENCE_EVENTS = 200"

definition MAX_EVIDENCE_PROVENANCE :: nat where
  "MAX_EVIDENCE_PROVENANCE = 1000"

definition MAX_EVIDENCE_SUMMARY_BYTES :: nat where
  "MAX_EVIDENCE_SUMMARY_BYTES = 4096"

definition observed_event :: "conformance_evidence \<Rightarrow> string \<Rightarrow> bool" where
  "observed_event ev event_id \<longleftrightarrow>
     (\<exists>f \<in> set (ev_provenance ev). ep_source_id f = ''agent:'' @ ev_agent_id ev \<and>
        ep_target_id f = event_id \<and> ep_relation f = ''observed'')"

definition proven_change :: "conformance_evidence \<Rightarrow> string \<Rightarrow> bool" where
  "proven_change ev node \<longleftrightarrow>
     (\<exists>f \<in> set (ev_provenance ev). ep_target_id f = node \<and> ep_relation f \<in> {''modified'', ''refactored''} \<and>
        (ep_source_id f \<in> set (ev_execution_ids ev) \<or> ep_source_id f \<in> set (ev_commit_ids ev)))"

definition proven_failure :: "conformance_evidence \<Rightarrow> string \<Rightarrow> bool" where
  "proven_failure ev node \<longleftrightarrow>
     (\<exists>f \<in> set (ev_provenance ev). ep_target_id f = node \<and> ep_relation f = ''failed_on'' \<and>
        ep_source_id f \<in> set (ev_execution_ids ev))"

definition validate_evidence_shape :: "conformance_evidence \<Rightarrow> unit res" where
  "validate_evidence_shape ev =
     (if ev_schema_version ev \<noteq> 1 then Inl (Invalid (Evidence (EvidenceSchema (ev_schema_version ev))))
      else if ev_ended_at ev < ev_started_at ev then Inl (Invalid (Evidence EvidenceOrder))
      else if blank (ev_agent_id ev) then Inl (Invalid (Evidence EvidenceAgent))
      else if MAX_EVIDENCE_EVENTS < length (ev_execution_ids ev) \<or>
              MAX_EVIDENCE_EVENTS < length (ev_commit_ids ev) \<or>
              MAX_EVIDENCE_PROVENANCE < length (ev_provenance ev) \<or>
              MAX_EVIDENCE_SUMMARY_BYTES < length (ev_summary ev)
      then Inl (Invalid (Evidence EvidenceBounds))
      else if \<not> set (ev_successful_execution_ids ev) \<subseteq> set (ev_execution_ids ev)
      then Inl (Invalid (Evidence EvidenceExecutions))
      else case find (\<lambda>e. \<not> observed_event ev e) (ev_execution_ids ev @ ev_commit_ids ev) of
        Some e \<Rightarrow> Inl (Invalid (Evidence (UnobservedEvent e)))
      | None \<Rightarrow>
          (case find (\<lambda>n. \<not> proven_change ev n) (ev_changed_node_ids ev) of
             Some n \<Rightarrow> Inl (Invalid (Evidence (UnprovenChange n)))
           | None \<Rightarrow>
               (case find (\<lambda>n. \<not> proven_failure ev n) (ev_failed_node_ids ev) of
                  Some n \<Rightarrow> Inl (Invalid (Evidence (UnprovenFailure n)))
                | None \<Rightarrow> Inr ())))"

definition claim_evidence_refusal :: "task \<Rightarrow> string \<Rightarrow> conformance_evidence \<Rightarrow> int \<Rightarrow> int res" where
  "claim_evidence_refusal t agent ev now =
     (if ev_task_id ev \<noteq> Some (t_id t) then Inl (Invalid (Evidence EvidenceTask))
      else if ev_agent_id ev \<noteq> agent \<or> t_owner t \<noteq> Some agent then Inl (Invalid (Evidence EvidenceOwner))
      else if t_status t \<noteq> Claimed \<or> (case t_lease_expires_at t of Some e \<Rightarrow> e < now | None \<Rightarrow> True)
      then Inl (Invalid (Evidence NoLiveTaskClaim))
      else case t_claim_started_at t of
        None \<Rightarrow> Inl (Invalid (Evidence NoWindowStart))
      | Some started \<Rightarrow> Inr started)"

definition validate_claim_evidence ::
  "ledger \<Rightarrow> task \<Rightarrow> string \<Rightarrow> conformance_evidence \<Rightarrow> int \<Rightarrow> unit res option" where
  "validate_claim_evidence s t agent ev now =
     (case and_then (validate_evidence_shape ev) (\<lambda>_. claim_evidence_refusal t agent ev now) of
        Inl e \<Rightarrow> Some (Inl e)
      | Inr claim_started_at \<Rightarrow>
          map_option (\<lambda>start.
            if ev_started_at ev < min (case start of None \<Rightarrow> claim_started_at | Some x \<Rightarrow> x) claim_started_at \<or>
               now < ev_ended_at ev \<or>
               (case t_lease_expires_at t of None \<Rightarrow> ev_ended_at ev | Some e \<Rightarrow> e) < ev_ended_at ev
            then Inl (Invalid (Evidence OutsideClaim)) else Inr ())
          (authorising_window_start s (t_id t) agent))"

subsection \<open>The verdict\<close>

record conformance_result =
  res_verdict :: verdict
  res_findings :: "string list"

type_synonym judge = "string \<Rightarrow> string \<Rightarrow> (string \<times> string) option"

text \<open>A stage of the evaluation returns early with a result, or goes on with the findings so far.\<close>

definition check_forbid :: "policy \<Rightarrow> governing_clauses \<Rightarrow> int \<Rightarrow> conformance_result + string list" where
  "check_forbid pol gov now =
     (case gc_forbid gov of
        [] \<Rightarrow> Inr []
      | (node, goal) # _ \<Rightarrow>
          (case excusing_waiver (p_waivers pol) goal node now of
             Some w \<Rightarrow> Inr [g_id goal @ '' forbids changes to '' @ node @ '', waived by '' @ wv_approved_by w @
                          '' until '' @ show_int (wv_expires_at w) @ '' ('' @ wv_id w @ '')'']
           | None \<Rightarrow>
               let resolved = resolve_with_declared (Some Block) (forbid_change_control (g_id goal))
                     (forbid_change_observation (g_id goal) node now)
               in Inl \<lparr>res_verdict = (if r_effective resolved = Block then Violation else NeedsHuman),
                       res_findings = [g_id goal @ '' forbids changes to '' @ node, r_finding resolved]\<rparr>))"

definition drift_findings :: "policy \<Rightarrow> (string \<times> goal) list \<Rightarrow> int \<Rightarrow> string list" where
  "drift_findings pol other now =
     List.map_filter (\<lambda>(node, goal).
       case excusing_waiver (p_waivers pol) goal node now of
         Some w \<Rightarrow> Some (g_id goal @ '' governs '' @ node @ '' without a covering task, waived by '' @
                     wv_approved_by w @ '' until '' @ show_int (wv_expires_at w) @ '' ('' @ wv_id w @ '')'')
       | None \<Rightarrow> None) other"

definition unwaived :: "policy \<Rightarrow> (string \<times> goal) list \<Rightarrow> int \<Rightarrow> string list" where
  "unwaived pol other now =
     sort_dedup (map (\<lambda>(node, goal). g_id goal)
       (filter (\<lambda>(node, goal). excusing_waiver (p_waivers pol) goal node now = None) other))"

definition check_drift ::
  "policy \<Rightarrow> governing_clauses \<Rightarrow> int \<Rightarrow> string list \<Rightarrow> conformance_result + string list" where
  "check_drift pol gov now findings =
     (let findings = findings @ drift_findings pol (gc_other gov) now in
      if unwaived pol (gc_other gov) now \<noteq> []
      then Inl \<lparr>res_verdict = Drift, res_findings = findings @
             [''governed code changed without a covering task: '' @ join_with '', '' (unwaived pol (gc_other gov) now)]\<rparr>
      else Inr findings)"

definition check_semantics ::
  "judge \<Rightarrow> goal \<Rightarrow> conformance_evidence \<Rightarrow> string list \<Rightarrow> conformance_result + string list" where
  "check_semantics judge goal ev findings =
     (if \<not> is_normative (g_kind goal) then Inr findings
      else case judge (g_statement goal) (ev_summary ev) of
        None \<Rightarrow> Inl \<lparr>res_verdict = NeedsHuman, res_findings = findings @ [''semantic check unavailable'']\<rparr>
      | Some (v, rationale) \<Rightarrow>
          if v = ''aligned'' then Inr (findings @ [''semantic check aligned: '' @ rationale])
          else if v = ''violation''
          then Inl \<lparr>res_verdict = Violation, res_findings = findings @ [''semantic check found a violation: '' @ rationale]\<rparr>
          else Inl \<lparr>res_verdict = NeedsHuman,
                    res_findings = findings @ [''semantic check needs human review: '' @ rationale]\<rparr>)"

definition conclude :: "ledger \<Rightarrow> task \<Rightarrow> governing_clauses \<Rightarrow> string list \<Rightarrow> conformance_result" where
  "conclude s t gov findings =
     (let findings = findings @
            (if gc_in_scope gov \<noteq> [] then [''evidence covers task goal '' @ t_goal_id t] else []);
          window = claim_window_on s (t_id t)
      in if \<not> is_continuous window
         then \<lparr>res_verdict = NeedsHuman, res_findings = findings @
                [''evidence window is discontinuous: the lease lapsed '' @ show_int (cw_lapses window) @
                 '' time(s), leaving '' @ show_int (cw_unleased_seconds window) @ ''s unleased, which a human confirms'']\<rparr>
         else if gc_relied_on_coverage gov \<noteq> []
         then \<lparr>res_verdict = NeedsHuman, res_findings = findings @
                [''in scope via declared coverage, which a human confirms: '' @
                 join_with '', '' (gc_relied_on_coverage gov)]\<rparr>
         else \<lparr>res_verdict = Aligned, res_findings = findings\<rparr>)"

definition governing_for :: "ledger \<Rightarrow> conformance_evidence \<Rightarrow> task option \<Rightarrow> governing_clauses" where
  "governing_for s ev task =
     resolve_governing_clauses_covering s (ev_changed_node_ids ev) (map_option t_goal_id task)
       (case task of None \<Rightarrow> [] | Some t \<Rightarrow> goal_coverage_on s (t_id t))"

definition evaluate_base_conformance ::
  "judge \<Rightarrow> ledger \<Rightarrow> policy \<Rightarrow> conformance_evidence \<Rightarrow> task option \<Rightarrow> int \<Rightarrow> conformance_result res" where
  "evaluate_base_conformance judge s pol ev task now =
     (if ev_changed_node_ids ev = [] \<and> ev_ledger_act_ids ev = [] \<or> ev_provenance ev = []
      then Inr \<lparr>res_verdict = NeedsHuman, res_findings = [''evidence contains no provenance-bearing mutation'']\<rparr>
      else let gov = governing_for s ev task in
        case and_then (check_forbid pol gov now) (check_drift pol gov now) of
          Inl r \<Rightarrow> Inr r
        | Inr findings \<Rightarrow>
            (case task of
               None \<Rightarrow> Inr \<lparr>res_verdict = Aligned, res_findings = findings @ [''no governed code touched'']\<rparr>
             | Some t \<Rightarrow>
                 let findings = findings @
                   (if gc_in_scope gov = [] then [''evidence does not touch code bound to the task goal''] else []) in
                 (case get_goal s (t_goal_id t) of
                    None \<Rightarrow> Inl (NotFound (t_goal_id t))
                  | Some goal \<Rightarrow>
                      (case check_semantics judge goal ev findings of
                         Inl r \<Rightarrow> Inr r
                       | Inr findings \<Rightarrow> Inr (conclude s t gov findings)))))"

definition GOAL_ADVISORY_LIMIT :: nat where
  "GOAL_ADVISORY_LIMIT = 3"

definition lesson_serves :: "(string \<Rightarrow> json option) \<Rightarrow> ledger \<Rightarrow> knowledge \<Rightarrow> task option \<Rightarrow> bool" where
  "lesson_serves parse s k task =
     (case task of
        None \<Rightarrow> False
      | Some t \<Rightarrow>
          (case declared_goal_in parse (k_evidence k) of
             Some goal \<Rightarrow> goal_slug goal = goal_slug (t_goal_id t)
           | None \<Rightarrow> \<exists>i \<in> set (referenced_tasks_in (k_evidence k)).
               (case get_task s i of None \<Rightarrow> False | Some origin \<Rightarrow> goal_slug (t_goal_id origin) = goal_slug (t_goal_id t))))"

definition em_dash :: string where
  "em_dash = [CHR 0xE2, CHR 0x80, CHR 0x94]"

definition apply_knowledge_advisory ::
  "(string \<Rightarrow> json option) \<Rightarrow> ledger \<Rightarrow> policy \<Rightarrow> conformance_evidence \<Rightarrow> task option \<Rightarrow> int \<Rightarrow>
   conformance_result \<Rightarrow> conformance_result" where
  "apply_knowledge_advisory parse s pol ev task now r =
     (let active = active_knowledge (p_lessons pol) now;
          nodes = (\<lambda>k. referenced_nodes_in parse (k_evidence k));
          by_node = filter (\<lambda>k. nodes k \<noteq> [] \<and> set (nodes k) \<inter> set (ev_changed_node_ids ev) \<noteq> {}) active;
          by_goal = take GOAL_ADVISORY_LIMIT (filter (\<lambda>k. nodes k = [] \<and> lesson_serves parse s k task) active)
      in r\<lparr>res_findings := res_findings r @
           map (\<lambda>k. ''advisory: learned knowledge '' @ k_id k @ '' '' @ em_dash @ '' '' @ k_statement k) by_node @
           map (\<lambda>k. ''advisory: learned under this goal '' @ k_id k @ '' '' @ em_dash @ '' '' @ k_statement k) by_goal\<rparr>)"

definition evaluate_conformance ::
  "judge \<Rightarrow> (string \<Rightarrow> json option) \<Rightarrow> ledger \<Rightarrow> policy \<Rightarrow> conformance_evidence \<Rightarrow> task option \<Rightarrow> int \<Rightarrow>
   conformance_result res" where
  "evaluate_conformance judge parse s pol ev task now =
     and_then (evaluate_base_conformance judge s pol ev task now) (\<lambda>r.
       Inr (apply_knowledge_advisory parse s pol ev task now r))"

subsection \<open>What a verdict rests on\<close>

text \<open>The buckets of the resolution, without the loop: the bindings of each kind in the order of the nodes.\<close>

definition bucket :: "ledger \<Rightarrow> (string \<Rightarrow> artifact_binding \<Rightarrow> bool) \<Rightarrow> string list \<Rightarrow> (string \<times> goal) list" where
  "bucket s P nodes =
     concat (map (\<lambda>n. map (\<lambda>b. (n, ab_goal b)) (filter (P n) (active_bindings_for_node s n))) nodes)"

definition locked :: "string \<Rightarrow> artifact_binding \<Rightarrow> bool" where
  "locked n b \<longleftrightarrow> ab_mode b = ForbidChange"

definition serves :: "string option \<Rightarrow> string list \<Rightarrow> string \<Rightarrow> artifact_binding \<Rightarrow> bool" where
  "serves task_goal covered n b \<longleftrightarrow>
     ab_mode b = Governed \<and>
     (map_option goal_slug task_goal = Some (g_slug (ab_goal b)) \<or> (\<exists>c \<in> set covered. goal_slug c = g_slug (ab_goal b)))"

definition drifts :: "string option \<Rightarrow> string list \<Rightarrow> string \<Rightarrow> artifact_binding \<Rightarrow> bool" where
  "drifts task_goal covered n b \<longleftrightarrow>
     ab_mode b = Governed \<and> \<not> serves task_goal covered n b \<and> \<not> is_documentation_node n"

lemma classify_fold:
  "let r' = foldl (classify_binding (map_option goal_slug tg) covered n) r bs in
   gc_forbid r' = gc_forbid r @ map (\<lambda>b. (n, ab_goal b)) (filter (locked n) bs) \<and>
   gc_in_scope r' = gc_in_scope r @ map (\<lambda>b. (n, ab_goal b)) (filter (serves tg covered n) bs) \<and>
   gc_other r' = gc_other r @ map (\<lambda>b. (n, ab_goal b)) (filter (drifts tg covered n) bs)"
proof (induction bs arbitrary: r)
  case (Cons b bs)
  have m: "ab_mode b \<noteq> ForbidChange \<longleftrightarrow> ab_mode b = Governed" by (cases "ab_mode b") simp_all
  show ?case
    using Cons.IH [of "classify_binding (map_option goal_slug tg) covered n r b"] m
    by (auto simp: classify_binding_def locked_def serves_def drifts_def Let_def)
qed simp

lemma resolve_buckets:
  shows "gc_forbid (resolve_governing_clauses_covering s nodes tg covered) = bucket s locked nodes"
    and "gc_in_scope (resolve_governing_clauses_covering s nodes tg covered) = bucket s (serves tg covered) nodes"
    and "gc_other (resolve_governing_clauses_covering s nodes tg covered) = bucket s (drifts tg covered) nodes"
proof -
  have "gc_forbid (foldl (\<lambda>r node. foldl (classify_binding (map_option goal_slug tg) covered node) r
            (active_bindings_for_node s node)) r nodes) = gc_forbid r @ bucket s locked nodes \<and>
        gc_in_scope (foldl (\<lambda>r node. foldl (classify_binding (map_option goal_slug tg) covered node) r
            (active_bindings_for_node s node)) r nodes) = gc_in_scope r @ bucket s (serves tg covered) nodes \<and>
        gc_other (foldl (\<lambda>r node. foldl (classify_binding (map_option goal_slug tg) covered node) r
            (active_bindings_for_node s node)) r nodes) = gc_other r @ bucket s (drifts tg covered) nodes" for r
  proof (induction nodes arbitrary: r)
    case (Cons n nodes)
    from classify_fold [of tg covered n r "active_bindings_for_node s n"] Cons.IH show ?case
      by (simp add: bucket_def Let_def)
  qed (simp add: bucket_def)
  from this [of no_clauses]
  show "gc_forbid (resolve_governing_clauses_covering s nodes tg covered) = bucket s locked nodes"
    and "gc_in_scope (resolve_governing_clauses_covering s nodes tg covered) = bucket s (serves tg covered) nodes"
    and "gc_other (resolve_governing_clauses_covering s nodes tg covered) = bucket s (drifts tg covered) nodes"
    by (simp_all add: resolve_governing_clauses_covering_def Let_def no_clauses_def)
qed

lemma unwaived_Nil: "unwaived pol other now = [] \<longleftrightarrow> (\<forall>(n, g) \<in> set other. excusing_waiver (p_waivers pol) g n now \<noteq> None)"
proof -
  have "sort_dedup xs = [] \<longleftrightarrow> xs = []" for xs :: "string list"
    by (metis empty_set set_empty set_sort_dedup)
  then show ?thesis by (auto simp: unwaived_def filter_empty_conv)
qed

lemma forbid_stage:
  "check_forbid pol gov now = Inl r \<Longrightarrow> res_verdict r = Violation"
  "(\<exists>f. check_forbid pol gov now = Inr f) \<longleftrightarrow>
     (\<forall>n g rest. gc_forbid gov = (n, g) # rest \<longrightarrow> excusing_waiver (p_waivers pol) g n now \<noteq> None)"
proof -
  have "r_effective (resolve_with_declared (Some Block) (forbid_change_control i) (forbid_change_observation i n t)) = Block" for i n t
    by (simp add: effective_cases forbid_change_control_def forbid_change_observation_def)
  then show "check_forbid pol gov now = Inl r \<Longrightarrow> res_verdict r = Violation"
    by (auto simp: check_forbid_def Let_def split: list.splits option.splits)
  show "(\<exists>f. check_forbid pol gov now = Inr f) \<longleftrightarrow>
     (\<forall>n g rest. gc_forbid gov = (n, g) # rest \<longrightarrow> excusing_waiver (p_waivers pol) g n now \<noteq> None)"
    by (auto simp: check_forbid_def Let_def split: list.splits option.splits)
qed

lemma stages_pass:
  "(\<exists>f. and_then (check_forbid pol gov now) (check_drift pol gov now) = Inr f) \<longleftrightarrow>
     (\<forall>n g rest. gc_forbid gov = (n, g) # rest \<longrightarrow> excusing_waiver (p_waivers pol) g n now \<noteq> None) \<and>
     (\<forall>(n, g) \<in> set (gc_other gov). excusing_waiver (p_waivers pol) g n now \<noteq> None)"
  "and_then (check_forbid pol gov now) (check_drift pol gov now) = Inl r \<Longrightarrow> res_verdict r \<in> {Violation, Drift}"
proof -
  have d: "(\<exists>g. check_drift pol gov now f = Inr g) \<longleftrightarrow> unwaived pol (gc_other gov) now = []" for f
    by (auto simp: check_drift_def Let_def)
  have "(\<exists>f. and_then (check_forbid pol gov now) (check_drift pol gov now) = Inr f) \<longleftrightarrow>
     (\<exists>f. check_forbid pol gov now = Inr f) \<and> unwaived pol (gc_other gov) now = []"
    unfolding and_then_Inr using d by blast
  then show "(\<exists>f. and_then (check_forbid pol gov now) (check_drift pol gov now) = Inr f) \<longleftrightarrow>
     (\<forall>n g rest. gc_forbid gov = (n, g) # rest \<longrightarrow> excusing_waiver (p_waivers pol) g n now \<noteq> None) \<and>
     (\<forall>(n, g) \<in> set (gc_other gov). excusing_waiver (p_waivers pol) g n now \<noteq> None)"
    unfolding forbid_stage(2) unwaived_Nil .
  show "res_verdict r \<in> {Violation, Drift}"
    if "and_then (check_forbid pol gov now) (check_drift pol gov now) = Inl r"
    using that forbid_stage(1) [of pol gov now]
    by (cases "check_forbid pol gov now") (auto simp: check_drift_def Let_def split: if_splits)
qed

lemma conclude_aligned:
  "res_verdict (conclude s t gov f) = Aligned \<longleftrightarrow>
     is_continuous (claim_window_on s (t_id t)) \<and> gc_relied_on_coverage gov = []"
  by (simp add: conclude_def Let_def)

lemma semantics_pass:
  "(\<exists>f'. check_semantics judge g ev f = Inr f') \<longleftrightarrow>
     (is_normative (g_kind g) \<longrightarrow> (\<exists>why. judge (g_statement g) (ev_summary ev) = Some (''aligned'', why)))"
  "check_semantics judge g ev f = Inl r \<Longrightarrow> res_verdict r \<noteq> Aligned"
  by (auto simp: check_semantics_def split: option.splits if_splits)

text \<open>
  C6. What an aligned verdict rests on. Evidence is judged aligned exactly when it has provenance
  and a change or a ledger act; the first locked node it changes, if any, is under a live
  waiver; every changed node that another goal governs is under a live waiver too; and, for a
  task, its goal exists, the semantic judge found a normative goal respected, the lease never
  lapsed during the claim, and no changed node was in scope only by declared coverage.
\<close>

theorem aligned_rests_on:
  assumes "evaluate_base_conformance judge s pol ev task now = Inr r"
    and "gov = governing_for s ev task"
    and "covered = (case task of None \<Rightarrow> [] | Some t \<Rightarrow> goal_coverage_on s (t_id t))"
  shows "res_verdict r = Aligned \<longleftrightarrow>
    (ev_changed_node_ids ev \<noteq> [] \<or> ev_ledger_act_ids ev \<noteq> []) \<and> ev_provenance ev \<noteq> [] \<and>
    (\<forall>n g rest. bucket s locked (ev_changed_node_ids ev) = (n, g) # rest \<longrightarrow>
       excusing_waiver (p_waivers pol) g n now \<noteq> None) \<and>
    (\<forall>(n, g) \<in> set (bucket s (drifts (map_option t_goal_id task) covered) (ev_changed_node_ids ev)).
       excusing_waiver (p_waivers pol) g n now \<noteq> None) \<and>
    (\<forall>t. task = Some t \<longrightarrow>
       (\<exists>goal. get_goal s (t_goal_id t) = Some goal \<and>
          (is_normative (g_kind goal) \<longrightarrow> (\<exists>why. judge (g_statement goal) (ev_summary ev) = Some (''aligned'', why)))) \<and>
       is_continuous (claim_window_on s (t_id t)) \<and> gc_relied_on_coverage gov = [])"
proof -
  have b: "gc_forbid gov = bucket s locked (ev_changed_node_ids ev)"
    "gc_other gov = bucket s (drifts (map_option t_goal_id task) covered) (ev_changed_node_ids ev)"
    by (simp_all add: assms(2,3) governing_for_def resolve_buckets)
  note run = assms(1) [unfolded evaluate_base_conformance_def Let_def, folded assms(2)]
  show ?thesis
  proof (cases "ev_changed_node_ids ev = [] \<and> ev_ledger_act_ids ev = [] \<or> ev_provenance ev = []")
    case True
    then show ?thesis using run by auto
  next
    case ev: False
    show ?thesis
    proof (cases "and_then (check_forbid pol gov now) (check_drift pol gov now)")
      case (Inl r')
      then have "r = r'" using run ev by (auto split: if_splits)
      moreover have "\<not> (\<exists>f. and_then (check_forbid pol gov now) (check_drift pol gov now) = Inr f)"
        using Inl by simp
      ultimately show ?thesis
        using stages_pass(2) [OF Inl] unfolding stages_pass(1) b by auto
    next
      case (Inr f)
      have pass: "(\<forall>n g rest. bucket s locked (ev_changed_node_ids ev) = (n, g) # rest \<longrightarrow>
           excusing_waiver (p_waivers pol) g n now \<noteq> None) \<and>
         (\<forall>(n, g) \<in> set (bucket s (drifts (map_option t_goal_id task) covered) (ev_changed_node_ids ev)).
           excusing_waiver (p_waivers pol) g n now \<noteq> None)"
        using Inr stages_pass(1) [of pol gov now] b by auto
      show ?thesis
      proof (cases task)
        case None
        then show ?thesis using run ev Inr pass by (auto split: if_splits)
      next
        case (Some t)
        let ?f = "f @ (if gc_in_scope gov = [] then [''evidence does not touch code bound to the task goal''] else [])"
        obtain goal where g: "get_goal s (t_goal_id t) = Some goal"
          and r: "(case check_semantics judge goal ev ?f of Inl r \<Rightarrow> r | Inr f \<Rightarrow> conclude s t gov f) = r"
          using run ev Inr Some by (auto split: if_splits option.splits sum.splits)
        show ?thesis
        proof (cases "check_semantics judge goal ev ?f")
          case sem: (Inl r')
          then have "\<not> (\<exists>f'. check_semantics judge goal ev ?f = Inr f')" by simp
          then show ?thesis
            using semantics_pass(2) [OF sem] r sem g Some unfolding semantics_pass(1) by auto
        next
          case sem: (Inr f')
          then have "\<exists>f'. check_semantics judge goal ev ?f = Inr f'" by simp
          then show ?thesis
            using r sem g Some ev pass conclude_aligned unfolding semantics_pass(1) by auto
        qed
      qed
    qed
  qed
qed

text \<open>
  Knowledge informs and never decides. The advisory keeps the verdict of the base evaluation and
  its findings in front, and adds at most three lessons by goal.
\<close>

theorem knowledge_only_informs:
  assumes "evaluate_conformance judge parse s pol ev task now = Inr r"
  shows "\<exists>r0 advice. evaluate_base_conformance judge s pol ev task now = Inr r0 \<and>
    res_verdict r = res_verdict r0 \<and> res_findings r = res_findings r0 @ advice \<and>
    length advice \<le> length (filter (\<lambda>k. referenced_nodes_in parse (k_evidence k) \<noteq> [])
      (active_knowledge (p_lessons pol) now)) + 3"
proof -
  obtain r0 where r0: "evaluate_base_conformance judge s pol ev task now = Inr r0"
    and r: "r = apply_knowledge_advisory parse s pol ev task now r0"
    using assms by (auto simp: evaluate_conformance_def and_then_Inr)
  have le: "length (filter (\<lambda>x. P x \<and> Q x) xs) \<le> length (filter P xs)" for P Q :: "knowledge \<Rightarrow> bool" and xs
    by (induction xs) auto
  show ?thesis
    using r0 le [of "\<lambda>k. referenced_nodes_in parse (k_evidence k) \<noteq> []"]
    by (auto simp: r apply_knowledge_advisory_def Let_def GOAL_ADVISORY_LIMIT_def intro!: add_mono)
qed

subsection \<open>A second lock\<close>

definition sample_change :: "string list \<Rightarrow> conformance_evidence" where
  "sample_change nodes =
     \<lparr>ev_schema_version = 1, ev_task_id = None, ev_agent_id = ''x'', ev_started_at = 1, ev_ended_at = 4,
      ev_changed_node_ids = nodes, ev_failed_node_ids = [], ev_execution_ids = [], ev_successful_execution_ids = [],
      ev_commit_ids = [''c''], ev_ledger_act_ids = [], ev_summary = ''s'',
      ev_provenance = \<lparr>ep_source_id = ''agent:x'', ep_target_id = ''c'', ep_relation = ''observed''\<rparr> #
        map (\<lambda>n. \<lparr>ep_source_id = ''c'', ep_target_id = n, ep_relation = ''modified''\<rparr>) nodes\<rparr>"

definition sample_locks :: ledger where
  "sample_locks = empty_ledger\<lparr>
     s_goals := [sample_clause ''goal:g'' ''g'', sample_clause ''goal:h'' ''h''],
     s_artifacts := [(''goal:g'', ''artifact:a'', ForbidChange), (''goal:h'', ''artifact:b'', ForbidChange)]\<rparr>"

definition sample_exception :: policy where
  "sample_exception =
     \<lparr>p_waivers = (case store_grant_waiver sample_locks [] ''w'' sample_request 2 [] of Inr (_, tbl) \<Rightarrow> tbl | Inl _ \<Rightarrow> []),
      p_controls = [], p_versions = [], p_lessons = \<lparr>kn_rows = [], kn_sources = []\<rparr>\<rparr>"

text \<open>
  Only the first lock is examined. Two nodes are locked by two clauses and only the lock on the
  first is waived. A change to both is aligned when the waived node comes first in the evidence
  and a violation when it comes last, although the same lock stands without a waiver.
\<close>

theorem second_lock_is_ignored:
  "excusing_waiver (p_waivers sample_exception) (sample_clause ''goal:h'' ''h'') ''artifact:b'' 5 = None \<and>
   validate_evidence_shape (sample_change [''artifact:a'', ''artifact:b'']) = Inr () \<and>
   (\<exists>r. evaluate_base_conformance judge sample_locks sample_exception
          (sample_change [''artifact:a'', ''artifact:b'']) None 5 = Inr r \<and> res_verdict r = Aligned) \<and>
   (\<exists>r. evaluate_base_conformance judge sample_locks sample_exception
          (sample_change [''artifact:b'', ''artifact:a'']) None 5 = Inr r \<and> res_verdict r = Violation)"
proof -
  let ?v = "\<lambda>nodes v. case evaluate_base_conformance (\<lambda>_ _. None) sample_locks sample_exception (sample_change nodes) None 5 of
      Inl _ \<Rightarrow> False | Inr r \<Rightarrow> res_verdict r = v"
  have judge: "evaluate_base_conformance judge s pol ev None now = evaluate_base_conformance (\<lambda>_ _. None) s pol ev None now"
    for s pol ev now by (auto simp: evaluate_base_conformance_def Let_def split: sum.splits)
  have 1: "excusing_waiver (p_waivers sample_exception) (sample_clause ''goal:h'' ''h'') ''artifact:b'' 5 = None"
    by code_simp
  have 2: "validate_evidence_shape (sample_change [''artifact:a'', ''artifact:b'']) = Inr ()"
    by code_simp
  have 3: "?v [''artifact:a'', ''artifact:b''] Aligned" by code_simp
  have 4: "?v [''artifact:b'', ''artifact:a''] Violation" by code_simp
  show ?thesis
    unfolding judge using 1 2 3 4 by (auto split: sum.splits)
qed

subsection \<open>The token\<close>

record rendering =
  h_sha256 :: "string \<Rightarrow> string"
  h_goal :: "goal \<Rightarrow> string"
  h_knowledge :: "knowledge \<Rightarrow> string"
  h_evidence :: "conformance_evidence \<Rightarrow> string"
  h_findings :: "string list \<Rightarrow> string"

definition le_bytes :: "int \<Rightarrow> string" where
  "le_bytes i = map (\<lambda>k. char_of (nat (i div 256 ^ k mod 256))) [0..<8]"

record conformance_check =
  ck_id :: int
  ck_token :: string
  ck_verdict :: verdict
  ck_findings :: "string list"

definition claim_basis :: "rendering \<Rightarrow> ledger \<Rightarrow> task option \<Rightarrow> string list res" where
  "claim_basis h s task =
     (case task of
        None \<Rightarrow> Inr []
      | Some t \<Rightarrow>
          (case get_goal s (t_goal_id t) of
             None \<Rightarrow> Inl (NotFound (t_goal_id t))
           | Some goal \<Rightarrow>
               Inr [''claim:'' @ t_id t @ '':'' @ t_goal_id t @ '':'' @
                      (case t_owner t of None \<Rightarrow> [] | Some w \<Rightarrow> w) @ '':'' @
                      show_int (case t_claim_started_at t of None \<Rightarrow> 0 | Some c \<Rightarrow> c) @ '':'' @
                      show_int (cw_lapses (claim_window_on s (t_id t))),
                    ''task-goal:'' @ h_goal h goal]))"

definition clause_basis :: "policy \<Rightarrow> string \<Rightarrow> string list" where
  "clause_basis pol clause_id =
     map (\<lambda>c. ''control:'' @ c_id c @ '':'' @ c_clause_id c @ '':'' @ show_int (c_version c) @ '':'' @ power_as_str (c_power c))
       (controls_for_clause (p_controls pol) clause_id) @
     map (\<lambda>w. ''waiver:'' @ wv_id w @ '':'' @ wv_clause_id w @ '':'' @ wv_scope w @ '':'' @
          waiver_status_as_str (wv_status w) @ '':'' @ show_int (wv_expires_at w))
       (waivers_for_clause (p_waivers pol) clause_id)"

definition token_basis ::
  "rendering \<Rightarrow> (string \<Rightarrow> json option) \<Rightarrow> ledger \<Rightarrow> policy \<Rightarrow> conformance_evidence \<Rightarrow> task option \<Rightarrow> int \<Rightarrow> string list res" where
  "token_basis h parse s pol ev task now =
     and_then (claim_basis h s task) (\<lambda>claim.
       let nodes = sort_dedup (ev_changed_node_ids ev);
           bindings = concat (map (\<lambda>n. map (\<lambda>b. ''binding:'' @ n @ '':'' @ binding_mode_as_str (ab_mode b) @ '':'' @
                        h_goal h (ab_goal b)) (active_bindings_for_node s n)) nodes);
           knowledge = map (\<lambda>k. ''knowledge:'' @ h_knowledge h k)
             (filter (\<lambda>k. set (referenced_nodes_in parse (k_evidence k)) \<inter> set nodes \<noteq> {})
               (active_knowledge (p_lessons pol) now));
           constitution = (case active_constitution_version (p_versions pol) of
               None \<Rightarrow> [] | Some v \<Rightarrow> [''constitution:'' @ v_id v @ '':'' @ show_int (v_version v)]);
           clause_ids = sort_dedup (concat (map (\<lambda>n. map (\<lambda>b. g_id (ab_goal b)) (active_bindings_for_node s n)) nodes))
       in Inr (sort (claim @ bindings @ knowledge @ constitution @ concat (map (clause_basis pol) clause_ids))))"

definition conformance_token ::
  "rendering \<Rightarrow> (string \<Rightarrow> json option) \<Rightarrow> ledger \<Rightarrow> policy \<Rightarrow> int \<Rightarrow> conformance_evidence \<Rightarrow> conformance_check \<Rightarrow>
   task option \<Rightarrow> int \<Rightarrow> string res" where
  "conformance_token h parse s pol i ev check task now =
     and_then (token_basis h parse s pol ev task now) (\<lambda>basis.
       Inr (h_sha256 h (le_bytes i @ h_evidence h ev @ verdict_as_str (ck_verdict check) @
              h_findings h (ck_findings check) @ join_with [CHR 0x0A] basis)))"

subsection \<open>Check and completion\<close>

definition resolve_agent :: "string \<Rightarrow> string res" where
  "resolve_agent supplied = (if blank supplied then Inl (Invalid (Evidence NoAgent)) else Inr (trim supplied))"

definition requested_task :: "string option \<Rightarrow> conformance_evidence \<Rightarrow> string option res" where
  "requested_task task_id ev =
     (case (task_id, ev_task_id ev) of
        (Some l, Some r) \<Rightarrow> if l \<noteq> r then Inl (Invalid (Evidence EvidenceTaskMismatch)) else Inr (Some l)
      | (Some i, None) \<Rightarrow> Inr (Some i)
      | (None, r) \<Rightarrow> Inr r)"

definition load_task :: "ledger \<Rightarrow> string option \<Rightarrow> task option res" where
  "load_task s i =
     (case i of
        None \<Rightarrow> Inr None
      | Some i \<Rightarrow> (case get_task s i of None \<Rightarrow> Inl (NotFound i) | Some t \<Rightarrow> Inr (Some t)))"

definition admit_evidence :: "ledger \<Rightarrow> task option \<Rightarrow> conformance_evidence \<Rightarrow> int \<Rightarrow> unit res option" where
  "admit_evidence s task ev now =
     (case task of
        None \<Rightarrow> Some (validate_evidence_shape ev)
      | Some t \<Rightarrow>
          (case resolve_agent (ev_agent_id ev) of
             Inl e \<Rightarrow> Some (Inl e)
           | Inr agent \<Rightarrow> validate_claim_evidence s t agent ev now))"

definition record_check ::
  "rendering \<Rightarrow> (string \<Rightarrow> json option) \<Rightarrow> policy \<Rightarrow> conformance_evidence \<Rightarrow> string option \<Rightarrow> task option \<Rightarrow> int \<Rightarrow>
   ledger \<Rightarrow> conformance_result \<Rightarrow> (conformance_check \<times> ledger) res" where
  "record_check h parse pol ev task_id task now s r =
     and_then (record_conformance task_id
         \<lparr>au_schema_version = ev_schema_version ev, au_evidence = ev, au_verdict = res_verdict r,
          au_findings = join_with ''; '' (res_findings r)\<rparr> (Some (res_findings r)) now s)
       (\<lambda>(i, s1).
          let checked = \<lparr>ck_id = i, ck_token = [], ck_verdict = res_verdict r, ck_findings = res_findings r\<rparr> in
          and_then (conformance_token h parse s1 pol i ev checked task now) (\<lambda>token.
            Inr (checked\<lparr>ck_token := token\<rparr>, s1)))"

definition check_conformance ::
  "judge \<Rightarrow> rendering \<Rightarrow> (string \<Rightarrow> json option) \<Rightarrow> policy \<Rightarrow> conformance_evidence \<Rightarrow> string option \<Rightarrow> int \<Rightarrow>
   ledger \<Rightarrow> (conformance_check \<times> ledger) res option" where
  "check_conformance judge h parse pol ev task_id now s =
     (case and_then (requested_task task_id ev) (\<lambda>i. and_then (load_task s i) (\<lambda>t. Inr (i, t))) of
        Inl e \<Rightarrow> Some (Inl e)
      | Inr (i, task) \<Rightarrow>
          map_option (\<lambda>admitted.
            and_then admitted (\<lambda>_.
            and_then (evaluate_conformance judge parse s pol ev task now)
              (record_check h parse pol ev i task now s)))
          (admit_evidence s task ev now))"

record completion =
  cp_completed :: bool
  cp_conformance :: conformance_result
  cp_learned :: "string option"

definition check_matches :: "conformance_record \<Rightarrow> string \<Rightarrow> conformance_evidence \<Rightarrow> conformance_check \<Rightarrow> int \<Rightarrow> int \<Rightarrow> bool" where
  "check_matches rec i ev check claim_started_at now \<longleftrightarrow>
     cr_task_id rec = Some i \<and> cr_schema_version rec = ev_schema_version ev \<and> cr_evidence rec = ev \<and>
     cr_verdict rec = ck_verdict check \<and> cr_findings rec = join_with ''; '' (ck_findings check) \<and>
     claim_started_at \<le> cr_checked_at rec \<and> cr_checked_at rec \<le> now"

definition keep_lesson ::
  "(string \<Rightarrow> string) \<Rightarrow> (json \<Rightarrow> string) \<Rightarrow> string \<Rightarrow> conformance_evidence \<Rightarrow> string option \<Rightarrow> int \<Rightarrow> policy \<Rightarrow>
   (string option \<times> policy) res" where
  "keep_lesson hash render i ev learned now pol =
     (case learned of
        None \<Rightarrow> Inr (None, pol)
      | Some lesson \<Rightarrow>
          if blank lesson then Inr (None, pol)
          else and_then (record_knowledge hash (trim lesson)
                 (render (JObj [(''task'', JStr (''task:'' @ i)), (''nodes'', JArr (map JStr (ev_changed_node_ids ev)))]))
                 None now (p_lessons pol))
               (\<lambda>(k, L). Inr (Some (k_id k), pol\<lparr>p_lessons := L\<rparr>)))"

definition finish_task ::
  "rendering \<Rightarrow> (string \<Rightarrow> json option) \<Rightarrow> (string \<Rightarrow> string) \<Rightarrow> (json \<Rightarrow> string) \<Rightarrow> string \<Rightarrow> string \<Rightarrow> task \<Rightarrow>
   conformance_evidence \<Rightarrow> conformance_check \<Rightarrow> string option \<Rightarrow> int \<Rightarrow> policy \<Rightarrow> ledger \<Rightarrow>
   (completion \<times> policy \<times> ledger) res" where
  "finish_task h parse hash render i agent t ev check learned now pol s =
     (case conformance_record_of s (ck_id check) of
        None \<Rightarrow> Inl (NotFound (''conformance check '' @ show_int (ck_id check)))
      | Some rec \<Rightarrow>
          if \<not> check_matches rec i ev check (case t_claim_started_at t of None \<Rightarrow> now | Some c \<Rightarrow> c) now
          then Inl (Invalid (Evidence (CheckMismatch (ck_id check))))
          else and_then (conformance_token h parse s pol (ck_id check) ev check (Some t) now) (\<lambda>expected.
            if ck_token check \<noteq> expected then Inl (Invalid (Evidence (StaleCheck (ck_id check))))
            else and_then (transition_with_checked_conformance i agent (ck_id check) (ck_verdict check)
                   (verdict_status (ck_verdict check)) now s)
              (\<lambda>(moved, s1).
                 if \<not> moved then Inl (Invalid (Evidence (ClaimChanged i)))
                 else and_then (keep_lesson hash render i ev learned now pol) (\<lambda>(lesson, pol1).
                   Inr (\<lparr>cp_completed = (ck_verdict check = Aligned),
                         cp_conformance = \<lparr>res_verdict = ck_verdict check, res_findings = ck_findings check\<rparr>,
                         cp_learned = lesson\<rparr>, pol1, s1)))))"

definition complete_task ::
  "rendering \<Rightarrow> (string \<Rightarrow> json option) \<Rightarrow> (string \<Rightarrow> string) \<Rightarrow> (json \<Rightarrow> string) \<Rightarrow> string \<Rightarrow> string \<Rightarrow>
   conformance_evidence \<Rightarrow> conformance_check \<Rightarrow> string option \<Rightarrow> int \<Rightarrow> policy \<Rightarrow> ledger \<Rightarrow>
   (completion \<times> policy \<times> ledger) res option" where
  "complete_task h parse hash render i agent ev check learned now pol s =
     (case and_then (resolve_agent agent) (\<lambda>agent.
        (case get_task s i of None \<Rightarrow> Inl (NotFound i) | Some t \<Rightarrow> Inr (agent, t))) of
        Inl e \<Rightarrow> Some (Inl e)
      | Inr (agent, t) \<Rightarrow>
          map_option (\<lambda>admitted. and_then admitted (\<lambda>_.
            finish_task h parse hash render i agent t ev check learned now pol s))
          (validate_claim_evidence s t agent ev now))"

definition complete_task_with_check_reference ::
  "rendering \<Rightarrow> (string \<Rightarrow> json option) \<Rightarrow> (string \<Rightarrow> string) \<Rightarrow> (json \<Rightarrow> string) \<Rightarrow> string \<Rightarrow> string \<Rightarrow>
   conformance_evidence \<Rightarrow> int \<times> string \<Rightarrow> string option \<Rightarrow> int \<Rightarrow> policy \<Rightarrow> ledger \<Rightarrow>
   (completion \<times> policy \<times> ledger) res option" where
  "complete_task_with_check_reference h parse hash render i agent ev reference learned now pol s =
     (case conformance_record_of s (fst reference) of
        None \<Rightarrow> Some (Inl (NotFound (''conformance check '' @ show_int (fst reference))))
      | Some rec \<Rightarrow>
          (case conformance_findings_json s (fst reference) of
             None \<Rightarrow> Some (Inl (Invalid (Evidence (PredatesCompact (fst reference)))))
           | Some findings \<Rightarrow>
               complete_task h parse hash render i agent ev
                 \<lparr>ck_id = fst reference, ck_token = snd reference, ck_verdict = cr_verdict rec, ck_findings = findings\<rparr>
                 learned now pol s))"

subsection \<open>What completion promises\<close>

lemma judged_applies:
  assumes inv: "logged s" and t: "get_task s i = Some t" and g: "live_lease_guard agent now t"
    and f: "find (\<lambda>r. cr_id r = c \<and> cr_task_id r = Some i) (s_conformance s) = Some r" "cr_verdict r = v"
  shows "\<exists>s'. transition_with_checked_conformance i agent c v (verdict_status v) now s = Inr (True, s') \<and>
    get_task s' i = Some (judged_row (verdict_status v) now t)"
proof -
  let ?d = "Some (JObj [(''verdict'', JStr (verdict_as_str v)), (''conformance_id'', JInt c)])"
  obtain s1 where tr: "transact i (live_lease_guard agent now) (judged_row (verdict_status v) now) Inr
      EvConformanceRecorded (Some agent) now ?d s = Inr (True, s1)"
    using transact_applies [OF inv judged_row_keeps side_table_none t, where g = "live_lease_guard agent now"] g
    by blast
  have l1: "logged s1" and g1: "get_task s1 i = Some (judged_row (verdict_status v) now t)"
    by (rule transact_cases [OF inv judged_row_keeps side_table_none tr]; use t in simp)+
  obtain s2 where op: "open_blocked_successor_on i now s1 = Inr s2"
    using open_successor_total [OF l1] by blast
  have g2: "verdict_status v = Done \<Longrightarrow> get_task s2 i = Some (judged_row (verdict_status v) now t)"
    by (rule open_successor_cases [OF l1 op]) (use g1 in \<open>auto simp: judged_row_def\<close>)
  show ?thesis
    using tr op g1 g2 f by (cases "verdict_status v = Done") (auto simp: transition_with_checked_conformance_def)
qed

lemma audits_do_not_matter:
  "authorising_window_start (s\<lparr>s_conformance := c\<rparr>) i a = authorising_window_start s i a"
  "claim_window_on (s\<lparr>s_conformance := c\<rparr>) i = claim_window_on s i"
  "active_bindings_for_node (s\<lparr>s_conformance := c\<rparr>) n = active_bindings_for_node s n"
  "get_goal (s\<lparr>s_conformance := c\<rparr>) g = get_goal s g"
proof -
  have g: "get_goal (s\<lparr>s_conformance := c\<rparr>) = get_goal s" by (simp add: get_goal_def fun_eq_iff)
  then show "get_goal (s\<lparr>s_conformance := c\<rparr>) g = get_goal s g" by simp
  show "active_bindings_for_node (s\<lparr>s_conformance := c\<rparr>) n = active_bindings_for_node s n"
    unfolding active_bindings_for_node_def g by simp
qed (simp_all add: authorising_window_start_def claim_transfer_history_def archived_transfers_def
      logged_transfers_def task_events_def read_events_def claim_window_on_def)

lemma validate_ignores_audits:
  "validate_claim_evidence (s\<lparr>s_conformance := c\<rparr>) t a ev n = validate_claim_evidence s t a ev n"
  unfolding validate_claim_evidence_def audits_do_not_matter ..

lemma validated_claim:
  assumes "validate_claim_evidence s t agent ev now = Some (Inr ())"
  shows "ev_agent_id ev = agent" "t_owner t = Some agent" "t_status t = Claimed"
    "\<exists>e. t_lease_expires_at t = Some e \<and> now \<le> e" "t_claim_started_at t \<noteq> None" "ev_task_id ev = Some (t_id t)"
  using assms
  by (auto simp: validate_claim_evidence_def and_then_Inr claim_evidence_refusal_def
      split: sum.splits if_splits option.splits)

lemma keep_lesson_total: "\<exists>l pol'. keep_lesson hash render i ev learned n pol = Inr (l, pol')"
proof (cases "\<exists>lesson. learned = Some lesson \<and> \<not> blank lesson")
  case True
  then obtain lesson where l: "learned = Some lesson" "\<not> blank lesson" by blast
  obtain k L where "store_record_knowledge hash (trim lesson)
      (render (JObj [(''task'', JStr (''task:'' @ i)), (''nodes'', JArr (map JStr (ev_changed_node_ids ev)))]))
      KNOWLEDGE_DEFAULT_HALF_LIFE_HOURS n (p_lessons pol) = Inr (k, L)"
    using record_always by blast
  then show ?thesis using l by (simp add: keep_lesson_def record_knowledge_def)
qed (auto simp: keep_lesson_def split: option.splits)

lemma checked_runs:
  assumes "check_conformance judge h parse pol ev (Some i) now s = Some (Inr (check, s1))"
    and t: "get_task s i = Some t"
  obtains agent r tok where "resolve_agent (ev_agent_id ev) = Inr agent"
    and "validate_claim_evidence s t agent ev now = Some (Inr ())"
    and "evaluate_conformance judge parse s pol ev (Some t) now = Inr r"
    and "s1 = s\<lparr>s_conformance := s_conformance s @
       [\<lparr>cr_id = int (length (s_conformance s)) + 1, cr_task_id = Some i, cr_schema_version = ev_schema_version ev,
         cr_evidence = ev, cr_verdict = res_verdict r, cr_findings = join_with ''; '' (res_findings r),
         cr_findings_json = Some (res_findings r), cr_checked_at = now\<rparr>]\<rparr>"
    and "check = \<lparr>ck_id = int (length (s_conformance s)) + 1, ck_token = tok, ck_verdict = res_verdict r,
           ck_findings = res_findings r\<rparr>"
    and "conformance_token h parse s1 pol (ck_id check) ev check (Some t) now = Inr tok"
proof -
  have load: "and_then (requested_task (Some i) ev) (\<lambda>i. and_then (load_task s i) (\<lambda>t. Inr (i, t))) = Inr (Some i, Some t)"
    using assms by (auto simp: check_conformance_def requested_task_def load_task_def split: option.splits if_splits)
  obtain u where adm: "admit_evidence s (Some t) ev now = Some (Inr u)"
    and run: "and_then (evaluate_conformance judge parse s pol ev (Some t) now)
        (record_check h parse pol ev (Some i) (Some t) now s) = Inr (check, s1)"
    using assms(1) unfolding check_conformance_def load by (auto simp: and_then_Inr)
  obtain agent where ag: "resolve_agent (ev_agent_id ev) = Inr agent"
    and val: "validate_claim_evidence s t agent ev now = Some (Inr ())"
    using adm by (auto simp: admit_evidence_def split: sum.splits)
  obtain r where ev: "evaluate_conformance judge parse s pol ev (Some t) now = Inr r"
    and rc: "record_check h parse pol ev (Some i) (Some t) now s r = Inr (check, s1)"
    using run by (auto simp: and_then_Inr)
  let ?c = "\<lparr>ck_id = int (length (s_conformance s)) + 1, ck_token = [], ck_verdict = res_verdict r,
      ck_findings = res_findings r\<rparr>"
  obtain tok where s1: "s1 = s\<lparr>s_conformance := s_conformance s @
       [\<lparr>cr_id = int (length (s_conformance s)) + 1, cr_task_id = Some i, cr_schema_version = ev_schema_version ev,
         cr_evidence = ev, cr_verdict = res_verdict r, cr_findings = join_with ''; '' (res_findings r),
         cr_findings_json = Some (res_findings r), cr_checked_at = now\<rparr>]\<rparr>"
    and ck: "check = ?c\<lparr>ck_token := tok\<rparr>"
    and tok: "conformance_token h parse s1 pol (ck_id ?c) ev ?c (Some t) now = Inr tok"
    using rc by (auto simp: record_check_def record_conformance_def and_then_Inr Let_def)
  show thesis
  proof (rule that [OF ag val ev s1])
    show "check = \<lparr>ck_id = int (length (s_conformance s)) + 1, ck_token = tok, ck_verdict = res_verdict r,
           ck_findings = res_findings r\<rparr>" by (simp add: ck)
    show "conformance_token h parse s1 pol (ck_id check) ev check (Some t) now = Inr tok"
      using tok by (simp add: ck conformance_token_def)
  qed
qed

text \<open>
  C4. A checked task completes. When a check of evidence for a claimed task succeeds, completing the
  task with that check in the same second succeeds, whatever was learned: the task moves to the
  status of the verdict, done exactly when it is aligned, and nobody owns it any more.
\<close>

theorem checked_completion_succeeds:
  assumes "ledger_ok s" and "audits_numbered s" and "get_task s i = Some t"
    and "check_conformance judge h parse pol ev (Some i) now s = Some (Inr (check, s1))"
    and "t_claim_started_at t = Some started" and "started \<le> now"
  shows "\<exists>c pol' s2. complete_task h parse hash render i (ev_agent_id ev) ev check learned now pol s1 =
      Some (Inr (c, pol', s2)) \<and> (cp_completed c \<longleftrightarrow> ck_verdict check = Aligned) \<and>
    (\<exists>u. get_task s2 i = Some u \<and> t_status u = verdict_status (ck_verdict check) \<and> t_owner u = None)"
proof -
  let ?i = "int (length (s_conformance s)) + 1"
  obtain agent r tok where ag: "resolve_agent (ev_agent_id ev) = Inr agent"
    and val: "validate_claim_evidence s t agent ev now = Some (Inr ())"
    and evl: "evaluate_conformance judge parse s pol ev (Some t) now = Inr r"
    and s1: "s1 = s\<lparr>s_conformance := s_conformance s @
       [\<lparr>cr_id = ?i, cr_task_id = Some i, cr_schema_version = ev_schema_version ev,
         cr_evidence = ev, cr_verdict = res_verdict r, cr_findings = join_with ''; '' (res_findings r),
         cr_findings_json = Some (res_findings r), cr_checked_at = now\<rparr>]\<rparr>"
    and ck: "check = \<lparr>ck_id = ?i, ck_token = tok, ck_verdict = res_verdict r, ck_findings = res_findings r\<rparr>"
    and tok: "conformance_token h parse s1 pol (ck_id check) ev check (Some t) now = Inr tok"
    by (rule checked_runs [OF assms(4,3)])
  note claim = validated_claim [OF val]
  have old: "\<forall>x \<in> set (s_conformance s). cr_id x \<noteq> ?i"
    using numbered_sorted(2) [OF assms(2) [unfolded audits_numbered_def]] by fastforce
  have app: "find P (xs @ ys) = find P ys" if "\<forall>x \<in> set xs. \<not> P x" for P and xs ys :: "conformance_record list"
    using that by (induction xs) auto
  have log: "logged s1" and g: "get_task s1 i = Some t"
    using ledger_ok_logged [OF assms(1)] assms(3) by (simp_all add: s1)
  have "t_blocked_by t = None"
    using row_ok_gate [OF ledger_ok_row [OF assms(1,3)]] claim(3) by (cases "t_blocked_by t") auto
  then have lease: "live_lease_guard agent now t"
    using claim by (auto simp: live_lease_guard_def sql_ge_def)
  obtain s2 where tr: "transition_with_checked_conformance i agent ?i (res_verdict r) (verdict_status (res_verdict r)) now s1 = Inr (True, s2)"
    and row: "get_task s2 i = Some (judged_row (verdict_status (res_verdict r)) now t)"
    using judged_applies [OF log g lease, of ?i _ "res_verdict r"] old by (auto simp: s1 app)
  obtain l pol' where lesson: "keep_lesson hash render i ev learned now pol = Inr (l, pol')"
    using keep_lesson_total by blast
  let ?c = "\<lparr>cp_completed = (res_verdict r = Aligned),
      cp_conformance = \<lparr>res_verdict = res_verdict r, res_findings = res_findings r\<rparr>, cp_learned = l\<rparr>"
  have "finish_task h parse hash render i agent t ev check learned now pol s1 = Inr (?c, pol', s2)"
    using tok tr lesson old assms(5,6)
    by (simp add: finish_task_def ck conformance_record_of_def app) (simp add: s1 app check_matches_def)
  then have "complete_task h parse hash render i (ev_agent_id ev) ev check learned now pol s1 = Some (Inr (?c, pol', s2))"
    using ag g val by (simp add: complete_task_def s1 validate_ignores_audits)
  then show ?thesis using row by (auto simp: ck judged_row_def)
qed

text \<open>
  C5. What a completion proves. A task is completed only by the owner of a lease that has not run out, with
  evidence for that task, on an audit stored for it with the same evidence and verdict and made
  during the claim, and with the token that the current policy gives; the task then has the
  status of that verdict, so it is done only on an aligned audit.
\<close>

theorem completion_needs_check:
  assumes "ledger_ok s" and "complete_task h parse hash render i agent ev check learned now pol s = Some (Inr (c, pol', s'))"
  shows "\<exists>t rec u. get_task s i = Some t \<and> t_status t = Claimed \<and> t_owner t = Some (trim agent) \<and>
    (\<exists>e. t_lease_expires_at t = Some e \<and> now \<le> e) \<and> ev_task_id ev = Some (t_id t) \<and>
    rec \<in> set (s_conformance s) \<and> cr_task_id rec = Some i \<and> cr_evidence rec = ev \<and> cr_verdict rec = ck_verdict check \<and>
    (\<forall>start. t_claim_started_at t = Some start \<longrightarrow> start \<le> cr_checked_at rec) \<and> cr_checked_at rec \<le> now \<and>
    conformance_token h parse s pol (ck_id check) ev check (Some t) now = Inr (ck_token check) \<and>
    get_task s' i = Some u \<and> t_status u = verdict_status (cr_verdict rec) \<and>
    (t_status u = Done \<longleftrightarrow> cr_verdict rec = Aligned)"
proof -
  obtain t where ag: "\<not> blank agent" and t: "get_task s i = Some t"
    and val: "validate_claim_evidence s t (trim agent) ev now = Some (Inr ())"
    and fin: "finish_task h parse hash render i (trim agent) t ev check learned now pol s = Inr (c, pol', s')"
    using assms(2)
    by (auto simp: complete_task_def resolve_agent_def and_then_Inr split: sum.splits option.splits if_splits)
  note claim = validated_claim [OF val]
  obtain rec where rec: "conformance_record_of s (ck_id check) = Some rec"
    and m: "check_matches rec i ev check (case t_claim_started_at t of None \<Rightarrow> now | Some c \<Rightarrow> c) now"
    and tok: "conformance_token h parse s pol (ck_id check) ev check (Some t) now = Inr (ck_token check)"
    and tr: "transition_with_checked_conformance i (trim agent) (ck_id check) (ck_verdict check)
                   (verdict_status (ck_verdict check)) now s = Inr (True, s')"
    using fin by (auto simp: finish_task_def and_then_Inr split: option.splits if_splits)
  have lease: "live_lease_guard (trim agent) now t"
  proof (rule judged_runs [OF tr])
    fix d s1
    assume run: "transact i (live_lease_guard (trim agent) now) (judged_row (verdict_status (ck_verdict check)) now) Inr
        EvConformanceRecorded (Some (trim agent)) now d s = Inr (True, s1)"
    show ?thesis
      by (rule transact_cases [OF ledger_ok_logged [OF assms(1)] judged_row_keeps side_table_none run]) (use t in auto)
  qed
  obtain r where "find (\<lambda>r. cr_id r = ck_id check \<and> cr_task_id r = Some i) (s_conformance s) = Some r"
      "cr_verdict r = ck_verdict check"
    using tr by (auto simp: transition_with_checked_conformance_def split: if_splits)
  from judged_applies [OF ledger_ok_logged [OF assms(1)] t lease this] tr
  have row: "get_task s' i = Some (judged_row (verdict_status (ck_verdict check)) now t)" by auto
  have in_s: "rec \<in> set (s_conformance s)"
    using rec by (auto simp: conformance_record_of_def find_Some_iff)
  have st: "t_status (judged_row (verdict_status v) n t) = verdict_status v" for v n
    by (simp add: judged_row_def)
  have fin_iff: "verdict_status v = Done \<longleftrightarrow> v = Aligned" for v
    by (cases v) simp_all
  have m': "cr_task_id rec = Some i" "cr_evidence rec = ev" "cr_verdict rec = ck_verdict check" "cr_checked_at rec \<le> now"
    using m by (simp_all add: check_matches_def)
  have w: "\<forall>start. t_claim_started_at t = Some start \<longrightarrow> start \<le> cr_checked_at rec"
    using m by (auto simp: check_matches_def)
  show ?thesis
    by (intro exI [of _ t] exI [of _ rec] exI [of _ "judged_row (verdict_status (ck_verdict check)) now t"] conjI)
      (simp_all add: t claim(2,3,4,6) in_s m' w tok row st fin_iff)
qed

end
