(* ===== verification/Certification.thy ===== *)
theory Certification
  imports Conformance_Engine
begin

text \<open>
  Certification as a status over stored audits (\<^verbatim>\<open>facade/conformance/certification.rs\<close>,
  \<^verbatim>\<open>model/conformance.rs\<close>), and what the token of a check does not notice.
\<close>

datatype certification_state = Certified | NotCertified | Waived | CertNeedsHuman | Uncertifiable | Stale

fun certification_state_as_str :: "certification_state \<Rightarrow> string" where
  "certification_state_as_str Certified = ''certified''"
| "certification_state_as_str NotCertified = ''not_certified''"
| "certification_state_as_str Waived = ''waived''"
| "certification_state_as_str CertNeedsHuman = ''needs_human''"
| "certification_state_as_str Uncertifiable = ''uncertifiable''"
| "certification_state_as_str Stale = ''stale''"

record clause_coverage =
  cc_evaluated :: "string list"
  cc_not_evaluated :: "string list"

record certification_status =
  cs_subject :: string
  cs_commit :: "string option"
  cs_policy_version :: "string option"
  cs_evidence_bundle :: "int option"
  cs_certified_at :: "int option"
  cs_state :: certification_state
  cs_reason :: string
  cs_covered_nodes :: nat
  cs_coverage :: clause_coverage
  cs_waiver :: "waiver option"

definition same_commit :: "string \<Rightarrow> string \<Rightarrow> bool" where
  "same_commit recorded declared =
     (let recorded = (case strip_prefix ''intent:'' recorded of None \<Rightarrow> recorded | Some r \<Rightarrow> r) in
      if recorded = [] then False else starts_with recorded declared \<or> starts_with declared recorded)"

definition live_waiver_for :: "waiver list \<Rightarrow> string list \<Rightarrow> int \<Rightarrow> waiver option" where
  "live_waiver_for tbl node_ids now =
     find (\<lambda>w. \<exists>n \<in> set node_ids. applies_to w n now) (live_waivers tbl now)"

definition latest_record :: "ledger \<Rightarrow> string \<Rightarrow> conformance_record option" where
  "latest_record s i = (case conformance_history s i of [] \<Rightarrow> None | h \<Rightarrow> Some (last h))"

definition verdict_state :: "verdict \<Rightarrow> nat \<Rightarrow> nat \<Rightarrow> string \<Rightarrow> certification_state \<times> string" where
  "verdict_state v covered evaluated policy =
     (case v of
        Aligned \<Rightarrow>
          if covered = 0 then (NotCertified, ''the verdict was aligned over evidence covering no node'')
          else (Certified, ''evidence affirmed this change against '' @ show_nat evaluated @ '' clause(s) of '' @ policy)
      | Drift \<Rightarrow> (NotCertified, ''governed code changed without a covering task'')
      | Violation \<Rightarrow> (NotCertified, ''the change contradicts a governing clause'')
      | NeedsHuman \<Rightarrow> (CertNeedsHuman, ''the check could not decide; a person has to look''))"

definition except_by_waiver ::
  "policy \<Rightarrow> conformance_record \<Rightarrow> int \<Rightarrow> certification_status \<Rightarrow> certification_status" where
  "except_by_waiver pol rec now st =
     (if cr_verdict rec \<noteq> Violation then st
      else case live_waiver_for (p_waivers pol) (ev_changed_node_ids (cr_evidence rec)) now of
        None \<Rightarrow> st
      | Some w \<Rightarrow> st\<lparr>cs_reason := ''excepted by waiver '' @ wv_id w @ '' on clause '' @ wv_clause_id w @
                       '', expiring at '' @ show_int (wv_expires_at w),
                    cs_state := Waived, cs_waiver := Some w\<rparr>)"

definition note_staleness ::
  "string option \<Rightarrow> conformance_record \<Rightarrow> certification_status \<Rightarrow> certification_status" where
  "note_staleness at_commit rec st =
     (case at_commit of
        None \<Rightarrow> st
      | Some head \<Rightarrow>
          if cs_state st = Certified \<and> \<not> blank head \<and>
             (\<forall>c \<in> set (ev_commit_ids (cr_evidence rec)). \<not> same_commit c (trim head))
          then st\<lparr>cs_state := Stale,
                 cs_reason := ''the evidence behind this status does not cover commit '' @ trim head\<rparr>
          else st)"

definition certify_record ::
  "ledger \<Rightarrow> policy \<Rightarrow> task \<Rightarrow> string \<Rightarrow> string option \<Rightarrow> int \<Rightarrow> string list \<Rightarrow> conformance_record \<Rightarrow>
   certification_status" where
  "certify_record s pol t policy_version at_commit now active rec =
     (let ev = cr_evidence rec;
          evaluated = sort_dedup (map (\<lambda>c. g_id (cl_goal c))
            (clauses (resolve_governing_clauses s (ev_changed_node_ids ev) (Some (t_goal_id t)))));
          covered = length (ev_changed_node_ids ev);
          (state, reason) = verdict_state (cr_verdict rec) covered (length evaluated) policy_version
      in note_staleness at_commit rec (except_by_waiver pol rec now
           \<lparr>cs_subject = t_id t, cs_commit = (case ev_commit_ids ev of [] \<Rightarrow> None | c # _ \<Rightarrow> Some c),
            cs_policy_version = Some policy_version, cs_evidence_bundle = Some (cr_id rec),
            cs_certified_at = Some (cr_checked_at rec), cs_state = state, cs_reason = reason,
            cs_covered_nodes = covered,
            cs_coverage = \<lparr>cc_evaluated = evaluated,
                           cc_not_evaluated = sort_dedup (filter (\<lambda>i. i \<notin> set evaluated) active)\<rparr>,
            cs_waiver = None\<rparr>))"

definition certification_status_of ::
  "ledger \<Rightarrow> policy \<Rightarrow> string \<Rightarrow> string option \<Rightarrow> int \<Rightarrow> certification_status res" where
  "certification_status_of s pol task_id at_commit now =
     (case get_task s task_id of
        None \<Rightarrow> Inl (NotFound task_id)
      | Some t \<Rightarrow>
          let active = map g_id (goals_by_status s GoalActive);
              policy_version = map_option v_id (active_constitution_version (p_versions pol));
              st = \<lparr>cs_subject = t_id t, cs_commit = None, cs_policy_version = policy_version,
                    cs_evidence_bundle = None, cs_certified_at = None, cs_state = Uncertifiable, cs_reason = [],
                    cs_covered_nodes = 0,
                    cs_coverage = \<lparr>cc_evaluated = [], cc_not_evaluated = sort_dedup active\<rparr>, cs_waiver = None\<rparr>
          in case policy_version of
               None \<Rightarrow> Inr (st\<lparr>cs_reason := ''no constitution is adopted, so there is nothing to certify against''\<rparr>)
             | Some v \<Rightarrow>
                 (case latest_record s (t_id t) of
                    None \<Rightarrow> Inr (st\<lparr>cs_state := NotCertified, cs_reason := ''this subject has never been verified''\<rparr>)
                  | Some rec \<Rightarrow> Inr (certify_record s pol t v at_commit now active rec)))"

subsection \<open>What certified means\<close>

lemma waiver_stage [simp]:
  "cs_state (except_by_waiver pol rec now st) = Certified \<longleftrightarrow> cs_state st = Certified \<and>
     (cr_verdict rec = Violation \<longrightarrow> live_waiver_for (p_waivers pol) (ev_changed_node_ids (cr_evidence rec)) now = None)"
  "cs_state (except_by_waiver pol rec now st) = Waived \<longleftrightarrow> cs_state st = Waived \<or>
     cr_verdict rec = Violation \<and> live_waiver_for (p_waivers pol) (ev_changed_node_ids (cr_evidence rec)) now \<noteq> None"
  by (auto simp: except_by_waiver_def split: option.splits)

lemma staleness_stage [simp]:
  "cs_state (note_staleness c rec st) = Certified \<longleftrightarrow> cs_state st = Certified \<and>
     (\<forall>head. c = Some head \<longrightarrow> blank head \<or> (\<exists>x \<in> set (ev_commit_ids (cr_evidence rec)). same_commit x (trim head)))"
  "cs_state (note_staleness c rec st) = Waived \<longleftrightarrow> cs_state st = Waived"
  by (auto simp: note_staleness_def split: option.splits)

lemma verdict_state_simps [simp]:
  "fst (verdict_state v n m p) = Certified \<longleftrightarrow> v = Aligned \<and> 0 < n"
  "fst (verdict_state v n m p) \<noteq> Waived"
  by (auto simp: verdict_state_def split: verdict.splits)

lemma certify_record_state:
  "cs_state (certify_record s pol t v c now active rec) = Certified \<longleftrightarrow>
     cr_verdict rec = Aligned \<and> ev_changed_node_ids (cr_evidence rec) \<noteq> [] \<and>
     (\<forall>head. c = Some head \<longrightarrow> blank head \<or> (\<exists>x \<in> set (ev_commit_ids (cr_evidence rec)). same_commit x (trim head)))"
  "cs_state (certify_record s pol t v c now active rec) = Waived \<longleftrightarrow>
     cr_verdict rec = Violation \<and> live_waiver_for (p_waivers pol) (ev_changed_node_ids (cr_evidence rec)) now \<noteq> None"
  by (auto simp: certify_record_def Let_def case_prod_beta)

text \<open>
  C33. What certified means. A task is certified exactly when a constitution is adopted and its latest
  audit is aligned over at least one changed node and names the commit asked about, if one is;
  then the status names that constitution and that audit, and the clauses it was and was not
  judged against together are every active clause. A task with no audit is never certified.
\<close>

theorem certified_iff:
  assumes "certification_status_of s pol i commit now = Inr st"
  shows "\<exists>t. get_task s i = Some t \<and>
    (cs_state st = Certified \<longleftrightarrow>
       (\<exists>v rec. active_constitution_version (p_versions pol) = Some v \<and> latest_record s (t_id t) = Some rec \<and>
          cr_verdict rec = Aligned \<and> ev_changed_node_ids (cr_evidence rec) \<noteq> [] \<and>
          (\<forall>head. commit = Some head \<longrightarrow> blank head \<or>
             (\<exists>x \<in> set (ev_commit_ids (cr_evidence rec)). same_commit x (trim head))) \<and>
          cs_policy_version st = Some (v_id v) \<and> cs_evidence_bundle st = Some (cr_id rec))) \<and>
    g_id ` {g \<in> set (s_goals s). g_status g = GoalActive} \<subseteq>
      set (cc_evaluated (cs_coverage st)) \<union> set (cc_not_evaluated (cs_coverage st))"
proof -
  obtain t where t: "get_task s i = Some t"
    using assms by (auto simp: certification_status_of_def split: option.splits)
  have keep: "cs_policy_version (certify_record s pol t v c now a rec) = Some v"
      "cs_evidence_bundle (certify_record s pol t v c now a rec) = Some (cr_id rec)"
      "set a \<subseteq> set (cc_evaluated (cs_coverage (certify_record s pol t v c now a rec))) \<union>
         set (cc_not_evaluated (cs_coverage (certify_record s pol t v c now a rec)))" for v c a rec
    by (auto simp: certify_record_def note_staleness_def except_by_waiver_def Let_def case_prod_beta split: option.splits)
  have act: "g_id ` {g \<in> set (s_goals s). g_status g = GoalActive} = set (map g_id (goals_by_status s GoalActive))"
    by (auto simp: goals_by_status_def)
  note run = assms [unfolded certification_status_of_def t option.case Let_def]
  show ?thesis
  proof (cases "active_constitution_version (p_versions pol)")
    case None
    then show ?thesis using run t act by auto
  next
    case (Some v)
    show ?thesis
    proof (cases "latest_record s (t_id t)")
      case none: None
      then show ?thesis using run t act Some by auto
    next
      case (Some rec)
      then have st: "st = certify_record s pol t (v_id v) commit now (map g_id (goals_by_status s GoalActive)) rec"
        using run \<open>active_constitution_version _ = Some v\<close> by simp
      have "set (map g_id (goals_by_status s GoalActive)) \<subseteq>
          set (cc_evaluated (cs_coverage st)) \<union> set (cc_not_evaluated (cs_coverage st))"
        unfolding st by (rule keep(3))
      then show ?thesis
        using t Some \<open>active_constitution_version _ = Some v\<close>
        unfolding act st certify_record_state(1) keep(1,2) by auto
    qed
  qed
qed

subsection \<open>A checked, completed and certified task\<close>

definition on_ok :: "'a res \<Rightarrow> ('a \<Rightarrow> bool) \<Rightarrow> bool" where
  "on_ok r P = (case r of Inl _ \<Rightarrow> False | Inr x \<Rightarrow> P x)"

definition on_returned :: "'a res option \<Rightarrow> ('a \<Rightarrow> bool) \<Rightarrow> bool" where
  "on_returned r P = (case r of None \<Rightarrow> False | Some x \<Rightarrow> on_ok x P)"

lemma on_ok_iff: "on_ok r P \<longleftrightarrow> (\<exists>x. r = Inr x \<and> P x)"
  by (auto simp: on_ok_def split: sum.splits)

lemma on_returned_iff: "on_returned r P \<longleftrightarrow> (\<exists>x. r = Some (Inr x) \<and> P x)"
  by (auto simp: on_returned_def on_ok_iff split: option.splits)

definition sample_rendering :: rendering where
  "sample_rendering = \<lparr>h_sha256 = (\<lambda>x. x), h_goal = g_id, h_knowledge = k_id, h_evidence = ev_summary,
     h_findings = concat\<rparr>"

definition sample_wide :: "policy \<Rightarrow> policy" where
  "sample_wide pol = pol\<lparr>p_waivers := map (\<lambda>w. w\<lparr>wv_scope := ''artifact:**''\<rparr>) (p_waivers pol)\<rparr>"

definition sample_held :: ledger where
  "sample_held = (imported [sample_claim ''a'' ''x'' 1 99])\<lparr>
     s_goals := [sample_clause ''goal:g'' ''g'', sample_clause ''goal:h'' ''h''],
     s_artifacts := [(''goal:g'', ''artifact:a'', Governed), (''goal:h'', ''artifact:b'', ForbidChange)]\<rparr>"

definition sample_governed :: policy where
  "sample_governed =
     \<lparr>p_waivers = (case store_grant_waiver sample_policy [] ''w'' sample_request 2 [] of Inr (_, tbl) \<Rightarrow> tbl | Inl _ \<Rightarrow> []),
      p_controls = [],
      p_versions = [\<lparr>v_id = ''constitution:v1'', v_version = 1, v_project_identity = None, v_purpose = None,
        v_preamble = None, v_status = GoalActive, v_created_by = None, v_created_at = 0, v_activated_by = None,
        v_activated_at = None\<rparr>],
      p_lessons = \<lparr>kn_rows = [], kn_sources = []\<rparr>\<rparr>"

definition sample_work :: "string \<Rightarrow> conformance_evidence" where
  "sample_work node = (sample_change [node])\<lparr>ev_task_id := Some ''a''\<rparr>"

abbreviation sample_check :: "string \<Rightarrow> (conformance_check \<times> ledger) res option" where
  "sample_check node \<equiv> check_conformance (\<lambda>_ _. None) sample_rendering (\<lambda>_. None) sample_governed (sample_work node)
     (Some ''a'') 5 sample_held"

lemma sample_held_facts:
  "ledger_ok sample_held" "audits_numbered sample_held"
  "get_task sample_held ''a'' = Some (sample_claim ''a'' ''x'' 1 99)"
proof -
  show "ledger_ok sample_held"
    unfolding sample_held_def ledger_ok_frame
    by (rule imported_ok) (simp_all add: sample_claim_def sample_task_def row_ok_def)
  show "audits_numbered sample_held" by code_simp
  show "get_task sample_held ''a'' = Some (sample_claim ''a'' ''x'' 1 99)" by code_simp
qed

lemma sample_check_aligned:
  "\<exists>check s1. sample_check ''artifact:a'' = Some (Inr (check, s1)) \<and> ck_verdict check = Aligned"
proof -
  have "case sample_check ''artifact:a'' of Some (Inr (check, s1)) \<Rightarrow> ck_verdict check = Aligned | _ \<Rightarrow> False"
    by code_simp
  then show ?thesis by (auto split: option.splits sum.splits)
qed

theorem checked_completion_succeeds_witness:
  "\<exists>check s1 c pol' s2. sample_check ''artifact:a'' = Some (Inr (check, s1)) \<and>
     complete_task sample_rendering (\<lambda>_. None) (\<lambda>x. x) (\<lambda>_. []) ''a'' ''x'' (sample_work ''artifact:a'') check None 5
       sample_governed s1 = Some (Inr (c, pol', s2)) \<and> cp_completed c \<and>
     map_option t_status (get_task s2 ''a'') = Some Done"
proof -
  obtain check s1 where r: "sample_check ''artifact:a'' = Some (Inr (check, s1))" and v: "ck_verdict check = Aligned"
    using sample_check_aligned by blast
  have ag: "ev_agent_id (sample_work ''artifact:a'') = ''x''" by (simp add: sample_work_def sample_change_def)
  have "t_claim_started_at (sample_claim ''a'' ''x'' 1 99) = Some 1" by (simp add: sample_claim_def)
  from checked_completion_succeeds [OF sample_held_facts r this, of "\<lambda>x. x" "\<lambda>_. []" None] v r
  show ?thesis unfolding ag by auto
qed

theorem completion_needs_check_witness:
  "\<exists>check s1 c pol' s2 rec. sample_check ''artifact:a'' = Some (Inr (check, s1)) \<and>
     complete_task sample_rendering (\<lambda>_. None) (\<lambda>x. x) (\<lambda>_. []) ''a'' ''x'' (sample_work ''artifact:a'') check None 5
       sample_governed s1 = Some (Inr (c, pol', s2)) \<and>
     rec \<in> set (s_conformance s1) \<and> cr_verdict rec = ck_verdict check"
proof -
  let ?done = "\<lambda>check s1. complete_task sample_rendering (\<lambda>_. None) (\<lambda>x. x) (\<lambda>_. []) ''a'' ''x''
      (sample_work ''artifact:a'') check None 5 sample_governed s1"
  have "on_returned (sample_check ''artifact:a'') (\<lambda>(check, s1). on_returned (?done check s1) (\<lambda>_. True))"
    by code_simp
  then obtain check s1 c pol' s2 where r: "sample_check ''artifact:a'' = Some (Inr (check, s1))"
    and d: "?done check s1 = Some (Inr (c, pol', s2))"
    unfolding on_returned_iff by (auto simp del: split_paired_Ex)
  have "ledger_ok s1"
    by (rule checked_runs [OF r sample_held_facts(3)]) (simp add: sample_held_facts(1))
  from completion_needs_check [OF this d] r d show ?thesis by blast
qed

theorem aligned_rests_on_witness:
  "\<exists>r. evaluate_base_conformance (\<lambda>_ _. None) sample_held sample_governed (sample_work ''artifact:a'')
       (get_task sample_held ''a'') 5 = Inr r \<and> res_verdict r = Aligned \<and>
     is_continuous (claim_window_on sample_held ''a'')"
proof -
  let ?e = "evaluate_base_conformance (\<lambda>_ _. None) sample_held sample_governed (sample_work ''artifact:a'')
       (get_task sample_held ''a'') 5"
  have "case ?e of Inl _ \<Rightarrow> False | Inr r \<Rightarrow> res_verdict r = Aligned" by code_simp
  then obtain r where r: "?e = Inr r" and v: "res_verdict r = Aligned" by (auto split: sum.splits)
  have "t_id (sample_claim ''a'' ''x'' 1 99) = ''a''" by (simp add: sample_claim_def sample_task_def)
  with aligned_rests_on [OF r refl refl] v sample_held_facts(3) have "is_continuous (claim_window_on sample_held ''a'')"
    by auto
  with r v show ?thesis by blast
qed

theorem knowledge_only_informs_witness:
  "\<exists>r r0. evaluate_conformance (\<lambda>_ _. None) (\<lambda>_. None) sample_held sample_governed (sample_work ''artifact:a'') None 5 = Inr r \<and>
     evaluate_base_conformance (\<lambda>_ _. None) sample_held sample_governed (sample_work ''artifact:a'') None 5 = Inr r0 \<and>
     res_verdict r = res_verdict r0"
proof -
  let ?e = "evaluate_conformance (\<lambda>_ _. None) (\<lambda>_. None) sample_held sample_governed (sample_work ''artifact:a'') None 5"
  have "\<not> isl ?e" by code_simp
  then obtain r where r: "?e = Inr r" by (cases ?e) auto
  from knowledge_only_informs [OF r] r show ?thesis by blast
qed

theorem certified_iff_witness:
  "\<exists>check s1 st. sample_check ''artifact:a'' = Some (Inr (check, s1)) \<and>
     certification_status_of s1 sample_governed ''a'' (Some ''c'') 6 = Inr st \<and> cs_state st = Certified \<and>
     cs_policy_version st = Some ''constitution:v1''"
proof -
  have "on_returned (sample_check ''artifact:a'') (\<lambda>(check, s1).
      on_ok (certification_status_of s1 sample_governed ''a'' (Some ''c'') 6) (\<lambda>st. cs_state st = Certified))"
    by code_simp
  then obtain check s1 st where r: "sample_check ''artifact:a'' = Some (Inr (check, s1))"
    and c: "certification_status_of s1 sample_governed ''a'' (Some ''c'') 6 = Inr st" and st: "cs_state st = Certified"
    unfolding on_returned_iff on_ok_iff by blast
  have "map_option v_id (active_constitution_version (p_versions sample_governed)) = Some ''constitution:v1''" by code_simp
  with certified_iff [OF c] st r c show ?thesis by auto
qed

subsection \<open>What exceptions do not notice\<close>

text \<open>
  The token does not notice that an exception ended. It depends on the clock only through the
  lessons that are active, so a check made under a waiver keeps its token after the waiver has
  lapsed, and completes: expiry neither changes the row nor the token.
\<close>

theorem token_survives_lapse:
  assumes "active_knowledge (p_lessons pol) now = active_knowledge (p_lessons pol) later"
  shows "conformance_token h parse s pol i ev check task later = conformance_token h parse s pol i ev check task now"
  using assms by (simp add: conformance_token_def token_basis_def)

theorem token_survives_lapse_witness:
  "excusing_waiver (p_waivers sample_exception) (sample_clause ''goal:g'' ''g'') ''artifact:a'' 49 \<noteq> None \<and>
   excusing_waiver (p_waivers sample_exception) (sample_clause ''goal:g'' ''g'') ''artifact:a'' 50 = None \<and>
   conformance_token sample_rendering (\<lambda>_. None) sample_locks sample_exception 1 (sample_change [''artifact:a''])
     \<lparr>ck_id = 1, ck_token = [], ck_verdict = Aligned, ck_findings = []\<rparr> None 50 =
   conformance_token sample_rendering (\<lambda>_. None) sample_locks sample_exception 1 (sample_change [''artifact:a''])
     \<lparr>ck_id = 1, ck_token = [], ck_verdict = Aligned, ck_findings = []\<rparr> None 49"
proof -
  have "active_knowledge (p_lessons sample_exception) 49 = active_knowledge (p_lessons sample_exception) 50"
    by (simp add: sample_exception_def active_knowledge_def)
  note tok = token_survives_lapse [OF this]
  have "excusing_waiver (p_waivers sample_exception) (sample_clause ''goal:g'' ''g'') ''artifact:a'' 49 \<noteq> None"
    and "excusing_waiver (p_waivers sample_exception) (sample_clause ''goal:g'' ''g'') ''artifact:a'' 50 = None"
    by code_simp+
  with tok show ?thesis by blast
qed

text \<open>
  A waiver of one clause excepts a violation of another. The task's audit is a violation of the
  lock that clause \<open>h\<close> places on a node; a live waiver of clause \<open>g\<close>, whose scope reaches the
  node, makes the certification status waived, though clause \<open>h\<close> was never waived.
\<close>

theorem unrelated_waiver_excepts:
  "\<exists>check s1 st w. sample_check ''artifact:b'' = Some (Inr (check, s1)) \<and> ck_verdict check = Violation \<and>
     excusing_waiver (p_waivers (sample_wide sample_governed))
       (sample_clause ''goal:h'' ''h'') ''artifact:b'' 6 = None \<and>
     certification_status_of s1 (sample_wide sample_governed)
       ''a'' None 6 = Inr st \<and> cs_state st = Waived \<and> cs_waiver st = Some w \<and> wv_clause_id w = ''goal:g''"
proof -
  let ?p = "sample_wide sample_governed"
  have 1: "excusing_waiver (p_waivers ?p) (sample_clause ''goal:h'' ''h'') ''artifact:b'' 6 = None" by code_simp
  have "on_returned (sample_check ''artifact:b'') (\<lambda>(check, s1). ck_verdict check = Violation \<and>
      on_ok (certification_status_of s1 ?p ''a'' None 6) (\<lambda>st. cs_state st = Waived \<and>
        map_option wv_clause_id (cs_waiver st) = Some ''goal:g''))" by code_simp
  then obtain check s1 st w where "sample_check ''artifact:b'' = Some (Inr (check, s1))" "ck_verdict check = Violation"
      "certification_status_of s1 ?p ''a'' None 6 = Inr st" "cs_state st = Waived" "cs_waiver st = Some w" "wv_clause_id w = ''goal:g''"
    unfolding on_returned_iff on_ok_iff map_option_eq_Some by blast
  with 1 show ?thesis by blast
qed

end
