(* ===== verification/Constitution.thy ===== *)
theory Constitution
  imports Certification
begin

text \<open>
  The constitution: its clauses, its versions and the code they bind
  (\<^verbatim>\<open>store/goals.rs\<close>, \<^verbatim>\<open>facade/constitution/goals.rs\<close>, \<^verbatim>\<open>drafting.rs\<close>, \<^verbatim>\<open>review.rs\<close>,
  \<^verbatim>\<open>bindings.rs\<close>), the facts a draft cites (\<^verbatim>\<open>discovery.rs\<close>) and the data of policy packs
  (\<^verbatim>\<open>policy.rs\<close>). The state joins the ledger, which holds clauses, bindings and tasks, with the
  policy tables and the tables of packs, proposals, facts and amendments. The columns that say who
  superseded a clause and when, which a clause as the code reads it does not carry, are the field
  \<open>cn_retirements\<close>. JSON that a row stores and reads back is kept as the value it encodes.
\<close>

subsection \<open>Packs, proposals, facts and amendments as data\<close>

record pack_clause =
  kc_key :: string
  kc_kind :: goal_kind
  kc_title :: string
  kc_statement :: string
  kc_rationale :: string
  kc_default_scope :: "string option"
  kc_evidence_contract :: "string option"
  kc_default_consequence :: "consequence option"
  kc_suggested_controls :: "string list"

record pack_conflict =
  kf_pack_id :: string
  kf_reason :: string

record constitution_pack =
  kp_id :: string
  kp_version :: string
  kp_digest :: string
  kp_title :: string
  kp_description :: string
  kp_compatible_engine_versions :: "string list"
  kp_preamble_fragments :: "string list"
  kp_clauses :: "pack_clause list"
  kp_conflicts :: "pack_conflict list"

datatype pack_disposition = Adopted | Tailored | Rejected

fun disposition_as_str :: "pack_disposition \<Rightarrow> string" where
  "disposition_as_str Adopted = ''adopted''"
| "disposition_as_str Tailored = ''tailored''"
| "disposition_as_str Rejected = ''rejected''"

definition disposition_from_tag :: "string \<Rightarrow> pack_disposition option" where
  "disposition_from_tag s =
     (if s = ''adopted'' then Some Adopted
      else if s = ''tailored'' then Some Tailored
      else if s = ''rejected'' then Some Rejected
      else None)"

interpretation disposition_tag: tagged_enum disposition_as_str disposition_from_tag
proof unfold_locales
  fix x :: pack_disposition
  show "disposition_from_tag (disposition_as_str x) = Some x"
    by (cases x) (simp_all add: disposition_from_tag_def)
qed (auto simp: disposition_from_tag_def split: if_splits)

record pack_proposal =
  pp_id :: string
  pp_pack_id :: string
  pp_pack_version :: string
  pp_pack_digest :: string
  pp_constitution_version :: "string option"
  pp_clause :: pack_clause
  pp_disposition :: "pack_disposition option"
  pp_reviewed_by :: "string option"
  pp_review_reason :: "string option"
  pp_reviewed_at :: "int option"
  pp_adopted_goal_id :: "string option"
  pp_created_at :: int

record pack_provenance =
  pv_goal_id :: string
  pv_pack_id :: string
  pv_pack_version :: string
  pv_pack_digest :: string
  pv_clause_key :: string
  pv_source_clause :: pack_clause

datatype project_fact_kind =
  Documentation | DecisionRecord | Manifest | ContinuousIntegration | Linter | TestConfiguration | Ownership

fun fact_kind_as_str :: "project_fact_kind \<Rightarrow> string" where
  "fact_kind_as_str Documentation = ''documentation''"
| "fact_kind_as_str DecisionRecord = ''decision_record''"
| "fact_kind_as_str Manifest = ''manifest''"
| "fact_kind_as_str ContinuousIntegration = ''continuous_integration''"
| "fact_kind_as_str Linter = ''linter''"
| "fact_kind_as_str TestConfiguration = ''test_configuration''"
| "fact_kind_as_str Ownership = ''ownership''"

definition fact_kind_from_tag :: "string \<Rightarrow> project_fact_kind option" where
  "fact_kind_from_tag s =
     (if s = ''documentation'' then Some Documentation
      else if s = ''decision_record'' then Some DecisionRecord
      else if s = ''manifest'' then Some Manifest
      else if s = ''continuous_integration'' then Some ContinuousIntegration
      else if s = ''linter'' then Some Linter
      else if s = ''test_configuration'' then Some TestConfiguration
      else if s = ''ownership'' then Some Ownership
      else None)"

interpretation fact_kind_tag: tagged_enum fact_kind_as_str fact_kind_from_tag
proof unfold_locales
  fix x :: project_fact_kind
  show "fact_kind_from_tag (fact_kind_as_str x) = Some x"
    by (cases x) (simp_all add: fact_kind_from_tag_def)
qed (auto simp: fact_kind_from_tag_def split: if_splits)

record project_fact =
  pf_kind :: project_fact_kind
  pf_source_path :: string
  pf_detail :: string
  pf_question :: "string option"

datatype clause_change = Added | Removed | Changed

record clause_diff =
  cd_slug :: string
  cd_change :: clause_change
  cd_fields :: "string list"
  cd_before :: "goal option"
  cd_after :: "goal option"

record constitution_amendment =
  am_id :: string
  am_from_version :: string
  am_to_version :: string
  am_rationale :: string
  am_amended_by :: string
  am_approved_by :: "string option"
  am_created_at :: int
  am_diff :: "clause_diff list"

subsection \<open>State\<close>

record constitution =
  cn_ledger :: ledger
  cn_policy :: policy
  cn_retirements :: "string \<rightharpoonup> string \<times> int"
  cn_packs :: "constitution_pack list"
  cn_pack_conflicts :: "(string \<times> string \<times> string \<times> string) list"
  cn_proposals :: "pack_proposal list"
  cn_provenance :: "pack_provenance list"
  cn_facts :: "(string \<times> project_fact \<times> int) list"
  cn_amendments :: "constitution_amendment list"

definition on_ledger :: "(ledger \<Rightarrow> ('a \<times> ledger) res) \<Rightarrow> constitution \<Rightarrow> ('a \<times> constitution) res" where
  "on_ledger run k = and_then (run (cn_ledger k)) (\<lambda>(x, s). Inr (x, k\<lparr>cn_ledger := s\<rparr>))"

definition cn_versions :: "constitution \<Rightarrow> constitution_version list" where
  "cn_versions k = p_versions (cn_policy k)"

definition set_versions :: "constitution_version list \<Rightarrow> constitution \<Rightarrow> constitution" where
  "set_versions vs k = k\<lparr>cn_policy := (cn_policy k)\<lparr>p_versions := vs\<rparr>\<rparr>"

subsection \<open>Clauses\<close>

definition insert_goal_on :: "goal \<Rightarrow> ledger \<Rightarrow> (unit \<times> ledger) res" where
  "insert_goal_on g s =
     (if goal_exists_on s (g_id g) then Inl (Sqlite ''goals'')
      else Inr ((), s\<lparr>s_goals := s_goals s @ [g]\<rparr>))"

definition bare_goal ::
  "string \<Rightarrow> string \<Rightarrow> goal_kind \<Rightarrow> string \<Rightarrow> string \<Rightarrow> goal_status \<Rightarrow> int \<Rightarrow> goal" where
  "bare_goal i slug kind title statement status now =
     \<lparr>g_id = i, g_slug = slug, g_kind = kind, g_title = title, g_statement = statement, g_status = status,
      g_version = 1, g_parent_id = None, g_superseded_by = None, g_reason = None, g_created_at = now,
      g_constitution_version = None, g_rationale = None, g_scope = None, g_evidence_contract = None,
      g_consequence = None, g_waivable = False, g_waiver_authority = None, g_origin = OriginLocal,
      g_source_system = None, g_external_id = None, g_source_ref = None, g_source_digest = None\<rparr>"

definition define_goal_on ::
  "(string \<Rightarrow> string) \<Rightarrow> goal_kind \<Rightarrow> string \<Rightarrow> string \<Rightarrow> string option \<Rightarrow> int \<Rightarrow> ledger \<Rightarrow> (goal \<times> ledger) res" where
  "define_goal_on hash kind title statement parent now s =
     (let slug = slugify hash title;
          base = ''goal:'' @ slug;
          i = (if goal_exists_on s base then ''goal:'' @ slug @ ''-'' @ hash statement else base)
      in if goal_exists_on s i then Inl (Invalid (Clause (GoalAlreadyDefined i)))
         else let g = (bare_goal i slug kind title statement GoalActive now)\<lparr>g_parent_id := parent\<rparr>
              in and_then (insert_goal_on g s) (\<lambda>(_, s1). Inr (g, s1)))"

definition define_clause_in_version ::
  "(string \<Rightarrow> string) \<Rightarrow> goal_kind \<Rightarrow> string \<Rightarrow> string \<Rightarrow> string \<Rightarrow> int \<Rightarrow> ledger \<Rightarrow> (goal \<times> ledger) res" where
  "define_clause_in_version hash kind title statement version_id now s =
     (let slug = slugify hash title;
          i = ''goal:'' @ slug @ ''@'' @ version_id
      in if goal_exists_on s i then Inl (Invalid (Clause (VersionHoldsClause version_id slug)))
         else let g = (bare_goal i slug kind title statement GoalDraft now)
                        \<lparr>g_constitution_version := Some version_id\<rparr>
              in and_then (insert_goal_on g s) (\<lambda>(_, s1). Inr (g, s1)))"

definition clauses_for_version :: "ledger \<Rightarrow> string \<Rightarrow> goal list" where
  "clauses_for_version s version_id =
     sort_key g_slug (filter (\<lambda>g. g_constitution_version g = Some version_id \<and> g_status g \<noteq> GoalSuperseded)
       (s_goals s))"

definition superseding_goal :: "goal \<Rightarrow> string \<Rightarrow> string \<Rightarrow> int \<Rightarrow> goal" where
  "superseding_goal old new_statement reason now =
     old\<lparr>g_id := ''goal:'' @ g_slug old @ ''-v'' @ show_int (g_version old + 1),
         g_statement := new_statement, g_status := GoalActive, g_version := g_version old + 1,
         g_superseded_by := None, g_reason := Some reason, g_created_at := now\<rparr>"

definition store_supersede_goal ::
  "string \<Rightarrow> string \<Rightarrow> string \<Rightarrow> string \<Rightarrow> int \<Rightarrow> constitution \<Rightarrow> (goal \<times> constitution) res" where
  "store_supersede_goal old_id new_statement reason agent now k =
     (case get_goal (cn_ledger k) old_id of
        None \<Rightarrow> Inl (NotFound old_id)
      | Some old \<Rightarrow>
          let new = superseding_goal old new_statement reason now in
          and_then (insert_goal_on new (cn_ledger k)) (\<lambda>(_, s1).
            Inr (new, k\<lparr>cn_ledger := s1\<lparr>s_goals := map (\<lambda>g. if g_id g = old_id
                    then g\<lparr>g_status := GoalSuperseded, g_superseded_by := Some (g_id new)\<rparr> else g) (s_goals s1)\<rparr>,
                  cn_retirements := (cn_retirements k)(old_id \<mapsto> (agent, now))\<rparr>)))"

definition supersede_goal ::
  "string \<Rightarrow> string \<Rightarrow> string \<Rightarrow> string \<Rightarrow> int \<Rightarrow> constitution \<Rightarrow> (goal \<times> constitution) res" where
  "supersede_goal old_id new_statement reason agent now k =
     and_then (resolve_agent agent) (\<lambda>agent. store_supersede_goal old_id new_statement reason agent now k)"

definition goal_supersession :: "constitution \<Rightarrow> string \<Rightarrow> (string \<times> int) option" where
  "goal_supersession k i = (if goal_exists_on (cn_ledger k) i then cn_retirements k i else None)"

definition get_constitution :: "ledger \<Rightarrow> goal list" where
  "get_constitution s = goals_by_status s GoalActive"

definition count_goals_by_status :: "ledger \<Rightarrow> goal_status \<Rightarrow> int" where
  "count_goals_by_status s status = int (length (filter (\<lambda>g. g_status g = status) (s_goals s)))"

definition store_complete_clause_contract ::
  "string \<Rightarrow> string \<Rightarrow> string \<Rightarrow> consequence option \<Rightarrow> bool \<Rightarrow> string option \<Rightarrow> ledger \<Rightarrow> (goal \<times> ledger) res" where
  "store_complete_clause_contract goal_id scope evidence_contract conseq waivable waiver_authority s =
     (if blank scope \<or> blank evidence_contract then Inl (Invalid (Clause ContractFields))
      else if \<not> waivable \<and> (case waiver_authority of None \<Rightarrow> False | Some a \<Rightarrow> \<not> blank a)
      then Inl (Invalid (Clause UnwaivableAuthority))
      else let hit = (\<lambda>g. g_id g = goal_id \<and> g_status g \<noteq> GoalSuperseded);
               s1 = s\<lparr>s_goals := map (\<lambda>g. if hit g
                  then g\<lparr>g_scope := Some (trim scope), g_evidence_contract := Some (trim evidence_contract),
                         g_consequence := conseq, g_waivable := waivable,
                         g_waiver_authority := (case waiver_authority of None \<Rightarrow> None
                           | Some a \<Rightarrow> if blank a then None else Some (trim a))\<rparr>
                  else g) (s_goals s)\<rparr>
           in if \<forall>g \<in> set (s_goals s). \<not> hit g then Inl (NotFound goal_id)
              else case get_goal s1 goal_id of None \<Rightarrow> Inl (NotFound goal_id) | Some g \<Rightarrow> Inr (g, s1))"

definition complete_clause_contract ::
  "string \<Rightarrow> string \<Rightarrow> string \<Rightarrow> consequence option \<Rightarrow> bool \<Rightarrow> string option \<Rightarrow> ledger \<Rightarrow> (goal \<times> ledger) res" where
  "complete_clause_contract clause_id scope evidence_contract conseq waivable waiver_authority s =
     (case get_goal s clause_id of
        None \<Rightarrow> Inl (NotFound clause_id)
      | Some clause \<Rightarrow>
          if g_status clause = GoalActive then Inl (Invalid (Clause (ContractOfActive clause_id)))
          else store_complete_clause_contract clause_id scope evidence_contract conseq waivable waiver_authority s)"

subsection \<open>Importing records of another system\<close>

record external_goal_record =
  xr_external_id :: string
  xr_kind :: goal_kind
  xr_title :: string
  xr_statement :: string
  xr_status :: string
  xr_source_ref :: string
  xr_source_digest :: string

datatype import_disposition = ImportCreated | ImportUnchanged | ImportSkipped | ImportConflict

record import_outcome =
  io_external_id :: string
  io_disposition :: import_disposition
  io_goal_id :: "string option"

record import_result =
  ir_outcomes :: "import_outcome list"
  ir_created :: nat
  ir_unchanged :: nat
  ir_skipped :: nat
  ir_conflicts :: nat

definition validate_record :: "string list \<Rightarrow> external_goal_record \<Rightarrow> string list res" where
  "validate_record identities r =
     (if blank (xr_external_id r) \<or> blank (xr_title r) \<or> blank (xr_statement r) \<or> blank (xr_status r) \<or>
         blank (xr_source_ref r) \<or> blank (xr_source_digest r)
      then Inl (Invalid (Clause ImportFields))
      else if trim (xr_external_id r) \<in> set identities
      then Inl (Invalid (Clause (ImportRepeats (xr_external_id r))))
      else Inr (trim (xr_external_id r) # identities))"

definition imported_goal :: "(string \<Rightarrow> string) \<Rightarrow> string \<Rightarrow> int \<Rightarrow> external_goal_record \<Rightarrow> goal" where
  "imported_goal hash source_system now r =
     (bare_goal (''goal:external-'' @ hash (source_system @ '':'' @ trim (xr_external_id r)))
        (slugify hash (trim (xr_title r))) (xr_kind r) (trim (xr_title r)) (trim (xr_statement r)) GoalActive now)
       \<lparr>g_source_system := Some source_system, g_external_id := Some (trim (xr_external_id r)),
        g_source_ref := Some (trim (xr_source_ref r)), g_source_digest := Some (trim (xr_source_digest r))\<rparr>"

definition import_record ::
  "(string \<Rightarrow> string) \<Rightarrow> string \<Rightarrow> int \<Rightarrow> import_result \<times> ledger \<Rightarrow> external_goal_record \<Rightarrow>
   (import_result \<times> ledger) res" where
  "import_record hash source_system now = (\<lambda>(acc, s) r.
     let external_id = trim (xr_external_id r);
         report = (\<lambda>d i. acc\<lparr>ir_outcomes := ir_outcomes acc @
            [\<lparr>io_external_id = external_id, io_disposition = d, io_goal_id = i\<rparr>]\<rparr>)
     in if trim (xr_status r) \<noteq> ''accepted''
        then Inr ((report ImportSkipped None)\<lparr>ir_skipped := ir_skipped acc + 1\<rparr>, s)
        else case find (\<lambda>g. g_source_system g = Some source_system \<and> g_external_id g = Some external_id) (s_goals s) of
          Some g \<Rightarrow>
            if g_source_digest g = Some (trim (xr_source_digest r))
            then Inr ((report ImportUnchanged (Some (g_id g)))\<lparr>ir_unchanged := ir_unchanged acc + 1\<rparr>, s)
            else Inr ((report ImportConflict (Some (g_id g)))\<lparr>ir_conflicts := ir_conflicts acc + 1\<rparr>, s)
        | None \<Rightarrow>
            let g = imported_goal hash source_system now r in
            and_then (insert_goal_on g s) (\<lambda>(_, s1).
              Inr ((report ImportCreated (Some (g_id g)))\<lparr>ir_created := ir_created acc + 1\<rparr>, s1)))"

definition import_external_goals ::
  "(string \<Rightarrow> string) \<Rightarrow> string \<Rightarrow> external_goal_record list \<Rightarrow> int \<Rightarrow> ledger \<Rightarrow> (import_result \<times> ledger) res" where
  "import_external_goals hash source_system records now s =
     (if blank source_system then Inl (Invalid (Clause ImportSource))
      else and_then (try_fold validate_record [] records) (\<lambda>_.
        try_fold (import_record hash (trim source_system) now)
          (\<lparr>ir_outcomes = [], ir_created = 0, ir_unchanged = 0, ir_skipped = 0, ir_conflicts = 0\<rparr>, s) records))"

subsection \<open>Versions\<close>

definition draft_constitution_version :: "constitution_version list \<Rightarrow> constitution_version option" where
  "draft_constitution_version versions =
     (case sort_key (\<lambda>v. - v_version v) (filter (\<lambda>v. v_status v = GoalDraft) versions) of
        [] \<Rightarrow> None
      | v # _ \<Rightarrow> Some v)"

definition constitution_version_of :: "constitution_version list \<Rightarrow> string \<Rightarrow> constitution_version option" where
  "constitution_version_of versions i = find (\<lambda>v. v_id v = i) versions"

definition create_constitution_version ::
  "string \<Rightarrow> int \<Rightarrow> goal_status \<Rightarrow> string option \<Rightarrow> int \<Rightarrow> constitution_version list \<Rightarrow>
   (constitution_version \<times> constitution_version list) res" where
  "create_constitution_version i version status created_by now versions =
     (if constitution_version_of versions i \<noteq> None then Inl (Sqlite ''constitution_versions'')
      else let v = \<lparr>v_id = i, v_version = version, v_project_identity = None, v_purpose = None,
                    v_preamble = None, v_status = status, v_created_by = created_by, v_created_at = now,
                    v_activated_by = None, v_activated_at = None\<rparr>
           in Inr (v, versions @ [v]))"

definition next_constitution_version_number :: "constitution_version list \<Rightarrow> int" where
  "next_constitution_version_number versions =
     (case versions of [] \<Rightarrow> 0 | _ \<Rightarrow> Max (set (map v_version versions))) + 1"

definition undecided_proposals :: "constitution \<Rightarrow> string \<Rightarrow> nat" where
  "undecided_proposals k version_id =
     length (filter (\<lambda>p. pp_constitution_version p = Some version_id \<and> pp_disposition p = None) (cn_proposals k))"

definition promote_version :: "string \<Rightarrow> string \<Rightarrow> int \<Rightarrow> constitution_version \<Rightarrow> constitution_version" where
  "promote_version draft_id actor now v =
     (if v_id v = draft_id \<and> v_status v = GoalDraft
      then v\<lparr>v_status := GoalActive, v_activated_by := Some actor, v_activated_at := Some now\<rparr> else v)"

definition promote_clause :: "string \<Rightarrow> goal \<Rightarrow> goal" where
  "promote_clause draft_id g =
     (if g_constitution_version g = Some draft_id \<and> g_status g = GoalDraft then g\<lparr>g_status := GoalActive\<rparr> else g)"

definition store_activate_constitution ::
  "string \<Rightarrow> string \<Rightarrow> int \<Rightarrow> constitution \<Rightarrow> (constitution_version \<times> constitution) res" where
  "store_activate_constitution draft_id activated_by now k =
     (case constitution_version_of (cn_versions k) draft_id of
        None \<Rightarrow> Inl (NotFound draft_id)
      | Some v \<Rightarrow>
          if v_status v \<noteq> GoalDraft then Inl (Invalid (Clause (NotActivatable draft_id (v_status v))))
          else case find (\<lambda>v. v_status v = GoalActive) (cn_versions k) of
            Some active \<Rightarrow> Inl (Invalid (Clause (AnotherActive (v_id active))))
          | None \<Rightarrow>
              if undecided_proposals k draft_id > 0
              then Inl (Invalid (Clause (UndecidedProposals (undecided_proposals k draft_id) draft_id)))
              else if clauses_for_version (cn_ledger k) draft_id = []
              then Inl (Invalid (Clause (NothingToActivate draft_id)))
              else let vs = map (promote_version draft_id activated_by now) (cn_versions k);
                       k1 = (set_versions vs k)\<lparr>cn_ledger := (cn_ledger k)
                          \<lparr>s_goals := map (promote_clause draft_id) (s_goals (cn_ledger k))\<rparr>\<rparr>
                   in (case constitution_version_of vs draft_id of
                         None \<Rightarrow> Inl (NotFound draft_id)
                       | Some v \<Rightarrow> Inr (v, k1)))"

definition activate_constitution ::
  "string \<Rightarrow> string \<Rightarrow> int \<Rightarrow> constitution \<Rightarrow> (constitution_version \<times> constitution) res" where
  "activate_constitution draft_id activated_by now k =
     (if blank activated_by then Inl (Invalid (Clause ActivationAttribution))
      else store_activate_constitution draft_id (trim activated_by) now k)"

datatype constitution_state = ConstitutionAbsent | ConstitutionDraft | ConstitutionActive

record constitution_status =
  st_state :: constitution_state
  st_version :: "constitution_version option"
  st_clause_count :: int

definition constitution_status_of :: "constitution \<Rightarrow> constitution_status" where
  "constitution_status_of k =
     (case active_constitution_version (cn_versions k) of
        Some v \<Rightarrow> \<lparr>st_state = ConstitutionActive, st_version = Some v,
                   st_clause_count = count_goals_by_status (cn_ledger k) GoalActive\<rparr>
      | None \<Rightarrow>
          (case draft_constitution_version (cn_versions k) of
             Some v \<Rightarrow> \<lparr>st_state = ConstitutionDraft, st_version = Some v,
                        st_clause_count = count_goals_by_status (cn_ledger k) GoalDraft\<rparr>
           | None \<Rightarrow> \<lparr>st_state = ConstitutionAbsent, st_version = None, st_clause_count = 0\<rparr>))"

subsection \<open>Bindings\<close>

text \<open>\<^verbatim>\<open>INSERT ... ON CONFLICT(goal_id, node_id) DO UPDATE SET mode\<close>: either way one row changes.\<close>

definition bind_node :: "string \<Rightarrow> binding_mode \<Rightarrow> ledger \<Rightarrow> string \<Rightarrow> ledger" where
  "bind_node goal_id mode s node =
     s\<lparr>s_artifacts :=
       (if \<exists>a \<in> set (s_artifacts s). fst a = goal_id \<and> fst (snd a) = node
        then map (\<lambda>a. if fst a = goal_id \<and> fst (snd a) = node then (goal_id, node, mode) else a) (s_artifacts s)
        else s_artifacts s @ [(goal_id, node, mode)])\<rparr>"

definition store_link_goal_to_artifact :: "string \<Rightarrow> string list \<Rightarrow> binding_mode \<Rightarrow> ledger \<Rightarrow> nat \<times> ledger" where
  "store_link_goal_to_artifact goal_id node_ids mode s =
     (length node_ids, foldl (bind_node goal_id mode) s node_ids)"

definition link_goal_to_artifact ::
  "string \<Rightarrow> string list \<Rightarrow> binding_mode \<Rightarrow> ledger \<Rightarrow> (nat \<times> ledger) res" where
  "link_goal_to_artifact goal_id node_ids mode s =
     (if \<not> goal_exists_on s goal_id then Inl (NotFound goal_id)
      else case get_goal s goal_id of
        None \<Rightarrow> Inl (NotFound goal_id)
      | Some g \<Rightarrow>
          if mode = ForbidChange \<and> \<not> is_normative (g_kind g) then Inl (Invalid (Clause LockOnlyNormative))
          else Inr (store_link_goal_to_artifact goal_id node_ids mode s))"

definition unbind_node :: "string \<Rightarrow> nat \<times> ledger \<Rightarrow> string \<Rightarrow> nat \<times> ledger" where
  "unbind_node goal_id = (\<lambda>(removed, s) node.
     (removed + length (filter (\<lambda>a. fst a = goal_id \<and> fst (snd a) = node) (s_artifacts s)),
      s\<lparr>s_artifacts := filter (\<lambda>a. \<not> (fst a = goal_id \<and> fst (snd a) = node)) (s_artifacts s)\<rparr>))"

definition unlink_goal_from_artifact :: "string \<Rightarrow> string list \<Rightarrow> ledger \<Rightarrow> (nat \<times> ledger) res" where
  "unlink_goal_from_artifact goal_id node_ids s =
     (if \<not> goal_exists_on s goal_id then Inl (NotFound goal_id)
      else Inr (foldl (unbind_node goal_id) (0, s) node_ids))"

definition artifacts_for_goal :: "ledger \<Rightarrow> string \<Rightarrow> string list" where
  "artifacts_for_goal s goal_id =
     remdups (map (\<lambda>a. fst (snd a))
       (filter (\<lambda>a. \<exists>g \<in> set (s_goals s). g_id g = fst a \<and> g_slug g = goal_slug goal_id) (s_artifacts s)))"

definition governed_node_ids :: "ledger \<Rightarrow> string list" where
  "governed_node_ids s =
     sort_dedup (map (\<lambda>a. fst (snd a))
       (filter (\<lambda>a. \<exists>g \<in> set (s_goals s). g_id g = fst a \<and> g_status g = GoalActive) (s_artifacts s)))"

subsection \<open>Discovery of cited facts\<close>

definition basename :: "string \<Rightarrow> string" where
  "basename path = last (split_on (CHR ''/'') path)"

definition is_adr :: "string \<Rightarrow> bool" where
  "is_adr path \<longleftrightarrow> sublist ''docs/adr/'' path \<and> suffix ''.md'' path \<and> \<not> suffix ''/README.md'' path"

definition is_ci_workflow :: "string \<Rightarrow> bool" where
  "is_ci_workflow path \<longleftrightarrow> sublist ''.github/workflows/'' path \<and> (suffix ''.yml'' path \<or> suffix ''.yaml'' path)"

definition documentation_detail :: "string \<Rightarrow> string \<Rightarrow> string option" where
  "documentation_detail path lower =
     (if lower \<in> {''readme.md'', ''readme''} \<and> CHR ''/'' \<notin> set path then Some ''states what the project is for''
      else if lower = ''agents.md'' then Some ''states constraints the project places on automated contributors''
      else if lower = ''contributing.md'' then Some ''states how a change is expected to be made''
      else if lower = ''security.md'' then Some ''states how security concerns are reported and handled''
      else if lower = ''rationale.md'' then Some ''states why the project is shaped the way it is''
      else None)"

definition classify :: "string \<Rightarrow> (project_fact_kind \<times> string \<times> string option) option" where
  "classify path =
     (let lower = map ascii_lower (basename path) in
      if is_adr path then Some (DecisionRecord, ''records an architecture decision'', None)
      else if is_ci_workflow path
      then Some (ContinuousIntegration, ''defines automated checks that run on change'',
             Some ''which of these checks are required, and what should happen when one fails?'')
      else case documentation_detail path lower of
        Some detail \<Rightarrow> Some (Documentation, detail, None)
      | None \<Rightarrow>
          if lower \<in> {''cargo.toml'', ''package.json'', ''go.mod'', ''pyproject.toml'', ''setup.cfg''} \<or>
             prefix ''requirements'' lower \<and> suffix ''.txt'' lower
          then Some (Manifest, ''declares dependencies and build metadata'', None)
          else if lower \<in> {''.pre-commit-config.yaml'', ''.editorconfig'', ''rustfmt.toml'', ''clippy.toml'',
                 ''.prettierrc'', ''.prettierrc.json'', ''.eslintrc'', ''.eslintrc.json'', ''.eslintrc.cjs'',
                 ''eslint.config.js'', ''eslint.config.mjs''}
          then Some (Linter, ''configures formatting or static analysis'',
                 Some ''is this advisory, or must it pass before a change lands?'')
          else if lower \<in> {''pytest.ini'', ''tox.ini''} \<or> prefix ''vitest.config.'' lower \<or> prefix ''jest.config.'' lower
          then Some (TestConfiguration, ''configures the test runner'',
                 Some ''what level of evidence does this project expect before a change is called done?'')
          else if lower = ''codeowners''
          then Some (Ownership, ''declares who owns or reviews parts of the tree'',
                 Some ''who holds amendment and exception authority?'')
          else None)"

text \<open>The derived order of \<^verbatim>\<open>ProjectFactKind\<close> is its declaration order.\<close>

fun fact_rank :: "project_fact_kind \<Rightarrow> nat" where
  "fact_rank Documentation = 0"
| "fact_rank DecisionRecord = 1"
| "fact_rank Manifest = 2"
| "fact_rank ContinuousIntegration = 3"
| "fact_rank Linter = 4"
| "fact_rank TestConfiguration = 5"
| "fact_rank Ownership = 6"

definition discover_project_facts :: "string list \<Rightarrow> project_fact list" where
  "discover_project_facts paths =
     remdups_adj (sort_key (\<lambda>f. fact_rank (pf_kind f)) (sort_key pf_source_path
       (List.map_filter (\<lambda>path. map_option (\<lambda>(kind, detail, question).
            \<lparr>pf_kind = kind, pf_source_path = path, pf_detail = detail, pf_question = question\<rparr>) (classify path))
         (map (map (\<lambda>c. if c = CHR 0x5C then CHR ''/'' else c)) paths))))"

text \<open>\<^verbatim>\<open>INSERT ... ON CONFLICT(constitution_version, kind, source_path) DO UPDATE\<close> for each fact.\<close>

definition record_fact ::
  "string \<Rightarrow> int \<Rightarrow> (string \<times> project_fact \<times> int) list \<Rightarrow> project_fact \<Rightarrow> (string \<times> project_fact \<times> int) list" where
  "record_fact version_id now tbl f =
     (let hit = (\<lambda>(v, g, since). v = version_id \<and> pf_kind g = pf_kind f \<and> pf_source_path g = pf_source_path f) in
      if \<exists>r \<in> set tbl. hit r
      then map (\<lambda>r. if hit r then (case r of (v, g, since) \<Rightarrow>
             (v, g\<lparr>pf_detail := pf_detail f, pf_question := pf_question f\<rparr>, since)) else r) tbl
      else tbl @ [(version_id, f, now)])"

definition record_project_facts :: "string \<Rightarrow> project_fact list \<Rightarrow> int \<Rightarrow> constitution \<Rightarrow> nat \<times> constitution" where
  "record_project_facts version_id facts now k =
     (length facts, k\<lparr>cn_facts := foldl (record_fact version_id now) (cn_facts k) facts\<rparr>)"

definition project_facts :: "constitution \<Rightarrow> string \<Rightarrow> project_fact list" where
  "project_facts k version_id =
     sort_key (\<lambda>f. fact_kind_as_str (pf_kind f)) (sort_key pf_source_path
       (map (\<lambda>r. fst (snd r)) (filter (\<lambda>r. fst r = version_id) (cn_facts k))))"

end
