(* ===== verification/Policy_Packs.thy ===== *)
theory Policy_Packs
  imports Constitution
begin

text \<open>
  Policy packs: their validation and the two that ship with the program (\<^verbatim>\<open>policy.rs\<close>), their
  registration, proposal and review (\<^verbatim>\<open>store/policy_packs/\<close>), the first draft of a constitution
  (\<^verbatim>\<open>facade/constitution/drafting.rs\<close>, \<^verbatim>\<open>packs.rs\<close>) and the comparison of a newer pack with what was
  adopted (\<^verbatim>\<open>facade/amendments.rs\<close>). The SHA-256 digest of a pack's serialised content is the
  parameter \<open>digest\<close>, the short hash the parameter \<open>hash\<close>, and the JSON text of a clause, by
  which proposals are listed, the parameter \<open>clause_json\<close>.
\<close>

subsection \<open>Sequences of separate transactions\<close>

text \<open>
  A call that is not one transaction keeps what it wrote before it failed, so it returns a state
  with every result. \<open>commit\<close> runs one transaction, \<open>proceed\<close> goes on after a success.
\<close>

definition commit :: "('s \<Rightarrow> ('a \<times> 's) res) \<Rightarrow> 's \<Rightarrow> 'a res \<times> 's" where
  "commit run k = (case run k of Inl e \<Rightarrow> (Inl e, k) | Inr (x, k') \<Rightarrow> (Inr x, k'))"

definition proceed :: "'a res \<times> 's \<Rightarrow> ('a \<Rightarrow> 's \<Rightarrow> 'b res \<times> 's) \<Rightarrow> 'b res \<times> 's" where
  "proceed r f = (case r of (Inl e, k) \<Rightarrow> (Inl e, k) | (Inr x, k) \<Rightarrow> f x k)"

subsection \<open>Validation\<close>

definition ENGINE_VERSION :: string where
  "ENGINE_VERSION = ''0.1.7-alpha''"

definition valid_key :: "string \<Rightarrow> bool" where
  "valid_key value \<longleftrightarrow> value \<noteq> [] \<and>
     (\<forall>c \<in> set value. CHR ''a'' \<le> c \<and> c \<le> CHR ''z'' \<or> CHR ''0'' \<le> c \<and> c \<le> CHR ''9'' \<or>
        c \<in> {CHR ''.'', CHR ''_'', CHR ''-''})"

definition validate_pack_clause :: "string list \<Rightarrow> pack_clause \<Rightarrow> string list res" where
  "validate_pack_clause keys c =
     (if \<not> valid_key (kc_key c) \<or> blank (kc_title c) \<or> blank (kc_statement c) \<or> blank (kc_rationale c)
      then Inl (Invalid (Clause (PackClauseFields (kc_key c))))
      else if kc_key c \<in> set keys then Inl (Invalid (Clause (PackDuplicateKey (kc_key c))))
      else Inr (kc_key c # keys))"

definition validate_pack :: "(constitution_pack \<Rightarrow> string) \<Rightarrow> constitution_pack \<Rightarrow> unit res" where
  "validate_pack digest p =
     (if \<not> valid_key (kp_id p) then Inl (Invalid (Clause PackKey))
      else if blank (kp_version p) \<or> blank (kp_title p) then Inl (Invalid (Clause PackHeader))
      else if kp_compatible_engine_versions p = [] \<or> (\<exists>v \<in> set (kp_compatible_engine_versions p). blank v)
      then Inl (Invalid (Clause PackEngines))
      else if kp_clauses p = [] then Inl (Invalid (Clause PackEmpty))
      else and_then (try_fold validate_pack_clause [] (kp_clauses p)) (\<lambda>_.
        if \<exists>c \<in> set (kp_conflicts p). \<not> valid_key (kf_pack_id c) \<or> blank (kf_reason c)
        then Inl (Invalid (Clause PackConflictFields))
        else if kp_digest p \<noteq> digest p then Inl (Invalid (Clause (PackDigest (digest p))))
        else Inr ()))"

subsection \<open>The packs that ship with the program\<close>

definition principle :: "string \<Rightarrow> string \<Rightarrow> string \<Rightarrow> string \<Rightarrow> pack_clause" where
  "principle key title statement rationale =
     \<lparr>kc_key = key, kc_kind = Principle, kc_title = title, kc_statement = statement, kc_rationale = rationale,
      kc_default_scope = None, kc_evidence_contract = None, kc_default_consequence = Some Review,
      kc_suggested_controls = []\<rparr>"

definition sealed_pack :: "(constitution_pack \<Rightarrow> string) \<Rightarrow> constitution_pack \<Rightarrow> constitution_pack" where
  "sealed_pack digest p = p\<lparr>kp_digest := digest p\<rparr>"

definition common_core_clauses :: "pack_clause list" where
  "common_core_clauses =
     [principle ''core.evidence'' ''Evidence before claims''
        ''Do not claim success without relevant, fresh evidence.''
        ''Tests, compile and lint results, benchmarks, or review evidence should match the risk of the claim.'',
      principle ''core.intent'' ''Preserve project intent''
        ''Preserve declared project intent and unrelated human work.''
        ''Scoped diffs, task and goal linkage, and non-destructive handling of unrelated work keep intent attributable.'',
      principle ''core.safety'' ''Protect the security boundary''
        ''Protect secrets, sensitive data, and the project's security boundary.''
        ''Security-specific checks and reviewed constraints should match the project's threat model.'',
      principle ''core.proportionality'' ''Act proportionally''
        ''Keep change and validation proportional to impact and reversibility.''
        ''Use focused validation for narrow changes and broader proof for shared or irreversible contracts.'',
      principle ''core.evolution'' ''Evolve policy explicitly''
        ''Change policy through explicit amendment or bounded exception, never silent drift.''
        ''Version chains, attributed rationale, and expiring waivers make policy evolution reviewable.'']"

definition common_core_pack :: "(constitution_pack \<Rightarrow> string) \<Rightarrow> constitution_pack" where
  "common_core_pack digest =
     sealed_pack digest \<lparr>kp_id = ''common-core'', kp_version = ''1'', kp_digest = [],
       kp_title = ''Lodestar Common Core'',
       kp_description = ''Five review-first principles proposed to every project, never imposed.'',
       kp_compatible_engine_versions = [''*''], kp_preamble_fragments = [],
       kp_clauses = common_core_clauses, kp_conflicts = []\<rparr>"

definition fleet_delivery_clauses :: "pack_clause list" where
  "fleet_delivery_clauses =
     [\<lparr>kc_key = ''fleet.protected_branch'', kc_kind = Invariant,
       kc_title = ''A protected branch advances only by reviewed merge'',
       kc_statement = ''A protected branch advances only through a reviewed pull request whose required checks passed. No agent pushes directly to a protected branch.'',
       kc_rationale = ''Review is where a fleet's work becomes one history someone actually read. A direct push skips the only step that catches an agent confidently doing the wrong thing.'',
       kc_default_scope = Some ''workflow:git.publish'',
       kc_evidence_contract = Some ''The push target ref, the pull request that merged it, and the conclusion of its required checks.'',
       kc_default_consequence = Some Block,
       kc_suggested_controls = [''pre-push hook refusing a protected branch'', ''server-side branch protection'', ''history inspection for a non-merge advance'']\<rparr>,
      \<lparr>kc_key = ''fleet.single_publisher'', kc_kind = Constraint,
       kc_title = ''One publishing owner per task branch'',
       kc_statement = ''One owner publishes each task branch from its clean checkout or linked worktree, pushing the current branch's exact HEAD to the same remote branch.'',
       kc_rationale = ''Concurrent publishers can reconcile the same divergence differently. Branch ownership keeps publication a decision without making one physical checkout a global bottleneck.'',
       kc_default_scope = Some ''workflow:git.publish'',
       kc_evidence_contract = Some ''The publishing identity, the checkout it published from, and the exact HEAD pushed.'',
       kc_default_consequence = Some Block,
       kc_suggested_controls = [''canonical publisher refusals'']\<rparr>,
      \<lparr>kc_key = ''fleet.isolated_worktree'', kc_kind = Constraint,
       kc_title = ''Concurrent workstreams use isolated worktrees'',
       kc_statement = ''Each concurrent agent workstream uses its own branch and linked worktree. Sharing one writable checkout is a reviewed exception, not the default.'',
       kc_rationale = ''Separate worktrees isolate files, indexes, and branch selection while Lodestar coordinates ownership and MindLeak shares repository learning.'',
       kc_default_scope = Some ''workflow:topology'',
       kc_evidence_contract = Some ''The active sessions' declared branches and worktree identities for one repository id.'',
       kc_default_consequence = Some Review,
       kc_suggested_controls = [''declared session topology comparison'']\<rparr>,
      \<lparr>kc_key = ''fleet.commit_identity'', kc_kind = Invariant,
       kc_title = ''One logical change has one commit identity'',
       kc_statement = ''Work already published under one commit id is not republished under another. Cherry-pick is reserved for a declared backport or human-approved recovery.'',
       kc_rationale = ''Intent and conformance evidence are addressed by commit id. Routine cherry-picking gives one logical change two identities and splits its provenance in half.'',
       kc_default_scope = Some ''workflow:git.publish'',
       kc_evidence_contract = Some ''The published commit ids and whether the remote tip is an ancestor of the pushed HEAD.'',
       kc_default_consequence = Some Block,
       kc_suggested_controls = [''non-ancestor push refusal'', ''patch-id comparison against remote ancestry'']\<rparr>,
      \<lparr>kc_key = ''fleet.scoped_commit'', kc_kind = Constraint,
       kc_title = ''A commit stays inside its declared scope'',
       kc_statement = ''An agent commits only paths within the scope it declared on its claim; the staged set may not escape that scope.'',
       kc_rationale = ''Worktree isolation prevents accidental staging across agents, but an out-of-scope commit still misattributes work and weakens conformance evidence.'',
       kc_default_scope = Some ''workflow:git.commit'',
       kc_evidence_contract = Some ''The staged path set compared against the claim's declared scope.'',
       kc_default_consequence = Some Block,
       kc_suggested_controls = [''scoped-commit guard'']\<rparr>,
      \<lparr>kc_key = ''fleet.branch_freshness'', kc_kind = Constraint,
       kc_title = ''Work starts from, and lands close to, the current head'',
       kc_statement = ''Work is based on a recent head and reconciled before publication rather than after divergence has accumulated.'',
       kc_rationale = ''Staleness is cheap to fix early and expensive later. Divergence discovered at the publisher or the merge has already cost the work it conflicts with.'',
       kc_default_scope = Some ''workflow:git'',
       kc_evidence_contract = Some ''Commits behind the declared base at claim time and at publication.'',
       kc_default_consequence = Some Review,
       kc_suggested_controls = [''required up-to-date branch before merge'', ''declared session context staleness (ADR-0035)'']\<rparr>,
      \<lparr>kc_key = ''fleet.topology_honesty'', kc_kind = Principle,
       kc_title = ''Declared working topology matches actual'',
       kc_statement = ''The checkout topology an agent declares matches the one it is working in.'',
       kc_rationale = ''This does not prefer a topology. It exists so coordination advice is computed from what is true rather than from what was assumed.'',
       kc_default_scope = Some ''workflow:topology'',
       kc_evidence_contract = Some ''The declared branch and checkout compared with the observed ones.'',
       kc_default_consequence = Some Review,
       kc_suggested_controls = [''declared versus observed comparison'']\<rparr>]"

definition fleet_delivery_pack :: "(constitution_pack \<Rightarrow> string) \<Rightarrow> constitution_pack" where
  "fleet_delivery_pack digest =
     sealed_pack digest \<lparr>kp_id = ''fleet-delivery'', kp_version = ''2'', kp_digest = [],
       kp_title = ''Fleet delivery'',
       kp_description = ''How a fleet of agents lands work safely: review, publication, commit identity, scope, and freshness. Proposed, never imposed.'',
       kp_compatible_engine_versions = [''*''], kp_preamble_fragments = [],
       kp_clauses = fleet_delivery_clauses, kp_conflicts = []\<rparr>"

subsection \<open>Registration and proposal\<close>

definition get_policy_pack :: "constitution \<Rightarrow> string \<Rightarrow> string \<Rightarrow> constitution_pack option" where
  "get_policy_pack k i version = find (\<lambda>p. kp_id p = i \<and> kp_version p = version) (cn_packs k)"

definition insert_conflict ::
  "constitution_pack \<Rightarrow> (string \<times> string \<times> string \<times> string) list \<Rightarrow> pack_conflict \<Rightarrow>
   (string \<times> string \<times> string \<times> string) list res" where
  "insert_conflict p tbl c =
     (if \<exists>(i, v, other, _) \<in> set tbl. i = kp_id p \<and> v = kp_version p \<and> other = kf_pack_id c
      then Inl (Sqlite ''policy_pack_conflicts'')
      else Inr (tbl @ [(kp_id p, kp_version p, kf_pack_id c, kf_reason c)]))"

definition register_policy_pack ::
  "(constitution_pack \<Rightarrow> string) \<Rightarrow> constitution_pack \<Rightarrow> constitution \<Rightarrow> (constitution_pack \<times> constitution) res" where
  "register_policy_pack digest p k =
     and_then (validate_pack digest p) (\<lambda>_.
       if \<not> (\<exists>v \<in> set (kp_compatible_engine_versions p). v = ''*'' \<or> v = ENGINE_VERSION)
       then Inl (Invalid (Clause (PackIncompatible (kp_id p) (kp_version p))))
       else case get_policy_pack k (kp_id p) (kp_version p) of
         Some old \<Rightarrow>
           if kp_digest old \<noteq> kp_digest p then Inl (Invalid (Clause (PackImmutable (kp_id p) (kp_version p))))
           else Inr (p, k)
       | None \<Rightarrow>
           and_then (try_fold (insert_conflict p) (cn_pack_conflicts k) (kp_conflicts p)) (\<lambda>conflicts.
             Inr (p, k\<lparr>cn_packs := cn_packs k @ [p], cn_pack_conflicts := conflicts\<rparr>)))"

definition context_of :: "string option \<Rightarrow> string" where
  "context_of constitution_version = (case constitution_version of None \<Rightarrow> [] | Some v \<Rightarrow> v)"

definition clause_identity :: "string \<Rightarrow> string \<Rightarrow> string option \<Rightarrow> string \<Rightarrow> string" where
  "clause_identity pack_id version constitution_version key =
     pack_id @ '':'' @ version @ '':'' @ context_of constitution_version @ '':'' @ key"

text \<open>
  \<^verbatim>\<open>INSERT OR IGNORE\<close>: a row that repeats an identifier, or a clause of the same pack version in
  the same context, is not inserted.
\<close>

definition propose_clause ::
  "(string \<Rightarrow> string) \<Rightarrow> constitution_pack \<Rightarrow> string \<Rightarrow> int \<Rightarrow> pack_proposal list \<Rightarrow> pack_clause \<Rightarrow>
   pack_proposal list" where
  "propose_clause hash p context now tbl c =
     (let v = (if context = [] then None else Some context);
          i = ''pack-proposal:'' @ hash (clause_identity (kp_id p) (kp_version p) v (kc_key c))
      in if \<exists>r \<in> set tbl. pp_id r = i \<or>
              pp_pack_id r = kp_id p \<and> pp_pack_version r = kp_version p \<and> pp_constitution_version r = v \<and>
              kc_key (pp_clause r) = kc_key c
         then tbl
         else tbl @ [\<lparr>pp_id = i, pp_pack_id = kp_id p, pp_pack_version = kp_version p,
                      pp_pack_digest = kp_digest p, pp_constitution_version = v, pp_clause = c,
                      pp_disposition = None, pp_reviewed_by = None, pp_review_reason = None,
                      pp_reviewed_at = None, pp_adopted_goal_id = None, pp_created_at = now\<rparr>])"

definition policy_pack_proposals ::
  "(pack_clause \<Rightarrow> string) \<Rightarrow> constitution \<Rightarrow> string \<Rightarrow> string \<Rightarrow> string option \<Rightarrow> bool \<Rightarrow> pack_proposal list" where
  "policy_pack_proposals clause_json k pack_id version constitution_version include_decided =
     sort_key (\<lambda>p. clause_json (pp_clause p))
       (filter (\<lambda>p. pp_pack_id p = pack_id \<and> pp_pack_version p = version \<and>
          context_of (pp_constitution_version p) = context_of constitution_version \<and>
          (include_decided \<or> pp_disposition p = None)) (cn_proposals k))"

definition unresolved_conflicts_on :: "constitution \<Rightarrow> string \<Rightarrow> string \<Rightarrow> string \<Rightarrow> pack_conflict list" where
  "unresolved_conflicts_on k pack_id version context =
     (let declared = map (\<lambda>(_, _, other, reason). (other, reason))
            (filter (\<lambda>(i, v, _, _). i = pack_id \<and> v = version) (cn_pack_conflicts k));
          against = map (\<lambda>(i, _, _, reason). (i, reason))
            (filter (\<lambda>(_, _, other, _). other = pack_id) (cn_pack_conflicts k));
          open_there = (\<lambda>(other, _). \<exists>p \<in> set (cn_proposals k). pp_pack_id p = other \<and>
            context_of (pp_constitution_version p) = context \<and> pp_disposition p \<noteq> Some Rejected)
      in map (\<lambda>(other, reason). \<lparr>kf_pack_id = other, kf_reason = reason\<rparr>)
           (sort_key fst (remdups (filter open_there (declared @ against)))))"

record proposal_batch =
  pb_proposals :: "pack_proposal list"
  pb_conflicts :: "pack_conflict list"
  pb_needs_human :: bool

definition store_propose_policy_pack ::
  "(string \<Rightarrow> string) \<Rightarrow> (pack_clause \<Rightarrow> string) \<Rightarrow> string \<Rightarrow> string \<Rightarrow> string option \<Rightarrow> int \<Rightarrow> constitution \<Rightarrow>
   (proposal_batch \<times> constitution) res" where
  "store_propose_policy_pack hash clause_json pack_id version constitution_version now k =
     (case get_policy_pack k pack_id version of
        None \<Rightarrow> Inl (NotFound (pack_id @ ''@'' @ version))
      | Some p \<Rightarrow>
          let context = context_of constitution_version in
          if context \<noteq> [] \<and> constitution_version_of (cn_versions k) context = None then Inl (NotFound context)
          else let k1 = k\<lparr>cn_proposals := foldl (propose_clause hash p context now) (cn_proposals k) (kp_clauses p)\<rparr>;
                   conflicts = unresolved_conflicts_on k1 pack_id version context
               in Inr (\<lparr>pb_proposals = policy_pack_proposals clause_json k1 pack_id version constitution_version False,
                        pb_conflicts = conflicts, pb_needs_human = (conflicts \<noteq> [])\<rparr>, k1))"

definition propose_policy_pack ::
  "(string \<Rightarrow> string) \<Rightarrow> (pack_clause \<Rightarrow> string) \<Rightarrow> string \<Rightarrow> string \<Rightarrow> string option \<Rightarrow> int \<Rightarrow> constitution \<Rightarrow>
   (proposal_batch \<times> constitution) res" where
  "propose_policy_pack hash clause_json pack_id version constitution_version now k =
     store_propose_policy_pack hash clause_json pack_id version
       (case constitution_version of Some v \<Rightarrow> Some v
        | None \<Rightarrow> map_option v_id (active_constitution_version (cn_versions k))) now k"

subsection \<open>Review\<close>

definition get_proposal_on :: "constitution \<Rightarrow> string \<Rightarrow> pack_proposal option" where
  "get_proposal_on k i = find (\<lambda>p. pp_id p = i) (cn_proposals k)"

definition pack_clause_provenance :: "constitution \<Rightarrow> string \<Rightarrow> pack_provenance option" where
  "pack_clause_provenance k goal_id = find (\<lambda>v. pv_goal_id v = goal_id) (cn_provenance k)"

definition pack_clause_disposition :: "constitution \<Rightarrow> string \<Rightarrow> pack_disposition option" where
  "pack_clause_disposition k goal_id =
     (case find (\<lambda>p. pp_adopted_goal_id p = Some goal_id) (cn_proposals k) of
        None \<Rightarrow> None
      | Some p \<Rightarrow> pp_disposition p)"

definition constitution_status_on :: "constitution \<Rightarrow> string option \<Rightarrow> goal_status res" where
  "constitution_status_on k constitution_version =
     (if context_of constitution_version = [] then Inr GoalDraft
      else case constitution_version_of (cn_versions k) (context_of constitution_version) of
        None \<Rightarrow> Inl (Sqlite ''constitution_versions'')
      | Some v \<Rightarrow> Inr (v_status v))"

definition validate_tailored_clause :: "pack_clause \<Rightarrow> pack_clause \<Rightarrow> unit res" where
  "validate_tailored_clause source tailored =
     (if kc_key tailored \<noteq> kc_key source \<or> blank (kc_title tailored) \<or> blank (kc_statement tailored) \<or>
         blank (kc_rationale tailored)
      then Inl (Invalid (Clause TailoredFields)) else Inr ())"

definition selected_clause :: "pack_proposal \<Rightarrow> pack_disposition \<Rightarrow> pack_clause option \<Rightarrow> pack_clause res" where
  "selected_clause p d tailored =
     (case d of
        Tailored \<Rightarrow>
          (case tailored of
             None \<Rightarrow> Inl (Invalid (Clause TailoredMissing))
           | Some c \<Rightarrow> and_then (validate_tailored_clause (pp_clause p) c) (\<lambda>_. Inr c))
      | Adopted \<Rightarrow>
          if tailored \<noteq> None then Inl (Invalid (Clause TailoredUnexpected)) else Inr (pp_clause p)
      | Rejected \<Rightarrow> Inr (pp_clause p))"

definition prior_version :: "constitution \<Rightarrow> pack_proposal \<Rightarrow> string option" where
  "prior_version k p =
     map_option pv_pack_version (find (\<lambda>v. pv_pack_id v = pp_pack_id p \<and>
        pv_clause_key v = kc_key (pp_clause p) \<and> pv_pack_version v \<noteq> pp_pack_version p \<and>
        (\<exists>g \<in> set (s_goals (cn_ledger k)). g_id g = pv_goal_id v \<and> g_status g = GoalActive)) (cn_provenance k))"

definition materialized_goal ::
  "(string \<Rightarrow> string) \<Rightarrow> pack_proposal \<Rightarrow> pack_clause \<Rightarrow> goal_status \<Rightarrow> string option \<Rightarrow> int \<Rightarrow> goal" where
  "materialized_goal hash p c status reason now =
     (bare_goal (''goal:pack-'' @ hash (clause_identity (pp_pack_id p) (pp_pack_version p)
          (pp_constitution_version p) (kc_key (pp_clause p))))
        (slugify hash (kc_title c)) (kc_kind c) (kc_title c) (kc_statement c) status now)
       \<lparr>g_reason := reason, g_constitution_version := pp_constitution_version p,
        g_rationale := Some (kc_rationale c), g_scope := kc_default_scope c,
        g_evidence_contract := kc_evidence_contract c, g_consequence := kc_default_consequence c,
        g_origin := OriginPack\<rparr>"

definition materialize ::
  "(string \<Rightarrow> string) \<Rightarrow> pack_proposal \<Rightarrow> pack_clause \<Rightarrow> string option \<Rightarrow> int \<Rightarrow> constitution \<Rightarrow>
   (goal \<times> constitution) res" where
  "materialize hash p c reason now k =
     (let conflicts = unresolved_conflicts_on k (pp_pack_id p) (pp_pack_version p)
            (context_of (pp_constitution_version p))
      in if conflicts \<noteq> [] then Inl (Invalid (Clause (PackConflicts (map kf_pack_id conflicts))))
         else case prior_version k p of
           Some prior \<Rightarrow> Inl (Invalid (Clause
             (PackUpgradeRefused (pp_pack_id p) (pp_pack_version p) (kc_key (pp_clause p)) prior)))
         | None \<Rightarrow>
             and_then (constitution_status_on k (pp_constitution_version p)) (\<lambda>status.
             let g = materialized_goal hash p c status reason now in
             and_then (insert_goal_on g (cn_ledger k)) (\<lambda>(_, s1).
               if pack_clause_provenance k (g_id g) \<noteq> None then Inl (Sqlite ''pack_clause_provenance'')
               else Inr (g, k\<lparr>cn_ledger := s1, cn_provenance := cn_provenance k @
                 [\<lparr>pv_goal_id = g_id g, pv_pack_id = pp_pack_id p, pv_pack_version = pp_pack_version p,
                   pv_pack_digest = pp_pack_digest p, pv_clause_key = kc_key (pp_clause p),
                   pv_source_clause = pp_clause p\<rparr>]\<rparr>))))"

definition decide_proposal ::
  "string \<Rightarrow> pack_disposition \<Rightarrow> string \<Rightarrow> string option \<Rightarrow> int \<Rightarrow> string option \<Rightarrow> constitution \<Rightarrow> constitution" where
  "decide_proposal proposal_id d actor reason now adopted k =
     k\<lparr>cn_proposals := map (\<lambda>p. if pp_id p = proposal_id \<and> pp_disposition p = None
        then p\<lparr>pp_disposition := Some d, pp_reviewed_by := Some actor, pp_review_reason := reason,
               pp_reviewed_at := Some now, pp_adopted_goal_id := adopted\<rparr> else p) (cn_proposals k)\<rparr>"

definition review_pack_clause ::
  "(string \<Rightarrow> string) \<Rightarrow> string \<Rightarrow> pack_disposition \<Rightarrow> pack_clause option \<Rightarrow> string \<Rightarrow> string option \<Rightarrow> int \<Rightarrow>
   constitution \<Rightarrow> ((pack_proposal \<times> goal option) \<times> constitution) res" where
  "review_pack_clause hash proposal_id d tailored actor reason now k =
     (if blank actor then Inl (Invalid (Clause ReviewActor))
      else if d = Rejected \<and> (case reason of None \<Rightarrow> True | Some r \<Rightarrow> blank r)
      then Inl (Invalid (Clause RejectionReason))
      else case get_proposal_on k proposal_id of
        None \<Rightarrow> Inl (NotFound proposal_id)
      | Some p \<Rightarrow>
          (case pp_disposition p of
             Some old \<Rightarrow>
               if old \<noteq> d then Inl (Invalid (Clause (DecidedAlready proposal_id (disposition_as_str old))))
               else Inr ((p, case pp_adopted_goal_id p of None \<Rightarrow> None | Some i \<Rightarrow> get_goal (cn_ledger k) i), k)
           | None \<Rightarrow>
               and_then (selected_clause p d tailored) (\<lambda>c.
               and_then (if d = Rejected then Inr (None, k)
                         else and_then (materialize hash p c reason now k) (\<lambda>(g, k1). Inr (Some g, k1)))
                 (\<lambda>(g, k1).
                   let k2 = decide_proposal proposal_id d actor reason now (map_option g_id g) k1
                   in case get_proposal_on k2 proposal_id of
                        None \<Rightarrow> Inl (NotFound proposal_id)
                      | Some p' \<Rightarrow> Inr ((p', g), k2)))))"

subsection \<open>The first draft\<close>

definition propose_constitution ::
  "(string \<Rightarrow> string) \<Rightarrow> (pack_clause \<Rightarrow> string) \<Rightarrow> (constitution_pack \<Rightarrow> string) \<Rightarrow> string list \<Rightarrow> string option \<Rightarrow>
   int \<Rightarrow> constitution \<Rightarrow> (constitution_version \<times> project_fact list \<times> proposal_batch) res \<times> constitution" where
  "propose_constitution hash clause_json digest paths created_by now k =
     (case active_constitution_version (cn_versions k) of
        Some active \<Rightarrow> (Inl (Invalid (Clause (AlreadyGoverned (v_id active)))), k)
      | None \<Rightarrow>
          (case draft_constitution_version (cn_versions k) of
             Some draft \<Rightarrow> (Inl (Invalid (Clause (DraftAwaitsReview (v_id draft)))), k)
           | None \<Rightarrow>
               let number = next_constitution_version_number (cn_versions k);
                   i = ''constitution:v'' @ show_int number;
                   facts = discover_project_facts paths;
                   pack = common_core_pack digest
               in proceed (commit (\<lambda>k. and_then (create_constitution_version i number GoalDraft created_by now
                            (cn_versions k)) (\<lambda>(v, vs). Inr (v, set_versions vs k))) k) (\<lambda>version k.
                  proceed (commit (\<lambda>k. Inr (record_project_facts i facts now k)) k) (\<lambda>_ k.
                  proceed (commit (register_policy_pack digest pack) k) (\<lambda>_ k.
                  proceed (commit (propose_policy_pack hash clause_json (kp_id pack) (kp_version pack) (Some i) now) k)
                    (\<lambda>batch k. (Inr (version, facts, batch), k)))))))"

subsection \<open>Upgrades\<close>

record upgrade_clause =
  uc_key :: string
  uc_change :: string
  uc_adopted_from :: "pack_clause option"
  uc_incoming :: "pack_clause option"
  uc_local_goal_id :: "string option"
  uc_locally_tailored :: bool

record pack_upgrade =
  pu_pack_id :: string
  pu_from_version :: string
  pu_to_version :: string
  pu_clauses :: "upgrade_clause list"

definition adopted_from_pack :: "constitution \<Rightarrow> string \<Rightarrow> (goal \<times> pack_provenance) list" where
  "adopted_from_pack k pack_id =
     List.map_filter (\<lambda>g. case pack_clause_provenance k (g_id g) of
         None \<Rightarrow> None
       | Some v \<Rightarrow> if pv_pack_id v \<noteq> pack_id then None else Some (g, v)) (get_constitution (cn_ledger k))"

definition upgrade_of :: "constitution \<Rightarrow> constitution_pack \<Rightarrow> goal \<times> pack_provenance \<Rightarrow> upgrade_clause option" where
  "upgrade_of k incoming = (\<lambda>(g, v).
     let change = (\<lambda>c new. \<lparr>uc_key = pv_clause_key v, uc_change = c, uc_adopted_from = Some (pv_source_clause v),
           uc_incoming = new, uc_local_goal_id = Some (g_id g),
           uc_locally_tailored = (pack_clause_disposition k (g_id g) = Some Tailored)\<rparr>)
     in case find (\<lambda>c. kc_key c = pv_clause_key v) (kp_clauses incoming) of
          None \<Rightarrow> Some (change ''removed'' None)
        | Some c \<Rightarrow> if c \<noteq> pv_source_clause v then Some (change ''changed'' (Some c)) else None)"

definition plan_pack_upgrade :: "constitution \<Rightarrow> string \<Rightarrow> string \<Rightarrow> pack_upgrade res" where
  "plan_pack_upgrade k pack_id to_version =
     (case get_policy_pack k pack_id to_version of
        None \<Rightarrow> Inl (NotFound (pack_id @ ''@'' @ to_version))
      | Some incoming \<Rightarrow>
          let adopted = adopted_from_pack k pack_id;
              seen = map (\<lambda>(_, v). pv_clause_key v) adopted;
              fresh = map (\<lambda>c. \<lparr>uc_key = kc_key c, uc_change = ''added'', uc_adopted_from = None,
                  uc_incoming = Some c, uc_local_goal_id = None, uc_locally_tailored = False\<rparr>)
                (filter (\<lambda>c. kc_key c \<notin> set seen) (kp_clauses incoming))
          in Inr \<lparr>pu_pack_id = pack_id,
                  pu_from_version = (case adopted of [] \<Rightarrow> [] | (_, v) # _ \<Rightarrow> pv_pack_version v),
                  pu_to_version = to_version,
                  pu_clauses = sort_key uc_key (List.map_filter (upgrade_of k incoming) adopted @ fresh)\<rparr>)"

end
