(* ===== verification/Amendments.thy ===== *)
theory Amendments
  imports Policy_Packs
begin

text \<open>
  Amending an adopted constitution (\<^verbatim>\<open>amendment.rs\<close>, \<^verbatim>\<open>store/amendments.rs\<close>,
  \<^verbatim>\<open>facade/amendments.rs\<close>): the difference of two versions, the draft that carries every clause
  forward, clauses authored into it, and the promotion that retires the old version and moves
  controls, bindings and unfinished tasks to the successors of their clauses. Where an
  \<^verbatim>\<open>UPDATE OR REPLACE\<close> makes rows collide, they are taken in table order.
\<close>

subsection \<open>The difference of two versions\<close>

fun clause_change_as_str :: "clause_change \<Rightarrow> string" where
  "clause_change_as_str Added = ''added''"
| "clause_change_as_str Removed = ''removed''"
| "clause_change_as_str Changed = ''changed''"

definition changed_fields :: "goal \<Rightarrow> goal \<Rightarrow> string list" where
  "changed_fields before after =
     map fst (filter snd
       [(''kind'', g_kind before \<noteq> g_kind after),
        (''title'', g_title before \<noteq> g_title after),
        (''statement'', g_statement before \<noteq> g_statement after),
        (''rationale'', g_rationale before \<noteq> g_rationale after),
        (''scope'', g_scope before \<noteq> g_scope after),
        (''evidence_contract'', g_evidence_contract before \<noteq> g_evidence_contract after),
        (''consequence'', g_consequence before \<noteq> g_consequence after),
        (''waivable'', g_waivable before \<noteq> g_waivable after),
        (''waiver_authority'', g_waiver_authority before \<noteq> g_waiver_authority after)])"

definition diff_old :: "goal list \<Rightarrow> goal \<Rightarrow> clause_diff option" where
  "diff_old after old =
     (case find (\<lambda>new. g_slug new = g_slug old) after of
        None \<Rightarrow> Some \<lparr>cd_slug = g_slug old, cd_change = Removed, cd_fields = [], cd_before = Some old, cd_after = None\<rparr>
      | Some new \<Rightarrow>
          if changed_fields old new = [] then None
          else Some \<lparr>cd_slug = g_slug old, cd_change = Changed, cd_fields = changed_fields old new,
                     cd_before = Some old, cd_after = Some new\<rparr>)"

definition diff_new :: "goal list \<Rightarrow> goal \<Rightarrow> clause_diff option" where
  "diff_new before new =
     (if \<exists>old \<in> set before. g_slug old = g_slug new then None
      else Some \<lparr>cd_slug = g_slug new, cd_change = Added, cd_fields = [], cd_before = None, cd_after = Some new\<rparr>)"

definition diff_clauses :: "goal list \<Rightarrow> goal list \<Rightarrow> clause_diff list" where
  "diff_clauses before after =
     sort_key cd_slug (List.map_filter (diff_old after) before @ List.map_filter (diff_new before) after)"

definition constitution_diff :: "constitution \<Rightarrow> string \<Rightarrow> string \<Rightarrow> clause_diff list" where
  "constitution_diff k from_version to_version =
     diff_clauses (clauses_for_version (cn_ledger k) from_version) (clauses_for_version (cn_ledger k) to_version)"

subsection \<open>Drafting\<close>

definition carried_clause :: "string \<Rightarrow> goal \<Rightarrow> goal" where
  "carried_clause to_version g =
     g\<lparr>g_id := ''goal:'' @ g_slug g @ ''@'' @ to_version, g_status := GoalDraft,
       g_constitution_version := Some to_version, g_superseded_by := None\<rparr>"

text \<open>
  The copy inserts clause by clause, each insertion on its own: a failure leaves the clauses
  that were already inserted.
\<close>

fun insert_copies :: "goal list \<Rightarrow> constitution \<Rightarrow> unit res \<times> constitution" where
  "insert_copies [] k = (Inr (), k)"
| "insert_copies (g # gs) k =
     proceed (commit (on_ledger (insert_goal_on g)) k) (\<lambda>_ k. insert_copies gs k)"

definition copy_clauses_to_version :: "string \<Rightarrow> string \<Rightarrow> constitution \<Rightarrow> nat res \<times> constitution" where
  "copy_clauses_to_version from_version to_version k =
     (let cs = clauses_for_version (cn_ledger k) from_version
      in proceed (insert_copies (map (carried_clause to_version) cs) k) (\<lambda>_ k. (Inr (length cs), k)))"

definition propose_amendment ::
  "string option \<Rightarrow> int \<Rightarrow> constitution \<Rightarrow> constitution_version res \<times> constitution" where
  "propose_amendment created_by now k =
     (case active_constitution_version (cn_versions k) of
        None \<Rightarrow> (Inl (Invalid (Clause NoActiveConstitution)), k)
      | Some active \<Rightarrow>
          (case draft_constitution_version (cn_versions k) of
             Some draft \<Rightarrow> (Inl (Invalid (Clause (DraftAwaitsReview (v_id draft)))), k)
           | None \<Rightarrow>
               let number = next_constitution_version_number (cn_versions k);
                   i = ''constitution:v'' @ show_int number
               in proceed (commit (\<lambda>k. and_then (create_constitution_version i number GoalDraft created_by now
                            (cn_versions k)) (\<lambda>(v, vs). Inr (v, set_versions vs k))) k) (\<lambda>version k.
                  proceed (copy_clauses_to_version (v_id active) i k) (\<lambda>_ k. (Inr version, k)))))"

definition draft_clause ::
  "(string \<Rightarrow> string) \<Rightarrow> string \<Rightarrow> goal_kind \<Rightarrow> string \<Rightarrow> string \<Rightarrow> int \<Rightarrow> constitution \<Rightarrow> (goal \<times> constitution) res" where
  "draft_clause hash draft_id kind title statement now k =
     (case constitution_version_of (cn_versions k) draft_id of
        None \<Rightarrow> Inl (NotFound draft_id)
      | Some v \<Rightarrow>
          if v_status v \<noteq> GoalDraft then Inl (Invalid (Clause (NotAuthorable draft_id (v_status v))))
          else on_ledger (define_clause_in_version hash kind title statement draft_id now) k)"

subsection \<open>Promotion\<close>

definition retire_version :: "string \<Rightarrow> constitution_version \<Rightarrow> constitution_version" where
  "retire_version before v = (if v_id v = before then v\<lparr>v_status := GoalSuperseded\<rparr> else v)"

definition retire_clause :: "string \<Rightarrow> goal \<Rightarrow> goal" where
  "retire_clause before g =
     (if g_constitution_version g = Some before \<and> g_status g = GoalActive then g\<lparr>g_status := GoalSuperseded\<rparr> else g)"

definition successor_clause :: "goal list \<Rightarrow> string \<Rightarrow> string \<Rightarrow> goal option" where
  "successor_clause gs version_id slug =
     find (\<lambda>g. g_constitution_version g = Some version_id \<and> g_status g = GoalActive \<and> g_slug g = slug) gs"

definition carry_control :: "goal list \<Rightarrow> string \<Rightarrow> control \<Rightarrow> control" where
  "carry_control gs draft_id c =
     (case find (\<lambda>g. g_id g = c_clause_id c) gs of
        None \<Rightarrow> c
      | Some served \<Rightarrow>
          if c_status c = ControlActive \<and>
             (\<exists>g \<in> set gs. g_constitution_version g = Some draft_id \<and> g_status g = GoalActive \<and>
                g_id g \<noteq> c_clause_id c \<and> g_slug g = g_slug served)
          then (case successor_clause gs draft_id (g_slug served) of
                  None \<Rightarrow> c
                | Some g \<Rightarrow> c\<lparr>c_clause_id := g_id g\<rparr>)
          else c)"

definition name_successor :: "goal list \<Rightarrow> string \<Rightarrow> string \<Rightarrow> goal \<Rightarrow> goal" where
  "name_successor gs before draft_id g =
     (if g_constitution_version g = Some before \<and> g_superseded_by g = None
      then (case successor_clause gs draft_id (g_slug g) of
              None \<Rightarrow> g
            | Some g' \<Rightarrow> g\<lparr>g_superseded_by := Some (g_id g')\<rparr>)
      else g)"

text \<open>Where the outgoing clause of an identifier went, if it belongs to the outgoing version.\<close>

definition moved_to :: "goal list \<Rightarrow> string \<Rightarrow> string \<Rightarrow> string option" where
  "moved_to gs before i =
     (case find (\<lambda>g. g_id g = i \<and> g_constitution_version g = Some before) gs of
        None \<Rightarrow> None
      | Some g \<Rightarrow> g_superseded_by g)"

text \<open>
  \<^verbatim>\<open>UPDATE OR REPLACE\<close>: the rows to move are collected first and moved one after the other; a row
  that moves deletes any other row that already has its new key, and a deleted row moves no more.
  The number of a row stands for its \<^verbatim>\<open>rowid\<close>.
\<close>

type_synonym binding_row = "nat \<times> string \<times> string \<times> binding_mode"

definition move_binding :: "(string \<Rightarrow> string option) \<Rightarrow> binding_row list \<Rightarrow> binding_row \<Rightarrow> binding_row list" where
  "move_binding dest tbl = (\<lambda>(n, i, node, mode).
     case dest i of
       None \<Rightarrow> tbl
     | Some j \<Rightarrow>
         if n \<notin> fst ` set tbl then tbl
         else map (\<lambda>r. if fst r = n then (n, j, node, mode) else r)
                (filter (\<lambda>(m, i', node', _). m = n \<or> (i', node') \<noteq> (j, node)) tbl))"

definition move_bindings ::
  "(string \<Rightarrow> string option) \<Rightarrow> (string \<times> string \<times> binding_mode) list \<Rightarrow> (string \<times> string \<times> binding_mode) list" where
  "move_bindings dest rows =
     map snd (foldl (move_binding dest) (List.enumerate 0 rows) (List.enumerate 0 rows))"

definition carry_task :: "(string \<Rightarrow> string option) \<Rightarrow> int \<Rightarrow> task \<Rightarrow> task" where
  "carry_task dest now t =
     (case dest (t_goal_id t) of
        None \<Rightarrow> t
      | Some j \<Rightarrow> if t_status t \<in> {Done, Abandoned} then t else t\<lparr>t_goal_id := j, t_updated_at := now\<rparr>)"

definition promote_amendment :: "string \<Rightarrow> string \<Rightarrow> string \<Rightarrow> int \<Rightarrow> constitution \<Rightarrow> constitution" where
  "promote_amendment before draft_id amended_by now k =
     (let s = cn_ledger k;
          pol = cn_policy k;
          gs1 = map (promote_clause draft_id) (map (retire_clause before) (s_goals s));
          gs2 = map (name_successor gs1 before draft_id) gs1;
          dest = moved_to gs2 before
      in k\<lparr>cn_ledger := s\<lparr>s_goals := gs2,
             s_artifacts := move_bindings dest (s_artifacts s),
             s_tasks := map (carry_task dest now) (s_tasks s)\<rparr>,
           cn_policy := pol\<lparr>
             p_versions := map (promote_version draft_id amended_by now) (map (retire_version before) (p_versions pol)),
             p_controls := map (carry_control gs1 draft_id) (p_controls pol)\<rparr>\<rparr>)"

definition record_amendment :: "constitution_amendment \<Rightarrow> constitution \<Rightarrow> (constitution_amendment \<times> constitution) res" where
  "record_amendment a k =
     (if \<exists>b \<in> set (cn_amendments k). am_id b = am_id a then Inl (Sqlite ''constitution_amendments'')
      else Inr (a, k\<lparr>cn_amendments := cn_amendments k @ [a]\<rparr>))"

definition store_amend_constitution ::
  "(string \<Rightarrow> string) \<Rightarrow> string \<Rightarrow> string \<Rightarrow> string \<Rightarrow> string \<Rightarrow> int \<Rightarrow> constitution \<Rightarrow>
   (constitution_amendment \<times> constitution) res" where
  "store_amend_constitution hash draft_id amended_by approved_by rationale now k =
     (if blank amended_by \<or> blank approved_by \<or> blank rationale then Inl (Invalid (Clause AmendmentAttribution))
      else case active_constitution_version (cn_versions k) of
        None \<Rightarrow> Inl (Invalid (Clause NoActiveConstitution))
      | Some active \<Rightarrow>
          let before = v_id active; diff = constitution_diff k before draft_id in
          if before = draft_id then Inl (Invalid (Clause AmendsItself))
          else if clauses_for_version (cn_ledger k) draft_id = [] then Inl (Invalid (Clause (AmendsToNothing draft_id)))
          else if diff = [] then Inl (Invalid (Clause (AmendsNothing draft_id before)))
          else case constitution_version_of (cn_versions k) draft_id of
            None \<Rightarrow> Inl (NotFound draft_id)
          | Some v \<Rightarrow>
              if v_status v \<noteq> GoalDraft then Inl (Invalid (Clause (NotAmendable draft_id (v_status v))))
              else if undecided_proposals k draft_id > 0
              then Inl (Invalid (Clause (AmendmentUndecided (undecided_proposals k draft_id) draft_id)))
              else record_amendment
                \<lparr>am_id = ''amendment:'' @ hash (before @ ''|'' @ draft_id @ ''|'' @ show_int now),
                 am_from_version = before, am_to_version = draft_id, am_rationale = trim rationale,
                 am_amended_by = trim amended_by, am_approved_by = Some (trim approved_by),
                 am_created_at = now, am_diff = diff\<rparr>
                (promote_amendment before draft_id (trim amended_by) now k))"

definition amend_constitution ::
  "(string \<Rightarrow> string) \<Rightarrow> string \<Rightarrow> string \<Rightarrow> string \<Rightarrow> string \<Rightarrow> int \<Rightarrow> constitution \<Rightarrow>
   (constitution_amendment \<times> constitution) res" where
  "amend_constitution hash draft_id amended_by approved_by rationale now k =
     (if blank approved_by then Inl (Invalid (Clause AmendmentApprover))
      else if map ascii_lower (trim approved_by) = map ascii_lower (trim amended_by)
      then Inl (Invalid (Clause (ApprovesOwnAmendment (trim approved_by))))
      else store_amend_constitution hash draft_id amended_by (trim approved_by) rationale now k)"

definition amendment_of :: "constitution \<Rightarrow> string \<Rightarrow> constitution_amendment option" where
  "amendment_of k i = find (\<lambda>a. am_id a = i) (cn_amendments k)"

definition amendments :: "constitution \<Rightarrow> constitution_amendment list" where
  "amendments k = sort_key (\<lambda>a. - am_created_at a) (sort_key am_id (cn_amendments k))"

subsection \<open>What the difference reports\<close>

definition describes :: "goal list \<Rightarrow> goal list \<Rightarrow> clause_diff \<Rightarrow> bool" where
  "describes before after d \<longleftrightarrow>
     cd_before d = find (\<lambda>g. g_slug g = cd_slug d) before \<and>
     cd_after d = find (\<lambda>g. g_slug g = cd_slug d) after \<and>
     (case (cd_before d, cd_after d) of
        (None, None) \<Rightarrow> False
      | (Some old, None) \<Rightarrow> cd_change d = Removed \<and> cd_fields d = []
      | (None, Some new) \<Rightarrow> cd_change d = Added \<and> cd_fields d = []
      | (Some old, Some new) \<Rightarrow> cd_change d = Changed \<and> cd_fields d = changed_fields old new \<and> cd_fields d \<noteq> [])"

lemma diff_old_describes:
  assumes "distinct (map g_slug before)"
  shows "(\<exists>old \<in> set before. diff_old after old = Some d) \<longleftrightarrow> describes before after d \<and> cd_before d \<noteq> None"
proof
  assume "\<exists>old \<in> set before. diff_old after old = Some d"
  then obtain old where old: "old \<in> set before" and d: "diff_old after old = Some d" by blast
  have "find (\<lambda>g. g_slug g = g_slug old) before = Some old"
    using old by (simp add: find_distinct_Some [OF assms])
  then show "describes before after d \<and> cd_before d \<noteq> None"
    using d by (auto simp: diff_old_def describes_def split: option.splits if_splits)
next
  assume d: "describes before after d \<and> cd_before d \<noteq> None"
  then obtain old where old: "cd_before d = Some old" "find (\<lambda>g. g_slug g = cd_slug d) before = Some old"
    by (metis describes_def not_None_eq)
  then have in_old: "old \<in> set before" "g_slug old = cd_slug d"
    by (simp_all add: find_distinct_Some [OF assms])
  have "diff_old after old = Some d"
    using d old in_old by (cases d) (auto simp: diff_old_def describes_def split: option.splits)
  with in_old show "\<exists>old \<in> set before. diff_old after old = Some d" by blast
qed

lemma diff_new_describes:
  assumes "distinct (map g_slug after)"
  shows "(\<exists>new \<in> set after. diff_new before new = Some d) \<longleftrightarrow> describes before after d \<and> cd_before d = None"
proof
  assume "\<exists>new \<in> set after. diff_new before new = Some d"
  then obtain new where new: "new \<in> set after" and d: "diff_new before new = Some d" by blast
  have "find (\<lambda>g. g_slug g = g_slug new) after = Some new"
    using new by (simp add: find_distinct_Some [OF assms])
  moreover have "find (\<lambda>g. g_slug g = g_slug new) before = None"
    using d by (auto simp: diff_new_def find_None_iff split: if_splits)
  ultimately show "describes before after d \<and> cd_before d = None"
    using d by (auto simp: diff_new_def describes_def split: if_splits)
next
  assume d: "describes before after d \<and> cd_before d = None"
  then obtain new where new: "cd_after d = Some new" "find (\<lambda>g. g_slug g = cd_slug d) after = Some new"
    by (auto simp: describes_def split: option.splits)
  then have in_new: "new \<in> set after" "g_slug new = cd_slug d"
    by (simp_all add: find_distinct_Some [OF assms])
  have "find (\<lambda>g. g_slug g = cd_slug d) before = None"
    using d by (metis describes_def)
  then have "diff_new before new = Some d"
    using d new in_new by (cases d) (auto simp: diff_new_def describes_def find_None_iff)
  with in_new show "\<exists>new \<in> set after. diff_new before new = Some d" by blast
qed

lemma distinct_map_sort: "distinct (map f (sort_key k xs)) \<longleftrightarrow> distinct (map f xs)"
  by (simp add: distinct_map)

lemma map_filter_distinct:
  assumes "distinct (map key xs)" and "\<And>x y. f x = Some y \<Longrightarrow> key' y = key x"
  shows "distinct (map key' (List.map_filter f xs))"
  using assms(1)
proof (induction xs)
  case (Cons x xs)
  have "key' ` set (List.map_filter f xs) \<subseteq> key ` set xs"
    using assms(2) by (force simp: map_filter_set)
  then have "f x = Some y \<Longrightarrow> key' y \<notin> key' ` set (List.map_filter f xs)" for y
    using Cons.prems assms(2) [of x y] by auto
  with Cons show ?case
    by (cases "f x") (auto simp: List.map_filter_simps)
qed (simp add: List.map_filter_simps)

lemma in_flagged: "f \<in> set (map fst (filter snd xs)) \<longleftrightarrow> (f, True) \<in> set xs"
  by force

lemma some_flagged: "map fst (filter snd xs) \<noteq> [] \<longleftrightarrow> True \<in> snd ` set xs"
  by (force simp: filter_empty_conv)

lemma changed_fields_iff:
  "f \<in> set (changed_fields old new) \<longleftrightarrow>
     f = ''kind'' \<and> g_kind old \<noteq> g_kind new \<or>
     f = ''title'' \<and> g_title old \<noteq> g_title new \<or>
     f = ''statement'' \<and> g_statement old \<noteq> g_statement new \<or>
     f = ''rationale'' \<and> g_rationale old \<noteq> g_rationale new \<or>
     f = ''scope'' \<and> g_scope old \<noteq> g_scope new \<or>
     f = ''evidence_contract'' \<and> g_evidence_contract old \<noteq> g_evidence_contract new \<or>
     f = ''consequence'' \<and> g_consequence old \<noteq> g_consequence new \<or>
     f = ''waivable'' \<and> g_waivable old \<noteq> g_waivable new \<or>
     f = ''waiver_authority'' \<and> g_waiver_authority old \<noteq> g_waiver_authority new"
  unfolding changed_fields_def in_flagged by simp

lemma changed_fields_some:
  "changed_fields old new \<noteq> [] \<longleftrightarrow>
     g_kind old \<noteq> g_kind new \<or> g_title old \<noteq> g_title new \<or>
     g_statement old \<noteq> g_statement new \<or> g_rationale old \<noteq> g_rationale new \<or>
     g_scope old \<noteq> g_scope new \<or> g_evidence_contract old \<noteq> g_evidence_contract new \<or>
     g_consequence old \<noteq> g_consequence new \<or> g_waivable old \<noteq> g_waivable new \<or>
     g_waiver_authority old \<noteq> g_waiver_authority new"
  unfolding changed_fields_def some_flagged by simp

lemma described_slugs:
  "(\<exists>d. describes before after d \<and> cd_slug d = slug) \<longleftrightarrow>
     (case (find (\<lambda>g. g_slug g = slug) before, find (\<lambda>g. g_slug g = slug) after) of
        (None, None) \<Rightarrow> False
      | (Some old, Some new) \<Rightarrow> changed_fields old new \<noteq> []
      | _ \<Rightarrow> True)"
proof -
  let ?b = "find (\<lambda>g. g_slug g = slug) before" and ?a = "find (\<lambda>g. g_slug g = slug) after"
  let ?d = "\<lambda>c fs. \<lparr>cd_slug = slug, cd_change = c, cd_fields = fs, cd_before = ?b, cd_after = ?a\<rparr>"
  have "(\<exists>d. describes before after d \<and> cd_slug d = slug) \<longleftrightarrow> (\<exists>c fs. describes before after (?d c fs))"
  proof
    assume "\<exists>d. describes before after d \<and> cd_slug d = slug"
    then obtain d where d: "describes before after d" "cd_slug d = slug" by blast
    then have "d = ?d (cd_change d) (cd_fields d)" by (simp add: describes_def)
    with d(1) show "\<exists>c fs. describes before after (?d c fs)" by metis
  qed (elim exE, rule exI, erule conjI, simp)
  then show ?thesis by (simp add: describes_def split: option.split)
qed

lemma diff_describes:
  assumes "distinct (map g_slug before)" and "distinct (map g_slug after)"
  shows "(\<forall>d. d \<in> set (diff_clauses before after) \<longleftrightarrow> describes before after d) \<and>
    sorted (map cd_slug (diff_clauses before after)) \<and> distinct (map cd_slug (diff_clauses before after))"
proof -
  let ?xs = "List.map_filter (diff_old after) before" and ?ys = "List.map_filter (diff_new before) after"
  have "d \<in> set (diff_clauses before after) \<longleftrightarrow> describes before after d" for d
    using diff_old_describes [OF assms(1), of after d] diff_new_describes [OF assms(2), of before d]
    by (auto simp: diff_clauses_def map_filter_set)
  moreover have "distinct (map cd_slug (?xs @ ?ys))"
  proof -
    have "distinct (map cd_slug ?xs)"
      by (rule map_filter_distinct [OF assms(1)]) (auto simp: diff_old_def split: option.splits if_splits)
    moreover have "distinct (map cd_slug ?ys)"
      by (rule map_filter_distinct [OF assms(2)]) (auto simp: diff_new_def split: if_splits)
    moreover have "cd_slug d \<noteq> cd_slug e" if "d \<in> set ?xs" "e \<in> set ?ys" for d e
      using that by (auto simp: map_filter_set diff_old_def diff_new_def split: option.splits if_splits)
    ultimately show ?thesis by auto
  qed
  then have "distinct (map cd_slug (diff_clauses before after))"
    by (simp only: diff_clauses_def distinct_map_sort)
  ultimately show ?thesis by (simp add: diff_clauses_def)
qed

text \<open>
  C38. The difference of two versions. When no slug repeats within either, the difference holds
  exactly one entry for every slug that only one version has and for every slug of both whose rule
  differs in its kind, title, statement, rationale, scope, evidence contract, consequence, waivability
  or waiver authority. An entry carries both sides as they stand, says whether the clause was added,
  removed or changed, and names exactly the fields that differ; entries come sorted by slug.
\<close>

theorem diff_reports_exactly:
  assumes "distinct (map g_slug before)" and "distinct (map g_slug after)"
  shows "(\<forall>slug. slug \<in> cd_slug ` set (diff_clauses before after) \<longleftrightarrow>
      (case (find (\<lambda>g. g_slug g = slug) before, find (\<lambda>g. g_slug g = slug) after) of
         (None, None) \<Rightarrow> False
       | (Some old, Some new) \<Rightarrow>
           g_kind old \<noteq> g_kind new \<or> g_title old \<noteq> g_title new \<or>
           g_statement old \<noteq> g_statement new \<or> g_rationale old \<noteq> g_rationale new \<or>
           g_scope old \<noteq> g_scope new \<or> g_evidence_contract old \<noteq> g_evidence_contract new \<or>
           g_consequence old \<noteq> g_consequence new \<or> g_waivable old \<noteq> g_waivable new \<or>
           g_waiver_authority old \<noteq> g_waiver_authority new
       | _ \<Rightarrow> True)) \<and>
    (\<forall>d. d \<in> set (diff_clauses before after) \<longrightarrow>
       cd_before d = find (\<lambda>g. g_slug g = cd_slug d) before \<and>
       cd_after d = find (\<lambda>g. g_slug g = cd_slug d) after \<and>
       cd_change d = (if cd_before d = None then Added else if cd_after d = None then Removed else Changed) \<and>
       (\<forall>f. f \<in> set (cd_fields d) \<longleftrightarrow> (\<exists>old new. cd_before d = Some old \<and> cd_after d = Some new \<and>
         (f = ''kind'' \<and> g_kind old \<noteq> g_kind new \<or>
          f = ''title'' \<and> g_title old \<noteq> g_title new \<or>
          f = ''statement'' \<and> g_statement old \<noteq> g_statement new \<or>
          f = ''rationale'' \<and> g_rationale old \<noteq> g_rationale new \<or>
          f = ''scope'' \<and> g_scope old \<noteq> g_scope new \<or>
          f = ''evidence_contract'' \<and> g_evidence_contract old \<noteq> g_evidence_contract new \<or>
          f = ''consequence'' \<and> g_consequence old \<noteq> g_consequence new \<or>
          f = ''waivable'' \<and> g_waivable old \<noteq> g_waivable new \<or>
          f = ''waiver_authority'' \<and> g_waiver_authority old \<noteq> g_waiver_authority new)))) \<and>
    sorted (map cd_slug (diff_clauses before after)) \<and> distinct (map cd_slug (diff_clauses before after))"
proof -
  note D = diff_describes [OF assms]
  have "cd_before d = find (\<lambda>g. g_slug g = cd_slug d) before" "cd_after d = find (\<lambda>g. g_slug g = cd_slug d) after"
    "cd_change d = (if cd_before d = None then Added else if cd_after d = None then Removed else Changed)"
    "f \<in> set (cd_fields d) \<longleftrightarrow> (\<exists>old new. cd_before d = Some old \<and> cd_after d = Some new \<and> f \<in> set (changed_fields old new))"
    if "d \<in> set (diff_clauses before after)" for d f
    using that D by (auto simp: describes_def split: option.splits)
  moreover have "slug \<in> cd_slug ` set (diff_clauses before after) \<longleftrightarrow> (\<exists>d. describes before after d \<and> cd_slug d = slug)" for slug
    using D by auto
  ultimately show ?thesis
    using D unfolding described_slugs changed_fields_some changed_fields_iff by simp
qed

subsection \<open>Carrying clauses forward\<close>

definition add_goals :: "goal list \<Rightarrow> constitution \<Rightarrow> constitution" where
  "add_goals gs k = k\<lparr>cn_ledger := (cn_ledger k)\<lparr>s_goals := s_goals (cn_ledger k) @ gs\<rparr>\<rparr>"

lemma add_goals_simps [simp]:
  "add_goals [] k = k"
  "add_goals gs (add_goals hs k) = add_goals (hs @ gs) k"
  "s_goals (cn_ledger (add_goals gs k)) = s_goals (cn_ledger k) @ gs"
  "cn_versions (add_goals gs k) = cn_versions k"
  "cn_policy (add_goals gs k) = cn_policy k"
  by (simp_all add: add_goals_def cn_versions_def)

lemma cn_versions_simps [simp]:
  "cn_versions (set_versions vs k) = vs"
  "cn_ledger (set_versions vs k) = cn_ledger k"
  "cn_versions (k\<lparr>cn_ledger := s\<rparr>) = cn_versions k"
  by (simp_all add: cn_versions_def set_versions_def)

lemma insert_one:
  "commit (on_ledger (insert_goal_on g)) k =
     (if goal_exists_on (cn_ledger k) (g_id g) then (Inl (Sqlite ''goals''), k) else (Inr (), add_goals [g] k))"
  by (simp add: commit_def on_ledger_def insert_goal_on_def add_goals_def)

lemma exists_add: "goal_exists_on (cn_ledger (add_goals gs k)) i \<longleftrightarrow>
    goal_exists_on (cn_ledger k) i \<or> i \<in> g_id ` set gs"
  by (auto simp: goal_exists_on_def)

lemma insert_copies_succeeds:
  assumes "distinct (map g_id gs)" and "\<forall>g \<in> set gs. \<not> goal_exists_on (cn_ledger k) (g_id g)"
  shows "insert_copies gs k = (Inr (), add_goals gs k)"
  using assms
proof (induction gs arbitrary: k)
  case (Cons g gs)
  then have "\<forall>h \<in> set gs. \<not> goal_exists_on (cn_ledger (add_goals [g] k)) (g_id h)"
    by (auto simp: exists_add image_iff)
  with Cons show ?case by (simp add: insert_one proceed_def)
qed simp

lemma insert_copies_fails:
  assumes "\<not> distinct (map g_id gs) \<or> (\<exists>g \<in> set gs. goal_exists_on (cn_ledger k) (g_id g))"
  shows "\<exists>n < length gs. insert_copies gs k = (Inl (Sqlite ''goals''), add_goals (take n gs) k)"
  using assms
proof (induction gs arbitrary: k)
  case (Cons g gs)
  show ?case
  proof (cases "goal_exists_on (cn_ledger k) (g_id g)")
    case True
    then show ?thesis by (intro exI [of _ 0]) (simp add: insert_one proceed_def)
  next
    case False
    with Cons.prems have "\<not> distinct (map g_id gs) \<or>
        (\<exists>h \<in> set gs. goal_exists_on (cn_ledger (add_goals [g] k)) (g_id h))"
      by (auto simp: exists_add)
    from Cons.IH [OF this] obtain n where "n < length gs"
      "insert_copies gs (add_goals [g] k) = (Inl (Sqlite ''goals''), add_goals (take n gs) (add_goals [g] k))"
      by blast
    with False show ?thesis by (intro exI [of _ "Suc n"]) (simp add: insert_one proceed_def)
  qed
qed simp

definition next_id :: "constitution \<Rightarrow> string" where
  "next_id k = ''constitution:v'' @ show_int (next_constitution_version_number (cn_versions k))"

definition versions_numbered :: "constitution \<Rightarrow> bool" where
  "versions_numbered k \<longleftrightarrow> (\<forall>v \<in> set (cn_versions k). v_id v = ''constitution:v'' @ show_int (v_version v))"

lemma show_int_inj [simp]: "show_int a = show_int b \<longleftrightarrow> a = b"
proof -
  have d: "hd (show_nat n) \<noteq> CHR ''-'' \<and> show_nat n \<noteq> []" for n
  proof (induction n rule: show_nat.induct)
    case (1 n)
    show ?case
    proof (cases "n < 10")
      case True
      then have "digit_char n \<noteq> CHR ''-''"
        using of_char_digit [of n] by auto
      with True show ?thesis by (subst (1 2) show_nat.simps) simp
    next
      case False
      with 1 show ?thesis by (subst (1 2) show_nat.simps) (simp add: hd_append)
    qed
  qed
  then have "CHR ''-'' # xs \<noteq> show_nat n" for xs n by (metis list.sel(1))
  then show ?thesis by (auto simp: show_int_def dest: sym)
qed

lemma next_number_fresh: "v \<in> set vs \<Longrightarrow> v_version v < next_constitution_version_number vs"
  by (cases vs) (auto simp: next_constitution_version_number_def less_iff_succ_less_eq
      intro: Max_ge add_mono)

lemma next_id_fresh: "versions_numbered k \<Longrightarrow> constitution_version_of (cn_versions k) (next_id k) = None"
  using next_number_fresh [of _ "cn_versions k"]
  by (fastforce simp: constitution_version_of_def find_None_iff next_id_def versions_numbered_def)

lemma carried_same_rule: "changed_fields g (carried_clause i g) = []"
  by (simp add: changed_fields_def carried_clause_def)

lemma diff_of_carried: 
  assumes "distinct (map g_slug cs)"
  shows "diff_clauses cs (map (carried_clause i) cs) = []"
proof -
  have slug: "g_slug (carried_clause i g) = g_slug g" for g by (simp add: carried_clause_def)
  have "diff_old (map (carried_clause i) cs) g = None" if "g \<in> set cs" for g
  proof -
    have "find (\<lambda>new. g_slug new = g_slug g) (map (carried_clause i) cs) = Some (carried_clause i g)"
      using that assms by (subst find_distinct_Some) (auto simp: slug comp_def)
    then show ?thesis by (simp add: diff_old_def carried_same_rule)
  qed
  moreover have "diff_new cs h = None" if "h \<in> set (map (carried_clause i) cs)" for h
    using that by (auto simp: diff_new_def slug)
  ultimately show ?thesis
    by (auto simp: diff_clauses_def List.map_filter_def filter_empty_conv)
qed

lemma clauses_for_version_append:
  "clauses_for_version (s\<lparr>s_goals := gs @ hs\<rparr>) i =
     sort_key g_slug (filter (\<lambda>g. g_constitution_version g = Some i \<and> g_status g \<noteq> GoalSuperseded) gs @
                      filter (\<lambda>g. g_constitution_version g = Some i \<and> g_status g \<noteq> GoalSuperseded) hs)"
  by (simp add: clauses_for_version_def)

lemma clauses_for_version_set:
  "g \<in> set (clauses_for_version s i) \<longleftrightarrow>
     g \<in> set (s_goals s) \<and> g_constitution_version g = Some i \<and> g_status g \<noteq> GoalSuperseded"
  by (auto simp: clauses_for_version_def)

definition open_draft :: "string option \<Rightarrow> int \<Rightarrow> constitution \<Rightarrow> constitution_version" where
  "open_draft created_by now k =
     \<lparr>v_id = next_id k, v_version = next_constitution_version_number (cn_versions k), v_project_identity = None,
      v_purpose = None, v_preamble = None, v_status = GoalDraft, v_created_by = created_by, v_created_at = now,
      v_activated_by = None, v_activated_at = None\<rparr>"

lemma propose_amendment_runs:
  assumes "versions_numbered k" and "active_constitution_version (cn_versions k) = Some a"
    and "draft_constitution_version (cn_versions k) = None"
  shows "propose_amendment created_by now k =
    proceed (copy_clauses_to_version (v_id a) (next_id k)
        (set_versions (cn_versions k @ [open_draft created_by now k]) k))
      (\<lambda>_ k'. (Inr (open_draft created_by now k), k'))"
  using next_id_fresh [OF assms(1)] assms(2,3)
  by (simp add: propose_amendment_def Let_def create_constitution_version_def next_id_def
      commit_def proceed_def open_draft_def)

text \<open>
  A draft amendment starts as the current policy. When no two clauses of the active version share
  a slug and nothing is stored yet under the next version, drafting succeeds, the draft holds
  exactly one copy of every clause, the active version is untouched, and the difference between the
  two is empty, so that only what an author changes afterwards shows up in review.
\<close>

theorem fresh_draft_is_current_policy:
  assumes "versions_numbered k" and "active_constitution_version (cn_versions k) = Some a"
    and "draft_constitution_version (cn_versions k) = None"
    and "distinct (map g_slug (clauses_for_version (cn_ledger k) (v_id a)))"
    and "\<forall>g \<in> set (s_goals (cn_ledger k)). g_constitution_version g \<noteq> Some (next_id k) \<and> \<not> suffix (''@'' @ next_id k) (g_id g)"
  shows "\<exists>v k'. propose_amendment created_by now k = (Inr v, k') \<and> v_status v = GoalDraft \<and>
    clauses_for_version (cn_ledger k') (v_id v) =
      map (carried_clause (v_id v)) (clauses_for_version (cn_ledger k) (v_id a)) \<and>
    clauses_for_version (cn_ledger k') (v_id a) = clauses_for_version (cn_ledger k) (v_id a) \<and>
    constitution_diff k' (v_id a) (v_id v) = []"
proof -
  let ?i = "next_id k" and ?cs = "clauses_for_version (cn_ledger k) (v_id a)"
  let ?k1 = "set_versions (cn_versions k @ [open_draft created_by now k]) k"
  let ?gs = "map (carried_clause ?i) ?cs"
  have ids: "g_id \<circ> carried_clause ?i = (\<lambda>s. ''goal:'' @ s @ ''@'' @ ?i) \<circ> g_slug"
    by (auto simp: carried_clause_def)
  have "distinct (map g_id ?gs)"
    using assms(4) by (simp add: ids distinct_map comp_inj_on inj_on_def)
  moreover have "\<forall>g \<in> set ?gs. \<not> goal_exists_on (cn_ledger ?k1) (g_id g)"
    using assms(5) by (fastforce simp: goal_exists_on_def carried_clause_def suffix_def)
  ultimately have run: "propose_amendment created_by now k = (Inr (open_draft created_by now k), add_goals ?gs ?k1)"
    by (simp add: propose_amendment_runs [OF assms(1-3)] copy_clauses_to_version_def insert_copies_succeeds
        proceed_def Let_def)
  have a: "v_id a \<noteq> ?i"
  proof -
    have "a \<in> set (cn_versions k)"
      using assms(2) by (auto simp: active_constitution_version_def split: list.splits)
        (metis filter_is_subset insert_iff list.simps(15) set_sort subset_iff)
    then show ?thesis using next_id_fresh [OF assms(1)] by (auto simp: constitution_version_of_def find_None_iff)
  qed
  have new: "clauses_for_version (cn_ledger (add_goals ?gs ?k1)) ?i = ?gs"
  proof -
    have "filter (\<lambda>g. g_constitution_version g = Some ?i \<and> g_status g \<noteq> GoalSuperseded) (s_goals (cn_ledger k)) = []"
      using assms(5) by (auto simp: filter_empty_conv)
    moreover have "sort_key g_slug ?gs = ?gs"
      by (rule sort_key_id_if_sorted) (simp add: clauses_for_version_def comp_def carried_clause_def)
    moreover have "filter (\<lambda>g. g_constitution_version g = Some ?i \<and> g_status g \<noteq> GoalSuperseded) ?gs = ?gs"
      by (auto simp: carried_clause_def filter_id_conv)
    ultimately show ?thesis by (simp add: clauses_for_version_def)
  qed
  have old: "clauses_for_version (cn_ledger (add_goals ?gs ?k1)) (v_id a) = ?cs"
  proof -
    have "filter (\<lambda>g. g_constitution_version g = Some (v_id a) \<and> g_status g \<noteq> GoalSuperseded) ?gs = []"
      using a by (auto simp: carried_clause_def filter_empty_conv)
    then show ?thesis by (simp add: clauses_for_version_def)
  qed
  show ?thesis
    using run new old diff_of_carried [OF assms(4), of ?i]
    by (simp add: constitution_diff_def open_draft_def)
qed

text \<open>
  A repeated slug strands the draft. When two clauses of the active version share a slug, their
  copies would have the same identifier: drafting an amendment fails, but the new version and the
  copies made before the failure stay, and the next attempt is refused because a draft awaits review.
\<close>

lemma draft_pending:
  assumes "active_constitution_version (cn_versions k) = Some a"
    and "v \<in> set (cn_versions k)" and "v_status v = GoalDraft"
  shows "\<exists>d. propose_amendment created_by now k = (Inl (Invalid (Clause (DraftAwaitsReview d))), k)"
proof -
  have "draft_constitution_version (cn_versions k) \<noteq> None"
    using assms(2,3) by (auto simp: draft_constitution_version_def filter_empty_conv split: list.splits
        dest!: arg_cong [where f = set])
  then show ?thesis using assms(1) by (auto simp: propose_amendment_def)
qed

lemma active_snoc_draft:
  "v_status v = GoalDraft \<Longrightarrow> active_constitution_version (vs @ [v]) = active_constitution_version vs"
  by (simp add: active_constitution_version_def)

text \<open>
  A repeated slug strands a draft. When two clauses of the active version share a slug, drafting an
  amendment fails half way: the draft version and some of its clauses stay, and every later proposal is
  refused because of it.
\<close>

theorem repeated_slug_strands_draft:
  assumes "versions_numbered k" and "active_constitution_version (cn_versions k) = Some a"
    and "draft_constitution_version (cn_versions k) = None"
    and "\<not> distinct (map g_slug (clauses_for_version (cn_ledger k) (v_id a)))"
  shows "\<exists>k' d. propose_amendment created_by now k = (Inl (Sqlite ''goals''), k') \<and>
    cn_versions k' = cn_versions k @ [open_draft created_by now k] \<and>
    length (s_goals (cn_ledger k')) < length (s_goals (cn_ledger k)) + length (clauses_for_version (cn_ledger k) (v_id a)) \<and>
    propose_amendment created_by' now' k' = (Inl (Invalid (Clause (DraftAwaitsReview d))), k')"
proof -
  let ?k1 = "set_versions (cn_versions k @ [open_draft created_by now k]) k"
  let ?gs = "map (carried_clause (next_id k)) (clauses_for_version (cn_ledger k) (v_id a))"
  have ids: "map g_id ?gs = map (\<lambda>s. ''goal:'' @ s @ ''@'' @ next_id k) (map g_slug (clauses_for_version (cn_ledger k) (v_id a)))"
    by (simp add: carried_clause_def)
  have "\<not> distinct (map g_id ?gs)"
    unfolding ids using assms(4) by (simp add: distinct_map inj_on_def)
  then obtain n where n: "n < length ?gs"
    "insert_copies ?gs ?k1 = (Inl (Sqlite ''goals''), add_goals (take n ?gs) ?k1)"
    using insert_copies_fails by blast
  let ?k' = "add_goals (take n ?gs) ?k1"
  have run: "propose_amendment created_by now k = (Inl (Sqlite ''goals''), ?k')"
    using n(2) by (simp add: propose_amendment_runs [OF assms(1-3)] copy_clauses_to_version_def proceed_def Let_def)
  have "active_constitution_version (cn_versions ?k') = Some a"
    using assms(2) by (simp add: active_snoc_draft open_draft_def)
  from draft_pending [OF this, of "open_draft created_by now k"]
  obtain d where "propose_amendment created_by' now' ?k' = (Inl (Invalid (Clause (DraftAwaitsReview d))), ?k')"
    by (auto simp: open_draft_def)
  with run n(1) show ?thesis by fastforce
qed

subsection \<open>Moving bindings\<close>

definition redirect :: "(string \<Rightarrow> string option) \<Rightarrow> string \<Rightarrow> string" where
  "redirect dest i = (case dest i of None \<Rightarrow> i | Some j \<Rightarrow> j)"

text \<open>
  Half way through the update: every row of the table comes from a row of the start, moved if its
  turn has come, and every binding of the start is still represented.
\<close>

definition half_moved :: "(string \<Rightarrow> string option) \<Rightarrow> binding_row set \<Rightarrow> nat set \<Rightarrow> binding_row list \<Rightarrow> bool" where
  "half_moved dest E P tbl \<longleftrightarrow>
     (\<forall>(m, i', node, mode) \<in> set tbl. \<exists>i. (m, i, node, mode) \<in> E \<and> i' = (if m \<in> P then redirect dest i else i)) \<and>
     (\<forall>(m, i, node, mode) \<in> E. \<exists>(m', i', node', mode') \<in> set tbl. node' = node \<and> redirect dest i' = redirect dest i)"

lemma half_moved_step:
  assumes idem: "\<And>i j. dest i = Some j \<Longrightarrow> dest j = None"
    and uniq: "\<And>r r'. r \<in> E \<Longrightarrow> r' \<in> E \<Longrightarrow> fst r = fst r' \<Longrightarrow> r = r'"
    and half: "half_moved dest E P tbl" and row: "(n, i, node, mode) \<in> E" and turn: "n \<notin> P"
  shows "half_moved dest E (insert n P) (move_binding dest tbl (n, i, node, mode))"
proof -
  note from_start = half [unfolded half_moved_def, THEN conjunct1]
    and kept = half [unfolded half_moved_def, THEN conjunct2]
  have this_row: "i' = i \<and> nd = node \<and> md = mode" if "(n, i', nd, md) \<in> set tbl" for i' nd md
    using from_start that turn uniq [OF _ row] by fastforce
  consider (stays) "dest i = None" | (gone) j where "dest i = Some j" "n \<notin> fst ` set tbl"
    | (moves) j where "dest i = Some j" "n \<in> fst ` set tbl" by (cases "dest i") auto
  then show ?thesis
  proof cases
    case stays
    then have "redirect dest i = i" by (simp add: redirect_def)
    with stays kept from_start this_row show ?thesis
      unfolding half_moved_def move_binding_def by fastforce
  next
    case gone
    then have same: "move_binding dest tbl (n, i, node, mode) = tbl" by (simp add: move_binding_def)
    have "\<forall>(m, _) \<in> set tbl. m \<noteq> n" using gone(2) by force
    with kept from_start show ?thesis unfolding same half_moved_def by fastforce
  next
    case moves
    let ?keep = "\<lambda>(m, i', node', _ :: binding_mode). m = n \<or> (i', node') \<noteq> (j, node)"
    let ?put = "\<lambda>r. if fst r = n then (n, j, node, mode) else r"
    have tbl': "move_binding dest tbl (n, i, node, mode) = map ?put (filter ?keep tbl)"
      using moves by (simp add: move_binding_def)
    have j: "redirect dest i = j" "redirect dest j = j"
      using moves idem by (simp_all add: redirect_def)
    have here: "(n, j, node, mode) \<in> set (map ?put (filter ?keep tbl))"
      using moves(2) by force
    have "\<exists>a. (m, a, nd, md) \<in> E \<and> b = (if m \<in> insert n P then redirect dest a else a)"
      if "(m, b, nd, md) \<in> set (map ?put (filter ?keep tbl))" for m b nd md
    proof (cases "m = n")
      case True
      with that have "b = j" "nd = node" "md = mode" by auto
      with True row j show ?thesis by auto
    next
      case False
      with that have "(m, b, nd, md) \<in> set tbl" by (auto split: if_splits)
      with from_start False show ?thesis by fastforce
    qed
    moreover have "\<exists>(m', b', nd', md') \<in> set (map ?put (filter ?keep tbl)). nd' = nd \<and> redirect dest b' = redirect dest b"
      if e: "(m, b, nd, md) \<in> E" for m b nd md
    proof -
      obtain m' b' md' where r: "(m', b', nd, md') \<in> set tbl" "redirect dest b' = redirect dest b"
        using kept e by fastforce
      show ?thesis
      proof (cases "m' = n \<or> (b', nd) = (j, node)")
        case True
        then have "redirect dest j = redirect dest b" "nd = node"
          using r j this_row by auto
        with here show ?thesis by fastforce
      next
        case False
        then have "(m', b', nd, md') \<in> set (map ?put (filter ?keep tbl))"
          using r(1) by (force simp: image_iff)
        with r(2) show ?thesis by fastforce
      qed
    qed
    ultimately show ?thesis unfolding tbl' half_moved_def by fast
  qed
qed

lemma half_moved_fold:
  assumes idem: "\<And>i j. dest i = Some j \<Longrightarrow> dest j = None"
    and uniq: "\<And>r r'. r \<in> E \<Longrightarrow> r' \<in> E \<Longrightarrow> fst r = fst r' \<Longrightarrow> r = r'"
    and "half_moved dest E P tbl" and "set rows \<subseteq> E" and "distinct (map fst rows)" and "fst ` set rows \<inter> P = {}"
  shows "half_moved dest E (P \<union> fst ` set rows) (foldl (move_binding dest) tbl rows)"
  using assms(3-6)
proof (induction rows arbitrary: P tbl)
  case (Cons r rows)
  obtain n i node mode where r: "r = (n, i, node, mode)" by (cases r)
  have "half_moved dest E (insert n P) (move_binding dest tbl r)"
    unfolding r by (rule half_moved_step [OF idem uniq Cons.prems(1)]) (use Cons.prems r in auto)
  from Cons.IH [OF this] Cons.prems show ?case by (force simp: r insert_commute)
qed simp

lemma half_moved_back:
  assumes "half_moved dest E (fst ` E) tbl" and "(m, i', node, mode) \<in> set tbl"
  shows "\<exists>i. (m, i, node, mode) \<in> E \<and> i' = redirect dest i"
proof -
  obtain i where i: "(m, i, node, mode) \<in> E" "i' = (if m \<in> fst ` E then redirect dest i else i)"
    using bspec [OF conjunct1 [OF assms(1) [unfolded half_moved_def]] assms(2)] by auto
  have "m \<in> fst ` E" using image_eqI [OF _ i(1), of m fst] by simp
  with i show ?thesis by auto
qed

lemma half_moved_kept:
  assumes "half_moved dest E P tbl" and "(m, i, node, mode) \<in> E"
  shows "\<exists>m' i' mode'. (m', i', node, mode') \<in> set tbl \<and> redirect dest i' = redirect dest i"
  using bspec [OF conjunct2 [OF assms(1) [unfolded half_moved_def]] assms(2)] by auto

lemma move_bindings_half:
  assumes idem: "\<And>i j. dest i = Some j \<Longrightarrow> dest j = None"
  shows "half_moved dest (set (List.enumerate 0 rows)) (fst ` set (List.enumerate 0 rows))
    (foldl (move_binding dest) (List.enumerate 0 rows) (List.enumerate 0 rows))"
proof -
  let ?E = "List.enumerate 0 rows"
  have nums: "distinct (map fst ?E)" by simp
  have "half_moved dest (set ?E) {} ?E" by (auto simp: half_moved_def)
  moreover have "r = r'" if "r \<in> set ?E" "r' \<in> set ?E" "fst r = fst r'" for r r'
    using that nums by (metis eq_key_imp_eq_value prod.collapse)
  ultimately show ?thesis
    using half_moved_fold [of dest "set ?E" "{}" ?E ?E] nums idem by auto
qed

lemma move_bindings_from:
  assumes idem: "\<And>i j. dest i = Some j \<Longrightarrow> dest j = None" and row: "(i', node, mode) \<in> set (move_bindings dest rows)"
  shows "\<exists>i. (i, node, mode) \<in> set rows \<and> i' = redirect dest i"
proof -
  from row obtain m where "(m, i', node, mode) \<in> set (foldl (move_binding dest) (List.enumerate 0 rows) (List.enumerate 0 rows))"
    by (auto simp: move_bindings_def)
  moreover have "half_moved dest (set (List.enumerate 0 rows)) (fst ` set (List.enumerate 0 rows))
      (foldl (move_binding dest) (List.enumerate 0 rows) (List.enumerate 0 rows))"
    by (rule move_bindings_half) (rule idem)
  ultimately obtain i where "(m, i, node, mode) \<in> set (List.enumerate 0 rows)" "i' = redirect dest i"
    using half_moved_back by blast
  moreover have "set rows = snd ` set (List.enumerate 0 rows)" by (metis list.set_map map_snd_enumerate)
  ultimately show ?thesis by force
qed

lemma move_bindings_keys:
  assumes idem: "\<And>i j. dest i = Some j \<Longrightarrow> dest j = None"
  shows "(\<lambda>(i, node, _). (i, node)) ` set (move_bindings dest rows) =
    (\<lambda>(i, node, _). (redirect dest i, node)) ` set rows"
proof -
  let ?E = "List.enumerate 0 rows" and ?tbl = "foldl (move_binding dest) (List.enumerate 0 rows) (List.enumerate 0 rows)"
  have half: "half_moved dest (set ?E) (fst ` set ?E) ?tbl" by (rule move_bindings_half) (rule idem)
  have rows: "set rows = snd ` set ?E" by (metis list.set_map map_snd_enumerate)
  have twice: "redirect dest (redirect dest i) = redirect dest i" for i
    using idem [of i] by (cases "dest i") (auto simp: redirect_def)
  show ?thesis
  proof (intro equalityI subsetI)
    fix x assume "x \<in> (\<lambda>(i, node, _). (i, node)) ` set (move_bindings dest rows)"
    then obtain m i' node mode where t: "(m, i', node, mode) \<in> set ?tbl" and x: "x = (i', node)"
      by (auto simp: move_bindings_def)
    from half_moved_back [OF half t] obtain i where i: "(m, i, node, mode) \<in> set ?E" "i' = redirect dest i"
      by blast
    then have "(i, node, mode) \<in> set rows" unfolding rows by force
    then show "x \<in> (\<lambda>(i, node, _). (redirect dest i, node)) ` set rows" using x i(2) by force
  next
    fix x assume "x \<in> (\<lambda>(i, node, _). (redirect dest i, node)) ` set rows"
    then obtain m i node mode where e: "(m, i, node, mode) \<in> set ?E" and x: "x = (redirect dest i, node)"
      unfolding rows by force
    from half_moved_kept [OF half e]
    obtain m' i' mode' where t: "(m', i', node, mode') \<in> set ?tbl" "redirect dest i' = redirect dest i"
      by blast
    from half_moved_back [OF half t(1)] obtain i0 where "i' = redirect dest i0" by blast
    with t x have "x = (i', node)" by (simp add: twice)
    with t(1) show "x \<in> (\<lambda>(i, node, _). (i, node)) ` set (move_bindings dest rows)"
      by (force simp: move_bindings_def)
  qed
qed

subsection \<open>What an amendment does\<close>

text \<open>
  A clause that replaces one clause superseded on its own (\<^verbatim>\<open>supersede_goal\<close>) carries the identifier
  made from the slug and the version of the clause it replaces. Any clause can be superseded so, in
  force or not, and its replacement is active at once: such clauses are the only active ones that
  need not belong to the active version.
\<close>

definition replaces :: "constitution \<Rightarrow> goal \<Rightarrow> bool" where
  "replaces k g \<longleftrightarrow> (\<exists>old \<in> set (s_goals (cn_ledger k)). cn_retirements k (g_id old) \<noteq> None \<and>
     g_id g = ''goal:'' @ g_slug old @ ''-v'' @ show_int (g_version old + 1))"

definition standing :: "constitution \<Rightarrow> bool" where
  "standing k \<longleftrightarrow> (\<forall>g \<in> set (s_goals (cn_ledger k)). \<forall>i. g_status g = GoalActive \<and> g_constitution_version g = Some i \<longrightarrow>
     (\<exists>v \<in> set (cn_versions k). v_id v = i \<and> v_status v = GoalActive) \<or> replaces k g)"

definition single :: "goal_status \<Rightarrow> constitution_version list \<Rightarrow> bool" where
  "single st vs \<longleftrightarrow> (\<forall>v \<in> set vs. \<forall>w \<in> set vs. v_status v = st \<and> v_status w = st \<longrightarrow> v = w)"

definition constitution_ok :: "constitution \<Rightarrow> bool" where
  "constitution_ok k \<longleftrightarrow>
     distinct (map g_id (s_goals (cn_ledger k))) \<and> distinct (map v_id (cn_versions k)) \<and> versions_numbered k \<and>
     single GoalActive (cn_versions k) \<and> single GoalDraft (cn_versions k) \<and> standing k"

lemma replaces_map:
  assumes "s_goals (cn_ledger k') = map f (s_goals (cn_ledger k))" and "cn_retirements k' = cn_retirements k"
    and "\<And>g. g_id (f g) = g_id g" "\<And>g. g_slug (f g) = g_slug g" "\<And>g. g_version (f g) = g_version g"
  shows "replaces k' (f g) = replaces k g"
  by (simp add: replaces_def assms)

lemma newest_None:
  "(case sort_key f (filter P vs) of [] \<Rightarrow> None | v # _ \<Rightarrow> Some v) = None \<longleftrightarrow> (\<forall>v \<in> set vs. \<not> P v)"
proof -
  have "set (sort_key f (filter P vs)) = {v \<in> set vs. P v}" by simp
  then show ?thesis by (cases "sort_key f (filter P vs)") auto
qed

lemma newest_Some:
  assumes "(case sort_key f (filter P vs) of [] \<Rightarrow> None | v # _ \<Rightarrow> Some v) = Some v"
  shows "v \<in> set vs \<and> P v"
proof -
  have "set (sort_key f (filter P vs)) = {v \<in> set vs. P v}" by simp
  with assms show ?thesis by (cases "sort_key f (filter P vs)") auto
qed

lemma active_version_None:
  "active_constitution_version vs = None \<longleftrightarrow> (\<forall>v \<in> set vs. v_status v \<noteq> GoalActive)"
  unfolding active_constitution_version_def by (rule newest_None)

lemma active_version_iff:
  assumes "single GoalActive vs"
  shows "active_constitution_version vs = Some v \<longleftrightarrow> v \<in> set vs \<and> v_status v = GoalActive"
proof
  assume "v \<in> set vs \<and> v_status v = GoalActive"
  moreover from this obtain w where w: "active_constitution_version vs = Some w"
    using active_version_None [of vs] by (cases "active_constitution_version vs") auto
  ultimately show "active_constitution_version vs = Some v"
    using newest_Some [OF w [unfolded active_constitution_version_def]] assms by (simp add: single_def)
qed (unfold active_constitution_version_def, rule newest_Some)

lemma draft_version_None:
  "draft_constitution_version vs = None \<longleftrightarrow> (\<forall>v \<in> set vs. v_status v \<noteq> GoalDraft)"
  unfolding draft_constitution_version_def by (rule newest_None)

lemma promote_clause_keeps [simp]:
  "g_id (promote_clause d g) = g_id g" "g_slug (promote_clause d g) = g_slug g" "g_version (promote_clause d g) = g_version g"
  "g_constitution_version (promote_clause d g) = g_constitution_version g"
  "g_superseded_by (promote_clause d g) = g_superseded_by g"
  by (simp_all add: promote_clause_def)

lemma retire_clause_keeps [simp]:
  "g_id (retire_clause b g) = g_id g" "g_slug (retire_clause b g) = g_slug g" "g_version (retire_clause b g) = g_version g"
  "g_constitution_version (retire_clause b g) = g_constitution_version g"
  "g_superseded_by (retire_clause b g) = g_superseded_by g"
  by (simp_all add: retire_clause_def)

lemma name_successor_keeps [simp]:
  "g_id (name_successor gs b d g) = g_id g" "g_slug (name_successor gs b d g) = g_slug g" "g_version (name_successor gs b d g) = g_version g"
  "g_constitution_version (name_successor gs b d g) = g_constitution_version g"
  "g_status (name_successor gs b d g) = g_status g"
  by (simp_all add: name_successor_def split: option.splits)

lemma version_keeps [simp]:
  "v_id (promote_version d a n v) = v_id v" "v_version (promote_version d a n v) = v_version v"
  "v_id (retire_version b v) = v_id v" "v_version (retire_version b v) = v_version v"
  by (simp_all add: promote_version_def retire_version_def)

lemma carry_task_keeps [simp]:
  "t_id (carry_task dest now t) = t_id t" "t_status (carry_task dest now t) = t_status t"
  by (simp_all add: carry_task_def split: option.splits)

text \<open>The clauses of a constitution after the promotion, one by one.\<close>

definition promoted_goals :: "string \<Rightarrow> string \<Rightarrow> goal list \<Rightarrow> goal list" where
  "promoted_goals before draft_id gs =
     (let gs1 = map (promote_clause draft_id) (map (retire_clause before) gs)
      in map (name_successor gs1 before draft_id) gs1)"

lemma promote_amendment_fields:
  "s_goals (cn_ledger (promote_amendment b d a n k)) = promoted_goals b d (s_goals (cn_ledger k))"
  "s_artifacts (cn_ledger (promote_amendment b d a n k)) =
     move_bindings (moved_to (promoted_goals b d (s_goals (cn_ledger k))) b) (s_artifacts (cn_ledger k))"
  "s_tasks (cn_ledger (promote_amendment b d a n k)) =
     map (carry_task (moved_to (promoted_goals b d (s_goals (cn_ledger k))) b) n) (s_tasks (cn_ledger k))"
  "s_events (cn_ledger (promote_amendment b d a n k)) = s_events (cn_ledger k)"
  "cn_versions (promote_amendment b d a n k) = map (promote_version d a n) (map (retire_version b) (cn_versions k))"
  "p_controls (cn_policy (promote_amendment b d a n k)) =
     map (carry_control (map (promote_clause d) (map (retire_clause b) (s_goals (cn_ledger k)))) d) (p_controls (cn_policy k))"
  by (simp_all add: promote_amendment_def promoted_goals_def cn_versions_def Let_def comp_def)

lemma promoted_goals_map:
  "promoted_goals b d gs = map (\<lambda>g. name_successor (map (promote_clause d) (map (retire_clause b) gs)) b d
     (promote_clause d (retire_clause b g))) gs"
  by (simp add: promoted_goals_def Let_def comp_def)

lemma promoted_goals_ids: "map g_id (promoted_goals b d gs) = map g_id gs"
  by (simp add: promoted_goals_def Let_def comp_def)

lemma amend_runs:
  assumes "amend_constitution hash draft_id amended_by approved_by rationale now k = Inr (a, k')"
  obtains act v where "active_constitution_version (cn_versions k) = Some act"
    "am_from_version a = v_id act" "am_to_version a = draft_id" "v_id act \<noteq> draft_id"
    "constitution_version_of (cn_versions k) draft_id = Some v" "v_status v = GoalDraft"
    "am_diff a = constitution_diff k (v_id act) draft_id" "am_diff a \<noteq> []"
    "undecided_proposals k draft_id = 0" "clauses_for_version (cn_ledger k) draft_id \<noteq> []"
    "am_amended_by a = trim amended_by" "am_approved_by a = Some (trim approved_by)"
    "\<not> blank amended_by" "\<not> blank approved_by" "\<not> blank rationale" "am_rationale a = trim rationale"
    "map ascii_lower (trim approved_by) \<noteq> map ascii_lower (trim amended_by)"
    "k' = (promote_amendment (v_id act) draft_id (trim amended_by) now k)\<lparr>cn_amendments := cn_amendments k @ [a]\<rparr>"
proof -
  from assms have st: "store_amend_constitution hash draft_id amended_by (trim approved_by) rationale now k = Inr (a, k')"
    and ap: "\<not> blank approved_by" "map ascii_lower (trim approved_by) \<noteq> map ascii_lower (trim amended_by)"
    by (auto simp: amend_constitution_def split: if_splits)
  then obtain act where act: "active_constitution_version (cn_versions k) = Some act"
    by (auto simp: store_amend_constitution_def split: if_splits option.splits)
  with st obtain v where v: "constitution_version_of (cn_versions k) draft_id = Some v"
    by (auto simp: store_amend_constitution_def Let_def split: if_splits option.splits)
  have k: "cn_amendments (promote_amendment b d x n k) = cn_amendments k" for b d x n
    by (simp add: promote_amendment_def Let_def)
  show thesis
    by (rule that [OF act _ _ _ v])
      (use st act v ap in \<open>auto simp: store_amend_constitution_def Let_def record_amendment_def k split: if_splits\<close>)
qed

lemma promoted_in:
  "g' \<in> set (promoted_goals b d gs) \<longleftrightarrow>
     (\<exists>g \<in> set gs. g' = name_successor (map (promote_clause d) (map (retire_clause b) gs)) b d
        (promote_clause d (retire_clause b g)))"
  by (auto simp: promoted_goals_def Let_def)

lemma promoted_status:
  assumes "b \<noteq> d"
  shows "g_status (promote_clause d (retire_clause b g)) =
    (if g_constitution_version g = Some b \<and> g_status g = GoalActive then GoalSuperseded
     else if g_constitution_version g = Some d \<and> g_status g = GoalDraft then GoalActive
     else g_status g)"
  using assms by (auto simp: promote_clause_def retire_clause_def)

lemma amended_version_status:
  assumes "b \<noteq> d"
  shows "v_status (promote_version d a n (retire_version b v)) =
    (if v_id v = b then GoalSuperseded
     else if v_id v = d \<and> v_status v = GoalDraft then GoalActive
     else v_status v)"
  using assms by (auto simp: promote_version_def retire_version_def)

lemma amend_keeps_ok:
  assumes ok: "constitution_ok k"
    and run: "amend_constitution hash draft_id amended_by approved_by rationale now k = Inr (a, k')"
  shows "constitution_ok k'"
proof -
  from run obtain act v where act: "active_constitution_version (cn_versions k) = Some act"
    and ne: "v_id act \<noteq> draft_id" and v: "constitution_version_of (cn_versions k) draft_id = Some v" "v_status v = GoalDraft"
    and k': "k' = (promote_amendment (v_id act) draft_id (trim amended_by) now k)\<lparr>cn_amendments := cn_amendments k @ [a]\<rparr>"
    by (rule amend_runs) blast
  have parts: "distinct (map g_id (s_goals (cn_ledger k)))" "distinct (map v_id (cn_versions k))" "versions_numbered k"
    "single GoalActive (cn_versions k)" "single GoalDraft (cn_versions k)" "standing k"
    using ok by (auto simp: constitution_ok_def)
  have led: "cn_ledger k' = cn_ledger (promote_amendment (v_id act) draft_id (trim amended_by) now k)"
    and vers: "cn_versions k' = map (\<lambda>w. promote_version draft_id (trim amended_by) now (retire_version (v_id act) w)) (cn_versions k)"
    using promote_amendment_fields(5) by (simp_all add: k' cn_versions_def comp_def)
  have act_in: "act \<in> set (cn_versions k)" "v_status act = GoalActive"
    using act by (simp_all add: active_version_iff [OF parts(4)])
  have v_in: "v \<in> set (cn_versions k)" "v_id v = draft_id"
    using v(1) by (auto simp: constitution_version_of_def find_distinct_Some [OF parts(2)])
  note st = amended_version_status [OF ne, where a = "trim amended_by" and n = now]
  have same: "w = w'" if "w \<in> set (cn_versions k)" "w' \<in> set (cn_versions k)" "v_id w = v_id w'" for w w'
    using that parts(2) by (metis distinct_map inj_onD)
  have only: "v_id w = draft_id" if "w \<in> set (cn_versions k)"
    "v_status (promote_version draft_id (trim amended_by) now (retire_version (v_id act) w)) = GoalActive" for w
    using that parts(4) act_in by (auto simp: st single_def split: if_splits)
  have "single GoalActive (cn_versions k')"
    using only same by (auto simp: single_def vers)
  moreover have "single GoalDraft (cn_versions k')"
    using parts(5) v_in v(2) by (auto simp: single_def vers st split: if_splits)
  moreover have "standing k'"
  proof -
    let ?f = "\<lambda>g. name_successor (map (promote_clause draft_id) (map (retire_clause (v_id act)) (s_goals (cn_ledger k))))
      (v_id act) draft_id (promote_clause draft_id (retire_clause (v_id act) g))"
    have goals: "s_goals (cn_ledger k') = map ?f (s_goals (cn_ledger k))"
      unfolding led promote_amendment_fields(1) by (rule promoted_goals_map)
    have carried: "replaces k' (?f g) = replaces k g" for g
      by (rule replaces_map [OF goals]) (simp_all add: k' promote_amendment_def Let_def)
    have "(\<exists>w \<in> set (cn_versions k'). v_id w = i \<and> v_status w = GoalActive) \<or> replaces k' (?f g)"
      if g: "g \<in> set (s_goals (cn_ledger k))" and cv: "g_constitution_version g = Some i"
        and gst: "g_status (promote_clause draft_id (retire_clause (v_id act) g)) = GoalActive" for g i
    proof (cases "i = draft_id")
      case True
      with v_in v(2) ne show ?thesis
        by (auto simp: vers st intro!: bexI [of _ v])
    next
      case False
      with gst cv have gact: "g_status g = GoalActive" "i \<noteq> v_id act"
        by (auto simp: promoted_status [OF ne] split: if_splits)
      have "\<not> (\<exists>w \<in> set (cn_versions k). v_id w = i \<and> v_status w = GoalActive)"
        using parts(4) act_in gact(2) by (auto simp: single_def)
      with parts(6) g cv gact(1) have "replaces k g" unfolding standing_def by blast
      then show ?thesis using carried by blast
    qed
    then show ?thesis unfolding standing_def goals by auto
  qed
  moreover have "versions_numbered k'"
    using parts(3) by (simp add: versions_numbered_def vers)
  ultimately show ?thesis
    using parts(1,2) by (simp add: constitution_ok_def led promote_amendment_fields(1) promoted_goals_ids vers comp_def)
qed

lemma find_conj: "find P xs = Some x \<Longrightarrow> Q x \<Longrightarrow> find (\<lambda>y. P y \<and> Q y) xs = Some x"
  by (induction xs) (auto split: if_splits)

lemma successor_found:
  assumes ne: "b \<noteq> d" and c: "c \<in> set (clauses_for_version s d)"
    and gs1: "gs1 = map (promote_clause d) (map (retire_clause b) (s_goals s))"
  obtains h where "successor_clause gs1 d (g_slug c) = Some h" "h \<in> set gs1"
    "g_constitution_version h = Some d" "g_status h = GoalActive" "g_slug h = g_slug c"
proof -
  let ?c = "promote_clause d (retire_clause b c)"
  have "?c \<in> set gs1" "g_constitution_version ?c = Some d" "g_slug ?c = g_slug c" "g_status ?c = GoalActive"
    using c ne goal_status.exhaust [of "g_status c"]
    by (auto simp: gs1 clauses_for_version_set promoted_status [OF ne])
  then have "successor_clause gs1 d (g_slug c) \<noteq> None"
    by (auto simp: successor_clause_def find_None_iff)
  then obtain h where "successor_clause gs1 d (g_slug c) = Some h" by blast
  with find_SomeD [OF this [unfolded successor_clause_def]] that show thesis by blast
qed

lemma moved_to_successor:
  assumes dist: "distinct (map g_id (s_goals s))" and ne: "b \<noteq> d"
    and gs1: "gs1 = map (promote_clause d) (map (retire_clause b) (s_goals s))"
    and g: "g \<in> set (s_goals s)" "g_constitution_version g = Some b" "g_superseded_by g = None"
  shows "moved_to (promoted_goals b d (s_goals s)) b (g_id g) = map_option g_id (successor_clause gs1 d (g_slug g))"
proof -
  let ?g' = "name_successor gs1 b d (promote_clause d (retire_clause b g))"
  have in_new: "?g' \<in> set (promoted_goals b d (s_goals s))" using g(1) gs1 by (auto simp: promoted_in)
  have "distinct (map g_id (promoted_goals b d (s_goals s)))" using dist by (simp add: promoted_goals_ids)
  then have "find (\<lambda>h. g_id h = g_id g) (promoted_goals b d (s_goals s)) = Some ?g'"
    using in_new by (simp add: find_distinct_Some)
  then have "find (\<lambda>h. g_id h = g_id g \<and> g_constitution_version h = Some b) (promoted_goals b d (s_goals s)) = Some ?g'"
    using g(2) by (intro find_conj) simp_all
  then show ?thesis using g by (auto simp: moved_to_def name_successor_def split: option.splits)
qed

lemma promoted_clause_active:
  assumes "distinct (map g_id (s_goals s))" and "b \<noteq> d" and "c \<in> set (clauses_for_version s d)"
  shows "\<exists>c'. find (\<lambda>g. g_id g = g_id c) (promoted_goals b d (s_goals s)) = Some c' \<and> g_status c' = GoalActive"
proof -
  let ?c' = "name_successor (map (promote_clause d) (map (retire_clause b) (s_goals s))) b d
    (promote_clause d (retire_clause b c))"
  have "?c' \<in> set (promoted_goals b d (s_goals s))"
    using assms(3) by (auto simp: promoted_in clauses_for_version_set)
  moreover have "distinct (map g_id (promoted_goals b d (s_goals s)))"
    using assms(1) by (simp add: promoted_goals_ids)
  ultimately have "find (\<lambda>g. g_id g = g_id c) (promoted_goals b d (s_goals s)) = Some ?c'"
    by (simp add: find_distinct_Some)
  moreover have "g_status ?c' = GoalActive"
    using assms(2,3) goal_status.exhaust [of "g_status c"]
    by (auto simp: clauses_for_version_set promoted_status [OF assms(2)])
  ultimately show ?thesis by blast
qed

text \<open>
  C8. An amendment replaces the constitution. It is made only by a named author, with a rationale and
  an approver who is not the author, from a draft with clauses, without undecided proposals and
  different from the policy in force. Afterwards the draft is the one active version, the version it
  replaces is superseded, every clause of the draft is in force, and no clause of any other version is
  but those that replace a clause superseded on its own.
\<close>

theorem amendment_replaces_constitution:
  assumes ok: "constitution_ok k"
    and run: "amend_constitution hash draft_id amended_by approved_by rationale now k = Inr (a, k')"
  shows "(\<exists>old. active_constitution_version (cn_versions k) = Some old \<and> am_from_version a = v_id old) \<and>
    \<not> blank rationale \<and> am_rationale a = trim rationale \<and>
    am_amended_by a \<noteq> [] \<and> (\<exists>p. am_approved_by a = Some p \<and> p \<noteq> [] \<and>
       map ascii_lower p \<noteq> map ascii_lower (am_amended_by a)) \<and>
    am_diff a = constitution_diff k (am_from_version a) draft_id \<and> am_diff a \<noteq> [] \<and>
    undecided_proposals k draft_id = 0 \<and> am_diff a \<in> am_diff ` set (cn_amendments k') \<and>
    (\<exists>new. active_constitution_version (cn_versions k') = Some new \<and> v_id new = draft_id \<and>
       v_activated_by new = Some (am_amended_by a) \<and> v_activated_at new = Some now) \<and>
    (\<forall>v \<in> set (cn_versions k'). v_id v = am_from_version a \<longrightarrow> v_status v = GoalSuperseded) \<and>
    (\<forall>c \<in> set (clauses_for_version (cn_ledger k) draft_id).
       \<exists>c'. get_goal (cn_ledger k') (g_id c) = Some c' \<and> g_status c' = GoalActive) \<and>
    (\<forall>g \<in> set (s_goals (cn_ledger k')). g_status g = GoalActive \<longrightarrow>
       g_constitution_version g \<in> {None, Some draft_id} \<or> replaces k' g)"
proof -
  from run obtain act v where act: "active_constitution_version (cn_versions k) = Some act"
    and am: "am_from_version a = v_id act" "am_diff a = constitution_diff k (v_id act) draft_id" "am_diff a \<noteq> []"
      "am_amended_by a = trim amended_by" "am_approved_by a = Some (trim approved_by)"
    and ne: "v_id act \<noteq> draft_id" and v: "constitution_version_of (cn_versions k) draft_id = Some v" "v_status v = GoalDraft"
    and und: "undecided_proposals k draft_id = 0"
    and who: "\<not> blank amended_by" "\<not> blank approved_by"
      "map ascii_lower (trim approved_by) \<noteq> map ascii_lower (trim amended_by)"
    and why: "\<not> blank rationale" "am_rationale a = trim rationale"
    and k': "k' = (promote_amendment (v_id act) draft_id (trim amended_by) now k)\<lparr>cn_amendments := cn_amendments k @ [a]\<rparr>"
    by (rule amend_runs) blast
  have "constitution_ok k'" by (rule amend_keeps_ok [OF ok run])
  then have sing: "single GoalActive (cn_versions k')" and std: "standing k'" by (simp_all add: constitution_ok_def)
  have led: "cn_ledger k' = cn_ledger (promote_amendment (v_id act) draft_id (trim amended_by) now k)"
    and vers: "cn_versions k' = map (\<lambda>w. promote_version draft_id (trim amended_by) now (retire_version (v_id act) w)) (cn_versions k)"
    using promote_amendment_fields(5) by (simp_all add: k' cn_versions_def comp_def)
  note st = amended_version_status [OF ne, where a = "trim amended_by" and n = now]
  let ?new = "promote_version draft_id (trim amended_by) now (retire_version (v_id act) v)"
  have v_in: "v \<in> set (cn_versions k)" "v_id v = draft_id"
    using find_SomeD [OF v(1) [unfolded constitution_version_of_def]] by simp_all
  then have new: "?new \<in> set (cn_versions k')" "v_status ?new = GoalActive" "v_id ?new = draft_id"
    "v_activated_by ?new = Some (trim amended_by)" "v_activated_at ?new = Some now"
    using v(2) ne by (auto simp: vers promote_version_def retire_version_def)
  then have active: "active_constitution_version (cn_versions k') = Some ?new"
    by (simp add: active_version_iff [OF sing])
  have superseded: "\<forall>w \<in> set (cn_versions k'). v_id w = am_from_version a \<longrightarrow> v_status w = GoalSuperseded"
    by (auto simp: vers st am(1))
  have dist: "distinct (map g_id (s_goals (cn_ledger k)))" using ok by (simp add: constitution_ok_def)
  have clauses: "\<exists>c'. get_goal (cn_ledger k') (g_id c) = Some c' \<and> g_status c' = GoalActive"
    if "c \<in> set (clauses_for_version (cn_ledger k) draft_id)" for c
    using promoted_clause_active [OF dist ne that] by (simp add: get_goal_def led promote_amendment_fields(1))
  have others: "g_constitution_version g \<in> {None, Some draft_id} \<or> replaces k' g"
    if "g \<in> set (s_goals (cn_ledger k'))" "g_status g = GoalActive" for g
  proof (cases "g_constitution_version g")
    case (Some i)
    with std that consider w where "w \<in> set (cn_versions k')" "v_id w = i" "v_status w = GoalActive" | "replaces k' g"
      by (auto simp: standing_def)
    then show ?thesis
    proof cases
      case 1
      with sing new have "i = draft_id" by (auto simp: single_def)
      with Some show ?thesis by simp
    qed simp
  qed simp
  have "am_amended_by a \<noteq> []" "trim approved_by \<noteq> []"
    using who by (simp_all add: am blank_def)
  then show ?thesis
    using act am und who(3) why active new superseded clauses others
    by (simp add: k')
qed

text \<open>What the destination of an identifier is when no clause of the outgoing version was superseded on its own.\<close>

lemma moved_to_promoted:
  assumes dist: "distinct (map g_id (s_goals s))" and ne: "b \<noteq> d"
    and alone: "\<forall>g \<in> set (s_goals s). g_constitution_version g = Some b \<longrightarrow> g_superseded_by g = None"
    and to: "moved_to (promoted_goals b d (s_goals s)) b i = Some j"
  shows "\<exists>h \<in> set (promoted_goals b d (s_goals s)). g_id h = j \<and> g_constitution_version h = Some d \<and> g_status h = GoalActive"
proof -
  let ?gs1 = "map (promote_clause d) (map (retire_clause b) (s_goals s))"
  from to obtain g' where g': "g' \<in> set (promoted_goals b d (s_goals s))" "g_id g' = i" "g_constitution_version g' = Some b"
    by (auto simp: moved_to_def split: option.splits dest: find_SomeD)
  then obtain g where g: "g \<in> set (s_goals s)" "g_id g = i" "g_constitution_version g = Some b"
    by (auto simp: promoted_in)
  then have "moved_to (promoted_goals b d (s_goals s)) b i = map_option g_id (successor_clause ?gs1 d (g_slug g))"
    using moved_to_successor [OF dist ne refl] alone by metis
  then have "map_option g_id (successor_clause ?gs1 d (g_slug g)) = Some j" using to by simp
  then obtain h where h: "successor_clause ?gs1 d (g_slug g) = Some h" "g_id h = j" by auto
  from find_SomeD [OF h(1) [unfolded successor_clause_def]]
  have h': "h \<in> set ?gs1" "g_constitution_version h = Some d" "g_status h = GoalActive" by auto
  then have "name_successor ?gs1 b d h = h" using ne by (simp add: name_successor_def)
  with h' have "h \<in> set (promoted_goals b d (s_goals s))" by (force simp: promoted_in)
  with h h' show ?thesis by blast
qed

lemma moved_to_settled:
  assumes "distinct (map g_id (s_goals s))" and "b \<noteq> d"
    and "\<forall>g \<in> set (s_goals s). g_constitution_version g = Some b \<longrightarrow> g_superseded_by g = None"
    and "moved_to (promoted_goals b d (s_goals s)) b i = Some j"
  shows "moved_to (promoted_goals b d (s_goals s)) b j = None"
proof (rule ccontr)
  assume "moved_to (promoted_goals b d (s_goals s)) b j \<noteq> None"
  then obtain g where g: "g \<in> set (promoted_goals b d (s_goals s))" "g_id g = j" "g_constitution_version g = Some b"
    by (auto simp: moved_to_def split: option.splits dest: find_SomeD)
  obtain h where h: "h \<in> set (promoted_goals b d (s_goals s))" "g_id h = j" "g_constitution_version h = Some d"
    using moved_to_promoted [OF assms] by blast
  have "distinct (map g_id (promoted_goals b d (s_goals s)))" using assms(1) by (simp add: promoted_goals_ids)
  with g h assms(2) show False by (metis distinct_map inj_onD option.inject)
qed

lemma get_task_carried:
  assumes "s_tasks s' = map (carry_task dest now) (s_tasks s)"
  shows "get_task s' i = map_option (carry_task dest now) (get_task s i)"
proof -
  have "find (\<lambda>t. t_id t = i) (map (carry_task dest now) ts) = map_option (carry_task dest now) (find (\<lambda>t. t_id t = i) ts)" for ts
    by (induction ts) auto
  then show ?thesis by (simp add: get_task_def assms)
qed

lemma moved_to_same_slug:
  assumes dist: "distinct (map g_id (s_goals s))" and ne: "b \<noteq> d"
    and alone: "\<forall>g \<in> set (s_goals s). g_constitution_version g = Some b \<longrightarrow> g_superseded_by g = None"
    and to: "moved_to (promoted_goals b d (s_goals s)) b j = Some y"
  shows "\<exists>g. get_goal s j = Some g \<and> (\<exists>h. get_goal s y = Some h \<and> g_slug h = g_slug g)"
proof -
  let ?gs1 = "map (promote_clause d) (map (retire_clause b) (s_goals s))"
  from to obtain g' where "g' \<in> set (promoted_goals b d (s_goals s))" "g_id g' = j" "g_constitution_version g' = Some b"
    by (auto simp: moved_to_def split: option.splits dest: find_SomeD)
  then obtain g where g: "g \<in> set (s_goals s)" "g_id g = j" "g_constitution_version g = Some b"
    by (auto simp: promoted_in)
  have "map_option g_id (successor_clause ?gs1 d (g_slug g)) = Some y"
    using moved_to_successor [OF dist ne refl g(1,3)] alone g to by simp
  then obtain h' where "successor_clause ?gs1 d (g_slug g) = Some h'" "g_id h' = y" by auto
  then have "h' \<in> set ?gs1" "g_slug h' = g_slug g"
    by (auto simp: successor_clause_def dest!: find_SomeD)
  then obtain h where "h \<in> set (s_goals s)" "g_id h = y" "g_slug h = g_slug g"
    using \<open>g_id h' = y\<close> by auto
  with g dist show ?thesis by (auto simp: get_goal_def find_distinct_Some)
qed

lemma promoted_bindings:
  assumes dist: "distinct (map g_id (s_goals s))" and ne: "b \<noteq> d"
    and alone: "\<forall>g \<in> set (s_goals s). g_constitution_version g = Some b \<longrightarrow> g_superseded_by g = None"
    and dest: "moved_to (promoted_goals b d (s_goals s)) b i = Some y" and g: "get_goal s i = Some g"
    and row: "(i, node, mode) \<in> set rows"
  shows "\<exists>mode'. (y, node, mode') \<in> set (move_bindings (moved_to (promoted_goals b d (s_goals s)) b) rows) \<and>
    (\<exists>j q. (j, node, mode') \<in> set rows \<and> get_goal s j = Some q \<and> g_slug q = g_slug g)"
proof -
  let ?to = "moved_to (promoted_goals b d (s_goals s)) b"
  note settled = moved_to_settled [OF dist ne alone]
  have same: "\<exists>q. get_goal s y = Some q \<and> g_slug q = g_slug g"
    using moved_to_same_slug [OF dist ne alone dest] g by auto
  have keys: "(\<lambda>(i, node, _). (i, node)) ` set (move_bindings ?to rows) = (\<lambda>(i, node, _). (redirect ?to i, node)) ` set rows"
    by (rule move_bindings_keys) (rule settled)
  have "(redirect ?to i, node) \<in> (\<lambda>(i, node, _). (i, node)) ` set (move_bindings ?to rows)"
    unfolding keys using row by force
  then obtain mode' where m: "(y, node, mode') \<in> set (move_bindings ?to rows)"
    using dest by (force simp: redirect_def)
  have "\<exists>j. (j, node, mode') \<in> set rows \<and> y = redirect ?to j"
    by (rule move_bindings_from [OF _ m]) (rule settled)
  then obtain j where j: "(j, node, mode') \<in> set rows" "y = redirect ?to j" by blast
  have "\<exists>q. get_goal s j = Some q \<and> g_slug q = g_slug g"
  proof (cases "?to j")
    case None
    with j(2) same show ?thesis by (simp add: redirect_def)
  next
    case (Some z)
    then have "z = y" using j(2) by (simp add: redirect_def)
    with moved_to_same_slug [OF dist ne alone Some] same show ?thesis by auto
  qed
  with m j(1) show ?thesis by blast
qed

lemma promoted_control:
  assumes dist: "distinct (map g_id (s_goals s))" and ne: "b \<noteq> d"
    and gs1: "gs1 = map (promote_clause d) (map (retire_clause b) (s_goals s))"
    and g: "g \<in> set (s_goals s)" "g_constitution_version g = Some b"
    and h: "successor_clause gs1 d (g_slug g) = Some h" "h \<in> set gs1" "g_constitution_version h = Some d"
      "g_status h = GoalActive" "g_slug h = g_slug g"
    and x: "c_clause_id x = g_id g" "c_status x = ControlActive"
  shows "carry_control gs1 d x = x\<lparr>c_clause_id := g_id h\<rparr>"
proof -
  let ?g1 = "promote_clause d (retire_clause b g)"
  have d1: "distinct (map g_id gs1)" using dist by (simp add: gs1 comp_def)
  have served: "find (\<lambda>y. g_id y = g_id g) gs1 = Some ?g1"
    unfolding find_distinct_Some [OF d1] using g by (auto simp: gs1)
  have "g_id h \<noteq> g_id g"
  proof
    assume "g_id h = g_id g"
    with served h(2) have "h = ?g1" using find_distinct_Some [OF d1, of "g_id g" h] by simp
    then show False using h(3) g(2) ne by simp
  qed
  then have "\<exists>y \<in> set gs1. g_constitution_version y = Some d \<and> g_status y = GoalActive \<and>
      g_id y \<noteq> c_clause_id x \<and> g_slug y = g_slug ?g1"
    using h x(1) by (intro bexI [of _ h]) simp_all
  then show ?thesis using served x h(1) unfolding carry_control_def by simp
qed

text \<open>
  C9. An amendment carries the work with the rule. When no clause of the outgoing version was
  superseded on its own before, every clause that the draft restates takes along, in the same
  transaction: each unfinished task that named it, which now names the restated clause, in force and
  of the same slug; each binding to code, in its mode or in that of another clause of the same slug
  that was bound to the same code; and each active control. Finished tasks keep the clause they were
  judged under. Without the condition the claim is false, as \<open>relinked_clause_loses_code\<close> shows.
\<close>

theorem amendment_carries_work:
  assumes ok: "constitution_ok k"
    and run: "amend_constitution hash draft_id amended_by approved_by rationale now k = Inr (a, k')"
    and alone: "\<forall>g \<in> set (s_goals (cn_ledger k)). g_constitution_version g = Some (am_from_version a) \<longrightarrow> g_superseded_by g = None"
    and g: "get_goal (cn_ledger k) i = Some g" "g_constitution_version g = Some (am_from_version a)"
    and c: "c \<in> set (clauses_for_version (cn_ledger k) draft_id)" "g_slug c = g_slug g"
  shows "\<exists>h. get_goal (cn_ledger k') (g_id h) = Some h \<and> g_status h = GoalActive \<and>
    g_constitution_version h = Some draft_id \<and> g_slug h = g_slug g \<and>
    (\<forall>t. get_task (cn_ledger k) (t_id t) = Some t \<and> t_goal_id t = i \<longrightarrow>
       get_task (cn_ledger k') (t_id t) = Some (if t_status t \<in> {Done, Abandoned} then t
         else t\<lparr>t_goal_id := g_id h, t_updated_at := now\<rparr>)) \<and>
    (\<forall>node mode. (i, node, mode) \<in> set (s_artifacts (cn_ledger k)) \<longrightarrow>
       (\<exists>mode'. (g_id h, node, mode') \<in> set (s_artifacts (cn_ledger k')) \<and>
          (\<exists>j q. (j, node, mode') \<in> set (s_artifacts (cn_ledger k)) \<and> get_goal (cn_ledger k) j = Some q \<and> g_slug q = g_slug g))) \<and>
    (\<forall>x \<in> set (p_controls (cn_policy k)). c_clause_id x = i \<and> c_status x = ControlActive \<longrightarrow>
       x\<lparr>c_clause_id := g_id h\<rparr> \<in> set (p_controls (cn_policy k')))"
proof -
  from run obtain act v where "active_constitution_version (cn_versions k) = Some act"
    "constitution_version_of (cn_versions k) draft_id = Some v"
    and ne: "v_id act \<noteq> draft_id" and b: "am_from_version a = v_id act"
    and k': "k' = (promote_amendment (v_id act) draft_id (trim amended_by) now k)\<lparr>cn_amendments := cn_amendments k @ [a]\<rparr>"
    by (rule amend_runs) blast
  let ?s = "cn_ledger k" and ?b = "v_id act"
  let ?gs1 = "map (promote_clause draft_id) (map (retire_clause ?b) (s_goals ?s))"
  let ?gs2 = "promoted_goals ?b draft_id (s_goals ?s)"
  have led: "cn_ledger k' = cn_ledger (promote_amendment ?b draft_id (trim amended_by) now k)"
    and pol: "cn_policy k' = cn_policy (promote_amendment ?b draft_id (trim amended_by) now k)" by (simp_all add: k')
  note fields = promote_amendment_fields [of ?b draft_id "trim amended_by" now k, folded led pol]
  have dist: "distinct (map g_id (s_goals ?s))" using ok by (simp add: constitution_ok_def)
  have gi: "g \<in> set (s_goals ?s)" "g_id g = i"
    using g(1) by (auto simp: get_goal_def dest: find_SomeD)
  obtain h where h: "successor_clause ?gs1 draft_id (g_slug g) = Some h" "h \<in> set ?gs1"
    "g_constitution_version h = Some draft_id" "g_status h = GoalActive" "g_slug h = g_slug g"
    using successor_found [OF ne c(1) refl] c(2) by metis
  have "name_successor ?gs1 ?b draft_id h = h" using h(3) ne by (simp add: name_successor_def)
  then have h2: "h \<in> set ?gs2" using h(2) by (force simp: promoted_in)
  then have found: "get_goal (cn_ledger k') (g_id h) = Some h"
    using dist by (simp add: get_goal_def fields(1) find_distinct_Some promoted_goals_ids)
  have dest: "moved_to ?gs2 ?b i = Some (g_id h)"
    using moved_to_successor [OF dist ne refl gi(1)] g(2) alone gi h(1) by (auto simp: b)
  have tasks: "get_task (cn_ledger k') (t_id t) = Some (if t_status t \<in> {Done, Abandoned} then t
      else t\<lparr>t_goal_id := g_id h, t_updated_at := now\<rparr>)"
    if "get_task ?s (t_id t) = Some t" "t_goal_id t = i" for t
    using that dest by (simp add: get_task_carried [OF fields(3)] carry_task_def)
  have binds: "\<exists>mode'. (g_id h, node, mode') \<in> set (s_artifacts (cn_ledger k')) \<and>
      (\<exists>j q. (j, node, mode') \<in> set (s_artifacts ?s) \<and> get_goal ?s j = Some q \<and> g_slug q = g_slug g)"
    if "(i, node, mode) \<in> set (s_artifacts ?s)" for node mode
    unfolding fields(2) by (rule promoted_bindings [OF dist ne _ dest g(1) that]) (use alone in \<open>simp add: b\<close>)
  have ctrl: "x\<lparr>c_clause_id := g_id h\<rparr> \<in> set (p_controls (cn_policy k'))"
    if x: "x \<in> set (p_controls (cn_policy k))" "c_clause_id x = i" "c_status x = ControlActive" for x
  proof -
    have "carry_control ?gs1 draft_id x = x\<lparr>c_clause_id := g_id h\<rparr>"
      by (rule promoted_control [OF dist ne refl gi(1) _ h]) (use g(2) gi(2) x in \<open>simp_all add: b\<close>)
    then show ?thesis using x(1) unfolding fields(6) by force
  qed
  show ?thesis using found h tasks binds ctrl by blast
qed

end
