(* ===== verification/Constitution_Machine.thy ===== *)
theory Constitution_Machine
  imports Amendments
begin

text \<open>
  The constitution as a state machine: the contract of an operation that keeps it well formed, its
  interpretation for every operation of the store and the facade, the runs they make, and what holds
  in every constitution such a run reaches. Operations that are not one transaction are taken with the
  state they leave when they fail. The last sections show what superseding a clause does to drafts and
  to the scope of tasks, and concrete constitutions.
\<close>

subsection \<open>Frames\<close>

lemma retirements_frame [simp]:
  "cn_retirements (set_versions vs k) = cn_retirements k" "cn_retirements (add_goals gs k) = cn_retirements k"
  by (simp_all add: set_versions_def add_goals_def)

lemma constitution_ok_cong:
  assumes "s_goals (cn_ledger k') = s_goals (cn_ledger k)" and "cn_versions k' = cn_versions k"
    and "cn_retirements k' = cn_retirements k"
  shows "constitution_ok k' = constitution_ok k"
  by (simp add: constitution_ok_def standing_def replaces_def versions_numbered_def assms)

lemma constitution_ok_map:
  assumes ok: "constitution_ok k" and goals: "s_goals (cn_ledger k') = map f (s_goals (cn_ledger k))"
    and vers: "cn_versions k' = cn_versions k" and ret: "cn_retirements k' = cn_retirements k"
    and keeps: "\<And>g. g_id (f g) = g_id g" "\<And>g. g_constitution_version (f g) = g_constitution_version g"
      "\<And>g. g_slug (f g) = g_slug g" "\<And>g. g_version (f g) = g_version g"
      "\<And>g. g_status (f g) = GoalActive \<Longrightarrow> g_status g = GoalActive"
  shows "constitution_ok k'"
proof -
  have "replaces k' (f g) = replaces k g" for g
    by (rule replaces_map [OF goals ret]) (rule keeps)+
  with ok keeps have "standing k'" unfolding constitution_ok_def standing_def goals vers by auto
  with ok keeps show ?thesis by (simp add: constitution_ok_def versions_numbered_def goals vers comp_def)
qed

lemma replaces_more:
  assumes "replaces k g" and "set (s_goals (cn_ledger k)) \<subseteq> set (s_goals (cn_ledger k'))"
    and "dom (cn_retirements k) \<subseteq> dom (cn_retirements k')"
  shows "replaces k' g"
  using assms unfolding replaces_def by blast

lemma replaces_set_versions [simp]: "replaces (set_versions vs k) g = replaces k g"
  by (simp add: replaces_def set_versions_def)

lemma constitution_ok_insert:
  assumes ok: "constitution_ok k" and goals: "s_goals (cn_ledger k') = s_goals (cn_ledger k) @ [g]"
    and vers: "cn_versions k' = cn_versions k" and ret: "cn_retirements k' = cn_retirements k"
    and new: "\<not> goal_exists_on (cn_ledger k) (g_id g)"
    and st: "\<And>i. g_status g = GoalActive \<Longrightarrow> g_constitution_version g = Some i \<Longrightarrow>
      (\<exists>v \<in> set (cn_versions k). v_id v = i \<and> v_status v = GoalActive) \<or> replaces k g"
  shows "constitution_ok k'"
proof -
  have more: "replaces k h \<Longrightarrow> replaces k' h" for h
    by (erule replaces_more) (auto simp: goals ret)
  have "standing k'"
    unfolding standing_def goals vers
  proof (intro ballI allI impI)
    fix h i assume h: "h \<in> set (s_goals (cn_ledger k) @ [g])" "g_status h = GoalActive \<and> g_constitution_version h = Some i"
    then have "(\<exists>v \<in> set (cn_versions k). v_id v = i \<and> v_status v = GoalActive) \<or> replaces k h"
      using ok st by (cases "h = g") (auto simp: constitution_ok_def standing_def)
    with more show "(\<exists>v \<in> set (cn_versions k). v_id v = i \<and> v_status v = GoalActive) \<or> replaces k' h" by blast
  qed
  with ok new show ?thesis
    by (auto simp: constitution_ok_def versions_numbered_def goals vers goal_exists_on_def)
qed

lemma insert_goal_on_Inr:
  "insert_goal_on g s = Inr (u, s') \<longleftrightarrow> \<not> goal_exists_on s (g_id g) \<and> s' = s\<lparr>s_goals := s_goals s @ [g]\<rparr>"
  by (auto simp: insert_goal_on_def)

lemma on_ledger_Inr: "on_ledger run k = Inr (x, k') \<longleftrightarrow> (\<exists>s. run (cn_ledger k) = Inr (x, s) \<and> k' = k\<lparr>cn_ledger := s\<rparr>)"
  by (auto simp: on_ledger_def and_then_Inr)

lemma snd_commit: "snd (commit run k) = (case run k of Inl _ \<Rightarrow> k | Inr (_, k') \<Rightarrow> k')"
  by (simp add: commit_def split: sum.splits)

lemma snd_proceed: "P (snd r) \<Longrightarrow> (\<And>x k. r = (Inr x, k) \<Longrightarrow> P (snd (f x k))) \<Longrightarrow> P (snd (proceed r f))"
  by (cases r) (auto simp: proceed_def split: sum.splits)

subsection \<open>The contract\<close>

locale constitution_operation =
  fixes run :: "constitution \<Rightarrow> 'r res \<times> constitution"
  assumes keeps_ok: "constitution_ok k \<Longrightarrow> constitution_ok (snd (run k))"
begin

lemma keeps_ok_after: "constitution_ok k \<Longrightarrow> run k = (r, k') \<Longrightarrow> constitution_ok k'"
  using keeps_ok [of k] by simp

end

text \<open>An operation that is one transaction satisfies the contract when its successes keep the invariant.\<close>

locale constitution_transaction =
  fixes tx :: "constitution \<Rightarrow> ('r \<times> constitution) res"
  assumes commits_ok: "constitution_ok k \<Longrightarrow> tx k = Inr (r, k') \<Longrightarrow> constitution_ok k'"
begin

lemma commit_ok: "constitution_ok k \<Longrightarrow> constitution_ok (snd (commit tx k))"
  using commits_ok by (auto simp: snd_commit split: sum.splits)

end

sublocale constitution_transaction \<subseteq> constitution_operation "commit tx"
  by unfold_locales (rule commit_ok)

subsection \<open>Clauses, contracts and bindings\<close>

interpretation define_goal: constitution_transaction "on_ledger (define_goal_on hash kind title st parent now)"
  for hash kind title st parent now
proof
  fix k g k'
  assume ok: "constitution_ok k" and run: "on_ledger (define_goal_on hash kind title st parent now) k = Inr (g, k')"
  from run show "constitution_ok k'"
    by (auto simp: on_ledger_Inr define_goal_on_def Let_def and_then_Inr insert_goal_on_Inr bare_goal_def
        split: if_splits intro!: constitution_ok_insert [OF ok])
qed

interpretation define_clause: constitution_transaction "draft_clause hash draft_id kind title st now"
  for hash draft_id kind title st now
proof
  fix k g k'
  assume ok: "constitution_ok k" and run: "draft_clause hash draft_id kind title st now k = Inr (g, k')"
  from run show "constitution_ok k'"
    by (auto simp: draft_clause_def on_ledger_Inr define_clause_in_version_def Let_def and_then_Inr
        insert_goal_on_Inr bare_goal_def split: if_splits option.splits intro!: constitution_ok_insert [OF ok])
qed

lemma import_record_ok:
  assumes "constitution_ok (k\<lparr>cn_ledger := s\<rparr>)" and "import_record hash sys now (acc, s) r = Inr (acc', s')"
  shows "constitution_ok (k\<lparr>cn_ledger := s'\<rparr>)"
proof -
  let ?g = "imported_goal hash sys now r"
  have "s' = s \<or> \<not> goal_exists_on s (g_id ?g) \<and> s' = s\<lparr>s_goals := s_goals s @ [?g]\<rparr>"
    using assms(2)
    by (auto simp: import_record_def Let_def and_then_Inr insert_goal_on_Inr split: if_splits option.splits)
  moreover have "g_constitution_version ?g = None" by (simp add: imported_goal_def bare_goal_def)
  ultimately show ?thesis
    using assms(1) constitution_ok_insert [OF assms(1), of "k\<lparr>cn_ledger := s'\<rparr>" ?g] by auto
qed

interpretation import_goals: constitution_transaction "on_ledger (import_external_goals hash sys records now)"
  for hash sys records now
proof
  fix k r k'
  assume ok: "constitution_ok k" and run: "on_ledger (import_external_goals hash sys records now) k = Inr (r, k')"
  then obtain s where s: "k' = k\<lparr>cn_ledger := s\<rparr>"
    and fold: "try_fold (import_record hash (trim sys) now)
      (\<lparr>ir_outcomes = [], ir_created = 0, ir_unchanged = 0, ir_skipped = 0, ir_conflicts = 0\<rparr>, cn_ledger k) records = Inr (r, s)"
    by (auto simp: on_ledger_Inr import_external_goals_def and_then_Inr split: if_splits)
  have "(\<lambda>(_, s). constitution_ok (k\<lparr>cn_ledger := s\<rparr>)) (r, s)"
    by (rule try_fold_invariant [OF _ _ fold]) (use ok import_record_ok in auto)
  then show "constitution_ok k'" by (simp add: s)
qed

interpretation contract: constitution_transaction "on_ledger (complete_clause_contract i scope ev cons waivable auth)"
  for i scope ev cons waivable auth
proof
  fix k g k'
  assume ok: "constitution_ok k" and run: "on_ledger (complete_clause_contract i scope ev cons waivable auth) k = Inr (g, k')"
  let ?f = "\<lambda>g. if g_id g = i \<and> g_status g \<noteq> GoalSuperseded
    then g\<lparr>g_scope := Some (trim scope), g_evidence_contract := Some (trim ev), g_consequence := cons,
           g_waivable := waivable, g_waiver_authority := (case auth of None \<Rightarrow> None
             | Some a \<Rightarrow> if blank a then None else Some (trim a))\<rparr> else g"
  from run have "k' = k\<lparr>cn_ledger := (cn_ledger k)\<lparr>s_goals := map ?f (s_goals (cn_ledger k))\<rparr>\<rparr>"
    by (auto simp: on_ledger_Inr complete_clause_contract_def store_complete_clause_contract_def Let_def
        split: if_splits option.splits)
  then show "constitution_ok k'" by (intro constitution_ok_map [OF ok, of k' ?f]) (auto split: if_splits)
qed

lemma bind_nodes_goals: "s_goals (foldl (bind_node i mode) s nodes) = s_goals s"
  by (induction nodes arbitrary: s) (auto simp: bind_node_def)

lemma unbind_nodes_goals: "s_goals (snd (foldl (unbind_node i) (n, s) nodes)) = s_goals s"
  by (induction nodes arbitrary: n s) (auto simp: unbind_node_def)

interpretation link: constitution_transaction "on_ledger (link_goal_to_artifact i nodes mode)" for i nodes mode
proof
  fix k r k'
  assume ok: "constitution_ok k" and run: "on_ledger (link_goal_to_artifact i nodes mode) k = Inr (r, k')"
  then show "constitution_ok k'"
    by (subst constitution_ok_cong [of k' k])
      (auto simp: on_ledger_Inr link_goal_to_artifact_def store_link_goal_to_artifact_def bind_nodes_goals
        split: if_splits option.splits)
qed

interpretation unlink: constitution_transaction "on_ledger (unlink_goal_from_artifact i nodes)" for i nodes
proof
  fix k r k'
  assume ok: "constitution_ok k" and run: "on_ledger (unlink_goal_from_artifact i nodes) k = Inr (r, k')"
  then obtain s where s: "foldl (unbind_node i) (0, cn_ledger k) nodes = (r, s)" "k' = k\<lparr>cn_ledger := s\<rparr>"
    by (auto simp: on_ledger_Inr unlink_goal_from_artifact_def split: if_splits)
  then have "s_goals s = s_goals (cn_ledger k)" using unbind_nodes_goals [of i 0 "cn_ledger k" nodes] by simp
  with ok s(2) show "constitution_ok k'" by (subst constitution_ok_cong [of k' k]) simp_all
qed

subsection \<open>Versions and packs\<close>

interpretation activate: constitution_transaction "activate_constitution draft_id who now" for draft_id who now
proof
  fix k v k'
  assume ok: "constitution_ok k" and run: "activate_constitution draft_id who now k = Inr (v, k')"
  from run have none: "\<forall>w \<in> set (cn_versions k). v_status w \<noteq> GoalActive"
    and k': "k' = (set_versions (map (promote_version draft_id (trim who) now) (cn_versions k)) k)
      \<lparr>cn_ledger := (cn_ledger k)\<lparr>s_goals := map (promote_clause draft_id) (s_goals (cn_ledger k))\<rparr>\<rparr>"
    by (auto simp: activate_constitution_def store_activate_constitution_def Let_def find_None_iff
        split: if_splits option.splits)
  from run obtain d where d: "d \<in> set (cn_versions k)" "v_id d = draft_id" "v_status d = GoalDraft"
    by (auto simp: activate_constitution_def store_activate_constitution_def constitution_version_of_def
        split: if_splits option.splits dest!: find_SomeD)
  have parts: "distinct (map g_id (s_goals (cn_ledger k)))" "distinct (map v_id (cn_versions k))" "versions_numbered k"
    "single GoalDraft (cn_versions k)" "standing k"
    using ok by (auto simp: constitution_ok_def)
  have vers: "cn_versions k' = map (promote_version draft_id (trim who) now) (cn_versions k)"
    and goals: "s_goals (cn_ledger k') = map (promote_clause draft_id) (s_goals (cn_ledger k))" by (simp_all add: k')
  have st: "v_status (promote_version draft_id (trim who) now w) =
      (if v_id w = draft_id \<and> v_status w = GoalDraft then GoalActive else v_status w)" for w
    by (simp add: promote_version_def)
  have uniq: "w = w'" if "w \<in> set (cn_versions k)" "w' \<in> set (cn_versions k)" "v_id w = v_id w'" for w w'
    using that parts(2) by (metis distinct_map inj_onD)
  have "single GoalActive (cn_versions k')"
    using none uniq by (auto simp: single_def vers st split: if_splits)
  moreover have "single GoalDraft (cn_versions k')"
    using parts(4) d by (auto simp: single_def vers st split: if_splits)
  moreover have "standing k'"
    unfolding standing_def goals
  proof (clarsimp)
    fix g i assume g: "g \<in> set (s_goals (cn_ledger k))" "g_constitution_version g = Some i"
      "g_status (promote_clause draft_id g) = GoalActive" and no: "\<not> replaces k' (promote_clause draft_id g)"
    have "replaces k' (promote_clause draft_id g) = replaces k g"
      by (rule replaces_map [OF goals]) (simp_all add: k')
    with no g parts(5) none have "i = draft_id" by (auto simp: promote_clause_def standing_def split: if_splits)
    then show "\<exists>w \<in> set (cn_versions k'). v_id w = i \<and> v_status w = GoalActive"
      using d by (auto simp: vers st intro!: bexI [of _ d])
  qed
  ultimately show "constitution_ok k'"
    using parts(1-3) by (simp add: constitution_ok_def goals vers comp_def versions_numbered_def)
qed

interpretation register: constitution_transaction "register_policy_pack digest p" for digest p
proof
  fix k r k'
  assume ok: "constitution_ok k" and run: "register_policy_pack digest p k = Inr (r, k')"
  then show "constitution_ok k'"
    by (subst constitution_ok_cong [of k' k])
      (auto simp: register_policy_pack_def and_then_Inr cn_versions_def split: if_splits option.splits)
qed

interpretation propose_pack: constitution_transaction "propose_policy_pack hash json i v cv now" for hash json i v cv now
proof
  fix k r k'
  assume ok: "constitution_ok k" and run: "propose_policy_pack hash json i v cv now k = Inr (r, k')"
  then show "constitution_ok k'"
    by (subst constitution_ok_cong [of k' k])
      (auto simp: propose_policy_pack_def store_propose_policy_pack_def Let_def cn_versions_def
        split: if_splits option.splits)
qed

lemma materialize_ok:
  assumes ok: "constitution_ok k" and run: "materialize hash p c reason now k = Inr (g, k')"
  shows "constitution_ok k'"
proof -
  from run obtain st where st: "constitution_status_on k (pp_constitution_version p) = Inr st"
    and g: "g = materialized_goal hash p c st reason now"
    and k': "\<not> goal_exists_on (cn_ledger k) (g_id g)" "s_goals (cn_ledger k') = s_goals (cn_ledger k) @ [g]"
      "cn_versions k' = cn_versions k" "cn_retirements k' = cn_retirements k"
    by (auto simp: materialize_def Let_def and_then_Inr insert_goal_on_Inr cn_versions_def
        split: if_splits option.splits)
  show ?thesis
  proof (rule constitution_ok_insert [OF ok k'(2,3,4,1)])
    fix i assume "g_status g = GoalActive" "g_constitution_version g = Some i"
    then have "st = GoalActive" "pp_constitution_version p = Some i"
      by (simp_all add: g materialized_goal_def bare_goal_def)
    with st show "(\<exists>v \<in> set (cn_versions k). v_id v = i \<and> v_status v = GoalActive) \<or> replaces k g"
      by (auto simp: constitution_status_on_def context_of_def constitution_version_of_def
          split: if_splits option.splits dest!: find_SomeD)
  qed
qed

lemma decide_frame: "constitution_ok (decide_proposal i d who why now adopted k) = constitution_ok k"
  by (rule constitution_ok_cong) (simp_all add: decide_proposal_def cn_versions_def)

interpretation review: constitution_transaction "review_pack_clause hash i d tailored who why now"
  for hash i d tailored who why now
proof
  fix k r k'
  assume ok: "constitution_ok k" and run: "review_pack_clause hash i d tailored who why now k = Inr (r, k')"
  then show "constitution_ok k'"
    by (auto simp: review_pack_clause_def and_then_Inr Let_def decide_frame
        split: if_splits option.splits) (metis materialize_ok)+
qed

subsection \<open>Drafts\<close>

lemma open_draft_ok:
  assumes ok: "constitution_ok k" and none: "draft_constitution_version (cn_versions k) = None"
  shows "constitution_ok (set_versions (cn_versions k @ [open_draft who now k]) k)"
proof -
  have fresh: "\<forall>v \<in> set (cn_versions k). v_id v \<noteq> next_id k"
    using ok next_id_fresh [of k] by (auto simp: constitution_ok_def constitution_version_of_def find_None_iff)
  moreover have "\<forall>v \<in> set (cn_versions k). v_status v \<noteq> GoalDraft" using none by (simp add: draft_version_None)
  ultimately show ?thesis using ok
    by (auto simp: constitution_ok_def standing_def versions_numbered_def single_def open_draft_def next_id_def)
qed

lemma create_draft_commit:
  assumes ok: "constitution_ok k" and none: "draft_constitution_version (cn_versions k) = None"
  shows "commit (\<lambda>k'. and_then (create_constitution_version (next_id k) (next_constitution_version_number (cn_versions k))
      GoalDraft who now (cn_versions k')) (\<lambda>(v, vs). Inr (v, set_versions vs k'))) k =
    (Inr (open_draft who now k), set_versions (cn_versions k @ [open_draft who now k]) k)"
  using next_id_fresh [of k] ok
  by (simp add: commit_def create_constitution_version_def constitution_ok_def open_draft_def Let_def)

lemma insert_copies_ok:
  assumes "constitution_ok k" and "\<forall>g \<in> set gs. g_status g = GoalDraft"
  shows "constitution_ok (snd (insert_copies gs k))"
  using assms
proof (induction gs arbitrary: k)
  case (Cons g gs)
  have "constitution_ok (add_goals [g] k)" if "\<not> goal_exists_on (cn_ledger k) (g_id g)"
    by (rule constitution_ok_insert [OF Cons.prems(1)]) (use that Cons.prems(2) in auto)
  with Cons show ?case by (simp add: insert_one proceed_def)
qed simp

lemma proceed_ok:
  assumes "constitution_ok (snd r)" and "\<And>x k. constitution_ok k \<Longrightarrow> constitution_ok (snd (f x k))"
  shows "constitution_ok (snd (proceed r f))"
  by (rule snd_proceed [where P = constitution_ok]) (use assms in auto)

interpretation propose_amend: constitution_operation "propose_amendment who now" for who now
proof
  fix k :: constitution
  assume ok: "constitution_ok k"
  show "constitution_ok (snd (propose_amendment who now k))"
  proof (cases "active_constitution_version (cn_versions k) = None \<or> draft_constitution_version (cn_versions k) \<noteq> None")
    case True
    with ok show ?thesis by (auto simp: propose_amendment_def split: option.splits)
  next
    case False
    then obtain a where a: "active_constitution_version (cn_versions k) = Some a"
      and none: "draft_constitution_version (cn_versions k) = None" by auto
    have num: "versions_numbered k" using ok by (simp add: constitution_ok_def)
    have copies: "constitution_ok (snd (copy_clauses_to_version b d k'))" if "constitution_ok k'" for b d k'
      unfolding copy_clauses_to_version_def Let_def
      using insert_copies_ok [OF that, of "map (carried_clause d) (clauses_for_version (cn_ledger k') b)"]
      by (intro proceed_ok) (auto simp: carried_clause_def)
    show ?thesis
      unfolding propose_amendment_runs [OF num a none]
      using copies [OF open_draft_ok [OF ok none]] by (intro proceed_ok) auto
  qed
qed

lemma proceed_simps [simp]: "proceed (Inr x, k) f = f x k" "proceed (Inl e, k) f = (Inl e, k)"
  by (simp_all add: proceed_def)

lemma facts_frame: "constitution_ok (k\<lparr>cn_facts := fs\<rparr>) = constitution_ok k"
  by (rule constitution_ok_cong) (simp_all add: cn_versions_def)

lemma facts_ok:
  "constitution_ok k \<Longrightarrow> constitution_ok (snd (commit (\<lambda>k. Inr (record_project_facts i fs now k)) k))"
  by (simp add: snd_commit record_project_facts_def facts_frame)

interpretation propose_first: constitution_operation "propose_constitution hash json digest paths who now"
  for hash json digest paths who now
proof
  fix k :: constitution
  assume ok: "constitution_ok k"
  show "constitution_ok (snd (propose_constitution hash json digest paths who now k))"
  proof (cases "active_constitution_version (cn_versions k) \<noteq> None \<or> draft_constitution_version (cn_versions k) \<noteq> None")
    case True
    with ok show ?thesis by (auto simp: propose_constitution_def split: option.splits)
  next
    case False
    then have none: "draft_constitution_version (cn_versions k) = None" by blast
    show ?thesis
      using False open_draft_ok [OF ok none, of who now] create_draft_commit [OF ok none, of who now]
      by (auto simp: propose_constitution_def Let_def next_id_def
          intro!: proceed_ok facts_ok register.commit_ok propose_pack.commit_ok)
  qed
qed

interpretation amend: constitution_transaction "amend_constitution hash draft_id who approver why now"
  for hash draft_id who approver why now
  by unfold_locales (rule amend_keeps_ok)

subsection \<open>Task operations leave the clauses alone\<close>

lemma transact_goals:
  assumes "transact i g f extra k a n d s = Inr (b, s')"
    and "\<And>s s'. extra s = Inr s' \<Longrightarrow> s_goals s' = s_goals s"
  shows "s_goals s' = s_goals s"
proof -
  have rec: "s_goals s2 = s_goals s1" if "event_record i k a n d s1 = Inr s2" for s1 s2
    using that by (auto simp: event_record_def split: option.splits)
  have upd: "s_goals (snd (execute_update i g f s)) = s_goals s" by (simp add: execute_update_def)
  show ?thesis
    using assms(1) upd rec assms(2)
    by (auto simp: transact_def and_then_Inr case_prod_beta split: if_splits)
qed

lemma replace_scopes_goals: "replace_scopes i ps ss s = Inr s' \<Longrightarrow> s_goals s' = s_goals s"
proof -
  have one: "s_goals s' = s_goals s" if "replace_scope i kind vs s = Inr s'" for kind vs s s'
  proof (cases vs)
    case (Some ws)
    let ?s = "s\<lparr>s_scopes := filter (\<lambda>r. \<not> (fst r = i \<and> fst (snd r) = kind)) (s_scopes s)\<rparr>"
    have "try_fold (insert_scope i kind) ?s ws = Inr s'" using that Some by (simp add: replace_scope_def)
    then have "s_goals s' = s_goals ?s"
      by (rule try_fold_invariant [where P = "\<lambda>x. s_goals x = s_goals ?s", rotated 2])
        (auto simp: insert_scope_def split: if_splits)
    then show ?thesis by simp
  qed (use that in \<open>simp add: replace_scope_def\<close>)
  show "replace_scopes i ps ss s = Inr s' \<Longrightarrow> s_goals s' = s_goals s"
    using one by (fastforce simp: replace_scopes_def and_then_Inr)
qed

lemma insert_qa_goals: "insert_qa i k b a au n s = Inr s' \<Longrightarrow> s_goals s' = s_goals s"
  by (auto simp: insert_qa_def split: if_splits)

lemma append_note_goals: "append_note_on i r a n s = Inr s' \<Longrightarrow> s_goals s' = s_goals s"
  by (auto simp: append_note_on_def split: option.splits if_splits dest: insert_qa_goals)

lemma event_record_goals: "event_record i k a n d s = Inr s' \<Longrightarrow> s_goals s' = s_goals s"
  by (auto simp: event_record_def split: option.splits)

lemma insert_handoff_goals: "s_goals (insert_handoff p i n s) = s_goals s"
  by (simp add: insert_handoff_def)

lemma open_successor_goals: "open_blocked_successor_on i now s = Inr s' \<Longrightarrow> s_goals s' = s_goals s"
  by (auto simp: open_blocked_successor_on_def and_then_Inr split: option.splits dest: transact_goals)

lemma create_goals: "create_task_with_id i goal title acc parent pred goals now s = Inr (t, s') \<Longrightarrow> s_goals s' = s_goals s"
  by (auto simp: create_task_with_id_def and_then_Inr Let_def insert_task_def insert_handoff_row_def insert_handoff_goals
      split: option.splits if_splits dest!: insert_coverage_Inr)

lemma block_goals: "block_task i b r a now s = Inr (c, s') \<Longrightarrow> s_goals s' = s_goals s"
  by (auto simp: block_task_def and_then_Inr Let_def execute_update_def insert_handoff_goals
      split: option.splits if_splits dest!: event_record_goals append_note_goals)

lemma recover_goals: "recover_claim_authorized i old rec auth l now s = Inr (b, s') \<Longrightarrow> s_goals s' = s_goals s"
  by (auto simp: recover_claim_authorized_def and_then_Inr Let_def
      split: option.splits if_splits dest!: transact_goals insert_qa_goals)

lemma task_step_goals: "task_step glob hash now s s' \<Longrightarrow> s_goals s' = s_goals s"
proof (induction rule: task_step.induct)
  case (step_create goal title acc parent pred goals s t s')
  then show ?case using create_runs_with_id create_goals by metis
next
  case (step_claim i agent l paths symbols s b s')
  then show ?case
    by (auto simp: claim_task_with_partial_scope_def and_then_Inr dest!: transact_goals intro: replace_scopes_goals)
next
  case (step_coverage i agent goals s ts s')
  then show ?case
    by (auto simp: declare_coverage_def and_then_Inr split: option.splits if_splits
        dest!: event_record_goals insert_coverage_Inr)
qed (auto simp: renew_lease_def touch_lease_def release_task_def declare_session_context_def reopen_task_def
      abandon_task_def resolve_in_review_def ask_question_def answer_question_def pause_task_def resume_task_def
      reconnect_claim_clause_def record_conformance_def transition_with_checked_conformance_def and_then_Inr Let_def
    split: option.splits if_splits list.splits
    intro: block_goals recover_goals
    dest!: transact_goals open_successor_goals intro: insert_qa_goals append_note_goals)

subsection \<open>The machine\<close>

lemma supersede_runs:
  assumes "supersede_goal old_id st why agent now k = Inr (new, k')"
  obtains old where "get_goal (cn_ledger k) old_id = Some old" "new = superseding_goal old st why now"
    "\<not> goal_exists_on (cn_ledger k) (g_id new)" "\<not> blank agent" "cn_versions k' = cn_versions k"
    "s_goals (cn_ledger k') = map (\<lambda>g. if g_id g = old_id
       then g\<lparr>g_status := GoalSuperseded, g_superseded_by := Some (g_id new)\<rparr> else g) (s_goals (cn_ledger k)) @ [new]"
    "cn_retirements k' = (cn_retirements k)(old_id \<mapsto> (trim agent, now))"
proof -
  from assms obtain old where old: "get_goal (cn_ledger k) old_id = Some old" "\<not> blank agent"
    "new = superseding_goal old st why now" "\<not> goal_exists_on (cn_ledger k) (g_id new)"
    by (auto simp: supersede_goal_def store_supersede_goal_def and_then_Inr resolve_agent_def insert_goal_on_Inr
        Let_def split: option.splits if_splits)
  have ne: "g_id new \<noteq> old_id"
    using old(1,4) by (auto simp: get_goal_def goal_exists_on_def dest: find_SomeD)
  show thesis
    by (rule that [OF old(1,3,4,2)])
      (use assms old ne in \<open>auto simp: supersede_goal_def store_supersede_goal_def and_then_Inr resolve_agent_def
        insert_goal_on_Inr Let_def cn_versions_def\<close>)
qed

lemma constitution_ok_retired:
  assumes "constitution_ok k"
  shows "constitution_ok (k\<lparr>cn_retirements := (cn_retirements k)(i \<mapsto> x)\<rparr>)"
proof -
  let ?k = "k\<lparr>cn_retirements := (cn_retirements k)(i \<mapsto> x)\<rparr>"
  have "cn_versions ?k = cn_versions k" by (simp add: cn_versions_def)
  moreover have "replaces k g \<Longrightarrow> replaces ?k g" for g
    by (erule replaces_more) auto
  ultimately have "standing ?k"
    using assms unfolding constitution_ok_def standing_def by fastforce
  with assms \<open>cn_versions ?k = cn_versions k\<close> show ?thesis
    by (simp add: constitution_ok_def versions_numbered_def)
qed

interpretation supersede: constitution_transaction "supersede_goal old_id st why agent now"
  for old_id st why agent now
proof
  fix k new k'
  assume ok: "constitution_ok k" and run: "supersede_goal old_id st why agent now k = Inr (new, k')"
  let ?f = "\<lambda>g. if g_id g = old_id then g\<lparr>g_status := GoalSuperseded, g_superseded_by := Some (g_id new)\<rparr> else g"
  let ?k1 = "k\<lparr>cn_ledger := (cn_ledger k)\<lparr>s_goals := map ?f (s_goals (cn_ledger k))\<rparr>\<rparr>"
  let ?k2 = "?k1\<lparr>cn_retirements := (cn_retirements ?k1)(old_id \<mapsto> (trim agent, now))\<rparr>"
  from run obtain old where old: "get_goal (cn_ledger k) old_id = Some old"
    and new: "new = superseding_goal old st why now" "\<not> goal_exists_on (cn_ledger k) (g_id new)"
    and k': "cn_versions k' = cn_versions k" "s_goals (cn_ledger k') = map ?f (s_goals (cn_ledger k)) @ [new]"
      "cn_retirements k' = (cn_retirements k)(old_id \<mapsto> (trim agent, now))"
    by (rule supersede_runs)
  have "constitution_ok ?k1"
    by (rule constitution_ok_map [OF ok, of ?k1 ?f]) (auto split: if_splits)
  then have ok2: "constitution_ok ?k2" by (rule constitution_ok_retired)
  have "old \<in> set (s_goals (cn_ledger k))" "g_id old = old_id"
    using old by (auto simp: get_goal_def dest: find_SomeD)
  then have "?f old \<in> set (s_goals (cn_ledger ?k2))" "cn_retirements ?k2 (g_id (?f old)) \<noteq> None"
    "g_id new = ''goal:'' @ g_slug (?f old) @ ''-v'' @ show_int (g_version (?f old) + 1)"
    by (simp_all add: new(1) superseding_goal_def)
  then have "replaces ?k2 new" unfolding replaces_def by blast
  then show "constitution_ok k'"
    by (intro constitution_ok_insert [OF ok2, of k' new]) (use k' new(2) in \<open>auto simp: goal_exists_on_def cn_versions_def\<close>)
qed

text \<open>
  Clearing the intent store (\<^verbatim>\<open>reset_database\<close>): the audits, the bindings, the tasks, the knowledge, the
  policy packs, the declared sessions and the clauses go, with the rows whose foreign keys cascade; the
  versions, their facts and amendments, the controls and the waivers stay, and so does the log of task
  events, which has no foreign key. \<open>designs\<close> is the number of design items, which are not modelled.
  The model numbers later audits, questions and transfers from one again, where SQLite's
  \<^verbatim>\<open>AUTOINCREMENT\<close> continues; what is stated below does not depend on those numbers.
\<close>

record reset_outcome =
  ro_goals_removed :: nat
  ro_tasks_removed :: nat
  ro_design_items_removed :: nat
  ro_artifact_bindings_removed :: nat
  ro_conformance_records_removed :: nat
  ro_knowledge_removed :: nat

definition reset_database :: "nat \<Rightarrow> string \<Rightarrow> constitution \<Rightarrow> (reset_outcome \<times> constitution) res" where
  "reset_database designs confirmation k =
     (if confirmation \<noteq> ''RESET LODESTAR'' then Inl (Invalid ResetConfirmation)
      else Inr (\<lparr>ro_goals_removed = length (s_goals (cn_ledger k)),
                 ro_tasks_removed = length (s_tasks (cn_ledger k)),
                 ro_design_items_removed = designs,
                 ro_artifact_bindings_removed = length (s_artifacts (cn_ledger k)),
                 ro_conformance_records_removed = length (s_conformance (cn_ledger k)),
                 ro_knowledge_removed = length (kn_rows (p_lessons (cn_policy k)))\<rparr>,
        k\<lparr>cn_ledger := empty_ledger\<lparr>s_events := s_events (cn_ledger k)\<rparr>,
          cn_policy := (cn_policy k)\<lparr>p_lessons := \<lparr>kn_rows = [], kn_sources = []\<rparr>\<rparr>,
          cn_retirements := Map.empty, cn_packs := [], cn_pack_conflicts := [],
          cn_proposals := [], cn_provenance := []\<rparr>))"

interpretation reset: constitution_transaction "reset_database designs confirmation" for designs confirmation
  by unfold_locales
    (auto simp: reset_database_def constitution_ok_def standing_def versions_numbered_def cn_versions_def
      empty_ledger_def split: if_splits)

text \<open>
  The steps of a repository whose constitution is drafted, reviewed, activated and amended while
  tasks run, whose clauses, of whatever version and status, are superseded one by one, and whose
  store may be cleared.
\<close>

inductive constitution_step ::
  "globset \<Rightarrow> (string \<Rightarrow> string) \<Rightarrow> (pack_clause \<Rightarrow> string) \<Rightarrow> (constitution_pack \<Rightarrow> string) \<Rightarrow> int \<Rightarrow>
   constitution \<Rightarrow> constitution \<Rightarrow> bool"
  for glob hash json digest now where
  step_task: "task_step glob hash now (cn_ledger k) s' \<Longrightarrow>
    constitution_step glob hash json digest now k (k\<lparr>cn_ledger := s'\<rparr>)"
| step_goal: "commit (on_ledger (define_goal_on hash kind title st parent now)) k = (r, k') \<Longrightarrow>
    constitution_step glob hash json digest now k k'"
| step_import: "commit (on_ledger (import_external_goals hash sys records now)) k = (r, k') \<Longrightarrow>
    constitution_step glob hash json digest now k k'"
| step_clause: "commit (draft_clause hash draft_id kind title st now) k = (r, k') \<Longrightarrow>
    constitution_step glob hash json digest now k k'"
| step_contract: "commit (on_ledger (complete_clause_contract i scope ev cons waivable auth)) k = (r, k') \<Longrightarrow>
    constitution_step glob hash json digest now k k'"
| step_link: "commit (on_ledger (link_goal_to_artifact i nodes mode)) k = (r, k') \<Longrightarrow>
    constitution_step glob hash json digest now k k'"
| step_unlink: "commit (on_ledger (unlink_goal_from_artifact i nodes)) k = (r, k') \<Longrightarrow>
    constitution_step glob hash json digest now k k'"
| step_supersede: "commit (supersede_goal i st why agent now) k = (r, k') \<Longrightarrow> constitution_step glob hash json digest now k k'"
| step_reset: "commit (reset_database designs confirmation) k = (r, k') \<Longrightarrow> constitution_step glob hash json digest now k k'"
| step_register: "commit (register_policy_pack digest p) k = (r, k') \<Longrightarrow> constitution_step glob hash json digest now k k'"
| step_propose: "commit (propose_policy_pack hash json i v cv now) k = (r, k') \<Longrightarrow>
    constitution_step glob hash json digest now k k'"
| step_review: "commit (review_pack_clause hash i d tailored who why' now) k = (r, k') \<Longrightarrow>
    constitution_step glob hash json digest now k k'"
| step_first: "propose_constitution hash json digest paths created_by now k = (r, k') \<Longrightarrow>
    constitution_step glob hash json digest now k k'"
| step_activate: "commit (activate_constitution draft_id who now) k = (r, k') \<Longrightarrow>
    constitution_step glob hash json digest now k k'"
| step_draft: "propose_amendment created_by now k = (r, k') \<Longrightarrow> constitution_step glob hash json digest now k k'"
| step_amend: "commit (amend_constitution hash draft_id who approver why now) k = (r, k') \<Longrightarrow>
    constitution_step glob hash json digest now k k'"

definition empty_constitution :: constitution where
  "empty_constitution = \<lparr>cn_ledger = empty_ledger,
     cn_policy = \<lparr>p_waivers = [], p_controls = [], p_versions = [], p_lessons = \<lparr>kn_rows = [], kn_sources = []\<rparr>\<rparr>,
     cn_retirements = Map.empty, cn_packs = [], cn_pack_conflicts = [], cn_proposals = [], cn_provenance = [],
     cn_facts = [], cn_amendments = []\<rparr>"

inductive governed ::
  "globset \<Rightarrow> (string \<Rightarrow> string) \<Rightarrow> (pack_clause \<Rightarrow> string) \<Rightarrow> (constitution_pack \<Rightarrow> string) \<Rightarrow> constitution \<Rightarrow> bool"
  for glob hash json digest where
  governed_start: "governed glob hash json digest empty_constitution"
| governed_step: "governed glob hash json digest k \<Longrightarrow> constitution_step glob hash json digest now k k' \<Longrightarrow>
    governed glob hash json digest k'"

lemma constitution_step_ok:
  assumes "constitution_step glob hash json digest now k k'" and ok: "constitution_ok k"
  shows "constitution_ok k'"
  using assms(1)
proof cases
  case (step_task s')
  with ok show ?thesis by (subst constitution_ok_cong [of k' k]) (simp_all add: task_step_goals)
qed (use ok in \<open>auto dest: define_goal.keeps_ok_after import_goals.keeps_ok_after define_clause.keeps_ok_after
    contract.keeps_ok_after link.keeps_ok_after unlink.keeps_ok_after register.keeps_ok_after
    propose_pack.keeps_ok_after review.keeps_ok_after propose_first.keeps_ok_after activate.keeps_ok_after
    propose_amend.keeps_ok_after amend.keeps_ok_after supersede.keeps_ok_after reset.keeps_ok_after\<close>)

lemma governed_ok: "governed glob hash json digest k \<Longrightarrow> constitution_ok k"
proof (induction rule: governed.induct)
  case governed_start
  show ?case
    by (simp add: constitution_ok_def empty_constitution_def empty_ledger_def cn_versions_def versions_numbered_def
        single_def standing_def)
next
  case (governed_step k now k')
  then show ?case using constitution_step_ok by blast
qed

text \<open>
  C7. Only one constitution governs. In every constitution that drafting, reviewing, activating,
  amending, superseding, clearing the store and the task operations reach, at most one version is active
  and at most one is a draft, identifiers are unique, and whatever code a clause is bound to, the clauses
  that govern it belong to no version, or to the active one, or are the replacement of a clause that was
  superseded on its own. That exception is real: the replacement of a draft clause is active at once.
\<close>

theorem constitution_is_sound:
  assumes "governed glob hash json digest k"
  shows "(\<forall>v w. v \<in> set (cn_versions k) \<and> w \<in> set (cn_versions k) \<and> v_status v = v_status w \<and>
       v_status v \<noteq> GoalSuperseded \<longrightarrow> v = w) \<and>
    distinct (map v_id (cn_versions k)) \<and> distinct (map g_id (s_goals (cn_ledger k))) \<and>
    (\<forall>node b. b \<in> set (active_bindings_for_node (cn_ledger k) node) \<longrightarrow>
       g_constitution_version (ab_goal b) = None \<or>
       g_constitution_version (ab_goal b) = map_option v_id (active_constitution_version (cn_versions k)) \<or>
       (\<exists>old \<in> set (s_goals (cn_ledger k)). cn_retirements k (g_id old) \<noteq> None \<and>
          g_id (ab_goal b) = ''goal:'' @ g_slug old @ ''-v'' @ show_int (g_version old + 1)))"
proof -
  have ok: "constitution_ok k" using assms by (rule governed_ok)
  then have s: "single GoalActive (cn_versions k)" "single GoalDraft (cn_versions k)" "standing k"
    by (simp_all add: constitution_ok_def)
  have "g_constitution_version (ab_goal b) = None \<or>
      g_constitution_version (ab_goal b) = map_option v_id (active_constitution_version (cn_versions k)) \<or>
      replaces k (ab_goal b)"
    if b: "b \<in> set (active_bindings_for_node (cn_ledger k) node)" for node b
  proof (cases "g_constitution_version (ab_goal b)")
    case (Some i)
    have "ab_goal b \<in> set (s_goals (cn_ledger k))" "g_status (ab_goal b) = GoalActive"
      using b by (auto simp: active_bindings_for_node_def get_goal_def split: if_splits option.splits dest!: sym [of "Some _"] find_SomeD)
    with Some s(3) consider v where "v \<in> set (cn_versions k)" "v_id v = i" "v_status v = GoalActive" | "replaces k (ab_goal b)"
      unfolding standing_def by blast
    then show ?thesis
    proof cases
      case 1
      then have "active_constitution_version (cn_versions k) = Some v" by (simp add: active_version_iff [OF s(1)])
      with Some 1(2) show ?thesis by simp
    qed blast
  qed simp
  moreover have "v = w" if "v \<in> set (cn_versions k)" "w \<in> set (cn_versions k)" "v_status v = v_status w"
    "v_status v \<noteq> GoalSuperseded" for v w
    using that s(1,2) by (cases "v_status w") (auto simp: single_def)
  ultimately show ?thesis using ok unfolding replaces_def by (auto simp: constitution_ok_def)
qed

end
