(* ===== verification/Pack_Review.thy ===== *)
theory Pack_Review
  imports Policy_Packs
begin

text \<open>
  What the review of a policy pack guarantees: the packs that ship with the program are well formed and
  can be registered and proposed, a review decides a clause once and for all, and only an adopted clause
  enters the constitution, with its source on record.
\<close>

subsection \<open>Proposing the shipped packs\<close>

definition propose_common_core ::
  "(string \<Rightarrow> string) \<Rightarrow> (pack_clause \<Rightarrow> string) \<Rightarrow> (constitution_pack \<Rightarrow> string) \<Rightarrow> int \<Rightarrow> constitution \<Rightarrow>
   proposal_batch res \<times> constitution" where
  "propose_common_core hash clause_json digest now k =
     (let pack = common_core_pack digest in
      proceed (commit (register_policy_pack digest pack) k) (\<lambda>_ k.
        commit (propose_policy_pack hash clause_json (kp_id pack) (kp_version pack) None now) k))"

definition propose_fleet_delivery ::
  "(string \<Rightarrow> string) \<Rightarrow> (pack_clause \<Rightarrow> string) \<Rightarrow> (constitution_pack \<Rightarrow> string) \<Rightarrow> int \<Rightarrow> constitution \<Rightarrow>
   proposal_batch res \<times> constitution" where
  "propose_fleet_delivery hash clause_json digest now k =
     (let pack = fleet_delivery_pack digest in
      proceed (commit (register_policy_pack digest pack) k) (\<lambda>_ k.
        commit (propose_policy_pack hash clause_json (kp_id pack) (kp_version pack) None now) k))"

text \<open>
  A pack that carries its own digest, with well-formed clauses and no conflicts, is registered unless
  its version was registered with other content.
\<close>

lemma sealed_pack_registers:
  assumes "\<And>p d. digest (p\<lparr>kp_digest := d\<rparr>) = digest p"
    and "valid_key (kp_id p)" "\<not> blank (kp_version p)" "\<not> blank (kp_title p)"
    and "kp_compatible_engine_versions p = [''*'']" "kp_clauses p \<noteq> []" "kp_conflicts p = []"
    and "try_fold validate_pack_clause [] (kp_clauses p) = Inr keys"
    and "get_policy_pack k (kp_id p) (kp_version p) = None"
  shows "register_policy_pack digest (sealed_pack digest p) k =
    Inr (sealed_pack digest p, k\<lparr>cn_packs := cn_packs k @ [sealed_pack digest p]\<rparr>)"
  using assms by (simp add: register_policy_pack_def validate_pack_def sealed_pack_def blank_def trim_def is_whitespace_def)

lemma shipped_clauses_valid:
  "\<exists>keys. try_fold validate_pack_clause [] common_core_clauses = Inr keys"
  "\<exists>keys. try_fold validate_pack_clause [] fleet_delivery_clauses = Inr keys"
proof -
  have "(case try_fold validate_pack_clause [] common_core_clauses of Inl _ \<Rightarrow> False | Inr _ \<Rightarrow> True)" by code_simp
  then show "\<exists>keys. try_fold validate_pack_clause [] common_core_clauses = Inr keys" by (simp split: sum.splits)
  have "(case try_fold validate_pack_clause [] fleet_delivery_clauses of Inl _ \<Rightarrow> False | Inr _ \<Rightarrow> True)" by code_simp
  then show "\<exists>keys. try_fold validate_pack_clause [] fleet_delivery_clauses = Inr keys" by (simp split: sum.splits)
qed

subsection \<open>Review\<close>

lemma get_decided:
  "get_proposal_on (decide_proposal i d actor reason now adopted k) j = map_option (\<lambda>p.
     if pp_id p = i \<and> pp_disposition p = None then p\<lparr>pp_disposition := Some d, pp_reviewed_by := Some actor,
       pp_review_reason := reason, pp_reviewed_at := Some now, pp_adopted_goal_id := adopted\<rparr> else p) (get_proposal_on k j)"
  unfolding get_proposal_on_def decide_proposal_def by (simp add: find_map_key)

lemma decide_proposal_frame [simp]:
  "cn_ledger (decide_proposal i d actor reason now adopted k) = cn_ledger k"
  "cn_provenance (decide_proposal i d actor reason now adopted k) = cn_provenance k"
  "cn_policy (decide_proposal i d actor reason now adopted k) = cn_policy k"
  by (simp_all add: decide_proposal_def)

text \<open>What a materialised clause is: new, the last of the table, with its source on record.\<close>

lemma materialize_runs:
  assumes "materialize hash p c reason now k = Inr (g, k1)"
  obtains st where "constitution_status_on k (pp_constitution_version p) = Inr st"
    "g = materialized_goal hash p c st reason now" "get_goal (cn_ledger k) (g_id g) = None"
    "s_goals (cn_ledger k1) = s_goals (cn_ledger k) @ [g]" "cn_proposals k1 = cn_proposals k"
    "pack_clause_provenance k1 (g_id g) = Some \<lparr>pv_goal_id = g_id g, pv_pack_id = pp_pack_id p,
       pv_pack_version = pp_pack_version p, pv_pack_digest = pp_pack_digest p, pv_clause_key = kc_key (pp_clause p),
       pv_source_clause = pp_clause p\<rparr>"
    "get_goal (cn_ledger k1) (g_id g) = Some g"
proof -
  from assms obtain st where st: "constitution_status_on k (pp_constitution_version p) = Inr st"
    and g: "g = materialized_goal hash p c st reason now" and new: "\<not> goal_exists_on (cn_ledger k) (g_id g)"
    and prov: "pack_clause_provenance k (g_id g) = None"
    and k1: "k1 = k\<lparr>cn_ledger := (cn_ledger k)\<lparr>s_goals := s_goals (cn_ledger k) @ [g]\<rparr>, cn_provenance := cn_provenance k @
      [\<lparr>pv_goal_id = g_id g, pv_pack_id = pp_pack_id p, pv_pack_version = pp_pack_version p,
        pv_pack_digest = pp_pack_digest p, pv_clause_key = kc_key (pp_clause p), pv_source_clause = pp_clause p\<rparr>]\<rparr>"
    by (auto simp: materialize_def Let_def and_then_Inr insert_goal_on_def split: if_splits option.splits)
  have none: "find (\<lambda>x. g_id x = g_id g) (s_goals (cn_ledger k)) = None"
    using new by (auto simp: find_None_iff goal_exists_on_def)
  have prov': "find (\<lambda>v. pv_goal_id v = g_id g) (cn_provenance k) = None"
    using prov by (simp add: pack_clause_provenance_def)
  show thesis
    by (rule that [OF st g]) (simp_all add: k1 get_goal_def pack_clause_provenance_def none prov' find_append_None)
qed

text \<open>The state after a first decision, adoption and rejection at once.\<close>

lemma review_runs:
  assumes "review_pack_clause hash i d tailored actor reason now k = Inr ((p', g), k')"
    and "get_proposal_on k i = Some p" "pp_disposition p = None"
  obtains k1 where "\<not> blank actor" "k' = decide_proposal i d actor reason now (map_option g_id g) k1"
    "get_proposal_on k' i = Some p'" "d = Rejected \<Longrightarrow> g = None \<and> k1 = k"
    "d \<noteq> Rejected \<Longrightarrow> \<exists>h c. g = Some h \<and> selected_clause p d tailored = Inr c \<and> materialize hash p c reason now k = Inr (h, k1)"
  using assms
  by (cases "d = Rejected") (auto simp: review_pack_clause_def and_then_Inr Let_def split: if_splits option.splits)

text \<open>
  C34. A review decides a clause once. The decision is recorded under its actor; a rejected clause leaves
  the constitution as it is, and an adopted or tailored one adds exactly one clause, under the version it
  was proposed for and in force only if that version is, whose provenance names the proposed text. The same
  review again returns the same outcome and changes nothing, and another decision is refused.
\<close>

theorem review_is_final:
  assumes run: "review_pack_clause hash i d tailored actor reason now k = Inr ((p', g), k')"
    and p: "get_proposal_on k i = Some p" "pp_disposition p = None"
  shows "pp_disposition p' = Some d \<and> pp_reviewed_by p' = Some actor \<and> actor \<noteq> [] \<and>
    (\<forall>j. j \<noteq> i \<longrightarrow> get_proposal_on k' j = get_proposal_on k j) \<and>
    (case g of
       None \<Rightarrow> d = Rejected \<and> cn_ledger k' = cn_ledger k \<and> cn_provenance k' = cn_provenance k
     | Some h \<Rightarrow> d \<noteq> Rejected \<and> s_goals (cn_ledger k') = s_goals (cn_ledger k) @ [h] \<and>
         g_constitution_version h = pp_constitution_version p \<and> g_origin h = OriginPack \<and>
         constitution_status_on k (pp_constitution_version p) = Inr (g_status h) \<and>
         (\<exists>v. pack_clause_provenance k' (g_id h) = Some v \<and> pv_source_clause v = pp_clause p \<and>
            pv_pack_digest v = pp_pack_digest p)) \<and>
    (\<forall>d2 tailored2 actor2 reason2 now2. \<not> blank actor2 \<and> (\<exists>r. reason2 = Some r \<and> \<not> blank r) \<longrightarrow>
       review_pack_clause hash i d2 tailored2 actor2 reason2 now2 k' =
         (if d2 = d then Inr ((p', g), k') else Inl (Invalid (Clause (DecidedAlready i (disposition_as_str d))))))"
proof -
  from run p obtain k1 where actor: "\<not> blank actor"
    and k': "k' = decide_proposal i d actor reason now (map_option g_id g) k1" and p': "get_proposal_on k' i = Some p'"
    and rej: "d = Rejected \<Longrightarrow> g = None \<and> k1 = k"
    and ado: "d \<noteq> Rejected \<Longrightarrow> \<exists>h c. g = Some h \<and> selected_clause p d tailored = Inr c \<and> materialize hash p c reason now k = Inr (h, k1)"
    by (rule review_runs) blast
  have same: "cn_proposals k1 = cn_proposals k"
    using rej ado by (cases "d = Rejected") (auto elim: materialize_runs)
  have pid: "pp_id p = i" using p(1) by (auto simp: get_proposal_on_def find_Some_iff)
  have get1: "get_proposal_on k1 = get_proposal_on k" by (simp add: get_proposal_on_def same fun_eq_iff)
  have dec: "pp_disposition p' = Some d" "pp_reviewed_by p' = Some actor" "pp_adopted_goal_id p' = map_option g_id g"
    using p' p pid by (auto simp: k' get_decided get1)
  have others: "\<forall>j. j \<noteq> i \<longrightarrow> get_proposal_on k' j = get_proposal_on k j"
    unfolding k' get_decided get1 by (auto simp: get_proposal_on_def find_Some_iff intro!: option.map_ident_strong)
  have goal: "case g of None \<Rightarrow> d = Rejected \<and> cn_ledger k' = cn_ledger k \<and> cn_provenance k' = cn_provenance k
     | Some h \<Rightarrow> d \<noteq> Rejected \<and> s_goals (cn_ledger k') = s_goals (cn_ledger k) @ [h] \<and>
         g_constitution_version h = pp_constitution_version p \<and> g_origin h = OriginPack \<and>
         constitution_status_on k (pp_constitution_version p) = Inr (g_status h) \<and>
         (\<exists>v. pack_clause_provenance k' (g_id h) = Some v \<and> pv_source_clause v = pp_clause p \<and>
            pv_pack_digest v = pp_pack_digest p)"
    and again: "(case map_option g_id g of None \<Rightarrow> None | Some j \<Rightarrow> get_goal (cn_ledger k') j) = g"
    using rej ado
    by (cases "d = Rejected"; auto simp: k' materialized_goal_def bare_goal_def pack_clause_provenance_def elim!: materialize_runs)+
  have "review_pack_clause hash i d2 t2 a2 r2 n2 k' =
      (if d2 = d then Inr ((p', g), k') else Inl (Invalid (Clause (DecidedAlready i (disposition_as_str d)))))"
    if "\<not> blank a2" "\<exists>r. r2 = Some r \<and> \<not> blank r" for d2 t2 a2 r2 n2
    using that again by (auto simp: review_pack_clause_def p' dec)
  then show ?thesis using dec others goal actor by (auto simp: blank_iff)
qed

end
