(* ===== verification/Constitution_Cases.thy ===== *)
theory Constitution_Cases
  imports Constitution_Machine Pack_Review
begin

text \<open>
  Where the constitution does not do what its comments promise: superseding a clause that is not in
  force, the scope of a task under a superseding clause, the tasks an amendment moves and a clearing of
  the store removes behind the back of the log, and code that an amendment stops governing. Then concrete constitutions for the
  theorems on drafts and amendments.
\<close>

subsection \<open>Superseding a clause\<close>

text \<open>
  Superseding a draft clause puts it in force. The replacement of a clause is always active, whatever
  the status of the clause: the replacement of a clause of a draft version belongs to the draft and
  governs code at once, although the version authorises nothing.
\<close>

theorem superseding_a_draft_governs:
  assumes "get_goal (cn_ledger k) i = Some old" and "g_constitution_version old = Some d"
    and "v \<in> set (cn_versions k)" "v_id v = d" "v_status v = GoalDraft" and "distinct (map v_id (cn_versions k))"
    and "\<not> blank agent" and "\<not> goal_exists_on (cn_ledger k) (g_id (superseding_goal old st why now))"
  shows "\<exists>new k'. supersede_goal i st why agent now k = Inr (new, k') \<and> g_status new = GoalActive \<and>
    g_constitution_version new = Some d \<and>
    \<not> (\<exists>w \<in> set (cn_versions k'). v_id w = d \<and> v_status w = GoalActive) \<and>
    (\<exists>k''. link_goal_to_artifact (g_id new) [node] Governed (cn_ledger k') = Inr (1, k'') \<and>
       \<lparr>ab_goal = new, ab_mode = Governed\<rparr> \<in> set (active_bindings_for_node k'' node))"
proof -
  let ?new = "superseding_goal old st why now"
  obtain k' where run: "supersede_goal i st why agent now k = Inr (?new, k')"
    using assms(1,7,8) by (simp add: supersede_goal_def store_supersede_goal_def resolve_agent_def
        insert_goal_on_def Let_def)
  from run obtain k0 where k': "cn_versions k' = cn_versions k"
    "s_goals (cn_ledger k') = map (\<lambda>g. if g_id g = i
       then g\<lparr>g_status := GoalSuperseded, g_superseded_by := Some (g_id ?new)\<rparr> else g) (s_goals (cn_ledger k)) @ [?new]"
    by (rule supersede_runs) blast
  have new: "g_status ?new = GoalActive" "g_constitution_version ?new = Some d"
    using assms(2) by (simp_all add: superseding_goal_def)
  have "\<not> (\<exists>w \<in> set (cn_versions k'). v_id w = d \<and> v_status w = GoalActive)"
    using assms(3-6) k'(1) by (metis distinct_map goal_status.distinct(1) inj_onD)
  moreover have get: "get_goal (cn_ledger k') (g_id ?new) = Some ?new"
  proof -
    have "find (\<lambda>g. g_id g = g_id ?new) (map (\<lambda>g. if g_id g = i
       then g\<lparr>g_status := GoalSuperseded, g_superseded_by := Some (g_id ?new)\<rparr> else g) (s_goals (cn_ledger k))) = None"
      using assms(8) by (auto simp: find_None_iff goal_exists_on_def)
    then show ?thesis
      unfolding get_goal_def k'(2) by (simp only: find_append_None) simp
  qed
  moreover have "\<exists>k''. link_goal_to_artifact (g_id ?new) [node] Governed (cn_ledger k') = Inr (1, k'') \<and>
      \<lparr>ab_goal = ?new, ab_mode = Governed\<rparr> \<in> set (active_bindings_for_node k'' node)"
  proof -
    let ?k = "bind_node (g_id ?new) Governed (cn_ledger k') node"
    have "goal_exists_on (cn_ledger k') (g_id ?new)"
      using get by (auto simp: get_goal_def goal_exists_on_def dest!: find_SomeD)
    then have "link_goal_to_artifact (g_id ?new) [node] Governed (cn_ledger k') = Inr (1, ?k)"
      using get by (simp add: link_goal_to_artifact_def store_link_goal_to_artifact_def)
    moreover have "(g_id ?new, node, Governed) \<in> set (s_artifacts ?k)"
      by (force simp: bind_node_def)
    moreover have "get_goal ?k (g_id ?new) = Some ?new" using get by (simp add: get_goal_def bind_node_def)
    ultimately show ?thesis using new(1)
      by (force simp: active_bindings_for_node_def split: option.splits)
  qed
  ultimately show ?thesis using run new by blast
qed

lemma suffixed_slug: "goal_slug (''goal:'' @ slug @ CHR ''-'' # x) \<noteq> slug"
proof -
  have "strip_prefix ''goal:'' (''goal:'' @ slug @ CHR ''-'' # x) = Some (slug @ CHR ''-'' # x)"
    by (subst strip_prefix_Some) simp
  then show ?thesis
    by (auto simp: goal_slug_def Let_def split: option.splits dest!: split_once_Some)
qed

text \<open>
  A task under a superseding clause drifts on its own code. The identity of a clause is read off its
  identifier up to the version mark, but a superseding clause is numbered with a suffix, so its
  identifier never yields its slug: code bound to it that a task under it changes is counted as governed
  by another clause.
\<close>

theorem superseding_clause_reads_as_drift:
  assumes "supersede_goal i st why agent now k = Inr (new, k')"
    and "(g_id new, node, Governed) \<in> set (s_artifacts s)" and "get_goal s (g_id new) = Some new"
    and "\<not> is_documentation_node node"
  shows "(node, new) \<in> set (gc_other (resolve_governing_clauses s [node] (Some (g_id new)))) \<and>
    (node, new) \<notin> set (gc_in_scope (resolve_governing_clauses s [node] (Some (g_id new))))"
proof -
  from assms(1) obtain old where new: "new = superseding_goal old st why now"
    by (rule supersede_runs) blast
  then have slug: "goal_slug (g_id new) \<noteq> g_slug new" and act: "g_status new = GoalActive"
    using suffixed_slug [of "g_slug old"] by (simp_all add: superseding_goal_def)
  have "\<lparr>ab_goal = new, ab_mode = Governed\<rparr> \<in> set (active_bindings_for_node s node)"
    using assms(2,3) act by (force simp: active_bindings_for_node_def split: option.splits)
  then show ?thesis
    using slug assms(4)
    by (force simp: resolve_governing_clauses_def resolve_buckets bucket_def drifts_def serves_def)
qed

subsection \<open>An amendment and the log\<close>

text \<open>
  An amendment bypasses the log. It moves unfinished tasks to the restated clause without recording
  an event, so the log no longer agrees with the table: replaying it gives every moved task back its
  old clause.
\<close>

theorem amendment_bypasses_log:
  assumes ok: "constitution_ok k" and log: "logged (cn_ledger k)"
    and run: "amend_constitution hash draft_id amended_by approved_by rationale now k = Inr (a, k')"
    and t: "get_task (cn_ledger k) i = Some t" "t_status t \<notin> {Done, Abandoned}"
    and g: "get_goal (cn_ledger k) (t_goal_id t) = Some g" "g_constitution_version g = Some (am_from_version a)"
      "g_superseded_by g = None"
    and c: "c \<in> set (clauses_for_version (cn_ledger k) draft_id)" "g_slug c = g_slug g"
  shows "project_tasks (cn_ledger k') = project_tasks (cn_ledger k) \<and> t \<in> set (project_tasks (cn_ledger k')) \<and>
    (\<exists>u. get_task (cn_ledger k') i = Some u \<and> t_goal_id u \<noteq> t_goal_id t) \<and> \<not> logged (cn_ledger k')"
proof -
  from run obtain act v where "active_constitution_version (cn_versions k) = Some act"
    "constitution_version_of (cn_versions k) draft_id = Some v"
    and ne: "v_id act \<noteq> draft_id" and b: "am_from_version a = v_id act"
    and k': "k' = (promote_amendment (v_id act) draft_id (trim amended_by) now k)\<lparr>cn_amendments := cn_amendments k @ [a]\<rparr>"
    by (rule amend_runs) blast
  have led: "cn_ledger k' = cn_ledger (promote_amendment (v_id act) draft_id (trim amended_by) now k)" by (simp add: k')
  note fields = promote_amendment_fields [of "v_id act" draft_id "trim amended_by" now k, folded led]
  have dist: "distinct (map g_id (s_goals (cn_ledger k)))" using ok by (simp add: constitution_ok_def)
  have gi: "g \<in> set (s_goals (cn_ledger k))" "g_id g = t_goal_id t"
    using g(1) by (auto simp: get_goal_def dest: find_SomeD)
  obtain h where h: "successor_clause (map (promote_clause draft_id) (map (retire_clause (v_id act)) (s_goals (cn_ledger k))))
      draft_id (g_slug g) = Some h" "h \<in> set (map (promote_clause draft_id) (map (retire_clause (v_id act)) (s_goals (cn_ledger k))))"
    "g_constitution_version h = Some draft_id"
    using successor_found [OF ne c(1) refl] c(2) by metis
  have dest: "moved_to (promoted_goals (v_id act) draft_id (s_goals (cn_ledger k))) (v_id act) (t_goal_id t) = Some (g_id h)"
    using moved_to_successor [OF dist ne refl gi(1)] g(2,3) gi(2) h(1) by (auto simp: b)
  have other: "g_id h \<noteq> t_goal_id t"
  proof
    assume same: "g_id h = t_goal_id t"
    from h(2) obtain h0 where "h0 \<in> set (s_goals (cn_ledger k))" "g_id h0 = g_id h"
      "g_constitution_version h0 = g_constitution_version h" by auto
    with same gi dist have "h0 = g" by (metis distinct_map inj_onD)
    with \<open>g_constitution_version h0 = g_constitution_version h\<close> g(2) h(3) ne show False by (simp add: b)
  qed
  have proj: "project_tasks (cn_ledger k') = project_tasks (cn_ledger k)" by (simp add: project_tasks_def fields(4))
  have t_in: "t \<in> set (project_tasks (cn_ledger k))"
    using get_task_in [OF t(1)] by (simp add: project_tasks_table [OF log])
  have u: "get_task (cn_ledger k') i = Some (t\<lparr>t_goal_id := g_id h, t_updated_at := now\<rparr>)"
    using t dest by (simp add: get_task_carried [OF fields(3)] carry_task_def)
  have "\<not> logged (cn_ledger k')"
  proof
    assume log': "logged (cn_ledger k')"
    have "t \<in> set (s_tasks (cn_ledger k'))" using t_in unfolding proj [symmetric] project_tasks_table [OF log'] by simp
    moreover have "t_id t = i" by (rule get_task_id [OF t(1)])
    ultimately have "get_task (cn_ledger k') i = Some t"
      using logged_distinct [OF log'] by (simp add: get_task_def find_distinct_Some)
    with u have "t = t\<lparr>t_goal_id := g_id h, t_updated_at := now\<rparr>" by simp
    from arg_cong [OF this, of t_goal_id] other show False by simp
  qed
  with proj t_in u other show ?thesis by auto
qed

text \<open>
  Clearing the store bypasses the log too. The rows of the tasks go and their events stay, so replaying
  the log gives back every task that was cleared.
\<close>

theorem reset_bypasses_log:
  assumes log: "logged (cn_ledger k)" and run: "reset_database designs confirmation k = Inr (out, k')"
  shows "s_tasks (cn_ledger k') = [] \<and> project_tasks (cn_ledger k') = sort_key t_id (s_tasks (cn_ledger k)) \<and>
    ro_tasks_removed out = length (project_tasks (cn_ledger k'))"
proof -
  have "s_tasks (cn_ledger k') = []" "s_events (cn_ledger k') = s_events (cn_ledger k)"
    "ro_tasks_removed out = length (s_tasks (cn_ledger k))"
    using run by (auto simp: reset_database_def empty_ledger_def split: if_splits)
  moreover from this(2) have "project_tasks (cn_ledger k') = project_tasks (cn_ledger k)"
    by (simp add: project_tasks_def)
  ultimately show ?thesis by (simp add: project_tasks_table [OF log])
qed

subsection \<open>Concrete constitutions\<close>

text \<open>
  A constitution with one active version, in which an open task works under the clause \<open>goal:g\<close>
  and one node of code is bound to it.
\<close>

definition sample_in_force :: "string \<Rightarrow> string \<Rightarrow> goal" where
  "sample_in_force i slug = (sample_clause i slug)\<lparr>g_constitution_version := Some ''constitution:v1''\<rparr>"

definition sample_ruled :: "goal list \<Rightarrow> constitution" where
  "sample_ruled gs = empty_constitution\<lparr>
     cn_ledger := (imported [sample_task ''a''])\<lparr>s_goals := gs, s_artifacts := [(''goal:g'', ''artifact:a'', Governed)]\<rparr>,
     cn_policy := sample_governed\<lparr>p_waivers := []\<rparr>\<rparr>"

definition sample_drafted :: constitution where
  "sample_drafted = snd (commit (draft_clause id ''constitution:v2'' Objective ''h'' ''later'' 3)
     (snd (propose_amendment None 2 (sample_ruled [sample_in_force ''goal:g'' ''g'']))))"

abbreviation sample_amended :: "(constitution_amendment \<times> constitution) res" where
  "sample_amended \<equiv> amend_constitution id ''constitution:v2'' ''x'' ''y'' ''why'' 4 sample_drafted"

lemma standing_iff: "standing k \<longleftrightarrow> list_all (\<lambda>g. case g_constitution_version g of None \<Rightarrow> True
    | Some i \<Rightarrow> g_status g \<noteq> GoalActive \<or> list_ex (\<lambda>v. v_id v = i \<and> v_status v = GoalActive) (cn_versions k) \<or> replaces k g)
    (s_goals (cn_ledger k))"
  by (auto simp: standing_def list_all_iff list_ex_iff split: option.splits)

lemma sample_drafted_ok: "constitution_ok sample_drafted"
  unfolding constitution_ok_def standing_iff by code_simp

lemma sample_drafted_holds:
  "find (\<lambda>g. g_id g = ''goal:g'') (s_goals (cn_ledger sample_drafted)) = Some (sample_in_force ''goal:g'' ''g'')"
  "carried_clause ''constitution:v2'' (sample_in_force ''goal:g'' ''g'') \<in>
     set (clauses_for_version (cn_ledger sample_drafted) ''constitution:v2'')"
  "list_all (\<lambda>g. g_superseded_by g = None) (s_goals (cn_ledger sample_drafted))"
  "get_task (cn_ledger sample_drafted) ''a'' = Some (sample_task ''a'')"
  "s_artifacts (cn_ledger sample_drafted) = [(''goal:g'', ''artifact:a'', Governed)]"
  by code_simp+

lemma sample_amended_runs: "\<exists>a k'. sample_amended = Inr (a, k') \<and> am_from_version a = ''constitution:v1''"
proof -
  have "on_ok sample_amended (\<lambda>(a, _). am_from_version a = ''constitution:v1'')" by code_simp
  then show ?thesis by (auto simp: on_ok_iff)
qed

theorem diff_reports_exactly_witness:
  "let before = [sample_clause ''goal:g'' ''g'', sample_clause ''goal:h'' ''h''];
       after = [(sample_clause ''goal:h'' ''h'')\<lparr>g_statement := ''now''\<rparr>, sample_clause ''goal:i'' ''i'']
   in map (\<lambda>d. (cd_slug d, cd_change d, cd_fields d)) (diff_clauses before after) =
        [(''g'', Removed, []), (''h'', Changed, [''statement'']), (''i'', Added, [])] \<and>
      (\<forall>d. d \<in> set (diff_clauses before after) \<longrightarrow> cd_before d = find (\<lambda>g. g_slug g = cd_slug d) before)"
proof -
  let ?b = "[sample_clause ''goal:g'' ''g'', sample_clause ''goal:h'' ''h'']"
  let ?a = "[(sample_clause ''goal:h'' ''h'')\<lparr>g_statement := ''now''\<rparr>, sample_clause ''goal:i'' ''i'']"
  have "map (\<lambda>d. (cd_slug d, cd_change d, cd_fields d)) (diff_clauses ?b ?a) =
    [(''g'', Removed, []), (''h'', Changed, [''statement'']), (''i'', Added, [])]" by code_simp
  moreover have "distinct (map g_slug ?b)" "distinct (map g_slug ?a)" by code_simp+
  ultimately show ?thesis unfolding Let_def using diff_reports_exactly [of ?b ?a] by blast
qed

theorem fresh_draft_is_current_policy_witness:
  "\<exists>v k'. propose_amendment None 2 (sample_ruled [sample_in_force ''goal:g'' ''g'']) = (Inr v, k') \<and>
    constitution_diff k' ''constitution:v1'' (v_id v) = []"
proof -
  let ?k = "sample_ruled [sample_in_force ''goal:g'' ''g'']"
  let ?v = "hd (p_versions sample_governed)"
  have n: "versions_numbered ?k" unfolding versions_numbered_def by code_simp
  have a: "active_constitution_version (cn_versions ?k) = Some ?v" by code_simp
  have d: "draft_constitution_version (cn_versions ?k) = None" by code_simp
  have s: "distinct (map g_slug (clauses_for_version (cn_ledger ?k) (v_id ?v)))" by code_simp
  have f: "\<forall>g \<in> set (s_goals (cn_ledger ?k)). g_constitution_version g \<noteq> Some (next_id ?k) \<and> \<not> suffix (''@'' @ next_id ?k) (g_id g)"
    unfolding suffix_to_prefix by code_simp
  have "v_id ?v = ''constitution:v1''" by code_simp
  then show ?thesis using fresh_draft_is_current_policy [OF n a d s f] by metis
qed

theorem repeated_slug_strands_draft_witness:
  "\<exists>k' d. propose_amendment None 2 (sample_ruled [sample_in_force ''goal:g'' ''g'', sample_in_force ''goal:g-v2'' ''g''])
      = (Inl (Sqlite ''goals''), k') \<and>
    propose_amendment None 3 k' = (Inl (Invalid (Clause (DraftAwaitsReview d))), k')"
proof -
  let ?k = "sample_ruled [sample_in_force ''goal:g'' ''g'', sample_in_force ''goal:g-v2'' ''g'']"
  let ?v = "hd (p_versions sample_governed)"
  have n: "versions_numbered ?k" unfolding versions_numbered_def by code_simp
  have a: "active_constitution_version (cn_versions ?k) = Some ?v" by code_simp
  have d: "draft_constitution_version (cn_versions ?k) = None" by code_simp
  have s: "\<not> distinct (map g_slug (clauses_for_version (cn_ledger ?k) (v_id ?v)))" by code_simp
  show ?thesis using repeated_slug_strands_draft [OF n a d s] by metis
qed

theorem amendment_replaces_constitution_witness:
  "\<exists>a k' new. sample_amended = Inr (a, k') \<and> active_constitution_version (cn_versions k') = Some new \<and>
    v_id new = ''constitution:v2''"
proof -
  obtain a k' where run: "sample_amended = Inr (a, k')" using sample_amended_runs by blast
  show ?thesis using amendment_replaces_constitution [OF sample_drafted_ok run] run by blast
qed

theorem amendment_carries_work_witness:
  "\<exists>a k' t. sample_amended = Inr (a, k') \<and> get_task (cn_ledger k') ''a'' = Some t \<and> t_goal_id t \<noteq> ''goal:g'' \<and>
    (\<exists>mode. (t_goal_id t, ''artifact:a'', mode) \<in> set (s_artifacts (cn_ledger k')))"
proof -
  obtain a k' where run: "sample_amended = Inr (a, k')" and v: "am_from_version a = ''constitution:v1''"
    using sample_amended_runs by blast
  have alone: "\<forall>g \<in> set (s_goals (cn_ledger sample_drafted)). g_constitution_version g = Some (am_from_version a) \<longrightarrow> g_superseded_by g = None"
    using sample_drafted_holds(3) by (simp add: list_all_iff)
  have g: "get_goal (cn_ledger sample_drafted) ''goal:g'' = Some (sample_in_force ''goal:g'' ''g'')"
    using sample_drafted_holds(1) by (simp add: get_goal_def)
  have gv: "g_constitution_version (sample_in_force ''goal:g'' ''g'') = Some (am_from_version a)"
    by (simp add: sample_in_force_def v)
  have slug: "g_slug (carried_clause ''constitution:v2'' (sample_in_force ''goal:g'' ''g'')) = g_slug (sample_in_force ''goal:g'' ''g'')"
    by (simp add: carried_clause_def)
  obtain h where h: "g_constitution_version h = Some ''constitution:v2''" "get_goal (cn_ledger k') (g_id h) = Some h"
    "\<forall>t. get_task (cn_ledger sample_drafted) (t_id t) = Some t \<and> t_goal_id t = ''goal:g'' \<longrightarrow>
       get_task (cn_ledger k') (t_id t) = Some (if t_status t \<in> {Done, Abandoned} then t
         else t\<lparr>t_goal_id := g_id h, t_updated_at := 4\<rparr>)"
    "\<forall>node mode. (''goal:g'', node, mode) \<in> set (s_artifacts (cn_ledger sample_drafted)) \<longrightarrow>
       (\<exists>mode'. (g_id h, node, mode') \<in> set (s_artifacts (cn_ledger k')))"
    using amendment_carries_work [OF sample_drafted_ok run alone g gv sample_drafted_holds(2) slug] by blast
  have t: "get_task (cn_ledger k') ''a'' = Some ((sample_task ''a'')\<lparr>t_goal_id := g_id h, t_updated_at := 4\<rparr>)"
    using h(3) [rule_format, of "sample_task ''a''"] sample_drafted_holds(4) by (simp add: sample_task_def)
  obtain mode' where b: "(g_id h, ''artifact:a'', mode') \<in> set (s_artifacts (cn_ledger k'))"
    using h(4) sample_drafted_holds(5) by fastforce
  have "g_id h \<noteq> ''goal:g''"
  proof
    assume "g_id h = ''goal:g''"
    have "on_ok sample_amended (\<lambda>(_, k'). map_option g_constitution_version (get_goal (cn_ledger k') ''goal:g'') =
        Some (Some ''constitution:v1''))" by code_simp
    with run h(1,2) \<open>g_id h = ''goal:g''\<close> show False by (simp add: on_ok_def)
  qed
  with run t b show ?thesis by (intro exI [of _ a] exI [of _ k'] exI conjI) auto
qed

theorem amendment_bypasses_log_witness:
  "\<exists>a k'. sample_amended = Inr (a, k') \<and> logged (cn_ledger sample_drafted) \<and> \<not> logged (cn_ledger k')"
proof -
  obtain a k' where run: "sample_amended = Inr (a, k')" and v: "am_from_version a = ''constitution:v1''"
    using sample_amended_runs by blast
  have "s_tasks (cn_ledger sample_drafted) = s_tasks (imported [sample_task ''a''])"
    "s_events (cn_ledger sample_drafted) = s_events (imported [sample_task ''a''])" by code_simp+
  then have log: "logged (cn_ledger sample_drafted)"
    using imported_logged [of "[sample_task ''a'']"] by (simp add: logged_cong [of "cn_ledger sample_drafted"])
  let ?g = "sample_in_force ''goal:g'' ''g''"
  have "t_status (sample_task ''a'') \<notin> {Done, Abandoned}" "g_constitution_version ?g = Some (am_from_version a)"
    "g_superseded_by ?g = None" "get_goal (cn_ledger sample_drafted) (t_goal_id (sample_task ''a'')) = Some ?g"
    "g_slug (carried_clause ''constitution:v2'' ?g) = g_slug ?g"
    using sample_drafted_holds(1)
    by (simp_all add: sample_task_def sample_in_force_def sample_clause_def v get_goal_def carried_clause_def)
  then show ?thesis
    using amendment_bypasses_log [OF sample_drafted_ok log run sample_drafted_holds(4)] sample_drafted_holds(2) log run
    by blast
qed

theorem reset_bypasses_log_witness:
  "\<exists>out k'. reset_database 0 ''RESET LODESTAR'' sample_drafted = Inr (out, k') \<and> s_tasks (cn_ledger k') = [] \<and>
    length (project_tasks (cn_ledger k')) = 1"
proof -
  have "s_tasks (cn_ledger sample_drafted) = s_tasks (imported [sample_task ''a''])"
    "s_events (cn_ledger sample_drafted) = s_events (imported [sample_task ''a''])" by code_simp+
  then have log: "logged (cn_ledger sample_drafted)"
    using imported_logged [of "[sample_task ''a'']"] by (simp add: logged_cong [of "cn_ledger sample_drafted"])
  have n: "length (s_tasks (cn_ledger sample_drafted)) = 1" by code_simp
  obtain out k' where run: "reset_database 0 ''RESET LODESTAR'' sample_drafted = Inr (out, k')"
    by (simp add: reset_database_def)
  show ?thesis using reset_bypasses_log [OF log run] run n by (auto intro!: exI [of _ out] exI [of _ k'])
qed

theorem superseding_a_draft_governs_witness:
  "\<exists>new k'. supersede_goal ''goal:g@constitution:v2'' ''new'' ''why'' ''x'' 4 sample_drafted = Inr (new, k') \<and>
    g_status new = GoalActive \<and> g_constitution_version new = Some ''constitution:v2'' \<and>
    \<not> (\<exists>w \<in> set (cn_versions k'). v_id w = ''constitution:v2'' \<and> v_status w = GoalActive)"
proof -
  let ?old = "carried_clause ''constitution:v2'' (sample_in_force ''goal:g'' ''g'')"
  have 1: "get_goal (cn_ledger sample_drafted) ''goal:g@constitution:v2'' = Some ?old" by code_simp
  have 2: "g_constitution_version ?old = Some ''constitution:v2''" by (simp add: carried_clause_def)
  have 3: "last (cn_versions sample_drafted) \<in> set (cn_versions sample_drafted)"
    "v_id (last (cn_versions sample_drafted)) = ''constitution:v2''"
    "v_status (last (cn_versions sample_drafted)) = GoalDraft" by code_simp+
  have 4: "distinct (map v_id (cn_versions sample_drafted))" using sample_drafted_ok by (simp add: constitution_ok_def)
  have 5: "\<not> blank ''x''" "\<not> goal_exists_on (cn_ledger sample_drafted) (g_id (superseding_goal ?old ''new'' ''why'' 4))"
    by code_simp+
  show ?thesis using superseding_a_draft_governs [OF 1 2 3 4 5] by blast
qed

theorem superseding_clause_reads_as_drift_witness:
  "\<exists>new k' s. supersede_goal ''goal:g'' ''new'' ''why'' ''x'' 4 (sample_ruled [sample_in_force ''goal:g'' ''g'']) = Inr (new, k') \<and>
    link_goal_to_artifact (g_id new) [''artifact:a''] Governed (cn_ledger k') = Inr (1, s) \<and>
    (''artifact:a'', new) \<in> set (gc_other (resolve_governing_clauses s [''artifact:a''] (Some (g_id new))))"
proof -
  let ?k = "sample_ruled [sample_in_force ''goal:g'' ''g'']"
  have "on_ok (supersede_goal ''goal:g'' ''new'' ''why'' ''x'' 4 ?k) (\<lambda>(new, k').
      on_ok (link_goal_to_artifact (g_id new) [''artifact:a''] Governed (cn_ledger k')) (\<lambda>(n, s). n = 1 \<and>
        (g_id new, ''artifact:a'', Governed) \<in> set (s_artifacts s) \<and> get_goal s (g_id new) = Some new))" by code_simp
  then obtain new k' s where run: "supersede_goal ''goal:g'' ''new'' ''why'' ''x'' 4 ?k = Inr (new, k')"
    and l: "link_goal_to_artifact (g_id new) [''artifact:a''] Governed (cn_ledger k') = Inr (1, s)"
      "(g_id new, ''artifact:a'', Governed) \<in> set (s_artifacts s)" "get_goal s (g_id new) = Some new"
    by (auto simp: on_ok_iff)
  have "\<not> is_documentation_node ''artifact:a''" by code_simp
  then show ?thesis using superseding_clause_reads_as_drift [OF run l(2,3)] run l(1) by blast
qed

text \<open>
  The first constitution: drafted from the common core, all of whose clauses are adopted, and then
  activated.
\<close>

definition sample_first :: constitution where
  "sample_first = snd (propose_constitution id kc_key kp_id [''README.md''] None 1 empty_constitution)"

definition sample_adopt :: "constitution \<Rightarrow> pack_clause \<Rightarrow> constitution" where
  "sample_adopt k c = snd (commit (review_pack_clause id (''pack-proposal:'' @
     clause_identity ''common-core'' ''1'' (Some ''constitution:v1'') (kc_key c)) Adopted None ''x'' None 2) k)"

definition sample_founded :: constitution where
  "sample_founded = snd (commit (activate_constitution ''constitution:v1'' ''x'' 3)
     (foldl sample_adopt sample_first common_core_clauses))"

lemma sample_founded_governed: "governed glob id kc_key kp_id sample_founded"
proof -
  let ?R = "governed glob id kc_key kp_id"
  have first: "?R sample_first" unfolding sample_first_def
    by (rule governed_step [OF governed_start, OF step_first]) (rule surjective_pairing)
  have "?R k \<Longrightarrow> ?R (foldl sample_adopt k cs)" for k cs
  proof (induction cs arbitrary: k)
    case (Cons c cs)
    have "?R (sample_adopt k c)" unfolding sample_adopt_def
      by (rule governed_step [OF Cons.prems, OF step_review]) (rule surjective_pairing)
    then show ?case unfolding foldl_Cons by (rule Cons.IH)
  qed simp
  with first have "?R (foldl sample_adopt sample_first common_core_clauses)" by blast
  then show ?thesis unfolding sample_founded_def
    by (rule governed_step) (rule step_activate, rule surjective_pairing)
qed

theorem review_is_final_witness:
  "\<exists>i p' g k'. review_pack_clause id i Adopted None ''x'' None 2 sample_first = Inr ((p', Some g), k') \<and>
     g_constitution_version g = Some ''constitution:v1'' \<and>
     review_pack_clause id i Rejected None ''y'' (Some ''no'') 3 k' = Inl (Invalid (Clause (DecidedAlready i ''adopted'')))"
proof -
  let ?i = "''pack-proposal:'' @ clause_identity ''common-core'' ''1'' (Some ''constitution:v1'') ''core.intent''"
  have "on_ok (review_pack_clause id ?i Adopted None ''x'' None 2 sample_first) (\<lambda>((p', g), k'). g \<noteq> None)" by code_simp
  then obtain p' h k' where run: "review_pack_clause id ?i Adopted None ''x'' None 2 sample_first = Inr ((p', Some h), k')"
    by (auto simp: on_ok_iff)
  have "(case get_proposal_on sample_first ?i of None \<Rightarrow> False
    | Some p \<Rightarrow> pp_disposition p = None \<and> pp_constitution_version p = Some ''constitution:v1'')" by code_simp
  then obtain p where p: "get_proposal_on sample_first ?i = Some p" "pp_disposition p = None"
    "pp_constitution_version p = Some ''constitution:v1''" by (auto split: option.splits)
  have "\<not> blank ''y''" "\<not> blank ''no''" by code_simp+
  then show ?thesis using review_is_final [OF run p(1,2)] p(3) run
    by (intro exI [of _ ?i] exI [of _ p'] exI [of _ h] exI [of _ k']) (simp only: option.case, force)
qed

theorem constitution_is_sound_witness:
  "map v_status (cn_versions sample_founded) = [GoalActive] \<and> length (get_constitution (cn_ledger sample_founded)) = 5 \<and>
   distinct (map g_id (s_goals (cn_ledger sample_founded)))"
proof -
  have "map v_status (cn_versions sample_founded) = [GoalActive]" by code_simp
  moreover have "length (get_constitution (cn_ledger sample_founded)) = 5" by code_simp
  ultimately show ?thesis using constitution_is_sound [OF sample_founded_governed] by blast
qed

definition sample_relinked :: "(goal \<times> constitution) res" where
  "sample_relinked =
     and_then (supersede_goal ''goal:g'' ''new'' ''why'' ''x'' 2 (sample_ruled [sample_in_force ''goal:g'' ''g''])) (\<lambda>(new, k1).
     and_then (on_ledger (link_goal_to_artifact (g_id new) [''artifact:a''] Governed) k1) (\<lambda>(_, k2).
       draft_clause id ''constitution:v2'' Objective ''h'' ''later'' 3 (snd (propose_amendment None 3 k2))))"

text \<open>
  An amendment can stop governing code. After a clause was superseded on its own and its code bound to
  the replacement too, an amendment moves the binding of the first clause onto the replacement, over
  the binding that was there, and not on to the restated clause: the code is bound to a superseded
  clause only, although the new version restates the rule.
\<close>

theorem relinked_clause_loses_code:
  "\<exists>h k a k'. sample_relinked = Inr (h, k) \<and>
    map (\<lambda>b. g_slug (ab_goal b)) (active_bindings_for_node (cn_ledger k) ''artifact:a'') = [''g''] \<and>
    amend_constitution id ''constitution:v2'' ''x'' ''y'' ''why'' 4 k = Inr (a, k') \<and>
    map g_slug (get_constitution (cn_ledger k')) = [''g'', ''h''] \<and>
    active_bindings_for_node (cn_ledger k') ''artifact:a'' = []"
proof -
  have "on_ok sample_relinked (\<lambda>(h, k).
      map (\<lambda>b. g_slug (ab_goal b)) (active_bindings_for_node (cn_ledger k) ''artifact:a'') = [''g''] \<and>
      on_ok (amend_constitution id ''constitution:v2'' ''x'' ''y'' ''why'' 4 k) (\<lambda>(a, k').
        map g_slug (get_constitution (cn_ledger k')) = [''g'', ''h''] \<and>
        active_bindings_for_node (cn_ledger k') ''artifact:a'' = []))" by code_simp
  then show ?thesis by (auto simp: on_ok_iff)
qed

end
