(* ===== verification/Fleet.thy ===== *)
theory Fleet
  imports Task_Queries
begin

text \<open>
  The fleet view (\<^verbatim>\<open>fleet.rs\<close>, \<^verbatim>\<open>facade/fleet.rs\<close>): who works where, from declared contexts and claims,
  and who waits for whom, from unanswered questions. The sets of agents that wait for one another are
  found by a search from every agent; the theorems compare them with the strongly connected
  components of the relation of waiting. A \<^verbatim>\<open>BTreeMap\<close> is the sorted association list of the prelude and
  a \<^verbatim>\<open>BTreeSet\<close> a sorted list.
\<close>

subsection \<open>Sessions\<close>

datatype staleness = StaleUnknown | StaleCurrent | StaleBehind int

definition from_declared :: "int option \<Rightarrow> staleness" where
  "from_declared behind =
     (case behind of
        None \<Rightarrow> StaleUnknown
      | Some count \<Rightarrow> if count = 0 then StaleCurrent else StaleBehind count)"

datatype presence = PresenceLive | PresenceQuiet int | PresenceStale int

definition presence_from_session :: "bool \<Rightarrow> int \<Rightarrow> int \<Rightarrow> int \<Rightarrow> presence" where
  "presence_from_session has_live_claim declared_at now grace =
     (if has_live_claim then PresenceLive
      else let quiet_for = now - declared_at
           in if quiet_for \<ge> grace then PresenceStale quiet_for else PresenceQuiet quiet_for)"

definition SESSION_QUIET_GRACE_SECS :: int where
  "SESSION_QUIET_GRACE_SECS = 60 * 60"

definition STALE_WAIT_GRACE_SECS :: int where
  "STALE_WAIT_GRACE_SECS = 60 * 60"

record fleet_session =
  fs_agent_id :: string
  fs_context :: session_context
  fs_declared_at :: int
  fs_staleness :: staleness
  fs_presence :: presence
  fs_claimed_task_ids :: "string list"

record divergence =
  dv_bases :: "string list"
  dv_undeclared_sessions :: nat
  dv_diverged :: bool

record wait_cycle =
  wc_agents :: "string list"
  wc_task_ids :: "string list"

record fleet_view =
  fv_sessions :: "fleet_session list"
  fv_divergence :: divergence
  fv_waits :: "wait list"
  fv_wait_cycles :: "wait_cycle list"
  fv_stale_waits :: "wait list"

subsection \<open>The graph of waiting\<close>

type_synonym wait_graph = "(string \<times> string list) list"

definition successors :: "wait_graph \<Rightarrow> string \<Rightarrow> string list" where
  "successors m a = (case map_of m a of None \<Rightarrow> [] | Some xs \<Rightarrow> xs)"

definition add_wait :: "wait_graph \<Rightarrow> wait \<Rightarrow> wait_graph" where
  "add_wait m w =
     (let m1 = bt_insert (w_waiter w) (insort_insert (w_waited_on w) (successors m (w_waiter w))) m
      in case map_of m1 (w_waited_on w) of None \<Rightarrow> bt_insert (w_waited_on w) [] m1 | Some _ \<Rightarrow> m1)"

definition wait_edges :: "wait list \<Rightarrow> wait_graph" where
  "wait_edges ws = foldl add_wait [] ws"

text \<open>The loop of the search: the frontier is a stack, and a set insertion says whether it was new.\<close>

definition visit :: "string list \<times> string list \<Rightarrow> string \<Rightarrow> string list \<times> string list" where
  "visit = (\<lambda>(frontier, seen) n. if n \<in> set seen then (frontier, seen) else (n # frontier, insort n seen))"

lemma visit_simps [simp]:
  "visit (frontier, seen) n = (if n \<in> set seen then (frontier, seen) else (n # frontier, insort n seen))"
  by (simp add: visit_def)

lemma visit_fold_seen: "set (snd (foldl visit (frontier, seen) xs)) = set seen \<union> set xs"
  by (induction xs arbitrary: frontier seen) (auto simp: set_insort_key)

lemma visit_fold_frontier: "set (fst (foldl visit (frontier, seen) xs)) = set frontier \<union> (set xs - set seen)"
  by (induction xs arbitrary: frontier seen) (auto simp: set_insort_key)

lemma visit_fold_idle: "set xs \<subseteq> set seen \<Longrightarrow> foldl visit (frontier, seen) xs = (frontier, seen)"
  by (induction xs arbitrary: frontier seen) auto

lemma visit_fold_ordered:
  "sorted seen \<and> distinct seen \<Longrightarrow>
   sorted (snd (foldl visit (frontier, seen) xs)) \<and> distinct (snd (foldl visit (frontier, seen) xs))"
  by (induction xs arbitrary: frontier seen) (simp_all add: distinct_insort sorted_insort)

function reach_loop :: "wait_graph \<Rightarrow> string list \<Rightarrow> string list \<Rightarrow> string list" where
  "reach_loop m [] seen = seen"
| "reach_loop m (a # frontier) seen =
     (let (frontier', seen') = foldl visit (frontier, seen) (successors m a) in reach_loop m frontier' seen')"
  by pat_completeness auto

text \<open>Every round but a last one per agent adds an agent that somebody is waited on to the set.\<close>

definition targets :: "wait_graph \<Rightarrow> string set" where
  "targets m = (\<Union>e \<in> set m. set (snd e))"

lemma successors_targets: "set (successors m a) \<subseteq> targets m"
  by (cases "map_of m a") (force simp: successors_def targets_def dest: map_of_SomeD)+

lemma finite_targets: "finite (targets m)"
  by (simp add: targets_def)

termination reach_loop
proof (relation "measures [\<lambda>(m, _, seen). card (targets m - set seen), \<lambda>(_, frontier, _). length frontier]")
  fix m a frontier seen x frontier' seen'
  assume x: "x = foldl visit (frontier, seen) (successors m a)" "(frontier', seen') = x"
  then have run: "foldl visit (frontier, seen) (successors m a) = (frontier', seen')" by simp
  show "((m, frontier', seen'), m, a # frontier, seen) \<in>
      measures [\<lambda>(m, _, seen). card (targets m - set seen), \<lambda>(_, frontier, _). length frontier]"
  proof (cases "set (successors m a) \<subseteq> set seen")
    case True
    then show ?thesis using run by (simp add: visit_fold_idle)
  next
    case False
    then have "targets m - set seen' \<subset> targets m - set seen"
      using visit_fold_seen [of frontier seen "successors m a"] run successors_targets [of m a] by auto
    then have "card (targets m - set seen') < card (targets m - set seen)"
      by (intro psubset_card_mono) (simp_all add: finite_targets)
    then show ?thesis by simp
  qed
qed simp

definition reachable_from :: "wait_graph \<Rightarrow> string \<Rightarrow> string list" where
  "reachable_from m start = reach_loop m [start] []"

definition mutual_with :: "wait_graph \<Rightarrow> string \<Rightarrow> string list" where
  "mutual_with m a = filter (\<lambda>other. a \<in> set (reachable_from m other)) (reachable_from m a)"

definition cycle_of :: "wait list \<Rightarrow> string list \<Rightarrow> wait_cycle" where
  "cycle_of ws mutual =
     \<lparr>wc_agents = mutual,
      wc_task_ids = sort_dedup (map w_task_id
        (filter (\<lambda>w. w_waiter w \<in> set mutual \<and> w_waited_on w \<in> set mutual) ws))\<rparr>"

definition group_agent ::
  "wait list \<Rightarrow> wait_graph \<Rightarrow> wait_cycle list \<times> string set \<Rightarrow> string \<Rightarrow> wait_cycle list \<times> string set" where
  "group_agent ws m = (\<lambda>(cycles, grouped) a.
     if a \<in> grouped then (cycles, grouped)
     else let mutual = mutual_with m a
          in if length mutual < 2 then (cycles, grouped)
             else (cycles @ [cycle_of ws mutual], grouped \<union> set mutual))"

definition wait_cycles :: "wait list \<Rightarrow> wait_cycle list" where
  "wait_cycles ws =
     (let m = wait_edges ws in fst (foldl (group_agent ws m) ([], {}) (map fst m)))"

subsection \<open>Waits on quiet agents\<close>

definition addressee_has_gone_quiet :: "string \<Rightarrow> int \<Rightarrow> fleet_session list \<Rightarrow> bool" where
  "addressee_has_gone_quiet agent asked_at sessions \<longleftrightarrow>
     \<not> (\<exists>x \<in> set sessions. fs_agent_id x = agent \<and> (fs_claimed_task_ids x \<noteq> [] \<or> fs_declared_at x \<ge> asked_at))"

text \<open>A stale wait has the fields of a wait, so it is the wait itself.\<close>

definition stale_waits :: "wait list \<Rightarrow> fleet_session list \<Rightarrow> wait_cycle list \<Rightarrow> int \<Rightarrow> int \<Rightarrow> wait list" where
  "stale_waits ws sessions cycles now grace =
     (let in_cycle = (\<Union>c \<in> set cycles. set (wc_agents c))
      in sort_key w_asked_at (sort_key w_task_id
           (filter (\<lambda>w. (w_waiter w \<notin> in_cycle \<or> w_waited_on w \<notin> in_cycle) \<and>
              now - w_asked_at w \<ge> grace \<and>
              addressee_has_gone_quiet (w_waited_on w) (w_asked_at w) sessions) ws)))"

subsection \<open>The view\<close>

definition no_context :: session_context where
  "no_context = \<lparr>x_branch = None, x_head_sha = None, x_base = None, x_dirty = None, x_behind = None\<rparr>"

definition live_owners :: "ledger \<Rightarrow> (string \<times> string) list" where
  "live_owners s =
     List.map_filter (\<lambda>t. map_option (\<lambda>owner. (owner, t_id t)) (t_owner t))
       (filter (\<lambda>t. t_status t = Claimed) (board s False))"

definition declared_session :: "(string \<times> string) list \<Rightarrow> int \<Rightarrow> string \<times> session_context \<times> int \<Rightarrow> fleet_session" where
  "declared_session live now = (\<lambda>(agent, c, declared_at).
     let claimed = map snd (filter (\<lambda>p. fst p = agent) live)
     in \<lparr>fs_agent_id = agent, fs_context = c, fs_declared_at = declared_at,
         fs_staleness = from_declared (x_behind c),
         fs_presence = presence_from_session (claimed \<noteq> []) declared_at now SESSION_QUIET_GRACE_SECS,
         fs_claimed_task_ids = claimed\<rparr>)"

text \<open>
  An agent that declared nothing gets a session for its first claim. For a later claim the session is
  there already and the loop goes on, so the arm that would add the claim to it is never reached.
\<close>

definition claimant_session :: "string \<Rightarrow> string \<Rightarrow> fleet_session" where
  "claimant_session agent i =
     \<lparr>fs_agent_id = agent, fs_context = no_context, fs_declared_at = 0, fs_staleness = StaleUnknown,
      fs_presence = PresenceLive, fs_claimed_task_ids = [i]\<rparr>"

definition undeclared_session :: "fleet_session list \<Rightarrow> string \<times> string \<Rightarrow> fleet_session list" where
  "undeclared_session sessions = (\<lambda>(agent, i).
     if \<exists>x \<in> set sessions. fs_agent_id x = agent then sessions else sessions @ [claimant_session agent i])"

definition fleet_sessions :: "ledger \<Rightarrow> int \<Rightarrow> fleet_session list" where
  "fleet_sessions s now =
     (let live = live_owners s
      in sort_key fs_agent_id (foldl undeclared_session (map (declared_session live now) (declared_contexts s)) live))"

definition divergence_of :: "fleet_session list \<Rightarrow> divergence" where
  "divergence_of sessions =
     (let working = filter (\<lambda>x. fs_claimed_task_ids x \<noteq> []) sessions;
          bases = sort_dedup (List.map_filter (\<lambda>x. x_base (fs_context x)) working)
      in \<lparr>dv_bases = bases,
          dv_undeclared_sessions = length (filter (\<lambda>x. x_base (fs_context x) = None) working),
          dv_diverged = (1 < length bases)\<rparr>)"

text \<open>The clock is read once for the sessions and once more for the waits.\<close>

definition fleet_view_of :: "ledger \<Rightarrow> int \<Rightarrow> int \<Rightarrow> fleet_view" where
  "fleet_view_of s now later =
     (let sessions = fleet_sessions s now; ws = waits s; cycles = wait_cycles ws
      in \<lparr>fv_sessions = sessions, fv_divergence = divergence_of sessions, fv_waits = ws, fv_wait_cycles = cycles,
          fv_stale_waits = stale_waits ws sessions cycles later STALE_WAIT_GRACE_SECS\<rparr>)"

subsection \<open>The search computes reachability\<close>

definition waiting :: "wait list \<Rightarrow> (string \<times> string) set" where
  "waiting ws = (\<lambda>w. (w_waiter w, w_waited_on w)) ` set ws"

lemma add_wait_graph:
  assumes "bt_ok m"
  shows "bt_ok (add_wait m w)"
    and "fst ` set (add_wait m w) = fst ` set m \<union> {w_waiter w, w_waited_on w}"
    and "set (successors (add_wait m w) a) = set (successors m a) \<union> (if a = w_waiter w then {w_waited_on w} else {})"
proof -
  let ?m1 = "bt_insert (w_waiter w) (insort_insert (w_waited_on w) (successors m (w_waiter w))) m"
  have ok1: "bt_ok ?m1" by (rule bt_ok_insert [OF assms])
  then show "bt_ok (add_wait m w)" by (simp add: add_wait_def Let_def bt_ok_insert split: option.splits)
  show "fst ` set (add_wait m w) = fst ` set m \<union> {w_waiter w, w_waited_on w}"
  proof (cases "map_of ?m1 (w_waited_on w)")
    case None
    then show ?thesis by (auto simp: add_wait_def Let_def set_bt_insert_keys)
  next
    case (Some xs)
    then have "w_waited_on w \<in> fst ` set ?m1" by (metis domI dom_map_of_conv_image_fst)
    with Some show ?thesis by (auto simp: add_wait_def Let_def set_bt_insert_keys)
  qed
  show "set (successors (add_wait m w) a) = set (successors m a) \<union> (if a = w_waiter w then {w_waited_on w} else {})"
  proof -
    let ?f = "(map_of m)(w_waiter w \<mapsto> insort_insert (w_waited_on w) (successors m (w_waiter w)))"
    have "map_of (add_wait m w) = (case ?f (w_waited_on w) of None \<Rightarrow> ?f(w_waited_on w \<mapsto> []) | Some _ \<Rightarrow> ?f)"
      unfolding add_wait_def Let_def by (simp only: map_of_bt_insert [OF assms] map_of_bt_insert [OF ok1] split: option.splits) simp
    then show ?thesis
      by (cases "?f (w_waited_on w)") (auto simp: successors_def set_insort_insert split: if_splits)
  qed
qed

lemma wait_edges_graph:
  "bt_ok (wait_edges ws) \<and> fst ` set (wait_edges ws) = Field (waiting ws) \<and>
   (\<forall>a. set (successors (wait_edges ws) a) = waiting ws `` {a})"
proof (induction ws rule: rev_induct)
  case Nil
  show ?case by (simp add: wait_edges_def waiting_def bt_ok_def successors_def)
next
  case (snoc w ws)
  have split: "wait_edges (ws @ [w]) = add_wait (wait_edges ws) w"
    "waiting (ws @ [w]) = insert (w_waiter w, w_waited_on w) (waiting ws)"
    by (auto simp: wait_edges_def waiting_def)
  show ?case
    using snoc add_wait_graph [of "wait_edges ws" w] by (auto simp: split Field_def Image_def)
qed

text \<open>
  The invariant of the search: everything seen is reached from the start, and a successor of an
  agent that is done with, the start or a seen one off the stack, has been seen.
\<close>

lemma reach_loop_trancl:
  assumes "\<And>a. set (successors m a) = r `` {a}"
    and "set seen \<subseteq> r\<^sup>+ `` {x}" and "set frontier \<subseteq> insert x (set seen)"
    and "\<And>b. b \<in> insert x (set seen) \<Longrightarrow> b \<notin> set frontier \<Longrightarrow> r `` {b} \<subseteq> set seen"
  shows "set (reach_loop m frontier seen) = r\<^sup>+ `` {x}"
  using assms
proof (induction m frontier seen rule: reach_loop.induct [case_names empty step])
  case (empty m seen)
  have "y \<in> set seen" if "(x, y) \<in> r\<^sup>+" for y
    using that by (induction rule: trancl_induct) (use empty.prems(4) in auto)
  with empty.prems(2) show ?case by auto
next
  case (step m a frontier seen)
  obtain frontier' seen' where run: "foldl visit (frontier, seen) (successors m a) = (frontier', seen')"
    by fastforce
  have seen': "set seen' = set seen \<union> r `` {a}" and frontier': "set frontier' = set frontier \<union> (r `` {a} - set seen)"
    using visit_fold_seen [of frontier seen "successors m a"] visit_fold_frontier [of frontier seen "successors m a"]
      run step.prems(1) by auto
  have "(x, a) \<in> r\<^sup>+ \<or> a = x" using step.prems(2,3) by auto
  then have sub: "set seen' \<subseteq> r\<^sup>+ `` {x}"
    using step.prems(2) by (auto simp: seen' intro: trancl_into_trancl)
  have "set (reach_loop m frontier' seen') = r\<^sup>+ `` {x}"
  proof (rule step.IH [OF _ _ step.prems(1) sub])
    show "(frontier', seen') = foldl visit (frontier, seen) (successors m a)" by (simp add: run)
    show "set frontier' \<subseteq> insert x (set seen')"
      using step.prems(3) by (auto simp: seen' frontier')
    show "r `` {b} \<subseteq> set seen'" if "b \<in> insert x (set seen')" "b \<notin> set frontier'" for b
      using that step.prems(4) [of b] by (cases "b = a") (auto simp: seen' frontier')
  qed simp
  then show ?case by (simp add: run)
qed

lemma reach_loop_ordered:
  "sorted seen \<and> distinct seen \<Longrightarrow> sorted (reach_loop m frontier seen) \<and> distinct (reach_loop m frontier seen)"
proof (induction m frontier seen rule: reach_loop.induct [case_names empty step])
  case (step m a frontier seen)
  then show ?case
    using visit_fold_ordered [of seen frontier "successors m a"] by (auto split: prod.splits)
qed simp

lemma reachable_from_trancl:
  "set (reachable_from (wait_edges ws) a) = (waiting ws)\<^sup>+ `` {a}"
  "sorted (reachable_from m a)" "distinct (reachable_from m a)"
  using reach_loop_trancl [of "wait_edges ws" "waiting ws" "[]" a "[a]"] wait_edges_graph [of ws]
    reach_loop_ordered [of "[]" m "[a]"]
  by (simp_all add: reachable_from_def)

subsection \<open>The cycles are the components\<close>

definition stuck_together :: "wait list \<Rightarrow> string \<Rightarrow> string \<Rightarrow> bool" where
  "stuck_together ws a b \<longleftrightarrow> (a, b) \<in> (waiting ws)\<^sup>+ \<and> (b, a) \<in> (waiting ws)\<^sup>+"

lemma stuck_sym: "stuck_together ws a b \<Longrightarrow> stuck_together ws b a"
  and stuck_trans: "stuck_together ws a b \<Longrightarrow> stuck_together ws b c \<Longrightarrow> stuck_together ws a c"
  by (auto simp: stuck_together_def intro: trancl_trans)

lemma mutual_with_set: "set (mutual_with (wait_edges ws) a) = {b. stuck_together ws a b}"
  and mutual_with_ordered: "sorted (mutual_with m a)" "distinct (mutual_with m a)"
  by (auto simp: mutual_with_def reachable_from_trancl stuck_together_def sorted_wrt_filter)

lemma mutual_two:
  assumes "b \<noteq> a" and "stuck_together ws a b"
  shows "2 \<le> length (mutual_with (wait_edges ws) a)"
proof -
  have "stuck_together ws a a" using assms(2) stuck_sym stuck_trans by blast
  with assms have "{a, b} \<subseteq> set (mutual_with (wait_edges ws) a)" by (simp add: mutual_with_set)
  then have "card {a, b} \<le> length (mutual_with (wait_edges ws) a)"
    by (meson List.finite_set card_length card_mono le_trans)
  with assms(1) show ?thesis by simp
qed

text \<open>
  What holds of the cycles found so far and the agents they group: the agents are those of the cycles,
  and each cycle is the component of one of its agents.
\<close>

definition components_so_far :: "wait list \<Rightarrow> wait_cycle list \<Rightarrow> string set \<Rightarrow> bool" where
  "components_so_far ws cycles grouped \<longleftrightarrow>
     grouped = (\<Union>c \<in> set cycles. set (wc_agents c)) \<and> distinct cycles \<and>
     (\<forall>c \<in> set cycles. \<exists>a. c = cycle_of ws (mutual_with (wait_edges ws) a) \<and> 2 \<le> length (mutual_with (wait_edges ws) a))"

lemma mutual_self:
  assumes "mutual_with (wait_edges ws) a \<noteq> []"
  shows "a \<in> set (mutual_with (wait_edges ws) a)"
proof -
  from assms obtain b where "stuck_together ws a b" using mutual_with_set [of ws a] by fastforce
  then have "stuck_together ws a a" using stuck_sym stuck_trans by blast
  then show ?thesis by (simp add: mutual_with_set)
qed

lemma group_agent_components:
  assumes "components_so_far ws cycles grouped" and "group_agent ws (wait_edges ws) (cycles, grouped) a = (cycles', grouped')"
  shows "components_so_far ws cycles' grouped'" and "grouped \<subseteq> grouped'"
    and "2 \<le> length (mutual_with (wait_edges ws) a) \<Longrightarrow> a \<in> grouped'"
proof -
  let ?M = "mutual_with (wait_edges ws) a"
  consider (same) "a \<in> grouped" | (short) "a \<notin> grouped" "length ?M < 2" | (new) "a \<notin> grouped" "2 \<le> length ?M"
    by linarith
  then have "components_so_far ws cycles' grouped' \<and> grouped \<subseteq> grouped' \<and> (2 \<le> length ?M \<longrightarrow> a \<in> grouped')"
  proof cases
    case new
    have self: "a \<in> set ?M" using new by (intro mutual_self) auto
    have st: "cycles' = cycles @ [cycle_of ws ?M]" "grouped' = grouped \<union> set ?M"
      using assms(2) new by (auto simp: group_agent_def Let_def)
    have "cycle_of ws ?M \<notin> set cycles"
      using new(1) self assms(1) by (auto simp: components_so_far_def cycle_of_def)
    then have "components_so_far ws cycles' grouped'"
      using assms(1) new(2) unfolding components_so_far_def st by (auto simp: cycle_of_def)
    with self st show ?thesis by auto
  qed (use assms in \<open>auto simp: group_agent_def Let_def\<close>)
  then show "components_so_far ws cycles' grouped'" and "grouped \<subseteq> grouped'"
    and "2 \<le> length ?M \<Longrightarrow> a \<in> grouped'" by blast+
qed

lemma group_agents_components:
  assumes "components_so_far ws cycles grouped"
    and "foldl (group_agent ws (wait_edges ws)) (cycles, grouped) as = (cycles', grouped')"
  shows "components_so_far ws cycles' grouped' \<and> grouped \<subseteq> grouped' \<and>
    (\<forall>a \<in> set as. 2 \<le> length (mutual_with (wait_edges ws) a) \<longrightarrow> a \<in> grouped')"
  using assms
proof (induction as arbitrary: cycles grouped)
  case (Cons a as)
  obtain cs g where one: "group_agent ws (wait_edges ws) (cycles, grouped) a = (cs, g)" by fastforce
  note step = group_agent_components [OF Cons.prems(1) one]
  have "foldl (group_agent ws (wait_edges ws)) (cs, g) as = (cycles', grouped')"
    using Cons.prems(2) one by simp
  from Cons.IH [OF step(1) this] step(2,3) show ?case by auto
qed simp

lemma components_so_far_start: "components_so_far ws [] {}"
  by (simp add: components_so_far_def)

lemma wait_cycles_components:
  "\<exists>grouped. components_so_far ws (wait_cycles ws) grouped \<and>
     (\<forall>a. 2 \<le> length (mutual_with (wait_edges ws) a) \<longrightarrow> a \<in> grouped)"
proof -
  obtain cs g where run: "foldl (group_agent ws (wait_edges ws)) ([], {}) (map fst (wait_edges ws)) = (cs, g)"
    by fastforce
  have "components_so_far ws cs g \<and> (\<forall>a \<in> set (map fst (wait_edges ws)). 2 \<le> length (mutual_with (wait_edges ws) a) \<longrightarrow> a \<in> g)"
    using group_agents_components [OF _ run] by (metis components_so_far_start)
  moreover have "a \<in> set (map fst (wait_edges ws))" if "2 \<le> length (mutual_with (wait_edges ws) a)" for a
  proof -
    from that have "a \<in> set (mutual_with (wait_edges ws) a)" by (intro mutual_self) auto
    then have "(a, a) \<in> (waiting ws)\<^sup>+" by (simp add: mutual_with_set stuck_together_def)
    then have "a \<in> Field (waiting ws)" by (meson FieldI2 tranclE)
    then show ?thesis using wait_edges_graph [of ws] by simp
  qed
  moreover have "wait_cycles ws = cs" by (simp add: wait_cycles_def Let_def run)
  ultimately show ?thesis by blast
qed

lemma cycle_shape:
  assumes "c \<in> set (wait_cycles ws)"
  obtains a where "c = cycle_of ws (mutual_with (wait_edges ws) a)" "2 \<le> length (mutual_with (wait_edges ws) a)"
  using assms wait_cycles_components [of ws] by (auto simp: components_so_far_def)

lemma cycle_component:
  assumes "c \<in> set (wait_cycles ws)" and "y \<in> set (wc_agents c)"
  shows "set (wc_agents c) = {x. stuck_together ws y x}"
proof -
  from assms(1) obtain a where a: "set (wc_agents c) = {x. stuck_together ws a x}"
    by (rule cycle_shape) (simp add: cycle_of_def mutual_with_set)
  with assms(2) show ?thesis using stuck_sym stuck_trans by blast
qed

lemma cycle_ordered:
  assumes "c \<in> set (wait_cycles ws)"
  shows "sorted (wc_agents c)" "distinct (wc_agents c)" "2 \<le> length (wc_agents c)"
    "wc_task_ids c = sort_dedup (map w_task_id
       (filter (\<lambda>w. w_waiter w \<in> set (wc_agents c) \<and> w_waited_on w \<in> set (wc_agents c)) ws))"
  using assms by (auto elim!: cycle_shape simp: cycle_of_def mutual_with_ordered)

lemma cycle_two:
  assumes "c \<in> set (wait_cycles ws)"
  shows "\<exists>a b. a \<noteq> b \<and> stuck_together ws a b \<and> set (wc_agents c) = {x. stuck_together ws a x}"
proof -
  obtain a b xs where "wc_agents c = a # b # xs"
    using cycle_ordered(3) [OF assms] by (cases "wc_agents c" rule: remdups_adj.cases) auto
  with cycle_ordered(2) [OF assms] cycle_component [OF assms, of a] show ?thesis by auto
qed

lemma cycle_unique:
  assumes "c \<in> set (wait_cycles ws)" "c' \<in> set (wait_cycles ws)" and "y \<in> set (wc_agents c)" "y \<in> set (wc_agents c')"
  shows "c = c'"
proof -
  have "set (wc_agents c) = set (wc_agents c')"
    unfolding cycle_component [OF assms(1,3)] cycle_component [OF assms(2,4)] ..
  then have "wc_agents c = wc_agents c'"
    by (rule sorted_distinct_set_unique [OF cycle_ordered(1,2) [OF assms(1)] cycle_ordered(1,2) [OF assms(2)]])
  then show ?thesis using cycle_ordered(4) [OF assms(1)] cycle_ordered(4) [OF assms(2)] by simp
qed

lemma cycle_covers:
  assumes "a \<noteq> b" and "stuck_together ws a b"
  shows "\<exists>c \<in> set (wait_cycles ws). {a, b} \<subseteq> set (wc_agents c)"
proof -
  have "2 \<le> length (mutual_with (wait_edges ws) a)" using mutual_two assms by metis
  then obtain c where c: "c \<in> set (wait_cycles ws)" "a \<in> set (wc_agents c)"
    using wait_cycles_components [of ws] by (auto simp: components_so_far_def)
  then show ?thesis using cycle_component [OF c] assms(2) by auto
qed

text \<open>
  C35. The wait cycles are exactly the deadlocks. Every reported cycle is the set of all agents that wait for
  one of its members and are waited for by it, directly or through others, with at least two agents,
  and lists exactly the tasks whose questions run inside it; and any two different agents that wait
  for each other are in exactly one reported cycle.
\<close>

theorem wait_cycles_are_components:
  "distinct (wait_cycles ws) \<and>
   (\<forall>c \<in> set (wait_cycles ws). sorted (wc_agents c) \<and> distinct (wc_agents c) \<and>
      (\<exists>a b. a \<noteq> b \<and> stuck_together ws a b \<and> set (wc_agents c) = {x. stuck_together ws a x}) \<and>
      sorted (wc_task_ids c) \<and> distinct (wc_task_ids c) \<and>
      set (wc_task_ids c) = w_task_id ` {w \<in> set ws. w_waiter w \<in> set (wc_agents c) \<and> w_waited_on w \<in> set (wc_agents c)}) \<and>
   (\<forall>a b. a \<noteq> b \<and> stuck_together ws a b \<longrightarrow>
      (\<exists>!c. c \<in> set (wait_cycles ws) \<and> a \<in> set (wc_agents c)) \<and>
      (\<exists>c \<in> set (wait_cycles ws). {a, b} \<subseteq> set (wc_agents c)))"
proof (intro conjI ballI allI impI)
  show "distinct (wait_cycles ws)" using wait_cycles_components [of ws] by (auto simp: components_so_far_def)
next
  fix a b
  assume "a \<noteq> b \<and> stuck_together ws a b"
  then show "\<exists>!c. c \<in> set (wait_cycles ws) \<and> a \<in> set (wc_agents c)"
    and "\<exists>c \<in> set (wait_cycles ws). {a, b} \<subseteq> set (wc_agents c)"
    using cycle_covers [of a b ws] cycle_unique by auto
qed (use cycle_two in \<open>auto simp: cycle_ordered\<close>)

subsection \<open>The sessions of the view\<close>

lemma live_owners_iff:
  "(a, i) \<in> set (live_owners s) \<longleftrightarrow> (\<exists>t \<in> set (s_tasks s). t_status t = Claimed \<and> t_owner t = Some a \<and> t_id t = i)"
  by (auto simp: live_owners_def board_def List.map_filter_def image_iff)

lemma claimant_session_fields [simp]:
  "fs_agent_id (claimant_session a i) = a" "fs_claimed_task_ids (claimant_session a i) = [i]"
  "fs_presence (claimant_session a i) = PresenceLive"
  by (simp_all add: claimant_session_def)

lemma undeclared_step:
  "undeclared_session xs p =
     (if fst p \<in> fs_agent_id ` set xs then xs else xs @ [claimant_session (fst p) (snd p)])"
  by (cases p) (auto simp: undeclared_session_def)

lemma undeclared_keeps: "set xs \<subseteq> set (foldl undeclared_session xs live)"
  by (induction live rule: rev_induct) (auto simp: undeclared_step)

lemma undeclared_agents:
  "fs_agent_id ` set (foldl undeclared_session xs live) = fs_agent_id ` set xs \<union> fst ` set live"
  by (induction live rule: rev_induct) (auto simp: undeclared_step)

lemma undeclared_new:
  "x \<in> set (foldl undeclared_session xs live) \<Longrightarrow> x \<notin> set xs \<Longrightarrow>
   (\<exists>i. (fs_agent_id x, i) \<in> set live \<and> fs_claimed_task_ids x = [i]) \<and> fs_presence x = PresenceLive \<and>
   fs_agent_id x \<notin> fs_agent_id ` set xs"
proof (induction live rule: rev_induct)
  case (snoc p live)
  show ?case
  proof (cases "x \<in> set (foldl undeclared_session xs live)")
    case True
    with snoc show ?thesis by auto
  next
    case False
    with snoc.prems(1) have x: "x = claimant_session (fst p) (snd p)"
      and new: "fst p \<notin> fs_agent_id ` set (foldl undeclared_session xs live)"
      by (auto simp: undeclared_step [of "foldl undeclared_session xs live" p] split: if_splits)
    have "fst p \<notin> fs_agent_id ` set xs" using new undeclared_keeps [of xs live] by auto
    then show ?thesis by (auto simp: x)
  qed
qed simp

lemma undeclared_distinct:
  "distinct (map fs_agent_id xs) \<Longrightarrow> distinct (map fs_agent_id (foldl undeclared_session xs live))"
  by (induction live rule: rev_induct) (auto simp: undeclared_step)

lemma declared_session_fields:
  "fs_agent_id (declared_session live now (a, c, d)) = a" "fs_declared_at (declared_session live now (a, c, d)) = d"
  "fs_context (declared_session live now (a, c, d)) = c"
  "fs_claimed_task_ids (declared_session live now (a, c, d)) = [] \<longleftrightarrow> (\<forall>i. (a, i) \<notin> set live)"
  "fs_presence (declared_session live now (a, c, d)) =
     presence_from_session (\<exists>i. (a, i) \<in> set live) d now SESSION_QUIET_GRACE_SECS"
proof -
  have some: "(\<exists>p \<in> set live. fst p = a) \<longleftrightarrow> (\<exists>i. (a, i) \<in> set live)" by force
  show "fs_agent_id (declared_session live now (a, c, d)) = a" "fs_declared_at (declared_session live now (a, c, d)) = d"
    "fs_context (declared_session live now (a, c, d)) = c"
    by (simp_all add: declared_session_def Let_def)
  show "fs_claimed_task_ids (declared_session live now (a, c, d)) = [] \<longleftrightarrow> (\<forall>i. (a, i) \<notin> set live)"
    "fs_presence (declared_session live now (a, c, d)) =
       presence_from_session (\<exists>i. (a, i) \<in> set live) d now SESSION_QUIET_GRACE_SECS"
    using some by (auto simp: declared_session_def Let_def filter_empty_conv)
qed

lemma fleet_sessions_cases:
  assumes "x \<in> set (fleet_sessions s now)"
  obtains c d where "(fs_agent_id x, c, d) \<in> set (s_sessions s)" "x = declared_session (live_owners s) now (fs_agent_id x, c, d)"
    | i where "(fs_agent_id x, i) \<in> set (live_owners s)" "fs_claimed_task_ids x = [i]" "fs_presence x = PresenceLive"
        "fs_agent_id x \<notin> fst ` set (s_sessions s)"
proof -
  let ?xs = "map (declared_session (live_owners s) now) (declared_contexts s)"
  have x: "x \<in> set (foldl undeclared_session ?xs (live_owners s))"
    using assms by (simp add: fleet_sessions_def Let_def)
  have ids: "fs_agent_id ` set ?xs = fst ` set (s_sessions s)"
    by (force simp: declared_contexts_def declared_session_fields image_iff)
  show thesis
  proof (cases "x \<in> set ?xs")
    case True
    then show thesis by (auto simp: declared_contexts_def declared_session_fields intro!: that(1))
  next
    case False
    then show thesis using undeclared_new [OF x, unfolded ids] that(2) by blast
  qed
qed

lemma fleet_sessions_agents:
  "fs_agent_id ` set (fleet_sessions s now) = fst ` set (s_sessions s) \<union> fst ` set (live_owners s)"
  "(a, c, d) \<in> set (s_sessions s) \<Longrightarrow> declared_session (live_owners s) now (a, c, d) \<in> set (fleet_sessions s now)"
proof -
  have ids: "fs_agent_id ` set (map (declared_session (live_owners s) now) (declared_contexts s)) = fst ` set (s_sessions s)"
    by (force simp: declared_contexts_def declared_session_fields image_iff)
  show "fs_agent_id ` set (fleet_sessions s now) = fst ` set (s_sessions s) \<union> fst ` set (live_owners s)"
    unfolding fleet_sessions_def Let_def set_sort undeclared_agents ids ..
  show "declared_session (live_owners s) now (a, c, d) \<in> set (fleet_sessions s now)" if "(a, c, d) \<in> set (s_sessions s)"
    using that undeclared_keeps [of "map (declared_session (live_owners s) now) (declared_contexts s)" "live_owners s"]
    by (auto simp: fleet_sessions_def Let_def declared_contexts_def)
qed

lemma quiet_iff:
  "addressee_has_gone_quiet a asked (fleet_sessions s now) \<longleftrightarrow>
     (\<forall>i. (a, i) \<notin> set (live_owners s)) \<and> (\<forall>c d. (a, c, d) \<in> set (s_sessions s) \<longrightarrow> d < asked)"
proof (intro iffI conjI allI impI notI)
  fix i
  assume q: "addressee_has_gone_quiet a asked (fleet_sessions s now)" and i: "(a, i) \<in> set (live_owners s)"
  then have "a \<in> fs_agent_id ` set (fleet_sessions s now)" unfolding fleet_sessions_agents by force
  then obtain x where x: "x \<in> set (fleet_sessions s now)" "fs_agent_id x = a" by auto
  from x(1) have "fs_claimed_task_ids x \<noteq> []"
  proof (cases rule: fleet_sessions_cases)
    case (1 c d)
    then show ?thesis using i x(2) by (metis declared_session_fields(4))
  qed simp
  with q x show False by (auto simp: addressee_has_gone_quiet_def)
next
  fix c d
  assume q: "addressee_has_gone_quiet a asked (fleet_sessions s now)" and r: "(a, c, d) \<in> set (s_sessions s)"
  from fleet_sessions_agents(2) [OF r, of now] q show "d < asked"
    by (force simp: addressee_has_gone_quiet_def declared_session_fields)
next
  assume none: "(\<forall>i. (a, i) \<notin> set (live_owners s)) \<and> (\<forall>c d. (a, c, d) \<in> set (s_sessions s) \<longrightarrow> d < asked)"
  have "fs_claimed_task_ids x = [] \<and> \<not> asked \<le> fs_declared_at x"
    if "x \<in> set (fleet_sessions s now)" "fs_agent_id x = a" for x
    using that(1)
  proof (cases rule: fleet_sessions_cases)
    case (1 c d)
    then show ?thesis using none that(2) declared_session_fields(2,4) by (metis not_le)
  next
    case (2 i)
    then show ?thesis using none that(2) by simp
  qed
  then show "addressee_has_gone_quiet a asked (fleet_sessions s now)" by (auto simp: addressee_has_gone_quiet_def)
qed

text \<open>
  Which waits are reported as stale: exactly the waits that have outlived the grace, whose two agents
  are not both deadlocked with somebody, and whose addressee holds no claim and has declared no context since it
  was asked. They come oldest first.
\<close>

theorem stale_waits_reported:
  "(\<forall>w. w \<in> set (fv_stale_waits (fleet_view_of s now later)) \<longleftrightarrow>
      w \<in> set (waits s) \<and> later - w_asked_at w \<ge> STALE_WAIT_GRACE_SECS \<and>
      \<not> ((\<exists>x. x \<noteq> w_waiter w \<and> stuck_together (waits s) (w_waiter w) x) \<and>
         (\<exists>x. x \<noteq> w_waited_on w \<and> stuck_together (waits s) (w_waited_on w) x)) \<and>
      (\<forall>t \<in> set (s_tasks s). \<not> (t_status t = Claimed \<and> t_owner t = Some (w_waited_on w))) \<and>
      (\<forall>c d. (w_waited_on w, c, d) \<in> set (s_sessions s) \<longrightarrow> d < w_asked_at w)) \<and>
   sorted (map w_asked_at (fv_stale_waits (fleet_view_of s now later)))"
proof -
  have dead: "(\<forall>c \<in> set (wait_cycles ws). a \<notin> set (wc_agents c)) \<longleftrightarrow> (\<forall>x. x = a \<or> \<not> stuck_together ws a x)" for a ws
  proof
    assume "\<forall>c \<in> set (wait_cycles ws). a \<notin> set (wc_agents c)"
    then show "\<forall>x. x = a \<or> \<not> stuck_together ws a x" using cycle_covers [of a _ ws] by force
  next
    assume alone: "\<forall>x. x = a \<or> \<not> stuck_together ws a x"
    show "\<forall>c \<in> set (wait_cycles ws). a \<notin> set (wc_agents c)"
    proof (intro ballI notI)
      fix c assume c: "c \<in> set (wait_cycles ws)" "a \<in> set (wc_agents c)"
      from cycle_two [OF c(1)] obtain y z where yz: "y \<noteq> z" "y \<in> set (wc_agents c)" "z \<in> set (wc_agents c)"
        using stuck_sym stuck_trans by blast
      then have "stuck_together ws a y" "stuck_together ws a z" by (simp_all add: cycle_component [OF c])
      with alone yz(1) show False by metis
    qed
  qed
  have none: "(\<forall>i. (a, i) \<notin> set (live_owners s)) \<longleftrightarrow>
      (\<forall>t \<in> set (s_tasks s). \<not> (t_status t = Claimed \<and> t_owner t = Some a))" for a
    by (auto simp: live_owners_iff)
  show ?thesis
    unfolding fleet_view_of_def Let_def stale_waits_def
    by (simp add: quiet_iff dead none sorted_sort_key) blast
qed

lemma two_elements: "distinct xs \<Longrightarrow> 1 < length xs \<longleftrightarrow> (\<exists>b \<in> set xs. \<exists>c \<in> set xs. b \<noteq> c)"
  by (cases xs rule: remdups_adj.cases) auto

text \<open>
  Everybody with a claim or a declaration is in the view, once, in the order of their names; sessions
  diverge exactly when two agents with claims declared different bases.
\<close>

theorem fleet_lists_everyone:
  assumes "distinct (map fst (s_sessions s))"
  shows "sorted (map fs_agent_id (fleet_sessions s now)) \<and> distinct (map fs_agent_id (fleet_sessions s now)) \<and>
    fs_agent_id ` set (fleet_sessions s now) =
      fst ` set (s_sessions s) \<union> {a. \<exists>t \<in> set (s_tasks s). t_status t = Claimed \<and> t_owner t = Some a} \<and>
    (dv_diverged (divergence_of (fleet_sessions s now)) \<longleftrightarrow>
      (\<exists>x \<in> set (fleet_sessions s now). \<exists>y \<in> set (fleet_sessions s now). \<exists>b c.
         fs_claimed_task_ids x \<noteq> [] \<and> fs_claimed_task_ids y \<noteq> [] \<and>
         x_base (fs_context x) = Some b \<and> x_base (fs_context y) = Some c \<and> b \<noteq> c))"
proof -
  let ?xs = "map (declared_session (live_owners s) now) (declared_contexts s)"
  have "map fs_agent_id ?xs = map fst (declared_contexts s)" by (auto simp: declared_session_fields)
  moreover have "distinct (map fst (declared_contexts s))"
    using assms by (simp add: declared_contexts_def distinct_map)
  ultimately have "distinct (map fs_agent_id (foldl undeclared_session ?xs (live_owners s)))"
    by (intro undeclared_distinct) (simp only:)
  then have dist: "distinct (map fs_agent_id (fleet_sessions s now))"
    by (simp add: fleet_sessions_def Let_def distinct_map)
  have owners: "fst ` set (live_owners s) = {a. \<exists>t \<in> set (s_tasks s). t_status t = Claimed \<and> t_owner t = Some a}"
    using live_owners_iff [of _ _ s] by force
  have div: "dv_diverged (divergence_of sessions) \<longleftrightarrow> (\<exists>x \<in> set sessions. \<exists>y \<in> set sessions. \<exists>b c.
         fs_claimed_task_ids x \<noteq> [] \<and> fs_claimed_task_ids y \<noteq> [] \<and>
         x_base (fs_context x) = Some b \<and> x_base (fs_context y) = Some c \<and> b \<noteq> c)" for sessions
    by (simp add: divergence_of_def Let_def two_elements [unfolded One_nat_def] List.map_filter_def) force
  show ?thesis
    using dist by (simp add: fleet_sessions_agents owners div) (simp add: fleet_sessions_def Let_def)
qed

text \<open>
  An agent without a declaration hides its claims: its session lists one task, however many it holds.
\<close>

theorem undeclared_agent_hides_claims:
  assumes "a \<notin> fst ` set (s_sessions s)" and "x \<in> set (fleet_sessions s now)" "fs_agent_id x = a"
  shows "length (fs_claimed_task_ids x) = 1"
  using assms(2)
proof (cases rule: fleet_sessions_cases)
  case (1 c d)
  with assms(1,3) show ?thesis by force
qed simp

text \<open>
  An expired claim reads as a pulse: the session of an agent that is recorded as the owner of a claimed task is
  live whatever its lease says.
\<close>

theorem lapsed_claim_reads_live:
  assumes "t \<in> set (s_tasks s)" "t_status t = Claimed" "t_owner t = Some a"
    and "x \<in> set (fleet_sessions s now)" "fs_agent_id x = a"
  shows "fs_presence x = PresenceLive"
  using assms(4)
proof (cases rule: fleet_sessions_cases)
  case (1 c d)
  have "(a, t_id t) \<in> set (live_owners s)" using assms(1-3) by (auto simp: live_owners_iff)
  then show ?thesis using 1(2) assms(5) by (metis declared_session_fields(5) presence_from_session_def)
qed

subsection \<open>Concrete fleets\<close>

definition sample_wait :: "string \<Rightarrow> string \<Rightarrow> string \<Rightarrow> wait" where
  "sample_wait i a b = \<lparr>w_task_id = i, w_waiter = a, w_waited_on = b, w_asked_at = 0\<rparr>"

theorem wait_cycles_are_components_witness:
  "let ws = [sample_wait ''t'' ''a'' ''b'', sample_wait ''u'' ''b'' ''c'', sample_wait ''v'' ''c'' ''a'', sample_wait ''w'' ''d'' ''a'']
   in wait_cycles ws = [\<lparr>wc_agents = [''a'', ''b'', ''c''], wc_task_ids = [''t'', ''u'', ''v'']\<rparr>] \<and>
      \<not> (\<exists>x. x \<noteq> ''d'' \<and> stuck_together ws ''d'' x)"
proof -
  let ?ws = "[sample_wait ''t'' ''a'' ''b'', sample_wait ''u'' ''b'' ''c'', sample_wait ''v'' ''c'' ''a'', sample_wait ''w'' ''d'' ''a'']"
  have c: "wait_cycles ?ws = [\<lparr>wc_agents = [''a'', ''b'', ''c''], wc_task_ids = [''t'', ''u'', ''v'']\<rparr>]" by code_simp
  have "\<not> (\<exists>x. x \<noteq> ''d'' \<and> stuck_together ?ws ''d'' x)"
  proof (rule notI, erule exE)
    fix x assume "x \<noteq> ''d'' \<and> stuck_together ?ws ''d'' x"
    then have "''d'' \<noteq> x \<and> stuck_together ?ws ''d'' x" by blast
    then have "\<exists>c \<in> set (wait_cycles ?ws). {''d'', x} \<subseteq> set (wc_agents c)"
      using wait_cycles_are_components [of ?ws, THEN conjunct2, THEN conjunct2, rule_format, of "''d''" x] by blast
    then show False by (simp add: c)
  qed
  with c show ?thesis by (simp add: Let_def)
qed

text \<open>
  Answering one question need not break a cycle: when an agent asked the other twice, the cycle
  stands after either of its two questions was answered.
\<close>

theorem answer_leaves_cycle:
  "wait_cycles [sample_wait ''t'' ''a'' ''b'', sample_wait ''u'' ''a'' ''b'', sample_wait ''v'' ''b'' ''a''] =
     [\<lparr>wc_agents = [''a'', ''b''], wc_task_ids = [''t'', ''u'', ''v'']\<rparr>] \<and>
   wait_cycles [sample_wait ''u'' ''a'' ''b'', sample_wait ''v'' ''b'' ''a''] =
     [\<lparr>wc_agents = [''a'', ''b''], wc_task_ids = [''u'', ''v'']\<rparr>]"
  by code_simp

text \<open>
  A wait between two cycles is in neither and yet is never stale: its agents are both in a cycle, though
  not in the same one, its task is in no list, and it is not reported however old it is.
\<close>

theorem wait_between_cycles_unreported:
  "let ws = [sample_wait ''t'' ''a'' ''b'', sample_wait ''u'' ''b'' ''a'', sample_wait ''v'' ''c'' ''d'',
       sample_wait ''w'' ''d'' ''c'', sample_wait ''x'' ''a'' ''c'']
   in concat (map wc_task_ids (wait_cycles ws)) = [''t'', ''u'', ''v'', ''w''] \<and>
      stale_waits ws [] (wait_cycles ws) now grace = []"
proof -
  let ?ws = "[sample_wait ''t'' ''a'' ''b'', sample_wait ''u'' ''b'' ''a'', sample_wait ''v'' ''c'' ''d'',
       sample_wait ''w'' ''d'' ''c'', sample_wait ''x'' ''a'' ''c'']"
  have c: "wait_cycles ?ws = [\<lparr>wc_agents = [''a'', ''b''], wc_task_ids = [''t'', ''u'']\<rparr>,
      \<lparr>wc_agents = [''c'', ''d''], wc_task_ids = [''v'', ''w'']\<rparr>]" by code_simp
  show ?thesis unfolding Let_def c by (simp add: stale_waits_def sample_wait_def)
qed

theorem stale_waits_reported_witness:
  "\<exists>s'. ask_question ''a'' ''x'' ''why'' (Some ''y'') 5 (imported [sample_claim ''a'' ''x'' 1 9]) = Inr (True, s') \<and>
     \<lparr>w_task_id = ''a'', w_waiter = ''x'', w_waited_on = ''y'', w_asked_at = 5\<rparr> \<in> set (fv_stale_waits (fleet_view_of s' 3700 3700)) \<and>
     (\<forall>x. x \<noteq> ''x'' \<and> stuck_together (waits s') ''x'' x \<longrightarrow> (\<forall>y. \<not> (y \<noteq> ''y'' \<and> stuck_together (waits s') ''y'' y)))"
proof -
  let ?s = "imported [sample_claim ''a'' ''x'' 1 9]"
  let ?w = "\<lparr>w_task_id = ''a'', w_waiter = ''x'', w_waited_on = ''y'', w_asked_at = 5\<rparr>"
  have "on_win (ask_question ''a'' ''x'' ''why'' (Some ''y'') 5 ?s)
      (\<lambda>s'. ?w \<in> set (fv_stale_waits (fleet_view_of s' 3700 3700)))" by code_simp
  then obtain s' where r: "ask_question ''a'' ''x'' ''why'' (Some ''y'') 5 ?s = Inr (True, s')"
    and w: "?w \<in> set (fv_stale_waits (fleet_view_of s' 3700 3700))" by (auto simp: on_win_iff)
  from stale_waits_reported [of s' 3700 3700, THEN conjunct1, rule_format, THEN iffD1, OF w] r w show ?thesis by auto
qed

definition sample_fleet :: ledger where
  "sample_fleet = (imported [sample_claim ''t'' ''a'' 1 9, sample_claim ''u'' ''a'' 1 9])\<lparr>s_sessions := [(''b'', no_context, 5)]\<rparr>"

theorem fleet_lists_everyone_witness:
  "map fs_agent_id (fleet_sessions sample_fleet 6) = [''a'', ''b''] \<and>
   \<not> dv_diverged (divergence_of (fleet_sessions sample_fleet 6)) \<and> distinct (map fs_agent_id (fleet_sessions sample_fleet 6))"
proof -
  have "distinct (map fst (s_sessions sample_fleet))" by code_simp
  moreover have "map fs_agent_id (fleet_sessions sample_fleet 6) = [''a'', ''b'']" by code_simp
  moreover have "\<not> dv_diverged (divergence_of (fleet_sessions sample_fleet 6))" by code_simp
  ultimately show ?thesis using fleet_lists_everyone [of sample_fleet 6] by blast
qed

theorem undeclared_agent_hides_claims_witness:
  "length (held_claims sample_fleet ''a'') = 2 \<and>
   (\<exists>x \<in> set (fleet_sessions sample_fleet 6). fs_agent_id x = ''a'' \<and> length (fs_claimed_task_ids x) = 1)"
proof -
  have n: "length (held_claims sample_fleet ''a'') = 2" by code_simp
  have "\<exists>x \<in> set (fleet_sessions sample_fleet 6). fs_agent_id x = ''a''" by code_simp
  then obtain x where x: "x \<in> set (fleet_sessions sample_fleet 6)" "fs_agent_id x = ''a''" by blast
  have "''a'' \<notin> fst ` set (s_sessions sample_fleet)" by code_simp
  from undeclared_agent_hides_claims [OF this x] n x show ?thesis by blast
qed

theorem lapsed_claim_reads_live_witness:
  "\<exists>x \<in> set (fleet_sessions sample_fleet 9999). fs_agent_id x = ''a'' \<and> fs_presence x = PresenceLive"
proof -
  have "\<exists>x \<in> set (fleet_sessions sample_fleet 9999). fs_agent_id x = ''a''" by code_simp
  then obtain x where x: "x \<in> set (fleet_sessions sample_fleet 9999)" "fs_agent_id x = ''a''" by blast
  have "sample_claim ''t'' ''a'' 1 9 \<in> set (s_tasks sample_fleet)" by code_simp
  moreover have "t_status (sample_claim ''t'' ''a'' 1 9) = Claimed" "t_owner (sample_claim ''t'' ''a'' 1 9) = Some ''a''"
    by (simp_all add: sample_claim_def)
  ultimately show ?thesis using lapsed_claim_reads_live x by blast
qed

end
