(* ===== verification/Stalls.thy ===== *)
theory Stalls
  imports Fleet Task_Machine Conformance_Engine
begin

text \<open>
  Why work is not moving (\<^verbatim>\<open>stalls.rs\<close>, \<^verbatim>\<open>facade/executive/board.rs\<close>): the report of stalled tasks and
  its two filters, the work that waits for a person and the work a new agent can rescue. The theorems join
  the report with the ledger: in a sound ledger some reports cannot occur, every unfinished task
  either moves or leads to a reported one, and what is offered for rescue can be claimed.
\<close>

subsection \<open>The report\<close>

datatype stall_kind =
  LapsedLease | AwaitingHuman | AwaitingAgent | Deadlocked | BlockedByUnfinished | BlockedByMissingTask | StallPaused

fun stall_kind_as_str :: "stall_kind \<Rightarrow> string" where
  "stall_kind_as_str LapsedLease = ''lapsed_lease''"
| "stall_kind_as_str AwaitingHuman = ''awaiting_human''"
| "stall_kind_as_str AwaitingAgent = ''awaiting_agent''"
| "stall_kind_as_str Deadlocked = ''deadlocked''"
| "stall_kind_as_str BlockedByUnfinished = ''blocked_by_unfinished''"
| "stall_kind_as_str BlockedByMissingTask = ''blocked_by_missing_task''"
| "stall_kind_as_str StallPaused = ''paused''"

record stall =
  sl_task_id :: string
  sl_title :: string
  sl_kind :: stall_kind
  sl_since :: int
  sl_stalled_seconds :: int
  sl_detail :: string

definition agent_can_advance :: "task_status \<Rightarrow> bool" where
  "agent_can_advance st \<longleftrightarrow> st \<in> {Open, Claimed}"

definition or_default :: "'a \<Rightarrow> 'a option \<Rightarrow> 'a" where
  "or_default d x = (case x of None \<Rightarrow> d | Some v \<Rightarrow> v)"

definition needs_input_fact :: "wait list \<Rightarrow> string list \<Rightarrow> task \<Rightarrow> stall_kind \<times> string" where
  "needs_input_fact ws deadlocked t =
     (case find (\<lambda>w. w_task_id w = t_id t) ws of
        None \<Rightarrow> (AwaitingHuman, ''parked awaiting an answer from a human'')
      | Some w \<Rightarrow>
          if t_id t \<in> set deadlocked
          then (Deadlocked, ''parked on '' @ w_waited_on w @
            '', who is waiting on this agent in turn; only an answer from outside breaks it'')
          else (AwaitingAgent, ''parked awaiting an answer from '' @ w_waited_on w))"

definition stall_fact ::
  "task list \<Rightarrow> wait list \<Rightarrow> string list \<Rightarrow> int \<Rightarrow> task \<Rightarrow> (stall_kind \<times> int \<times> string) option" where
  "stall_fact tasks ws deadlocked now t =
     (case t_status t of
        Claimed \<Rightarrow>
          (case t_lease_expires_at t of
             None \<Rightarrow> None
           | Some e \<Rightarrow> if e < now then Some (LapsedLease, e, ''lease expired; owner '' @ or_default ''unknown'' (t_owner t)) else None)
      | InReview \<Rightarrow> Some (AwaitingHuman, t_updated_at t, ''completed with a verdict that needs a human decision'')
      | NeedsInput \<Rightarrow>
          (let (kind, detail) = needs_input_fact ws deadlocked t
           in Some (kind, or_default (t_updated_at t) (t_parked_at t), detail))
      | Paused \<Rightarrow> Some (StallPaused, or_default (t_updated_at t) (t_parked_at t),
          ''deliberately suspended by '' @ or_default ''its owner'' (t_owner t))
      | Blocked \<Rightarrow>
          (case t_blocked_by t of
             None \<Rightarrow> None
           | Some b \<Rightarrow>
               (case find (\<lambda>u. t_id u = b) tasks of
                  None \<Rightarrow> Some (BlockedByMissingTask, t_updated_at t, ''blocked by '' @ b @ '', which is not on the board'')
                | Some u \<Rightarrow>
                    if agent_can_advance (t_status u) then None
                    else Some (BlockedByUnfinished, t_updated_at t, ''blocked by '' @ b @ '', which is '' @ [CHR 0x27] @
                      task_status_as_str (t_status u) @ [CHR 0x27] @ '' '' @ em_dash @ '' no agent will advance it'')))
      | _ \<Rightarrow> None)"

definition stall_of :: "task list \<Rightarrow> wait list \<Rightarrow> string list \<Rightarrow> int \<Rightarrow> task \<Rightarrow> stall option" where
  "stall_of tasks ws deadlocked now t =
     map_option (\<lambda>(kind, since, detail). \<lparr>sl_task_id = t_id t, sl_title = t_title t, sl_kind = kind, sl_since = since,
       sl_stalled_seconds = max (now - since) 0, sl_detail = detail\<rparr>) (stall_fact tasks ws deadlocked now t)"

definition stalls :: "task list \<Rightarrow> wait list \<Rightarrow> int \<Rightarrow> stall list" where
  "stalls tasks ws now =
     (let deadlocked = concat (map wc_task_ids (wait_cycles ws))
      in sort_key (\<lambda>x. - sl_stalled_seconds x) (sort_key sl_task_id
           (List.map_filter (stall_of tasks ws deadlocked now) tasks)))"

definition stalled_work :: "ledger \<Rightarrow> int \<Rightarrow> stall list" where
  "stalled_work s now = stalls (board s True) (waits s) now"

definition work_awaiting_a_human :: "ledger \<Rightarrow> int \<Rightarrow> stall list" where
  "work_awaiting_a_human s now = filter (\<lambda>x. sl_kind x = AwaitingHuman) (stalled_work s now)"

definition work_needing_rescue :: "ledger \<Rightarrow> int \<Rightarrow> stall list" where
  "work_needing_rescue s now =
     filter (\<lambda>x. sl_kind x \<in> {LapsedLease, Deadlocked} \<or>
       sl_kind x = StallPaused \<and> sl_stalled_seconds x > PARKING_GRACE_SECS) (stalled_work s now)"

subsection \<open>What the report says of a sound ledger\<close>

lemma find_board:
  assumes "logged s"
  shows "find (\<lambda>u. t_id u = i) (board s True) = get_task s i"
proof -
  note d = logged_distinct [OF assms]
  then have "distinct (map t_id (board s True))" by (simp add: board_def distinct_map)
  then have "find (\<lambda>u. t_id u = i) (board s True) = Some t \<longleftrightarrow> get_task s i = Some t" for t
    by (simp add: find_distinct_Some get_task_unique [OF d]) (simp add: board_def)
  then show ?thesis by (metis not_Some_eq)
qed

abbreviation deadlocked_tasks :: "ledger \<Rightarrow> string list" where
  "deadlocked_tasks s \<equiv> concat (map wc_task_ids (wait_cycles (waits s)))"

lemma stalled_work_iff:
  "x \<in> set (stalled_work s now) \<longleftrightarrow>
     (\<exists>t \<in> set (s_tasks s). stall_of (board s True) (waits s) (deadlocked_tasks s) now t = Some x)"
  by (simp add: stalled_work_def stalls_def Let_def map_filter_set) (simp add: board_def)

lemma stalled_fact:
  assumes "x \<in> set (stalled_work s now)" and "logged s"
  obtains t where "get_task s (sl_task_id x) = Some t"
    "stall_fact (board s True) (waits s) (deadlocked_tasks s) now t = Some (sl_kind x, sl_since x, sl_detail x)"
    "sl_stalled_seconds x = max (now - sl_since x) 0"
  using assms
  by (auto simp: stalled_work_iff stall_of_def get_task_unique [OF logged_distinct])

lemma fact_stalled:
  assumes "get_task s i = Some t" and "stall_fact (board s True) (waits s) (deadlocked_tasks s) now t \<noteq> None"
  shows "\<exists>x \<in> set (stalled_work s now). sl_task_id x = i"
  using assms get_task_in [OF assms(1)] get_task_id [OF assms(1)]
  by (force simp: stalled_work_iff stall_of_def)

text \<open>
  What blocks a task in a sound ledger. No task is blocked by one that is not on the board, and a task
  reported behind unfinished work waits for one that is not finished: in review, parked or itself blocked.
\<close>

theorem blocked_reports_are_live:
  assumes ok: "ledger_ok s" and x: "x \<in> set (stalled_work s now)"
  shows "sl_kind x \<noteq> BlockedByMissingTask \<and>
    (sl_kind x = BlockedByUnfinished \<longrightarrow> (\<exists>t p. get_task s (sl_task_id x) = Some t \<and> t_blocked_by t = Some (t_id p) \<and>
       get_task s (t_id p) = Some p \<and> t_status p \<in> {InReview, NeedsInput, Paused, Blocked}))"
proof -
  note log = ledger_ok_logged [OF ok]
  obtain t where t: "get_task s (sl_task_id x) = Some t"
    and f: "stall_fact (board s True) (waits s) (deadlocked_tasks s) now t = Some (sl_kind x, sl_since x, sl_detail x)"
    by (rule stalled_fact [OF x log])
  have gate: "\<exists>p. get_task s b = Some p \<and> \<not> terminal p" if "t_blocked_by t = Some b" for b
    using ok t that by (simp add: ledger_ok_def gates_ok_def)
  show ?thesis
  proof (cases "t_status t = Blocked")
    case True
    with f obtain b where b: "t_blocked_by t = Some b" by (auto simp: stall_fact_def split: option.splits)
    then obtain p where p: "get_task s b = Some p" "\<not> terminal p" using gate by blast
    then have "t_id p = b" by (simp add: get_task_id)
    moreover have "\<not> agent_can_advance (t_status p)" "sl_kind x = BlockedByUnfinished"
      using f True b p(1) by (auto simp: stall_fact_def find_board [OF log] split: if_splits)
    ultimately show ?thesis
      using t b p by (cases "t_status p") (auto simp: terminal_def agent_can_advance_def)
  next
    case False
    with f show ?thesis
      by (cases "t_status t")
        (auto simp: stall_fact_def needs_input_fact_def split: option.splits if_splits)
  qed
qed

text \<open>
  C36. Nothing stalls unseen. From every unfinished task of a sound ledger the gates lead to a task that is not gated
  itself and either can be claimed, is held under a running lease, was blocked by hand, or is in
  the report.
\<close>

theorem nothing_stalls_unseen:
  assumes ok: "ledger_ok s" and t: "get_task s i = Some t" "\<not> terminal t"
  shows "\<exists>j u. (j, i) \<in> (edges (s_handoffs s))\<^sup>* \<and> get_task s j = Some u \<and> t_blocked_by u = None \<and>
    (t_status u \<in> {Open, Blocked} \<or> (t_status u = Claimed \<and> (\<exists>e. t_lease_expires_at u = Some e \<and> now \<le> e)) \<or>
     (\<exists>x \<in> set (stalled_work s now). sl_task_id x = j))"
proof -
  have "wf (edges (s_handoffs s))"
    using ok by (intro finite_acyclic_wf) (auto simp: ledger_ok_def handoffs_ok_def edges_def)
  then show ?thesis using t
  proof (induction i arbitrary: t rule: wf_induct_rule)
    case (less i)
    show ?case
    proof (cases "t_blocked_by t")
      case (Some b)
      then obtain p where "(b, i) \<in> edges (s_handoffs s)" "get_task s b = Some p" "\<not> terminal p"
        using ok less.prems(1) unfolding ledger_ok_def gates_ok_def by blast
      with less.IH [of b p] show ?thesis by (meson rtrancl.rtrancl_into_rtrancl)
    next
      case None
      have "row_ok t" using ledger_ok_row [OF ok less.prems(1)] .
      then have "t_status t \<in> {Open, Blocked} \<or> (t_status t = Claimed \<and> (\<exists>e. t_lease_expires_at t = Some e \<and> now \<le> e)) \<or>
          stall_fact (board s True) (waits s) (deadlocked_tasks s) now t \<noteq> None"
        using less.prems(2) None
        by (cases "t_status t") (auto simp: row_ok_def terminal_def stall_fact_def split: prod.splits option.splits)
      with None less.prems(1) fact_stalled [OF less.prems(1)] show ?thesis by blast
    qed
  qed
qed

text \<open>
  C37. Rescue can succeed: a task offered for rescue, unless it is deadlocked, is won at once by any agent that
  claims it, has room for one more claim, and is not a session facing an owner from before session identities.
\<close>

theorem rescue_is_claimable:
  assumes ok: "ledger_ok s" and x: "x \<in> set (work_needing_rescue s now)" and k: "sl_kind x \<noteq> Deadlocked"
    and room: "length (held_claims s agent) < MAX_CONCURRENT_CLAIMS"
  shows "\<exists>t. get_task s (sl_task_id x) = Some t \<and>
    (\<not> (\<exists>w. t_owner t = Some w \<and> \<not> session_like w \<and> session_like agent) \<longrightarrow>
      (\<exists>s' u. claim_task_with_partial_scope glob (sl_task_id x) agent l None None now s = Inr (True, s') \<and>
         get_task s' (sl_task_id x) = Some u \<and> t_status u = Claimed \<and> t_owner u = Some agent))"
proof -
  have x': "x \<in> set (stalled_work s now)" and kind: "sl_kind x = LapsedLease \<or>
      sl_kind x = StallPaused \<and> sl_stalled_seconds x > PARKING_GRACE_SECS"
    using x k by (auto simp: work_needing_rescue_def)
  obtain t where t: "get_task s (sl_task_id x) = Some t"
    and f: "stall_fact (board s True) (waits s) (deadlocked_tasks s) now t = Some (sl_kind x, sl_since x, sl_detail x)"
    and secs: "sl_stalled_seconds x = max (now - sl_since x) 0"
    by (rule stalled_fact [OF x' ledger_ok_logged [OF ok]])
  have row: "row_ok t" using ledger_ok_row [OF ok t] .
  have "PARKING_GRACE_SECS \<ge> 0" by (simp add: PARKING_GRACE_SECS_def)
  then have "t_blocked_by t = None \<and> (t_status t = Claimed \<and> sql_lt (t_lease_expires_at t) now \<or>
      t_status t = Paused \<and> sql_lt (t_parked_at t) (now - PARKING_GRACE_SECS))"
    using f kind secs row
    by (cases "t_status t")
      (auto simp: stall_fact_def row_ok_def needs_input_fact_def or_default_def split: option.splits if_splits prod.splits)
  then have guard: "claim_guard agent now t" if "\<not> (\<exists>w. t_owner t = Some w \<and> \<not> session_like w \<and> session_like agent)"
    using that by (auto simp: claim_guard_def legacy_owner_def split: option.splits)
  have "refuse_beyond_claim_limit s (sl_task_id x) agent = Inr ()"
    using room by (simp add: refuse_beyond_claim_limit_def held_claims_def Let_def)
  from unscoped_claim [OF ledger_ok_logged [OF ok] t guard this] t show ?thesis
    by (fastforce simp: claim_row_def)
qed

subsection \<open>A concrete board\<close>

text \<open>Task \<open>b\<close> waits for \<open>a\<close>, whose lease ends at time 9.\<close>

abbreviation sample_gated :: "(bool \<times> ledger) res" where
  "sample_gated \<equiv> block_task ''b'' (Some ''a'') None ''x'' 5 (imported [sample_claim ''a'' ''x'' 1 9, sample_task ''b''])"

lemma sample_gated_runs:
  "\<exists>s'. sample_gated = Inr (True, s') \<and> ledger_ok s' \<and> (\<exists>t. get_task s' ''b'' = Some t \<and> \<not> terminal t) \<and>
     map (\<lambda>x. (sl_task_id x, sl_kind x)) (work_needing_rescue s' 20) = [(''a'', LapsedLease)] \<and>
     (\<exists>x. work_needing_rescue s' 20 = [x] \<and> stalled_work s' 20 = [x])"
proof -
  let ?s = "imported [sample_claim ''a'' ''x'' 1 9, sample_task ''b'']"
  have ok: "ledger_ok ?s"
    by (rule imported_ok) (simp_all add: sample_claim_def sample_task_def row_ok_def)
  have "on_win sample_gated (\<lambda>s'.
      (case get_task s' ''b'' of None \<Rightarrow> False | Some t \<Rightarrow> \<not> terminal t) \<and>
      map (\<lambda>x. (sl_task_id x, sl_kind x)) (work_needing_rescue s' 20) = [(''a'', LapsedLease)] \<and>
      stalled_work s' 20 = work_needing_rescue s' 20)" by code_simp
  then obtain s' where r: "sample_gated = Inr (True, s')" "\<exists>t. get_task s' ''b'' = Some t \<and> \<not> terminal t"
    "map (\<lambda>x. (sl_task_id x, sl_kind x)) (work_needing_rescue s' 20) = [(''a'', LapsedLease)]"
    "stalled_work s' 20 = work_needing_rescue s' 20"
    by (auto simp: on_win_iff split: option.splits)
  moreover have "\<exists>x. work_needing_rescue s' 20 = [x]" using r(3) by (auto simp: map_eq_Cons_conv)
  ultimately show ?thesis using block.keeps_ok [OF ok r(1)] by auto
qed

theorem blocked_reports_are_live_witness:
  "\<exists>s' x. sample_gated = Inr (True, s') \<and> x \<in> set (stalled_work s' 20) \<and> sl_kind x \<noteq> BlockedByMissingTask"
proof -
  obtain s' x where "sample_gated = Inr (True, s')" "ledger_ok s'" "x \<in> set (stalled_work s' 20)"
    using sample_gated_runs by force
  with blocked_reports_are_live show ?thesis by blast
qed

lemma sample_gated_room: "sample_gated = Inr (b, s') \<Longrightarrow> length (held_claims s' ''y'') < MAX_CONCURRENT_CLAIMS"
proof -
  have "case sample_gated of Inl _ \<Rightarrow> True | Inr (_, s) \<Rightarrow> length (held_claims s ''y'') < MAX_CONCURRENT_CLAIMS" by code_simp
  then show "sample_gated = Inr (b, s') \<Longrightarrow> length (held_claims s' ''y'') < MAX_CONCURRENT_CLAIMS" by simp
qed

theorem nothing_stalls_unseen_witness:
  "\<exists>s' j u. sample_gated = Inr (True, s') \<and> (j, ''b'') \<in> (edges (s_handoffs s'))\<^sup>* \<and> get_task s' j = Some u \<and>
     t_blocked_by u = None"
proof -
  obtain s' t where r: "sample_gated = Inr (True, s')" "ledger_ok s'" "get_task s' ''b'' = Some t" "\<not> terminal t"
    using sample_gated_runs by blast
  from nothing_stalls_unseen [OF r(2-4), of 20] obtain j u where
    "(j, ''b'') \<in> (edges (s_handoffs s'))\<^sup>*" "get_task s' j = Some u" "t_blocked_by u = None" by (elim exE conjE)
  with r(1) show ?thesis by (intro exI conjI)
qed

theorem rescue_is_claimable_witness:
  "\<exists>s' x t. sample_gated = Inr (True, s') \<and> work_needing_rescue s' 20 = [x] \<and> get_task s' (sl_task_id x) = Some t \<and>
     (\<exists>s2 u. claim_task_with_partial_scope (\<lambda>_. None) (sl_task_id x) ''y'' 60 None None 20 s' = Inr (True, s2) \<and>
        get_task s2 (sl_task_id x) = Some u \<and> t_owner u = Some ''y'')"
proof -
  obtain s' x where r: "sample_gated = Inr (True, s')" "ledger_ok s'" "work_needing_rescue s' 20 = [x]"
    "map (\<lambda>x. (sl_task_id x, sl_kind x)) (work_needing_rescue s' 20) = [(''a'', LapsedLease)]"
    using sample_gated_runs by (elim exE conjE)
  then have x: "x \<in> set (work_needing_rescue s' 20)" "sl_kind x \<noteq> Deadlocked" by simp_all
  have room: "length (held_claims s' ''y'') < MAX_CONCURRENT_CLAIMS"
    using sample_gated_room r(1) by simp
  have "\<not> session_like ''y''" by code_simp
  with rescue_is_claimable [OF r(2) x room, of "\<lambda>_. None" 60] r(1,3) show ?thesis by blast
qed

end
