(* ===== verification/Signing_Bytes.thy ===== *)
theory Signing_Bytes
  imports Prelude "HOL-Library.Word"
begin

text \<open>
  Crate \<^verbatim>\<open>ackplane-protocol\<close>, the modules \<^verbatim>\<open>*_auth.rs\<close>, with \<^verbatim>\<open>envelope_signature.rs\<close> and
  \<^verbatim>\<open>enrollment.rs\<close> of the server: the exact bytes a repository node signs for every request it
  sends to Ackplane. Bytes are 8-bit words, integers keep their width, a floating point number is its
  bit pattern. A message is a domain, ended by a zero byte, and fields behind their length in four
  bytes; the interface \<open>prefix_code\<close> (an encoding that is its own delimiter) is interpreted for every
  such piece. The theorem at the end is that the bytes determine the request: a signature
  for one request verifies for no other, of the same service or of another one.
\<close>

unbundle bit_operations_syntax

type_synonym byte = "8 word"

section \<open>Bytes\<close>

definition as_bytes :: "string \<Rightarrow> byte list" where
  "as_bytes s = map of_char s"

text \<open>Rust's \<^verbatim>\<open>to_be_bytes\<close>, for every width: the most significant byte first.\<close>

definition to_be_bytes :: "'a::len word \<Rightarrow> byte list" where
  "to_be_bytes w = map (\<lambda>i. ucast (drop_bit (8 * i) w)) (rev [0..<LENGTH('a) div 8])"

definition push_field :: "byte list \<Rightarrow> byte list \<Rightarrow> byte list" where
  "push_field bytes field = bytes @ to_be_bytes (word_of_nat (length field) :: 32 word) @ field"

definition push_list :: "byte list \<Rightarrow> string list \<Rightarrow> byte list" where
  "push_list bytes items =
     foldl (\<lambda>bs item. push_field bs (as_bytes item)) (bytes @ to_be_bytes (word_of_nat (length items) :: 32 word)) items"

text \<open>One field, and a field of text.\<close>

definition field_bytes :: "byte list \<Rightarrow> byte list" where
  "field_bytes f = to_be_bytes (word_of_nat (length f) :: 32 word) @ f"

definition text_field :: "string \<Rightarrow> byte list" where
  "text_field s = field_bytes (as_bytes s)"

lemma unat_of_char [simp]: "unat (of_char c :: byte) = of_char c"
proof -
  have "unat (word_of_nat (of_char c) :: byte) = of_char c mod 256" by (simp add: unsigned_of_nat take_bit_eq_mod)
  then show ?thesis by (simp add: of_nat_of_char)
qed

lemma of_char_byte_eq [simp]: "(of_char c :: byte) = of_char d \<longleftrightarrow> c = d"
  by (metis of_char_eq_iff unat_of_char)

lemma as_bytes_eq [simp]: "as_bytes s = as_bytes t \<longleftrightarrow> s = t"
  unfolding as_bytes_def by (rule inj_map_eq_map) (simp add: inj_def)

lemma length_as_bytes [simp]: "length (as_bytes s) = length s"
  by (simp add: as_bytes_def)

lemma length_to_be_bytes [simp]: "length (to_be_bytes (w :: 'a::len word)) = LENGTH('a) div 8"
  by (simp add: to_be_bytes_def)

text \<open>The bytes of a number determine it, as its width is a whole number of bytes.\<close>

lemma to_be_bytes_inj:
  fixes v w :: "'a::len word"
  assumes "8 dvd LENGTH('a)" and "to_be_bytes v = to_be_bytes w"
  shows "v = w"
proof (rule bit_word_eqI)
  fix n assume n: "n < LENGTH('a)"
  let ?i = "n div 8"
  have "?i < LENGTH('a) div 8" using n assms(1) by (auto simp: dvd_def)
  then have "(ucast (drop_bit (8 * ?i) v) :: byte) = ucast (drop_bit (8 * ?i) w)"
    using assms(2) by (simp add: to_be_bytes_def)
  then have "bit (ucast (drop_bit (8 * ?i) v) :: byte) (n mod 8) \<longleftrightarrow> bit (ucast (drop_bit (8 * ?i) w) :: byte) (n mod 8)"
    by simp
  then show "bit v n \<longleftrightarrow> bit w n" by (simp add: bit_simps)
qed

lemma to_be_bytes_eq [simp]: "8 dvd LENGTH('a::len) \<Longrightarrow> to_be_bytes (v :: 'a word) = to_be_bytes w \<longleftrightarrow> v = w"
  using to_be_bytes_inj by blast

lemma word_of_nat_eq_small: "m < 2 ^ LENGTH('a::len) \<Longrightarrow> n < 2 ^ LENGTH('a) \<Longrightarrow> (word_of_nat m :: 'a word) = word_of_nat n \<longleftrightarrow> m = n"
  by (simp add: word_of_nat_eq_iff take_bit_nat_eq_self)

lemma length_field_bytes [simp]: "length (field_bytes f) = 4 + length f"
  by (simp add: field_bytes_def)

lemma length_text_field [simp]: "length (text_field s) = 4 + length s"
  by (simp add: text_field_def)

lemma push_field_eq: "push_field bytes f = bytes @ field_bytes f"
  by (simp add: push_field_def field_bytes_def)

lemma foldl_append: "foldl (\<lambda>bs x. bs @ h x) bytes xs = bytes @ concat (map h xs)"
  by (induction xs arbitrary: bytes) simp_all

lemma foldl_append2: "foldl (\<lambda>bs x. bs @ h x @ k x) bytes xs = bytes @ concat (map (\<lambda>x. h x @ k x) xs)"
  by (induction xs arbitrary: bytes) simp_all

lemma push_list_eq: "push_list bytes items = bytes @ to_be_bytes (word_of_nat (length items) :: 32 word) @ concat (map text_field items)"
  by (simp add: push_list_def push_field_eq foldl_append text_field_def [abs_def])

section \<open>Encodings that delimit themselves\<close>

text \<open>
  An encoding from whose bytes, with anything behind them, one value and the rest can be read: the
  interface the messages are built on. \<open>counted\<close> is a list of such values behind its length.
\<close>

locale prefix_code =
  fixes enc :: "'a \<Rightarrow> byte list" and ok :: "'a \<Rightarrow> bool"
  assumes decodes: "ok x \<Longrightarrow> ok y \<Longrightarrow> enc x @ r = enc y @ s \<Longrightarrow> x = y \<and> r = s"
begin

lemma append_eq: "ok x \<Longrightarrow> ok y \<Longrightarrow> enc x @ r = enc y @ s \<longleftrightarrow> x = y \<and> r = s"
  using decodes by blast

lemma enc_eq: "ok x \<Longrightarrow> ok y \<Longrightarrow> enc x = enc y \<longleftrightarrow> x = y"
  using append_eq [of x y "[]" "[]"] by simp

lemma repeated:
  assumes "length xs = length ys" "list_all ok xs" "list_all ok ys"
  shows "concat (map enc xs) @ r = concat (map enc ys) @ s \<longleftrightarrow> xs = ys \<and> r = s"
  using assms by (induction xs ys rule: list_induct2) (auto simp: append_eq)

end

locale counted = element: prefix_code enc ok + count: prefix_code head "\<lambda>n. n < bound"
  for enc :: "'a \<Rightarrow> byte list" and ok :: "'a \<Rightarrow> bool" and head :: "nat \<Rightarrow> byte list" and bound :: nat

sublocale counted \<subseteq> listed: prefix_code "\<lambda>xs. head (length xs) @ concat (map enc xs)" "\<lambda>xs. list_all ok xs \<and> length xs < bound"
proof
  fix xs ys r s
  assume ok: "list_all ok xs \<and> length xs < bound" "list_all ok ys \<and> length ys < bound"
    and eq: "(head (length xs) @ concat (map enc xs)) @ r = (head (length ys) @ concat (map enc ys)) @ s"
  then have "length xs = length ys" "concat (map enc xs) @ r = concat (map enc ys) @ s"
    using count.append_eq by simp_all
  with ok element.repeated show "xs = ys \<and> r = s" by blast
qed

lemma same_length_code:
  assumes "\<And>x y. length (enc x) = length (enc y)" and "\<And>x y. ok x \<Longrightarrow> ok y \<Longrightarrow> enc x = enc y \<Longrightarrow> x = y"
  shows "prefix_code enc ok"
  by unfold_locales (use assms in auto)

definition short :: "'a list \<Rightarrow> bool" where
  "short xs \<longleftrightarrow> length xs < 2 ^ 32"

interpretation be32: prefix_code "to_be_bytes :: 32 word \<Rightarrow> byte list" "\<lambda>_. True"
  by (rule same_length_code) simp_all

interpretation count32: prefix_code "\<lambda>n. to_be_bytes (word_of_nat n :: 32 word)" "\<lambda>n. n < 2 ^ 32"
  by (rule same_length_code) (simp_all add: word_of_nat_eq_small)

interpretation count64: prefix_code "\<lambda>n. field_bytes (to_be_bytes (word_of_nat n :: 64 word))" "\<lambda>n. n < 2 ^ 64"
  by (rule same_length_code) (simp_all add: field_bytes_def word_of_nat_eq_small)

interpretation field: prefix_code field_bytes short
proof
  fix f g r s assume "short f" "short g" and "field_bytes f @ r = field_bytes g @ s"
  then have "length f = length g \<and> f @ r = g @ s"
    by (simp add: field_bytes_def short_def word_of_nat_eq_small)
  then show "f = g \<and> r = s" by auto
qed

interpretation str: prefix_code text_field short
  by unfold_locales (simp add: text_field_def field.append_eq short_def)

interpretation texts: counted text_field short "\<lambda>n. to_be_bytes (word_of_nat n :: 32 word)" "2 ^ 32"
  by unfold_locales

interpretation text_fields: counted text_field short "\<lambda>n. field_bytes (to_be_bytes (word_of_nat n :: 64 word))" "2 ^ 64"
  by unfold_locales

section \<open>Authentication\<close>

text \<open>
  The proof a request carries. The messages of the services have one shape, except that of the
  enrollment status, which names a key by its fingerprint.
\<close>

record authentication =
  au_signing_key_id :: string
  au_node_id :: string
  au_signed_at :: string
  au_nonce :: "byte list"
  au_signature :: "byte list"

record status_authentication =
  sa_node_id :: string
  sa_key_fingerprint :: string
  sa_signed_at :: string
  sa_nonce :: "byte list"
  sa_signature :: "byte list"

text \<open>The six fields that start every signed request of a service.\<close>

definition push_identity :: "byte list \<Rightarrow> string \<Rightarrow> string \<Rightarrow> authentication \<Rightarrow> byte list" where
  "push_identity bytes tenant_id repository_id au = foldl push_field bytes
     [as_bytes (au_signing_key_id au), as_bytes (au_node_id au), as_bytes (au_signed_at au), au_nonce au,
      as_bytes tenant_id, as_bytes repository_id]"

text \<open>\<^verbatim>\<open>unwrap_or("")\<close>: an absent text is signed as the empty one.\<close>

definition unwrap_or_empty :: "string option \<Rightarrow> string" where
  "unwrap_or_empty x = (case x of Some s \<Rightarrow> s | None \<Rightarrow> [])"

section \<open>Claims\<close>

definition CLAIM_DOMAIN :: "byte list" where
  "CLAIM_DOMAIN = as_bytes ''mindleak.ackplane.v1.claim'' @ [0]"

datatype claim_operation =
    ClaimDelegate (cd_branch: string) (cd_lease_seconds: "64 word") (cd_paths: "string list") (cd_symbols: "string list")
  | ClaimRenew "64 word"
  | ClaimRelease
  | ClaimRecover (cr_expected_owner: string) (cr_branch: string) (cr_lease_seconds: "64 word")
      (cr_paths: "string list") (cr_symbols: "string list") (cr_reason: string)
  | ClaimPark
  | ClaimAnswer "64 word"

fun claim_tag :: "claim_operation \<Rightarrow> string" where
  "claim_tag (ClaimDelegate _ _ _ _) = ''delegate''"
| "claim_tag (ClaimRenew _) = ''renew''"
| "claim_tag ClaimRelease = ''release''"
| "claim_tag (ClaimRecover _ _ _ _ _ _) = ''recover''"
| "claim_tag ClaimPark = ''park''"
| "claim_tag (ClaimAnswer _) = ''answer''"

definition claim_push_fields :: "claim_operation \<Rightarrow> byte list \<Rightarrow> byte list" where
  "claim_push_fields op bytes = (
     let bytes = push_field bytes (as_bytes (claim_tag op)) in
     case op of
       ClaimDelegate branch lease paths symbols \<Rightarrow>
         push_list (push_list (push_field (push_field bytes (as_bytes branch)) (to_be_bytes lease)) paths) symbols
     | ClaimRenew lease \<Rightarrow> push_field bytes (to_be_bytes lease)
     | ClaimRelease \<Rightarrow> bytes
     | ClaimRecover expected branch lease paths symbols reason \<Rightarrow>
         push_field (push_list (push_list (push_field (push_field (push_field bytes (as_bytes expected))
           (as_bytes branch)) (to_be_bytes lease)) paths) symbols) (as_bytes reason)
     | ClaimPark \<Rightarrow> bytes
     | ClaimAnswer lease \<Rightarrow> push_field bytes (to_be_bytes lease))"

definition claim_signing_bytes ::
  "string \<Rightarrow> string \<Rightarrow> string \<Rightarrow> string \<Rightarrow> claim_operation \<Rightarrow> authentication \<Rightarrow> byte list" where
  "claim_signing_bytes tenant_id repository_id task_id owner_id op au =
     claim_push_fields op (foldl push_field CLAIM_DOMAIN
       [as_bytes (au_signing_key_id au), as_bytes (au_node_id au), as_bytes (au_signed_at au), au_nonce au,
        as_bytes tenant_id, as_bytes repository_id, as_bytes task_id, as_bytes owner_id])"

section \<open>Knowledge\<close>

definition KNOWLEDGE_DOMAIN :: "byte list" where
  "KNOWLEDGE_DOMAIN = as_bytes ''mindleak.ackplane.v1.knowledge'' @ [0]"

datatype knowledge_operation =
    KnowledgeRecord string "string option" "string list" "string option" "64 word" "string option"
  | KnowledgeRecall bool "32 word"
  | KnowledgeHistory "32 word"
  | KnowledgeReconfirm string string
  | KnowledgeRetire string string

fun knowledge_tag :: "knowledge_operation \<Rightarrow> string" where
  "knowledge_tag (KnowledgeRecord _ _ _ _ _ _) = ''record''"
| "knowledge_tag (KnowledgeRecall _ _) = ''recall''"
| "knowledge_tag (KnowledgeHistory _) = ''history''"
| "knowledge_tag (KnowledgeReconfirm _ _) = ''reconfirm''"
| "knowledge_tag (KnowledgeRetire _ _) = ''retire''"

text \<open>The count is \<^verbatim>\<open>u64::try_from(len).unwrap_or(u64::MAX)\<close>.\<close>

definition knowledge_push_fields :: "knowledge_operation \<Rightarrow> byte list \<Rightarrow> byte list" where
  "knowledge_push_fields op bytes = (
     let bytes = push_field bytes (as_bytes (knowledge_tag op)) in
     case op of
       KnowledgeRecord content source_ref reach_node_ids reach_goal_id half_life_hours embedding_model \<Rightarrow>
         let reach_count = (if length reach_node_ids < 2 ^ 64 then word_of_nat (length reach_node_ids) else - 1 :: 64 word);
             bytes = push_field (push_field bytes (as_bytes content)) (as_bytes (unwrap_or_empty source_ref));
             bytes = foldl (\<lambda>bs i. push_field bs (as_bytes i)) (push_field bytes (to_be_bytes reach_count)) reach_node_ids
         in push_field (push_field (push_field bytes (as_bytes (unwrap_or_empty reach_goal_id)))
              (to_be_bytes half_life_hours)) (as_bytes (unwrap_or_empty embedding_model))
     | KnowledgeRecall present limit \<Rightarrow> push_field (push_field bytes [of_bool present]) (to_be_bytes limit)
     | KnowledgeHistory limit \<Rightarrow> push_field bytes (to_be_bytes limit)
     | KnowledgeReconfirm knowledge_id evidence_ref \<Rightarrow>
         push_field (push_field bytes (as_bytes knowledge_id)) (as_bytes evidence_ref)
     | KnowledgeRetire knowledge_id reason \<Rightarrow>
         push_field (push_field bytes (as_bytes knowledge_id)) (as_bytes reason))"

definition knowledge_signing_bytes :: "string \<Rightarrow> string \<Rightarrow> knowledge_operation \<Rightarrow> authentication \<Rightarrow> byte list" where
  "knowledge_signing_bytes tenant_id repository_id op au =
     knowledge_push_fields op (push_identity KNOWLEDGE_DOMAIN tenant_id repository_id au)"

section \<open>Evidence\<close>

definition EVIDENCE_DOMAIN :: "byte list" where
  "EVIDENCE_DOMAIN = as_bytes ''mindleak.ackplane.v1.evidence'' @ [0]"

datatype evidence_operation =
    EvidenceRecord string "32 word" string "byte list" string string string string
  | EvidenceList string "32 word" "string option" "string option"
  | EvidenceRecordConformance string string "32 word" "32 word" "byte list" "32 word list" string string string
  | EvidenceListConformance string "32 word" "string option" "string option"

fun evidence_tag :: "evidence_operation \<Rightarrow> string" where
  "evidence_tag (EvidenceRecord _ _ _ _ _ _ _ _) = ''record''"
| "evidence_tag (EvidenceList _ _ _ _) = ''list''"
| "evidence_tag (EvidenceRecordConformance _ _ _ _ _ _ _ _ _) = ''record_conformance''"
| "evidence_tag (EvidenceListConformance _ _ _ _) = ''list_conformance''"

definition push_i32_list :: "byte list \<Rightarrow> 32 word list \<Rightarrow> byte list" where
  "push_i32_list bytes items = (
     let count = (if length items < 2 ^ 32 then word_of_nat (length items) else - 1 :: 32 word)
     in foldl (\<lambda>bs item. push_field bs (to_be_bytes item)) (push_field bytes (to_be_bytes count)) items)"

definition evidence_push_fields :: "evidence_operation \<Rightarrow> byte list \<Rightarrow> byte list" where
  "evidence_push_fields op bytes = (
     let bytes = push_field bytes (as_bytes (evidence_tag op)) in
     case op of
       EvidenceRecord task_id evidence_kind source_ref content_digest observed_at session_id idempotency_key version \<Rightarrow>
         foldl push_field bytes [as_bytes task_id, to_be_bytes evidence_kind, as_bytes source_ref, content_digest,
           as_bytes observed_at, as_bytes session_id, as_bytes idempotency_key, as_bytes version]
     | EvidenceList task_id limit before_at before_id \<Rightarrow>
         foldl push_field bytes [as_bytes task_id, to_be_bytes limit, as_bytes (unwrap_or_empty before_at),
           as_bytes (unwrap_or_empty before_id)]
     | EvidenceRecordConformance task_id evidence_id verdict finding_count findings_digest finding_codes checked_at idempotency_key version \<Rightarrow>
         foldl push_field
           (push_i32_list (foldl push_field bytes [as_bytes task_id, as_bytes evidence_id, to_be_bytes verdict,
              to_be_bytes finding_count, findings_digest]) finding_codes)
           [as_bytes checked_at, as_bytes idempotency_key, as_bytes version]
     | EvidenceListConformance task_id limit before_at before_id \<Rightarrow>
         foldl push_field bytes [as_bytes task_id, to_be_bytes limit, as_bytes (unwrap_or_empty before_at),
           as_bytes (unwrap_or_empty before_id)])"

definition evidence_signing_bytes :: "string \<Rightarrow> string \<Rightarrow> evidence_operation \<Rightarrow> authentication \<Rightarrow> byte list" where
  "evidence_signing_bytes tenant_id repository_id op au =
     evidence_push_fields op (push_identity EVIDENCE_DOMAIN tenant_id repository_id au)"

section \<open>Projection embeddings\<close>

definition PROJECTION_EMBEDDING_DOMAIN :: "byte list" where
  "PROJECTION_EMBEDDING_DOMAIN = as_bytes ''mindleak.ackplane.v1.projection-embedding'' @ [0]"

definition MAX_EMBEDDING_LIST_LIMIT :: "32 word" where
  "MAX_EMBEDDING_LIST_LIMIT = 100"

record embedding_source =
  es_node_id :: string
  es_label :: string

datatype embedding_operation =
    EmbeddingListMissing string "32 word"
  | EmbeddingPublish embedding_source string "32 word list"
  | EmbeddingRecall string "32 word list" "32 word" "32 word"

text \<open>
  \<^verbatim>\<open>is_finite\<close>, \<open>!= 0.0\<close> and membership in \<open>0.0..=1.0\<close> of an \<^verbatim>\<open>f32\<close> on its bits: the exponent is not all
  ones, anything but the sign is set, and the value is a zero of either sign or positive and at most one.
\<close>

definition f32_is_finite :: "32 word \<Rightarrow> bool" where
  "f32_is_finite x \<longleftrightarrow> x AND 0x7F800000 \<noteq> 0x7F800000"

definition f32_nonzero :: "32 word \<Rightarrow> bool" where
  "f32_nonzero x \<longleftrightarrow> x AND 0x7FFFFFFF \<noteq> 0"

definition f32_in_unit :: "32 word \<Rightarrow> bool" where
  "f32_in_unit x \<longleftrightarrow> x \<le> 0x3F800000 \<or> x = 0x80000000"

definition validate_source :: "embedding_source \<Rightarrow> string + unit" where
  "validate_source src = (
     if blank (es_node_id src) \<or> length (es_node_id src) > 2048 then Inl ''source node_id must contain 1 to 2048 bytes''
     else if length (es_label src) > 4096 then Inl ''source label must not exceed 4096 bytes''
     else Inr ())"

definition validate_vector :: "32 word list \<Rightarrow> string + unit" where
  "validate_vector v = (
     if length v \<noteq> 768 \<or> list_ex (\<lambda>x. \<not> f32_is_finite x) v \<or> \<not> list_ex f32_nonzero v
     then Inl ''embedding must contain 768 finite components and be nonzero'' else Inr ())"

definition validate_model :: "string \<Rightarrow> string + unit" where
  "validate_model model = (
     if blank model \<or> length model > 128 then Inl ''model must contain 1 to 128 bytes'' else Inr ())"

fun validate_embedding_operation :: "embedding_operation \<Rightarrow> string + unit" where
  "validate_embedding_operation (EmbeddingListMissing model limit) =
     (if limit > MAX_EMBEDDING_LIST_LIMIT then Inl ''limit must not exceed 100'' else validate_model model)"
| "validate_embedding_operation (EmbeddingPublish src model embedding) =
     and_then (validate_source src) (\<lambda>_. and_then (validate_vector embedding) (\<lambda>_. validate_model model))"
| "validate_embedding_operation (EmbeddingRecall model query floor limit) =
     (if limit > 100 \<or> \<not> f32_is_finite floor \<or> \<not> f32_in_unit floor
      then Inl ''recall limit must not exceed 100 and floor must be between 0 and 1''
      else if query \<noteq> [] then and_then (validate_vector query) (\<lambda>_. validate_model model)
      else validate_model model)"

definition push_vector :: "byte list \<Rightarrow> 32 word list \<Rightarrow> byte list" where
  "push_vector bytes v =
     foldl (\<lambda>bs x. push_field bs (to_be_bytes x)) (push_field bytes (to_be_bytes (word_of_nat (length v) :: 64 word))) v"

definition embedding_push_fields :: "embedding_operation \<Rightarrow> byte list \<Rightarrow> byte list" where
  "embedding_push_fields op bytes = (case op of
       EmbeddingListMissing model limit \<Rightarrow>
         foldl push_field bytes [as_bytes ''list_missing'', as_bytes model, to_be_bytes limit]
     | EmbeddingPublish src model embedding \<Rightarrow>
         push_vector (foldl push_field bytes [as_bytes ''publish'', as_bytes (es_node_id src), as_bytes (es_label src),
           as_bytes model]) embedding
     | EmbeddingRecall model query floor limit \<Rightarrow>
         foldl push_field (push_vector (foldl push_field bytes [as_bytes ''recall'', as_bytes model]) query)
           [to_be_bytes floor, to_be_bytes limit])"

definition projection_embedding_signing_bytes ::
  "string \<Rightarrow> string \<Rightarrow> embedding_operation \<Rightarrow> authentication \<Rightarrow> byte list" where
  "projection_embedding_signing_bytes tenant_id repository_id op au =
     embedding_push_fields op (push_identity PROJECTION_EMBEDDING_DOMAIN tenant_id repository_id au)"

section \<open>Purge and recovery\<close>

definition LIFECYCLE_PURGE_DOMAIN :: "byte list" where
  "LIFECYCLE_PURGE_DOMAIN = as_bytes ''mindleak.ackplane.v1.lifecycle-purge'' @ [0]"

definition RECOVERY_EXECUTION_DOMAIN :: "byte list" where
  "RECOVERY_EXECUTION_DOMAIN = as_bytes ''mindleak.ackplane.v1.recovery-execution'' @ [0]"

datatype purge_operation =
    PurgePreview string string "64 word" "64 word" string
  | PurgeConfirm string

fun purge_tag :: "purge_operation \<Rightarrow> string" where
  "purge_tag (PurgePreview _ _ _ _ _) = ''preview''"
| "purge_tag (PurgeConfirm _) = ''confirm''"

definition purge_push_fields :: "purge_operation \<Rightarrow> byte list \<Rightarrow> byte list" where
  "purge_push_fields op bytes = (
     let bytes = push_field bytes (as_bytes (purge_tag op)) in
     case op of
       PurgePreview policy_id data_category older_than window idempotency_key \<Rightarrow>
         foldl push_field bytes [as_bytes policy_id, as_bytes data_category, to_be_bytes older_than,
           to_be_bytes window, as_bytes idempotency_key]
     | PurgeConfirm request_id \<Rightarrow> push_field bytes (as_bytes request_id))"

definition lifecycle_purge_signing_bytes :: "string \<Rightarrow> string \<Rightarrow> purge_operation \<Rightarrow> authentication \<Rightarrow> byte list" where
  "lifecycle_purge_signing_bytes tenant_id repository_id op au =
     purge_push_fields op (push_identity LIFECYCLE_PURGE_DOMAIN tenant_id repository_id au)"

datatype recovery_operation =
    RecoveryPreview string "byte list" string string "64 word" string
  | RecoveryConfirm string

fun recovery_tag :: "recovery_operation \<Rightarrow> string" where
  "recovery_tag (RecoveryPreview _ _ _ _ _ _) = ''preview''"
| "recovery_tag (RecoveryConfirm _) = ''confirm''"

definition recovery_push_fields :: "recovery_operation \<Rightarrow> byte list \<Rightarrow> byte list" where
  "recovery_push_fields op bytes = (
     let bytes = push_field bytes (as_bytes (recovery_tag op)) in
     case op of
       RecoveryPreview artifact_request_id manifest_digest safety_key rehearsal_id window idempotency_key \<Rightarrow>
         foldl push_field bytes [as_bytes artifact_request_id, manifest_digest, as_bytes safety_key,
           as_bytes rehearsal_id, to_be_bytes window, as_bytes idempotency_key]
     | RecoveryConfirm request_id \<Rightarrow> push_field bytes (as_bytes request_id))"

definition recovery_execution_signing_bytes :: "string \<Rightarrow> string \<Rightarrow> recovery_operation \<Rightarrow> authentication \<Rightarrow> byte list" where
  "recovery_execution_signing_bytes tenant_id repository_id op au =
     recovery_push_fields op (push_identity RECOVERY_EXECUTION_DOMAIN tenant_id repository_id au)"

section \<open>Telemetry\<close>

definition TELEMETRY_DOMAIN :: "byte list" where
  "TELEMETRY_DOMAIN = as_bytes ''mindleak.ackplane.v1.telemetry'' @ [0]"

record measurement =
  ms_name :: string
  ms_value :: "64 word"

datatype telemetry_operation =
    TelemetryRecord "string option" "32 word" string "32 word" "64 word" string "measurement list"
  | TelemetryRead "32 word" "string option" "32 word" "32 word"

fun telemetry_tag :: "telemetry_operation \<Rightarrow> string" where
  "telemetry_tag (TelemetryRecord _ _ _ _ _ _ _) = ''record''"
| "telemetry_tag (TelemetryRead _ _ _ _) = ''read''"

definition telemetry_push_fields :: "telemetry_operation \<Rightarrow> byte list \<Rightarrow> byte list" where
  "telemetry_push_fields op bytes = (
     let bytes = push_field bytes (as_bytes (telemetry_tag op)) in
     case op of
       TelemetryRecord session_id kind name outcome duration_ms occurred_at measurements \<Rightarrow>
         foldl (\<lambda>bs m. push_field (push_field bs (as_bytes (ms_name m))) (to_be_bytes (ms_value m)))
           (foldl push_field bytes [as_bytes (unwrap_or_empty session_id), to_be_bytes kind, as_bytes name,
              to_be_bytes outcome, to_be_bytes duration_ms, as_bytes occurred_at,
              to_be_bytes (word_of_nat (length measurements) :: 64 word)])
           measurements
     | TelemetryRead kind name bucket_seconds max_points \<Rightarrow>
         foldl push_field bytes [to_be_bytes kind, as_bytes (unwrap_or_empty name), to_be_bytes bucket_seconds,
           to_be_bytes max_points])"

definition telemetry_signing_bytes :: "string \<Rightarrow> string \<Rightarrow> telemetry_operation \<Rightarrow> authentication \<Rightarrow> byte list" where
  "telemetry_signing_bytes tenant_id repository_id op au =
     telemetry_push_fields op (push_identity TELEMETRY_DOMAIN tenant_id repository_id au)"

section \<open>Constitutions\<close>

definition CONSTITUTION_DOMAIN :: "byte list" where
  "CONSTITUTION_DOMAIN = as_bytes ''mindleak.ackplane.v1.constitution'' @ [0]"

datatype constitution_operation_request =
    ConstitutionPublish string "32 word" string "32 word"
  | ConstitutionGetActive

fun constitution_tag :: "constitution_operation_request \<Rightarrow> string" where
  "constitution_tag (ConstitutionPublish _ _ _ _) = ''publish''"
| "constitution_tag ConstitutionGetActive = ''get_active''"

definition constitution_push_fields :: "constitution_operation_request \<Rightarrow> byte list \<Rightarrow> byte list" where
  "constitution_push_fields op bytes = (
     let bytes = push_field bytes (as_bytes (constitution_tag op)) in
     case op of
       ConstitutionPublish version_id version status clause_count \<Rightarrow>
         foldl push_field bytes [as_bytes version_id, to_be_bytes version, as_bytes status, to_be_bytes clause_count]
     | ConstitutionGetActive \<Rightarrow> bytes)"

definition constitution_signing_bytes ::
  "string \<Rightarrow> string \<Rightarrow> constitution_operation_request \<Rightarrow> authentication \<Rightarrow> byte list" where
  "constitution_signing_bytes tenant_id repository_id op au =
     constitution_push_fields op (push_identity CONSTITUTION_DOMAIN tenant_id repository_id au)"

section \<open>Enrollment and the event stream\<close>

definition ENROLLMENT_STATUS_DOMAIN :: "byte list" where
  "ENROLLMENT_STATUS_DOMAIN = as_bytes ''mindleak.ackplane.v1.enrollment_status'' @ [0]"

definition enrollment_status_signing_bytes :: "string \<Rightarrow> string \<Rightarrow> status_authentication \<Rightarrow> byte list" where
  "enrollment_status_signing_bytes tenant_id repository_id au = push_field
     (foldl push_field ENROLLMENT_STATUS_DOMAIN
       [as_bytes (sa_node_id au), as_bytes (sa_key_fingerprint au), as_bytes (sa_signed_at au), sa_nonce au,
        as_bytes tenant_id, as_bytes repository_id])
     (as_bytes ''check'')"

definition CONNECTION_DOMAIN :: "byte list" where
  "CONNECTION_DOMAIN = as_bytes ''mindleak.ackplane.v1.node_sync.connection'' @ [0]"

record connection_binding =
  cb_nonce :: "byte list"
  cb_tenant_id :: string
  cb_repository_id :: string
  cb_producer_id :: string
  cb_signing_key_id :: string

definition connection_challenge_bytes :: "connection_binding \<Rightarrow> byte list" where
  "connection_challenge_bytes b = foldl push_field CONNECTION_DOMAIN
     [cb_nonce b, as_bytes (cb_tenant_id b), as_bytes (cb_repository_id b), as_bytes (cb_producer_id b),
      as_bytes (cb_signing_key_id b)]"

definition ACTIVATION_DOMAIN :: "byte list" where
  "ACTIVATION_DOMAIN = as_bytes ''mindleak.ackplane.v1.enrollment.activation'' @ [0]"

record activation_binding =
  ab_nonce :: "byte list"
  ab_request_id :: string
  ab_tenant_id :: string
  ab_repository_id :: string
  ab_node_id :: string
  ab_public_key_fingerprint :: string

definition activation_challenge_bytes :: "activation_binding \<Rightarrow> byte list" where
  "activation_challenge_bytes b = foldl push_field ACTIVATION_DOMAIN
     [ab_nonce b, as_bytes (ab_request_id b), as_bytes (ab_tenant_id b), as_bytes (ab_repository_id b),
      as_bytes (ab_node_id b), as_bytes (ab_public_key_fingerprint b)]"

definition KEY_ROTATION_DOMAIN :: "byte list" where
  "KEY_ROTATION_DOMAIN = as_bytes ''mindleak.ackplane.v1.enrollment.key_rotation'' @ [0]"

record key_rotation_statement =
  kr_tenant_id :: string
  kr_repository_id :: string
  kr_node_id :: string
  kr_current_key_id :: string
  kr_successor_key_id :: string
  kr_successor_public_key_fingerprint :: string
  kr_successor_public_key :: "byte list"
  kr_requested_overlap_seconds :: "64 word"

definition key_rotation_bytes :: "key_rotation_statement \<Rightarrow> byte list" where
  "key_rotation_bytes k = foldl push_field KEY_ROTATION_DOMAIN
     [as_bytes (kr_tenant_id k), as_bytes (kr_repository_id k), as_bytes (kr_node_id k), as_bytes (kr_current_key_id k),
      as_bytes (kr_successor_key_id k), as_bytes (kr_successor_public_key_fingerprint k), kr_successor_public_key k]
     @ to_be_bytes (kr_requested_overlap_seconds k)"

definition ENVELOPE_DOMAIN :: "byte list" where
  "ENVELOPE_DOMAIN = as_bytes ''mindleak.ackplane.v1.envelope'' @ [0]"

record event_envelope =
  ee_tenant_id :: string
  ee_repository_id :: string
  ee_producer_id :: string
  ee_producer_sequence :: "64 word"
  ee_payload :: "byte list"
  ee_payload_digest :: "byte list"
  ee_schema_version :: string
  ee_occurred_at :: string
  ee_payload_type :: string
  ee_previous_envelope_digest :: "byte list"
  ee_signing_key_id :: string
  ee_signature :: "byte list"
  ee_provenance :: int

definition envelope_signing_bytes :: "event_envelope \<Rightarrow> byte list" where
  "envelope_signing_bytes w = foldl push_field ENVELOPE_DOMAIN
     [as_bytes (ee_schema_version w), as_bytes (ee_tenant_id w), as_bytes (ee_repository_id w), as_bytes (ee_producer_id w),
      to_be_bytes (ee_producer_sequence w), as_bytes (ee_occurred_at w), as_bytes (ee_payload_type w),
      ee_payload_digest w, ee_previous_envelope_digest w, as_bytes (ee_signing_key_id w)]"

section \<open>The bytes determine the request\<close>

lemma push_identity_eq: "push_identity bytes t r au = bytes @ text_field (au_signing_key_id au) @ text_field (au_node_id au) @
    text_field (au_signed_at au) @ field_bytes (au_nonce au) @ text_field t @ text_field r"
  by (simp add: push_identity_def push_field_eq text_field_def)

lemma short_nil [simp]: "short []"
  by (simp add: short_def)

lemma short_be [simp]: "short (to_be_bytes (w :: 32 word))" "short (to_be_bytes (v :: 64 word))"
  by (simp_all add: short_def)

lemma short_append: "short (xs @ ys) \<Longrightarrow> short xs \<and> short ys"
  by (simp add: short_def)

lemma short_fields [dest]: "short (field_bytes f) \<Longrightarrow> short f" "short (text_field s) \<Longrightarrow> short s"
  by (simp_all add: short_def)

lemma short_concat:
  assumes "short (concat (map enc xs))" and "\<And>x. x \<in> set xs \<Longrightarrow> 0 < length (enc x)"
  shows "length xs < 2 ^ 32 \<and> list_all (\<lambda>x. short (enc x)) xs"
proof -
  have "length xs \<le> length (concat (map enc xs)) \<and> (\<forall>x \<in> set xs. length (enc x) \<le> length (concat (map enc xs)))"
    using assms(2)
  proof (induction xs)
    case (Cons x xs)
    have "0 < length (enc x)" using Cons.prems by simp
    moreover have ih: "length xs \<le> length (concat (map enc xs))" "\<forall>x \<in> set xs. length (enc x) \<le> length (concat (map enc xs))"
      using Cons by simp_all
    ultimately have "Suc (length xs) \<le> length (enc x) + length (concat (map enc xs))" by linarith
    with ih(2) show ?case by (auto intro: trans_le_add2)
  qed simp
  with assms(1) show ?thesis by (auto simp: short_def list_all_iff)
qed

lemma short_texts: "short (concat (map text_field xs)) \<Longrightarrow> list_all short xs \<and> length xs < 2 ^ 32"
  using short_concat [of text_field xs] by (auto simp: list_all_iff)

lemma short_tags [simp]: "short s \<longleftrightarrow> True" if "length s < 100" for s :: string
  using that by (simp add: short_def)

lemma until_zero: "0 \<notin> set d \<Longrightarrow> 0 \<notin> set e \<Longrightarrow> d @ 0 # r = e @ 0 # s \<longleftrightarrow> d = e \<and> r = s" for d e :: "byte list"
  by (induction d arbitrary: e) (case_tac e; auto)+

text \<open>What every signer can ask for.\<close>

datatype signed_request =
    ClaimRequest string string string string claim_operation authentication
  | KnowledgeRequest string string knowledge_operation authentication
  | EvidenceRequest string string evidence_operation authentication
  | EmbeddingRequest string string embedding_operation authentication
  | PurgeRequest string string purge_operation authentication
  | RecoveryRequest string string recovery_operation authentication
  | TelemetryRequest string string telemetry_operation authentication
  | ConstitutionRequest string string constitution_operation_request authentication
  | EnrollmentStatus string string status_authentication
  | ConnectionChallenge connection_binding
  | Activation activation_binding
  | KeyRotation key_rotation_statement
  | Envelope event_envelope

fun signed_bytes :: "signed_request \<Rightarrow> byte list" where
  "signed_bytes (ClaimRequest t r k w op au) = claim_signing_bytes t r k w op au"
| "signed_bytes (KnowledgeRequest t r op au) = knowledge_signing_bytes t r op au"
| "signed_bytes (EvidenceRequest t r op au) = evidence_signing_bytes t r op au"
| "signed_bytes (EmbeddingRequest t r op au) = projection_embedding_signing_bytes t r op au"
| "signed_bytes (PurgeRequest t r op au) = lifecycle_purge_signing_bytes t r op au"
| "signed_bytes (RecoveryRequest t r op au) = recovery_execution_signing_bytes t r op au"
| "signed_bytes (TelemetryRequest t r op au) = telemetry_signing_bytes t r op au"
| "signed_bytes (ConstitutionRequest t r op au) = constitution_signing_bytes t r op au"
| "signed_bytes (EnrollmentStatus t r au) = enrollment_status_signing_bytes t r au"
| "signed_bytes (ConnectionChallenge b) = connection_challenge_bytes b"
| "signed_bytes (Activation b) = activation_challenge_bytes b"
| "signed_bytes (KeyRotation k) = key_rotation_bytes k"
| "signed_bytes (Envelope w) = envelope_signing_bytes w"

text \<open>What the signature is silent about: itself, whether an empty text was given or absent, and the
  payload and the declared provenance of an event.\<close>

definition present :: "string option \<Rightarrow> string option" where
  "present x = Some (unwrap_or_empty x)"

fun bound_knowledge :: "knowledge_operation \<Rightarrow> knowledge_operation" where
  "bound_knowledge (KnowledgeRecord c s ns g h m) = KnowledgeRecord c (present s) ns (present g) h (present m)"
| "bound_knowledge op = op"

fun bound_evidence :: "evidence_operation \<Rightarrow> evidence_operation" where
  "bound_evidence (EvidenceList t l a i) = EvidenceList t l (present a) (present i)"
| "bound_evidence (EvidenceListConformance t l a i) = EvidenceListConformance t l (present a) (present i)"
| "bound_evidence op = op"

fun bound_telemetry :: "telemetry_operation \<Rightarrow> telemetry_operation" where
  "bound_telemetry (TelemetryRecord s k n u d t ms) = TelemetryRecord (present s) k n u d t ms"
| "bound_telemetry (TelemetryRead k n b p) = TelemetryRead k (present n) b p"

fun bound_request :: "signed_request \<Rightarrow> signed_request" where
  "bound_request (ClaimRequest t r k w op au) = ClaimRequest t r k w op (au\<lparr>au_signature := []\<rparr>)"
| "bound_request (KnowledgeRequest t r op au) = KnowledgeRequest t r (bound_knowledge op) (au\<lparr>au_signature := []\<rparr>)"
| "bound_request (EvidenceRequest t r op au) = EvidenceRequest t r (bound_evidence op) (au\<lparr>au_signature := []\<rparr>)"
| "bound_request (EmbeddingRequest t r op au) = EmbeddingRequest t r op (au\<lparr>au_signature := []\<rparr>)"
| "bound_request (PurgeRequest t r op au) = PurgeRequest t r op (au\<lparr>au_signature := []\<rparr>)"
| "bound_request (RecoveryRequest t r op au) = RecoveryRequest t r op (au\<lparr>au_signature := []\<rparr>)"
| "bound_request (TelemetryRequest t r op au) = TelemetryRequest t r (bound_telemetry op) (au\<lparr>au_signature := []\<rparr>)"
| "bound_request (ConstitutionRequest t r op au) = ConstitutionRequest t r op (au\<lparr>au_signature := []\<rparr>)"
| "bound_request (EnrollmentStatus t r au) = EnrollmentStatus t r (au\<lparr>sa_signature := []\<rparr>)"
| "bound_request (Envelope w) = Envelope (w\<lparr>ee_payload := [], ee_signature := [], ee_provenance := 0\<rparr>)"
| "bound_request m = m"

text \<open>Every message is its domain and what follows it, and no domain starts another.\<close>

fun domain_of :: "signed_request \<Rightarrow> string" where
  "domain_of (ClaimRequest t r k w op au) = ''mindleak.ackplane.v1.claim''"
| "domain_of (KnowledgeRequest t r op au) = ''mindleak.ackplane.v1.knowledge''"
| "domain_of (EvidenceRequest t r op au) = ''mindleak.ackplane.v1.evidence''"
| "domain_of (EmbeddingRequest t r op au) = ''mindleak.ackplane.v1.projection-embedding''"
| "domain_of (PurgeRequest t r op au) = ''mindleak.ackplane.v1.lifecycle-purge''"
| "domain_of (RecoveryRequest t r op au) = ''mindleak.ackplane.v1.recovery-execution''"
| "domain_of (TelemetryRequest t r op au) = ''mindleak.ackplane.v1.telemetry''"
| "domain_of (ConstitutionRequest t r op au) = ''mindleak.ackplane.v1.constitution''"
| "domain_of (EnrollmentStatus t r au) = ''mindleak.ackplane.v1.enrollment_status''"
| "domain_of (ConnectionChallenge b) = ''mindleak.ackplane.v1.node_sync.connection''"
| "domain_of (Activation b) = ''mindleak.ackplane.v1.enrollment.activation''"
| "domain_of (KeyRotation k) = ''mindleak.ackplane.v1.enrollment.key_rotation''"
| "domain_of (Envelope w) = ''mindleak.ackplane.v1.envelope''"

fun body_of :: "signed_request \<Rightarrow> byte list" where
  "body_of (ClaimRequest t r k w op au) = push_identity [] t r au @ text_field k @ text_field w @ claim_push_fields op []"
| "body_of (KnowledgeRequest t r op au) = push_identity [] t r au @ knowledge_push_fields op []"
| "body_of (EvidenceRequest t r op au) = push_identity [] t r au @ evidence_push_fields op []"
| "body_of (EmbeddingRequest t r op au) = push_identity [] t r au @ embedding_push_fields op []"
| "body_of (PurgeRequest t r op au) = push_identity [] t r au @ purge_push_fields op []"
| "body_of (RecoveryRequest t r op au) = push_identity [] t r au @ recovery_push_fields op []"
| "body_of (TelemetryRequest t r op au) = push_identity [] t r au @ telemetry_push_fields op []"
| "body_of (ConstitutionRequest t r op au) = push_identity [] t r au @ constitution_push_fields op []"
| "body_of (EnrollmentStatus t r au) = text_field (sa_node_id au) @ text_field (sa_key_fingerprint au) @
     text_field (sa_signed_at au) @ field_bytes (sa_nonce au) @ text_field t @ text_field r @ text_field ''check''"
| "body_of (ConnectionChallenge b) = field_bytes (cb_nonce b) @ text_field (cb_tenant_id b) @
     text_field (cb_repository_id b) @ text_field (cb_producer_id b) @ text_field (cb_signing_key_id b)"
| "body_of (Activation b) = field_bytes (ab_nonce b) @ text_field (ab_request_id b) @ text_field (ab_tenant_id b) @
     text_field (ab_repository_id b) @ text_field (ab_node_id b) @ text_field (ab_public_key_fingerprint b)"
| "body_of (KeyRotation k) = text_field (kr_tenant_id k) @ text_field (kr_repository_id k) @ text_field (kr_node_id k) @
     text_field (kr_current_key_id k) @ text_field (kr_successor_key_id k) @
     text_field (kr_successor_public_key_fingerprint k) @ field_bytes (kr_successor_public_key k) @
     to_be_bytes (kr_requested_overlap_seconds k)"
| "body_of (Envelope w) = text_field (ee_schema_version w) @ text_field (ee_tenant_id w) @ text_field (ee_repository_id w) @
     text_field (ee_producer_id w) @ field_bytes (to_be_bytes (ee_producer_sequence w)) @ text_field (ee_occurred_at w) @
     text_field (ee_payload_type w) @ field_bytes (ee_payload_digest w) @ field_bytes (ee_previous_envelope_digest w) @
     text_field (ee_signing_key_id w)"

lemmas push_defs = claim_push_fields_def knowledge_push_fields_def evidence_push_fields_def embedding_push_fields_def
  purge_push_fields_def recovery_push_fields_def telemetry_push_fields_def constitution_push_fields_def push_vector_def
  push_i32_list_def push_list_eq push_field_eq foldl_append foldl_append2 Let_def

lemma push_fields_eqs:
  "claim_push_fields o1 bytes = bytes @ claim_push_fields o1 []"
  "knowledge_push_fields o2 bytes = bytes @ knowledge_push_fields o2 []"
  "evidence_push_fields o3 bytes = bytes @ evidence_push_fields o3 []"
  "embedding_push_fields o4 bytes = bytes @ embedding_push_fields o4 []"
  "purge_push_fields o5 bytes = bytes @ purge_push_fields o5 []"
  "recovery_push_fields o6 bytes = bytes @ recovery_push_fields o6 []"
  "telemetry_push_fields o7 bytes = bytes @ telemetry_push_fields o7 []"
  "constitution_push_fields o8 bytes = bytes @ constitution_push_fields o8 []"
  by (simp_all add: push_defs split: claim_operation.split knowledge_operation.split evidence_operation.split
      embedding_operation.split purge_operation.split recovery_operation.split telemetry_operation.split
      constitution_operation_request.split)

lemma signed_bytes_split: "signed_bytes m = as_bytes (domain_of m) @ 0 # body_of m"
  by (cases m) (simp_all add: claim_signing_bytes_def knowledge_signing_bytes_def evidence_signing_bytes_def
      projection_embedding_signing_bytes_def lifecycle_purge_signing_bytes_def recovery_execution_signing_bytes_def
      telemetry_signing_bytes_def constitution_signing_bytes_def enrollment_status_signing_bytes_def
      connection_challenge_bytes_def activation_challenge_bytes_def key_rotation_bytes_def envelope_signing_bytes_def
      CLAIM_DOMAIN_def KNOWLEDGE_DOMAIN_def EVIDENCE_DOMAIN_def PROJECTION_EMBEDDING_DOMAIN_def LIFECYCLE_PURGE_DOMAIN_def
      RECOVERY_EXECUTION_DOMAIN_def TELEMETRY_DOMAIN_def CONSTITUTION_DOMAIN_def ENROLLMENT_STATUS_DOMAIN_def
      CONNECTION_DOMAIN_def ACTIVATION_DOMAIN_def KEY_ROTATION_DOMAIN_def ENVELOPE_DOMAIN_def
      push_fields_eqs [where bytes = "d @ b" for d b]
      push_identity_eq push_field_eq text_field_def)

lemma domain_no_zero: "0 \<notin> set (as_bytes (domain_of m))"
proof -
  have "0 \<notin> set (as_bytes ''mindleak.ackplane.v1.claim'')" "0 \<notin> set (as_bytes ''mindleak.ackplane.v1.knowledge'')"
    "0 \<notin> set (as_bytes ''mindleak.ackplane.v1.evidence'')" "0 \<notin> set (as_bytes ''mindleak.ackplane.v1.projection-embedding'')"
    "0 \<notin> set (as_bytes ''mindleak.ackplane.v1.lifecycle-purge'')" "0 \<notin> set (as_bytes ''mindleak.ackplane.v1.recovery-execution'')"
    "0 \<notin> set (as_bytes ''mindleak.ackplane.v1.telemetry'')" "0 \<notin> set (as_bytes ''mindleak.ackplane.v1.constitution'')"
    "0 \<notin> set (as_bytes ''mindleak.ackplane.v1.enrollment_status'')" "0 \<notin> set (as_bytes ''mindleak.ackplane.v1.node_sync.connection'')"
    "0 \<notin> set (as_bytes ''mindleak.ackplane.v1.enrollment.activation'')" "0 \<notin> set (as_bytes ''mindleak.ackplane.v1.enrollment.key_rotation'')"
    "0 \<notin> set (as_bytes ''mindleak.ackplane.v1.envelope'')"
    by code_simp+
  then show ?thesis by (cases m) simp_all
qed

lemma signed_bytes_eq: "signed_bytes m = signed_bytes n \<longleftrightarrow> domain_of m = domain_of n \<and> body_of m = body_of n"
  by (simp add: signed_bytes_split until_zero domain_no_zero)

subsection \<open>Operations\<close>

definition i32_list_bytes :: "32 word list \<Rightarrow> byte list" where
  "i32_list_bytes xs = field_bytes (to_be_bytes (if length xs < 2 ^ 32 then word_of_nat (length xs) else - 1 :: 32 word)) @
     concat (map (\<lambda>x. field_bytes (to_be_bytes x)) xs)"

definition vector_bytes :: "32 word list \<Rightarrow> byte list" where
  "vector_bytes xs = field_bytes (to_be_bytes (word_of_nat (length xs) :: 64 word)) @
     concat (map (\<lambda>x. field_bytes (to_be_bytes x)) xs)"

definition measurements_bytes :: "measurement list \<Rightarrow> byte list" where
  "measurements_bytes ms = field_bytes (to_be_bytes (word_of_nat (length ms) :: 64 word)) @
     concat (map (\<lambda>m. text_field (ms_name m) @ field_bytes (to_be_bytes (ms_value m))) ms)"

definition node_ids_bytes :: "string list \<Rightarrow> byte list" where
  "node_ids_bytes ns = field_bytes (to_be_bytes (if length ns < 2 ^ 64 then word_of_nat (length ns) else - 1 :: 64 word)) @
     concat (map text_field ns)"

definition texts_bytes :: "string list \<Rightarrow> byte list" where
  "texts_bytes xs = to_be_bytes (word_of_nat (length xs) :: 32 word) @ concat (map text_field xs)"

text \<open>A list that is short once encoded is in the domain of its code.\<close>

interpretation word_field: prefix_code "\<lambda>x :: 32 word. field_bytes (to_be_bytes x)" "\<lambda>_. True"
  by unfold_locales (simp add: field.append_eq field.enc_eq)

interpretation long_field: prefix_code "\<lambda>x :: 64 word. field_bytes (to_be_bytes x)" "\<lambda>_. True"
  by unfold_locales (simp add: field.append_eq field.enc_eq)

interpretation flag_field: prefix_code "\<lambda>x :: bool. field_bytes [of_bool x]" "\<lambda>_. True"
  by unfold_locales (auto simp: field.append_eq field.enc_eq short_def of_bool_def split: if_splits)

interpretation measure: prefix_code "\<lambda>m :: measurement. text_field (ms_name m) @ field_bytes (to_be_bytes (ms_value m))" "\<lambda>m. short (ms_name m)"
proof
  fix x y :: measurement and r s
  assume "short (ms_name x)" "short (ms_name y)" and
    "(text_field (ms_name x) @ field_bytes (to_be_bytes (ms_value x))) @ r = (text_field (ms_name y) @ field_bytes (to_be_bytes (ms_value y))) @ s"
  then show "x = y \<and> r = s" by (cases x, cases y) (simp add: str.append_eq long_field.append_eq long_field.enc_eq)
qed

interpretation vectors: counted "\<lambda>x :: 32 word. field_bytes (to_be_bytes x)" "\<lambda>_. True"
    "\<lambda>n. field_bytes (to_be_bytes (word_of_nat n :: 64 word))" "2 ^ 64"
  by unfold_locales

interpretation measures: counted "\<lambda>m :: measurement. text_field (ms_name m) @ field_bytes (to_be_bytes (ms_value m))" "\<lambda>m. short (ms_name m)"
    "\<lambda>n. field_bytes (to_be_bytes (word_of_nat n :: 64 word))" "2 ^ 64"
  by unfold_locales

interpretation count_field: prefix_code "\<lambda>n. field_bytes (to_be_bytes (word_of_nat n :: 32 word))" "\<lambda>n. n < 2 ^ 32"
  by (rule same_length_code) (simp_all add: field_bytes_def word_of_nat_eq_small)

interpretation codes: counted "\<lambda>x :: 32 word. field_bytes (to_be_bytes x)" "\<lambda>_. True"
    "\<lambda>n. field_bytes (to_be_bytes (word_of_nat n :: 32 word))" "2 ^ 32"
  by unfold_locales

lemma short_words: "short (concat (map (\<lambda>x :: 32 word. field_bytes (to_be_bytes x)) vs)) \<Longrightarrow> length vs < 2 ^ 32"
  using short_concat [of "\<lambda>x :: 32 word. field_bytes (to_be_bytes x)" vs] by auto

lemma short_measures: "short (concat (map (\<lambda>m :: measurement. text_field (ms_name m) @ field_bytes (to_be_bytes (ms_value m))) ms)) \<Longrightarrow>
    list_all (\<lambda>m. short (ms_name m)) ms \<and> length ms < 2 ^ 32"
  using short_concat [of "\<lambda>m :: measurement. text_field (ms_name m) @ field_bytes (to_be_bytes (ms_value m))" ms]
  by (auto simp: list_all_iff dest!: short_append)

lemma texts_append_eq:
  assumes "short (texts_bytes xs)" "short (texts_bytes ys)"
  shows "texts_bytes xs @ r = texts_bytes ys @ s \<longleftrightarrow> xs = ys \<and> r = s"
  using texts.listed.append_eq [of xs ys r s] assms
  by (auto simp: texts_bytes_def dest!: short_append short_texts)

lemma node_ids_append_eq:
  assumes "short (node_ids_bytes xs)" "short (node_ids_bytes ys)"
  shows "node_ids_bytes xs @ r = node_ids_bytes ys @ s \<longleftrightarrow> xs = ys \<and> r = s"
  using text_fields.listed.append_eq [of xs ys r s] assms
  by (auto simp: node_ids_bytes_def dest!: short_append short_texts)

lemma vector_append_eq:
  assumes "short (vector_bytes vs)" "short (vector_bytes ws)"
  shows "vector_bytes vs @ r = vector_bytes ws @ s \<longleftrightarrow> vs = ws \<and> r = s"
  using vectors.listed.append_eq [of vs ws r s] assms
  by (auto simp: vector_bytes_def list_all_iff dest!: short_append short_words)

lemma i32_list_append_eq:
  assumes "short (i32_list_bytes vs)" "short (i32_list_bytes ws)"
  shows "i32_list_bytes vs @ r = i32_list_bytes ws @ s \<longleftrightarrow> vs = ws \<and> r = s"
  using codes.listed.append_eq [of vs ws r s] assms
  by (auto simp: i32_list_bytes_def list_all_iff dest!: short_append short_words)

lemma measurements_append_eq:
  assumes "short (measurements_bytes ms)" "short (measurements_bytes ns)"
  shows "measurements_bytes ms @ r = measurements_bytes ns @ s \<longleftrightarrow> ms = ns \<and> r = s"
  using measures.listed.append_eq [of ms ns r s] assms
  by (auto simp: measurements_bytes_def dest!: short_append short_measures)

lemmas codes_append_eq = texts_append_eq node_ids_append_eq vector_append_eq i32_list_append_eq measurements_append_eq
  texts_append_eq [where r = "[]" and s = "[]", simplified] vector_append_eq [where r = "[]" and s = "[]", simplified]
  measurements_append_eq [where r = "[]" and s = "[]", simplified]
  str.append_eq [where r = "[]", simplified] str.append_eq [where s = "[]", simplified]
  str.append_eq str.enc_eq field.append_eq field.enc_eq word_field.append_eq word_field.enc_eq long_field.append_eq
  long_field.enc_eq flag_field.append_eq

text \<open>The fields of the operations, in terms of these codes.\<close>

lemmas op_bytes = push_defs text_field_def [symmetric] texts_bytes_def [symmetric] node_ids_bytes_def [symmetric]
  vector_bytes_def [symmetric] i32_list_bytes_def [symmetric] measurements_bytes_def [symmetric]

lemma claim_op_inj:
  assumes "short (claim_push_fields x [])" "short (claim_push_fields y [])"
  shows "claim_push_fields x [] = claim_push_fields y [] \<longleftrightarrow> x = y"
  using assms by (cases x; cases y) (auto simp: op_bytes codes_append_eq dest!: short_append short_fields)

lemma present_eq: "present x = present y \<longleftrightarrow> unwrap_or_empty x = unwrap_or_empty y"
  by (simp add: present_def)

lemma knowledge_fields:
  "knowledge_push_fields (KnowledgeRecord c sr ns g h m) [] = text_field ''record'' @ text_field c @
     text_field (unwrap_or_empty sr) @ node_ids_bytes ns @ text_field (unwrap_or_empty g) @ field_bytes (to_be_bytes h) @
     text_field (unwrap_or_empty m)"
  "knowledge_push_fields (KnowledgeRecall p l) [] = text_field ''recall'' @ field_bytes [of_bool p] @ field_bytes (to_be_bytes l)"
  "knowledge_push_fields (KnowledgeHistory l) [] = text_field ''history'' @ field_bytes (to_be_bytes l)"
  "knowledge_push_fields (KnowledgeReconfirm i e) [] = text_field ''reconfirm'' @ text_field i @ text_field e"
  "knowledge_push_fields (KnowledgeRetire i e) [] = text_field ''retire'' @ text_field i @ text_field e"
  by (simp_all add: push_defs text_field_def [abs_def] node_ids_bytes_def)

lemma knowledge_op_inj:
  assumes "short (knowledge_push_fields x [])" "short (knowledge_push_fields y [])"
  shows "knowledge_push_fields x [] = knowledge_push_fields y [] \<longleftrightarrow> bound_knowledge x = bound_knowledge y"
  using assms
  by (cases x; cases y) (auto simp: knowledge_fields codes_append_eq present_eq dest!: short_append short_fields)

lemma evidence_fields:
  "evidence_push_fields (EvidenceRecord t k sr d ob se ik v) [] = text_field ''record'' @ text_field t @
     field_bytes (to_be_bytes k) @ text_field sr @ field_bytes d @ text_field ob @ text_field se @ text_field ik @ text_field v"
  "evidence_push_fields (EvidenceList t l a i) [] = text_field ''list'' @ text_field t @ field_bytes (to_be_bytes l) @
     text_field (unwrap_or_empty a) @ text_field (unwrap_or_empty i)"
  "evidence_push_fields (EvidenceRecordConformance t e vd n d cs ch ik v) [] = text_field ''record_conformance'' @
     text_field t @ text_field e @ field_bytes (to_be_bytes vd) @ field_bytes (to_be_bytes n) @ field_bytes d @
     i32_list_bytes cs @ text_field ch @ text_field ik @ text_field v"
  "evidence_push_fields (EvidenceListConformance t l a i) [] = text_field ''list_conformance'' @ text_field t @
     field_bytes (to_be_bytes l) @ text_field (unwrap_or_empty a) @ text_field (unwrap_or_empty i)"
  by (simp_all add: push_defs text_field_def [abs_def] i32_list_bytes_def)

lemma evidence_op_inj:
  assumes "short (evidence_push_fields x [])" "short (evidence_push_fields y [])"
  shows "evidence_push_fields x [] = evidence_push_fields y [] \<longleftrightarrow> bound_evidence x = bound_evidence y"
  using assms
  by (cases x; cases y) (auto simp: evidence_fields codes_append_eq present_eq dest!: short_append short_fields)

lemma embedding_op_inj:
  assumes "short (embedding_push_fields x [])" "short (embedding_push_fields y [])"
  shows "embedding_push_fields x [] = embedding_push_fields y [] \<longleftrightarrow> x = y"
  using assms
  by (cases x; cases y) (auto simp: op_bytes codes_append_eq intro: embedding_source.equality dest!: short_append short_fields)

lemma purge_op_inj:
  assumes "short (purge_push_fields x [])" "short (purge_push_fields y [])"
  shows "purge_push_fields x [] = purge_push_fields y [] \<longleftrightarrow> x = y"
  using assms by (cases x; cases y) (auto simp: op_bytes codes_append_eq dest!: short_append short_fields)

lemma recovery_op_inj:
  assumes "short (recovery_push_fields x [])" "short (recovery_push_fields y [])"
  shows "recovery_push_fields x [] = recovery_push_fields y [] \<longleftrightarrow> x = y"
  using assms by (cases x; cases y) (auto simp: op_bytes codes_append_eq dest!: short_append short_fields)

lemma telemetry_op_inj:
  assumes "short (telemetry_push_fields x [])" "short (telemetry_push_fields y [])"
  shows "telemetry_push_fields x [] = telemetry_push_fields y [] \<longleftrightarrow> bound_telemetry x = bound_telemetry y"
  using assms by (cases x; cases y) (auto simp: op_bytes codes_append_eq present_eq dest!: short_append short_fields)

lemma constitution_op_inj:
  assumes "short (constitution_push_fields x [])" "short (constitution_push_fields y [])"
  shows "constitution_push_fields x [] = constitution_push_fields y [] \<longleftrightarrow> x = y"
  using assms by (cases x; cases y) (auto simp: op_bytes codes_append_eq dest!: short_append short_fields)

lemmas op_injs = claim_op_inj knowledge_op_inj evidence_op_inj embedding_op_inj purge_op_inj recovery_op_inj
  telemetry_op_inj constitution_op_inj

lemma identity_append_eq:
  assumes "short (push_identity [] t r au)" "short (push_identity [] t' r' au')"
  shows "push_identity [] t r au @ xs = push_identity [] t' r' au' @ ys \<longleftrightarrow>
    t = t' \<and> r = r' \<and> au\<lparr>au_signature := []\<rparr> = au'\<lparr>au_signature := []\<rparr> \<and> xs = ys"
  using assms by (cases au, cases au') (auto simp: push_identity_eq codes_append_eq dest!: short_append short_fields)

lemma record_eqs:
  "a\<lparr>sa_signature := []\<rparr> = a'\<lparr>sa_signature := []\<rparr> \<longleftrightarrow> sa_node_id a = sa_node_id a' \<and>
     sa_key_fingerprint a = sa_key_fingerprint a' \<and> sa_signed_at a = sa_signed_at a' \<and> sa_nonce a = sa_nonce a'"
  "b = b' \<longleftrightarrow> cb_nonce b = cb_nonce b' \<and> cb_tenant_id b = cb_tenant_id b' \<and> cb_repository_id b = cb_repository_id b' \<and>
     cb_producer_id b = cb_producer_id b' \<and> cb_signing_key_id b = cb_signing_key_id b'"
  "c = c' \<longleftrightarrow> ab_nonce c = ab_nonce c' \<and> ab_request_id c = ab_request_id c' \<and> ab_tenant_id c = ab_tenant_id c' \<and>
     ab_repository_id c = ab_repository_id c' \<and> ab_node_id c = ab_node_id c' \<and>
     ab_public_key_fingerprint c = ab_public_key_fingerprint c'"
  "k = k' \<longleftrightarrow> kr_tenant_id k = kr_tenant_id k' \<and> kr_repository_id k = kr_repository_id k' \<and> kr_node_id k = kr_node_id k' \<and>
     kr_current_key_id k = kr_current_key_id k' \<and> kr_successor_key_id k = kr_successor_key_id k' \<and>
     kr_successor_public_key_fingerprint k = kr_successor_public_key_fingerprint k' \<and>
     kr_successor_public_key k = kr_successor_public_key k' \<and> kr_requested_overlap_seconds k = kr_requested_overlap_seconds k'"
  "e\<lparr>ee_payload := [], ee_signature := [], ee_provenance := 0\<rparr> = e'\<lparr>ee_payload := [], ee_signature := [], ee_provenance := 0\<rparr> \<longleftrightarrow>
     ee_schema_version e = ee_schema_version e' \<and> ee_tenant_id e = ee_tenant_id e' \<and> ee_repository_id e = ee_repository_id e' \<and>
     ee_producer_id e = ee_producer_id e' \<and> ee_producer_sequence e = ee_producer_sequence e' \<and>
     ee_occurred_at e = ee_occurred_at e' \<and> ee_payload_type e = ee_payload_type e' \<and>
     ee_payload_digest e = ee_payload_digest e' \<and> ee_previous_envelope_digest e = ee_previous_envelope_digest e' \<and>
     ee_signing_key_id e = ee_signing_key_id e'" for a a' :: status_authentication and b b' :: connection_binding
    and c c' :: activation_binding and k k' :: key_rotation_statement and e e' :: event_envelope
  subgoal by (cases a, cases a') auto
  subgoal by (cases b, cases b') auto
  subgoal by (cases c, cases c') auto
  subgoal by (cases k, cases k') auto
  subgoal by (cases e, cases e') auto
  done

lemma signed_bytes_bound:
  assumes "length (signed_bytes m) < 2 ^ 32" "length (signed_bytes n) < 2 ^ 32"
  shows "signed_bytes m = signed_bytes n \<longleftrightarrow> bound_request m = bound_request n"
proof -
  have body: "short (body_of m)" "short (body_of n)"
    using assms by (simp_all add: signed_bytes_split short_def)
  show ?thesis unfolding signed_bytes_eq
    using body by (cases m; cases n) (auto simp: identity_append_eq
        identity_append_eq [where xs = "[]" and ys = "[]", simplified] op_injs codes_append_eq record_eqs dest!: short_append short_fields)
qed

text \<open>
  C15. The bytes bind the request. Two requests below four gigabytes have the same bytes to be
  signed exactly when they are requests of the same service that agree in every field, apart
  from what \<^const>\<open>bound_request\<close> names. So a signature obtained for one request authorises no other.
\<close>

theorem signature_binds_request:
  assumes "length (signed_bytes m) < 2 ^ 32" "length (signed_bytes n) < 2 ^ 32"
  shows "signed_bytes m = signed_bytes n \<longleftrightarrow> bound_request m = bound_request n"
  using signed_bytes_bound [OF assms] .

end
