(* ===== verification/Ackplane_Claims.thy ===== *)
theory Ackplane_Claims
  imports Signing_Bytes
begin

text \<open>
  Crate \<^verbatim>\<open>ackplane-server\<close>, the authority of federated claims: \<^verbatim>\<open>signing_keys.rs\<close>, the registry
  of node keys; \<^verbatim>\<open>claim_signature.rs\<close>, the check of a signed request; \<^verbatim>\<open>claim_store/\<close>, the leases in
  PostgreSQL; \<^verbatim>\<open>claim_service/\<close>, the remote procedures that join them. The record \<open>claim_server\<close> has one
  field per table. Instants are microseconds, the resolution of the database; Ed25519 and the
  reading of RFC 3339 timestamps are parameters. A procedure returns a state with
  every result, since the nonce it consumed stays consumed when the claim is refused.
\<close>

section \<open>Signing keys\<close>

record signing_key =
  sk_signing_key_id :: string
  sk_tenant_id :: string
  sk_repository_id :: string
  sk_node_id :: string
  sk_public_key :: "byte list"
  sk_public_key_fingerprint :: string
  sk_activated_at :: int
  sk_expires_at :: "int option"

record key_lifecycle =
  kl_record :: signing_key
  kl_retired_at :: "int option"
  kl_revoked_at :: "int option"
  kl_revocation_reason :: "string option"

record envelope_binding =
  eb_signing_key_id :: string
  eb_tenant_id :: string
  eb_repository_id :: string
  eb_producer_id :: string
  eb_accepted_at :: int

datatype key_resolution =
  KeyResolved signing_key | KeyUnknown | KeyBindingMismatch | KeyNotYetActive | KeyExpired | KeyRevoked | KeyRetired

abbreviation kl_id :: "key_lifecycle \<Rightarrow> string" where
  "kl_id k \<equiv> sk_signing_key_id (kl_record k)"

definition fetch_key :: "key_lifecycle list \<Rightarrow> string \<Rightarrow> key_lifecycle option" where
  "fetch_key ks i = find (\<lambda>k. kl_id k = i) ks"

definition register_key :: "signing_key \<Rightarrow> key_lifecycle list \<Rightarrow> key_lifecycle list" where
  "register_key r ks = (if fetch_key ks (sk_signing_key_id r) \<noteq> None then ks
     else ks @ [\<lparr>kl_record = r, kl_retired_at = None, kl_revoked_at = None, kl_revocation_reason = None\<rparr>])"

definition keys_for_repository :: "string \<Rightarrow> string \<Rightarrow> key_lifecycle list \<Rightarrow> key_lifecycle list" where
  "keys_for_repository tenant_id repository_id ks =
     sort_key (\<lambda>k. - sk_activated_at (kl_record k))
       (filter (\<lambda>k. sk_tenant_id (kl_record k) = tenant_id \<and> sk_repository_id (kl_record k) = repository_id) ks)"

definition key_exists :: "string \<Rightarrow> key_lifecycle list \<Rightarrow> bool" where
  "key_exists i ks \<longleftrightarrow> fetch_key ks i \<noteq> None"

definition retire_key :: "string \<Rightarrow> int \<Rightarrow> key_lifecycle list \<Rightarrow> key_lifecycle list" where
  "retire_key i at_time ks = map (\<lambda>k. if kl_id k = i then k\<lparr>kl_retired_at := Some at_time\<rparr> else k) ks"

definition revoke_key :: "string \<Rightarrow> string \<Rightarrow> int \<Rightarrow> key_lifecycle list \<Rightarrow> bool \<times> key_lifecycle list" where
  "revoke_key i reason at_time ks = (
     let hit = (\<lambda>k. kl_id k = i \<and> kl_revoked_at k = None)
     in (list_ex hit ks,
         map (\<lambda>k. if hit k then k\<lparr>kl_revoked_at := Some at_time, kl_revocation_reason := Some reason\<rparr> else k) ks))"

definition since :: "int option \<Rightarrow> int \<Rightarrow> bool" where
  "since x n \<longleftrightarrow> (case x of None \<Rightarrow> False | Some a \<Rightarrow> n \<ge> a)"

definition judge :: "key_lifecycle \<Rightarrow> envelope_binding \<Rightarrow> key_resolution" where
  "judge k b = (
     let r = kl_record k; n = eb_accepted_at b in
     if sk_tenant_id r \<noteq> eb_tenant_id b \<or> sk_repository_id r \<noteq> eb_repository_id b \<or> sk_node_id r \<noteq> eb_producer_id b
     then KeyBindingMismatch
     else if n < sk_activated_at r then KeyNotYetActive
     else if since (kl_revoked_at k) n then KeyRevoked
     else if since (sk_expires_at r) n then KeyExpired
     else if since (kl_retired_at k) n then KeyRetired
     else KeyResolved r)"

definition resolve_key :: "key_lifecycle list \<Rightarrow> envelope_binding \<Rightarrow> key_resolution" where
  "resolve_key ks b = (case fetch_key ks (eb_signing_key_id b) of None \<Rightarrow> KeyUnknown | Some k \<Rightarrow> judge k b)"

definition lifecycle_for_binding ::
  "string \<Rightarrow> string \<Rightarrow> string \<Rightarrow> string \<Rightarrow> key_lifecycle list \<Rightarrow> key_lifecycle option" where
  "lifecycle_for_binding tenant_id repository_id node_id fingerprint ks = (
     case filter (\<lambda>k. sk_node_id (kl_record k) = node_id \<and> sk_public_key_fingerprint (kl_record k) = fingerprint)
       (keys_for_repository tenant_id repository_id ks) of [] \<Rightarrow> None | k # _ \<Rightarrow> Some k)"

section \<open>The check of a signed request\<close>

datatype claim_auth_refusal =
    Unsigned | Unidentified | UnknownKey | BindingMismatch | KeyNotInForce | RefusedRevoked | BadSignature
  | MalformedTimestamp | StaleTimestamp | Replayed

fun is_authenticated_but_not_authorized :: "claim_auth_refusal \<Rightarrow> bool" where
  "is_authenticated_but_not_authorized BindingMismatch = True"
| "is_authenticated_but_not_authorized _ = False"

definition MAX_CLAIM_AUTH_SKEW_SECS :: int where
  "MAX_CLAIM_AUTH_SKEW_SECS = 300"

definition seconds :: "int \<Rightarrow> int" where
  "seconds n = n * 1000000"

type_synonym ed25519 = "byte list \<Rightarrow> byte list \<Rightarrow> byte list \<Rightarrow> bool"
type_synonym rfc3339_parser = "string \<Rightarrow> int option"

definition check_freshness :: "rfc3339_parser \<Rightarrow> string \<Rightarrow> int \<Rightarrow> claim_auth_refusal + unit" where
  "check_freshness parse signed_at now = (case parse signed_at of
       None \<Rightarrow> Inl MalformedTimestamp
     | Some t \<Rightarrow> if \<bar>t - now\<bar> > seconds MAX_CLAIM_AUTH_SKEW_SECS then Inl StaleTimestamp else Inr ())"

definition verify_signed_bytes ::
  "ed25519 \<Rightarrow> rfc3339_parser \<Rightarrow> authentication \<Rightarrow> key_resolution \<Rightarrow> byte list \<Rightarrow> int \<Rightarrow> claim_auth_refusal + unit" where
  "verify_signed_bytes ed parse au resolution bytes now = (
     if blank (au_signing_key_id au) then Inl Unidentified
     else if au_signature au = [] then Inl Unsigned
     else and_then (check_freshness parse (au_signed_at au) now) (\<lambda>_.
       case resolution of
         KeyResolved r \<Rightarrow>
           if length (sk_public_key r) = 32 \<and> ed (sk_public_key r) bytes (au_signature au) then Inr () else Inl BadSignature
       | KeyUnknown \<Rightarrow> Inl UnknownKey
       | KeyBindingMismatch \<Rightarrow> Inl BindingMismatch
       | KeyRevoked \<Rightarrow> Inl RefusedRevoked
       | _ \<Rightarrow> Inl KeyNotInForce))"

definition verify_claim ::
  "ed25519 \<Rightarrow> rfc3339_parser \<Rightarrow> string \<Rightarrow> string \<Rightarrow> string \<Rightarrow> string \<Rightarrow> claim_operation \<Rightarrow> authentication option \<Rightarrow>
   key_resolution \<Rightarrow> int \<Rightarrow> claim_auth_refusal + unit" where
  "verify_claim ed parse tenant_id repository_id task_id owner_id op au resolution now = (case au of
       None \<Rightarrow> Inl Unsigned
     | Some au \<Rightarrow> verify_signed_bytes ed parse au resolution
         (claim_signing_bytes tenant_id repository_id task_id owner_id op au) now)"

section \<open>Leases\<close>

record delegated_claim =
  dc_tenant_id :: string
  dc_repository_id :: string
  dc_task_id :: string
  dc_owner_id :: string
  dc_branch :: string
  dc_claim_started_at :: int
  dc_lease_expires_at :: int
  dc_claim_lapses :: int
  dc_paths :: "string list"
  dc_symbols :: "string list"
  dc_parked :: bool
  dc_owner_node_id :: "string option"

record claim_decision =
  ch_tenant_id :: string
  ch_repository_id :: string
  ch_task_id :: string
  ch_requested_owner_id :: string
  ch_granted_owner_id :: string
  ch_outcome :: int
  ch_claim_started_at :: int
  ch_lease_expires_at :: int
  ch_claim_lapses :: int
  ch_paths :: "string list"
  ch_symbols :: "string list"
  ch_requested_node_id :: string

record claim_server =
  cs_keys :: "key_lifecycle list"
  cs_nonces :: "(string \<times> byte list) list"
  cs_claims :: "delegated_claim list"
  cs_history :: "claim_decision list"

datatype lease_outcome = Granted | Rejected

fun outcome_tag :: "lease_outcome \<Rightarrow> int" where
  "outcome_tag Granted = 1"
| "outcome_tag Rejected = 2"

fun answer_outcome_tag :: "lease_outcome \<Rightarrow> int" where
  "answer_outcome_tag Granted = 7"
| "answer_outcome_tag Rejected = 8"

definition release_outcome_tag :: "bool \<Rightarrow> int" where
  "release_outcome_tag released = (if released then 3 else 4)"

definition park_outcome_tag :: "bool \<Rightarrow> int" where
  "park_outcome_tag parked = (if parked then 5 else 6)"

record lease_result =
  lr_outcome :: lease_outcome
  lr_owner_id :: string
  lr_branch :: string
  lr_claim_started_at :: int
  lr_lease_expires_at :: int
  lr_claim_lapses :: int
  lr_paths :: "string list"
  lr_symbols :: "string list"

record lease_request =
  rq_tenant_id :: string
  rq_repository_id :: string
  rq_task_id :: string
  rq_owner_id :: string
  rq_node_id :: string
  rq_branch :: string
  rq_lease :: nat
  rq_paths :: "string list"
  rq_symbols :: "string list"

record recover_request =
  rc_tenant_id :: string
  rc_repository_id :: string
  rc_task_id :: string
  rc_expected_owner :: string
  rc_owner_id :: string
  rc_node_id :: string
  rc_reason :: string
  rc_branch :: string
  rc_lease :: nat
  rc_paths :: "string list"
  rc_symbols :: "string list"

record active_claim =
  ac_task_id :: string
  ac_owner_id :: string
  ac_node_id :: "string option"
  ac_branch :: string
  ac_lease_expires_at :: int
  ac_paths :: "string list"
  ac_symbols :: "string list"

text \<open>
  \<open>LeaseOverflow\<close> is the panic of \<^verbatim>\<open>SystemTime + Duration\<close>, whose seconds are an \<^verbatim>\<open>i64\<close>.
\<close>

datatype claim_store_error =
  InvalidLease | InvalidLapseCount | MissingReason | MissingNode | OwnerNodeMismatch | LeaseOverflow

record claim_owner =
  co_owner_id :: string
  co_node_id :: string

definition validate_owner :: "claim_owner \<Rightarrow> claim_store_error + unit" where
  "validate_owner w = (if blank (co_node_id w) then Inl MissingNode else Inr ())"

definition verify_node :: "claim_owner \<Rightarrow> string \<Rightarrow> string option \<Rightarrow> claim_store_error + unit" where
  "verify_node w stored_owner stored_node =
     (if stored_owner = co_owner_id w \<and> stored_node \<noteq> Some (co_node_id w) then Inl OwnerNodeMismatch else Inr ())"

type_synonym claim_key = "string \<times> string \<times> string"

definition dc_key :: "delegated_claim \<Rightarrow> claim_key" where
  "dc_key c = (dc_tenant_id c, dc_repository_id c, dc_task_id c)"

definition claim_at :: "claim_server \<Rightarrow> claim_key \<Rightarrow> delegated_claim option" where
  "claim_at s k = find (\<lambda>c. dc_key c = k) (cs_claims s)"

definition update_claim :: "claim_key \<Rightarrow> (delegated_claim \<Rightarrow> delegated_claim) \<Rightarrow> claim_server \<Rightarrow> claim_server" where
  "update_claim k f s = s\<lparr>cs_claims := map (\<lambda>c. if dc_key c = k then f c else c) (cs_claims s)\<rparr>"

definition lock_and_verify :: "claim_owner \<Rightarrow> claim_key \<Rightarrow> claim_server \<Rightarrow> claim_store_error + unit" where
  "lock_and_verify w k s = (case claim_at s k of
       None \<Rightarrow> Inr () | Some c \<Rightarrow> verify_node w (dc_owner_id c) (dc_owner_node_id c))"

definition add_lease :: "int \<Rightarrow> nat \<Rightarrow> claim_store_error + int" where
  "add_lease now lease = (
     if now div 1000000 + int lease \<ge> 2 ^ 63 then Inl LeaseOverflow else Inr (now + seconds (int lease)))"

text \<open>\<^verbatim>\<open>u64::try_from\<close> of the stored count, and the cast of a count back to the column's \<^verbatim>\<open>i64\<close>.\<close>

definition lapses_of :: "delegated_claim \<Rightarrow> claim_store_error + int" where
  "lapses_of c = (if dc_claim_lapses c < 0 then Inl InvalidLapseCount else Inr (dc_claim_lapses c))"

definition as_i64 :: "int \<Rightarrow> int" where
  "as_i64 n = (if n < 2 ^ 63 then n else n - 2 ^ 64)"

definition lease_of :: "lease_outcome \<Rightarrow> delegated_claim \<Rightarrow> lease_result" where
  "lease_of out c = \<lparr>lr_outcome = out, lr_owner_id = dc_owner_id c, lr_branch = dc_branch c,
     lr_claim_started_at = dc_claim_started_at c, lr_lease_expires_at = dc_lease_expires_at c,
     lr_claim_lapses = dc_claim_lapses c, lr_paths = dc_paths c, lr_symbols = dc_symbols c\<rparr>"

definition no_claim :: "string \<Rightarrow> int \<Rightarrow> lease_result" where
  "no_claim who now = \<lparr>lr_outcome = Rejected, lr_owner_id = who, lr_branch = [], lr_claim_started_at = now,
     lr_lease_expires_at = now, lr_claim_lapses = 0, lr_paths = [], lr_symbols = []\<rparr>"

definition decision_of :: "claim_key \<Rightarrow> claim_owner \<Rightarrow> int \<Rightarrow> lease_result \<Rightarrow> claim_decision" where
  "decision_of k w tag r =
     \<lparr>ch_tenant_id = fst k, ch_repository_id = fst (snd k), ch_task_id = snd (snd k),
       ch_requested_owner_id = co_owner_id w, ch_granted_owner_id = lr_owner_id r, ch_outcome = tag,
       ch_claim_started_at = lr_claim_started_at r, ch_lease_expires_at = lr_lease_expires_at r,
       ch_claim_lapses = as_i64 (lr_claim_lapses r), ch_paths = lr_paths r, ch_symbols = lr_symbols r,
       ch_requested_node_id = co_node_id w\<rparr>"

definition record_decision :: "claim_key \<Rightarrow> claim_owner \<Rightarrow> int \<Rightarrow> lease_result \<Rightarrow> claim_server \<Rightarrow> claim_server" where
  "record_decision k w tag r s = s\<lparr>cs_history := cs_history s @ [decision_of k w tag r]\<rparr>"

type_synonym 'a claim_transaction = "claim_server \<Rightarrow> claim_store_error + 'a \<times> claim_server"

definition rq_key :: "lease_request \<Rightarrow> claim_key" where
  "rq_key rq = (rq_tenant_id rq, rq_repository_id rq, rq_task_id rq)"

definition rq_owner :: "lease_request \<Rightarrow> claim_owner" where
  "rq_owner rq = \<lparr>co_owner_id = rq_owner_id rq, co_node_id = rq_node_id rq\<rparr>"

subsection \<open>Delegation\<close>

definition holds :: "string \<Rightarrow> string \<Rightarrow> delegated_claim \<Rightarrow> bool" where
  "holds owner_id node_id c \<longleftrightarrow> dc_owner_id c = owner_id \<and> dc_owner_node_id c = Some node_id"

text \<open>The row of a claim after it was granted again, by \<^verbatim>\<open>delegate\<close> or by \<^verbatim>\<open>recover\<close>.\<close>

definition grant_row ::
  "string \<Rightarrow> string \<Rightarrow> string \<Rightarrow> int \<Rightarrow> int \<Rightarrow> int \<Rightarrow> string list \<Rightarrow> string list \<Rightarrow> delegated_claim \<Rightarrow> delegated_claim" where
  "grant_row owner_id node_id branch now expires lapses paths symbols c = (
     let same_owner = holds owner_id node_id c in
     c\<lparr>dc_owner_id := owner_id, dc_branch := (if same_owner then dc_branch c else branch),
       dc_claim_started_at := (if same_owner then dc_claim_started_at c else now), dc_lease_expires_at := expires,
       dc_claim_lapses := lapses, dc_paths := paths, dc_symbols := symbols, dc_owner_node_id := Some node_id\<rparr>)"

definition delegate_existing :: "lease_request \<Rightarrow> int \<Rightarrow> int \<Rightarrow> delegated_claim \<Rightarrow> lease_result claim_transaction" where
  "delegate_existing rq now expires c s = (
     let same_owner = holds (rq_owner_id rq) (rq_node_id rq) c in
     and_then (if dc_parked c \<or> dc_lease_expires_at c \<ge> now
               then verify_node (rq_owner rq) (dc_owner_id c) (dc_owner_node_id c) else Inr ()) (\<lambda>_.
     and_then (lapses_of c) (\<lambda>lapses.
       if dc_parked c then Inr (lease_of Rejected c, s)
       else if \<not> same_owner \<and> dc_lease_expires_at c \<ge> now then Inr (lease_of Rejected c, s)
       else
         let next_lapses = lapses + (if dc_lease_expires_at c < now then 1 else 0);
             row = grant_row (rq_owner_id rq) (rq_node_id rq) (rq_branch rq) now expires next_lapses (rq_paths rq) (rq_symbols rq)
         in Inr (lease_of Granted (row c),
                 update_claim (rq_key rq) (\<lambda>c. (row c)\<lparr>dc_claim_lapses := as_i64 next_lapses\<rparr>) s))))"

definition fresh_claim :: "lease_request \<Rightarrow> int \<Rightarrow> int \<Rightarrow> delegated_claim" where
  "fresh_claim rq now expires = \<lparr>dc_tenant_id = rq_tenant_id rq, dc_repository_id = rq_repository_id rq,
     dc_task_id = rq_task_id rq, dc_owner_id = rq_owner_id rq, dc_branch = rq_branch rq, dc_claim_started_at = now,
     dc_lease_expires_at = expires, dc_claim_lapses = 0, dc_paths = rq_paths rq, dc_symbols = rq_symbols rq,
     dc_parked = False, dc_owner_node_id = Some (rq_node_id rq)\<rparr>"

text \<open>
  \<^verbatim>\<open>ON CONFLICT DO NOTHING\<close>: the row lock does not cover a task that has no row yet. What rivals
  commit between the first read and the insertion is the argument \<open>rival\<close>; when they made a row the
  insertion has no effect and the second pass decides on their row. Rows are never deleted.
\<close>

definition delegate_racing :: "lease_request \<Rightarrow> int \<Rightarrow> (claim_server \<Rightarrow> claim_server) \<Rightarrow> lease_result claim_transaction" where
  "delegate_racing rq now rival s =
     and_then (validate_owner (rq_owner rq)) (\<lambda>_.
     and_then (if rq_lease rq = 0 then Inl InvalidLease else Inr ()) (\<lambda>_.
     and_then (add_lease now (rq_lease rq)) (\<lambda>expires.
     and_then (case claim_at s (rq_key rq) of
         Some c \<Rightarrow> delegate_existing rq now expires c s
       | None \<Rightarrow>
           let s' = rival s; row = fresh_claim rq now expires in
           case claim_at s' (rq_key rq) of
             Some c \<Rightarrow> delegate_existing rq now expires c s'
           | None \<Rightarrow> Inr (lease_of Granted row, s'\<lparr>cs_claims := cs_claims s' @ [row]\<rparr>)) (\<lambda>(r, s'').
       Inr (r, record_decision (rq_key rq) (rq_owner rq) (outcome_tag (lr_outcome r)) r s'')))))"

definition delegate :: "lease_request \<Rightarrow> int \<Rightarrow> lease_result claim_transaction" where
  "delegate rq now = delegate_racing rq now (\<lambda>s. s)"

subsection \<open>Release, renewal, parking, answer, recovery\<close>

definition release_claim :: "claim_key \<Rightarrow> claim_owner \<Rightarrow> int \<Rightarrow> bool claim_transaction" where
  "release_claim k w now s =
     and_then (validate_owner w) (\<lambda>_.
     and_then (lock_and_verify w k s) (\<lambda>_.
       let hit = (\<lambda>c. holds (co_owner_id w) (co_node_id w) c \<and> dc_lease_expires_at c \<ge> now);
           released = (case claim_at s k of None \<Rightarrow> False | Some c \<Rightarrow> hit c);
           s' = update_claim k (\<lambda>c. if hit c then c\<lparr>dc_lease_expires_at := now\<rparr> else c) s
       in Inr (released, record_decision k w (release_outcome_tag released)
            ((no_claim (co_owner_id w) now)) s')))"

definition renew :: "claim_key \<Rightarrow> claim_owner \<Rightarrow> nat \<Rightarrow> int \<Rightarrow> lease_result claim_transaction" where
  "renew k w lease now s =
     and_then (validate_owner w) (\<lambda>_.
     and_then (if lease = 0 then Inl InvalidLease else Inr ()) (\<lambda>_.
     and_then (add_lease now lease) (\<lambda>expires.
     and_then (case claim_at s k of
         None \<Rightarrow> Inr (no_claim (co_owner_id w) now, s)
       | Some c \<Rightarrow>
           and_then (verify_node w (dc_owner_id c) (dc_owner_node_id c)) (\<lambda>_.
           and_then (lapses_of c) (\<lambda>_.
             if dc_owner_id c \<noteq> co_owner_id w \<or> dc_lease_expires_at c < now then Inr (lease_of Rejected c, s)
             else Inr (lease_of Granted (c\<lparr>dc_lease_expires_at := expires\<rparr>),
                       update_claim k (\<lambda>c. c\<lparr>dc_lease_expires_at := expires\<rparr>) s)))) (\<lambda>(r, s').
       Inr (r, record_decision k w (outcome_tag (lr_outcome r)) r s')))))"

definition park :: "claim_key \<Rightarrow> claim_owner \<Rightarrow> int \<Rightarrow> bool claim_transaction" where
  "park k w now s =
     and_then (validate_owner w) (\<lambda>_.
     and_then (lock_and_verify w k s) (\<lambda>_.
       let hit = (\<lambda>c. holds (co_owner_id w) (co_node_id w) c \<and> \<not> dc_parked c);
           parked = (case claim_at s k of None \<Rightarrow> False | Some c \<Rightarrow> hit c);
           s' = update_claim k (\<lambda>c. if hit c then c\<lparr>dc_lease_expires_at := now, dc_parked := True\<rparr> else c) s
       in Inr (parked, record_decision k w (park_outcome_tag parked) (no_claim (co_owner_id w) now) s')))"

definition answer :: "claim_key \<Rightarrow> claim_owner \<Rightarrow> nat \<Rightarrow> int \<Rightarrow> lease_result claim_transaction" where
  "answer k w lease now s =
     and_then (validate_owner w) (\<lambda>_.
     and_then (if lease = 0 then Inl InvalidLease else Inr ()) (\<lambda>_.
     and_then (add_lease now lease) (\<lambda>expires.
     and_then (case claim_at s k of
         None \<Rightarrow> Inr (no_claim (co_owner_id w) now, s)
       | Some c \<Rightarrow>
           and_then (verify_node w (dc_owner_id c) (dc_owner_node_id c)) (\<lambda>_.
           and_then (lapses_of c) (\<lambda>_.
             if dc_owner_id c \<noteq> co_owner_id w \<or> \<not> dc_parked c then Inr (lease_of Rejected c, s)
             else Inr (lease_of Granted (c\<lparr>dc_lease_expires_at := expires\<rparr>),
                       update_claim k (\<lambda>c. c\<lparr>dc_lease_expires_at := expires, dc_parked := False\<rparr>) s)))) (\<lambda>(r, s').
       Inr (r, record_decision k w (answer_outcome_tag (lr_outcome r)) r s')))))"

definition rc_key :: "recover_request \<Rightarrow> claim_key" where
  "rc_key rc = (rc_tenant_id rc, rc_repository_id rc, rc_task_id rc)"

definition rc_owner :: "recover_request \<Rightarrow> claim_owner" where
  "rc_owner rc = \<lparr>co_owner_id = rc_owner_id rc, co_node_id = rc_node_id rc\<rparr>"

definition recover :: "recover_request \<Rightarrow> int \<Rightarrow> lease_result claim_transaction" where
  "recover rc now s =
     and_then (validate_owner (rc_owner rc)) (\<lambda>_.
     and_then (if blank (rc_reason rc) then Inl MissingReason else Inr ()) (\<lambda>_.
     and_then (if rc_lease rc = 0 then Inl InvalidLease else Inr ()) (\<lambda>_.
     and_then (add_lease now (rc_lease rc)) (\<lambda>expires.
     and_then (case claim_at s (rc_key rc) of
         None \<Rightarrow> Inr (no_claim (rc_expected_owner rc) now, s)
       | Some c \<Rightarrow>
           and_then (lapses_of c) (\<lambda>lapses.
             if dc_parked c \<or> dc_owner_id c \<noteq> rc_expected_owner rc \<or> dc_lease_expires_at c \<ge> now
             then Inr (lease_of Rejected c, s)
             else
               let row = grant_row (rc_owner_id rc) (rc_node_id rc) (rc_branch rc) now expires (lapses + 1)
                     (rc_paths rc) (rc_symbols rc)
               in Inr (lease_of Granted (row c),
                       update_claim (rc_key rc) (\<lambda>c. (row c)\<lparr>dc_claim_lapses := as_i64 (lapses + 1)\<rparr>) s))) (\<lambda>(r, s').
       Inr (r, record_decision (rc_key rc) (rc_owner rc) (outcome_tag (lr_outcome r)) r s'))))))"

definition active_claim_of :: "delegated_claim \<Rightarrow> active_claim" where
  "active_claim_of c = \<lparr>ac_task_id = dc_task_id c, ac_owner_id = dc_owner_id c, ac_node_id = dc_owner_node_id c,
     ac_branch = dc_branch c, ac_lease_expires_at = dc_lease_expires_at c, ac_paths = dc_paths c, ac_symbols = dc_symbols c\<rparr>"

definition list_active :: "string \<Rightarrow> string \<Rightarrow> int \<Rightarrow> claim_server \<Rightarrow> active_claim list" where
  "list_active tenant_id repository_id now s =
     map active_claim_of (sort_key dc_task_id (filter (\<lambda>c. dc_tenant_id c = tenant_id \<and> dc_repository_id c = repository_id \<and>
       (dc_lease_expires_at c \<ge> now \<or> dc_parked c)) (cs_claims s)))"

definition consume_claim_nonce :: "string \<Rightarrow> byte list \<Rightarrow> claim_server \<Rightarrow> bool \<times> claim_server" where
  "consume_claim_nonce key_id nonce s =
     (if (key_id, nonce) \<in> set (cs_nonces s) then (False, s) else (True, s\<lparr>cs_nonces := cs_nonces s @ [(key_id, nonce)]\<rparr>))"

section \<open>The remote procedures\<close>

fun refusal_diagnostic :: "claim_auth_refusal \<Rightarrow> string" where
  "refusal_diagnostic Unsigned = ''this claim request carried no authentication''"
| "refusal_diagnostic Unidentified = ''authentication.signing_key_id is required''"
| "refusal_diagnostic UnknownKey = ''signing_key_id names no key this authority holds''"
| "refusal_diagnostic BindingMismatch = ''that signing key is enrolled to a different tenant, repository or node''"
| "refusal_diagnostic KeyNotInForce =
     ''the signing key is not currently in force: it is expired, retired, or not yet activated''"
| "refusal_diagnostic RefusedRevoked = ''the signing key has been revoked''"
| "refusal_diagnostic BadSignature = ''the signature does not verify under the enrolled key''"
| "refusal_diagnostic MalformedTimestamp = ''authentication.signed_at is not a valid RFC3339 timestamp''"
| "refusal_diagnostic StaleTimestamp = ''authentication.signed_at is outside the accepted clock-skew window''"
| "refusal_diagnostic Replayed = ''this claim authentication (signing_key_id, nonce) has already been used''"

datatype rpc_status =
  Unauthenticated string | PermissionDenied string | InvalidArgument string | InternalError string | Panicked

fun map_store_error :: "claim_store_error \<Rightarrow> rpc_status" where
  "map_store_error InvalidLease = InvalidArgument ''lease duration must be greater than zero''"
| "map_store_error MissingReason = InvalidArgument ''claim recovery requires a reason''"
| "map_store_error MissingNode = InvalidArgument ''claim ownership requires a non-empty node id''"
| "map_store_error OwnerNodeMismatch =
     PermissionDenied ''the named claim owner is not bound to this authenticated node''"
| "map_store_error InvalidLapseCount = InternalError ''claim_lapses cannot be negative''"
| "map_store_error LeaseOverflow = Panicked"

type_synonym 'a rpc = "claim_server \<Rightarrow> (rpc_status + 'a) \<times> claim_server"

text \<open>
  A step that fails ends the procedure in the state reached so far; a transaction of the store that
  fails leaves the state as it was.
\<close>

definition rpc_check :: "rpc_status + 'a \<Rightarrow> ('a \<Rightarrow> 'b rpc) \<Rightarrow> 'b rpc" where
  "rpc_check r f s = (case r of Inl e \<Rightarrow> (Inl e, s) | Inr x \<Rightarrow> f x s)"

definition rpc_then :: "'a rpc \<Rightarrow> ('a \<Rightarrow> 'b rpc) \<Rightarrow> 'b rpc" where
  "rpc_then m f s = (case m s of (Inl e, s') \<Rightarrow> (Inl e, s') | (Inr x, s') \<Rightarrow> f x s')"

definition rpc_store :: "'a claim_transaction \<Rightarrow> 'a rpc" where
  "rpc_store t s = (case t s of Inl e \<Rightarrow> (Inl (map_store_error e), s) | Inr (x, s') \<Rightarrow> (Inr x, s'))"

definition required :: "string \<Rightarrow> string \<Rightarrow> rpc_status + string" where
  "required v field = (if blank v then Inl (InvalidArgument (field @ '' is required'')) else Inr v)"

text \<open>
  The clock is read when the key is resolved, when the signature is verified and when the store
  decides: \<open>clock 0\<close>, \<open>clock 1\<close> and \<open>clock 2\<close>.
\<close>

definition authenticate ::
  "ed25519 \<Rightarrow> rfc3339_parser \<Rightarrow> (nat \<Rightarrow> int) \<Rightarrow> string \<Rightarrow> string \<Rightarrow> string \<Rightarrow> string \<Rightarrow> claim_operation \<Rightarrow>
   authentication option \<Rightarrow> string rpc" where
  "authenticate ed parse clock tenant_id repository_id task_id owner_id op au s = (case au of
       None \<Rightarrow> (Inl (Unauthenticated (refusal_diagnostic Unsigned)), s)
     | Some a \<Rightarrow>
         let binding = \<lparr>eb_signing_key_id = au_signing_key_id a, eb_tenant_id = tenant_id,
               eb_repository_id = repository_id, eb_producer_id = au_node_id a, eb_accepted_at = clock 0\<rparr> in
         case verify_claim ed parse tenant_id repository_id task_id owner_id op au (resolve_key (cs_keys s) binding) (clock 1) of
           Inl refusal \<Rightarrow>
             (Inl (if is_authenticated_but_not_authorized refusal then PermissionDenied (refusal_diagnostic refusal)
                   else Unauthenticated (refusal_diagnostic refusal)), s)
         | Inr _ \<Rightarrow>
             let (fresh, s') = consume_claim_nonce (au_signing_key_id a) (au_nonce a) s in
             if \<not> fresh then (Inl (Unauthenticated (refusal_diagnostic Replayed)), s')
             else (Inr (au_node_id a), s'))"

record wire_lease_result =
  wl_outcome :: lease_outcome
  wl_owner_id :: string
  wl_branch :: string
  wl_claim_started_at :: string
  wl_lease_expires_at :: string
  wl_claim_lapses :: int
  wl_paths :: "string list"
  wl_symbols :: "string list"
  wl_diagnostic :: string

text \<open>\<^verbatim>\<open>rfc3339\<close> fails on instants beyond the year 9999.\<close>

type_synonym rfc3339_formatter = "int \<Rightarrow> string option"

definition result_to_wire :: "rfc3339_formatter \<Rightarrow> lease_result \<Rightarrow> rpc_status + wire_lease_result" where
  "result_to_wire format r = (case (format (lr_claim_started_at r), format (lr_lease_expires_at r)) of
       (Some started, Some expires) \<Rightarrow>
         Inr \<lparr>wl_outcome = lr_outcome r, wl_owner_id = lr_owner_id r, wl_branch = lr_branch r, wl_claim_started_at = started,
              wl_lease_expires_at = expires, wl_claim_lapses = lr_claim_lapses r, wl_paths = lr_paths r,
              wl_symbols = lr_symbols r, wl_diagnostic = []\<rparr>
     | _ \<Rightarrow> Inl (InternalError ''could not format claim lease timestamp''))"

definition reply_lease :: "rfc3339_formatter \<Rightarrow> lease_result claim_transaction \<Rightarrow> wire_lease_result rpc" where
  "reply_lease format t = rpc_then (rpc_store t) (\<lambda>r. rpc_check (result_to_wire format r) (\<lambda>w s. (Inr w, s)))"

definition require_lease :: "64 word \<Rightarrow> rpc_status + nat" where
  "require_lease n = (if n = 0 then Inl (InvalidArgument ''lease_seconds must be greater than zero'') else Inr (unat n))"

definition delegate_claim_rpc ::
  "ed25519 \<Rightarrow> rfc3339_parser \<Rightarrow> rfc3339_formatter \<Rightarrow> (nat \<Rightarrow> int) \<Rightarrow> string \<Rightarrow> string \<Rightarrow> string \<Rightarrow> string \<Rightarrow> string \<Rightarrow> 64 word \<Rightarrow>
   string list \<Rightarrow> string list \<Rightarrow> authentication option \<Rightarrow> wire_lease_result rpc" where
  "delegate_claim_rpc ed parse format clock tenant_id repository_id task_id owner_id branch lease paths symbols au =
     rpc_then (authenticate ed parse clock tenant_id repository_id task_id owner_id (ClaimDelegate branch lease paths symbols) au)
       (\<lambda>node_id.
     rpc_check (require_lease lease) (\<lambda>lease.
     rpc_check (required tenant_id ''tenant_id'') (\<lambda>tenant_id.
     rpc_check (required repository_id ''repository_id'') (\<lambda>repository_id.
     rpc_check (required task_id ''task_id'') (\<lambda>task_id.
     rpc_check (required owner_id ''owner_id'') (\<lambda>owner_id.
     rpc_check (required branch ''branch'') (\<lambda>branch.
       reply_lease format (delegate \<lparr>rq_tenant_id = tenant_id, rq_repository_id = repository_id, rq_task_id = task_id,
         rq_owner_id = owner_id, rq_node_id = node_id, rq_branch = branch, rq_lease = lease, rq_paths = paths,
         rq_symbols = symbols\<rparr> (clock 2)))))))))"

text \<open>The other procedures check the identifiers first.\<close>

definition with_identifiers ::
  "string \<Rightarrow> string \<Rightarrow> string \<Rightarrow> (string \<Rightarrow> string \<Rightarrow> string \<Rightarrow> 'a rpc) \<Rightarrow> 'a rpc" where
  "with_identifiers tenant_id repository_id task_id f =
     rpc_check (required tenant_id ''tenant_id'') (\<lambda>tenant_id.
     rpc_check (required repository_id ''repository_id'') (\<lambda>repository_id.
     rpc_check (required task_id ''task_id'') (\<lambda>task_id. f tenant_id repository_id task_id)))"

definition release_claim_rpc ::
  "ed25519 \<Rightarrow> rfc3339_parser \<Rightarrow> (nat \<Rightarrow> int) \<Rightarrow> string \<Rightarrow> string \<Rightarrow> string \<Rightarrow> string \<Rightarrow> authentication option \<Rightarrow> bool rpc" where
  "release_claim_rpc ed parse clock tenant_id repository_id task_id owner_id au =
     with_identifiers tenant_id repository_id task_id (\<lambda>tenant_id repository_id task_id.
     rpc_check (required owner_id ''owner_id'') (\<lambda>owner_id.
     rpc_then (authenticate ed parse clock tenant_id repository_id task_id owner_id ClaimRelease au) (\<lambda>node_id.
       rpc_store (release_claim (tenant_id, repository_id, task_id) \<lparr>co_owner_id = owner_id, co_node_id = node_id\<rparr> (clock 2)))))"

definition renew_claim_rpc ::
  "ed25519 \<Rightarrow> rfc3339_parser \<Rightarrow> rfc3339_formatter \<Rightarrow> (nat \<Rightarrow> int) \<Rightarrow> string \<Rightarrow> string \<Rightarrow> string \<Rightarrow> string \<Rightarrow> 64 word \<Rightarrow>
   authentication option \<Rightarrow> wire_lease_result rpc" where
  "renew_claim_rpc ed parse format clock tenant_id repository_id task_id owner_id lease au =
     with_identifiers tenant_id repository_id task_id (\<lambda>tenant_id repository_id task_id.
     rpc_check (required owner_id ''owner_id'') (\<lambda>owner_id.
     rpc_then (authenticate ed parse clock tenant_id repository_id task_id owner_id (ClaimRenew lease) au) (\<lambda>node_id.
     rpc_check (require_lease lease) (\<lambda>lease.
       reply_lease format (renew (tenant_id, repository_id, task_id) \<lparr>co_owner_id = owner_id, co_node_id = node_id\<rparr>
         lease (clock 2))))))"

definition recover_claim_rpc ::
  "ed25519 \<Rightarrow> rfc3339_parser \<Rightarrow> rfc3339_formatter \<Rightarrow> (nat \<Rightarrow> int) \<Rightarrow> string \<Rightarrow> string \<Rightarrow> string \<Rightarrow> string \<Rightarrow> string \<Rightarrow> string \<Rightarrow>
   64 word \<Rightarrow> string list \<Rightarrow> string list \<Rightarrow> string \<Rightarrow> authentication option \<Rightarrow> wire_lease_result rpc" where
  "recover_claim_rpc ed parse format clock tenant_id repository_id task_id expected_owner owner_id branch lease paths symbols
       reason au =
     with_identifiers tenant_id repository_id task_id (\<lambda>tenant_id repository_id task_id.
     rpc_check (required expected_owner ''expected_owner'') (\<lambda>expected_owner.
     rpc_check (required owner_id ''owner_id'') (\<lambda>owner_id.
     rpc_check (required branch ''branch'') (\<lambda>branch.
     rpc_then (authenticate ed parse clock tenant_id repository_id task_id owner_id
         (ClaimRecover expected_owner branch lease paths symbols reason) au) (\<lambda>node_id.
     rpc_check (require_lease lease) (\<lambda>lease.
       reply_lease format (recover \<lparr>rc_tenant_id = tenant_id, rc_repository_id = repository_id, rc_task_id = task_id,
         rc_expected_owner = expected_owner, rc_owner_id = owner_id, rc_node_id = node_id, rc_reason = reason,
         rc_branch = branch, rc_lease = lease, rc_paths = paths, rc_symbols = symbols\<rparr> (clock 2))))))))"

definition park_claim_rpc ::
  "ed25519 \<Rightarrow> rfc3339_parser \<Rightarrow> (nat \<Rightarrow> int) \<Rightarrow> string \<Rightarrow> string \<Rightarrow> string \<Rightarrow> string \<Rightarrow> authentication option \<Rightarrow> bool rpc" where
  "park_claim_rpc ed parse clock tenant_id repository_id task_id owner_id au =
     with_identifiers tenant_id repository_id task_id (\<lambda>tenant_id repository_id task_id.
     rpc_check (required owner_id ''owner_id'') (\<lambda>owner_id.
     rpc_then (authenticate ed parse clock tenant_id repository_id task_id owner_id ClaimPark au) (\<lambda>node_id.
       rpc_store (park (tenant_id, repository_id, task_id) \<lparr>co_owner_id = owner_id, co_node_id = node_id\<rparr> (clock 2)))))"

definition answer_claim_rpc ::
  "ed25519 \<Rightarrow> rfc3339_parser \<Rightarrow> rfc3339_formatter \<Rightarrow> (nat \<Rightarrow> int) \<Rightarrow> string \<Rightarrow> string \<Rightarrow> string \<Rightarrow> string \<Rightarrow> 64 word \<Rightarrow>
   authentication option \<Rightarrow> wire_lease_result rpc" where
  "answer_claim_rpc ed parse format clock tenant_id repository_id task_id owner_id lease au =
     with_identifiers tenant_id repository_id task_id (\<lambda>tenant_id repository_id task_id.
     rpc_check (required owner_id ''owner_id'') (\<lambda>owner_id.
     rpc_then (authenticate ed parse clock tenant_id repository_id task_id owner_id (ClaimAnswer lease) au) (\<lambda>node_id.
     rpc_check (require_lease lease) (\<lambda>lease.
       reply_lease format (answer (tenant_id, repository_id, task_id) \<lparr>co_owner_id = owner_id, co_node_id = node_id\<rparr>
         lease (clock 2))))))"

record wire_active_claim =
  wa_task_id :: string
  wa_owner_id :: string
  wa_branch :: string
  wa_lease_expires_at :: string
  wa_paths :: "string list"
  wa_symbols :: "string list"

definition active_claim_to_wire :: "rfc3339_formatter \<Rightarrow> active_claim \<Rightarrow> rpc_status + wire_active_claim" where
  "active_claim_to_wire format c = (case format (ac_lease_expires_at c) of
       Some expires \<Rightarrow> Inr \<lparr>wa_task_id = ac_task_id c, wa_owner_id = ac_owner_id c, wa_branch = ac_branch c,
         wa_lease_expires_at = expires, wa_paths = ac_paths c, wa_symbols = ac_symbols c\<rparr>
     | None \<Rightarrow> Inl (InternalError ''could not format claim lease timestamp''))"

definition list_active_claims_rpc ::
  "rfc3339_formatter \<Rightarrow> (nat \<Rightarrow> int) \<Rightarrow> string \<Rightarrow> string \<Rightarrow> wire_active_claim list rpc" where
  "list_active_claims_rpc format clock tenant_id repository_id =
     rpc_check (required tenant_id ''tenant_id'') (\<lambda>tenant_id.
     rpc_check (required repository_id ''repository_id'') (\<lambda>repository_id s.
       (try_fold (\<lambda>ws c. and_then (active_claim_to_wire format c) (\<lambda>w. Inr (ws @ [w]))) []
          (list_active tenant_id repository_id (clock 2) s), s)))"

text \<open>One entry for the six procedures that change a claim.\<close>

datatype claim_reply = LeaseReply wire_lease_result | FlagReply bool

definition rpc_map :: "('a \<Rightarrow> 'b) \<Rightarrow> 'a rpc \<Rightarrow> 'b rpc" where
  "rpc_map f m = rpc_then m (\<lambda>x s. (Inr (f x), s))"

fun serve ::
  "ed25519 \<Rightarrow> rfc3339_parser \<Rightarrow> rfc3339_formatter \<Rightarrow> (nat \<Rightarrow> int) \<Rightarrow> string \<Rightarrow> string \<Rightarrow> string \<Rightarrow> string \<Rightarrow> claim_operation \<Rightarrow>
   authentication option \<Rightarrow> claim_reply rpc" where
  "serve ed parse format clock t r k w (ClaimDelegate branch lease paths symbols) au =
     rpc_map LeaseReply (delegate_claim_rpc ed parse format clock t r k w branch lease paths symbols au)"
| "serve ed parse format clock t r k w (ClaimRenew lease) au =
     rpc_map LeaseReply (renew_claim_rpc ed parse format clock t r k w lease au)"
| "serve ed parse format clock t r k w ClaimRelease au =
     rpc_map FlagReply (release_claim_rpc ed parse clock t r k w au)"
| "serve ed parse format clock t r k w (ClaimRecover expected branch lease paths symbols reason) au =
     rpc_map LeaseReply (recover_claim_rpc ed parse format clock t r k expected w branch lease paths symbols reason au)"
| "serve ed parse format clock t r k w ClaimPark au =
     rpc_map FlagReply (park_claim_rpc ed parse clock t r k w au)"
| "serve ed parse format clock t r k w (ClaimAnswer lease) au =
     rpc_map LeaseReply (answer_claim_rpc ed parse format clock t r k w lease au)"

section \<open>The contract of a lease transaction\<close>

lemma find_update:
  "(\<And>c. dc_key (f c) = dc_key c) \<Longrightarrow> find (\<lambda>c. dc_key c = k') (map (\<lambda>c. if dc_key c = k then f c else c) cs) =
     (if k' = k then map_option f (find (\<lambda>c. dc_key c = k) cs) else find (\<lambda>c. dc_key c = k') cs)"
  by (induction cs) auto

lemma claim_at_update: "(\<And>c. dc_key (f c) = dc_key c) \<Longrightarrow> claim_at (update_claim k f s) k' =
    (if k' = k then map_option f (claim_at s k) else claim_at s k')"
  unfolding claim_at_def update_claim_def by (simp add: find_update)

lemma claim_at_record [simp]: "claim_at (record_decision k w tag r s) k' = claim_at s k'"
  by (simp add: claim_at_def record_decision_def)

lemma update_claim_fields [simp]: "cs_keys (update_claim k f s) = cs_keys s" "cs_nonces (update_claim k f s) = cs_nonces s"
  "cs_history (update_claim k f s) = cs_history s"
  by (simp_all add: update_claim_def)

lemma record_fields [simp]: "cs_keys (record_decision k w tag r s) = cs_keys s" "cs_nonces (record_decision k w tag r s) = cs_nonces s"
  "cs_claims (record_decision k w tag r s) = cs_claims s"
  "cs_history (record_decision k w tag r s) = cs_history s @ [decision_of k w tag r]"
  by (simp_all add: record_decision_def)

lemma claim_keys_update: "(\<And>c. dc_key (f c) = dc_key c) \<Longrightarrow> map dc_key (cs_claims (update_claim k f s)) = map dc_key (cs_claims s)"
  by (simp add: update_claim_def)

lemma dc_key_rows [simp]: "dc_key (grant_row o' n b now e l p y c) = dc_key c" "dc_key (c\<lparr>dc_claim_lapses := l\<rparr>) = dc_key c"
  "dc_key (c\<lparr>dc_lease_expires_at := e\<rparr>) = dc_key c" "dc_key (c\<lparr>dc_parked := q\<rparr>) = dc_key c"
  "dc_key (fresh_claim rq now e) = rq_key rq"
  by (simp_all add: dc_key_def grant_row_def Let_def fresh_claim_def rq_key_def)

text \<open>
  What one transaction on a claim may do. It leaves the keys, the nonces and every other claim alone, appends
  exactly one decision in the name of who asked, loses no claim, takes no claim that is parked or whose
  lease runs from its holder, and keeps the evidence window of a holder that acts on its own claim. A claim
  that changed hands has the grant in its decision.
\<close>

definition ch_key :: "claim_decision \<Rightarrow> claim_key" where
  "ch_key d = (ch_tenant_id d, ch_repository_id d, ch_task_id d)"

definition secured :: "int \<Rightarrow> delegated_claim \<Rightarrow> bool" where
  "secured now c \<longleftrightarrow> dc_parked c \<or> dc_lease_expires_at c \<ge> now"

definition grants :: "claim_decision \<Rightarrow> delegated_claim \<Rightarrow> bool" where
  "grants d c \<longleftrightarrow> ch_key d = dc_key c \<and> ch_outcome d = 1 \<and> ch_requested_owner_id d = dc_owner_id c \<and>
     dc_owner_node_id c = Some (ch_requested_node_id d) \<and> ch_claim_started_at d = dc_claim_started_at c"

locale lease_transaction =
  fixes t :: "'a claim_transaction" and k :: claim_key and w :: claim_owner and now :: int
  assumes frame: "t s = Inr (r, s') \<Longrightarrow> cs_keys s' = cs_keys s \<and> cs_nonces s' = cs_nonces s \<and>
        (\<forall>k'. k' \<noteq> k \<longrightarrow> claim_at s' k' = claim_at s k')"
    and keys: "t s = Inr (r, s') \<Longrightarrow> distinct (map dc_key (cs_claims s)) \<Longrightarrow> distinct (map dc_key (cs_claims s'))"
    and decision: "t s = Inr (r, s') \<Longrightarrow> \<exists>d. cs_history s' = cs_history s @ [d] \<and> ch_key d = k \<and>
        ch_requested_owner_id d = co_owner_id w \<and> ch_requested_node_id d = co_node_id w \<and>
        (\<forall>c'. claim_at s' k = Some c' \<longrightarrow> grants d c' \<or>
          (\<exists>c. claim_at s k = Some c \<and> dc_owner_id c' = dc_owner_id c \<and> dc_owner_node_id c' = dc_owner_node_id c \<and>
             dc_claim_started_at c' = dc_claim_started_at c))"
    and kept: "t s = Inr (r, s') \<Longrightarrow> claim_at s k = Some c \<Longrightarrow> \<exists>c'. claim_at s' k = Some c' \<and>
        (holds (co_owner_id w) (co_node_id w) c \<longrightarrow>
           holds (co_owner_id w) (co_node_id w) c' \<and> dc_claim_started_at c' = dc_claim_started_at c)"
    and exclusive: "t s = Inr (r, s') \<Longrightarrow> claim_at s k = Some c \<Longrightarrow> secured now c \<Longrightarrow>
        \<not> holds (co_owner_id w) (co_node_id w) c \<Longrightarrow> claim_at s' k = Some c"
begin

lemma history_grows: "t s = Inr (r, s') \<Longrightarrow> \<exists>d. cs_history s' = cs_history s @ [d]"
  using decision by blast

lemma no_claim_lost: "t s = Inr (r, s') \<Longrightarrow> claim_at s k' = Some c \<Longrightarrow> \<exists>c'. claim_at s' k' = Some c'"
  using frame [of s r s'] kept [of s r s' c] by (cases "k' = k") (blast, metis)

text \<open>If every claim was granted in some decision, this still holds.\<close>

lemma grants_kept:
  assumes "t s = Inr (r, s')" and "\<forall>k c. claim_at s k = Some c \<longrightarrow> (\<exists>d \<in> set (cs_history s). grants d c)"
    and c': "claim_at s' k' = Some c'"
  shows "\<exists>d \<in> set (cs_history s'). grants d c'"
proof -
  obtain d where d: "cs_history s' = cs_history s @ [d]"
    and new: "\<And>c'. claim_at s' k = Some c' \<Longrightarrow> grants d c' \<or> (\<exists>c. claim_at s k = Some c \<and> dc_owner_id c' = dc_owner_id c \<and>
        dc_owner_node_id c' = dc_owner_node_id c \<and> dc_claim_started_at c' = dc_claim_started_at c)"
    using decision [OF assms(1)] by blast
  have key: "claim_at s k = Some c \<Longrightarrow> dc_key c = k" for s k c by (auto simp: claim_at_def find_Some_iff)
  show ?thesis
  proof (cases "k' = k")
    case True
    with new [of c'] c' consider "grants d c'" | c where "claim_at s k = Some c" "dc_owner_id c' = dc_owner_id c"
      "dc_owner_node_id c' = dc_owner_node_id c" "dc_claim_started_at c' = dc_claim_started_at c" by blast
    then show ?thesis
    proof cases
      case 2
      then obtain e where "e \<in> set (cs_history s)" "grants e c" using assms(2) by blast
      with 2 key [OF c'] key [OF 2(1)] True d show ?thesis by (intro bexI [of _ e]) (auto simp: grants_def)
    qed (simp add: d)
  next
    case False
    then have "claim_at s k' = Some c'" using frame [OF assms(1)] c' by metis
    with assms(2) d show ?thesis by (metis UnI1 set_append)
  qed
qed

lemma forget: "lease_transaction (\<lambda>s. and_then (t s) (\<lambda>(_, s'). Inr ((), s'))) k w now"
proof
  fix s s' and r :: unit
  assume "and_then (t s) (\<lambda>(_, s'). Inr ((), s')) = Inr (r, s')"
  then obtain x where t: "t s = Inr (x, s')" by (auto simp: and_then_Inr)
  note laws = frame [OF t] decision [OF t] keys [OF t] kept [OF t] exclusive [OF t]
  show "cs_keys s' = cs_keys s \<and> cs_nonces s' = cs_nonces s \<and> (\<forall>k'. k' \<noteq> k \<longrightarrow> claim_at s' k' = claim_at s k')"
    by (rule laws)
  show "distinct (map dc_key (cs_claims s)) \<Longrightarrow> distinct (map dc_key (cs_claims s'))" by (rule laws)
  show "\<exists>d. cs_history s' = cs_history s @ [d] \<and> ch_key d = k \<and>
        ch_requested_owner_id d = co_owner_id w \<and> ch_requested_node_id d = co_node_id w \<and>
        (\<forall>c'. claim_at s' k = Some c' \<longrightarrow> grants d c' \<or>
          (\<exists>c. claim_at s k = Some c \<and> dc_owner_id c' = dc_owner_id c \<and> dc_owner_node_id c' = dc_owner_node_id c \<and>
             dc_claim_started_at c' = dc_claim_started_at c))" by (rule laws)
  fix c
  show "claim_at s k = Some c \<Longrightarrow> \<exists>c'. claim_at s' k = Some c' \<and> (holds (co_owner_id w) (co_node_id w) c \<longrightarrow>
           holds (co_owner_id w) (co_node_id w) c' \<and> dc_claim_started_at c' = dc_claim_started_at c)" by (rule laws)
  show "claim_at s k = Some c \<Longrightarrow> secured now c \<Longrightarrow> \<not> holds (co_owner_id w) (co_node_id w) c \<Longrightarrow> claim_at s' k = Some c"
    by (rule laws)
qed

end

lemma fields_of_update [simp]:
  "dc_owner_id (grant_row o' n b now e l p y c) = o'" "dc_owner_node_id (grant_row o' n b now e l p y c) = Some n"
  "dc_claim_started_at (grant_row o' n b now e l p y c) = (if holds o' n c then dc_claim_started_at c else now)"
  by (simp_all add: grant_row_def Let_def)

lemma decision_fields [simp]: "ch_key (decision_of k w tag r) = k" "ch_requested_owner_id (decision_of k w tag r) = co_owner_id w"
  "ch_requested_node_id (decision_of k w tag r) = co_node_id w" "ch_outcome (decision_of k w tag r) = tag"
  "ch_claim_started_at (decision_of k w tag r) = lr_claim_started_at r"
  by (simp_all add: ch_key_def decision_of_def)

lemma dc_key_claim_at: "claim_at s k = Some c \<Longrightarrow> dc_key c = k"
  by (auto simp: claim_at_def find_Some_iff)

lemma find_snoc: "find P (xs @ [x]) = (case find P xs of Some y \<Rightarrow> Some y | None \<Rightarrow> if P x then Some x else None)"
  by (induction xs) auto

text \<open>
  The two shapes of a transaction: a row is updated, or a first row is written, and the decision recorded.
\<close>

definition updates_row :: "claim_key \<Rightarrow> claim_owner \<Rightarrow> int \<Rightarrow> claim_server \<Rightarrow> claim_server \<Rightarrow> bool" where
  "updates_row k w now s s' \<longleftrightarrow> (\<exists>f tag r. s' = record_decision k w tag r (update_claim k f s) \<and> (\<forall>c. dc_key (f c) = dc_key c) \<and>
     (\<forall>c. claim_at s k = Some c \<longrightarrow>
        (dc_owner_id (f c) = dc_owner_id c \<and> dc_owner_node_id (f c) = dc_owner_node_id c \<and> dc_claim_started_at (f c) = dc_claim_started_at c \<or>
         tag = 1 \<and> holds (co_owner_id w) (co_node_id w) (f c) \<and> lr_claim_started_at r = dc_claim_started_at (f c)) \<and>
        (holds (co_owner_id w) (co_node_id w) c \<longrightarrow>
           holds (co_owner_id w) (co_node_id w) (f c) \<and> dc_claim_started_at (f c) = dc_claim_started_at c) \<and>
        (secured now c \<and> \<not> holds (co_owner_id w) (co_node_id w) c \<longrightarrow> f c = c)))"

definition inserts_row :: "claim_key \<Rightarrow> claim_owner \<Rightarrow> claim_server \<Rightarrow> claim_server \<Rightarrow> bool" where
  "inserts_row k w s s' \<longleftrightarrow> claim_at s k = None \<and> (\<exists>row r. dc_key row = k \<and> holds (co_owner_id w) (co_node_id w) row \<and>
     lr_claim_started_at r = dc_claim_started_at row \<and> s' = record_decision k w 1 r (s\<lparr>cs_claims := cs_claims s @ [row]\<rparr>))"

lemma claim_at_insert: "claim_at (s\<lparr>cs_claims := cs_claims s @ [row]\<rparr>) k =
    (case claim_at s k of Some c \<Rightarrow> Some c | None \<Rightarrow> if dc_key row = k then Some row else None)"
  by (simp add: claim_at_def find_snoc)

lemma lease_transactionI:
  assumes "\<And>s r s'. t s = Inr (r, s') \<Longrightarrow> updates_row k w now s s' \<or> inserts_row k w s s'"
  shows "lease_transaction t k w now"
proof
  fix s r s' assume "t s = Inr (r, s')"
  note shape = assms [OF this]
  show "cs_keys s' = cs_keys s \<and> cs_nonces s' = cs_nonces s \<and> (\<forall>k'. k' \<noteq> k \<longrightarrow> claim_at s' k' = claim_at s k')"
    using shape by (auto simp: updates_row_def inserts_row_def claim_at_update claim_at_insert split: option.splits)
  show "\<exists>d. cs_history s' = cs_history s @ [d] \<and> ch_key d = k \<and>
        ch_requested_owner_id d = co_owner_id w \<and> ch_requested_node_id d = co_node_id w \<and>
        (\<forall>c'. claim_at s' k = Some c' \<longrightarrow> grants d c' \<or>
          (\<exists>c. claim_at s k = Some c \<and> dc_owner_id c' = dc_owner_id c \<and> dc_owner_node_id c' = dc_owner_node_id c \<and>
             dc_claim_started_at c' = dc_claim_started_at c))"
    using shape
  proof
    assume "updates_row k w now s s'"
    then obtain f tag r where s': "s' = record_decision k w tag r (update_claim k f s)" and key: "\<And>c. dc_key (f c) = dc_key c"
      and row: "\<And>c. claim_at s k = Some c \<Longrightarrow> dc_owner_id (f c) = dc_owner_id c \<and>
          dc_owner_node_id (f c) = dc_owner_node_id c \<and> dc_claim_started_at (f c) = dc_claim_started_at c \<or>
         tag = 1 \<and> holds (co_owner_id w) (co_node_id w) (f c) \<and> lr_claim_started_at r = dc_claim_started_at (f c)"
      unfolding updates_row_def by blast
    have "grants (decision_of k w tag r) c' \<or> (\<exists>c. claim_at s k = Some c \<and> dc_owner_id c' = dc_owner_id c \<and>
        dc_owner_node_id c' = dc_owner_node_id c \<and> dc_claim_started_at c' = dc_claim_started_at c)"
      if "claim_at s' k = Some c'" for c'
    proof -
      from that obtain c where c: "claim_at s k = Some c" "c' = f c" by (auto simp: s' claim_at_update [OF key])
      then show ?thesis using row [OF c(1)] dc_key_claim_at [OF c(1)] key by (auto simp: grants_def holds_def)
    qed
    then show ?thesis by (simp add: s')
  next
    assume "inserts_row k w s s'"
    then show ?thesis by (auto simp: inserts_row_def claim_at_insert grants_def holds_def)
  qed
  fix c
  show "distinct (map dc_key (cs_claims s)) \<Longrightarrow> distinct (map dc_key (cs_claims s'))"
    using shape by (fastforce simp: updates_row_def inserts_row_def claim_keys_update claim_at_def find_None_iff)
  show "claim_at s k = Some c \<Longrightarrow> \<exists>c'. claim_at s' k = Some c' \<and> (holds (co_owner_id w) (co_node_id w) c \<longrightarrow>
           holds (co_owner_id w) (co_node_id w) c' \<and> dc_claim_started_at c' = dc_claim_started_at c)"
    using shape by (auto simp: updates_row_def inserts_row_def claim_at_update)
  show "claim_at s k = Some c \<Longrightarrow> secured now c \<Longrightarrow> \<not> holds (co_owner_id w) (co_node_id w) c \<Longrightarrow> claim_at s' k = Some c"
    using shape by (auto simp: updates_row_def inserts_row_def claim_at_update)
qed

lemma holds_kept [simp]: "holds o' n (c\<lparr>dc_lease_expires_at := e\<rparr>) = holds o' n c" "holds o' n (c\<lparr>dc_parked := q\<rparr>) = holds o' n c"
  "holds o' n (c\<lparr>dc_claim_lapses := l\<rparr>) = holds o' n c" "holds o' n (grant_row o' n b now e l p y c)"
  by (simp_all add: holds_def)

lemma lease_of_fields [simp]: "lr_claim_started_at (lease_of out c) = dc_claim_started_at c" "lr_outcome (lease_of out c) = out"
  by (simp_all add: lease_of_def)

lemma updates_rowI:
  assumes "s' = record_decision k w tag r (update_claim k f s)" and "\<And>c. dc_key (f c) = dc_key c"
    and "\<And>c. claim_at s k = Some c \<Longrightarrow> dc_owner_id (f c) = dc_owner_id c \<and> dc_owner_node_id (f c) = dc_owner_node_id c \<and>
           dc_claim_started_at (f c) = dc_claim_started_at c \<or>
         tag = 1 \<and> holds (co_owner_id w) (co_node_id w) (f c) \<and> lr_claim_started_at r = dc_claim_started_at (f c)"
    and "\<And>c. claim_at s k = Some c \<Longrightarrow> holds (co_owner_id w) (co_node_id w) c \<Longrightarrow>
           holds (co_owner_id w) (co_node_id w) (f c) \<and> dc_claim_started_at (f c) = dc_claim_started_at c"
    and "\<And>c. claim_at s k = Some c \<Longrightarrow> secured now c \<Longrightarrow> \<not> holds (co_owner_id w) (co_node_id w) c \<Longrightarrow> f c = c"
  shows "updates_row k w now s s'"
  unfolding updates_row_def using assms by blast

lemma unchanged_row: "s' = record_decision k w tag r s \<Longrightarrow> updates_row k w now s s'"
  by (rule updates_rowI [where f = "\<lambda>c. c"]) (auto simp: update_claim_def)

text \<open>A holder that only moves its lease or its parking.\<close>

lemma holder_row:
  assumes "s' = record_decision k w tag r (update_claim k f s)" "claim_at s k = Some c" "holds (co_owner_id w) (co_node_id w) c"
    and "\<And>c. dc_key (f c) = dc_key c" "\<And>c. dc_owner_id (f c) = dc_owner_id c" "\<And>c. dc_owner_node_id (f c) = dc_owner_node_id c"
      "\<And>c. dc_claim_started_at (f c) = dc_claim_started_at c"
  shows "updates_row k w now s s'"
  by (rule updates_rowI [OF assms(1,4)]) (use assms in \<open>auto simp: holds_def\<close>)

lemma verified_holder: "verify_node w (dc_owner_id c) (dc_owner_node_id c) = Inr () \<Longrightarrow> dc_owner_id c = co_owner_id w \<Longrightarrow>
    holds (co_owner_id w) (co_node_id w) c"
  by (auto simp: verify_node_def holds_def split: if_splits)

interpretation parking: lease_transaction "park k w now" k w now for k w now
proof (rule lease_transactionI, rule disjI1)
  fix s r s' assume "park k w now s = Inr (r, s')"
  then obtain tag res where "s' = record_decision k w tag res (update_claim k (\<lambda>c. if holds (co_owner_id w) (co_node_id w) c \<and>
      \<not> dc_parked c then c\<lparr>dc_lease_expires_at := now, dc_parked := True\<rparr> else c) s)"
    by (auto simp: park_def Let_def and_then_Inr)
  then show "updates_row k w now s s'" by (rule updates_rowI) auto
qed

interpretation releasing: lease_transaction "release_claim k w now" k w now for k w now
proof (rule lease_transactionI, rule disjI1)
  fix s r s' assume "release_claim k w now s = Inr (r, s')"
  then obtain tag res where "s' = record_decision k w tag res (update_claim k (\<lambda>c. if holds (co_owner_id w) (co_node_id w) c \<and>
      now \<le> dc_lease_expires_at c then c\<lparr>dc_lease_expires_at := now\<rparr> else c) s)"
    by (auto simp: release_claim_def Let_def and_then_Inr)
  then show "updates_row k w now s s'" by (rule updates_rowI) auto
qed

interpretation renewing: lease_transaction "renew k w lease now" k w now for k w lease now
proof (rule lease_transactionI, rule disjI1)
  fix s r s' assume "renew k w lease now s = Inr (r, s')"
  then consider (same) tag res where "s' = record_decision k w tag res s"
    | (row) c e res where "claim_at s k = Some c" "dc_owner_id c = co_owner_id w" "verify_node w (dc_owner_id c) (dc_owner_node_id c) = Inr ()"
        "s' = record_decision k w 1 res (update_claim k (\<lambda>c. c\<lparr>dc_lease_expires_at := e\<rparr>) s)"
    by (auto simp: renew_def and_then_Inr split: option.splits if_splits)
  then show "updates_row k w now s s'"
  proof cases
    case row
    show ?thesis by (rule holder_row [OF row(4,1) verified_holder [OF row(3,2)]]) simp_all
  qed (rule unchanged_row)
qed

interpretation answering: lease_transaction "answer k w lease now" k w now for k w lease now
proof (rule lease_transactionI, rule disjI1)
  fix s r s' assume "answer k w lease now s = Inr (r, s')"
  then consider (same) tag res where "s' = record_decision k w tag res s"
    | (row) c e tag res where "claim_at s k = Some c" "dc_owner_id c = co_owner_id w" "verify_node w (dc_owner_id c) (dc_owner_node_id c) = Inr ()"
        "s' = record_decision k w tag res (update_claim k (\<lambda>c. c\<lparr>dc_lease_expires_at := e, dc_parked := False\<rparr>) s)"
    by (auto simp: answer_def and_then_Inr split: option.splits if_splits)
  then show "updates_row k w now s s'"
  proof cases
    case row
    show ?thesis by (rule holder_row [OF row(4,1) verified_holder [OF row(3,2)]]) simp_all
  qed (rule unchanged_row)
qed

text \<open>A claim that nothing secures may go to whoever asks.\<close>

lemma taken_row:
  assumes "s' = record_decision k w 1 (lease_of Granted (row c)) (update_claim k (\<lambda>c. (row c)\<lparr>dc_claim_lapses := l\<rparr>) s)"
    and "row = grant_row (co_owner_id w) (co_node_id w) b now e l' p y"
    and "claim_at s k = Some c" "\<not> secured now c \<or> holds (co_owner_id w) (co_node_id w) c"
  shows "updates_row k w now s s'"
  by (rule updates_rowI [OF assms(1)]) (use assms(2-4) in auto)

interpretation recovering: lease_transaction "recover rc now" "rc_key rc" "rc_owner rc" now for rc now
proof (rule lease_transactionI, rule disjI1)
  fix s r s' assume "recover rc now s = Inr (r, s')"
  then consider (same) tag res where "s' = record_decision (rc_key rc) (rc_owner rc) tag res s"
    | (row) c e l row where "claim_at s (rc_key rc) = Some c" "\<not> secured now c"
        "row = grant_row (rc_owner_id rc) (rc_node_id rc) (rc_branch rc) now e (l + 1) (rc_paths rc) (rc_symbols rc)"
        "s' = record_decision (rc_key rc) (rc_owner rc) 1 (lease_of Granted (row c))
           (update_claim (rc_key rc) (\<lambda>c. (row c)\<lparr>dc_claim_lapses := as_i64 (l + 1)\<rparr>) s)"
    by (auto simp: recover_def and_then_Inr Let_def secured_def split: option.splits if_splits)
  then show "updates_row (rc_key rc) (rc_owner rc) now s s'"
  proof cases
    case row
    show ?thesis by (rule taken_row [OF row(4) _ row(1)]) (use row(2,3) in \<open>simp_all add: rc_owner_def\<close>)
  qed (rule unchanged_row)
qed

lemma delegate_existing_cases:
  assumes "delegate_existing rq now e c s = Inr (r, s1)" "claim_at s (rq_key rq) = Some c"
  shows "updates_row (rq_key rq) (rq_owner rq) now s (record_decision (rq_key rq) (rq_owner rq) (outcome_tag (lr_outcome r)) r s1)"
proof -
  have o: "co_owner_id (rq_owner rq) = rq_owner_id rq" "co_node_id (rq_owner rq) = rq_node_id rq" by (simp_all add: rq_owner_def)
  from assms consider (same) "s1 = s"
    | (row) l row where "\<not> secured now c \<or> holds (rq_owner_id rq) (rq_node_id rq) c"
        "row = grant_row (rq_owner_id rq) (rq_node_id rq) (rq_branch rq) now e l (rq_paths rq) (rq_symbols rq)"
        "r = lease_of Granted (row c)" "s1 = update_claim (rq_key rq) (\<lambda>c. (row c)\<lparr>dc_claim_lapses := as_i64 l\<rparr>) s"
    by (auto simp: delegate_existing_def and_then_Inr Let_def secured_def split: if_splits)
  then show ?thesis
  proof cases
    case row
    show ?thesis by (rule taken_row [OF _ _ assms(2), where row = row and l = "as_i64 l"]) (use row in \<open>simp_all add: o\<close>)
  qed (blast intro: unchanged_row)
qed

interpretation delegating: lease_transaction "delegate rq now" "rq_key rq" "rq_owner rq" now for rq now
proof (rule lease_transactionI)
  fix s r s' assume "delegate rq now s = Inr (r, s')"
  then consider (existing) c e s1 where "claim_at s (rq_key rq) = Some c" "delegate_existing rq now e c s = Inr (r, s1)"
        "s' = record_decision (rq_key rq) (rq_owner rq) (outcome_tag (lr_outcome r)) r s1"
    | (fresh) e where "claim_at s (rq_key rq) = None" "r = lease_of Granted (fresh_claim rq now e)"
        "s' = record_decision (rq_key rq) (rq_owner rq) 1 r (s\<lparr>cs_claims := cs_claims s @ [fresh_claim rq now e]\<rparr>)"
    by (auto simp: delegate_def delegate_racing_def and_then_Inr Let_def split: option.splits if_splits)
  then show "updates_row (rq_key rq) (rq_owner rq) now s s' \<or> inserts_row (rq_key rq) (rq_owner rq) s s'"
  proof cases
    case existing
    with delegate_existing_cases show ?thesis by blast
  next
    case fresh
    have "holds (co_owner_id (rq_owner rq)) (co_node_id (rq_owner rq)) (fresh_claim rq now e)"
      by (simp add: holds_def fresh_claim_def rq_owner_def)
    with fresh show ?thesis unfolding inserts_row_def by (intro disjI2 conjI exI [of _ "fresh_claim rq now e"] exI [of _ r]) simp_all
  qed
qed

section \<open>The procedures\<close>

text \<open>
  What a procedure does: it refuses and leaves the state; or it accepts the signature, which consumes the
  nonce, and refuses then; or it accepts it and runs one lease transaction in the name of the signer.
\<close>

definition ran :: "claim_key \<Rightarrow> claim_owner \<Rightarrow> int \<Rightarrow> claim_server \<Rightarrow> claim_server \<Rightarrow> bool" where
  "ran k w now s s' \<longleftrightarrow> (\<exists>t :: unit claim_transaction. lease_transaction t k w now \<and> t s = Inr ((), s'))"

lemma ranI: "lease_transaction t k w now \<Longrightarrow> t s = Inr (x, s') \<Longrightarrow> ran k w now s s'"
  unfolding ran_def using lease_transaction.forget [of t k w now]
  by (intro exI [of _ "\<lambda>s. and_then (t s) (\<lambda>(_, s'). Inr ((), s'))"]) auto

lemma rpc_store_cases:
  assumes "rpc_store t s = (res, s')" "lease_transaction t k w now"
  obtains (failed) e where "res = Inl e" "s' = s" | (ran) x where "res = Inr x" "ran k w now s s'"
  using assms by (auto simp: rpc_store_def split: sum.splits prod.splits intro: ranI)

lemma reply_lease_cases:
  assumes "reply_lease format t s = (res, s')" "lease_transaction t k w now"
  obtains (failed) e where "res = Inl e" "s' = s" | (ran) "ran k w now s s'"
proof -
  obtain res1 s1 where r: "rpc_store t s = (res1, s1)" by fastforce
  from r assms(2) show ?thesis
  proof (cases rule: rpc_store_cases)
    case failed
    with assms(1) r that(1) show ?thesis by (auto simp: reply_lease_def rpc_then_def)
  next
    case ran
    with assms(1) r that(2) show ?thesis by (auto simp: reply_lease_def rpc_then_def rpc_check_def split: sum.splits)
  qed
qed

lemma rpc_check_cases:
  assumes "rpc_check v f s = (res, s')"
  obtains (failed) e where "v = Inl e" "res = Inl e" "s' = s" | (passed) x where "v = Inr x" "f x s = (res, s')"
  using assms by (cases v) (auto simp: rpc_check_def)

lemma required_Inr: "required v field = Inr x \<longleftrightarrow> x = v \<and> \<not> blank v"
  by (auto simp: required_def)

definition served ::
  "claim_key \<Rightarrow> string \<Rightarrow> int \<Rightarrow> string rpc \<Rightarrow> claim_server \<Rightarrow> (rpc_status + 'a) \<Rightarrow> claim_server \<Rightarrow> bool" where
  "served k w now auth s res s' \<longleftrightarrow> ((\<exists>e. res = Inl e) \<and> s' = s) \<or>
     (case auth s of (Inl e, s1) \<Rightarrow> res = Inl e \<and> s' = s1
      | (Inr node, s1) \<Rightarrow> (\<exists>e. res = Inl e) \<and> s' = s1 \<or> ran k \<lparr>co_owner_id = w, co_node_id = node\<rparr> now s1 s')"

lemma served_check:
  "(\<And>x. v = Inr x \<Longrightarrow> served k w now auth s (fst (f x s)) (snd (f x s))) \<Longrightarrow>
   served k w now auth s (fst (rpc_check v f s)) (snd (rpc_check v f s))"
  by (cases v) (auto simp: rpc_check_def served_def)

lemma served_auth:
  assumes "\<And>node s1. auth s = (Inr node, s1) \<Longrightarrow>
      (\<exists>e. fst (f node s1) = Inl e) \<and> snd (f node s1) = s1 \<or> ran k \<lparr>co_owner_id = w, co_node_id = node\<rparr> now s1 (snd (f node s1))"
  shows "served k w now auth s (fst (rpc_then auth f s)) (snd (rpc_then auth f s))"
  using assms by (auto simp: served_def rpc_then_def split: sum.splits prod.splits)

lemma served_store:
  assumes "lease_transaction t k \<lparr>co_owner_id = w, co_node_id = node\<rparr> now"
  shows "(\<exists>e. fst (rpc_store t s) = Inl e) \<and> snd (rpc_store t s) = s \<or> ran k \<lparr>co_owner_id = w, co_node_id = node\<rparr> now s (snd (rpc_store t s))"
  by (rule rpc_store_cases [OF prod.collapse [symmetric] assms]) auto

lemma served_lease:
  assumes "lease_transaction t k \<lparr>co_owner_id = w, co_node_id = node\<rparr> now"
  shows "(\<exists>e. fst (reply_lease format t s) = Inl e) \<and> snd (reply_lease format t s) = s \<or>
     ran k \<lparr>co_owner_id = w, co_node_id = node\<rparr> now s (snd (reply_lease format t s))"
  by (rule reply_lease_cases [OF prod.collapse [symmetric] assms]) auto

lemma check_then:
  assumes "\<And>x. v = Inr x \<Longrightarrow> (\<exists>e. fst (f x s) = Inl e) \<and> snd (f x s) = s \<or> P (snd (f x s))"
  shows "(\<exists>e. fst (rpc_check v f s) = Inl e) \<and> snd (rpc_check v f s) = s \<or> P (snd (rpc_check v f s))"
  using assms by (cases v) (auto simp: rpc_check_def)

lemma map_served:
  "served k w now auth s (fst (m s)) (snd (m s)) \<Longrightarrow> served k w now auth s (fst (rpc_map g m s)) (snd (rpc_map g m s))"
  by (auto simp: rpc_map_def rpc_then_def served_def split: sum.splits prod.splits)

lemma delegate_lease: "lease_transaction (delegate \<lparr>rq_tenant_id = t, rq_repository_id = r, rq_task_id = k, rq_owner_id = w,
    rq_node_id = n, rq_branch = b, rq_lease = l, rq_paths = p, rq_symbols = y\<rparr> now) (t, r, k) \<lparr>co_owner_id = w, co_node_id = n\<rparr> now"
  using delegating.lease_transaction_axioms [of "\<lparr>rq_tenant_id = t, rq_repository_id = r, rq_task_id = k, rq_owner_id = w,
    rq_node_id = n, rq_branch = b, rq_lease = l, rq_paths = p, rq_symbols = y\<rparr>" now] by (simp add: rq_key_def rq_owner_def)

lemma recover_lease: "lease_transaction (recover \<lparr>rc_tenant_id = t, rc_repository_id = r, rc_task_id = k, rc_expected_owner = x,
    rc_owner_id = w, rc_node_id = n, rc_reason = q, rc_branch = b, rc_lease = l, rc_paths = p, rc_symbols = y\<rparr> now)
    (t, r, k) \<lparr>co_owner_id = w, co_node_id = n\<rparr> now"
  using recovering.lease_transaction_axioms [of "\<lparr>rc_tenant_id = t, rc_repository_id = r, rc_task_id = k, rc_expected_owner = x,
    rc_owner_id = w, rc_node_id = n, rc_reason = q, rc_branch = b, rc_lease = l, rc_paths = p, rc_symbols = y\<rparr>" now]
  by (simp add: rc_key_def rc_owner_def)

lemma serve_served:
  "served (t, r, k) w (clock 2) (authenticate ed parse clock t r k w op au) s
     (fst (serve ed parse format clock t r k w op au s)) (snd (serve ed parse format clock t r k w op au s))"
proof (cases op)
  case (ClaimDelegate b l p y)
  show ?thesis unfolding ClaimDelegate serve.simps delegate_claim_rpc_def
    by (rule map_served, rule served_auth, (rule check_then)+, simp only: required_Inr, rule served_lease, rule delegate_lease)
next
  case (ClaimRenew l)
  show ?thesis unfolding ClaimRenew serve.simps renew_claim_rpc_def with_identifiers_def
    by (rule map_served, (rule served_check)+, simp only: required_Inr, rule served_auth, rule check_then, rule served_lease,
        rule renewing.lease_transaction_axioms)
next
  case ClaimRelease
  show ?thesis unfolding ClaimRelease serve.simps release_claim_rpc_def with_identifiers_def
    by (rule map_served, (rule served_check)+, simp only: required_Inr, rule served_auth, rule served_store,
        rule releasing.lease_transaction_axioms)
next
  case (ClaimRecover x b l p y q)
  show ?thesis unfolding ClaimRecover serve.simps recover_claim_rpc_def with_identifiers_def
    by (rule map_served, (rule served_check)+, simp only: required_Inr, rule served_auth, rule check_then, rule served_lease,
        rule recover_lease)
next
  case ClaimPark
  show ?thesis unfolding ClaimPark serve.simps park_claim_rpc_def with_identifiers_def
    by (rule map_served, (rule served_check)+, simp only: required_Inr, rule served_auth, rule served_store,
        rule parking.lease_transaction_axioms)
next
  case (ClaimAnswer l)
  show ?thesis unfolding ClaimAnswer serve.simps answer_claim_rpc_def with_identifiers_def
    by (rule map_served, (rule served_check)+, simp only: required_Inr, rule served_auth, rule check_then, rule served_lease,
        rule answering.lease_transaction_axioms)
qed

text \<open>What an accepted signature stands for.\<close>

definition in_force :: "key_lifecycle \<Rightarrow> int \<Rightarrow> bool" where
  "in_force kl now \<longleftrightarrow> sk_activated_at (kl_record kl) \<le> now \<and> \<not> since (kl_revoked_at kl) now \<and>
     \<not> since (sk_expires_at (kl_record kl)) now \<and> \<not> since (kl_retired_at kl) now"

lemma judge_resolved: "judge kl b = KeyResolved r \<longleftrightarrow> r = kl_record kl \<and> sk_tenant_id r = eb_tenant_id b \<and>
    sk_repository_id r = eb_repository_id b \<and> sk_node_id r = eb_producer_id b \<and> in_force kl (eb_accepted_at b)"
  by (auto simp: judge_def in_force_def Let_def)

lemma verified_claim:
  assumes "verify_claim ed parse t r k w op (Some a) (resolve_key ks b) now = Inr ()"
  shows "\<exists>kl u. fetch_key ks (eb_signing_key_id b) = Some kl \<and> sk_tenant_id (kl_record kl) = eb_tenant_id b \<and>
    sk_repository_id (kl_record kl) = eb_repository_id b \<and> sk_node_id (kl_record kl) = eb_producer_id b \<and>
    in_force kl (eb_accepted_at b) \<and> ed (sk_public_key (kl_record kl)) (claim_signing_bytes t r k w op a) (au_signature a) \<and>
    parse (au_signed_at a) = Some u \<and> \<bar>u - now\<bar> \<le> seconds MAX_CLAIM_AUTH_SKEW_SECS"
proof -
  obtain rec u where rec: "resolve_key ks b = KeyResolved rec" "ed (sk_public_key rec) (claim_signing_bytes t r k w op a) (au_signature a)"
      "parse (au_signed_at a) = Some u" "\<bar>u - now\<bar> \<le> seconds MAX_CLAIM_AUTH_SKEW_SECS"
    using assms by (auto simp: verify_claim_def verify_signed_bytes_def check_freshness_def and_then_Inr
        split: if_splits option.splits key_resolution.splits)
  then obtain kl where "fetch_key ks (eb_signing_key_id b) = Some kl" "judge kl b = KeyResolved rec"
    by (auto simp: resolve_key_def split: option.splits)
  with rec show ?thesis by (auto simp: judge_resolved)
qed

lemma authenticated:
  assumes "authenticate ed parse clock t r k w op au s = (Inr node, s1)"
  obtains a kl u where "au = Some a" "node = au_node_id a" "fetch_key (cs_keys s) (au_signing_key_id a) = Some kl"
    "sk_tenant_id (kl_record kl) = t" "sk_repository_id (kl_record kl) = r" "sk_node_id (kl_record kl) = node"
    "in_force kl (clock 0)" "ed (sk_public_key (kl_record kl)) (claim_signing_bytes t r k w op a) (au_signature a)"
    "parse (au_signed_at a) = Some u" "\<bar>u - clock 1\<bar> \<le> seconds MAX_CLAIM_AUTH_SKEW_SECS"
    "(au_signing_key_id a, au_nonce a) \<notin> set (cs_nonces s)"
    "s1 = s\<lparr>cs_nonces := cs_nonces s @ [(au_signing_key_id a, au_nonce a)]\<rparr>"
  using assms
  by (fastforce simp: authenticate_def consume_claim_nonce_def Let_def dest!: verified_claim
      split: option.splits sum.splits if_splits prod.splits)

lemma unauthenticated: "authenticate ed parse clock t r k w op au s = (Inl e, s1) \<Longrightarrow> s1 = s"
  by (auto simp: authenticate_def consume_claim_nonce_def Let_def split: option.splits sum.splits if_splits prod.splits)

lemma serve_cases:
  assumes "serve ed parse format clock t r k w op au s = (res, s')"
  obtains (refused) e where "res = Inl e" "s' = s"
  | (failed) e node where "res = Inl e" "authenticate ed parse clock t r k w op au s = (Inr node, s')"
  | (ran) node s1 where "authenticate ed parse clock t r k w op au s = (Inr node, s1)"
      "ran (t, r, k) \<lparr>co_owner_id = w, co_node_id = node\<rparr> (clock 2) s1 s'"
proof -
  obtain x s1 where x: "authenticate ed parse clock t r k w op au s = (x, s1)" by fastforce
  have "served (t, r, k) w (clock 2) (authenticate ed parse clock t r k w op au) s res s'"
    using serve_served [of t r k w clock ed parse op au s format] assms by simp
  then show ?thesis
    using that x unauthenticated [of ed parse clock t r k w op au s] by (cases x) (auto simp: served_def)
qed

section \<open>Servers\<close>

definition empty_server :: claim_server where
  "empty_server = \<lparr>cs_keys = [], cs_nonces = [], cs_claims = [], cs_history = []\<rparr>"

inductive claim_step :: "ed25519 \<Rightarrow> rfc3339_parser \<Rightarrow> rfc3339_formatter \<Rightarrow> claim_server \<Rightarrow> claim_server \<Rightarrow> bool"
  for ed parse format where
  Served: "serve ed parse format clock t r k w op au s = (res, s') \<Longrightarrow> claim_step ed parse format s s'"
| Registered: "claim_step ed parse format s (s\<lparr>cs_keys := register_key rec (cs_keys s)\<rparr>)"
| KeyRetirement: "claim_step ed parse format s (s\<lparr>cs_keys := retire_key i at_time (cs_keys s)\<rparr>)"
| KeyRevocation: "claim_step ed parse format s (s\<lparr>cs_keys := snd (revoke_key i reason at_time (cs_keys s))\<rparr>)"

abbreviation reachable_server :: "ed25519 \<Rightarrow> rfc3339_parser \<Rightarrow> rfc3339_formatter \<Rightarrow> claim_server \<Rightarrow> bool" where
  "reachable_server ed parse format \<equiv> (claim_step ed parse format)\<^sup>*\<^sup>* empty_server"

definition server_ok :: "claim_server \<Rightarrow> bool" where
  "server_ok s \<longleftrightarrow> distinct (map dc_key (cs_claims s)) \<and> distinct (cs_nonces s) \<and> distinct (map kl_id (cs_keys s)) \<and>
     (\<forall>k c. claim_at s k = Some c \<longrightarrow> (\<exists>d \<in> set (cs_history s). grants d c))"

lemma claim_at_other [simp]: "claim_at (s\<lparr>cs_keys := ks\<rparr>) k = claim_at s k" "claim_at (s\<lparr>cs_nonces := ns\<rparr>) k = claim_at s k"
  by (simp_all add: claim_at_def)

lemma key_ids: "map kl_id (retire_key i n ks) = map kl_id ks" "map kl_id (snd (revoke_key i q n ks)) = map kl_id ks"
  by (simp_all add: retire_key_def revoke_key_def Let_def)

lemma register_key_distinct: "distinct (map kl_id ks) \<Longrightarrow> distinct (map kl_id (register_key rec ks))"
  by (auto simp: register_key_def fetch_key_def find_None_iff)

lemma ran_keeps:
  assumes "ran k w now s s'" "server_ok s"
  shows "server_ok s' \<and> cs_keys s' = cs_keys s \<and> cs_nonces s' = cs_nonces s \<and> (\<exists>d. cs_history s' = cs_history s @ [d]) \<and>
    (\<forall>k' c. claim_at s k' = Some c \<longrightarrow> (\<exists>c'. claim_at s' k' = Some c'))"
proof -
  from assms(1) obtain t :: "unit claim_transaction" where lt: "lease_transaction t k w now" and t: "t s = Inr ((), s')"
    by (auto simp: ran_def)
  note laws = lease_transaction.frame [OF lt t] lease_transaction.keys [OF lt t] lease_transaction.history_grows [OF lt t]
    lease_transaction.no_claim_lost [OF lt t] lease_transaction.grants_kept [OF lt t]
  have "server_ok s'" using assms(2) laws(1,2,5) by (auto simp: server_ok_def)
  with laws show ?thesis by blast
qed

lemma authenticated_keeps:
  assumes "authenticate ed parse clock t r k w op au s = (Inr node, s1)" "server_ok s"
  shows "server_ok s1 \<and> cs_keys s1 = cs_keys s \<and> prefix (cs_nonces s) (cs_nonces s1) \<and> cs_claims s1 = cs_claims s \<and> cs_history s1 = cs_history s"
  by (rule authenticated [OF assms(1)]) (use assms(2) in \<open>auto simp: server_ok_def\<close>)

lemma claim_step_keeps:
  assumes "claim_step ed parse format s s'" "server_ok s"
  shows "server_ok s' \<and> prefix (cs_nonces s) (cs_nonces s') \<and> prefix (cs_history s) (cs_history s') \<and>
    (\<forall>k c. claim_at s k = Some c \<longrightarrow> (\<exists>c'. claim_at s' k = Some c'))"
  using assms
proof cases
  case (Served clock t r k w op au res)
  from Served show ?thesis
  proof (cases rule: serve_cases)
    case (failed e node)
    with authenticated_keeps [OF failed(2) assms(2)] show ?thesis by (auto simp: claim_at_def)
  next
    case (ran node s1)
    note k1 = authenticated_keeps [OF ran(1) assms(2)]
    with ran_keeps [OF ran(2)] show ?thesis by (auto simp: claim_at_def)
  qed (use assms(2) in auto)
qed (use assms(2) in \<open>auto simp: server_ok_def key_ids register_key_distinct\<close>)

lemma reachable_server_ok:
  assumes "reachable_server ed parse format s"
  shows "server_ok s"
  using assms by (induction rule: rtranclp_induct) (auto simp: server_ok_def empty_server_def claim_at_def dest: claim_step_keeps)

text \<open>
  C12. The authority's books are sound. In every state its procedures reach from an empty database no task has two
  claims, no key and no nonce is registered twice, and every claim rests on a recorded grant to exactly its
  owner, node and start; whatever happens next no decision and no nonce is forgotten and no claim disappears.
\<close>

theorem claim_authority_is_sound:
  assumes "reachable_server ed parse format s"
  shows "distinct (map dc_key (cs_claims s)) \<and> distinct (cs_nonces s) \<and> distinct (map kl_id (cs_keys s)) \<and>
    (\<forall>c \<in> set (cs_claims s). \<exists>d \<in> set (cs_history s). grants d c) \<and>
    (\<forall>s'. claim_step ed parse format s s' \<longrightarrow> prefix (cs_nonces s) (cs_nonces s') \<and> prefix (cs_history s) (cs_history s') \<and>
       dc_key ` set (cs_claims s) \<subseteq> dc_key ` set (cs_claims s'))"
proof -
  note ok = reachable_server_ok [OF assms]
  have at_set: "claim_at x k = Some c \<Longrightarrow> c \<in> set (cs_claims x) \<and> dc_key c = k" for x k c
    by (auto simp: claim_at_def find_Some_iff)
  have at: "claim_at s (dc_key c) = Some c" if "c \<in> set (cs_claims s)" for c
    using ok that by (simp add: server_ok_def claim_at_def find_distinct_Some)
  have "dc_key ` set (cs_claims s) \<subseteq> dc_key ` set (cs_claims s')" if st: "claim_step ed parse format s s'" for s'
  proof
    fix k assume "k \<in> dc_key ` set (cs_claims s)"
    then obtain c where "claim_at s k = Some c" using at by auto
    then obtain c' where "claim_at s' k = Some c'" using claim_step_keeps [OF st ok] by blast
    then show "k \<in> dc_key ` set (cs_claims s')" using at_set by blast
  qed
  then show ?thesis using ok at claim_step_keeps [OF _ ok] unfolding server_ok_def by blast
qed

text \<open>
  C11. A claim is exclusive. While a lease runs, and for as long as the claim is parked, no request whatsoever that is
  not made by the owner through the node that holds it changes the claim; and a request
  of the holder itself never loses it nor moves the start of its evidence.
\<close>

theorem secured_claim_is_exclusive:
  assumes "serve ed parse format clock t r k w op (Some a) s = (res, s')"
    and "claim_at s key = Some c" "secured (clock 2) c"
  shows "\<exists>c'. claim_at s' key = Some c' \<and> (if key = (t, r, k) \<and> holds w (au_node_id a) c
    then holds w (au_node_id a) c' \<and> dc_claim_started_at c' = dc_claim_started_at c else c' = c)"
  using assms(1)
proof (cases rule: serve_cases)
  case refused
  with assms(2) show ?thesis by auto
next
  case (failed e node)
  from failed(2) show ?thesis by (rule authenticated) (use assms(2) in auto)
next
  case (ran node s1)
  then obtain tr :: "unit claim_transaction" where lt: "lease_transaction tr (t, r, k) \<lparr>co_owner_id = w, co_node_id = node\<rparr> (clock 2)"
    and tr: "tr s1 = Inr ((), s')" by (auto simp: ran_def)
  have n: "node = au_node_id a" and c: "claim_at s1 key = Some c"
    using ran(1) by (rule authenticated; use assms(2) in auto)+
  show ?thesis
  proof (cases "key = (t, r, k)")
    case True
    with lease_transaction.kept [OF lt tr] lease_transaction.exclusive [OF lt tr] c n assms(3) show ?thesis by fastforce
  next
    case False
    then have "claim_at s' key = Some c" using lease_transaction.frame [OF lt tr] c by metis
    with False show ?thesis by simp
  qed
qed

text \<open>
  C13. Nothing is granted to a stranger. If whatever verifies under a node's key is a request that the node
  signed, then a procedure succeeds only on a request that the named node signed with exactly these fields, with a key that
  is registered for this tenant, repository and node and in force, at most five minutes from the server's clock, and
  with a nonce that was never used with the key.
\<close>

theorem granted_requests_were_signed:
  assumes "serve ed parse format clock t r k w op au s = (Inr res, s')"
    and unforgeable: "\<And>pk m sig. ed pk m sig \<Longrightarrow> \<exists>q. signed_by pk q \<and> m = signed_bytes q"
    and small: "\<And>pk q. signed_by pk q \<Longrightarrow> length (signed_bytes q) < 2 ^ 32"
      "\<And>a. au = Some a \<Longrightarrow> length (claim_signing_bytes t r k w op a) < 2 ^ 32"
  shows "\<exists>a kl q u. au = Some a \<and> fetch_key (cs_keys s) (au_signing_key_id a) = Some kl \<and> sk_tenant_id (kl_record kl) = t \<and>
    sk_repository_id (kl_record kl) = r \<and> sk_node_id (kl_record kl) = au_node_id a \<and> in_force kl (clock 0) \<and>
    signed_by (sk_public_key (kl_record kl)) q \<and> bound_request q = ClaimRequest t r k w op (a\<lparr>au_signature := []\<rparr>) \<and>
    parse (au_signed_at a) = Some u \<and> \<bar>u - clock 1\<bar> \<le> 300000000 \<and> (au_signing_key_id a, au_nonce a) \<notin> set (cs_nonces s)"
proof -
  obtain node s1 where "authenticate ed parse clock t r k w op au s = (Inr node, s1)"
    using assms(1) by (cases rule: serve_cases) auto
  then obtain a kl u where a: "au = Some a" "node = au_node_id a" "fetch_key (cs_keys s) (au_signing_key_id a) = Some kl"
    "sk_tenant_id (kl_record kl) = t" "sk_repository_id (kl_record kl) = r" "sk_node_id (kl_record kl) = node"
    "in_force kl (clock 0)" "ed (sk_public_key (kl_record kl)) (claim_signing_bytes t r k w op a) (au_signature a)"
    "parse (au_signed_at a) = Some u" "\<bar>u - clock 1\<bar> \<le> seconds MAX_CLAIM_AUTH_SKEW_SECS"
    "(au_signing_key_id a, au_nonce a) \<notin> set (cs_nonces s)" by (rule authenticated)
  from unforgeable [OF a(8)] obtain q where q: "signed_by (sk_public_key (kl_record kl)) q"
    "claim_signing_bytes t r k w op a = signed_bytes q" by blast
  then have "signed_bytes q = signed_bytes (ClaimRequest t r k w op a)" by simp
  then have "bound_request q = ClaimRequest t r k w op (a\<lparr>au_signature := []\<rparr>)"
    using signed_bytes_bound [of q "ClaimRequest t r k w op a"] small(1) [OF q(1)] small(2) [OF a(1)] by simp
  with a q show ?thesis by (auto simp: seconds_def MAX_CLAIM_AUTH_SKEW_SECS_def)
qed

lemma steps_keep_nonces:
  assumes "(claim_step ed parse format)\<^sup>*\<^sup>* s s'" "server_ok s"
  shows "server_ok s' \<and> set (cs_nonces s) \<subseteq> set (cs_nonces s')"
  using assms
proof (induction rule: rtranclp_induct)
  case (step y z)
  then show ?case using claim_step_keeps [OF step.hyps(2)] by (auto dest: set_mono_prefix)
qed simp

text \<open>
  C14. No signature works twice. Once a procedure has succeeded, no later request with its key and nonce
  succeeds, whichever procedure it names and however much later; it changes nothing.
\<close>

theorem replay_is_refused:
  assumes "reachable_server ed parse format s" and "serve ed parse format clock t r k w op (Some a) s = (Inr res, s1)"
    and "(claim_step ed parse format)\<^sup>*\<^sup>* s1 s2"
    and "au_signing_key_id b = au_signing_key_id a" "au_nonce b = au_nonce a"
  shows "\<exists>e. serve ed parse format clock' t' r' k' w' op' (Some b) s2 = (Inl e, s2)"
proof -
  have ok: "server_ok s" using assms(1) by (rule reachable_server_ok)
  have "server_ok s1" using claim_step_keeps [OF Served ok] assms(2) by blast
  have "(au_signing_key_id a, au_nonce a) \<in> set (cs_nonces s1)"
    using assms(2)
  proof (cases rule: serve_cases)
    case (ran node s0)
    have "(au_signing_key_id a, au_nonce a) \<in> set (cs_nonces s0)" using ran(1) by (rule authenticated) auto
    then show ?thesis using ran_keeps [OF ran(2)] authenticated_keeps [OF ran(1) ok] by auto
  qed auto
  then have used: "(au_signing_key_id b, au_nonce b) \<in> set (cs_nonces s2)"
    using steps_keep_nonces [OF assms(3) \<open>server_ok s1\<close>] assms(4,5) by auto
  obtain out s3 where out: "serve ed parse format clock' t' r' k' w' op' (Some b) s2 = (out, s3)" by fastforce
  then show ?thesis
  proof (cases rule: serve_cases)
    case (failed e node)
    from failed(2) show ?thesis by (rule authenticated) (use used in auto)
  next
    case (ran node s0)
    from ran(1) show ?thesis by (rule authenticated) (use used in auto)
  qed (use out in auto)
qed

end
