(* ===== verification/Federated_Claims.thy ===== *)
theory Federated_Claims
  imports Ackplane_Claims Task_Machine Conformance_Engine
begin

text \<open>
  The way of a claim in a federated repository: the facade \<^verbatim>\<open>facade/executive/\<close> asks an authority
  instead of deciding; \<^verbatim>\<open>lodestar-mcp/src/federation.rs\<close> turns the call into a request;
  \<^verbatim>\<open>ackplane-node/src/companion/operations.rs\<close> and \<^verbatim>\<open>ackplane-client/src/auth.rs\<close> sign and send it; the server of
  \<open>Ackplane_Claims\<close> decides; the answer is projected onto the local ledger. The state is a ledger beside
  a server. Clocks, nonces and whether request and reply arrive are arguments of an exchange.
\<close>

section \<open>Sending a request\<close>

record wire_env =
  we_ed :: ed25519
  we_parse :: rfc3339_parser
  we_format :: rfc3339_formatter

record claim_node =
  nd_tenant_id :: string
  nd_repository_id :: string
  nd_node_id :: string
  nd_signing_key_id :: string
  nd_sign :: "byte list \<Rightarrow> byte list option"

datatype delivery = Delivered | RequestLost | ReplyLost

record exchange =
  ex_signed_at :: int
  ex_nonce :: "byte list"
  ex_clock :: "nat \<Rightarrow> int"
  ex_delivery :: delivery

definition unsigned_authentication :: "wire_env \<Rightarrow> claim_node \<Rightarrow> exchange \<Rightarrow> authentication" where
  "unsigned_authentication env nd ex = \<lparr>au_signing_key_id = nd_signing_key_id nd, au_node_id = nd_node_id nd,
     au_signed_at = unwrap_or_empty (we_format env (ex_signed_at ex)), au_nonce = ex_nonce ex, au_signature = []\<rparr>"

definition client_authenticate ::
  "wire_env \<Rightarrow> claim_node \<Rightarrow> exchange \<Rightarrow> string \<Rightarrow> string \<Rightarrow> claim_operation \<Rightarrow> authentication option" where
  "client_authenticate env nd ex task_id owner_id op = (
     let au = unsigned_authentication env nd ex in
     case nd_sign nd (claim_signing_bytes (nd_tenant_id nd) (nd_repository_id nd) task_id owner_id op au) of
       None \<Rightarrow> None | Some sig \<Rightarrow> Some (au\<lparr>au_signature := sig\<rparr>))"

definition client_error :: lodestar_error where
  "client_error = Federated ''Ackplane client''"

definition node_claim ::
  "wire_env \<Rightarrow> claim_node \<Rightarrow> exchange \<Rightarrow> string \<Rightarrow> string \<Rightarrow> claim_operation \<Rightarrow> claim_server \<Rightarrow> claim_reply res \<times> claim_server" where
  "node_claim env nd ex task_id owner_id op sv = (case client_authenticate env nd ex task_id owner_id op of
       None \<Rightarrow> (Inl client_error, sv)
     | Some au \<Rightarrow>
         if ex_delivery ex = RequestLost then (Inl client_error, sv)
         else
           let (out, sv') = serve (we_ed env) (we_parse env) (we_format env) (ex_clock ex) (nd_tenant_id nd)
                 (nd_repository_id nd) task_id owner_id op (Some au) sv
           in if ex_delivery ex = ReplyLost then (Inl client_error, sv')
              else case out of Inl _ \<Rightarrow> (Inl client_error, sv') | Inr reply \<Rightarrow> (Inr reply, sv'))"

section \<open>The authority\<close>

datatype federated_claim_outcome = FederatedGranted federated_claim_grant | FederatedRejected string

definition parse_unix_seconds :: "wire_env \<Rightarrow> string \<Rightarrow> int res" where
  "parse_unix_seconds env x = (case we_parse env x of
       None \<Rightarrow> Inl (Federated ''Ackplane returned an unparseable timestamp'') | Some u \<Rightarrow> Inr (u div 1000000))"

definition outcome_from_result :: "wire_env \<Rightarrow> wire_lease_result \<Rightarrow> federated_claim_outcome res" where
  "outcome_from_result env r = (case wl_outcome r of
       Granted \<Rightarrow>
         and_then (parse_unix_seconds env (wl_claim_started_at r)) (\<lambda>started.
         and_then (parse_unix_seconds env (wl_lease_expires_at r)) (\<lambda>expires.
           Inr (FederatedGranted \<lparr>fg_owner = wl_owner_id r, fg_branch = (if wl_branch r = [] then None else Some (wl_branch r)),
             fg_claim_started_at = started, fg_lease_expires_at = expires, fg_claim_lapses = as_i64 (wl_claim_lapses r),
             fg_paths = wl_paths r, fg_symbols = wl_symbols r\<rparr>)))
     | Rejected \<Rightarrow> Inr (FederatedRejected (if wl_diagnostic r = []
         then ''held by '' @ wl_owner_id r @ '' until '' @ wl_lease_expires_at r else wl_diagnostic r)))"

definition lease_call ::
  "wire_env \<Rightarrow> claim_node \<Rightarrow> exchange \<Rightarrow> string \<Rightarrow> string \<Rightarrow> claim_operation \<Rightarrow> claim_server \<Rightarrow>
   federated_claim_outcome res \<times> claim_server" where
  "lease_call env nd ex task_id owner_id op sv = (case node_claim env nd ex task_id owner_id op sv of
       (Inr (LeaseReply r), sv') \<Rightarrow> (outcome_from_result env r, sv')
     | (Inr (FlagReply _), sv') \<Rightarrow> (Inl client_error, sv')
     | (Inl e, sv') \<Rightarrow> (Inl e, sv'))"

definition flag_call ::
  "wire_env \<Rightarrow> claim_node \<Rightarrow> exchange \<Rightarrow> string \<Rightarrow> string \<Rightarrow> claim_operation \<Rightarrow> claim_server \<Rightarrow> bool res \<times> claim_server" where
  "flag_call env nd ex task_id owner_id op sv = (case node_claim env nd ex task_id owner_id op sv of
       (Inr (FlagReply b), sv') \<Rightarrow> (Inr b, sv')
     | (Inr (LeaseReply _), sv') \<Rightarrow> (Inl client_error, sv')
     | (Inl e, sv') \<Rightarrow> (Inl e, sv'))"

text \<open>\<^verbatim>\<open>lease_secs.max(0) as u64\<close>.\<close>

definition lease_u64 :: "int \<Rightarrow> 64 word" where
  "lease_u64 n = word_of_int (max n 0)"

definition authority_delegate ::
  "wire_env \<Rightarrow> claim_node \<Rightarrow> exchange \<Rightarrow> string \<Rightarrow> string \<Rightarrow> string option \<Rightarrow> int \<Rightarrow> string list \<Rightarrow> string list \<Rightarrow> claim_server \<Rightarrow>
   federated_claim_outcome res \<times> claim_server" where
  "authority_delegate env nd ex task_id owner branch lease_secs paths symbols =
     lease_call env nd ex task_id owner (ClaimDelegate (unwrap_or_empty branch) (lease_u64 lease_secs) paths symbols)"

definition authority_renew ::
  "wire_env \<Rightarrow> claim_node \<Rightarrow> exchange \<Rightarrow> string \<Rightarrow> string \<Rightarrow> int \<Rightarrow> claim_server \<Rightarrow> federated_claim_outcome res \<times> claim_server" where
  "authority_renew env nd ex task_id owner lease_secs = lease_call env nd ex task_id owner (ClaimRenew (lease_u64 lease_secs))"

definition authority_release ::
  "wire_env \<Rightarrow> claim_node \<Rightarrow> exchange \<Rightarrow> string \<Rightarrow> string \<Rightarrow> claim_server \<Rightarrow> bool res \<times> claim_server" where
  "authority_release env nd ex task_id owner = flag_call env nd ex task_id owner ClaimRelease"

record federated_recover_request =
  fr_task_id :: string
  fr_expected_owner :: string
  fr_owner :: string
  fr_branch :: "string option"
  fr_reason :: string
  fr_lease_secs :: int
  fr_paths :: "string list"
  fr_symbols :: "string list"

definition authority_recover ::
  "wire_env \<Rightarrow> claim_node \<Rightarrow> exchange \<Rightarrow> federated_recover_request \<Rightarrow> claim_server \<Rightarrow> federated_claim_outcome res \<times> claim_server" where
  "authority_recover env nd ex q = lease_call env nd ex (fr_task_id q) (fr_owner q)
     (ClaimRecover (fr_expected_owner q) (unwrap_or_empty (fr_branch q)) (lease_u64 (fr_lease_secs q)) (fr_paths q)
        (fr_symbols q) (fr_reason q))"

definition authority_park ::
  "wire_env \<Rightarrow> claim_node \<Rightarrow> exchange \<Rightarrow> string \<Rightarrow> string \<Rightarrow> claim_server \<Rightarrow> bool res \<times> claim_server" where
  "authority_park env nd ex task_id owner = flag_call env nd ex task_id owner ClaimPark"

definition authority_answer ::
  "wire_env \<Rightarrow> claim_node \<Rightarrow> exchange \<Rightarrow> string \<Rightarrow> string \<Rightarrow> int \<Rightarrow> claim_server \<Rightarrow> federated_claim_outcome res \<times> claim_server" where
  "authority_answer env nd ex task_id owner lease_secs = lease_call env nd ex task_id owner (ClaimAnswer (lease_u64 lease_secs))"

section \<open>The facade\<close>

type_synonym plane = "ledger \<times> claim_server"
type_synonym 'a plane_call = "plane \<Rightarrow> 'a res \<times> plane"

definition locally :: "(ledger \<Rightarrow> ('a \<times> ledger) res) \<Rightarrow> 'a plane_call" where
  "locally f p = (case f (fst p) of Inl e \<Rightarrow> (Inl e, p) | Inr (x, s) \<Rightarrow> (Inr x, (s, snd p)))"

definition checked :: "'b res \<Rightarrow> ('b \<Rightarrow> 'a plane_call) \<Rightarrow> 'a plane_call" where
  "checked r f p = (case r of Inl e \<Rightarrow> (Inl e, p) | Inr x \<Rightarrow> f x p)"

text \<open>A grant is projected onto the ledger, a rejection is a claim that was not won.\<close>

definition on_grant ::
  "(claim_server \<Rightarrow> federated_claim_outcome res \<times> claim_server) \<Rightarrow> (federated_claim_grant \<Rightarrow> ledger \<Rightarrow> (unit \<times> ledger) res) \<Rightarrow>
   bool plane_call" where
  "on_grant call project p = (case call (snd p) of
       (Inl e, sv) \<Rightarrow> (Inl e, (fst p, sv))
     | (Inr (FederatedRejected _), sv) \<Rightarrow> (Inr False, (fst p, sv))
     | (Inr (FederatedGranted grant), sv) \<Rightarrow>
         (case project grant (fst p) of Inl e \<Rightarrow> (Inl e, (fst p, sv)) | Inr (_, s) \<Rightarrow> (Inr True, (s, sv))))"

definition on_flag ::
  "(claim_server \<Rightarrow> bool res \<times> claim_server) \<Rightarrow> (ledger \<Rightarrow> (unit \<times> ledger) res) \<Rightarrow> bool plane_call" where
  "on_flag call project p = (case call (snd p) of
       (Inl e, sv) \<Rightarrow> (Inl e, (fst p, sv))
     | (Inr False, sv) \<Rightarrow> (Inr False, (fst p, sv))
     | (Inr True, sv) \<Rightarrow>
         (case project (fst p) of Inl e \<Rightarrow> (Inl e, (fst p, sv)) | Inr (_, s) \<Rightarrow> (Inr True, (s, sv))))"

definition exec_claim_task :: "globset \<Rightarrow> string \<Rightarrow> string \<Rightarrow> int \<Rightarrow> int \<Rightarrow> bool plane_call" where
  "exec_claim_task glob i agent lease_secs now = checked (resolve_agent agent) (\<lambda>agent.
     locally (claim_task glob i agent lease_secs now))"

definition exec_claim_task_with_scope :: "globset \<Rightarrow> string \<Rightarrow> string \<Rightarrow> int \<Rightarrow> task_scope \<Rightarrow> int \<Rightarrow> bool plane_call" where
  "exec_claim_task_with_scope glob i agent lease_secs scope now = checked (resolve_agent agent) (\<lambda>agent.
     locally (claim_task_with_scope glob i agent lease_secs scope now))"

definition exec_claim_task_with_partial_scope ::
  "globset \<Rightarrow> wire_env \<Rightarrow> claim_node option \<Rightarrow> exchange \<Rightarrow> string \<Rightarrow> string \<Rightarrow> int \<Rightarrow> string list option \<Rightarrow> string list option \<Rightarrow>
   int \<Rightarrow> bool plane_call" where
  "exec_claim_task_with_partial_scope glob env authority ex i agent lease_secs paths symbols now =
     checked (resolve_agent agent) (\<lambda>agent p. case authority of
       None \<Rightarrow> locally (claim_task_with_partial_scope glob i agent lease_secs paths symbols now) p
     | Some nd \<Rightarrow>
         let branch = declared_branch (fst p) (Some agent) in
         checked (task_scope_of (fst p) i) (\<lambda>existing.
           let ps = (case paths of Some v \<Rightarrow> v | None \<Rightarrow> sc_paths existing);
               ys = (case symbols of Some v \<Rightarrow> v | None \<Rightarrow> sc_symbols existing)
           in on_grant (authority_delegate env nd ex i agent branch lease_secs ps ys)
                (\<lambda>grant. apply_federated_grant i agent grant EvClaimed now)) p)"

definition exec_renew_lease ::
  "wire_env \<Rightarrow> claim_node option \<Rightarrow> exchange \<Rightarrow> string \<Rightarrow> string \<Rightarrow> int \<Rightarrow> int \<Rightarrow> bool plane_call" where
  "exec_renew_lease env authority ex i agent lease_secs now =
     checked (resolve_agent agent) (\<lambda>agent. case authority of
       None \<Rightarrow> locally (renew_lease i agent lease_secs now)
     | Some nd \<Rightarrow> on_grant (authority_renew env nd ex i agent lease_secs)
         (\<lambda>grant. apply_federated_grant i agent grant EvLeaseRenewed now))"

definition exec_touch_lease :: "string \<Rightarrow> string \<Rightarrow> int \<Rightarrow> int \<Rightarrow> bool plane_call" where
  "exec_touch_lease i agent lease_secs now = checked (resolve_agent agent) (\<lambda>agent.
     locally (touch_lease i agent lease_secs now))"

definition exec_release_task ::
  "wire_env \<Rightarrow> claim_node option \<Rightarrow> exchange \<Rightarrow> string \<Rightarrow> string \<Rightarrow> int \<Rightarrow> bool plane_call" where
  "exec_release_task env authority ex i agent now =
     checked (resolve_agent agent) (\<lambda>agent. case authority of
       None \<Rightarrow> locally (release_task i agent now)
     | Some nd \<Rightarrow> on_flag (authority_release env nd ex i agent) (apply_federated_release i agent now))"

definition exec_recover_claim ::
  "wire_env \<Rightarrow> claim_node option \<Rightarrow> exchange \<Rightarrow> string \<Rightarrow> string \<Rightarrow> string \<times> string \<Rightarrow> string \<Rightarrow> string option \<Rightarrow> int \<Rightarrow> int \<Rightarrow>
   bool plane_call" where
  "exec_recover_claim env authority ex i expected_owner recovering reason reviewer lease_secs now =
     checked (resolve_agent (fst recovering)) (\<lambda>agent p. case authority of
       None \<Rightarrow> locally (recover_claim_authorized i expected_owner \<lparr>rs_agent = agent, rs_name = snd recovering\<rparr>
         (reason, reviewer) lease_secs now) p
     | Some nd \<Rightarrow>
         if reviewer \<noteq> None then (Inl (Federated (''federated recovery does not yet support a paused-task transfer with a human reviewer; '' @
           ''only an expired lease can be recovered (ADR-0096 clause 6)'')), p)
         else
           let branch = declared_branch (fst p) (Some agent) in
           checked (task_scope_of (fst p) i) (\<lambda>scope.
             on_grant (authority_recover env nd ex \<lparr>fr_task_id = i, fr_expected_owner = expected_owner, fr_owner = agent,
                 fr_branch = branch, fr_reason = reason, fr_lease_secs = lease_secs, fr_paths = sc_paths scope,
                 fr_symbols = sc_symbols scope\<rparr>)
               (\<lambda>grant. apply_federated_grant i agent grant EvClaimRecovered now)) p)"

definition exec_ask_question ::
  "wire_env \<Rightarrow> claim_node option \<Rightarrow> exchange \<Rightarrow> string \<Rightarrow> string \<Rightarrow> string \<Rightarrow> string option \<Rightarrow> int \<Rightarrow> bool plane_call" where
  "exec_ask_question env authority ex i agent question audience now =
     checked (resolve_agent agent) (\<lambda>agent p.
       let audience = normalize_audience audience in
       if audience = Some agent then (Inl (Invalid (SelfAddressed i)), p)
       else case authority of
         None \<Rightarrow> locally (ask_question i agent question audience now) p
       | Some nd \<Rightarrow> on_flag (authority_park env nd ex i agent) (apply_federated_park i agent question audience now) p)"

definition exec_answer_question ::
  "wire_env \<Rightarrow> claim_node option \<Rightarrow> exchange \<Rightarrow> string \<Rightarrow> string \<Rightarrow> string \<Rightarrow> int \<Rightarrow> int \<Rightarrow> bool plane_call" where
  "exec_answer_question env authority ex i text_body author lease_secs now p = (case authority of
       None \<Rightarrow> locally (answer_question i text_body author lease_secs now) p
     | Some nd \<Rightarrow>
         (case get_task (fst p) i of
            None \<Rightarrow> (Inl (NotFound i), p)
          | Some t \<Rightarrow>
              (case t_owner t of
                 None \<Rightarrow> (Inr False, p)
               | Some owner \<Rightarrow> on_grant (authority_answer env nd ex i owner lease_secs)
                   (\<lambda>grant. apply_federated_answer i author text_body grant now) p)))"

definition exec_pause_task ::
  "wire_env \<Rightarrow> claim_node option \<Rightarrow> exchange \<Rightarrow> string \<Rightarrow> string \<Rightarrow> string option \<Rightarrow> int \<Rightarrow> bool plane_call" where
  "exec_pause_task env authority ex i agent reason now =
     checked (resolve_agent agent) (\<lambda>agent. case authority of
       None \<Rightarrow> locally (pause_task i agent reason now)
     | Some nd \<Rightarrow> on_flag (authority_park env nd ex i agent) (apply_federated_pause i agent reason now))"

definition exec_resume_task ::
  "wire_env \<Rightarrow> claim_node option \<Rightarrow> exchange \<Rightarrow> string \<Rightarrow> string \<Rightarrow> int \<Rightarrow> int \<Rightarrow> bool plane_call" where
  "exec_resume_task env authority ex i agent lease_secs now =
     checked (resolve_agent agent) (\<lambda>agent. case authority of
       None \<Rightarrow> locally (resume_task i agent lease_secs now)
     | Some nd \<Rightarrow> on_grant (authority_answer env nd ex i agent lease_secs)
         (\<lambda>grant. apply_federated_resume i agent grant now))"

section \<open>What a grant says\<close>

text \<open>
  The transactions that grant a lease promise more: the row that is there afterwards is the granted one, the
  asker's, with a lease that ends in the future.
\<close>

locale granting_transaction = lease_transaction t k w now
  for t :: "lease_result claim_transaction" and k :: claim_key and w :: claim_owner and now :: int +
  assumes granted: "t s = Inr (r, s') \<Longrightarrow> lr_outcome r = Granted \<Longrightarrow> \<exists>c. claim_at s' k = Some c \<and>
    holds (co_owner_id w) (co_node_id w) c \<and> now < dc_lease_expires_at c \<and>
    r = lease_of Granted (c\<lparr>dc_claim_lapses := lr_claim_lapses r\<rparr>)"
begin

lemma reply_granted:
  assumes "reply_lease format t s = (Inr x, s')" "wl_outcome x = Granted"
  shows "\<exists>c. claim_at s' k = Some c \<and> holds (co_owner_id w) (co_node_id w) c \<and> now < dc_lease_expires_at c \<and>
    wl_owner_id x = dc_owner_id c \<and> wl_branch x = dc_branch c \<and> format (dc_claim_started_at c) = Some (wl_claim_started_at x) \<and>
    format (dc_lease_expires_at c) = Some (wl_lease_expires_at x) \<and> wl_paths x = dc_paths c \<and> wl_symbols x = dc_symbols c"
proof -
  obtain r where r: "t s = Inr (r, s')" "result_to_wire format r = Inr x"
    using assms(1) by (auto simp: reply_lease_def rpc_then_def rpc_check_def rpc_store_def split: sum.splits prod.splits)
  have out: "lr_outcome r = Granted" using r(2) assms(2) by (auto simp: result_to_wire_def split: option.splits)
  obtain c where c: "claim_at s' k = Some c" "holds (co_owner_id w) (co_node_id w) c" "now < dc_lease_expires_at c"
    "r = lease_of Granted (c\<lparr>dc_claim_lapses := lr_claim_lapses r\<rparr>)" using granted [OF r(1) out] by blast
  have "wl_owner_id x = lr_owner_id r" "wl_branch x = lr_branch r" "format (lr_claim_started_at r) = Some (wl_claim_started_at x)"
    "format (lr_lease_expires_at r) = Some (wl_lease_expires_at x)" "wl_paths x = lr_paths r" "wl_symbols x = lr_symbols r"
    using r(2) by (auto simp: result_to_wire_def split: option.splits)
  moreover have "lr_owner_id r = dc_owner_id c" "lr_branch r = dc_branch c" "lr_claim_started_at r = dc_claim_started_at c"
    "lr_lease_expires_at r = dc_lease_expires_at c" "lr_paths r = dc_paths c" "lr_symbols r = dc_symbols c"
    by (subst c(4), simp add: lease_of_def)+
  ultimately show ?thesis using c(1-3) by auto
qed

end

lemma add_lease_later: "add_lease now l = Inr e \<Longrightarrow> l \<noteq> 0 \<Longrightarrow> now < e"
  by (auto simp: add_lease_def seconds_def split: if_splits)

interpretation renewing: granting_transaction "renew k w lease now" k w now for k w lease now
proof
  fix s r s' assume run: "renew k w lease now s = Inr (r, s')" "lr_outcome r = Granted"
  then obtain c e where c: "claim_at s k = Some c" "verify_node w (dc_owner_id c) (dc_owner_node_id c) = Inr ()"
      "dc_owner_id c = co_owner_id w" "add_lease now lease = Inr e" "lease \<noteq> 0" "r = lease_of Granted (c\<lparr>dc_lease_expires_at := e\<rparr>)"
      "claim_at s' k = Some (c\<lparr>dc_lease_expires_at := e\<rparr>)"
    by (auto simp: renew_def and_then_Inr claim_at_update no_claim_def split: option.splits if_splits)
  then show "\<exists>c. claim_at s' k = Some c \<and> holds (co_owner_id w) (co_node_id w) c \<and> now < dc_lease_expires_at c \<and>
      r = lease_of Granted (c\<lparr>dc_claim_lapses := lr_claim_lapses r\<rparr>)"
    using verified_holder [OF c(2,3)] by (auto simp: add_lease_later lease_of_def)
qed

interpretation answering: granting_transaction "answer k w lease now" k w now for k w lease now
proof
  fix s r s' assume run: "answer k w lease now s = Inr (r, s')" "lr_outcome r = Granted"
  then obtain c e where c: "claim_at s k = Some c" "verify_node w (dc_owner_id c) (dc_owner_node_id c) = Inr ()"
      "dc_owner_id c = co_owner_id w" "add_lease now lease = Inr e" "lease \<noteq> 0" "r = lease_of Granted (c\<lparr>dc_lease_expires_at := e\<rparr>)"
      "claim_at s' k = Some (c\<lparr>dc_lease_expires_at := e, dc_parked := False\<rparr>)"
    by (auto simp: answer_def and_then_Inr claim_at_update no_claim_def split: option.splits if_splits)
  then show "\<exists>c. claim_at s' k = Some c \<and> holds (co_owner_id w) (co_node_id w) c \<and> now < dc_lease_expires_at c \<and>
      r = lease_of Granted (c\<lparr>dc_claim_lapses := lr_claim_lapses r\<rparr>)"
    using verified_holder [OF c(2,3)] by (auto simp: add_lease_later lease_of_def)
qed

lemma grant_row_lapses: "(grant_row o' n b now e l p y c)\<lparr>dc_claim_lapses := l'\<rparr> = grant_row o' n b now e l' p y c"
  by (simp add: grant_row_def Let_def)

lemma grant_row_expires [simp]: "dc_lease_expires_at (grant_row o' n b now e l p y c) = e"
  by (simp add: grant_row_def Let_def)

lemma lease_lapses [simp]: "lr_claim_lapses (lease_of out c) = dc_claim_lapses c" "dc_claim_lapses (grant_row o' n b now e l p y c) = l"
  by (simp_all add: lease_of_def grant_row_def Let_def)

interpretation recovering: granting_transaction "recover rc now" "rc_key rc" "rc_owner rc" now for rc now
proof
  fix s r s' assume run: "recover rc now s = Inr (r, s')" "lr_outcome r = Granted"
  then obtain c e l where c: "add_lease now (rc_lease rc) = Inr e" "rc_lease rc \<noteq> 0"
      "r = lease_of Granted (grant_row (rc_owner_id rc) (rc_node_id rc) (rc_branch rc) now e (l + 1) (rc_paths rc) (rc_symbols rc) c)"
      "claim_at s' (rc_key rc) = Some (grant_row (rc_owner_id rc) (rc_node_id rc) (rc_branch rc) now e (as_i64 (l + 1)) (rc_paths rc) (rc_symbols rc) c)"
    by (auto simp: recover_def and_then_Inr claim_at_update no_claim_def Let_def grant_row_lapses split: option.splits if_splits)
  then show "\<exists>c. claim_at s' (rc_key rc) = Some c \<and> holds (co_owner_id (rc_owner rc)) (co_node_id (rc_owner rc)) c \<and>
      now < dc_lease_expires_at c \<and> r = lease_of Granted (c\<lparr>dc_claim_lapses := lr_claim_lapses r\<rparr>)"
    by (simp add: rc_owner_def grant_row_lapses add_lease_later)
qed

interpretation delegating: granting_transaction "delegate rq now" "rq_key rq" "rq_owner rq" now for rq now
proof
  fix s r s' assume run: "delegate rq now s = Inr (r, s')" "lr_outcome r = Granted"
  then consider (row) c e l where "add_lease now (rq_lease rq) = Inr e" "rq_lease rq \<noteq> 0"
      "r = lease_of Granted (grant_row (rq_owner_id rq) (rq_node_id rq) (rq_branch rq) now e l (rq_paths rq) (rq_symbols rq) c)"
      "claim_at s' (rq_key rq) = Some (grant_row (rq_owner_id rq) (rq_node_id rq) (rq_branch rq) now e (as_i64 l) (rq_paths rq) (rq_symbols rq) c)"
    | (fresh) e where "add_lease now (rq_lease rq) = Inr e" "rq_lease rq \<noteq> 0" "r = lease_of Granted (fresh_claim rq now e)"
      "claim_at s' (rq_key rq) = Some (fresh_claim rq now e)"
    by (auto simp: delegate_def delegate_racing_def delegate_existing_def and_then_Inr claim_at_update claim_at_insert no_claim_def
        Let_def grant_row_lapses split: option.splits if_splits)
  then show "\<exists>c. claim_at s' (rq_key rq) = Some c \<and> holds (co_owner_id (rq_owner rq)) (co_node_id (rq_owner rq)) c \<and>
      now < dc_lease_expires_at c \<and> r = lease_of Granted (c\<lparr>dc_claim_lapses := lr_claim_lapses r\<rparr>)"
  proof cases
    case row
    then show ?thesis by (simp add: rq_owner_def grant_row_lapses add_lease_later)
  next
    case fresh
    then show ?thesis by (simp add: rq_owner_def fresh_claim_def holds_def add_lease_later lease_of_def)
  qed
qed

lemma rpc_Inr:
  "rpc_then m f s = (Inr y, s') \<longleftrightarrow> (\<exists>x s1. m s = (Inr x, s1) \<and> f x s1 = (Inr y, s'))"
  "rpc_check v g s = (Inr y, s') \<longleftrightarrow> (\<exists>x. v = Inr x \<and> g x s = (Inr y, s'))"
  "rpc_map h n s = (Inr z, s') \<longleftrightarrow> (\<exists>x. n s = (Inr x, s') \<and> z = h x)"
  "rpc_store q s = (Inr u, s') \<longleftrightarrow> q s = Inr (u, s')"
  by (auto simp: rpc_then_def rpc_check_def rpc_map_def rpc_store_def split: sum.splits prod.splits)

text \<open>What the answer to a granted request tells of the row.\<close>

definition tells :: "rfc3339_formatter \<Rightarrow> wire_lease_result \<Rightarrow> delegated_claim \<Rightarrow> bool" where
  "tells format x c \<longleftrightarrow> wl_owner_id x = dc_owner_id c \<and> wl_branch x = dc_branch c \<and> format (dc_claim_started_at c) = Some (wl_claim_started_at x) \<and>
    format (dc_lease_expires_at c) = Some (wl_lease_expires_at x) \<and> wl_paths x = dc_paths c \<and> wl_symbols x = dc_symbols c"

lemma granted_reply:
  assumes "granting_transaction t k \<lparr>co_owner_id = w, co_node_id = n\<rparr> now" "reply_lease format t s = (Inr x, s')" "wl_outcome x = Granted"
  shows "\<exists>c. claim_at s' k = Some c \<and> holds w n c \<and> now < dc_lease_expires_at c \<and> tells format x c"
  using granting_transaction.reply_granted [OF assms] by (simp add: tells_def)

lemma delegate_grants: "granting_transaction (delegate \<lparr>rq_tenant_id = t, rq_repository_id = r, rq_task_id = k, rq_owner_id = w,
    rq_node_id = n, rq_branch = b, rq_lease = l, rq_paths = p, rq_symbols = y\<rparr> now) (t, r, k) \<lparr>co_owner_id = w, co_node_id = n\<rparr> now"
  using delegating.granting_transaction_axioms [of "\<lparr>rq_tenant_id = t, rq_repository_id = r, rq_task_id = k, rq_owner_id = w,
    rq_node_id = n, rq_branch = b, rq_lease = l, rq_paths = p, rq_symbols = y\<rparr>" now] delegate_lease [of t r k w n b l p y now]
  by (simp add: granting_transaction_def rq_key_def rq_owner_def)

lemma recover_grants: "granting_transaction (recover \<lparr>rc_tenant_id = t, rc_repository_id = r, rc_task_id = k, rc_expected_owner = x,
    rc_owner_id = w, rc_node_id = n, rc_reason = q, rc_branch = b, rc_lease = l, rc_paths = p, rc_symbols = y\<rparr> now)
    (t, r, k) \<lparr>co_owner_id = w, co_node_id = n\<rparr> now"
  using recovering.granting_transaction_axioms [of "\<lparr>rc_tenant_id = t, rc_repository_id = r, rc_task_id = k, rc_expected_owner = x,
    rc_owner_id = w, rc_node_id = n, rc_reason = q, rc_branch = b, rc_lease = l, rc_paths = p, rc_symbols = y\<rparr>" now]
    recover_lease [of t r k x w n q b l p y now]
  by (simp add: granting_transaction_def rc_key_def rc_owner_def)

lemma authenticated_node: "authenticate ed parse clock t r k w op (Some a) s = (Inr node, s1) \<Longrightarrow> node = au_node_id a"
  by (erule authenticated) simp

lemma served_grant:
  assumes "serve ed parse format clock t r k w op (Some a) s = (Inr (LeaseReply x), s')" "wl_outcome x = Granted"
  shows "\<exists>c. claim_at s' (t, r, k) = Some c \<and> holds w (au_node_id a) c \<and> clock 2 < dc_lease_expires_at c \<and> tells format x c"
proof (cases op)
  case (ClaimDelegate b l p y)
  with assms(1) show ?thesis
    by (auto simp: delegate_claim_rpc_def rpc_Inr required_Inr dest!: authenticated_node granted_reply [OF delegate_grants] intro: assms(2))
next
  case (ClaimRenew l)
  with assms(1) show ?thesis
    by (auto simp: renew_claim_rpc_def with_identifiers_def rpc_Inr required_Inr dest!: authenticated_node
        granted_reply [OF renewing.granting_transaction_axioms] intro: assms(2))
next
  case (ClaimRecover e b l p y q)
  with assms(1) show ?thesis
    by (auto simp: recover_claim_rpc_def with_identifiers_def rpc_Inr required_Inr dest!: authenticated_node granted_reply [OF recover_grants] intro: assms(2))
next
  case (ClaimAnswer l)
  with assms(1) show ?thesis
    by (auto simp: answer_claim_rpc_def with_identifiers_def rpc_Inr required_Inr dest!: authenticated_node
        granted_reply [OF answering.granting_transaction_axioms] intro: assms(2))
qed (use assms(1) in \<open>auto simp: rpc_Inr\<close>)

text \<open>The flags of a release and of a parking.\<close>

lemma served_flag:
  assumes "serve ed parse format clock t r k w op (Some a) s = (Inr (FlagReply True), s')"
  shows "\<exists>c. claim_at s' (t, r, k) = Some c \<and> holds w (au_node_id a) c \<and> dc_lease_expires_at c = clock 2 \<and>
    (op = ClaimRelease \<or> op = ClaimPark \<and> dc_parked c)"
proof (cases op)
  case ClaimRelease
  with assms show ?thesis
    by (auto simp: release_claim_rpc_def with_identifiers_def rpc_Inr required_Inr release_claim_def and_then_Inr Let_def
        claim_at_update dest!: authenticated_node split: option.splits if_splits)
next
  case ClaimPark
  with assms show ?thesis
    by (auto simp: park_claim_rpc_def with_identifiers_def rpc_Inr required_Inr park_def and_then_Inr Let_def
        claim_at_update dest!: authenticated_node split: option.splits if_splits)
qed (use assms in \<open>auto simp: rpc_Inr\<close>)

section \<open>Projection\<close>

locale row_projection = logged_operation run for run :: "ledger \<Rightarrow> (unit \<times> ledger) res" +
  fixes i :: string and f :: "task \<Rightarrow> task"
  assumes projects: "logged s \<Longrightarrow> run s = Inr (u, s') \<Longrightarrow> \<exists>t. get_task s i = Some t \<and> get_task s' = (get_task s)(i \<mapsto> f t)"
begin

lemma only_its_task:
  assumes "logged s" "run s = Inr (u, s')" "j \<noteq> i"
  shows "get_task s' j = get_task s j"
  using projects [OF assms(1,2)] assms(3) by auto

end

lemma project_update_row:
  assumes keep: "keeps_id f" and side: "side_table extra"
  shows "row_projection (project_update i f extra k a n d) i f"
proof (intro row_projection.intro row_projection_axioms.intro)
  show "logged_operation (project_update i f extra k a n d)" by (rule project_update_operation [OF assms])
  fix s u s' assume "logged s" and "project_update i f extra k a n d s = Inr (u, s')"
  then obtain s2 t' where e: "extra (snd (execute_update i (\<lambda>_. True) f s)) = Inr s2" and t: "get_task s2 i = Some t'"
      and s': "get_task s' = get_task s2"
    by (auto simp: project_update_def and_then_Inr case_prod_beta event_record_Inr)
  have "get_task s2 j = map_option (\<lambda>t. if j = i then f t else t) (get_task s j)" for j
    using get_task_cong [OF side_table_D(1) [OF side e]] by (simp add: get_execute_update [OF keep])
  with t show "\<exists>t. get_task s i = Some t \<and> get_task s' = (get_task s)(i \<mapsto> f t)"
    by (auto simp: s' fun_eq_iff option.map_ident)
qed

definition granted_row :: "federated_claim_grant \<Rightarrow> int \<Rightarrow> task \<Rightarrow> task" where
  "granted_row grant now t = t\<lparr>t_status := Claimed, t_owner := Some (fg_owner grant), t_branch := fg_branch grant,
     t_claim_started_at := Some (fg_claim_started_at grant), t_lease_expires_at := Some (fg_lease_expires_at grant),
     t_parked_at := None, t_updated_at := now\<rparr>"

definition released_row :: "int \<Rightarrow> task \<Rightarrow> task" where
  "released_row now t = t\<lparr>t_status := Open, t_owner := None, t_claim_started_at := None, t_lease_expires_at := None, t_updated_at := now\<rparr>"

definition parked_row :: "task_status \<Rightarrow> int \<Rightarrow> task \<Rightarrow> task" where
  "parked_row status now t = t\<lparr>t_status := status, t_lease_expires_at := None, t_parked_at := Some now, t_updated_at := now\<rparr>"

definition resumed_row :: "federated_claim_grant \<Rightarrow> int \<Rightarrow> task \<Rightarrow> task" where
  "resumed_row grant now t = t\<lparr>t_status := Claimed, t_lease_expires_at := Some (fg_lease_expires_at grant), t_parked_at := None,
     t_updated_at := now\<rparr>"

lemmas row_defs = granted_row_def released_row_def parked_row_def resumed_row_def

interpretation fed_grant: row_projection "apply_federated_grant i agent grant kind now" i "granted_row grant now"
  for i agent grant kind now
  unfolding apply_federated_grant_def row_defs by (rule project_update_row) (simp_all add: keeps_id_def)

interpretation fed_release: row_projection "apply_federated_release i agent now" i "released_row now" for i agent now
  unfolding apply_federated_release_def row_defs by (rule project_update_row) (simp_all add: keeps_id_def)

interpretation fed_park: row_projection "apply_federated_park i agent q audience now" i "parked_row NeedsInput now"
  for i agent q audience now
  unfolding apply_federated_park_def row_defs by (rule project_update_row) (simp_all add: keeps_id_def)

interpretation fed_answer: row_projection "apply_federated_answer i author a grant now" i "resumed_row grant now"
  for i author a grant now
  unfolding apply_federated_answer_def row_defs by (rule project_update_row) (simp_all add: keeps_id_def)

interpretation fed_pause: row_projection "apply_federated_pause i agent reason now" i "parked_row Paused now"
  for i agent reason now
  unfolding apply_federated_pause_def row_defs by (rule project_update_row) (simp_all add: keeps_id_def)

interpretation fed_resume: row_projection "apply_federated_resume i agent grant now" i "resumed_row grant now"
  for i agent grant now
  unfolding apply_federated_resume_def row_defs by (rule project_update_row) (simp_all add: keeps_id_def)

section \<open>A call\<close>

datatype facade_call =
    ClaimCall (call_task: string) string int "string list option" "string list option"
  | RenewCall (call_task: string) string int
  | ReleaseCall (call_task: string) string
  | RecoverCall (call_task: string) string "string \<times> string" string "string option" int
  | AskCall (call_task: string) string string "string option"
  | AnswerCall (call_task: string) string string int
  | PauseCall (call_task: string) string "string option"
  | ResumeCall (call_task: string) string int
  | LocalClaimCall (call_task: string) string int
  | LocalScopedClaimCall (call_task: string) string int task_scope
  | TouchCall (call_task: string) string int

fun execute :: "globset \<Rightarrow> wire_env \<Rightarrow> claim_node option \<Rightarrow> exchange \<Rightarrow> facade_call \<Rightarrow> int \<Rightarrow> bool plane_call" where
  "execute glob env authority ex (ClaimCall i agent lease paths symbols) now =
     exec_claim_task_with_partial_scope glob env authority ex i agent lease paths symbols now"
| "execute glob env authority ex (RenewCall i agent lease) now = exec_renew_lease env authority ex i agent lease now"
| "execute glob env authority ex (ReleaseCall i agent) now = exec_release_task env authority ex i agent now"
| "execute glob env authority ex (RecoverCall i expected recovering reason reviewer lease) now =
     exec_recover_claim env authority ex i expected recovering reason reviewer lease now"
| "execute glob env authority ex (AskCall i agent question audience) now = exec_ask_question env authority ex i agent question audience now"
| "execute glob env authority ex (AnswerCall i text_body author lease) now = exec_answer_question env authority ex i text_body author lease now"
| "execute glob env authority ex (PauseCall i agent reason) now = exec_pause_task env authority ex i agent reason now"
| "execute glob env authority ex (ResumeCall i agent lease) now = exec_resume_task env authority ex i agent lease now"
| "execute glob env authority ex (LocalClaimCall i agent lease) now = exec_claim_task glob i agent lease now"
| "execute glob env authority ex (LocalScopedClaimCall i agent lease scope) now = exec_claim_task_with_scope glob i agent lease scope now"
| "execute glob env authority ex (TouchCall i agent lease) now = exec_touch_lease i agent lease now"

text \<open>In whose name a call asks the authority.\<close>

fun call_owner :: "ledger \<Rightarrow> facade_call \<Rightarrow> string" where
  "call_owner s (ClaimCall i agent lease paths symbols) = trim agent"
| "call_owner s (RenewCall i agent lease) = trim agent"
| "call_owner s (ReleaseCall i agent) = trim agent"
| "call_owner s (RecoverCall i expected recovering reason reviewer lease) = trim (fst recovering)"
| "call_owner s (AskCall i agent question audience) = trim agent"
| "call_owner s (AnswerCall i text_body author lease) = (case get_task s i of Some t \<Rightarrow> unwrap_or_empty (t_owner t) | None \<Rightarrow> [])"
| "call_owner s (PauseCall i agent reason) = trim agent"
| "call_owner s (ResumeCall i agent lease) = trim agent"
| "call_owner s (LocalClaimCall i agent lease) = trim agent"
| "call_owner s (LocalScopedClaimCall i agent lease scope) = trim agent"
| "call_owner s (TouchCall i agent lease) = trim agent"

text \<open>
  Which operation a call asks the authority for. The heartbeat and the two claims that do not go through the partial
  scope ask nobody (\<^verbatim>\<open>touch_lease\<close>, \<^verbatim>\<open>claim_task\<close>, \<^verbatim>\<open>claim_task_with_scope\<close>).
\<close>

fun sent :: "ledger \<Rightarrow> facade_call \<Rightarrow> claim_operation option" where
  "sent s (ClaimCall i agent lease paths symbols) =
     Some (ClaimDelegate (unwrap_or_empty (declared_branch s (Some (trim agent)))) (lease_u64 lease)
       (case paths of Some v \<Rightarrow> v | None \<Rightarrow> sc_paths (task_scope_on s i))
       (case symbols of Some v \<Rightarrow> v | None \<Rightarrow> sc_symbols (task_scope_on s i)))"
| "sent s (RenewCall i agent lease) = Some (ClaimRenew (lease_u64 lease))"
| "sent s (ReleaseCall i agent) = Some ClaimRelease"
| "sent s (RecoverCall i expected recovering reason reviewer lease) =
     Some (ClaimRecover expected (unwrap_or_empty (declared_branch s (Some (trim (fst recovering))))) (lease_u64 lease)
       (sc_paths (task_scope_on s i)) (sc_symbols (task_scope_on s i)) reason)"
| "sent s (AskCall i agent question audience) = Some ClaimPark"
| "sent s (AnswerCall i text_body author lease) = Some (ClaimAnswer (lease_u64 lease))"
| "sent s (PauseCall i agent reason) = Some ClaimPark"
| "sent s (ResumeCall i agent lease) = Some (ClaimAnswer (lease_u64 lease))"
| "sent s (LocalClaimCall i agent lease) = None"
| "sent s (LocalScopedClaimCall i agent lease scope) = None"
| "sent s (TouchCall i agent lease) = None"

text \<open>The row a call writes, from the claim the authority holds; the calls that ask nobody project nothing.\<close>

definition grant_of :: "int \<Rightarrow> delegated_claim \<Rightarrow> federated_claim_grant" where
  "grant_of lapses c = \<lparr>fg_owner = dc_owner_id c, fg_branch = (if dc_branch c = [] then None else Some (dc_branch c)),
     fg_claim_started_at = dc_claim_started_at c div 1000000, fg_lease_expires_at = dc_lease_expires_at c div 1000000,
     fg_claim_lapses = lapses, fg_paths = dc_paths c, fg_symbols = dc_symbols c\<rparr>"

fun projected :: "facade_call \<Rightarrow> delegated_claim \<Rightarrow> int \<Rightarrow> task \<Rightarrow> task" where
  "projected (ClaimCall i agent lease paths symbols) c now = granted_row (grant_of 0 c) now"
| "projected (RenewCall i agent lease) c now = granted_row (grant_of 0 c) now"
| "projected (ReleaseCall i agent) c now = released_row now"
| "projected (RecoverCall i expected recovering reason reviewer lease) c now = granted_row (grant_of 0 c) now"
| "projected (AskCall i agent question audience) c now = parked_row NeedsInput now"
| "projected (AnswerCall i text_body author lease) c now = resumed_row (grant_of 0 c) now"
| "projected (PauseCall i agent reason) c now = parked_row Paused now"
| "projected (ResumeCall i agent lease) c now = resumed_row (grant_of 0 c) now"
| "projected (LocalClaimCall i agent lease) c now = id"
| "projected (LocalScopedClaimCall i agent lease scope) c now = id"
| "projected (TouchCall i agent lease) c now = id"

definition asked :: "wire_env \<Rightarrow> claim_node \<Rightarrow> exchange \<Rightarrow> string \<Rightarrow> string \<Rightarrow> claim_operation \<Rightarrow> claim_server \<Rightarrow> (rpc_status + claim_reply) \<times> claim_server \<Rightarrow> bool" where
  "asked env nd ex i owner op sv res \<longleftrightarrow> (\<exists>au. client_authenticate env nd ex i owner op = Some au \<and>
     serve (we_ed env) (we_parse env) (we_format env) (ex_clock ex) (nd_tenant_id nd) (nd_repository_id nd) i owner op (Some au) sv = res)"

definition decided ::
  "wire_env \<Rightarrow> claim_node \<Rightarrow> exchange \<Rightarrow> string \<Rightarrow> string \<Rightarrow> claim_operation \<Rightarrow> (delegated_claim \<Rightarrow> task \<Rightarrow> task) \<Rightarrow> plane \<Rightarrow> bool res \<Rightarrow> plane \<Rightarrow> bool" where
  "decided env nd ex i owner op row p r p' \<longleftrightarrow> (snd p' = snd p \<or> (\<exists>out. asked env nd ex i owner op (snd p) (out, snd p'))) \<and>
     (if r = Inr True
      then (\<exists>reply c t. asked env nd ex i owner op (snd p) (Inr reply, snd p') \<and>
         claim_at (snd p') (nd_tenant_id nd, nd_repository_id nd, i) = Some c \<and> holds owner (nd_node_id nd) c \<and>
         get_task (fst p) i = Some t \<and> get_task (fst p') = (get_task (fst p))(i \<mapsto> row c t) \<and> logged (fst p') \<and>
         prefix (s_events (fst p)) (s_events (fst p')))
      else fst p' = fst p)"

lemma decided_unasked: "r \<noteq> Inr True \<Longrightarrow> decided env nd ex i owner op row p r p"
  by (simp add: decided_def)

lemma client_node: "client_authenticate env nd ex i owner op = Some au \<Longrightarrow> au_node_id au = nd_node_id nd"
  by (auto simp: client_authenticate_def unsigned_authentication_def Let_def split: option.splits)

lemma node_claim_cases:
  assumes "node_claim env nd ex i owner op sv = (res, sv')"
  obtains (unsent) e where "res = Inl e" "sv' = sv"
  | (failed) e out where "res = Inl e" "asked env nd ex i owner op sv (out, sv')"
  | (answered) reply where "res = Inr reply" "asked env nd ex i owner op sv (Inr reply, sv')"
  using assms by (auto simp: node_claim_def asked_def Let_def split: option.splits if_splits prod.splits sum.splits)

lemma lease_call_cases:
  assumes "lease_call env nd ex i owner op sv = (res, sv')"
  obtains (unsent) e where "res = Inl e" "sv' = sv"
  | (declined) out where "asked env nd ex i owner op sv (out, sv')" "\<And>g. res \<noteq> Inr (FederatedGranted g)"
  | (granted) x g where "res = Inr (FederatedGranted g)" "asked env nd ex i owner op sv (Inr (LeaseReply x), sv')"
      "outcome_from_result env x = Inr (FederatedGranted g)" "wl_outcome x = Granted"
proof -
  obtain res1 where n: "node_claim env nd ex i owner op sv = (res1, sv')"
    using assms by (auto simp: lease_call_def split: prod.splits sum.splits claim_reply.splits)
  then show ?thesis
  proof (cases rule: node_claim_cases)
    case (answered reply)
    show ?thesis
    proof (cases "\<exists>g. res = Inr (FederatedGranted g)")
      case True
      with n answered assms that(3) show ?thesis
        by (auto simp: lease_call_def outcome_from_result_def and_then_Inr split: claim_reply.splits lease_outcome.splits)
    qed (use answered that(2) in blast)
  qed (use n assms that in \<open>auto simp: lease_call_def\<close>)
qed

lemma flag_call_cases:
  assumes "flag_call env nd ex i owner op sv = (res, sv')"
  obtains (unsent) e where "res = Inl e" "sv' = sv"
  | (declined) out where "asked env nd ex i owner op sv (out, sv')" "res \<noteq> Inr True"
  | (flagged) "res = Inr True" "asked env nd ex i owner op sv (Inr (FlagReply True), sv')"
proof -
  obtain res1 where n: "node_claim env nd ex i owner op sv = (res1, sv')"
    using assms by (auto simp: flag_call_def split: prod.splits sum.splits claim_reply.splits)
  then show ?thesis
  proof (cases rule: node_claim_cases)
    case (answered reply)
    show ?thesis
    proof (cases "res = Inr True")
      case True
      with n answered assms that(3) show ?thesis by (auto simp: flag_call_def split: claim_reply.splits)
    qed (use answered that(2) in blast)
  qed (use n assms that in \<open>auto simp: flag_call_def\<close>)
qed

lemma told_grant:
  assumes "\<forall>n x. we_format env n = Some x \<longrightarrow> we_parse env x = Some n"
    and "tells (we_format env) x c" "outcome_from_result env x = Inr (FederatedGranted g)"
  shows "g = grant_of (fg_claim_lapses g) c"
  using assms(2,3) spec [OF assms(1), of "dc_claim_started_at c"] spec [OF assms(1), of "dc_lease_expires_at c"]
  by (auto simp: tells_def outcome_from_result_def parse_unix_seconds_def grant_of_def and_then_Inr split: lease_outcome.splits)

text \<open>Once the authority said yes, what is left is the projection.\<close>

lemma projection_decided:
  assumes "logged (fst p)" "row_projection project i (row c)" "asked env nd ex i owner op (snd p) (Inr reply, sv')"
    and c: "claim_at sv' (nd_tenant_id nd, nd_repository_id nd, i) = Some c" "holds owner (nd_node_id nd) c"
    and run: "(case project (fst p) of Inl e \<Rightarrow> (Inl e, (fst p, sv')) | Inr (_, s) \<Rightarrow> (Inr True, (s, sv'))) = (r, p')"
  shows "decided env nd ex i owner op row p r p'"
proof (cases "project (fst p)")
  case (Inl e)
  with run assms(3) show ?thesis by (auto simp: decided_def)
next
  case (Inr us)
  then obtain u s' where us: "project (fst p) = Inr (u, s')" by (cases us) auto
  with run have r: "r = Inr True" "p' = (s', sv')" by auto
  obtain t where "get_task (fst p) i = Some t" "get_task s' = (get_task (fst p))(i \<mapsto> row c t)"
    using row_projection.projects [OF assms(2,1) us] by blast
  moreover have "logged s'" "prefix (s_events (fst p)) (s_events s')"
    using row_projection.axioms(1) [OF assms(2)] assms(1) us by (auto intro: logged_operation.keeps_logged logged_operation.appends)
  ultimately show ?thesis using r assms(3) c by (auto simp: decided_def)
qed

lemma on_grant_decided:
  assumes rt: "\<forall>n x. we_format env n = Some x \<longrightarrow> we_parse env x = Some n"
    and log: "logged (fst p)" and run: "on_grant (lease_call env nd ex i owner op) project p = (r, p')"
    and proj: "\<And>g. row_projection (project g) i (row g)" and row: "\<And>l c. row (grant_of l c) = row (grant_of 0 c)"
  shows "decided env nd ex i owner op (\<lambda>c. row (grant_of 0 c)) p r p'"
proof -
  obtain res sv' where call: "lease_call env nd ex i owner op (snd p) = (res, sv')" by fastforce
  from call show ?thesis
  proof (cases rule: lease_call_cases)
    case (declined out)
    then have "r \<noteq> Inr True \<and> p' = (fst p, sv')"
      using call run by (auto simp: on_grant_def split: sum.splits federated_claim_outcome.splits)
    with declined show ?thesis by (auto simp: decided_def)
  next
    case (granted x g)
    from granted(2) obtain au where au: "client_authenticate env nd ex i owner op = Some au"
      "serve (we_ed env) (we_parse env) (we_format env) (ex_clock ex) (nd_tenant_id nd) (nd_repository_id nd) i owner op (Some au) (snd p) =
        (Inr (LeaseReply x), sv')" by (auto simp: asked_def)
    obtain c where c: "claim_at sv' (nd_tenant_id nd, nd_repository_id nd, i) = Some c" "holds owner (nd_node_id nd) c"
      "tells (we_format env) x c" using served_grant [OF au(2) granted(4)] client_node [OF au(1)] by auto
    have "row_projection (project g) i (row (grant_of 0 c))" using proj [of g] told_grant [OF rt c(3) granted(3)] row by metis
    from projection_decided [where row = "\<lambda>c. row (grant_of 0 c)", OF log this granted(2) c(1,2)] call granted(1) run show ?thesis by (simp add: on_grant_def)
  qed (use call run in \<open>auto simp: on_grant_def decided_def\<close>)
qed

lemma on_flag_decided:
  assumes log: "logged (fst p)" and run: "on_flag (flag_call env nd ex i owner op) project p = (r, p')"
    and proj: "row_projection project i row"
  shows "decided env nd ex i owner op (\<lambda>_. row) p r p'"
proof -
  obtain res sv' where call: "flag_call env nd ex i owner op (snd p) = (res, sv')" by fastforce
  from call show ?thesis
  proof (cases rule: flag_call_cases)
    case (declined out)
    then have "r \<noteq> Inr True \<and> p' = (fst p, sv')" using call run by (auto simp: on_flag_def split: sum.splits bool.splits)
    with declined show ?thesis by (auto simp: decided_def)
  next
    case flagged
    from flagged(2) obtain au where au: "client_authenticate env nd ex i owner op = Some au"
      "serve (we_ed env) (we_parse env) (we_format env) (ex_clock ex) (nd_tenant_id nd) (nd_repository_id nd) i owner op (Some au) (snd p) =
        (Inr (FlagReply True), sv')" by (auto simp: asked_def)
    obtain c where c: "claim_at sv' (nd_tenant_id nd, nd_repository_id nd, i) = Some c" "holds owner (nd_node_id nd) c"
      using served_flag [OF au(2)] client_node [OF au(1)] by auto
    from projection_decided [where row = "\<lambda>_. row", OF log proj flagged(2) c] call flagged(1) run show ?thesis by (simp add: on_flag_def)
  qed (use call run in \<open>auto simp: on_flag_def decided_def\<close>)
qed

lemma checked_decided:
  assumes "checked v f p = (r, p')" "\<And>x. v = Inr x \<Longrightarrow> f x p = (r, p') \<Longrightarrow> decided env nd ex i owner op row p r p'"
  shows "decided env nd ex i owner op row p r p'"
  using assms by (cases v) (auto simp: checked_def decided_unasked)

lemma resolved: "resolve_agent agent = Inr x \<Longrightarrow> trim agent = x"
  by (auto simp: resolve_agent_def split: if_splits)

lemma rows_of_grant: "granted_row (grant_of l c) now = granted_row (grant_of 0 c) now" "resumed_row (grant_of l c) now = resumed_row (grant_of 0 c) now"
  by (simp_all add: fun_eq_iff granted_row_def resumed_row_def grant_of_def)

lemmas authority_defs = authority_delegate_def authority_renew_def authority_recover_def authority_answer_def authority_release_def authority_park_def

lemma scope_read: "task_scope_of s i = Inr x \<Longrightarrow> x = task_scope_on s i"
  by (auto simp: task_scope_of_def split: if_splits option.splits)

lemma execute_decided:
  assumes rt: "\<forall>n x. we_format env n = Some x \<longrightarrow> we_parse env x = Some n" and log: "logged (fst p)"
    and run: "execute glob env (Some nd) ex call now p = (r, p')" and op: "sent (fst p) call = Some op"
  shows "decided env nd ex (call_task call) (call_owner (fst p) call) op (\<lambda>c. projected call c now) p r p'"
proof -
  note granting = on_grant_decided [where project = "\<lambda>g. apply_federated_grant i agent g kind now" and row = "\<lambda>g. granted_row g now" for i agent kind,
      OF rt log _ fed_grant.row_projection_axioms rows_of_grant(1)]
  note answering = on_grant_decided [where project = "\<lambda>g. apply_federated_answer i author a g now" and row = "\<lambda>g. resumed_row g now" for i author a,
      OF rt log _ fed_answer.row_projection_axioms rows_of_grant(2)]
  note resuming = on_grant_decided [where project = "\<lambda>g. apply_federated_resume i agent g now" and row = "\<lambda>g. resumed_row g now" for i agent,
      OF rt log _ fed_resume.row_projection_axioms rows_of_grant(2)]
  show ?thesis
  proof (cases call)
    case (ClaimCall i agent lease paths symbols)
    with run op show ?thesis
      by (auto simp: exec_claim_task_with_partial_scope_def authority_defs resolved Let_def elim!: checked_decided dest!: scope_read granting)
  next
    case (RenewCall i agent lease)
    with run op show ?thesis by (auto simp: exec_renew_lease_def authority_defs resolved Let_def elim!: checked_decided dest!: scope_read granting)
  next
    case (ReleaseCall i agent)
    with run op show ?thesis
      by (simp add: exec_release_task_def authority_defs)
        (erule checked_decided, simp add: resolved, rule on_flag_decided [OF log _ fed_release.row_projection_axioms])
  next
    case (RecoverCall i expected recovering reason reviewer lease)
    with run op show ?thesis
      by (auto simp: exec_recover_claim_def authority_defs resolved Let_def elim!: checked_decided dest!: scope_read granting
          split: if_splits intro: decided_unasked)
  next
    case (AskCall i agent question audience)
    with run op show ?thesis
      by (auto simp: exec_ask_question_def authority_defs resolved Let_def elim!: checked_decided
          dest!: on_flag_decided [OF log _ fed_park.row_projection_axioms] split: if_splits intro: decided_unasked)
  next
    case (AnswerCall i text_body author lease)
    with run op show ?thesis
      by (auto simp: exec_answer_question_def authority_defs unwrap_or_empty_def
          dest!: answering split: option.splits intro: decided_unasked)
  next
    case (PauseCall i agent reason)
    with run op show ?thesis
      by (simp add: exec_pause_task_def authority_defs)
        (erule checked_decided, simp add: resolved, rule on_flag_decided [OF log _ fed_pause.row_projection_axioms])
  next
    case (ResumeCall i agent lease)
    with run op show ?thesis
      by (auto simp: exec_resume_task_def authority_defs resolved Let_def elim!: checked_decided
          dest!: resuming)
  qed (use op in simp_all)
qed

lemma local_calls_ask_nobody:
  assumes "sent s call = None" and "execute glob env authority ex call now (s, sv) = (r, (s', sv'))"
  shows "sv' = sv \<and> execute glob env None ex call now (s, sv) = (r, (s', sv'))"
  using assms
  by (cases call) (auto simp: exec_claim_task_def exec_claim_task_with_scope_def exec_touch_lease_def checked_def locally_def
      split: sum.splits prod.splits)

text \<open>
  C10. The ledger of a federated repository is a copy of what the authority granted, for every call that asks it. A claim with
  partial scope, a renewal, a release, a recovery, a question, an answer, a pause or a resumption reaches the authority at most
  once, in its task's and its owner's name and with exactly the operation \<open>sent\<close> says: a claim delegates with the declared branch,
  a question and a pause park, an answer and a resumption answer. Only if the authority said yes does the call succeed; then
  the authority holds the task for the owner at this node, the task's row is the projection of that claim and no other task
  changed. After every other outcome, an error, a refusal, a lost request or a lost reply, the ledger is what it was. The
  heartbeat and the claims that do not go through the partial scope do not ask: they run as in a repository without authority.
\<close>

theorem federated_calls_follow_the_authority:
  assumes "\<forall>n x. we_format env n = Some x \<longrightarrow> we_parse env x = Some n" and "logged s"
    and "execute glob env (Some nd) ex call now (s, sv) = (r, (s', sv'))"
  shows "case sent s call of
      None \<Rightarrow> sv' = sv \<and> execute glob env None ex call now (s, sv) = (r, (s', sv'))
    | Some op \<Rightarrow>
        (sv' = sv \<or> (\<exists>out. asked env nd ex (call_task call) (call_owner s call) op sv (out, sv'))) \<and>
        (if r = Inr True
         then (\<exists>reply c t. asked env nd ex (call_task call) (call_owner s call) op sv (Inr reply, sv') \<and>
            claim_at sv' (nd_tenant_id nd, nd_repository_id nd, call_task call) = Some c \<and>
            holds (call_owner s call) (nd_node_id nd) c \<and>
            get_task s (call_task call) = Some t \<and> get_task s' = (get_task s)(call_task call \<mapsto> projected call c now t) \<and>
            logged s' \<and> prefix (s_events s) (s_events s'))
         else s' = s)"
proof (cases "sent s call")
  case None
  with local_calls_ask_nobody [OF None assms(3)] show ?thesis by simp
next
  case (Some op)
  have "decided env nd ex (call_task call) (call_owner s call) op (\<lambda>c. projected call c now) (s, sv) r (s', sv')"
    using execute_decided [OF assms(1) _ assms(3), of op] assms(2) Some by simp
  then show ?thesis unfolding Some option.case decided_def fst_conv snd_conv .
qed

text \<open>
  The heartbeat is no such call: it extends the lease of the local row without asking, whatever the authority
  holds, also when the authority has given the task to somebody else.
\<close>

theorem heartbeat_bypasses_authority:
  assumes "logged s" "get_task s i = Some t" "\<not> blank agent" "live_lease_guard (trim agent) now t"
  shows "\<exists>s'. exec_touch_lease i agent lease now (s, sv) = (Inr True, (s', sv)) \<and>
    get_task s' i = Some (t\<lparr>t_lease_expires_at := sql_max (t_lease_expires_at t) (now + lease), t_updated_at := now\<rparr>)"
proof -
  let ?f = "\<lambda>t. t\<lparr>t_lease_expires_at := sql_max (t_lease_expires_at t) (now + lease), t_updated_at := now\<rparr>"
  let ?s1 = "snd (execute_update i (live_lease_guard (trim agent) now) ?f s)"
  have keep: "keeps_id ?f" by (simp add: keeps_id_def)
  note run = transact_applies [where g = "live_lease_guard (trim agent) now", OF assms(1) keep side_table_none assms(2,4) refl]
  have "get_task ?s1 i = Some (?f t)" using assms(2,4) by (simp add: get_execute_update [OF keep])
  then show ?thesis
    using assms(3) by (simp add: exec_touch_lease_def checked_def resolve_agent_def locally_def touch_lease_def run)
qed

end
