(* ===== verification/Ackplane_Cases.thy ===== *)
theory Ackplane_Cases
  imports Ackplane_Claims
begin

text \<open>
  Concrete runs of the claim authority: a server with one registered key, a node that asks for a claim,
  and the general theorems of \<open>Signing_Bytes\<close> and \<open>Ackplane_Claims\<close> at these inputs.
\<close>

definition demo_ed :: ed25519 where
  "demo_ed pk m sig \<longleftrightarrow> sig = [7]"

definition demo_parse :: rfc3339_parser where
  "demo_parse x = Some (int (read_nat x))"

definition demo_format :: rfc3339_formatter where
  "demo_format n = (if n < 0 then None else Some (show_nat (nat n)))"

definition demo_key :: "string \<Rightarrow> signing_key" where
  "demo_key i = \<lparr>sk_signing_key_id = i, sk_tenant_id = ''t'', sk_repository_id = ''r'', sk_node_id = ''n'',
     sk_public_key = replicate 32 1, sk_public_key_fingerprint = ''f'', sk_activated_at = 0, sk_expires_at = None\<rparr>"

definition demo_auth :: "byte \<Rightarrow> authentication" where
  "demo_auth nonce = \<lparr>au_signing_key_id = ''s'', au_node_id = ''n'', au_signed_at = ''5'', au_nonce = [nonce], au_signature = [7]\<rparr>"

definition demo_op :: claim_operation where
  "demo_op = ClaimDelegate ''main'' 60 [''a''] []"

definition demo_server :: claim_server where
  "demo_server = empty_server\<lparr>cs_keys := register_key (demo_key ''s'') []\<rparr>"

definition demo_claimed :: "(rpc_status + claim_reply) \<times> claim_server" where
  "demo_claimed = serve demo_ed demo_parse demo_format (\<lambda>_. 5) ''t'' ''r'' ''k'' ''w'' demo_op (Some (demo_auth 1)) demo_server"

lemmas demo_defs = demo_ed_def demo_parse_def demo_format_def demo_key_def demo_auth_def demo_op_def demo_server_def demo_claimed_def

lemmas request_defs = delegate_claim_rpc_def renew_claim_rpc_def release_claim_rpc_def with_identifiers_def reply_lease_def
  rpc_map_def rpc_then_def rpc_check_def rpc_store_def required_def require_lease_def result_to_wire_def authenticate_def
  verify_claim_def verify_signed_bytes_def check_freshness_def resolve_key_def fetch_key_def judge_def since_def
  consume_claim_nonce_def delegate_def delegate_racing_def renew_def validate_owner_def add_lease_def claim_at_def fresh_claim_def
  lease_of_def record_decision_def decision_of_def rq_key_def rq_owner_def dc_key_def as_i64_def seconds_def
  MAX_CLAIM_AUTH_SKEW_SECS_def empty_server_def register_key_def read_nat_def show_nat.simps digit_char_def Let_def

lemma demo_names [simp]: "\<not> blank ''t''" "\<not> blank ''r''" "\<not> blank ''k''" "\<not> blank ''w''" "\<not> blank ''v''" "\<not> blank ''n''"
  "\<not> blank ''s''" "\<not> blank ''main''"
  by code_simp+

lemma demo_digits [simp]: "char_of (48::nat) = CHR ''0''" "char_of (53::nat) = CHR ''5''" "char_of (54::nat) = CHR ''6''"
  by code_simp+

lemma demo_claimed_runs:
  "demo_claimed = (Inr (LeaseReply \<lparr>wl_outcome = Granted, wl_owner_id = ''w'', wl_branch = ''main'', wl_claim_started_at = ''5'',
       wl_lease_expires_at = ''60000005'', wl_claim_lapses = 0, wl_paths = [''a''], wl_symbols = [], wl_diagnostic = []\<rparr>),
     demo_server\<lparr>cs_nonces := [(''s'', [1])],
       cs_claims := [\<lparr>dc_tenant_id = ''t'', dc_repository_id = ''r'', dc_task_id = ''k'', dc_owner_id = ''w'', dc_branch = ''main'',
         dc_claim_started_at = 5, dc_lease_expires_at = 60000005, dc_claim_lapses = 0, dc_paths = [''a''], dc_symbols = [],
         dc_parked = False, dc_owner_node_id = Some ''n''\<rparr>],
       cs_history := [\<lparr>ch_tenant_id = ''t'', ch_repository_id = ''r'', ch_task_id = ''k'', ch_requested_owner_id = ''w'',
         ch_granted_owner_id = ''w'', ch_outcome = 1, ch_claim_started_at = 5, ch_lease_expires_at = 60000005, ch_claim_lapses = 0,
         ch_paths = [''a''], ch_symbols = [], ch_requested_node_id = ''n''\<rparr>]\<rparr>)"
  by (simp add: demo_defs request_defs)

lemma demo_reachable: "reachable_server demo_ed demo_parse demo_format demo_server"
  unfolding demo_server_def using Registered [of demo_ed demo_parse demo_format empty_server "demo_key ''s''"]
  by (simp add: empty_server_def)

lemma demo_claimed_reachable: "reachable_server demo_ed demo_parse demo_format (snd demo_claimed)"
  by (rule rtranclp.rtrancl_into_rtrancl [OF demo_reachable])
    (rule Served [of _ _ _ "\<lambda>_. 5" "''t''" "''r''" "''k''" "''w''" demo_op "Some (demo_auth 1)" _ "fst demo_claimed"], simp add: demo_claimed_def)

text \<open>The claim that was just granted is the only one and rests on its recorded grant.\<close>

theorem claim_authority_is_sound_witness:
  "reachable_server demo_ed demo_parse demo_format (snd demo_claimed) \<and>
   (\<exists>c d. cs_claims (snd demo_claimed) = [c] \<and> d \<in> set (cs_history (snd demo_claimed)) \<and> grants d c)"
proof -
  obtain c where c: "cs_claims (snd demo_claimed) = [c]" by (simp add: demo_claimed_runs)
  with claim_authority_is_sound [OF demo_claimed_reachable] demo_claimed_reachable show ?thesis by auto
qed

text \<open>A second agent of the same node asks for the claimed task while the lease runs: the claim is as it was.\<close>

definition demo_rival :: "(rpc_status + claim_reply) \<times> claim_server" where
  "demo_rival = serve demo_ed demo_parse demo_format (\<lambda>_. 9) ''t'' ''r'' ''k'' ''v'' demo_op (Some (demo_auth 2)) (snd demo_claimed)"

theorem secured_claim_is_exclusive_witness:
  "\<exists>c. claim_at (snd demo_claimed) (''t'', ''r'', ''k'') = Some c \<and> secured 9 c \<and> claim_at (snd demo_rival) (''t'', ''r'', ''k'') = Some c"
proof -
  obtain c where c: "claim_at (snd demo_claimed) (''t'', ''r'', ''k'') = Some c" "secured 9 c" "dc_owner_id c = ''w''"
    by (simp add: demo_claimed_runs claim_at_def dc_key_def secured_def)
  from secured_claim_is_exclusive [of demo_ed demo_parse demo_format "\<lambda>_. 9" "''t''" "''r''" "''k''" "''v''" demo_op "demo_auth 2"
      "snd demo_claimed" "fst demo_rival" "snd demo_rival", OF _ c(1)] c
  have "claim_at (snd demo_rival) (''t'', ''r'', ''k'') = Some c" by (simp add: demo_rival_def holds_def)
  with c show ?thesis by blast
qed

text \<open>The same bytes sent again are refused and change nothing.\<close>

theorem replay_is_refused_witness:
  "reachable_server demo_ed demo_parse demo_format demo_server \<and> \<not> isl (fst demo_claimed) \<and>
   (\<exists>e. serve demo_ed demo_parse demo_format (\<lambda>_. 6) ''t'' ''r'' ''k'' ''w'' demo_op (Some (demo_auth 1)) (snd demo_claimed) =
      (Inl e, snd demo_claimed))"
proof -
  obtain r where r: "fst demo_claimed = Inr r" by (simp add: demo_claimed_runs)
  then have run: "serve demo_ed demo_parse demo_format (\<lambda>_. 5) ''t'' ''r'' ''k'' ''w'' demo_op (Some (demo_auth 1)) demo_server =
      (Inr r, snd demo_claimed)" unfolding demo_claimed_def by (metis prod.collapse)
  from replay_is_refused [OF demo_reachable run rtranclp.rtrancl_refl, of "demo_auth 1"] demo_reachable r
  show ?thesis by simp
qed

text \<open>An agent that signs one request, under a check that accepts nothing else.\<close>

definition strict_ed :: ed25519 where
  "strict_ed pk m sig \<longleftrightarrow> sig = [7] \<and> m = claim_signing_bytes ''t'' ''r'' ''k'' ''w'' demo_op (demo_auth 1)"

lemma strict_claimed: "serve strict_ed demo_parse demo_format (\<lambda>_. 5) ''t'' ''r'' ''k'' ''w'' demo_op (Some (demo_auth 1)) demo_server = demo_claimed"
  by (simp add: demo_claimed_runs demo_defs request_defs strict_ed_def)

lemma demo_bytes: "length (claim_signing_bytes ''t'' ''r'' ''k'' ''w'' demo_op (demo_auth 1)) < 2 ^ 32"
  by (simp add: demo_defs claim_signing_bytes_def claim_push_fields_def CLAIM_DOMAIN_def push_field_def push_list_def as_bytes_def to_be_bytes_def)

theorem granted_requests_were_signed_witness:
  "\<not> isl (fst demo_claimed) \<and> (\<exists>kl. fetch_key (cs_keys demo_server) ''s'' = Some kl \<and> in_force kl 5)"
proof -
  obtain r where r: "demo_claimed = (Inr r, snd demo_claimed)" by (simp add: demo_claimed_runs)
  have "\<exists>a kl q u. Some (demo_auth 1) = Some a \<and> fetch_key (cs_keys demo_server) (au_signing_key_id a) = Some kl \<and>
      sk_tenant_id (kl_record kl) = ''t'' \<and> sk_repository_id (kl_record kl) = ''r'' \<and> sk_node_id (kl_record kl) = au_node_id a \<and>
      in_force kl 5 \<and> q = ClaimRequest ''t'' ''r'' ''k'' ''w'' demo_op (demo_auth 1) \<and>
      bound_request q = ClaimRequest ''t'' ''r'' ''k'' ''w'' demo_op (a\<lparr>au_signature := []\<rparr>) \<and>
      demo_parse (au_signed_at a) = Some u \<and> \<bar>u - 5\<bar> \<le> 300000000 \<and> (au_signing_key_id a, au_nonce a) \<notin> set (cs_nonces demo_server)"
    by (rule granted_requests_were_signed [of strict_ed demo_parse demo_format "\<lambda>_. 5" _ _ _ _ _ _ _ r "snd demo_claimed"
          "\<lambda>pk q. q = ClaimRequest ''t'' ''r'' ''k'' ''w'' demo_op (demo_auth 1)"])
      (use r demo_bytes in \<open>auto simp: strict_claimed strict_ed_def\<close>)
  moreover have "\<not> isl (fst demo_claimed)" by (simp add: demo_claimed_runs)
  ultimately show ?thesis by (auto simp: demo_auth_def)
qed

text \<open>A signature for a release is none for a claim that is parked.\<close>

theorem signature_binds_request_witness:
  "signed_bytes (ClaimRequest ''t'' ''r'' ''k'' ''w'' ClaimRelease (demo_auth 1)) \<noteq>
   signed_bytes (ClaimRequest ''t'' ''r'' ''k'' ''w'' ClaimPark (demo_auth 1))"
  using signature_binds_request [of "ClaimRequest ''t'' ''r'' ''k'' ''w'' ClaimRelease (demo_auth 1)"
      "ClaimRequest ''t'' ''r'' ''k'' ''w'' ClaimPark (demo_auth 1)"]
  by (simp add: demo_defs claim_signing_bytes_def claim_push_fields_def CLAIM_DOMAIN_def push_field_def as_bytes_def to_be_bytes_def)

end
