(* ===== verification/Federated_Agreement.thy ===== *)
theory Federated_Agreement
  imports Federated_Claims Ackplane_Cases
begin

text \<open>
  A federated claim beside a local one: \<^verbatim>\<open>docs/adr/0096\<close> clause 3 requires the authority to decide as
  \<open>claim_task_with_partial_scope\<close> does. Where the authority's row and the local row say the same, both claims
  have the same result; where a claim is parked they do not. The concrete runs are at the end.
\<close>

section \<open>The projection of a grant takes effect\<close>

lemma insert_scopes_total:
  assumes "distinct vs" "\<And>v. v \<in> set vs \<Longrightarrow> (i, kind, v) \<notin> set (s_scopes s)"
  shows "\<exists>s'. try_fold (insert_scope i kind) s vs = Inr s'"
  using assms
proof (induction vs arbitrary: s)
  case (Cons v vs)
  let ?s = "s\<lparr>s_scopes := s_scopes s @ [(i, kind, v)]\<rparr>"
  have "\<exists>s'. try_fold (insert_scope i kind) ?s vs = Inr s'" using Cons.prems by (intro Cons.IH) auto
  moreover have "insert_scope i kind s v = Inr ?s" using Cons.prems(2) [of v] by (simp add: insert_scope_def)
  ultimately show ?case by simp
qed simp

lemma replace_scopes_total:
  assumes "distinct ps" "distinct ys"
  shows "\<exists>s'. replace_scopes i (Some ps) (Some ys) s = Inr s'"
proof -
  have one: "\<exists>s'. replace_scope i kind (Some vs) s = Inr s'" if "distinct vs" for kind vs s
    using that by (auto simp: replace_scope_def intro!: insert_scopes_total)
  obtain s1 where "replace_scope i PathScope (Some ps) s = Inr s1" using one [OF assms(1)] by blast
  with one [OF assms(2)] show ?thesis by (simp add: replace_scopes_def)
qed

lemma grant_applies:
  assumes "logged s" "get_task s i = Some t" "distinct (fg_paths grant)" "distinct (fg_symbols grant)"
  shows "\<exists>s'. apply_federated_grant i agent grant kind now s = Inr ((), s') \<and> get_task s' = (get_task s)(i \<mapsto> granted_row grant now t) \<and>
    task_scope_on s' i = \<lparr>sc_paths = sort (fg_paths grant), sc_symbols = sort (fg_symbols grant)\<rparr>"
proof -
  let ?s1 = "snd (execute_update i (\<lambda>_. True) (granted_row grant now) s)"
  have keep: "keeps_id (granted_row grant now)" by (simp add: keeps_id_def granted_row_def)
  obtain s2 where s2: "replace_scopes i (Some (fg_paths grant)) (Some (fg_symbols grant)) ?s1 = Inr s2"
    using replace_scopes_total [OF assms(3,4)] by blast
  have tasks: "get_task s2 = get_task ?s1" by (rule get_task_cong) (rule side_table_D [OF replace_scopes_side s2])
  have row: "get_task s2 i = Some (granted_row grant now t)" using assms(2) by (simp add: tasks get_execute_update [OF keep])
  let ?s3 = "event_append kind (Some agent) now (granted_row grant now t)
    (Some (JObj [(''source'', JStr ''federated''), (''claim_lapses'', JInt (fg_claim_lapses grant))])) s2"
  have "apply_federated_grant i agent grant kind now = project_update i (granted_row grant now)
      (replace_scopes i (Some (fg_paths grant)) (Some (fg_symbols grant))) kind agent now
      (JObj [(''source'', JStr ''federated''), (''claim_lapses'', JInt (fg_claim_lapses grant))])"
    by (simp add: apply_federated_grant_def granted_row_def [abs_def])
  then have run: "apply_federated_grant i agent grant kind now s = Inr ((), ?s3)"
    using s2 row by (simp add: project_update_def case_prod_beta event_record_def)
  have "get_task ?s3 = (get_task s)(i \<mapsto> granted_row grant now t)"
    using assms(2) by (auto simp: fun_eq_iff tasks get_execute_update [OF keep] option.map_ident)
  moreover have "task_scope_on ?s3 i = task_scope_on s2 i" by (simp add: task_scope_on_def)
  ultimately show ?thesis using run replace_scopes_read [OF s2] by simp
qed

section \<open>One decision\<close>

text \<open>The years that RFC 3339 can write, from the epoch to the end of 9999.\<close>

definition representable :: "int \<Rightarrow> bool" where
  "representable a \<longleftrightarrow> 0 \<le> a \<and> a < 253402300800"

text \<open>What the authority's row and the local row have to say of each other.\<close>

definition mirrors :: "string \<Rightarrow> delegated_claim option \<Rightarrow> task \<Rightarrow> bool" where
  "mirrors node row t \<longleftrightarrow> (case row of
       None \<Rightarrow> t_status t = Open
     | Some c \<Rightarrow> t_status t = Claimed \<and> \<not> dc_parked c \<and> 0 \<le> dc_claim_lapses c \<and> dc_owner_node_id c = Some node \<and>
         t_owner t = Some (dc_owner_id c) \<and> t_branch t = (if dc_branch c = [] then None else Some (dc_branch c)) \<and>
         (\<exists>a b. representable a \<and> representable b \<and> t_claim_started_at t = Some a \<and> dc_claim_started_at c = seconds a \<and>
            t_lease_expires_at t = Some b \<and> dc_lease_expires_at c = seconds b))"

definition arrives :: "wire_env \<Rightarrow> claim_node \<Rightarrow> exchange \<Rightarrow> string \<Rightarrow> string \<Rightarrow> claim_operation \<Rightarrow> claim_server \<Rightarrow> bool" where
  "arrives env nd ex i owner op sv \<longleftrightarrow> ex_delivery ex = Delivered \<and> (\<exists>au sv1. client_authenticate env nd ex i owner op = Some au \<and>
     authenticate (we_ed env) (we_parse env) (ex_clock ex) (nd_tenant_id nd) (nd_repository_id nd) i owner op (Some au) sv =
       (Inr (nd_node_id nd), sv1))"

definition may_take :: "string \<Rightarrow> int \<Rightarrow> delegated_claim option \<Rightarrow> bool" where
  "may_take agent now row \<longleftrightarrow> (case row of None \<Rightarrow> True | Some c \<Rightarrow> dc_owner_id c = agent \<or> dc_lease_expires_at c < seconds now)"

definition taken :: "lease_request \<Rightarrow> int \<Rightarrow> delegated_claim option \<Rightarrow> lease_result \<Rightarrow> bool" where
  "taken rq now row r \<longleftrightarrow> lr_outcome r = Granted \<and> lr_owner_id r = rq_owner_id rq \<and> lr_lease_expires_at r = seconds (now + int (rq_lease rq)) \<and>
     lr_paths r = rq_paths rq \<and> lr_symbols r = rq_symbols rq \<and>
     (case row of Some c \<Rightarrow> if dc_owner_id c = rq_owner_id rq
        then lr_branch r = dc_branch c \<and> lr_claim_started_at r = dc_claim_started_at c
        else lr_branch r = rq_branch rq \<and> lr_claim_started_at r = seconds now
      | None \<Rightarrow> lr_branch r = rq_branch rq \<and> lr_claim_started_at r = seconds now)"

lemma add_lease_seconds: "now + int l < 2 ^ 63 \<Longrightarrow> add_lease (seconds now) l = Inr (seconds (now + int l))"
  by (simp add: add_lease_def seconds_def algebra_simps)

lemma seconds_less [simp]: "seconds a < seconds b \<longleftrightarrow> a < b" "seconds a \<le> seconds b \<longleftrightarrow> a \<le> b" "seconds a div 1000000 = a"
  by (simp_all add: seconds_def)

lemma mirrored_delegate:
  assumes m: "mirrors (rq_node_id rq) (claim_at sv (rq_key rq)) t"
    and l: "rq_lease rq \<noteq> 0" "now + int (rq_lease rq) < 2 ^ 63" and n: "\<not> blank (rq_node_id rq)"
  shows "\<exists>r sv'. delegate rq (seconds now) sv = Inr (r, sv') \<and>
    (if may_take (rq_owner_id rq) now (claim_at sv (rq_key rq)) then taken rq now (claim_at sv (rq_key rq)) r
     else (\<exists>c. claim_at sv (rq_key rq) = Some c \<and> r = lease_of Rejected c))"
proof (cases "claim_at sv (rq_key rq)")
  case None
  then show ?thesis
    using l n by (simp add: delegate_def delegate_racing_def validate_owner_def rq_owner_def add_lease_seconds Let_def may_take_def
        taken_def lease_of_def fresh_claim_def)
next
  case (Some c)
  with m have c: "\<not> dc_parked c" "0 \<le> dc_claim_lapses c" "dc_owner_node_id c = Some (rq_node_id rq)" by (auto simp: mirrors_def)
  have h: "holds (rq_owner_id rq) (rq_node_id rq) c \<longleftrightarrow> dc_owner_id c = rq_owner_id rq" using c(3) by (simp add: holds_def)
  show ?thesis
    using Some l n c by (auto simp: delegate_def delegate_racing_def validate_owner_def rq_owner_def add_lease_seconds may_take_def
        delegate_existing_def lapses_of_def verify_node_def h Let_def taken_def lease_of_def grant_row_def)
qed

lemma lease_u64_nat: "0 < l \<Longrightarrow> l < 2 ^ 63 \<Longrightarrow> unat (lease_u64 l) = nat l \<and> lease_u64 l \<noteq> 0"
  by (auto simp: lease_u64_def unat_eq_nat_uint uint_word_of_int take_bit_eq_mod word_of_int_eq_0_iff dest: zdvd_imp_le)

text \<open>The reply to a request that reached the authority.\<close>

lemma reached_delegate:
  assumes reach: "arrives env nd ex i agent (ClaimDelegate b (lease_u64 l) ps ys) sv" and clock: "ex_clock ex 2 = seconds now"
    and m: "mirrors (nd_node_id nd) (claim_at sv (nd_tenant_id nd, nd_repository_id nd, i)) t"
    and l: "0 < l" "now + l < 2 ^ 63" "0 \<le> now"
    and names: "\<not> blank (nd_tenant_id nd)" "\<not> blank (nd_repository_id nd)" "\<not> blank i" "\<not> blank agent" "\<not> blank b" "\<not> blank (nd_node_id nd)"
  defines "row \<equiv> claim_at sv (nd_tenant_id nd, nd_repository_id nd, i)"
    and "rq \<equiv> \<lparr>rq_tenant_id = nd_tenant_id nd, rq_repository_id = nd_repository_id nd, rq_task_id = i, rq_owner_id = agent,
      rq_node_id = nd_node_id nd, rq_branch = b, rq_lease = nat l, rq_paths = ps, rq_symbols = ys\<rparr>"
  shows "\<exists>r sv'. (if may_take agent now row then taken rq now row r else (\<exists>c. row = Some c \<and> r = lease_of Rejected c)) \<and>
    lease_call env nd ex i agent (ClaimDelegate b (lease_u64 l) ps ys) sv =
      (case result_to_wire (we_format env) r of Inl _ \<Rightarrow> Inl client_error | Inr x \<Rightarrow> outcome_from_result env x, sv')"
proof -
  let ?op = "ClaimDelegate b (lease_u64 l) ps ys"
  obtain au sv1 where au: "client_authenticate env nd ex i agent ?op = Some au"
    and ok: "authenticate (we_ed env) (we_parse env) (ex_clock ex) (nd_tenant_id nd) (nd_repository_id nd) i agent ?op (Some au) sv =
       (Inr (nd_node_id nd), sv1)" and del: "ex_delivery ex = Delivered" using reach by (auto simp: arrives_def)
  have sv1: "claim_at sv1 k = claim_at sv k" for k using ok by (rule authenticated) simp
  have rq: "rq_key rq = (nd_tenant_id nd, nd_repository_id nd, i)" "rq_lease rq \<noteq> 0" "now + int (rq_lease rq) < 2 ^ 63"
    "rq_node_id rq = nd_node_id nd" "rq_owner_id rq = agent" using l by (simp_all add: rq_def rq_key_def)
  obtain r sv' where r: "delegate rq (seconds now) sv1 = Inr (r, sv')"
    "if may_take agent now row then taken rq now row r else (\<exists>c. row = Some c \<and> r = lease_of Rejected c)"
    using mirrored_delegate [of rq sv1 t now] m rq(2,3) names(6) unfolding rq(1,4,5) sv1 row_def by blast
  have lease: "unat (lease_u64 l) = nat l" "lease_u64 l \<noteq> 0" using lease_u64_nat [of l] l by auto
  have "serve (we_ed env) (we_parse env) (we_format env) (ex_clock ex) (nd_tenant_id nd) (nd_repository_id nd) i agent ?op (Some au) sv =
      (case result_to_wire (we_format env) r of Inl e \<Rightarrow> Inl e | Inr x \<Rightarrow> Inr (LeaseReply x), sv')"
    using r(1) names lease ok clock
    by (simp add: delegate_claim_rpc_def rpc_map_def rpc_then_def rpc_check_def required_def require_lease_def reply_lease_def rpc_store_def
        rq_def split: sum.splits)
  then have "lease_call env nd ex i agent ?op sv =
      (case result_to_wire (we_format env) r of Inl _ \<Rightarrow> Inl client_error | Inr x \<Rightarrow> outcome_from_result env x, sv')"
    using au del by (simp add: lease_call_def node_claim_def split: sum.splits)
  with r(2) show ?thesis by blast
qed

text \<open>The same row, whoever decides.\<close>

lemma agreed_row:
  assumes m: "mirrors (nd_node_id nd) row t" and take: "taken rq now row r" "may_take agent now row"
    and rq: "rq_owner_id rq = agent" "rq_branch rq = b" "rq_lease rq = nat l" "0 < l" "b \<noteq> []"
    and rt: "\<forall>n x. we_format env n = Some x \<longrightarrow> we_parse env x = Some n"
    and x: "result_to_wire (we_format env) r = Inr x"
  shows "\<exists>g. outcome_from_result env x = Inr (FederatedGranted g) \<and> granted_row g now t = claim_row (Some b) agent l now t \<and>
    fg_paths g = rq_paths rq \<and> fg_symbols g = rq_symbols rq"
proof -
  obtain started expires where f: "we_format env (lr_claim_started_at r) = Some started" "we_format env (lr_lease_expires_at r) = Some expires"
    and x': "x = \<lparr>wl_outcome = lr_outcome r, wl_owner_id = lr_owner_id r, wl_branch = lr_branch r, wl_claim_started_at = started,
      wl_lease_expires_at = expires, wl_claim_lapses = lr_claim_lapses r, wl_paths = lr_paths r, wl_symbols = lr_symbols r, wl_diagnostic = []\<rparr>"
    using x by (auto simp: result_to_wire_def split: option.splits)
  have p: "we_parse env started = Some (lr_claim_started_at r)" "we_parse env expires = Some (lr_lease_expires_at r)"
    using rt f by auto
  show ?thesis
    using m take rq p by (cases row) (auto simp: x' outcome_from_result_def parse_unix_seconds_def taken_def mirrors_def granted_row_def claim_row_def)
qed

lemma mirrored_claim:
  assumes "logged s" "get_task s i = Some t" "distinct (s_scopes s)"
    and "trim agent = agent" "session_branch s agent = Some b" "trim b = b"
    and "t_blocked_by t = None" "\<not> legacy_owner agent t" "refuse_beyond_claim_limit s i agent = Inr ()"
    and "mirrors (nd_node_id nd) (claim_at sv (nd_tenant_id nd, nd_repository_id nd, i)) t"
    and "arrives env nd ex i agent (ClaimDelegate b (lease_u64 l) (sc_paths (task_scope_on s i)) (sc_symbols (task_scope_on s i))) sv"
    and "ex_clock ex 2 = seconds now" "representable now" "0 < l" "representable (now + l)"
    and "list_all (\<lambda>x. \<not> blank x) [nd_tenant_id nd, nd_repository_id nd, nd_node_id nd, i, agent, b]"
    and "\<forall>n x. we_format env n = Some x \<longrightarrow> we_parse env x = Some n" "\<forall>a. representable a \<longrightarrow> we_format env (seconds a) \<noteq> None"
  shows "\<exists>won s1 s2 sv2. claim_task_with_partial_scope glob i agent l None None now s = Inr (won, s1) \<and>
    execute glob env (Some nd) ex (ClaimCall i agent l None None) now (s, sv) = (Inr won, (s2, sv2)) \<and>
    get_task s2 = get_task s1 \<and> task_scope_on s2 i = task_scope_on s1 i"
proof -
  let ?ps = "sc_paths (task_scope_on s i)" and ?ys = "sc_symbols (task_scope_on s i)"
  define row where "row = claim_at sv (nd_tenant_id nd, nd_repository_id nd, i)"
  define rq where "rq = \<lparr>rq_tenant_id = nd_tenant_id nd, rq_repository_id = nd_repository_id nd, rq_task_id = i, rq_owner_id = agent,
      rq_node_id = nd_node_id nd, rq_branch = b, rq_lease = nat l, rq_paths = ?ps, rq_symbols = ?ys\<rparr>"
  have names: "\<not> blank (nd_tenant_id nd)" "\<not> blank (nd_repository_id nd)" "\<not> blank i" "\<not> blank agent" "\<not> blank b" "\<not> blank (nd_node_id nd)"
    using assms(16) by simp_all
  obtain r sv' where r: "if may_take agent now row then taken rq now row r else (\<exists>c. row = Some c \<and> r = lease_of Rejected c)"
    and call: "lease_call env nd ex i agent (ClaimDelegate b (lease_u64 l) ?ps ?ys) sv =
      (case result_to_wire (we_format env) r of Inl _ \<Rightarrow> Inl client_error | Inr x \<Rightarrow> outcome_from_result env x, sv')"
    using reached_delegate [OF assms(11,12,10,14) _ _ names] assms(13,15) unfolding row_def rq_def representable_def by fastforce
  have m: "mirrors (nd_node_id nd) row t" using assms(10) by (simp add: row_def)
  obtain a e where "lr_claim_started_at r = seconds a" "representable a" "lr_lease_expires_at r = seconds e" "representable e"
    using r m assms(13,15) assms(14) by (cases row) (auto simp: mirrors_def taken_def rq_def lease_of_def split: if_splits)
  then obtain x where x: "result_to_wire (we_format env) r = Inr x"
    using spec [OF assms(18), of a] spec [OF assms(18), of e] by (auto simp: result_to_wire_def)
  have guard: "claim_guard agent now t \<longleftrightarrow> may_take agent now row"
    using assms(7,8,10) by (auto simp: row_def claim_guard_def may_take_def mirrors_def split: option.splits)
  have branch: "declared_branch s (Some agent) = Some b"
    using assms(4-6) names by (auto simp: declared_branch_def session_branch_def split: option.splits)
  have fed: "execute glob env (Some nd) ex (ClaimCall i agent l None None) now (s, sv) =
      on_grant (lease_call env nd ex i agent (ClaimDelegate b (lease_u64 l) ?ps ?ys)) (\<lambda>g. apply_federated_grant i agent g EvClaimed now) (s, sv)"
    using assms(2,4) names by (simp add: exec_claim_task_with_partial_scope_def checked_def resolve_agent_def task_scope_of_def branch
        authority_delegate_def unwrap_or_empty_def)
  have scope: "distinct ?ps" "distinct ?ys" "sort ?ps = ?ps" "sort ?ys = ?ys"
    using assms(3) by (auto simp: task_scope_on_def distinct_map inj_on_def sorted_sort_id intro!: distinct_filter)
  show ?thesis
  proof (cases "may_take agent now row")
    case False
    with r x obtain d where "outcome_from_result env x = Inr (FederatedRejected d)"
      by (auto simp: outcome_from_result_def result_to_wire_def lease_of_def split: option.splits)
    then have "execute glob env (Some nd) ex (ClaimCall i agent l None None) now (s, sv) = (Inr False, (s, sv'))"
      using call x unfolding fed by (simp add: on_grant_def)
    moreover have "claim_task_with_partial_scope glob i agent l None None now s = Inr (False, s)"
      using assms(2,9) guard False by (simp add: claim_task_with_partial_scope_def) (rule transact_refuses [OF assms(1)], simp)
    ultimately show ?thesis by auto
  next
    case True
    with r have "taken rq now row r" by simp
    moreover have "b \<noteq> []" using names(5) by (auto simp: blank_def trim_def)
    ultimately obtain g where g: "outcome_from_result env x = Inr (FederatedGranted g)" "granted_row g now t = claim_row (Some b) agent l now t"
      "fg_paths g = ?ps" "fg_symbols g = ?ys"
      using agreed_row [OF m _ True _ _ _ assms(14) _ assms(17) x, of rq b] by (auto simp: rq_def)
    obtain s2 where s2: "apply_federated_grant i agent g EvClaimed now s = Inr ((), s2)"
      "get_task s2 = (get_task s)(i \<mapsto> claim_row (Some b) agent l now t)" "task_scope_on s2 i = \<lparr>sc_paths = ?ps, sc_symbols = ?ys\<rparr>"
      using grant_applies [OF assms(1,2), of g agent EvClaimed now] g scope by auto
    have "execute glob env (Some nd) ex (ClaimCall i agent l None None) now (s, sv) = (Inr True, (s2, sv'))"
      using call x g(1) s2(1) unfolding fed by (simp add: on_grant_def)
    moreover obtain s1 where "claim_task_with_partial_scope glob i agent l None None now s = Inr (True, s1)"
      "get_task s1 = (get_task s)(i \<mapsto> claim_row (Some b) agent l now t)" "task_scope_on s1 i = task_scope_on s i"
      using unscoped_claim [OF assms(1,2) _ assms(9)] guard True assms(5) by metis
    ultimately show ?thesis using s2(2,3) by auto
  qed
qed

text \<open>
  C18. The authority decides as the ledger would, under these conditions: the authority's row and the local row say the same of a
  task that is open or claimed at this node and not gated; the agent has declared a branch, names no scope of its own, is within
  the limit on concurrent claims (which the authority does not know) and does not face an owner from before session identities
  as a session; the names are not blank, the instants and the lease can be written as timestamps, the lease is positive; and the
  request arrives within the second and is answered. Then a claim through the authority and a claim decided by the local
  compare-and-swap are won or lost together, and leave the same task rows and the same declared scope.
\<close>

theorem federated_claim_agrees_with_local:
  assumes "logged s" "get_task s i = Some t" "distinct (s_scopes s)"
    and "trim agent = agent" "session_branch s agent = Some b" "trim b = b"
    and "t_blocked_by t = None" "\<not> legacy_owner agent t" "refuse_beyond_claim_limit s i agent = Inr ()"
    and "mirrors (nd_node_id nd) (claim_at sv (nd_tenant_id nd, nd_repository_id nd, i)) t"
    and "arrives env nd ex i agent (ClaimDelegate b (lease_u64 l) (sc_paths (task_scope_on s i)) (sc_symbols (task_scope_on s i))) sv"
    and "ex_clock ex 2 = seconds now" "representable now" "0 < l" "representable (now + l)"
    and "list_all (\<lambda>x. \<not> blank x) [nd_tenant_id nd, nd_repository_id nd, nd_node_id nd, i, agent, b]"
    and "\<forall>n x. we_format env n = Some x \<longrightarrow> we_parse env x = Some n" "\<forall>a. representable a \<longrightarrow> we_format env (seconds a) \<noteq> None"
  shows "\<exists>won s1 s2 sv2. claim_task_with_partial_scope glob i agent l None None now s = Inr (won, s1) \<and>
    execute glob env (Some nd) ex (ClaimCall i agent l None None) now (s, sv) = (Inr won, (s2, sv2)) \<and>
    get_task s2 = get_task s1 \<and> task_scope_on s2 i = task_scope_on s1 i"
  using assms by (rule mirrored_claim)

text \<open>
  C39. A claim that is given back can still be parked by who gave it back, at any later time. From then on, in every state in which
  the claim is still parked, however much time has passed, every delegation and every recovery of the task is refused and leaves
  the claim as it is: the task is out of reach until the former holder resumes it. In the ledger a task that was given back is
  open, and a task that stays parked may be claimed when the parking grace is over.
\<close>

theorem released_claim_can_be_parked:
  assumes "claim_at s k = Some c" "holds (co_owner_id w) (co_node_id w) c" "\<not> dc_parked c" "now \<le> dc_lease_expires_at c"
    and "\<not> blank (co_node_id w)"
  shows "\<exists>s1 s2 c2. release_claim k w now s = Inr (True, s1) \<and> park k w later s1 = Inr (True, s2) \<and>
    claim_at s2 k = Some c2 \<and> dc_parked c2 \<and>
    (\<forall>s' c'. claim_at s' k = Some c' \<and> dc_parked c' \<longrightarrow>
      (\<forall>rq n r s3. rq_key rq = k \<and> delegate rq n s' = Inr (r, s3) \<longrightarrow> lr_outcome r = Rejected \<and> claim_at s3 k = Some c') \<and>
      (\<forall>rc n r s3. rc_key rc = k \<and> recover rc n s' = Inr (r, s3) \<longrightarrow> lr_outcome r = Rejected \<and> claim_at s3 k = Some c'))"
proof -
  have v: "verify_node w (dc_owner_id c) (dc_owner_node_id c) = Inr ()" using assms(2) by (simp add: verify_node_def holds_def)
  obtain s1 where s1: "release_claim k w now s = Inr (True, s1)" "claim_at s1 k = Some (c\<lparr>dc_lease_expires_at := now\<rparr>)"
    using assms v by (simp add: release_claim_def validate_owner_def lock_and_verify_def Let_def claim_at_update)
  obtain s2 where s2: "park k w later s1 = Inr (True, s2)" "claim_at s2 k = Some (c\<lparr>dc_lease_expires_at := later, dc_parked := True\<rparr>)"
    using assms v s1(2) by (simp add: park_def validate_owner_def lock_and_verify_def Let_def claim_at_update)
  have "lr_outcome r = Rejected \<and> claim_at s3 k = Some c'"
    if "claim_at s' k = Some c'" "dc_parked c'" "rq_key rq = k" "delegate rq n s' = Inr (r, s3)" for s' c' rq n r s3
    using that by (auto simp: delegate_def delegate_racing_def delegate_existing_def and_then_Inr Let_def lease_of_def split: if_splits)
  moreover have "lr_outcome r = Rejected \<and> claim_at s3 k = Some c'"
    if "claim_at s' k = Some c'" "dc_parked c'" "rc_key rc = k" "recover rc n s' = Inr (r, s3)" for s' c' rc n r s3
    using that by (auto simp: recover_def and_then_Inr Let_def lease_of_def split: if_splits)
  moreover have "dc_parked (c\<lparr>dc_lease_expires_at := later, dc_parked := True\<rparr>)" by simp
  ultimately show ?thesis using s1(1) s2 by blast
qed

section \<open>Concrete runs\<close>

definition demo_env :: wire_env where
  "demo_env = \<lparr>we_ed = demo_ed, we_parse = demo_parse, we_format = demo_format\<rparr>"

definition demo_node :: claim_node where
  "demo_node = \<lparr>nd_tenant_id = ''t'', nd_repository_id = ''r'', nd_node_id = ''n'', nd_signing_key_id = ''s'', nd_sign = (\<lambda>_. Some [7])\<rparr>"

definition demo_exchange :: exchange where
  "demo_exchange = \<lparr>ex_signed_at = seconds 5, ex_nonce = [1], ex_clock = (\<lambda>_. seconds 5), ex_delivery = Delivered\<rparr>"

definition demo_ledger :: ledger where
  "demo_ledger = (imported [sample_task ''k''])\<lparr>s_sessions := [(''w'', \<lparr>x_branch = Some ''main'', x_head_sha = None, x_base = None,
     x_dirty = None, x_behind = None\<rparr>, 0)]\<rparr>"

lemma demo_arrives: "arrives demo_env demo_node demo_exchange ''k'' ''w'' op demo_server"
  by (simp add: arrives_def demo_env_def demo_node_def demo_exchange_def client_authenticate_def unsigned_authentication_def
      unwrap_or_empty_def demo_defs request_defs read_show_nat [unfolded read_nat_def])

lemma demo_formats: "we_format demo_env n = Some x \<longrightarrow> we_parse demo_env x = Some n" "representable a \<longrightarrow> we_format demo_env (seconds a) \<noteq> None"
  by (auto simp: demo_env_def demo_format_def demo_parse_def read_show_nat representable_def seconds_def)

lemma demo_ledger_reads:
  "logged demo_ledger" "get_task demo_ledger ''k'' = Some (sample_task ''k'')" "distinct (s_scopes demo_ledger)" "trim ''w'' = ''w''"
  "session_branch demo_ledger ''w'' = Some ''main''" "trim ''main'' = ''main''" "refuse_beyond_claim_limit demo_ledger ''k'' ''w'' = Inr ()"
  "\<not> legacy_owner ''w'' (sample_task ''k'')"
  by (simp add: demo_ledger_def imported_logged) code_simp+

lemma demo_mirrors: "mirrors (nd_node_id demo_node) (claim_at demo_server (nd_tenant_id demo_node, nd_repository_id demo_node, ''k'')) (sample_task ''k'')"
  by (simp add: mirrors_def claim_at_def demo_defs empty_server_def sample_task_def)

lemma demo_rest: "t_blocked_by (sample_task ''k'') = None" "ex_clock demo_exchange 2 = seconds 5" "representable 5" "(0::int) < 60" "representable (5 + 60)"
  "list_all (\<lambda>x. \<not> blank x) [nd_tenant_id demo_node, nd_repository_id demo_node, nd_node_id demo_node, ''k'', ''w'', ''main'']"
  by (simp_all add: sample_task_def demo_exchange_def representable_def demo_node_def)

theorem federated_claim_agrees_with_local_witness:
  "\<exists>won s1 s2 sv2. claim_task_with_partial_scope (\<lambda>_. None) ''k'' ''w'' 60 None None 5 demo_ledger = Inr (won, s1) \<and>
    execute (\<lambda>_. None) demo_env (Some demo_node) demo_exchange (ClaimCall ''k'' ''w'' 60 None None) 5 (demo_ledger, demo_server) =
      (Inr won, (s2, sv2)) \<and> get_task s2 = get_task s1 \<and> task_scope_on s2 ''k'' = task_scope_on s1 ''k''"
  by (rule federated_claim_agrees_with_local [OF demo_ledger_reads(1-6) demo_rest(1) demo_ledger_reads(8,7) demo_mirrors demo_arrives demo_rest(2-)])
    (use demo_formats in auto)

lemma demo_local_wins: "wins (claim_task_with_partial_scope (\<lambda>_. None) ''k'' ''w'' 60 None None 5 demo_ledger)"
  by code_simp

theorem federated_calls_follow_the_authority_witness:
  "\<exists>s' sv' c. execute (\<lambda>_. None) demo_env (Some demo_node) demo_exchange (ClaimCall ''k'' ''w'' 60 None None) 5 (demo_ledger, demo_server) =
      (Inr True, (s', sv')) \<and> claim_at sv' (''t'', ''r'', ''k'') = Some c \<and> holds ''w'' ''n'' c \<and>
    get_task s' ''k'' = Some (granted_row (grant_of 0 c) 5 (sample_task ''k''))"
proof -
  obtain s' sv' where run: "execute (\<lambda>_. None) demo_env (Some demo_node) demo_exchange (ClaimCall ''k'' ''w'' 60 None None) 5
      (demo_ledger, demo_server) = (Inr True, (s', sv'))"
    using mirrored_claim [OF demo_ledger_reads(1-6) demo_rest(1) demo_ledger_reads(8,7) demo_mirrors demo_arrives demo_rest(2-), of "\<lambda>_. None"]
      demo_formats demo_local_wins by (auto simp: wins_iff)
  have "call_owner demo_ledger (ClaimCall ''k'' ''w'' 60 None None) = ''w''" by (simp add: demo_ledger_reads)
  with federated_calls_follow_the_authority [OF _ demo_ledger_reads(1) run] demo_formats obtain c where
    "claim_at sv' (''t'', ''r'', ''k'') = Some c" "holds ''w'' ''n'' c" "get_task s' ''k'' = Some (granted_row (grant_of 0 c) 5 (sample_task ''k''))"
    by (auto simp: demo_node_def demo_ledger_reads)
  with run show ?thesis by blast
qed

text \<open>The agent \<open>w\<close> keeps its local lease alive while the authority has given the task to \<open>v\<close>.\<close>

definition demo_other :: claim_server where
  "demo_other = demo_server\<lparr>cs_claims := [fresh_claim \<lparr>rq_tenant_id = ''t'', rq_repository_id = ''r'', rq_task_id = ''k'', rq_owner_id = ''v'',
     rq_node_id = ''m'', rq_branch = ''main'', rq_lease = 60, rq_paths = [], rq_symbols = []\<rparr> (seconds 8) (seconds 68)]\<rparr>"

theorem heartbeat_bypasses_authority_witness:
  "\<exists>s' t'. exec_touch_lease ''k'' ''w'' 60 9 (imported [sample_claim ''k'' ''w'' 1 9], demo_other) = (Inr True, (s', demo_other)) \<and>
     get_task s' ''k'' = Some t' \<and> t_owner t' = Some ''w'' \<and> t_lease_expires_at t' = Some 69"
proof -
  have log: "logged (imported [sample_claim ''k'' ''w'' 1 9])" by (rule imported_logged) simp
  have get: "get_task (imported [sample_claim ''k'' ''w'' 1 9]) ''k'' = Some (sample_claim ''k'' ''w'' 1 9)" by code_simp
  have live: "live_lease_guard (trim ''w'') 9 (sample_claim ''k'' ''w'' 1 9)" by code_simp
  show ?thesis
    using heartbeat_bypasses_authority [OF log get demo_names(4) live, of 60 demo_other]
    by (elim exE conjE) (intro exI conjI, assumption+, simp_all add: sample_claim_def sample_task_def sql_max_def)
qed

text \<open>The claim of the first run is given back, then parked by its former holder a year later.\<close>

definition demo_later :: lease_request where
  "demo_later = \<lparr>rq_tenant_id = ''t'', rq_repository_id = ''r'', rq_task_id = ''k'', rq_owner_id = ''v'', rq_node_id = ''n'', rq_branch = ''main'',
     rq_lease = 60, rq_paths = [], rq_symbols = []\<rparr>"

theorem released_claim_can_be_parked_witness:
  "\<exists>s1 s2. release_claim (''t'', ''r'', ''k'') \<lparr>co_owner_id = ''w'', co_node_id = ''n''\<rparr> 9 (snd demo_claimed) = Inr (True, s1) \<and>
    park (''t'', ''r'', ''k'') \<lparr>co_owner_id = ''w'', co_node_id = ''n''\<rparr> (seconds 31536000) s1 = Inr (True, s2) \<and>
    (case delegate demo_later (seconds 99999999) s2 of Inl e \<Rightarrow> True | Inr (r, s3) \<Rightarrow> lr_outcome r = Rejected)"
proof -
  obtain c where c: "claim_at (snd demo_claimed) (''t'', ''r'', ''k'') = Some c" "holds ''w'' ''n'' c" "\<not> dc_parked c" "9 \<le> dc_lease_expires_at c"
    by (simp add: demo_claimed_runs claim_at_def dc_key_def holds_def)
  let ?w = "\<lparr>co_owner_id = ''w'', co_node_id = ''n''\<rparr>"
  have h: "holds (co_owner_id ?w) (co_node_id ?w) c" "\<not> blank (co_node_id ?w)" using c(2) by simp_all
  obtain s1 s2 where s2: "release_claim (''t'', ''r'', ''k'') ?w 9 (snd demo_claimed) = Inr (True, s1)"
      "park (''t'', ''r'', ''k'') ?w (seconds 31536000) s1 = Inr (True, s2)"
    and stuck: "\<And>rq n r s3. rq_key rq = (''t'', ''r'', ''k'') \<Longrightarrow> delegate rq n s2 = Inr (r, s3) \<Longrightarrow> lr_outcome r = Rejected"
    using released_claim_can_be_parked [OF c(1) h(1) c(3,4) h(2), of "seconds 31536000"] by metis
  with stuck [of demo_later] show ?thesis by (auto simp: demo_later_def rq_key_def split: sum.splits prod.splits)
qed

end
