(* ===== verification/Memory_Graph.thy ===== *)
theory Memory_Graph
  imports Prelude Complex_Main
begin

text \<open>
  Crate \<^verbatim>\<open>mindleak-core\<close>, the memory plane: the graph of files, symbols, executions, intents and agents in
  \<^verbatim>\<open>model.rs\<close>, \<^verbatim>\<open>schema.sql\<close>, \<^verbatim>\<open>graph/writes.rs\<close> and \<^verbatim>\<open>graph/lifecycle.rs\<close>. The record \<open>mem_graph\<close> has one
  field per table; foreign keys are on, so an insertion that names a missing node fails and the
  deletion of a node takes its edges, version, stub and candidates along. A writer returns an error, the rolled-back
  transaction, or its outcome with the committed graph.
\<close>

section \<open>Nodes and edges\<close>

datatype node_type =
  NodeSymbol | NodeArtifact | NodeExecution | NodeToolInvocation | NodeIntent | NodeAgent | NodePackage | NodeDigest

fun node_type_as_str :: "node_type \<Rightarrow> string" where
  "node_type_as_str NodeSymbol = ''symbol''"
| "node_type_as_str NodeArtifact = ''artifact''"
| "node_type_as_str NodeExecution = ''execution''"
| "node_type_as_str NodeToolInvocation = ''tool_invocation''"
| "node_type_as_str NodeIntent = ''intent''"
| "node_type_as_str NodeAgent = ''agent''"
| "node_type_as_str NodePackage = ''package''"
| "node_type_as_str NodeDigest = ''digest''"

definition node_type_from_tag :: "string \<Rightarrow> node_type option" where
  "node_type_from_tag s =
     (if s = ''symbol'' then Some NodeSymbol else if s = ''artifact'' then Some NodeArtifact
      else if s = ''execution'' then Some NodeExecution else if s = ''tool_invocation'' then Some NodeToolInvocation
      else if s = ''intent'' then Some NodeIntent else if s = ''agent'' then Some NodeAgent
      else if s = ''package'' then Some NodePackage else if s = ''digest'' then Some NodeDigest else None)"

datatype relation_type =
    RelModified | RelFailedOn | RelCalls | RelRefactored | RelFixed | RelRelatesTo | RelContains | RelObserved
  | RelImports | RelExtends | RelImplements | RelDependsOn

fun relation_as_str :: "relation_type \<Rightarrow> string" where
  "relation_as_str RelModified = ''modified''"
| "relation_as_str RelFailedOn = ''failed_on''"
| "relation_as_str RelCalls = ''calls''"
| "relation_as_str RelRefactored = ''refactored''"
| "relation_as_str RelFixed = ''fixed''"
| "relation_as_str RelRelatesTo = ''relates_to''"
| "relation_as_str RelContains = ''contains''"
| "relation_as_str RelObserved = ''observed''"
| "relation_as_str RelImports = ''imports''"
| "relation_as_str RelExtends = ''extends''"
| "relation_as_str RelImplements = ''implements''"
| "relation_as_str RelDependsOn = ''depends_on''"

definition relation_from_tag :: "string \<Rightarrow> relation_type option" where
  "relation_from_tag s =
     (if s = ''modified'' then Some RelModified else if s = ''failed_on'' then Some RelFailedOn
      else if s = ''calls'' then Some RelCalls else if s = ''refactored'' then Some RelRefactored
      else if s = ''fixed'' then Some RelFixed else if s = ''relates_to'' then Some RelRelatesTo
      else if s = ''contains'' then Some RelContains else if s = ''observed'' then Some RelObserved
      else if s = ''imports'' then Some RelImports else if s = ''extends'' then Some RelExtends
      else if s = ''implements'' then Some RelImplements else if s = ''depends_on'' then Some RelDependsOn else None)"

interpretation node_types: tagged_enum node_type_as_str node_type_from_tag
  by unfold_locales (case_tac x, auto simp: node_type_from_tag_def split: if_splits)

interpretation relations: tagged_enum relation_as_str relation_from_tag
  by unfold_locales (case_tac x, auto simp: relation_from_tag_def split: if_splits)

fun default_half_life_hours :: "relation_type \<Rightarrow> real" where
  "default_half_life_hours RelModified = 24"
| "default_half_life_hours RelFailedOn = 24"
| "default_half_life_hours RelRelatesTo = 48"
| "default_half_life_hours RelObserved = 48"
| "default_half_life_hours _ = 168"

record mem_node =
  n_id :: string
  n_type :: node_type
  n_label :: string
  n_content :: "string option"
  n_created_at :: int
  n_last_accessed_at :: int

definition node_new :: "string \<Rightarrow> node_type \<Rightarrow> string \<Rightarrow> int \<Rightarrow> mem_node" where
  "node_new i ty label now = \<lparr>n_id = i, n_type = ty, n_label = label, n_content = None, n_created_at = now, n_last_accessed_at = now\<rparr>"

record mem_edge =
  ed_source_id :: string
  ed_target_id :: string
  ed_relation :: relation_type
  ed_weight :: real
  ed_half_life_hours :: real
  ed_updated_at :: int

definition edge_new :: "string \<Rightarrow> string \<Rightarrow> relation_type \<Rightarrow> int \<Rightarrow> mem_edge" where
  "edge_new source target relation now = \<lparr>ed_source_id = source, ed_target_id = target, ed_relation = relation, ed_weight = 1,
     ed_half_life_hours = default_half_life_hours relation, ed_updated_at = now\<rparr>"

record edge_row = mem_edge +
  ro_first_seen :: int
  ro_reinforcement_count :: int
  ro_owner_id :: "string option"

type_synonym edge_id = "string \<times> string \<times> relation_type"

definition edge_key :: "('a) mem_edge_scheme \<Rightarrow> edge_id" where
  "edge_key e = (ed_source_id e, ed_target_id e, ed_relation e)"

definition touches :: "string \<Rightarrow> ('a) mem_edge_scheme \<Rightarrow> bool" where
  "touches i e \<longleftrightarrow> ed_source_id e = i \<or> ed_target_id e = i"

record maintenance_lease =
  ml_owner :: string
  ml_lease_expires_at :: int
  ml_last_attempt_at :: int

record mem_graph =
  mg_nodes :: "mem_node list"
  mg_edges :: "edge_row list"
  mg_versions :: "(string \<times> nat) list"
  mg_stubs :: "string list"
  mg_candidates :: "(string \<times> string) list"
  mg_lease :: "maintenance_lease option"

definition empty_graph :: mem_graph where
  "empty_graph = \<lparr>mg_nodes = [], mg_edges = [], mg_versions = [], mg_stubs = [], mg_candidates = [], mg_lease = None\<rparr>"

datatype mind_error = MindNotFound string | MindBusy | MindOther string | MindInvalidArgument string | MindForeignKey

section \<open>Single rows\<close>

definition node_exists_on :: "mem_graph \<Rightarrow> string \<Rightarrow> bool" where
  "node_exists_on g i \<longleftrightarrow> (\<exists>n \<in> set (mg_nodes g). n_id n = i)"

definition get_node :: "mem_graph \<Rightarrow> string \<Rightarrow> mem_node option" where
  "get_node g i = find (\<lambda>n. n_id n = i) (mg_nodes g)"

definition connected :: "mem_graph \<Rightarrow> string \<Rightarrow> bool" where
  "connected g i \<longleftrightarrow> (\<exists>e \<in> set (mg_edges g). touches i e)"

definition upsert_node_on :: "mem_node \<Rightarrow> mem_graph \<Rightarrow> bool \<times> mem_graph" where
  "upsert_node_on node g =
     (if node_exists_on g (n_id node)
      then (False, g\<lparr>mg_nodes := map (\<lambda>n. if n_id n = n_id node
             then n\<lparr>n_label := n_label node, n_content := (case n_content node of Some c \<Rightarrow> Some c | None \<Rightarrow> n_content n),
                    n_last_accessed_at := n_last_accessed_at node\<rparr> else n) (mg_nodes g)\<rparr>)
      else (True, g\<lparr>mg_nodes := mg_nodes g @ [node]\<rparr>))"

definition edge_at :: "mem_graph \<Rightarrow> edge_id \<Rightarrow> edge_row option" where
  "edge_at g k = find (\<lambda>e. edge_key e = k) (mg_edges g)"

definition fresh_edge :: "mem_edge \<Rightarrow> string option \<Rightarrow> edge_row" where
  "fresh_edge edge owner = mem_edge.extend edge
     \<lparr>ro_first_seen = ed_updated_at edge, ro_reinforcement_count = 1, ro_owner_id = owner\<rparr>"

definition reinforced :: "mem_edge \<Rightarrow> string option \<Rightarrow> edge_row \<Rightarrow> edge_row" where
  "reinforced edge owner e = e\<lparr>ed_weight := min 1 (ed_weight e + 1 / 20), ed_half_life_hours := ed_half_life_hours edge,
     ed_updated_at := ed_updated_at edge, ro_reinforcement_count := ro_reinforcement_count e + 1,
     ro_owner_id := (case owner of Some w \<Rightarrow> Some w | None \<Rightarrow> ro_owner_id e)\<rparr>"

definition upsert_edge_on :: "mem_edge \<Rightarrow> string option \<Rightarrow> mem_graph \<Rightarrow> mind_error + bool \<times> mem_graph" where
  "upsert_edge_on edge owner g = (case edge_at g (edge_key edge) of
       Some e \<Rightarrow>
         (case (owner, ro_owner_id e) of
            (Some requested, Some existing) \<Rightarrow>
              if requested \<noteq> existing then Inl (MindOther (''structural edge is owned by '' @ existing @ '', not '' @ requested))
              else Inr (False, g\<lparr>mg_edges := map (\<lambda>e. if edge_key e = edge_key edge then reinforced edge owner e else e) (mg_edges g)\<rparr>)
          | _ \<Rightarrow> Inr (False, g\<lparr>mg_edges := map (\<lambda>e. if edge_key e = edge_key edge then reinforced edge owner e else e) (mg_edges g)\<rparr>))
     | None \<Rightarrow>
         if node_exists_on g (ed_source_id edge) \<and> node_exists_on g (ed_target_id edge)
         then Inr (True, g\<lparr>mg_edges := mg_edges g @ [fresh_edge edge owner]\<rparr>) else Inl MindForeignKey)"

text \<open>\<^verbatim>\<open>DELETE FROM nodes\<close> with its cascades, and \<^verbatim>\<open>DELETE FROM edges\<close>; both return the number of rows of their table.\<close>

definition delete_stubs :: "(string \<Rightarrow> bool) \<Rightarrow> mem_graph \<Rightarrow> mem_graph" where
  "delete_stubs gone g = g\<lparr>mg_stubs := filter (\<lambda>i. \<not> gone i) (mg_stubs g),
     mg_candidates := filter (\<lambda>c. \<not> gone (fst c)) (mg_candidates g)\<rparr>"

definition delete_nodes :: "(mem_node \<Rightarrow> bool) \<Rightarrow> mem_graph \<Rightarrow> nat \<times> mem_graph" where
  "delete_nodes P g = (
     let gone = (\<lambda>i. \<exists>n \<in> set (mg_nodes g). P n \<and> n_id n = i) in
     (length (filter P (mg_nodes g)),
      delete_stubs gone (g\<lparr>mg_nodes := filter (\<lambda>n. \<not> P n) (mg_nodes g),
        mg_edges := filter (\<lambda>e. \<not> gone (ed_source_id e) \<and> \<not> gone (ed_target_id e)) (mg_edges g),
        mg_versions := filter (\<lambda>v. \<not> gone (fst v)) (mg_versions g)\<rparr>)))"

definition delete_edges :: "(edge_row \<Rightarrow> bool) \<Rightarrow> mem_graph \<Rightarrow> nat \<times> mem_graph" where
  "delete_edges P g = (length (filter P (mg_edges g)), g\<lparr>mg_edges := filter (\<lambda>e. \<not> P e) (mg_edges g)\<rparr>)"

definition delete_orphan_artifact_stubs :: "mem_graph \<Rightarrow> nat \<times> mem_graph" where
  "delete_orphan_artifact_stubs g = delete_nodes (\<lambda>n. n_id n \<in> set (mg_stubs g) \<and> \<not> connected g (n_id n)) g"

section \<open>Batches\<close>

fun upsert_nodes :: "mem_node list \<Rightarrow> mem_graph \<Rightarrow> nat \<times> mem_graph" where
  "upsert_nodes [] g = (0, g)"
| "upsert_nodes (n # ns) g = (let (created, g1) = upsert_node_on n g; (k, g2) = upsert_nodes ns g1 in (of_bool created + k, g2))"

fun upsert_edges :: "string option \<Rightarrow> mem_edge list \<Rightarrow> mem_graph \<Rightarrow> mind_error + nat \<times> mem_graph" where
  "upsert_edges owner [] g = Inr (0, g)"
| "upsert_edges owner (e # es) g = and_then (upsert_edge_on e owner g) (\<lambda>(created, g1).
     and_then (upsert_edges owner es g1) (\<lambda>(k, g2). Inr (of_bool created + k, g2)))"

record observation =
  ob_agent :: string
  ob_ids :: "string list"
  ob_now :: int

definition agent_name :: "string \<Rightarrow> string" where
  "agent_name a = (case strip_prefix ''agent:'' (trim a) of Some r \<Rightarrow> r | None \<Rightarrow> trim a)"

definition observation_edge :: "string \<Rightarrow> int \<Rightarrow> string \<Rightarrow> mem_edge" where
  "observation_edge agent_id now i = (
     let edge = edge_new agent_id i RelObserved now in
     if starts_with i ''execution:'' \<or> starts_with i ''tool_invocation:''
     then edge\<lparr>ed_half_life_hours := default_half_life_hours RelModified\<rparr> else edge)"

definition write_observation :: "observation \<Rightarrow> mem_graph \<Rightarrow> mind_error + mem_graph" where
  "write_observation ob g = (
     let agent = agent_name (ob_agent ob); agent_id = ''agent:'' @ agent in
     if agent = [] then Inr g
     else and_then (upsert_edges None (map (observation_edge agent_id (ob_now ob)) (filter (\<lambda>i. i \<noteq> agent_id) (ob_ids ob)))
            (snd (upsert_node_on (node_new agent_id NodeAgent agent (ob_now ob)) g)))
          (\<lambda>(_, g'). Inr g'))"

definition upsert_facts ::
  "mem_node list \<Rightarrow> mem_edge list \<Rightarrow> observation option \<Rightarrow> mem_graph \<Rightarrow> mind_error + (nat \<times> nat) \<times> mem_graph" where
  "upsert_facts nodes edges ob g = (
     let (nodes_created, g1) = upsert_nodes nodes g in
     and_then (upsert_edges None edges g1) (\<lambda>(edges_created, g2).
     and_then (case ob of None \<Rightarrow> Inr g2 | Some ob \<Rightarrow> write_observation ob g2) (\<lambda>g3.
       Inr ((nodes_created, edges_created), g3))))"

definition graph_observe :: "observation \<Rightarrow> mem_graph \<Rightarrow> mind_error + unit \<times> mem_graph" where
  "graph_observe ob g = and_then (write_observation ob g) (\<lambda>g'. Inr ((), g'))"

section \<open>The structure of a file\<close>

record artifact_stub =
  as_node_id :: string
  as_candidate_ids :: "string list"

definition STRUCTURE_EXTRACTOR_VERSION :: nat where
  "STRUCTURE_EXTRACTOR_VERSION = 2"

definition artifact_path :: "string \<Rightarrow> string" where
  "artifact_path i = (case strip_prefix ''artifact:'' i of Some p \<Rightarrow> p | None \<Rightarrow> i)"

definition symbol_prefix :: "string \<Rightarrow> string" where
  "symbol_prefix i = ''symbol:'' @ artifact_path i @ '':''"

definition structural_source_belongs_to_owner :: "string \<Rightarrow> mem_edge \<Rightarrow> bool" where
  "structural_source_belongs_to_owner owner_id edge \<longleftrightarrow>
     ed_source_id edge = owner_id \<or> starts_with (ed_source_id edge) (symbol_prefix owner_id)"

definition structural_calls :: "relation_type set" where
  "structural_calls = {RelCalls, RelExtends, RelImplements}"

text \<open>\<^verbatim>\<open>INSERT OR IGNORE ... SELECT\<close>: copies of the edges that satisfy \<open>P\<close>, moved to another target.
  The target is a node wherever this is called.\<close>

definition copy_edges :: "(edge_row \<Rightarrow> bool) \<Rightarrow> string \<Rightarrow> mem_graph \<Rightarrow> mem_graph" where
  "copy_edges P target g = g\<lparr>mg_edges := foldl (\<lambda>es e.
     let e' = e\<lparr>ed_target_id := target\<rparr> in if edge_key e' \<in> edge_key ` set es then es else es @ [e']) (mg_edges g) (filter P (mg_edges g))\<rparr>"

definition promote_symbol :: "string \<Rightarrow> string \<Rightarrow> mem_graph \<Rightarrow> string \<Rightarrow> mem_graph" where
  "promote_symbol stub_prefix real_prefix g old_target = (
     let new_target = real_prefix @ drop (length stub_prefix) old_target;
         hit = (\<lambda>e. ed_target_id e = old_target \<and> ed_relation e \<in> structural_calls);
         g1 = (if node_exists_on g new_target then copy_edges hit new_target g else g);
         g2 = snd (delete_edges hit g1)
     in snd (delete_nodes (\<lambda>n. n_id n = old_target \<and> n_type n = NodeSymbol \<and> \<not> connected g2 old_target) g2))"

definition promote_artifact_stub :: "string \<Rightarrow> string \<Rightarrow> mem_graph \<Rightarrow> mem_graph" where
  "promote_artifact_stub stub_id real_id g = (
     let imports = (\<lambda>e. ed_target_id e = stub_id \<and> ed_relation e = RelImports);
         g1 = snd (delete_edges imports (copy_edges imports real_id g));
         targets = remdups (map ed_target_id (filter (\<lambda>e. ed_relation e \<in> structural_calls \<and>
           starts_with (ed_target_id e) (symbol_prefix stub_id)) (mg_edges g1)));
         g2 = foldl (promote_symbol (symbol_prefix stub_id) (symbol_prefix real_id)) g1 targets
     in snd (delete_nodes (\<lambda>n. n_id n = stub_id \<and> \<not> connected g2 stub_id) g2))"

definition aliases :: "string \<Rightarrow> mem_graph \<Rightarrow> string list" where
  "aliases owner_id g = remdups (map fst (filter (\<lambda>c. snd c = owner_id \<and> fst c \<noteq> owner_id) (mg_candidates g)))"

definition is_real :: "mem_graph \<Rightarrow> string \<Rightarrow> bool" where
  "is_real g i \<longleftrightarrow> node_exists_on g i \<and> i \<notin> set (mg_stubs g)"

definition adopt_edges :: "string \<Rightarrow> mem_graph \<Rightarrow> mem_graph" where
  "adopt_edges owner_id g = g\<lparr>mg_edges := map (\<lambda>e.
     if ro_owner_id e = None \<and> (ed_relation e = RelContains \<and> ed_source_id e = owner_id \<or>
          ed_relation e = RelCalls \<and> starts_with (ed_source_id e) (symbol_prefix owner_id))
     then e\<lparr>ro_owner_id := Some owner_id\<rparr> else e) (mg_edges g)\<rparr>"

definition set_version :: "string \<Rightarrow> mem_graph \<Rightarrow> mind_error + mem_graph" where
  "set_version owner_id g =
     (if owner_id \<in> fst ` set (mg_versions g)
      then Inr (g\<lparr>mg_versions := map (\<lambda>v. if fst v = owner_id then (owner_id, STRUCTURE_EXTRACTOR_VERSION) else v) (mg_versions g)\<rparr>)
      else if node_exists_on g owner_id then Inr (g\<lparr>mg_versions := mg_versions g @ [(owner_id, STRUCTURE_EXTRACTOR_VERSION)]\<rparr>)
      else Inl MindForeignKey)"

definition insert_candidate :: "string \<Rightarrow> mem_graph \<Rightarrow> string \<Rightarrow> mem_graph" where
  "insert_candidate stub_id g c =
     (if (stub_id, c) \<in> set (mg_candidates g) then g else g\<lparr>mg_candidates := mg_candidates g @ [(stub_id, c)]\<rparr>)"

definition insert_stub :: "mem_graph \<Rightarrow> artifact_stub \<Rightarrow> mind_error + mem_graph" where
  "insert_stub g stub =
     and_then (if as_node_id stub \<in> set (mg_stubs g) then Inr g
               else if node_exists_on g (as_node_id stub) then Inr (g\<lparr>mg_stubs := mg_stubs g @ [as_node_id stub]\<rparr>)
               else Inl MindForeignKey)
       (\<lambda>g. Inr (foldl (insert_candidate (as_node_id stub)) g (as_candidate_ids stub)))"

definition owned_keys :: "string \<Rightarrow> mem_graph \<Rightarrow> edge_id list" where
  "owned_keys owner_id g = map edge_key (filter (\<lambda>e. ro_owner_id e = Some owner_id) (mg_edges g))"

definition drop_stale_node :: "mem_graph \<Rightarrow> string \<Rightarrow> mem_graph" where
  "drop_stale_node g i = snd (delete_nodes (\<lambda>n. n_id n = i \<and> n_type n \<in> {NodeSymbol, NodePackage} \<and> \<not> connected g i) g)"

definition replace_structure ::
  "string \<Rightarrow> mem_node list \<Rightarrow> mem_edge list \<Rightarrow> artifact_stub list \<Rightarrow> mem_graph \<Rightarrow> mind_error + (nat \<times> nat) \<times> mem_graph" where
  "replace_structure owner_id nodes edges stubs g =
     (case find (\<lambda>e. \<not> structural_source_belongs_to_owner owner_id e) edges of
        Some e \<Rightarrow> Inl (MindOther (''structural edge source '' @ ed_source_id e @ '' does not belong to '' @ owner_id))
      | None \<Rightarrow>
          let g1 = delete_stubs (\<lambda>i. i = owner_id) g;
              unreal = filter (\<lambda>s. \<not> is_real g1 (as_node_id s)) stubs;
              g2 = adopt_edges owner_id g1;
              existing = owned_keys owner_id g2;
              desired = map edge_key edges;
              stale_nodes = remdups (filter (\<lambda>i. starts_with i ''symbol:'' \<or> starts_with i ''package:'')
                (concat (map (\<lambda>k. [fst k, fst (snd k)]) existing)));
              (nodes_created, g3) = upsert_nodes nodes g2
          in and_then (set_version owner_id g3) (\<lambda>g4.
             and_then (try_fold insert_stub g4 unreal) (\<lambda>g5.
               let g6 = snd (delete_edges (\<lambda>e. ro_owner_id e = Some owner_id \<and> edge_key e \<in> set existing - set desired) g5) in
             and_then (upsert_edges (Some owner_id) edges g6) (\<lambda>(edges_created, g7).
               let g8 = foldl (\<lambda>g stub. promote_artifact_stub stub owner_id g) g7 (aliases owner_id g);
                   g9 = foldl drop_stale_node g8 stale_nodes
               in Inr ((nodes_created, edges_created), snd (delete_orphan_artifact_stubs g9))))))"

definition artifact_ids :: "mem_graph \<Rightarrow> string list" where
  "artifact_ids g = map n_id (filter (\<lambda>n. n_type n = NodeArtifact) (mg_nodes g))"

definition stale_artifact_ids :: "nat \<Rightarrow> mem_graph \<Rightarrow> string list" where
  "stale_artifact_ids current_version g = sort (filter (\<lambda>i.
     (case map_of (mg_versions g) i of Some v \<Rightarrow> v | None \<Rightarrow> 0) < current_version) (artifact_ids g))"

definition boost :: "string \<Rightarrow> int \<Rightarrow> mem_graph \<Rightarrow> bool \<times> mem_graph" where
  "boost i now g = (if node_exists_on g i
     then (True, g\<lparr>mg_nodes := map (\<lambda>n. if n_id n = i then n\<lparr>n_last_accessed_at := now\<rparr> else n) (mg_nodes g)\<rparr>) else (False, g))"

definition forget_node :: "nat \<times> nat \<times> mem_graph \<Rightarrow> string \<Rightarrow> nat \<times> nat \<times> mem_graph" where
  "forget_node acc i = (case acc of (nodes_removed, edges_removed, g) \<Rightarrow>
     let (k, g1) = delete_edges (touches i) g; (m, g2) = delete_nodes (\<lambda>n. n_id n = i) g1
     in (nodes_removed + m, edges_removed + k, g2))"

definition forget_artifact :: "string \<Rightarrow> mem_graph \<Rightarrow> (nat \<times> nat) \<times> mem_graph" where
  "forget_artifact artifact_id g = (
     let symbols = map n_id (filter (\<lambda>n. n_type n = NodeSymbol \<and> starts_with (n_id n) (symbol_prefix artifact_id)) (mg_nodes g));
         (nodes_removed, edges_removed, g1) = forget_node (foldl forget_node (0, 0, g) symbols) artifact_id
     in ((nodes_removed, edges_removed), delete_stubs (\<lambda>i. i = artifact_id) g1))"

section \<open>The maintenance lease\<close>

definition try_acquire_consolidation_lease :: "string \<Rightarrow> int \<Rightarrow> int \<Rightarrow> int \<Rightarrow> mem_graph \<Rightarrow> bool \<times> mem_graph" where
  "try_acquire_consolidation_lease owner now lease_secs min_interval_secs g = (
     let mine = g\<lparr>mg_lease := Some \<lparr>ml_owner = owner, ml_lease_expires_at = now + max lease_secs 1, ml_last_attempt_at = now\<rparr>\<rparr>
     in case mg_lease g of
          None \<Rightarrow> (True, mine)
        | Some l \<Rightarrow> if ml_lease_expires_at l \<le> now \<and> ml_last_attempt_at l \<le> now - max min_interval_secs 0 then (True, mine) else (False, g))"

definition release_consolidation_lease :: "string \<Rightarrow> int \<Rightarrow> mem_graph \<Rightarrow> bool \<times> mem_graph" where
  "release_consolidation_lease owner now g = (case mg_lease g of
       Some l \<Rightarrow> if ml_owner l = owner then (True, g\<lparr>mg_lease := Some (l\<lparr>ml_lease_expires_at := now\<rparr>)\<rparr>) else (False, g)
     | None \<Rightarrow> (False, g))"

section \<open>What the tables promise\<close>

definition edge_ok :: "('a) mem_edge_scheme \<Rightarrow> bool" where
  "edge_ok e \<longleftrightarrow> 0 \<le> ed_weight e \<and> ed_weight e \<le> 1"

definition graph_ok :: "mem_graph \<Rightarrow> bool" where
  "graph_ok g \<longleftrightarrow> distinct (map n_id (mg_nodes g)) \<and> distinct (map edge_key (mg_edges g)) \<and>
     (\<forall>e \<in> set (mg_edges g). node_exists_on g (ed_source_id e) \<and> node_exists_on g (ed_target_id e) \<and> edge_ok e \<and> 1 \<le> ro_reinforcement_count e) \<and>
     distinct (map fst (mg_versions g)) \<and> (\<forall>v \<in> set (mg_versions g). node_exists_on g (fst v)) \<and>
     distinct (mg_stubs g) \<and> (\<forall>i \<in> set (mg_stubs g). node_exists_on g i) \<and>
     distinct (mg_candidates g) \<and> (\<forall>c \<in> set (mg_candidates g). fst c \<in> set (mg_stubs g))"

text \<open>The contract of a writer on inputs that satisfy its precondition.\<close>

locale graph_operation =
  fixes run :: "mem_graph \<Rightarrow> mind_error + 'r \<times> mem_graph" and pre :: bool
  assumes keeps_ok: "pre \<Longrightarrow> graph_ok g \<Longrightarrow> run g = Inr (r, g') \<Longrightarrow> graph_ok g'"
begin

lemma no_dangling_edge:
  "pre \<Longrightarrow> graph_ok g \<Longrightarrow> run g = Inr (r, g') \<Longrightarrow> e \<in> set (mg_edges g') \<Longrightarrow>
     node_exists_on g' (ed_source_id e) \<and> node_exists_on g' (ed_target_id e)"
  using keeps_ok [of g r g'] unfolding graph_ok_def by blast

end

lemma node_exists_fields [simp]:
  "node_exists_on (g\<lparr>mg_edges := es\<rparr>) i = node_exists_on g i" "node_exists_on (g\<lparr>mg_versions := vs\<rparr>) i = node_exists_on g i"
  "node_exists_on (g\<lparr>mg_stubs := ss\<rparr>) i = node_exists_on g i" "node_exists_on (g\<lparr>mg_candidates := cs\<rparr>) i = node_exists_on g i"
  "node_exists_on (g\<lparr>mg_lease := l\<rparr>) i = node_exists_on g i"
  by (simp_all add: node_exists_on_def)

lemma edge_key_updates [simp]:
  "edge_key (e\<lparr>ed_weight := w\<rparr>) = edge_key e" "edge_key (e\<lparr>ed_half_life_hours := h\<rparr>) = edge_key e"
  "edge_key (e\<lparr>ed_updated_at := u\<rparr>) = edge_key e" "edge_key (r\<lparr>ro_owner_id := ow\<rparr>) = edge_key r"
  "edge_key (r\<lparr>ro_reinforcement_count := c\<rparr>) = edge_key r" "edge_key (reinforced edge owner r) = edge_key r"
  "edge_key (fresh_edge edge owner) = edge_key edge"
  by (simp_all add: edge_key_def reinforced_def fresh_edge_def mem_edge.defs)

subsection \<open>Single rows\<close>

lemma node_exists_ids: "node_exists_on g i \<longleftrightarrow> i \<in> set (map n_id (mg_nodes g))"
  by (auto simp: node_exists_on_def)

lemma upsert_node_ids: "map n_id (mg_nodes (snd (upsert_node_on n g))) =
    (if node_exists_on g (n_id n) then map n_id (mg_nodes g) else map n_id (mg_nodes g) @ [n_id n])"
  by (simp add: upsert_node_on_def)

lemma upsert_node_exists: "node_exists_on (snd (upsert_node_on n g)) i \<longleftrightarrow> node_exists_on g i \<or> i = n_id n"
  unfolding node_exists_ids [of "snd (upsert_node_on n g)"] upsert_node_ids by (auto simp: node_exists_ids)

lemma upsert_node_other [simp]:
  "mg_edges (snd (upsert_node_on n g)) = mg_edges g" "mg_versions (snd (upsert_node_on n g)) = mg_versions g"
  "mg_stubs (snd (upsert_node_on n g)) = mg_stubs g" "mg_candidates (snd (upsert_node_on n g)) = mg_candidates g"
  by (simp_all add: upsert_node_on_def)

lemma upsert_node_ok: "graph_ok g \<Longrightarrow> graph_ok (snd (upsert_node_on n g))"
proof -
  assume ok: "graph_ok g"
  then have "distinct (map n_id (mg_nodes (snd (upsert_node_on n g))))"
    unfolding upsert_node_ids by (auto simp: node_exists_ids graph_ok_def)
  with ok show ?thesis by (simp add: graph_ok_def upsert_node_exists)
qed

lemma find_row: "distinct (map k xs) \<Longrightarrow> x \<in> set xs \<Longrightarrow> find (\<lambda>y. k y = k x) xs = Some x"
  by (induction xs) (auto simp: image_iff)

lemma edge_at_None: "edge_at g k = None \<longleftrightarrow> k \<notin> edge_key ` set (mg_edges g)"
  by (auto simp: edge_at_def find_None_iff)

lemma edge_at_Some: "graph_ok g \<Longrightarrow> edge_at g k = Some e \<longleftrightarrow> e \<in> set (mg_edges g) \<and> edge_key e = k"
  by (auto simp: edge_at_def graph_ok_def find_row dest: find_SomeD)

lemma upsert_edge_cases:
  assumes "upsert_edge_on edge owner g = Inr (created, g')"
  obtains (inserted) "created" "edge_at g (edge_key edge) = None" "node_exists_on g (ed_source_id edge)" "node_exists_on g (ed_target_id edge)"
      "g' = g\<lparr>mg_edges := mg_edges g @ [fresh_edge edge owner]\<rparr>"
  | (updated) e where "\<not> created" "edge_at g (edge_key edge) = Some e"
      "owner = None \<or> ro_owner_id e = None \<or> ro_owner_id e = owner"
      "g' = g\<lparr>mg_edges := map (\<lambda>e. if edge_key e = edge_key edge then reinforced edge owner e else e) (mg_edges g)\<rparr>"
  using assms by (auto simp: upsert_edge_on_def split: option.splits if_splits)

lemma reinforced_fields [simp]: "ed_source_id (reinforced edge owner e) = ed_source_id e" "ed_target_id (reinforced edge owner e) = ed_target_id e"
  "ed_relation (reinforced edge owner e) = ed_relation e" "ro_reinforcement_count (reinforced edge owner e) = ro_reinforcement_count e + 1"
  by (simp_all add: reinforced_def)

lemma fresh_edge_fields [simp]: "ed_source_id (fresh_edge edge owner) = ed_source_id edge" "ed_target_id (fresh_edge edge owner) = ed_target_id edge"
  "ed_relation (fresh_edge edge owner) = ed_relation edge" "ro_owner_id (fresh_edge edge owner) = owner"
  "ro_reinforcement_count (fresh_edge edge owner) = 1" "edge_ok (fresh_edge edge owner) = edge_ok edge"
  by (simp_all add: fresh_edge_def mem_edge.defs edge_ok_def)

lemma upsert_edge_frame:
  "upsert_edge_on edge owner g = Inr (created, g') \<Longrightarrow> mg_nodes g' = mg_nodes g \<and> mg_versions g' = mg_versions g \<and> mg_stubs g' = mg_stubs g \<and>
     mg_candidates g' = mg_candidates g"
  by (erule upsert_edge_cases) auto

lemma upsert_edge_ok:
  assumes "graph_ok g" "edge_ok edge" "upsert_edge_on edge owner g = Inr (created, g')"
  shows "graph_ok g'"
  using assms(3)
proof (cases rule: upsert_edge_cases)
  case inserted
  with assms(1,2) show ?thesis by (auto simp: graph_ok_def edge_at_None)
next
  case (updated e)
  have "edge_ok e' \<Longrightarrow> edge_ok (reinforced edge owner e')" for e' by (simp add: edge_ok_def reinforced_def)
  with assms(1) show ?thesis by (auto simp: updated(4) graph_ok_def comp_def if_distrib cong: if_cong)
qed

lemma delete_nodes_exists: "node_exists_on (snd (delete_nodes P g)) i \<longleftrightarrow> (\<exists>n \<in> set (mg_nodes g). n_id n = i \<and> \<not> P n)"
  by (auto simp: delete_nodes_def delete_stubs_def node_exists_on_def Let_def)

lemma delete_nodes_ok:
  assumes "graph_ok g"
  shows "graph_ok (snd (delete_nodes P g))"
proof -
  define gone where "gone = (\<lambda>i. \<exists>n \<in> set (mg_nodes g). P n \<and> n_id n = i)"
  have kept: "node_exists_on (snd (delete_nodes P g)) i" if "node_exists_on g i" "\<not> gone i" for i
    using that unfolding delete_nodes_exists by (auto simp: node_exists_on_def gone_def)
  have fields: "mg_nodes (snd (delete_nodes P g)) = filter (\<lambda>n. \<not> P n) (mg_nodes g)"
    "mg_edges (snd (delete_nodes P g)) = filter (\<lambda>e. \<not> gone (ed_source_id e) \<and> \<not> gone (ed_target_id e)) (mg_edges g)"
    "mg_versions (snd (delete_nodes P g)) = filter (\<lambda>v. \<not> gone (fst v)) (mg_versions g)"
    "mg_stubs (snd (delete_nodes P g)) = filter (\<lambda>i. \<not> gone i) (mg_stubs g)"
    "mg_candidates (snd (delete_nodes P g)) = filter (\<lambda>c. \<not> gone (fst c)) (mg_candidates g)"
    by (simp_all add: delete_nodes_def delete_stubs_def Let_def gone_def)
  show ?thesis using assms kept by (auto simp: graph_ok_def fields distinct_map_filter)
qed

lemma delete_edges_ok: "graph_ok g \<Longrightarrow> graph_ok (snd (delete_edges P g))"
  by (auto simp: graph_ok_def delete_edges_def distinct_map_filter)

lemma filter_edges_ok: "graph_ok g \<Longrightarrow> graph_ok (g\<lparr>mg_edges := filter P (mg_edges g)\<rparr>)"
  using delete_edges_ok [of g "\<lambda>e. \<not> P e"] by (simp add: delete_edges_def)

lemma delete_stubs_ok: "graph_ok g \<Longrightarrow> graph_ok (delete_stubs P g)"
  by (auto simp: graph_ok_def delete_stubs_def node_exists_on_def)

subsection \<open>Batches\<close>

lemma upsert_nodes_ok: "graph_ok g \<Longrightarrow> graph_ok (snd (upsert_nodes ns g))"
  by (induction ns arbitrary: g) (simp_all add: case_prod_beta Let_def upsert_node_ok)

lemma upsert_nodes_exists: "node_exists_on (snd (upsert_nodes ns g)) i \<longleftrightarrow> node_exists_on g i \<or> i \<in> n_id ` set ns"
  by (induction ns arbitrary: g) (auto simp: case_prod_beta Let_def upsert_node_exists)

lemma upsert_nodes_other [simp]:
  "mg_edges (snd (upsert_nodes ns g)) = mg_edges g" "mg_versions (snd (upsert_nodes ns g)) = mg_versions g"
  "mg_stubs (snd (upsert_nodes ns g)) = mg_stubs g" "mg_candidates (snd (upsert_nodes ns g)) = mg_candidates g"
  by (induction ns arbitrary: g) (simp_all add: case_prod_beta Let_def)

lemma upsert_edges_Cons:
  "upsert_edges owner (e # es) g = Inr (k, g') \<longleftrightarrow>
     (\<exists>created g1 j. upsert_edge_on e owner g = Inr (created, g1) \<and> upsert_edges owner es g1 = Inr (j, g') \<and> k = of_bool created + j)"
  by (auto simp: and_then_Inr)

lemma upsert_edges_ok:
  assumes "graph_ok g" "list_all edge_ok es" "upsert_edges owner es g = Inr (k, g')"
  shows "graph_ok g'"
  using assms
proof (induction es arbitrary: g k)
  case (Cons e es)
  then show ?case unfolding upsert_edges_Cons by (auto intro: upsert_edge_ok)
qed simp

lemma upsert_edges_frame:
  "upsert_edges owner es g = Inr (k, g') \<Longrightarrow> mg_nodes g' = mg_nodes g \<and> mg_versions g' = mg_versions g \<and> mg_stubs g' = mg_stubs g \<and>
     mg_candidates g' = mg_candidates g"
proof (induction es arbitrary: g k)
  case (Cons e es)
  then show ?case unfolding upsert_edges_Cons by (metis upsert_edge_frame)
qed simp

lemma observation_edges_ok: "list_all edge_ok (map (observation_edge a n) is)"
  unfolding list_all_iff by (auto simp: observation_edge_def edge_new_def edge_ok_def Let_def split: if_splits)

lemma write_observation_ok: "graph_ok g \<Longrightarrow> write_observation ob g = Inr g' \<Longrightarrow> graph_ok g'"
  by (auto simp: write_observation_def Let_def and_then_Inr split: if_splits
      intro: upsert_edges_ok [OF upsert_node_ok observation_edges_ok])

lemma upsert_facts_ok:
  assumes "list_all edge_ok es" "graph_ok g" "upsert_facts ns es ob g = Inr (r, g')"
  shows "graph_ok g'"
proof -
  obtain k g2 where g2: "upsert_edges None es (snd (upsert_nodes ns g)) = Inr (k, g2)"
    and g': "(case ob of None \<Rightarrow> Inr g2 | Some ob \<Rightarrow> write_observation ob g2) = Inr g'"
    using assms(3) by (auto simp: upsert_facts_def Let_def and_then_Inr split: prod.splits)
  have "graph_ok g2" by (rule upsert_edges_ok [OF upsert_nodes_ok [OF assms(2)] assms(1) g2])
  with g' show ?thesis by (cases ob) (auto intro: write_observation_ok)
qed

interpretation facts: graph_operation "upsert_facts ns es ob" "list_all edge_ok es" for ns es ob
  by unfold_locales (rule upsert_facts_ok)

interpretation observing: graph_operation "graph_observe ob" True for ob
  by unfold_locales (auto simp: graph_observe_def and_then_Inr intro: write_observation_ok)

subsection \<open>Structure\<close>

lemma copy_fold:
  assumes "distinct (map edge_key es)" "\<forall>e \<in> set es. R e" "\<forall>e \<in> set xs. R (e\<lparr>ed_target_id := t\<rparr>)"
  defines "f \<equiv> foldl (\<lambda>es e. let e' = e\<lparr>ed_target_id := t\<rparr> in if edge_key e' \<in> edge_key ` set es then es else es @ [e'])"
  shows "distinct (map edge_key (f es xs)) \<and> (\<forall>e \<in> set (f es xs). R e)"
  using assms(1-3)
proof (induction xs arbitrary: es)
  case (Cons x xs)
  let ?es = "if edge_key (x\<lparr>ed_target_id := t\<rparr>) \<in> edge_key ` set es then es else es @ [x\<lparr>ed_target_id := t\<rparr>]"
  have "f es (x # xs) = f ?es xs" by (simp add: f_def Let_def)
  moreover have "distinct (map edge_key ?es)" "\<forall>e \<in> set ?es. R e" using Cons.prems by simp_all
  ultimately show ?case using Cons.IH [of ?es] Cons.prems(3) by simp
qed (simp add: f_def)

lemma copy_edges_ok:
  assumes "graph_ok g" "node_exists_on g t"
  shows "graph_ok (copy_edges P t g)"
  using assms copy_fold [where es = "mg_edges g" and xs = "filter P (mg_edges g)" and t = t and
      R = "\<lambda>e. node_exists_on g (ed_source_id e) \<and> node_exists_on g (ed_target_id e) \<and> edge_ok e \<and> 1 \<le> ro_reinforcement_count e"]
  unfolding copy_edges_def graph_ok_def by (simp add: edge_ok_def)

lemma copy_edges_nodes [simp]: "mg_nodes (copy_edges P t g) = mg_nodes g" "node_exists_on (copy_edges P t g) i = node_exists_on g i"
  by (simp_all add: copy_edges_def)

lemma delete_edges_nodes [simp]: "mg_nodes (snd (delete_edges P g)) = mg_nodes g" "node_exists_on (snd (delete_edges P g)) i = node_exists_on g i"
  by (simp_all add: delete_edges_def)

lemma promote_symbol_ok: "graph_ok g \<Longrightarrow> graph_ok (promote_symbol sp rp g old)"
  by (simp add: promote_symbol_def Let_def delete_nodes_ok delete_edges_ok copy_edges_ok)

lemma promote_symbol_exists: "i \<noteq> old \<Longrightarrow> node_exists_on (promote_symbol sp rp g old) i = node_exists_on g i"
  unfolding promote_symbol_def Let_def delete_nodes_exists by (auto simp: node_exists_on_def)

lemma promote_symbols_ok:
  assumes "graph_ok g" "i \<notin> set olds"
  shows "graph_ok (foldl (promote_symbol sp rp) g olds) \<and> (node_exists_on (foldl (promote_symbol sp rp) g olds) i = node_exists_on g i)"
  using assms by (induction olds arbitrary: g) (auto simp: promote_symbol_ok promote_symbol_exists)

lemma promote_stub_ok:
  assumes "graph_ok g" "node_exists_on g i" "i \<noteq> stub" "\<not> starts_with i ''symbol:''"
  shows "graph_ok (promote_artifact_stub stub i g) \<and> node_exists_on (promote_artifact_stub stub i g) i"
proof -
  let ?imports = "\<lambda>e :: edge_row. ed_target_id e = stub \<and> ed_relation e = RelImports"
  define g1 where "g1 = snd (delete_edges ?imports (copy_edges ?imports i g))"
  define olds where "olds = remdups (map ed_target_id (filter (\<lambda>e. ed_relation e \<in> structural_calls \<and>
      starts_with (ed_target_id e) (symbol_prefix stub)) (mg_edges g1)))"
  define g2 where "g2 = foldl (promote_symbol (symbol_prefix stub) (symbol_prefix i)) g1 olds"
  have res: "promote_artifact_stub stub i g = snd (delete_nodes (\<lambda>n. n_id n = stub \<and> \<not> connected g2 stub) g2)"
    by (simp add: promote_artifact_stub_def Let_def g2_def olds_def g1_def)
  have "i \<notin> set olds" using assms(4) by (auto simp: olds_def starts_with_def symbol_prefix_def prefix_def)
  then have "graph_ok g2" "node_exists_on g2 i"
    using promote_symbols_ok [of g1 i olds "symbol_prefix stub" "symbol_prefix i"] assms(1,2)
    by (auto simp: g2_def g1_def delete_edges_ok copy_edges_ok)
  then show ?thesis
    using assms(3) unfolding res delete_nodes_exists by (auto simp: delete_nodes_ok node_exists_on_def)
qed

lemma promote_stubs_ok:
  assumes "graph_ok g" "node_exists_on g i" "i \<notin> set stubs" "\<not> starts_with i ''symbol:''"
  shows "graph_ok (foldl (\<lambda>g stub. promote_artifact_stub stub i g) g stubs)"
  using assms by (induction stubs arbitrary: g) (auto simp: promote_stub_ok)

lemma adopt_edges_ok: "graph_ok g \<Longrightarrow> graph_ok (adopt_edges owner g)"
  by (auto simp: graph_ok_def adopt_edges_def edge_ok_def comp_def if_distrib cong: if_cong)

lemma graph_ok_versions:
  "graph_ok g \<Longrightarrow> distinct (map fst vs) \<Longrightarrow> \<forall>v \<in> set vs. node_exists_on g (fst v) \<Longrightarrow> graph_ok (g\<lparr>mg_versions := vs\<rparr>)"
  by (simp add: graph_ok_def)

lemma set_version_ok:
  assumes "graph_ok g" "set_version owner g = Inr g'"
  shows "graph_ok g' \<and> node_exists_on g' owner \<and> mg_nodes g' = mg_nodes g"
proof -
  have versions: "distinct (map fst (mg_versions g))" "\<forall>v \<in> set (mg_versions g). node_exists_on g (fst v)"
    using assms(1) by (simp_all add: graph_ok_def)
  show ?thesis
  proof (cases "owner \<in> fst ` set (mg_versions g)")
    case True
    let ?vs = "map (\<lambda>v. if fst v = owner then (owner, STRUCTURE_EXTRACTOR_VERSION) else v) (mg_versions g)"
    have fsts: "map fst ?vs = map fst (mg_versions g)" by simp
    have owner: "node_exists_on g owner" using True versions(2) by auto
    have "graph_ok (g\<lparr>mg_versions := ?vs\<rparr>)"
    proof (rule graph_ok_versions [OF assms(1)])
      show "distinct (map fst ?vs)" unfolding fsts by (rule versions(1))
    qed (use owner versions(2) in auto)
    moreover have "g' = g\<lparr>mg_versions := ?vs\<rparr>" using True assms(2) by (simp add: set_version_def)
    ultimately show ?thesis using owner by simp
  next
    case False
    with assms versions show ?thesis by (auto simp: set_version_def graph_ok_versions split: if_splits)
  qed
qed

lemma graph_ok_table:
  "graph_ok g \<Longrightarrow> distinct cs \<Longrightarrow> \<forall>c \<in> set cs. fst c \<in> set (mg_stubs g) \<Longrightarrow> graph_ok (g\<lparr>mg_candidates := cs\<rparr>)"
  "graph_ok g \<Longrightarrow> node_exists_on g i \<Longrightarrow> i \<notin> set (mg_stubs g) \<Longrightarrow> graph_ok (g\<lparr>mg_stubs := mg_stubs g @ [i]\<rparr>)"
  by (simp_all add: graph_ok_def)

lemma graph_ok_candidates: "graph_ok g \<Longrightarrow> distinct (mg_candidates g) \<and> (\<forall>c \<in> set (mg_candidates g). fst c \<in> set (mg_stubs g))"
  by (simp add: graph_ok_def)

lemma insert_candidate_ok:
  "graph_ok g \<Longrightarrow> stub \<in> set (mg_stubs g) \<Longrightarrow>
     graph_ok (insert_candidate stub g c) \<and> mg_nodes (insert_candidate stub g c) = mg_nodes g \<and> mg_stubs (insert_candidate stub g c) = mg_stubs g"
  using graph_ok_candidates [of g] by (simp add: insert_candidate_def graph_ok_table)

lemma insert_candidates_ok:
  "graph_ok g \<Longrightarrow> stub \<in> set (mg_stubs g) \<Longrightarrow> graph_ok (foldl (insert_candidate stub) g cs) \<and> mg_nodes (foldl (insert_candidate stub) g cs) = mg_nodes g"
proof (induction cs arbitrary: g)
  case (Cons c cs)
  then show ?case using insert_candidate_ok [of g stub c] by simp
qed simp

lemma insert_stub_ok:
  assumes "graph_ok g" "insert_stub g stub = Inr g'"
  shows "graph_ok g' \<and> mg_nodes g' = mg_nodes g"
proof -
  obtain g1 where g1: "graph_ok g1" "as_node_id stub \<in> set (mg_stubs g1)" "mg_nodes g1 = mg_nodes g"
    and g': "g' = foldl (insert_candidate (as_node_id stub)) g1 (as_candidate_ids stub)"
  proof (cases "as_node_id stub \<in> set (mg_stubs g)")
    case False
    then have "node_exists_on g (as_node_id stub)" using assms(2) by (auto simp: insert_stub_def and_then_Inr split: if_splits)
    with False assms show ?thesis
      by (intro that [of "g\<lparr>mg_stubs := mg_stubs g @ [as_node_id stub]\<rparr>"]) (auto simp: insert_stub_def and_then_Inr graph_ok_table)
  qed (use assms that [of g] in \<open>auto simp: insert_stub_def and_then_Inr\<close>)
  then show ?thesis using insert_candidates_ok [of g1 "as_node_id stub"] by simp
qed

lemma insert_stubs_ok: "graph_ok g \<Longrightarrow> try_fold insert_stub g stubs = Inr g' \<Longrightarrow> graph_ok g' \<and> mg_nodes g' = mg_nodes g"
proof (induction stubs arbitrary: g)
  case (Cons x xs)
  then obtain g1 where "insert_stub g x = Inr g1" "try_fold insert_stub g1 xs = Inr g'" by (auto simp: and_then_Inr)
  then show ?case using Cons.IH [of g1] insert_stub_ok [OF Cons.prems(1)] by simp
qed simp

lemma drop_stale_ok: "graph_ok g \<Longrightarrow> graph_ok (foldl drop_stale_node g is)"
  by (induction "is" arbitrary: g) (simp_all add: drop_stale_node_def delete_nodes_ok)

lemma aliases_not_owner: "owner \<notin> set (aliases owner g)"
  by (auto simp: aliases_def)

text \<open>The seven stages of \<^verbatim>\<open>replace_structure\<close> that write, as one step after another.\<close>

lemma replace_structure_stages:
  assumes "replace_structure owner ns es stubs g = Inr (r, g')"
  defines "g2 \<equiv> adopt_edges owner (delete_stubs (\<lambda>i. i = owner) g)"
  defines "keep \<equiv> \<lambda>e. \<not> (ro_owner_id e = Some owner \<and> edge_key e \<in> set (owned_keys owner g2) - edge_key ` set es)"
  obtains g4 g5 unreal k g7 stale where
    "\<forall>e \<in> set es. structural_source_belongs_to_owner owner e"
    "set_version owner (snd (upsert_nodes ns g2)) = Inr g4" "try_fold insert_stub g4 unreal = Inr g5"
    "upsert_edges (Some owner) es (g5\<lparr>mg_edges := filter keep (mg_edges g5)\<rparr>) = Inr (k, g7)"
    "g' = snd (delete_orphan_artifact_stubs (foldl drop_stale_node
       (foldl (\<lambda>g stub. promote_artifact_stub stub owner g) g7 (aliases owner g)) stale))"
    "r = (fst (upsert_nodes ns g2), k)"
  using assms(1) unfolding replace_structure_def Let_def g2_def [symmetric] keep_def
  by (auto simp: and_then_Inr find_None_iff delete_edges_def split: option.splits prod.splits)

lemma replace_structure_ok:
  assumes "list_all edge_ok es \<and> starts_with owner ''artifact:''" "graph_ok g" "replace_structure owner ns es stubs g = Inr (r, g')"
  shows "graph_ok g'"
  using assms(3)
proof (cases rule: replace_structure_stages)
  case (1 g4 g5 unreal k g7 stale)
  have "graph_ok (snd (upsert_nodes ns (adopt_edges owner (delete_stubs (\<lambda>i. i = owner) g))))"
    using assms(2) by (simp add: upsert_nodes_ok adopt_edges_ok delete_stubs_ok)
  from set_version_ok [OF this 1(2)] have g4: "graph_ok g4" "node_exists_on g4 owner" by simp_all
  with insert_stubs_ok [OF _ 1(3)] have g5: "graph_ok g5" "node_exists_on g5 owner" by (simp_all add: node_exists_on_def)
  have "graph_ok g7" using assms(1) by (intro upsert_edges_ok [OF filter_edges_ok [OF g5(1)] _ 1(4)]) simp
  moreover have "node_exists_on g7 owner" using upsert_edges_frame [OF 1(4)] g5(2) by (simp add: node_exists_on_def)
  moreover have "\<not> starts_with owner ''symbol:''" using assms(1) by (auto simp: starts_with_def prefix_def)
  ultimately have "graph_ok (foldl (\<lambda>g stub. promote_artifact_stub stub owner g) g7 (aliases owner g))"
    by (rule promote_stubs_ok [OF _ _ aliases_not_owner])
  then show ?thesis unfolding 1(5) by (simp add: delete_orphan_artifact_stubs_def delete_nodes_ok drop_stale_ok)
qed

interpretation structures: graph_operation "replace_structure owner ns es stubs" "list_all edge_ok es \<and> starts_with owner ''artifact:''"
  for owner ns es stubs
  by unfold_locales (rule replace_structure_ok)

subsection \<open>Forgetting a file\<close>

text \<open>The graph less the nodes with an id in \<open>S\<close>.\<close>

definition without :: "string set \<Rightarrow> mem_graph \<Rightarrow> mem_graph" where
  "without S g = g\<lparr>mg_nodes := filter (\<lambda>n. n_id n \<notin> S) (mg_nodes g),
     mg_edges := filter (\<lambda>e. ed_source_id e \<notin> S \<and> ed_target_id e \<notin> S) (mg_edges g),
     mg_versions := filter (\<lambda>v. fst v \<notin> S) (mg_versions g), mg_stubs := filter (\<lambda>i. i \<notin> S) (mg_stubs g),
     mg_candidates := filter (\<lambda>c. fst c \<notin> S) (mg_candidates g)\<rparr>"

lemma without_Un: "without S (without T g) = without (T \<union> S) g"
  by (simp add: without_def conj_commute conj_left_commute)

lemma without_empty [simp]: "without {} g = g"
  by (simp add: without_def)

lemma without_exists: "node_exists_on (without S g) i \<longleftrightarrow> node_exists_on g i \<and> i \<notin> S"
  by (auto simp: without_def node_exists_on_def)

lemma without_ok: "graph_ok g \<Longrightarrow> graph_ok (without S g)"
  by (simp add: graph_ok_def without_exists) (simp add: without_def distinct_map_filter)

lemma delete_node_id:
  "delete_nodes (\<lambda>n. n_id n = i) g = (length (filter (\<lambda>n. n_id n = i) (mg_nodes g)), if node_exists_on g i then without {i} g else g)"
proof -
  have gone: "(\<lambda>j. \<exists>n \<in> set (mg_nodes g). n_id n = i \<and> n_id n = j) = (\<lambda>j. node_exists_on g i \<and> j = i)"
    by (auto simp: node_exists_on_def)
  show ?thesis
  proof (cases "node_exists_on g i")
    case False
    then have "filter (\<lambda>n. n_id n \<noteq> i) (mg_nodes g) = mg_nodes g" by (auto simp: node_exists_on_def filter_id_conv)
    with False show ?thesis unfolding delete_nodes_def gone by (simp add: delete_stubs_def)
  qed (unfold delete_nodes_def gone, simp add: delete_stubs_def without_def)
qed

lemma forget_node_without:
  assumes "graph_ok g"
  shows "forget_node (n, k, g) i = (n + length (filter (\<lambda>x. n_id x = i) (mg_nodes g)), k + length (filter (touches i) (mg_edges g)), without {i} g)"
proof -
  let ?g = "g\<lparr>mg_edges := filter (\<lambda>e. \<not> touches i e) (mg_edges g)\<rparr>"
  have cut: "without {i} ?g = without {i} g" by (simp add: without_def touches_def conj_commute cong: conj_cong)
  have "?g = without {i} g" if "\<not> node_exists_on g i"
  proof -
    have "\<forall>v \<in> set (mg_versions g). fst v \<noteq> i" "\<forall>j \<in> set (mg_stubs g). j \<noteq> i" "\<forall>n \<in> set (mg_nodes g). n_id n \<noteq> i"
      using assms that by (auto simp: graph_ok_def node_exists_on_def)
    moreover from this(2) have "\<forall>c \<in> set (mg_candidates g). fst c \<noteq> i" using assms unfolding graph_ok_def by blast
    ultimately show ?thesis by (simp add: without_def touches_def)
  qed
  with cut show ?thesis by (simp add: forget_node_def delete_edges_def delete_node_id)
qed

lemma forget_nodes_without:
  "graph_ok g \<Longrightarrow> \<exists>n' k'. foldl forget_node (n, k, g) is = (n', k', without (set is) g) \<and>
     n' + length (mg_nodes (without (set is) g)) = n + length (mg_nodes g) \<and> k' + length (mg_edges (without (set is) g)) = k + length (mg_edges g)"
proof (induction "is" arbitrary: g n k)
  case (Cons i "is")
  have counts: "length (filter (\<lambda>x. n_id x = i) (mg_nodes g)) + length (mg_nodes (without {i} g)) = length (mg_nodes g)"
    "length (filter (touches i) (mg_edges g)) + length (mg_edges (without {i} g)) = length (mg_edges g)"
    using sum_length_filter_compl [of "\<lambda>x. n_id x = i" "mg_nodes g"] sum_length_filter_compl [of "touches i" "mg_edges g"]
    by (simp_all add: without_def touches_def)
  let ?n = "n + length (filter (\<lambda>x. n_id x = i) (mg_nodes g))" and ?k = "k + length (filter (touches i) (mg_edges g))"
  have "without (set is) (without {i} g) = without (set (i # is)) g" by (simp add: without_Un)
  with Cons.IH [OF without_ok [OF Cons.prems, of "{i}"], of ?n ?k] counts show ?case
    by (simp add: forget_node_without [OF Cons.prems]) (metis add.assoc)
qed simp

definition of_file :: "string \<Rightarrow> mem_node \<Rightarrow> bool" where
  "of_file a n \<longleftrightarrow> n_id n = a \<or> n_type n = NodeSymbol \<and> starts_with (n_id n) (symbol_prefix a)"

lemma forget_artifact_without:
  assumes "graph_ok g"
  shows "\<exists>n k. forget_artifact a g = ((n, k), without (insert a (n_id ` {x \<in> set (mg_nodes g). of_file a x})) g) \<and>
     n + length (mg_nodes (snd (forget_artifact a g))) = length (mg_nodes g) \<and> k + length (mg_edges (snd (forget_artifact a g))) = length (mg_edges g)"
proof -
  let ?syms = "map n_id (filter (\<lambda>n. n_type n = NodeSymbol \<and> starts_with (n_id n) (symbol_prefix a)) (mg_nodes g))"
  obtain n k where run: "foldl forget_node (0, 0, g) (?syms @ [a]) = (n, k, without (set (?syms @ [a])) g)"
    "n + length (mg_nodes (without (set (?syms @ [a])) g)) = length (mg_nodes g)"
    "k + length (mg_edges (without (set (?syms @ [a])) g)) = length (mg_edges g)"
    using forget_nodes_without [OF assms, of 0 0 "?syms @ [a]"] by auto
  have ids: "set (?syms @ [a]) = insert a (n_id ` {x \<in> set (mg_nodes g). of_file a x})" by (auto simp: of_file_def)
  have last: "forget_node (foldl forget_node (0, 0, g) ?syms) a = (n, k, without (set (?syms @ [a])) g)" using run(1) by simp
  have "delete_stubs (\<lambda>i. i = a) (without (insert a T) g) = without (insert a T) g" for T
    by (simp add: delete_stubs_def without_def conj_commute conj_left_commute)
  then have "forget_artifact a g = ((n, k), without (set (?syms @ [a])) g)"
    by (simp add: forget_artifact_def Let_def last del: foldl_append)
  with run show ?thesis unfolding ids by simp
qed

subsection \<open>Replacing the structure of a file\<close>

lemma delete_unconnected: "\<forall>n \<in> set (mg_nodes g). P n \<longrightarrow> \<not> connected g (n_id n) \<Longrightarrow> mg_edges (snd (delete_nodes P g)) = mg_edges g"
  unfolding delete_nodes_def delete_stubs_def Let_def connected_def touches_def by (simp add: filter_id_conv) metis

lemma drop_stale_edges [simp]: "mg_edges (foldl drop_stale_node g is) = mg_edges g"
  by (induction "is" arbitrary: g) (simp_all add: drop_stale_node_def delete_unconnected)

lemma delete_orphan_edges [simp]: "mg_edges (snd (delete_orphan_artifact_stubs g)) = mg_edges g"
  by (simp add: delete_orphan_artifact_stubs_def delete_unconnected)

lemma set_version_edges: "set_version owner g = Inr g' \<Longrightarrow> mg_edges g' = mg_edges g"
  by (auto simp: set_version_def split: if_splits)

lemma insert_candidates_edges: "mg_edges (foldl (insert_candidate stub) g cs) = mg_edges g"
  by (induction cs arbitrary: g) (simp_all add: insert_candidate_def)

lemma insert_stubs_edges: "try_fold insert_stub g stubs = Inr g' \<Longrightarrow> mg_edges g' = mg_edges g"
  by (induction stubs arbitrary: g) (auto simp: and_then_Inr insert_stub_def insert_candidates_edges split: if_splits)

text \<open>The keys of the edges a file owns, and the edges another file owns.\<close>

definition owned_by :: "string \<Rightarrow> edge_row list \<Rightarrow> edge_id set" where
  "owned_by owner es = edge_key ` {e \<in> set es. ro_owner_id e = Some owner}"

definition foreign :: "string \<Rightarrow> edge_row list \<Rightarrow> edge_row set" where
  "foreign owner es = {e \<in> set es. ro_owner_id e \<noteq> None \<and> ro_owner_id e \<noteq> Some owner}"

lemma owned_keys_set: "set (owned_keys owner g) = owned_by owner (mg_edges g)"
  by (auto simp: owned_keys_def owned_by_def)

lemma upsert_edge_owned:
  assumes "graph_ok g" "upsert_edge_on edge (Some owner) g = Inr (created, g')"
  shows "owned_by owner (mg_edges g') = insert (edge_key edge) (owned_by owner (mg_edges g)) \<and> foreign owner (mg_edges g') = foreign owner (mg_edges g)"
  using assms(2)
proof (cases rule: upsert_edge_cases)
  case inserted
  have "{e \<in> set (mg_edges g'). ro_owner_id e = Some owner} =
      insert (fresh_edge edge (Some owner)) {e \<in> set (mg_edges g). ro_owner_id e = Some owner}" using inserted(5) by auto
  with inserted(5) show ?thesis by (auto simp: owned_by_def foreign_def)
next
  case (updated e)
  let ?f = "\<lambda>e. if edge_key e = edge_key edge then reinforced edge (Some owner) e else e"
  have e: "e \<in> set (mg_edges g)" "edge_key e = edge_key edge" using updated(2) edge_at_Some [OF assms(1)] by auto
  have only: "e' = e" if "e' \<in> set (mg_edges g)" "edge_key e' = edge_key edge" for e'
    using that e assms(1) updated(2) edge_at_Some [OF assms(1), of "edge_key edge" e'] by simp
  have ro: "ro_owner_id (reinforced edge (Some owner) e') = Some owner" for e' by (simp add: reinforced_def)
  have e_owner: "ro_owner_id e = None \<or> ro_owner_id e = Some owner" using updated(3) by auto
  have "foreign owner (map ?f (mg_edges g)) = foreign owner (mg_edges g)"
    using only e_owner by (force simp: foreign_def ro)
  moreover have "owned_by owner (map ?f (mg_edges g)) = insert (edge_key edge) (owned_by owner (mg_edges g))"
  proof -
    have rows: "{x \<in> set (map ?f (mg_edges g)). ro_owner_id x = Some owner} =
        ?f ` {x \<in> set (mg_edges g). edge_key x = edge_key edge \<or> ro_owner_id x = Some owner}" by (auto simp: ro)
    have key: "edge_key (?f x) = edge_key x" for x :: edge_row by simp
    have "owned_by owner (map ?f (mg_edges g)) =
        edge_key ` {x \<in> set (mg_edges g). edge_key x = edge_key edge \<or> ro_owner_id x = Some owner}"
      unfolding owned_by_def rows image_image key ..
    moreover have "{x \<in> set (mg_edges g). edge_key x = edge_key edge \<or> ro_owner_id x = Some owner} =
        {x \<in> set (mg_edges g). edge_key x = edge_key edge} \<union> {x \<in> set (mg_edges g). ro_owner_id x = Some owner}" by auto
    moreover have "edge_key ` {x \<in> set (mg_edges g). edge_key x = edge_key edge} = {edge_key edge}"
      using e by (intro equalityI subsetI) (auto simp: image_iff intro: bexI [of _ e])
    ultimately show ?thesis by (simp add: owned_by_def image_Un)
  qed
  ultimately show ?thesis by (simp add: updated(4))
qed

lemma upsert_edges_owned:
  assumes "graph_ok g" "list_all edge_ok es" "upsert_edges (Some owner) es g = Inr (k, g')"
  shows "owned_by owner (mg_edges g') = edge_key ` set es \<union> owned_by owner (mg_edges g) \<and> foreign owner (mg_edges g') = foreign owner (mg_edges g)"
  using assms
proof (induction es arbitrary: g k)
  case (Cons e es)
  then obtain c g1 j where step: "upsert_edge_on e (Some owner) g = Inr (c, g1)" "upsert_edges (Some owner) es g1 = Inr (j, g')"
    unfolding upsert_edges_Cons by auto
  have "graph_ok g1" using upsert_edge_ok [OF Cons.prems(1) _ step(1)] Cons.prems(2) by simp
  from Cons.IH [OF this _ step(2)] upsert_edge_owned [OF Cons.prems(1) step(1)] Cons.prems(2) show ?case by auto
qed simp

lemma adopt_edges_foreign: "foreign owner (mg_edges (adopt_edges owner g)) = foreign owner (mg_edges g)"
  by (force simp: foreign_def adopt_edges_def)

lemma filter_owned:
  assumes "\<And>e. ro_owner_id e \<noteq> Some owner \<Longrightarrow> P e" "\<And>e. e \<in> set es \<Longrightarrow> ro_owner_id e = Some owner \<Longrightarrow> P e \<longleftrightarrow> edge_key e \<in> D"
  shows "owned_by owner (filter P es) = owned_by owner es \<inter> D \<and> foreign owner (filter P es) = foreign owner es"
proof -
  have "{e \<in> set (filter P es). ro_owner_id e = Some owner} = {e \<in> set es. ro_owner_id e = Some owner} \<inter> {e. edge_key e \<in> D}"
    using assms(2) by auto
  then have "owned_by owner (filter P es) = owned_by owner es \<inter> D" unfolding owned_by_def by auto
  then show ?thesis using assms(1) by (auto simp: foreign_def)
qed

section \<open>Histories of the graph\<close>

inductive graph_step :: "mem_graph \<Rightarrow> mem_graph \<Rightarrow> bool" where
  step_facts: "list_all edge_ok es \<Longrightarrow> upsert_facts ns es ob g = Inr (r, g') \<Longrightarrow> graph_step g g'"
| step_observe: "graph_observe ob g = Inr (r, g') \<Longrightarrow> graph_step g g'"
| step_structure: "list_all edge_ok es \<Longrightarrow> starts_with owner ''artifact:'' \<Longrightarrow> replace_structure owner ns es stubs g = Inr (r, g') \<Longrightarrow> graph_step g g'"
| step_forget: "forget_artifact a g = (r, g') \<Longrightarrow> graph_step g g'"
| step_boost: "boost i now g = (r, g') \<Longrightarrow> graph_step g g'"
| step_acquire: "try_acquire_consolidation_lease owner now secs interval g = (r, g') \<Longrightarrow> graph_step g g'"
| step_release: "release_consolidation_lease owner now g = (r, g') \<Longrightarrow> graph_step g g'"

inductive graph_reachable :: "mem_graph \<Rightarrow> bool" where
  graph_start: "graph_reachable empty_graph"
| graph_next: "graph_reachable g \<Longrightarrow> graph_step g g' \<Longrightarrow> graph_reachable g'"

lemma boost_ok: "graph_ok g \<Longrightarrow> graph_ok (snd (boost i now g))"
proof -
  assume ok: "graph_ok g"
  let ?g = "g\<lparr>mg_nodes := map (\<lambda>n. if n_id n = i then n\<lparr>n_last_accessed_at := now\<rparr> else n) (mg_nodes g)\<rparr>"
  have ids: "map n_id (mg_nodes ?g) = map n_id (mg_nodes g)" by simp
  then have "node_exists_on ?g j = node_exists_on g j" for j unfolding node_exists_ids by simp
  with ok ids show ?thesis by (simp add: boost_def graph_ok_def del: map_map)
qed

lemma lease_ok: "graph_ok (g\<lparr>mg_lease := l\<rparr>) = graph_ok g"
  by (simp add: graph_ok_def)

lemma graph_step_ok: "graph_step g g' \<Longrightarrow> graph_ok g \<Longrightarrow> graph_ok g'"
proof (induction rule: graph_step.induct)
  case (step_facts es ns ob g r g')
  then show ?case by (blast intro: facts.keeps_ok)
next
  case (step_observe ob g r g')
  then show ?case by (blast intro: observing.keeps_ok)
next
  case (step_structure es owner ns stubs g r g')
  then show ?case by (blast intro: structures.keeps_ok)
next
  case (step_forget a g r g')
  then show ?case using forget_artifact_without [of g a] by (auto simp: without_ok)
next
  case (step_boost i now g r g')
  then show ?case using boost_ok [of g i now] by simp
next
  case (step_acquire owner now secs interval g r g')
  then show ?case by (auto simp: try_acquire_consolidation_lease_def Let_def lease_ok split: option.splits if_splits)
next
  case (step_release owner now g r g')
  then show ?case by (auto simp: release_consolidation_lease_def lease_ok split: option.splits if_splits)
qed

lemma empty_ok: "graph_ok empty_graph"
  by (simp add: empty_graph_def graph_ok_def)

lemma graph_reachable_ok: "graph_reachable g \<Longrightarrow> graph_ok g"
  by (induction rule: graph_reachable.induct) (blast intro: empty_ok graph_step_ok)+

text \<open>A file with one function, then the same file after the function was renamed.\<close>

definition memory_nodes :: "string \<Rightarrow> mem_node list" where
  "memory_nodes f = [node_new ''artifact:a.rs'' NodeArtifact ''a.rs'' 10, node_new (''symbol:a.rs:'' @ f) NodeSymbol f 10]"

definition memory_edges :: "string \<Rightarrow> mem_edge list" where
  "memory_edges f = [edge_new ''artifact:a.rs'' (''symbol:a.rs:'' @ f) RelContains 10]"

definition memory_row :: "string \<Rightarrow> edge_row" where
  "memory_row f = fresh_edge (edge_new ''artifact:a.rs'' (''symbol:a.rs:'' @ f) RelContains 10) (Some ''artifact:a.rs'')"

definition memory_file :: "string \<Rightarrow> mem_graph" where
  "memory_file f = \<lparr>mg_nodes = memory_nodes f, mg_edges = [memory_row f], mg_versions = [(''artifact:a.rs'', STRUCTURE_EXTRACTOR_VERSION)],
     mg_stubs = [], mg_candidates = [], mg_lease = None\<rparr>"

lemmas memory_defs = memory_nodes_def memory_edges_def memory_row_def memory_file_def node_new_def edge_new_def fresh_edge_def mem_edge.defs

lemmas replace_defs = replace_structure_def structural_source_belongs_to_owner_def symbol_prefix_def artifact_path_def strip_prefix_def
  starts_with_def delete_stubs_def adopt_edges_def owned_keys_def edge_key_def set_version_def delete_edges_def aliases_def
  drop_stale_node_def delete_nodes_def delete_orphan_artifact_stubs_def upsert_node_on_def upsert_edge_on_def edge_at_def
  node_exists_on_def connected_def touches_def and_then_def empty_graph_def

lemma memory_first: "replace_structure ''artifact:a.rs'' (memory_nodes ''f'') (memory_edges ''f'') [] empty_graph = Inr ((2, 1), memory_file ''f'')"
  by (simp add: memory_defs replace_defs)

lemma memory_rename: "replace_structure ''artifact:a.rs'' (memory_nodes ''g'') (memory_edges ''g'') [] (memory_file ''f'') = Inr ((1, 1), memory_file ''g'')"
  by (simp add: memory_defs replace_defs)

lemma memory_edges_ok: "list_all edge_ok (memory_edges f)"
  by (simp add: memory_edges_def edge_new_def edge_ok_def)

lemma memory_reachable: "graph_reachable (memory_file ''g'')"
proof -
  have "graph_step empty_graph (memory_file ''f'')"
    by (rule step_structure [OF memory_edges_ok _ memory_first]) (simp add: starts_with_def)
  moreover have "graph_step (memory_file ''f'') (memory_file ''g'')"
    by (rule step_structure [OF memory_edges_ok _ memory_rename]) (simp add: starts_with_def)
  ultimately show ?thesis by (blast intro: graph_start graph_next)
qed

lemma memory_ok: "graph_ok (memory_file f)"
  by (simp add: memory_defs graph_ok_def edge_key_def edge_ok_def node_exists_on_def)

section \<open>Theorems\<close>

text \<open>C17. Whatever sequence of these writes a graph has gone through, batches of facts, observations, structure replacements,
  forgotten files, boosts and lease changes, its ids and edge keys are unique, every edge, version and stub refers to
  a node that exists, every candidate to a stub, and every weight lies between 0 and 1.\<close>

theorem memory_graph_is_sound:
  assumes "graph_reachable g"
  shows "distinct (map n_id (mg_nodes g)) \<and> distinct (map edge_key (mg_edges g)) \<and>
     (\<forall>e \<in> set (mg_edges g). node_exists_on g (ed_source_id e) \<and> node_exists_on g (ed_target_id e) \<and> 0 \<le> ed_weight e \<and> ed_weight e \<le> 1) \<and>
     (\<forall>v \<in> set (mg_versions g). node_exists_on g (fst v)) \<and> (\<forall>i \<in> set (mg_stubs g). node_exists_on g i) \<and>
     (\<forall>c \<in> set (mg_candidates g). fst c \<in> set (mg_stubs g))"
  using graph_reachable_ok [OF assms] by (simp add: graph_ok_def edge_ok_def)

theorem memory_graph_is_sound_witness:
  "node_exists_on (memory_file ''g'') ''symbol:a.rs:g'' \<and> ed_target_id (memory_row ''g'') = ''symbol:a.rs:g''"
  using memory_graph_is_sound [OF memory_reachable] by (simp add: memory_defs)

text \<open>C19. A structure replacement is a replacement, when no stub alias awaits the file: afterwards the file owns the edges
  it was given and no others, and every edge another file owns is what it was. Where an alias awaits the file, the alias is
  promoted at the end and the edges other files have to it move, which this statement does not cover.\<close>

theorem replace_structure_exact:
  assumes "graph_ok g" "list_all edge_ok es" "aliases owner g = []" "replace_structure owner ns es stubs g = Inr (r, g')"
  shows "owned_by owner (mg_edges g') = edge_key ` set es \<and> foreign owner (mg_edges g') = foreign owner (mg_edges g)"
  using assms(4)
proof (cases rule: replace_structure_stages)
  case (1 g4 g5 unreal k g7 stale)
  let ?g2 = "adopt_edges owner (delete_stubs (\<lambda>i. i = owner) g)"
  let ?keep = "\<lambda>e. \<not> (ro_owner_id e = Some owner \<and> edge_key e \<in> set (owned_keys owner ?g2) - edge_key ` set es)"
  have "graph_ok (snd (upsert_nodes ns ?g2))" using assms(1) by (simp add: upsert_nodes_ok adopt_edges_ok delete_stubs_ok)
  with 1(2,3) have "graph_ok g5" using set_version_ok insert_stubs_ok by blast
  from upsert_edges_owned [OF filter_edges_ok [OF this] assms(2) 1(4)]
  have "owned_by owner (mg_edges g7) = edge_key ` set es \<union> owned_by owner (filter ?keep (mg_edges g5))"
    "foreign owner (mg_edges g7) = foreign owner (filter ?keep (mg_edges g5))" by simp_all
  moreover have edges: "mg_edges g5 = mg_edges ?g2" using set_version_edges [OF 1(2)] insert_stubs_edges [OF 1(3)] by simp
  have "owned_by owner (filter ?keep (mg_edges g5)) = owned_by owner (mg_edges g5) \<inter> edge_key ` set es \<and>
      foreign owner (filter ?keep (mg_edges g5)) = foreign owner (mg_edges g5)"
    by (rule filter_owned) (auto simp: owned_keys_set edges owned_by_def)
  moreover have "foreign owner (mg_edges g5) = foreign owner (mg_edges g)"
    unfolding edges adopt_edges_foreign by (simp add: delete_stubs_def)
  moreover have "mg_edges g' = mg_edges g7" unfolding 1(5) by (simp add: assms(3))
  ultimately show ?thesis by auto
qed

theorem replace_structure_exact_witness:
  "owned_by ''artifact:a.rs'' (mg_edges (memory_file ''g'')) = {(''artifact:a.rs'', ''symbol:a.rs:g'', RelContains)}"
  using replace_structure_exact [OF memory_ok memory_edges_ok _ memory_rename]
  by (simp add: memory_file_def aliases_def memory_edges_def edge_key_def edge_new_def)

text \<open>C20. Forgetting a file removes the file, the symbols it defined and whatever refers to them, leaves every other node,
  edge, version, stub and candidate as it was, and reports how many nodes and edges it removed.\<close>

theorem forget_artifact_exact:
  assumes "graph_ok g" "forget_artifact a g = ((nodes_removed, edges_removed), g')"
  shows "mg_nodes g' = filter (\<lambda>n. \<not> of_file a n) (mg_nodes g) \<and>
     mg_edges g' = filter (\<lambda>e. node_exists_on g' (ed_source_id e) \<and> node_exists_on g' (ed_target_id e)) (mg_edges g) \<and>
     mg_versions g' = filter (\<lambda>v. node_exists_on g' (fst v)) (mg_versions g) \<and> mg_stubs g' = filter (node_exists_on g') (mg_stubs g) \<and>
     mg_candidates g' = filter (\<lambda>c. node_exists_on g' (fst c)) (mg_candidates g) \<and>
     nodes_removed + length (mg_nodes g') = length (mg_nodes g) \<and> edges_removed + length (mg_edges g') = length (mg_edges g) \<and> graph_ok g'"
proof -
  let ?S = "insert a (n_id ` {x \<in> set (mg_nodes g). of_file a x})"
  from forget_artifact_without [OF assms(1), of a] assms(2)
  have g': "g' = without ?S g" and counts: "nodes_removed + length (mg_nodes g') = length (mg_nodes g)"
    "edges_removed + length (mg_edges g') = length (mg_edges g)" by auto
  have inj: "n = m" if "n \<in> set (mg_nodes g)" "m \<in> set (mg_nodes g)" "n_id n = n_id m" for n m
    using assms(1) that by (auto simp: graph_ok_def distinct_map dest: inj_onD)
  have "n_id n \<notin> ?S \<longleftrightarrow> \<not> of_file a n" if "n \<in> set (mg_nodes g)" for n
    using inj [OF that] that by (auto simp: of_file_def)
  then have "mg_nodes g' = filter (\<lambda>n. \<not> of_file a n) (mg_nodes g)" by (simp add: g' without_def cong: filter_cong)
  moreover have "mg_edges g' = filter (\<lambda>e. node_exists_on g' (ed_source_id e) \<and> node_exists_on g' (ed_target_id e)) (mg_edges g)"
    using assms(1) unfolding g' without_exists by (auto simp: without_def graph_ok_def intro!: filter_cong)
  moreover have "mg_stubs g' = filter (node_exists_on g') (mg_stubs g)"
    using assms(1) unfolding g' without_exists by (auto simp: without_def graph_ok_def intro!: filter_cong)
  moreover have "mg_versions g' = filter (\<lambda>v. node_exists_on g' (fst v)) (mg_versions g)"
    using assms(1) unfolding g' without_exists by (auto simp: without_def graph_ok_def intro!: filter_cong)
  moreover have "mg_candidates g' = filter (\<lambda>c. node_exists_on g' (fst c)) (mg_candidates g)"
    using assms(1) unfolding g' without_exists by (auto simp: without_def graph_ok_def intro!: filter_cong)
  ultimately show ?thesis using counts without_ok [OF assms(1)] g' by simp
qed

lemma memory_forget: "forget_artifact ''artifact:a.rs'' (memory_file ''g'') = ((2, 1), empty_graph)"
  by (simp add: forget_artifact_def forget_node_def memory_defs replace_defs)

theorem forget_artifact_exact_witness: "(2 :: nat) + length (mg_nodes empty_graph) = length (mg_nodes (memory_file ''g''))"
  using forget_artifact_exact [OF memory_ok memory_forget] by blast

end
