(* ===== verification/Memory_Ingest.thy ===== *)
theory Memory_Ingest
  imports Memory_Graph Knowledge
begin

text \<open>
  What the sensors write: \<^verbatim>\<open>ingest/mod.rs\<close>, \<^verbatim>\<open>ingest/execution.rs\<close>, \<^verbatim>\<open>ingest/git.rs\<close>, \<^verbatim>\<open>ingest/tool_invocation.rs\<close>, the
  facts of a model summary in \<^verbatim>\<open>consolidate.rs\<close> and a recorded decision in \<^verbatim>\<open>facade/query.rs\<close>. Strings are UTF-8
  bytes. SHA-256 and the three regular expressions are those of other crates: the record \<open>sensors\<close> carries
  them, and messages of errors are abridged. Each ingester is proved to emit only what the evidence of \<open>Memory_Evidence\<close> relies on: executions modify
  and fail, intents refactor, and an id says of which type its node is.
\<close>

section \<open>Strings and paths\<close>

definition newline :: char where
  "newline = CHR 0x0A"

text \<open>\<^verbatim>\<open>str::lines\<close>: a line ends with a line feed, and a carriage return before it is dropped.\<close>

definition lines :: "string \<Rightarrow> string list" where
  "lines s = (let xs = split_on newline s; chop = (\<lambda>l. case strip_suffix [CHR 0x0D] l of Some r \<Rightarrow> r | None \<Rightarrow> l)
     in map chop (butlast xs) @ (if last xs = [] then [] else [last xs]))"

text \<open>\<^verbatim>\<open>str::chars\<close>: a byte that starts a character and the continuation bytes after it.\<close>

definition is_continuation :: "char \<Rightarrow> bool" where
  "is_continuation c \<longleftrightarrow> 128 \<le> (of_char c :: nat) \<and> (of_char c :: nat) < 192"

function utf8_chars :: "string \<Rightarrow> string list" where
  "utf8_chars [] = []"
| "utf8_chars (c # cs) = (c # takeWhile is_continuation cs) # utf8_chars (dropWhile is_continuation cs)"
  by pat_completeness auto
termination by (relation "measure length") (auto simp: le_imp_less_Suc length_dropWhile_le)

definition ellipsis :: string where
  "ellipsis = [CHR 0x20, CHR 0xE2, CHR 0x80, CHR 0xA6]"

definition clamp :: "string \<Rightarrow> nat \<Rightarrow> string" where
  "clamp text_bytes max_chars = (if length (utf8_chars text_bytes) \<le> max_chars then text_bytes
     else concat (take max_chars (utf8_chars text_bytes)) @ ellipsis)"

definition normalize_path :: "string \<Rightarrow> string" where
  "normalize_path path = map (\<lambda>c. if c = CHR 0x5C then CHR ''/'' else c) path"

definition trim_end_slashes :: "string \<Rightarrow> string" where
  "trim_end_slashes s = rev (dropWhile (\<lambda>c. c = CHR ''/'') (rev s))"

definition root_match :: "string \<Rightarrow> nat option \<Rightarrow> string \<Rightarrow> nat option" where
  "root_match candidate best raw = (
     let dir = trim_end_slashes (normalize_path raw); dir_prefix = map ascii_lower dir @ ''/'' in
     if dir = [] then best
     else if starts_with candidate dir_prefix \<and> (case best of None \<Rightarrow> True | Some b \<Rightarrow> b < length dir_prefix)
     then Some (length dir_prefix) else best)"

definition repo_relative :: "string \<Rightarrow> string list \<Rightarrow> string" where
  "repo_relative path roots = (let normalized = normalize_path path in
     case foldl (root_match (map ascii_lower normalized)) None roots of Some len \<Rightarrow> drop len normalized | None \<Rightarrow> normalized)"

definition is_ascii_alphabetic :: "char \<Rightarrow> bool" where
  "is_ascii_alphabetic c \<longleftrightarrow> (let n = (of_char c :: nat) in 65 \<le> n \<and> n \<le> 90 \<or> 97 \<le> n \<and> n \<le> 122)"

definition is_absolute_path :: "string \<Rightarrow> bool" where
  "is_absolute_path path = (case normalize_path path of
       [] \<Rightarrow> False
     | c # rest \<Rightarrow> c = CHR ''/'' \<or> is_ascii_alphabetic c \<and> (case rest of [] \<Rightarrow> False | d # _ \<Rightarrow> d = CHR '':''))"

definition IGNORED_SEGMENTS :: "string list" where
  "IGNORED_SEGMENTS = [''.git'', ''target'', ''node_modules'', ''dist'', ''coverage'', ''.mindleak'', ''.lodestar'', ''.vscode-test'']"

definition is_ignored_path :: "string \<Rightarrow> bool" where
  "is_ignored_path path \<longleftrightarrow> (\<exists>segment \<in> set (split_on (CHR ''/'') (normalize_path path)). segment \<in> set IGNORED_SEGMENTS)"

record sensors =
  se_sha256_hex :: "string \<Rightarrow> string"
  se_file_line_re :: "string \<Rightarrow> (string \<times> string) list"
  se_python_traceback_re :: "string \<Rightarrow> (string \<times> string) list"
  se_last_exit_code_re :: "string \<Rightarrow> bool"

definition short_hash :: "sensors \<Rightarrow> string \<Rightarrow> string" where
  "short_hash se s = take 12 (se_sha256_hex se s)"

definition with_content :: "string \<Rightarrow> mem_node \<Rightarrow> mem_node" where
  "with_content c n = n\<lparr>n_content := Some c\<rparr>"

definition artifact_node :: "string \<Rightarrow> int \<Rightarrow> mem_node" where
  "artifact_node path now = node_new (''artifact:'' @ path) NodeArtifact path now"

section \<open>Executions\<close>

record execution_record =
  er_command :: string
  er_exit_code :: int
  er_output :: string
  er_cwd :: "string option"
  er_changed_files :: "string list"
  er_timestamp :: int

definition parse_u32 :: "string \<Rightarrow> nat option" where
  "parse_u32 s = (let digits = (case strip_prefix ''+'' s of Some r \<Rightarrow> r | None \<Rightarrow> s) in
     if digits \<noteq> [] \<and> list_all (\<lambda>c. 48 \<le> (of_char c :: nat) \<and> (of_char c :: nat) \<le> 57) digits \<and> read_nat digits < 2 ^ 32
     then Some (read_nat digits) else None)"

text \<open>The pairs are sorted and deduplicated as \<^verbatim>\<open>(String, u32)\<close>; the caller reads the paths only, in that order.\<close>

definition parse_error_locations :: "sensors \<Rightarrow> string \<Rightarrow> (string \<times> nat) list" where
  "parse_error_locations se out = (
     let found = List.map_filter (\<lambda>(p, l). map_option (Pair (normalize_path p)) (parse_u32 l))
           (se_file_line_re se out @ se_python_traceback_re se out)
     in remdups_adj (sort_key fst (sort_key snd found)))"

definition execution_content :: "execution_record \<Rightarrow> string" where
  "execution_content r = ''exit='' @ show_int (er_exit_code r) @ [newline] @
     (case er_cwd r of Some cwd \<Rightarrow> ''cwd='' @ cwd @ [newline] | None \<Rightarrow> []) @ clamp (er_output r) 2000"

definition recordable :: "string \<Rightarrow> bool" where
  "recordable path \<longleftrightarrow> \<not> (is_ignored_path path \<or> is_absolute_path path)"

definition failed_paths :: "sensors \<Rightarrow> execution_record \<Rightarrow> string list \<Rightarrow> string list" where
  "failed_paths se r roots = (if er_exit_code r = 0 then []
     else filter recordable (map (\<lambda>(path, _). repo_relative path roots) (parse_error_locations se (er_output r))))"

definition modified_paths :: "execution_record \<Rightarrow> string list \<Rightarrow> string list" where
  "modified_paths r roots = filter recordable (sort_dedup (map (\<lambda>f. repo_relative f roots) (er_changed_files r)))"

definition execution_id :: "sensors \<Rightarrow> execution_record \<Rightarrow> string" where
  "execution_id se r = ''execution:'' @ short_hash se (er_command r @ ''|'' @ show_int (er_timestamp r))"

definition execution_facts :: "sensors \<Rightarrow> execution_record \<Rightarrow> int \<Rightarrow> string list \<Rightarrow> mem_node list \<times> mem_edge list" where
  "execution_facts se r now roots = (
     let i = execution_id se r; changed = modified_paths r roots; failed = failed_paths se r roots;
         fact = (\<lambda>rel path. edge_new i (''artifact:'' @ path) rel (er_timestamp r))
     in (with_content (execution_content r) (node_new i NodeExecution (clamp (er_command r) 80) (er_timestamp r)) #
           map (\<lambda>path. artifact_node path now) changed @ map (\<lambda>path. artifact_node path now) failed,
         map (fact RelModified) changed @ map (fact RelFailedOn) failed))"

record write_outcome =
  wo_created :: "nat \<times> nat"
  wo_node_ids :: "string list"
  wo_violation :: "string option"

definition ingest_execution ::
  "sensors \<Rightarrow> execution_record \<Rightarrow> int \<Rightarrow> string list \<Rightarrow> string option \<Rightarrow> mem_graph \<Rightarrow> mind_error + write_outcome \<times> mem_graph" where
  "ingest_execution se r now roots agent g = (
     let (nodes, edges) = execution_facts se r now roots; i = execution_id se r in
     and_then (upsert_facts nodes edges (map_option (\<lambda>a. \<lparr>ob_agent = a, ob_ids = [i], ob_now = now\<rparr>) agent) g) (\<lambda>(created, g').
       Inr (\<lparr>wo_created = created, wo_node_ids = [i], wo_violation = None\<rparr>, g')))"

section \<open>Commits\<close>

record commit_record =
  co_sha :: "string option"
  co_message :: string
  co_changed_files :: "string list"
  co_timestamp :: int

definition ascii_upper :: "char \<Rightarrow> char" where
  "ascii_upper c = (let n = (of_char c :: nat) in if 97 \<le> n \<and> n \<le> 122 then char_of (n - 32) else c)"

fun trim_start_slashes :: "string \<Rightarrow> string" where
  "trim_start_slashes (a # b # r) = (if a = CHR ''/'' \<and> b = CHR ''/'' then trim_start_slashes r else a # b # r)"
| "trim_start_slashes s = s"

text \<open>\<^verbatim>\<open>str::find\<close> of a substring.\<close>

definition find_sub :: "string \<Rightarrow> string \<Rightarrow> nat option" where
  "find_sub p s = find (\<lambda>i. prefix p (drop i s)) [0..<Suc (length s)]"

definition rationale_markers :: "string list" where
  "rationale_markers = [''DECISION:'', ''HACK:'', ''WHY:'', ''NOTE:'', ''FIXME:'']"

definition line_rationale :: "string \<Rightarrow> string list" where
  "line_rationale line = (
     let trimmed = trim (dropWhile (\<lambda>c. c = CHR ''#'') (trim_start_slashes (trim line))) in
     List.map_filter (\<lambda>marker. case find_sub marker (map ascii_upper trimmed) of None \<Rightarrow> None
       | Some i \<Rightarrow> let rest = trim (drop (i + length marker) trimmed) in if rest = [] then None else Some (marker @ '' '' @ rest)) rationale_markers)"

definition extract_rationale :: "string \<Rightarrow> string list" where
  "extract_rationale message = concat (map line_rationale (lines message))"

fun join_lines :: "string list \<Rightarrow> string" where
  "join_lines [] = []"
| "join_lines [x] = x"
| "join_lines (x # xs) = x @ newline # join_lines xs"

definition intent_node :: "commit_record \<Rightarrow> string \<Rightarrow> mem_node" where
  "intent_node r i = (
     let first_line = trim (case lines (co_message r) of [] \<Rightarrow> [] | l # _ \<Rightarrow> l); rationale = extract_rationale (co_message r) in
     with_content (co_message r @ (if rationale = [] then [] else newline # ''---'' @ newline # join_lines rationale))
       (node_new i NodeIntent (clamp first_line 80) (co_timestamp r)))"

definition changed_paths :: "commit_record \<Rightarrow> string list \<Rightarrow> string list" where
  "changed_paths r roots = sort_dedup (filter (\<lambda>path. \<not> is_ignored_path path) (map (\<lambda>f. repo_relative f roots) (co_changed_files r)))"

definition is_full_commit_sha :: "string \<Rightarrow> bool" where
  "is_full_commit_sha sha \<longleftrightarrow> (length sha = 40 \<or> length sha = 64) \<and> list_all is_ascii_hexdigit sha"

definition commit_key :: "sensors \<Rightarrow> commit_record \<Rightarrow> (string \<Rightarrow> bool option) option \<Rightarrow> mind_error + string" where
  "commit_key se r commit_exists = (case co_sha r of
       None \<Rightarrow> Inr (short_hash se (co_message r @ ''|'' @ show_int (co_timestamp r)))
     | Some sha \<Rightarrow>
         let sha = trim sha in
         if \<not> is_full_commit_sha sha then Inl (MindInvalidArgument (sha @ '' is not a full commit hash''))
         else let sha = map ascii_lower sha in
           if (case commit_exists of Some resolves \<Rightarrow> resolves sha | None \<Rightarrow> None) = Some False
           then Inl (MindInvalidArgument (sha @ '' is well formed but names no commit in this checkout'')) else Inr sha)"

definition commit_facts :: "commit_record \<Rightarrow> string \<Rightarrow> int \<Rightarrow> string list \<Rightarrow> mem_node list \<times> mem_edge list" where
  "commit_facts r i now roots =
     (intent_node r i # map (\<lambda>path. artifact_node path now) (changed_paths r roots),
      map (\<lambda>path. edge_new i (''artifact:'' @ path) RelRefactored (co_timestamp r)) (changed_paths r roots))"

definition ingest_commit ::
  "sensors \<Rightarrow> commit_record \<Rightarrow> int \<Rightarrow> string list \<Rightarrow> (string \<Rightarrow> bool option) option \<Rightarrow> mem_graph \<Rightarrow> mind_error + write_outcome \<times> mem_graph" where
  "ingest_commit se r now roots commit_exists g =
     and_then (commit_key se r commit_exists) (\<lambda>key.
       let i = ''intent:'' @ key; (nodes, edges) = commit_facts r i now roots in
     and_then (upsert_facts nodes edges None g) (\<lambda>(created, g').
       Inr (\<lparr>wo_created = created, wo_node_ids = [i], wo_violation = None\<rparr>, g')))"

section \<open>Tool invocations\<close>

record tool_invocation_record =
  ti_tool_name :: string
  ti_argument_excerpt :: string
  ti_timestamp :: int

datatype shell_hygiene_violation = PipedPowerShellCmdlet | LastExitCode

fun violation_as_str :: "shell_hygiene_violation \<Rightarrow> string" where
  "violation_as_str PipedPowerShellCmdlet = ''piped_powershell_cmdlet''"
| "violation_as_str LastExitCode = ''last_exit_code''"

definition NATIVE_COMMANDS :: "string list" where
  "NATIVE_COMMANDS = [''git'', ''cargo'', ''npm'', ''npx'', ''node'', ''python'', ''python3'', ''dotnet'', ''gh'', ''yarn'', ''pnpm'', ''make'']"

definition POWERSHELL_CMDLETS :: "string list" where
  "POWERSHELL_CMDLETS = [''select-object'', ''select-string'', ''foreach-object'', ''where-object'', ''get-childitem'', ''remove-item'',
     ''test-path'', ''format-table'', ''format-list'', ''sort-object'', ''group-object'', ''measure-object'', ''out-string'', ''tee-object'',
     ''get-content'', ''set-content'', ''new-item'', ''copy-item'', ''move-item'', ''rename-item'']"

definition first_token :: "string \<Rightarrow> string option" where
  "first_token segment = (let t = takeWhile (\<lambda>c. \<not> is_whitespace c) (dropWhile is_whitespace segment) in if t = [] then None else Some t)"

definition trim_quotes :: "string \<Rightarrow> string" where
  "trim_quotes s = (let q = (\<lambda>c. c = CHR 0x22 \<or> c = CHR 0x27) in rev (dropWhile q (rev (dropWhile q s))))"

definition is_native_command :: "string \<Rightarrow> bool" where
  "is_native_command token \<longleftrightarrow> (let bare = map ascii_lower (trim_quotes (dropWhile (\<lambda>c. c = CHR 0x26) token)) in
     \<exists>native \<in> set NATIVE_COMMANDS. bare = native \<or> bare = native @ ''.exe'')"

definition is_powershell_cmdlet :: "string \<Rightarrow> bool" where
  "is_powershell_cmdlet token \<longleftrightarrow> map ascii_lower (trim_quotes token) \<in> set POWERSHELL_CMDLETS"

definition classify_command :: "sensors \<Rightarrow> string \<Rightarrow> shell_hygiene_violation option" where
  "classify_command se command =
     (if se_last_exit_code_re se command then Some LastExitCode
      else let segments = split_on (CHR ''|'') command in
        if length segments < 2 then None
        else if list_ex is_native_command (List.map_filter first_token segments) \<and>
                list_ex is_powershell_cmdlet (List.map_filter first_token (tl segments))
        then Some PipedPowerShellCmdlet else None)"

definition tool_invocation_node :: "sensors \<Rightarrow> tool_invocation_record \<Rightarrow> mem_node" where
  "tool_invocation_node se r =
     with_content (''tool='' @ ti_tool_name r @ [newline] @
         (case classify_command se (ti_argument_excerpt r) of Some v \<Rightarrow> ''violation='' @ violation_as_str v @ [newline] | None \<Rightarrow> []) @
         clamp (ti_argument_excerpt r) 2000)
       (node_new (''tool_invocation:'' @ short_hash se (ti_tool_name r @ ''|'' @ ti_argument_excerpt r @ ''|'' @ show_int (ti_timestamp r)))
         NodeToolInvocation (clamp (ti_argument_excerpt r) 80) (ti_timestamp r))"

definition ingest_tool_invocation :: "sensors \<Rightarrow> tool_invocation_record \<Rightarrow> mem_graph \<Rightarrow> mind_error + write_outcome \<times> mem_graph" where
  "ingest_tool_invocation se r g = (let node = tool_invocation_node se r in
     and_then (upsert_facts [node] [] None g) (\<lambda>(created, g').
       Inr (\<lparr>wo_created = created, wo_node_ids = [n_id node],
              wo_violation = map_option violation_as_str (classify_command se (ti_argument_excerpt r))\<rparr>, g')))"

section \<open>Summaries and decisions\<close>

definition MAX_IMPACTED_FILES :: nat where
  "MAX_IMPACTED_FILES = 200"

definition MAX_IMPACTED_PATH_BYTES :: nat where
  "MAX_IMPACTED_PATH_BYTES = 1024"

record intent_summary =
  su_intent_label :: string
  su_impacted_files :: "(string \<times> string) list"
  su_status :: string

definition consolidation_relation :: "string \<Rightarrow> relation_type" where
  "consolidation_relation model_relation = (case relation_from_tag (trim model_relation) of
       None \<Rightarrow> RelRefactored
     | Some RelFixed \<Rightarrow> RelFixed
     | Some RelRelatesTo \<Rightarrow> RelRelatesTo
     | Some _ \<Rightarrow> RelRefactored)"

fun impacted :: "string set \<Rightarrow> (string \<times> string) list \<Rightarrow> (string \<times> string) list" where
  "impacted seen [] = []"
| "impacted seen ((file_path, relation) # fs) = (
     let path = normalize_path file_path in
     if blank path \<or> MAX_IMPACTED_PATH_BYTES < length path \<or> path \<in> seen then impacted seen fs
     else (path, relation) # impacted (insert path seen) fs)"

definition facts_from_summary :: "sensors \<Rightarrow> intent_summary \<Rightarrow> nat \<Rightarrow> int \<Rightarrow> mind_error + string \<times> mem_node list \<times> mem_edge list" where
  "facts_from_summary se summary source_event_count now = (
     let label = trim (su_intent_label summary); i = ''intent:'' @ short_hash se label;
         status = map (\<lambda>c. if c = CHR 0x0D \<or> c = newline then CHR '' '' else c) (trim (su_status summary));
         files = impacted {} (take MAX_IMPACTED_FILES (su_impacted_files summary)) in
     if label = [] then Inl (MindOther ''consolidation summary has an empty intent_label'')
     else Inr (i, with_content (''status='' @ clamp status 200 @ newline # ''source_events='' @ show_nat source_event_count)
                    (node_new i NodeIntent (clamp label 200) now) # map (\<lambda>(path, _). artifact_node path now) files,
               map (\<lambda>(path, relation). edge_new i (''artifact:'' @ path) (consolidation_relation relation) now) files))"

definition store_summary :: "sensors \<Rightarrow> intent_summary \<Rightarrow> nat \<Rightarrow> int \<Rightarrow> mem_graph \<Rightarrow> mind_error + write_outcome \<times> mem_graph" where
  "store_summary se summary event_count now g =
     and_then (facts_from_summary se summary event_count now) (\<lambda>(i, nodes, edges).
     and_then (upsert_facts nodes edges None g) (\<lambda>(created, g').
       Inr (\<lparr>wo_created = created, wo_node_ids = [i], wo_violation = None\<rparr>, g')))"

text \<open>Each write of \<^verbatim>\<open>record_decision\<close> is a transaction of its own. The embedding of the new node is kept elsewhere.\<close>

definition link_decision :: "string \<Rightarrow> int \<Rightarrow> nat \<times> mem_graph \<Rightarrow> string \<Rightarrow> mind_error + nat \<times> mem_graph" where
  "link_decision i now acc target = (case acc of (k, g) \<Rightarrow>
     if node_exists_on g target
     then and_then (upsert_edge_on (edge_new i target RelRelatesTo now) None g) (\<lambda>(created, g'). Inr (k + of_bool created, g'))
     else Inr (k, g))"

definition record_memory_decision :: "sensors \<Rightarrow> string \<Rightarrow> string list \<Rightarrow> int \<Rightarrow> mem_graph \<Rightarrow> mind_error + write_outcome \<times> mem_graph" where
  "record_memory_decision se decision_text related_nodes now g = (
     let i = ''intent:'' @ short_hash se decision_text;
         (created, g1) = upsert_node_on (with_content decision_text (node_new i NodeIntent (clamp decision_text 80) now)) g in
     and_then (try_fold (link_decision i now) (0, g1) related_nodes) (\<lambda>(k, g2).
       Inr (\<lparr>wo_created = (of_bool created, k), wo_node_ids = [i], wo_violation = None\<rparr>, g2)))"

section \<open>Where facts come from\<close>

text \<open>What a writer may add: nodes with an id and a type it was given, edges with a source and a relation it was given.\<close>

definition node_kinds :: "mem_node list \<Rightarrow> (string \<times> node_type) set" where
  "node_kinds ns = (\<lambda>n. (n_id n, n_type n)) ` set ns"

definition edge_kinds :: "('a) mem_edge_scheme list \<Rightarrow> (string \<times> relation_type) set" where
  "edge_kinds es = (\<lambda>e. (ed_source_id e, ed_relation e)) ` set es"

definition adds_only :: "(string \<times> node_type) set \<Rightarrow> (string \<times> relation_type) set \<Rightarrow> mem_graph \<Rightarrow> mem_graph \<Rightarrow> bool" where
  "adds_only N E g g' \<longleftrightarrow> node_kinds (mg_nodes g') \<subseteq> node_kinds (mg_nodes g) \<union> N \<and> edge_kinds (mg_edges g') \<subseteq> edge_kinds (mg_edges g) \<union> E"

lemma adds_only_trans: "adds_only N E g g1 \<Longrightarrow> adds_only N E g1 g2 \<Longrightarrow> adds_only N E g g2"
  unfolding adds_only_def by blast

lemma adds_only_mono: "adds_only N E g g' \<Longrightarrow> N \<subseteq> N' \<Longrightarrow> E \<subseteq> E' \<Longrightarrow> adds_only N' E' g g'"
  unfolding adds_only_def by blast

lemma adds_only_refl: "adds_only N E g g"
  by (simp add: adds_only_def)

lemma adds_only_fold: "(\<And>g x. adds_only N E g (f g x)) \<Longrightarrow> adds_only N E g (foldl f g xs)"
  by (induction xs arbitrary: g) (auto intro: adds_only_refl adds_only_trans)

lemma upsert_node_adds: "(n_id n, n_type n) \<in> N \<Longrightarrow> adds_only N E g (snd (upsert_node_on n g))"
  by (auto simp: adds_only_def node_kinds_def upsert_node_on_def) (metis (mono_tags, lifting) image_eqI)

lemma upsert_nodes_adds: "node_kinds ns \<subseteq> N \<Longrightarrow> adds_only N E g (snd (upsert_nodes ns g))"
proof (induction ns arbitrary: g)
  case (Cons n ns)
  then have "(n_id n, n_type n) \<in> N" "node_kinds ns \<subseteq> N" by (simp_all add: node_kinds_def)
  then show ?case using Cons.IH upsert_node_adds [of n N E g] by (auto simp: case_prod_beta Let_def intro: adds_only_trans)
qed (simp add: adds_only_refl)

lemma upsert_edge_adds:
  assumes "upsert_edge_on e owner g = Inr (c, g')" "(ed_source_id e, ed_relation e) \<in> E"
  shows "adds_only N E g g'"
  using assms(1) by (cases rule: upsert_edge_cases) (use assms(2) in \<open>auto simp: adds_only_def edge_kinds_def\<close>)

lemma upsert_edges_adds: "upsert_edges owner es g = Inr (k, g') \<Longrightarrow> edge_kinds es \<subseteq> E \<Longrightarrow> adds_only N E g g'"
proof (induction es arbitrary: g k)
  case (Cons e es)
  then show ?case unfolding upsert_edges_Cons
    by (auto simp: edge_kinds_def intro: adds_only_trans [OF upsert_edge_adds])
qed (simp add: adds_only_refl)

lemma write_observation_adds:
  assumes "write_observation ob g = Inr g'"
  shows "\<exists>a. adds_only {(''agent:'' @ a, NodeAgent)} {(''agent:'' @ a, RelObserved)} g g'"
proof (cases "agent_name (ob_agent ob) = []")
  case True
  with assms show ?thesis by (simp add: write_observation_def adds_only_refl)
next
  case False
  let ?a = "''agent:'' @ agent_name (ob_agent ob)"
  let ?es = "map (observation_edge ?a (ob_now ob)) (filter (\<lambda>i. i \<noteq> ?a) (ob_ids ob))"
  obtain k where "upsert_edges None ?es (snd (upsert_node_on (node_new ?a NodeAgent (agent_name (ob_agent ob)) (ob_now ob)) g)) = Inr (k, g')"
    using assms False by (auto simp: write_observation_def Let_def and_then_Inr)
  moreover have "edge_kinds ?es \<subseteq> {(?a, RelObserved)}" by (auto simp: edge_kinds_def observation_edge_def edge_new_def Let_def)
  ultimately have "adds_only {(?a, NodeAgent)} {(?a, RelObserved)} (snd (upsert_node_on (node_new ?a NodeAgent (agent_name (ob_agent ob)) (ob_now ob)) g)) g'"
    by (rule upsert_edges_adds)
  moreover have "adds_only {(?a, NodeAgent)} {(?a, RelObserved)} g (snd (upsert_node_on (node_new ?a NodeAgent (agent_name (ob_agent ob)) (ob_now ob)) g))"
    by (rule upsert_node_adds) (simp add: node_new_def)
  ultimately show ?thesis by (blast intro: adds_only_trans)
qed

text \<open>Deletions, and the parts of a structure replacement that move facts.\<close>

lemma delete_adds:
  "adds_only N E g (snd (delete_nodes P g))" "adds_only N E g (snd (delete_edges Q g))" "adds_only N E g (delete_stubs S g)"
  by (auto simp: adds_only_def delete_nodes_def delete_edges_def delete_stubs_def Let_def node_kinds_def edge_kinds_def)

lemma adds_only_edges: "mg_nodes g' = mg_nodes g \<Longrightarrow> edge_kinds (mg_edges g') \<subseteq> edge_kinds (mg_edges g) \<Longrightarrow> adds_only N E g g'"
  by (auto simp: adds_only_def)

lemma copy_fold_kinds:
  "edge_kinds xs \<subseteq> K \<Longrightarrow> edge_kinds es \<subseteq> K \<Longrightarrow>
     edge_kinds (foldl (\<lambda>es e. let e' = e\<lparr>ed_target_id := t\<rparr> in if edge_key e' \<in> edge_key ` set es then es else es @ [e']) es xs) \<subseteq> K"
  by (induction xs arbitrary: es) (auto simp: edge_kinds_def Let_def)

lemma copy_edges_adds: "adds_only N E g (copy_edges P t g)"
proof (rule adds_only_edges)
  have "edge_kinds (filter P (mg_edges g)) \<subseteq> edge_kinds (mg_edges g)" by (auto simp: edge_kinds_def)
  from copy_fold_kinds [OF this subset_refl, of t] show "edge_kinds (mg_edges (copy_edges P t g)) \<subseteq> edge_kinds (mg_edges g)"
    by (simp add: copy_edges_def)
qed simp

lemma adopt_edges_adds: "adds_only N E g (adopt_edges owner g)"
  by (rule adds_only_edges) (auto simp: adopt_edges_def edge_kinds_def)

lemma promote_symbol_adds: "adds_only N E g (promote_symbol sp rp g old)"
  unfolding promote_symbol_def Let_def
  by (intro adds_only_trans [OF _ delete_adds(1)] adds_only_trans [OF _ delete_adds(2)]) (auto intro: copy_edges_adds adds_only_refl)

lemma promote_stub_adds: "adds_only N E g (promote_artifact_stub stub i g)"
  unfolding promote_artifact_stub_def Let_def
  by (intro adds_only_trans [OF _ delete_adds(1)] adds_only_trans [OF _ adds_only_fold] promote_symbol_adds
      adds_only_trans [OF _ delete_adds(2)] copy_edges_adds)

lemma replace_structure_adds:
  assumes "replace_structure owner ns es stubs g = Inr (r, g')" "graph_ok g"
  shows "adds_only (node_kinds ns) (edge_kinds es) g g'"
  using assms(1)
proof (cases rule: replace_structure_stages)
  case (1 g4 g5 unreal k g7 stale)
  let ?N = "node_kinds ns" and ?E = "edge_kinds es" and ?g2 = "adopt_edges owner (delete_stubs (\<lambda>i. i = owner) g)"
  let ?g3 = "snd (upsert_nodes ns ?g2)"
  let ?g6 = "g5\<lparr>mg_edges := filter (\<lambda>e. \<not> (ro_owner_id e = Some owner \<and> edge_key e \<in> set (owned_keys owner ?g2) - edge_key ` set es)) (mg_edges g5)\<rparr>"
  have "graph_ok ?g3" using assms(2) by (simp add: upsert_nodes_ok adopt_edges_ok delete_stubs_ok)
  with 1(2,3) have "mg_nodes g5 = mg_nodes ?g3" using set_version_ok [of ?g3 owner g4] insert_stubs_ok [of g4 unreal g5] by simp
  moreover have "mg_edges g5 = mg_edges ?g3" using set_version_edges [OF 1(2)] insert_stubs_edges [OF 1(3)] by simp
  ultimately have "adds_only ?N ?E ?g3 ?g6" by (intro adds_only_edges) (auto simp: edge_kinds_def)
  moreover have "adds_only ?N ?E g ?g3"
    by (intro adds_only_trans [OF _ upsert_nodes_adds] adds_only_trans [OF _ adopt_edges_adds] delete_adds(3)) simp
  moreover have "adds_only ?N ?E ?g6 g7" by (rule upsert_edges_adds [OF 1(4)]) simp
  ultimately have "adds_only ?N ?E g g7" by (blast intro: adds_only_trans)
  then show ?thesis unfolding 1(5) delete_orphan_artifact_stubs_def
    by (intro adds_only_trans [OF _ delete_adds(1)] adds_only_trans [OF _ adds_only_fold])
      (auto simp: drop_stale_node_def intro: promote_stub_adds delete_adds(1))
qed

section \<open>The convention evidence relies on\<close>

definition seam_node :: "string \<times> node_type \<Rightarrow> bool" where
  "seam_node k \<longleftrightarrow> (snd k = NodeExecution \<longrightarrow> starts_with (fst k) ''execution:'') \<and> (snd k = NodeIntent \<longrightarrow> starts_with (fst k) ''intent:'')"

definition seam_edge :: "string \<times> relation_type \<Rightarrow> bool" where
  "seam_edge k \<longleftrightarrow> (snd k \<in> {RelModified, RelFailedOn} \<longrightarrow> starts_with (fst k) ''execution:'') \<and>
     (snd k = RelRefactored \<longrightarrow> starts_with (fst k) ''intent:'')"

definition seam_ok :: "mem_graph \<Rightarrow> bool" where
  "seam_ok g \<longleftrightarrow> (\<forall>k \<in> node_kinds (mg_nodes g). seam_node k) \<and> (\<forall>k \<in> edge_kinds (mg_edges g). seam_edge k)"

definition structural_facts :: "mem_node list \<Rightarrow> mem_edge list \<Rightarrow> bool" where
  "structural_facts ns es \<longleftrightarrow> list_all (\<lambda>n. n_type n \<in> {NodeArtifact, NodeSymbol, NodePackage}) ns \<and>
     list_all (\<lambda>e. edge_ok e \<and> ed_relation e \<in> {RelContains, RelCalls, RelImports, RelExtends, RelImplements, RelDependsOn}) es"

lemma adds_seam:
  assumes "adds_only N E g g'" "seam_ok g" "\<forall>k \<in> N. seam_node k" "\<forall>k \<in> E. seam_edge k"
  shows "seam_ok g'"
  using assms unfolding adds_only_def seam_ok_def by blast

locale seam_operation = graph_operation +
  assumes keeps_seam: "pre \<Longrightarrow> graph_ok g \<Longrightarrow> seam_ok g \<Longrightarrow> run g = Inr (r, g') \<Longrightarrow> seam_ok g'"
begin

lemma keeps_both: "pre \<Longrightarrow> graph_ok g \<and> seam_ok g \<Longrightarrow> run g = Inr (r, g') \<Longrightarrow> graph_ok g' \<and> seam_ok g'"
  using keeps_ok keeps_seam by blast

end

lemma write_observation_seam:
  assumes "seam_ok g" "write_observation ob g = Inr g'"
  shows "seam_ok g'"
proof -
  from write_observation_adds [OF assms(2)] obtain a
    where "adds_only {(''agent:'' @ a, NodeAgent)} {(''agent:'' @ a, RelObserved)} g g'" by blast
  then show ?thesis by (rule adds_seam [OF _ assms(1)]) (simp_all add: seam_node_def seam_edge_def)
qed

lemma upsert_facts_seam:
  assumes "seam_ok g" "upsert_facts ns es ob g = Inr (r, g')" "\<forall>n \<in> set ns. seam_node (n_id n, n_type n)" "\<forall>e \<in> set es. seam_edge (ed_source_id e, ed_relation e)"
  shows "seam_ok g'"
proof -
  obtain k g2 where g2: "upsert_edges None es (snd (upsert_nodes ns g)) = Inr (k, g2)"
    and g': "(case ob of None \<Rightarrow> Inr g2 | Some ob \<Rightarrow> write_observation ob g2) = Inr g'"
    using assms(2) by (auto simp: upsert_facts_def Let_def and_then_Inr split: prod.splits)
  have "adds_only (node_kinds ns) (edge_kinds es) g g2"
    by (rule adds_only_trans [OF upsert_nodes_adds upsert_edges_adds [OF g2]]) simp_all
  then have "seam_ok g2" by (rule adds_seam [OF _ assms(1)]) (use assms(3,4) in \<open>auto simp: node_kinds_def edge_kinds_def\<close>)
  with g' show ?thesis by (cases ob) (auto intro: write_observation_seam)
qed

lemma edge_new_fields [simp]:
  "ed_source_id (edge_new a b r t) = a" "ed_relation (edge_new a b r t) = r" "edge_ok (edge_new a b r t)"
  by (simp_all add: edge_new_def edge_ok_def)

lemma node_fields [simp]:
  "n_id (node_new i ty l t) = i" "n_type (node_new i ty l t) = ty" "n_id (with_content c n) = n_id n" "n_type (with_content c n) = n_type n"
  "n_type (artifact_node p t) = NodeArtifact"
  by (simp_all add: node_new_def with_content_def artifact_node_def)

lemma starts_with_append [simp]: "starts_with (p @ s) p"
  by (simp add: starts_with_def)

lemma starts_with_execution [simp]: "starts_with (CHR ''e'' # CHR ''x'' # CHR ''e'' # CHR ''c'' # CHR ''u'' # CHR ''t'' # CHR ''i'' # CHR ''o'' # CHR ''n'' # CHR '':'' # s) ''execution:''"
  by (simp add: starts_with_def)

lemma starts_with_intent [simp]: "starts_with (CHR ''i'' # CHR ''n'' # CHR ''t'' # CHR ''e'' # CHR ''n'' # CHR ''t'' # CHR '':'' # s) ''intent:''"
  by (simp add: starts_with_def)

lemma consolidation_relation_not: "consolidation_relation s \<noteq> RelModified \<and> consolidation_relation s \<noteq> RelFailedOn"
  by (auto simp: consolidation_relation_def split: option.splits relation_type.splits)

text \<open>The sensors, each on the ids and relations it builds.\<close>

lemma execution_facts_seam:
  "execution_facts se r now roots = (ns, es) \<Longrightarrow>
     (\<forall>n \<in> set ns. seam_node (n_id n, n_type n)) \<and> (\<forall>e \<in> set es. seam_edge (ed_source_id e, ed_relation e)) \<and> list_all edge_ok es"
  by (auto simp: execution_facts_def execution_id_def Let_def seam_node_def seam_edge_def list_all_iff)

lemma commit_facts_seam:
  "commit_facts r (''intent:'' @ key) now roots = (ns, es) \<Longrightarrow>
     (\<forall>n \<in> set ns. seam_node (n_id n, n_type n)) \<and> (\<forall>e \<in> set es. seam_edge (ed_source_id e, ed_relation e)) \<and> list_all edge_ok es"
  by (auto simp: commit_facts_def intent_node_def Let_def seam_node_def seam_edge_def list_all_iff)

lemma facts_from_summary_seam:
  "facts_from_summary se su k now = Inr (i, ns, es) \<Longrightarrow>
     (\<forall>n \<in> set ns. seam_node (n_id n, n_type n)) \<and> (\<forall>e \<in> set es. seam_edge (ed_source_id e, ed_relation e)) \<and> list_all edge_ok es"
  using consolidation_relation_not
  by (auto simp: facts_from_summary_def Let_def seam_node_def seam_edge_def list_all_iff split: if_splits)

interpretation executions: seam_operation "ingest_execution se r now roots agent" True for se r now roots agent
proof unfold_locales
  fix g out g'
  assume run: "ingest_execution se r now roots agent g = Inr (out, g')" and ok: "graph_ok g"
  obtain ns es where facts: "execution_facts se r now roots = (ns, es)" by fastforce
  then obtain created ob where up: "upsert_facts ns es ob g = Inr (created, g')"
    using run by (auto simp: ingest_execution_def Let_def and_then_Inr)
  show "graph_ok g'" by (rule upsert_facts_ok [OF _ ok up]) (use execution_facts_seam [OF facts] in simp)
  show "seam_ok g \<Longrightarrow> seam_ok g'" by (rule upsert_facts_seam [OF _ up]) (use execution_facts_seam [OF facts] in simp_all)
qed

interpretation commits: seam_operation "ingest_commit se r now roots exists" True for se r now roots exists
proof unfold_locales
  fix g out g'
  assume run: "ingest_commit se r now roots exists g = Inr (out, g')" and ok: "graph_ok g"
  obtain key where key: "commit_key se r exists = Inr key" using run by (auto simp: ingest_commit_def and_then_Inr)
  obtain ns es where facts: "commit_facts r (''intent:'' @ key) now roots = (ns, es)" by fastforce
  then obtain created where up: "upsert_facts ns es None g = Inr (created, g')"
    using run by (auto simp: ingest_commit_def key Let_def and_then_Inr)
  show "graph_ok g'" by (rule upsert_facts_ok [OF _ ok up]) (use commit_facts_seam [OF facts] in simp)
  show "seam_ok g \<Longrightarrow> seam_ok g'" by (rule upsert_facts_seam [OF _ up]) (use commit_facts_seam [OF facts] in simp_all)
qed

interpretation summaries: seam_operation "store_summary se su k now" True for se su k now
proof unfold_locales
  fix g out g'
  assume run: "store_summary se su k now g = Inr (out, g')" and ok: "graph_ok g"
  then obtain i created ns es where facts: "facts_from_summary se su k now = Inr (i, ns, es)"
    and up: "upsert_facts ns es None g = Inr (created, g')"
    by (auto simp: store_summary_def and_then_Inr)
  show "graph_ok g'" by (rule upsert_facts_ok [OF _ ok up]) (use facts_from_summary_seam [OF facts] in simp)
  show "seam_ok g \<Longrightarrow> seam_ok g'" by (rule upsert_facts_seam [OF _ up]) (use facts_from_summary_seam [OF facts] in simp_all)
qed

interpretation invocations: seam_operation "ingest_tool_invocation se r" True for se r
proof unfold_locales
  fix g out g'
  assume run: "ingest_tool_invocation se r g = Inr (out, g')" and ok: "graph_ok g"
  then obtain created where up: "upsert_facts [tool_invocation_node se r] [] None g = Inr (created, g')"
    by (auto simp: ingest_tool_invocation_def Let_def and_then_Inr)
  show "graph_ok g'" by (rule upsert_facts_ok [OF _ ok up]) simp
  show "seam_ok g \<Longrightarrow> seam_ok g'"
    by (rule upsert_facts_seam [OF _ up]) (simp_all add: tool_invocation_node_def seam_node_def)
qed

lemma link_decision_keeps:
  assumes "link_decision i now acc target = Inr acc'"
  shows "graph_ok (snd acc) \<Longrightarrow> graph_ok (snd acc')" and "seam_ok (snd acc) \<Longrightarrow> seam_ok (snd acc')"
proof -
  consider "acc' = acc" | c where "upsert_edge_on (edge_new i target RelRelatesTo now) None (snd acc) = Inr (c, snd acc')"
    using assms by (auto simp: link_decision_def and_then_Inr split: prod.splits if_splits)
  then have both: "(graph_ok (snd acc) \<longrightarrow> graph_ok (snd acc')) \<and> (seam_ok (snd acc) \<longrightarrow> seam_ok (snd acc'))"
  proof cases
    case (2 c)
    have "adds_only {} {(i, RelRelatesTo)} (snd acc) (snd acc')" by (rule upsert_edge_adds [OF 2]) simp
    then have "seam_ok (snd acc) \<longrightarrow> seam_ok (snd acc')" by (auto intro: adds_seam simp: seam_edge_def)
    then show ?thesis using upsert_edge_ok [OF _ _ 2] by simp
  qed simp
  show "graph_ok (snd acc) \<Longrightarrow> graph_ok (snd acc')" "seam_ok (snd acc) \<Longrightarrow> seam_ok (snd acc')" using both by auto
qed

interpretation decisions: seam_operation "record_memory_decision se decision related now" True for se decision related now
proof unfold_locales
  fix g out g'
  assume run: "record_memory_decision se decision related now g = Inr (out, g')" and ok: "graph_ok g"
  let ?n = "with_content decision (node_new (''intent:'' @ short_hash se decision) NodeIntent (clamp decision 80) now)"
  obtain k where fold: "try_fold (link_decision (''intent:'' @ short_hash se decision) now) (0, snd (upsert_node_on ?n g)) related = Inr (k, g')"
    using run by (auto simp: record_memory_decision_def Let_def and_then_Inr split: prod.splits)
  have "seam_ok (snd (upsert_node_on ?n g))" if "seam_ok g"
    by (rule adds_seam [OF upsert_node_adds [where N = "{(n_id ?n, NodeIntent)}" and E = "{}"] that]) (simp_all add: seam_node_def)
  then show "seam_ok g \<Longrightarrow> seam_ok g'"
    using try_fold_invariant [of "\<lambda>acc. seam_ok (snd acc)", OF link_decision_keeps(2) _ fold] by auto
  show "graph_ok g'"
    using try_fold_invariant [of "\<lambda>acc. graph_ok (snd acc)", OF link_decision_keeps(1) _ fold] upsert_node_ok [OF ok] by auto
qed

interpretation observations: seam_operation "graph_observe ob" True for ob
  by unfold_locales (auto simp: graph_observe_def and_then_Inr intro: write_observation_seam)

interpretation extractions: seam_operation "replace_structure owner ns es stubs" "structural_facts ns es \<and> starts_with owner ''artifact:''" for owner ns es stubs
proof unfold_locales
  fix g r g'
  assume pre: "structural_facts ns es \<and> starts_with owner ''artifact:''" and ok: "graph_ok g"
    and run: "replace_structure owner ns es stubs g = Inr (r, g')"
  show "graph_ok g'" using pre by (intro replace_structure_ok [OF _ ok run]) (auto simp: structural_facts_def list_all_iff)
  show "seam_ok g \<Longrightarrow> seam_ok g'"
    by (rule adds_seam [OF replace_structure_adds [OF run ok]])
      (use pre in \<open>fastforce simp: structural_facts_def list_all_iff node_kinds_def edge_kinds_def seam_node_def seam_edge_def\<close>)+
qed

text \<open>A path that is still absolute is dropped from an execution and kept in a commit.\<close>

lemma commit_keeps_absolute_path:
  "changed_paths \<lparr>co_sha = None, co_message = [], co_changed_files = [''/x/a.rs''], co_timestamp = 0\<rparr> [] = [''/x/a.rs''] \<and>
   modified_paths \<lparr>er_command = [], er_exit_code = 0, er_output = [], er_cwd = None, er_changed_files = [''/x/a.rs''], er_timestamp = 0\<rparr> [] = []"
  by code_simp

section \<open>Histories of the memory plane\<close>

text \<open>The writers an agent or an editor reaches, with the structural extractors bound to the relations and node types they emit.\<close>

inductive memory_step :: "mem_graph \<Rightarrow> mem_graph \<Rightarrow> bool" where
  mem_execution: "ingest_execution se r now roots agent g = Inr (out, g') \<Longrightarrow> memory_step g g'"
| mem_commit: "ingest_commit se c now roots exists g = Inr (out, g') \<Longrightarrow> memory_step g g'"
| mem_invocation: "ingest_tool_invocation se t g = Inr (out, g') \<Longrightarrow> memory_step g g'"
| mem_summary: "store_summary se su k now g = Inr (out, g') \<Longrightarrow> memory_step g g'"
| mem_decision: "record_memory_decision se decision related now g = Inr (out, g') \<Longrightarrow> memory_step g g'"
| mem_observe: "graph_observe ob g = Inr (u, g') \<Longrightarrow> memory_step g g'"
| mem_structure: "structural_facts ns es \<Longrightarrow> starts_with owner ''artifact:'' \<Longrightarrow>
     replace_structure owner ns es stubs g = Inr (created, g') \<Longrightarrow> memory_step g g'"
| mem_forget: "forget_artifact a g = (removed, g') \<Longrightarrow> memory_step g g'"
| mem_boost: "boost i now g = (found, g') \<Longrightarrow> memory_step g g'"
| mem_acquire: "try_acquire_consolidation_lease owner now secs interval g = (won, g') \<Longrightarrow> memory_step g g'"
| mem_release: "release_consolidation_lease owner now g = (freed, g') \<Longrightarrow> memory_step g g'"

inductive memory_reachable :: "mem_graph \<Rightarrow> bool" where
  memory_start: "memory_reachable empty_graph"
| memory_next: "memory_reachable g \<Longrightarrow> memory_step g g' \<Longrightarrow> memory_reachable g'"

lemma forget_adds: "graph_ok g \<Longrightarrow> adds_only {} {} g (snd (forget_artifact a g))"
  using forget_artifact_without [of g a] by (auto simp: without_def adds_only_def node_kinds_def edge_kinds_def)

lemma boost_adds: "adds_only {} {} g (snd (boost i now g))"
  by (auto simp: boost_def adds_only_def node_kinds_def image_iff)

lemma lease_adds: "adds_only {} {} g (snd (try_acquire_consolidation_lease owner now secs interval g))"
  "adds_only {} {} g (snd (release_consolidation_lease owner now g))"
  by (auto simp: try_acquire_consolidation_lease_def release_consolidation_lease_def Let_def adds_only_def split: option.splits)

lemma memory_step_keeps: "memory_step g g' \<Longrightarrow> graph_ok g \<and> seam_ok g \<Longrightarrow> graph_ok g' \<and> seam_ok g'"
proof (induction rule: memory_step.induct)
  case (mem_execution se r now roots agent g out g')
  show ?case by (rule executions.keeps_both [OF TrueI mem_execution(2,1)])
next
  case (mem_commit se c now roots exists g out g')
  show ?case by (rule commits.keeps_both [OF TrueI mem_commit(2,1)])
next
  case (mem_invocation se t g out g')
  show ?case by (rule invocations.keeps_both [OF TrueI mem_invocation(2,1)])
next
  case (mem_summary se su k now g out g')
  show ?case by (rule summaries.keeps_both [OF TrueI mem_summary(2,1)])
next
  case (mem_decision se decision related now g out g')
  show ?case by (rule decisions.keeps_both [OF TrueI mem_decision(2,1)])
next
  case (mem_observe ob g u g')
  show ?case by (rule observations.keeps_both [OF TrueI mem_observe(2,1)])
next
  case (mem_structure ns es owner stubs g created g')
  show ?case by (rule extractions.keeps_both [OF conjI [OF mem_structure(1,2)] mem_structure(4,3)])
next
  case (mem_forget a g removed g')
  then show ?case using graph_step_ok [OF step_forget] forget_adds [of g a] by (auto intro: adds_seam)
next
  case (mem_boost i now g found g')
  then show ?case using graph_step_ok [OF step_boost] boost_adds [of g i now] by (auto intro: adds_seam)
next
  case (mem_acquire owner now secs interval g won g')
  then show ?case using graph_step_ok [OF step_acquire] lease_adds(1) [of g owner now secs interval] by (auto intro: adds_seam)
next
  case (mem_release owner now g freed g')
  then show ?case using graph_step_ok [OF step_release] lease_adds(2) [of g owner now] by (auto intro: adds_seam)
qed

lemma memory_reachable_keeps: "memory_reachable g \<Longrightarrow> graph_ok g \<and> seam_ok g"
proof (induction rule: memory_reachable.induct)
  case memory_start
  show ?case using empty_ok by (simp add: seam_ok_def empty_graph_def node_kinds_def edge_kinds_def)
qed (rule memory_step_keeps)

end
