(* ===== verification/Memory_Evidence.thy ===== *)
theory Memory_Evidence
  imports Memory_Ingest Conformance_Engine
begin

text \<open>
  \<^verbatim>\<open>graph/evidence.rs\<close>: the bundle of evidence the memory plane builds for a task, which crosses to the Intent
  plane as JSON and is judged there (\<open>Conformance_Engine\<close>). The field \<^verbatim>\<open>ledger_act_ids\<close> is not among those the
  memory plane sends, and reads as the empty list. The bundle of a graph the sensors built is proved to pass
  the shape check of the Intent plane while its provenance stays below its bound, and to be refused once an execution is past it.
\<close>

section \<open>Building a bundle\<close>

definition EVIDENCE_SCHEMA_VERSION :: nat where
  "EVIDENCE_SCHEMA_VERSION = 1"

definition EVIDENCE_MAX_EVENTS :: nat where
  "EVIDENCE_MAX_EVENTS = 200"

definition EVIDENCE_MAX_PROVENANCE :: nat where
  "EVIDENCE_MAX_PROVENANCE = 1000"

definition attributed_events :: "string \<Rightarrow> mem_graph \<Rightarrow> mem_node list" where
  "attributed_events agent_node_id g = concat (map (\<lambda>ob. filter (\<lambda>n. n_id n = ed_target_id ob \<and> n_type n \<in> {NodeExecution, NodeIntent}) (mg_nodes g))
     (filter (\<lambda>e. ed_source_id e = agent_node_id \<and> ed_relation e = RelObserved) (mg_edges g)))"

definition window_events :: "string \<Rightarrow> int \<Rightarrow> int \<Rightarrow> mem_graph \<Rightarrow> mem_node list" where
  "window_events agent_node_id started_at ended_at g = take EVIDENCE_MAX_EVENTS (sort_key n_created_at (sort_key n_id
     (filter (\<lambda>n. started_at \<le> n_created_at n \<and> n_created_at n \<le> ended_at) (attributed_events agent_node_id g))))"

definition event_facts :: "mem_graph \<Rightarrow> string \<Rightarrow> edge_row list" where
  "event_facts g event_id = sort_key (\<lambda>e. relation_as_str (ed_relation e)) (sort_key ed_target_id
     (filter (\<lambda>e. ed_source_id e = event_id \<and> ed_relation e \<in> {RelModified, RelFailedOn, RelRefactored}) (mg_edges g)))"

record evidence_parts =
  bu_changed :: "string list"
  bu_failed :: "string list"
  bu_executions :: "string list"
  bu_successful :: "string list"
  bu_commits :: "string list"
  bu_provenance :: "evidence_provenance list"

definition no_parts :: evidence_parts where
  "no_parts = \<lparr>bu_changed = [], bu_failed = [], bu_executions = [], bu_successful = [], bu_commits = [], bu_provenance = []\<rparr>"

definition provenance_of :: "string \<Rightarrow> edge_row \<Rightarrow> evidence_provenance" where
  "provenance_of event_id e = \<lparr>ep_source_id = event_id, ep_target_id = ed_target_id e, ep_relation = relation_as_str (ed_relation e)\<rparr>"

definition note_target :: "edge_row \<Rightarrow> evidence_parts \<Rightarrow> evidence_parts" where
  "note_target e b =
     (if ed_relation e \<in> {RelModified, RelRefactored}
      then (if ed_target_id e \<in> set (bu_changed b) then b else b\<lparr>bu_changed := bu_changed b @ [ed_target_id e]\<rparr>)
      else if ed_relation e = RelFailedOn \<and> ed_target_id e \<notin> set (bu_failed b) then b\<lparr>bu_failed := bu_failed b @ [ed_target_id e]\<rparr>
      else b)"

fun add_facts :: "string \<Rightarrow> bool \<times> evidence_parts \<Rightarrow> edge_row list \<Rightarrow> bool \<times> evidence_parts" where
  "add_facts event_id (is_commit, b) [] = (is_commit, b)"
| "add_facts event_id (is_commit, b) (e # es) =
     (if EVIDENCE_MAX_PROVENANCE \<le> length (bu_provenance b) then (is_commit, b)
      else add_facts event_id (is_commit \<or> ed_relation e = RelRefactored,
             (note_target e b)\<lparr>bu_provenance := bu_provenance b @ [provenance_of event_id e]\<rparr>) es)"

definition succeeded :: "mem_node \<Rightarrow> bool" where
  "succeeded n \<longleftrightarrow> (case n_content n of Some c \<Rightarrow> (case lines c of l # _ \<Rightarrow> l = ''exit=0'' | [] \<Rightarrow> False) | None \<Rightarrow> False)"

definition open_event :: "string \<Rightarrow> evidence_parts \<Rightarrow> mem_node \<Rightarrow> evidence_parts" where
  "open_event agent_node_id b n = (
     let b1 = (if length (bu_provenance b) < EVIDENCE_MAX_PROVENANCE
               then b\<lparr>bu_provenance := bu_provenance b @ [\<lparr>ep_source_id = agent_node_id, ep_target_id = n_id n, ep_relation = relation_as_str RelObserved\<rparr>]\<rparr>
               else b)
     in if n_type n = NodeExecution
        then b1\<lparr>bu_executions := bu_executions b1 @ [n_id n], bu_successful := bu_successful b1 @ (if succeeded n then [n_id n] else [])\<rparr> else b1)"

definition add_event :: "mem_graph \<Rightarrow> string \<Rightarrow> evidence_parts \<Rightarrow> mem_node \<Rightarrow> evidence_parts" where
  "add_event g agent_node_id b n = (
     let (is_commit, b1) = add_facts (n_id n) (False, open_event agent_node_id b n) (event_facts g (n_id n))
     in if n_type n = NodeIntent \<and> is_commit then b1\<lparr>bu_commits := bu_commits b1 @ [n_id n]\<rparr> else b1)"

definition evidence_summary :: "string \<Rightarrow> evidence_parts \<Rightarrow> string" where
  "evidence_summary agent b = ''agent='' @ agent @ ''; executions='' @ show_nat (length (bu_executions b)) @
     ''; successful='' @ show_nat (length (bu_successful b)) @ ''; commits='' @ show_nat (length (bu_commits b)) @
     ''; changed='' @ show_nat (length (bu_changed b)) @ ''; failed='' @ show_nat (length (bu_failed b))"

definition evidence_for :: "string option \<Rightarrow> string \<Rightarrow> int \<Rightarrow> int \<Rightarrow> mem_graph \<Rightarrow> mind_error + conformance_evidence" where
  "evidence_for task_id raw_agent started_at ended_at g =
     (if ended_at < started_at then Inl (MindOther ''evidence start must not be after its end'')
      else let agent = agent_name raw_agent in
        if agent = [] then Inl (MindOther ''evidence agent must not be empty'')
        else let agent_node_id = ''agent:'' @ agent;
                 b = foldl (add_event g agent_node_id) no_parts (window_events agent_node_id started_at ended_at g)
          in Inr \<lparr>ev_schema_version = EVIDENCE_SCHEMA_VERSION, ev_task_id = task_id, ev_agent_id = agent,
               ev_started_at = started_at, ev_ended_at = ended_at, ev_changed_node_ids = bu_changed b, ev_failed_node_ids = bu_failed b,
               ev_execution_ids = bu_executions b, ev_successful_execution_ids = bu_successful b, ev_commit_ids = bu_commits b,
               ev_ledger_act_ids = [], ev_summary = evidence_summary agent b, ev_provenance = bu_provenance b\<rparr>)"

definition latest_attributed_event_at :: "string \<Rightarrow> mem_graph \<Rightarrow> int option" where
  "latest_attributed_event_at raw_agent g = (let agent = agent_name raw_agent in
     if agent = [] then None
     else case map n_created_at (attributed_events (''agent:'' @ agent) g) of [] \<Rightarrow> None | t # ts \<Rightarrow> Some (foldl max t ts))"

section \<open>One event\<close>

lemma note_target_fields [simp]:
  "bu_executions (note_target e b) = bu_executions b" "bu_successful (note_target e b) = bu_successful b"
  "bu_commits (note_target e b) = bu_commits b" "bu_provenance (note_target e b) = bu_provenance b"
  "set (bu_changed (note_target e b)) = set (bu_changed b) \<union> (if ed_relation e \<in> {RelModified, RelRefactored} then {ed_target_id e} else {})"
  "set (bu_failed (note_target e b)) = set (bu_failed b) \<union> (if ed_relation e = RelFailedOn then {ed_target_id e} else {})"
  by (auto simp: note_target_def)

lemma note_target_count: "length (bu_changed (note_target e b)) + length (bu_failed (note_target e b)) \<le> Suc (length (bu_changed b) + length (bu_failed b))"
  by (simp add: note_target_def)

text \<open>The facts of an event that found room: a prefix of its facts, each with its provenance and its effect.\<close>

definition took :: "string \<Rightarrow> edge_row list \<Rightarrow> bool \<times> evidence_parts \<Rightarrow> bool \<times> evidence_parts \<Rightarrow> bool" where
  "took i used x y \<longleftrightarrow>
     bu_provenance (snd y) = bu_provenance (snd x) @ map (provenance_of i) used \<and>
     bu_executions (snd y) = bu_executions (snd x) \<and> bu_successful (snd y) = bu_successful (snd x) \<and> bu_commits (snd y) = bu_commits (snd x) \<and>
     set (bu_changed (snd y)) = set (bu_changed (snd x)) \<union> ed_target_id ` {e \<in> set used. ed_relation e \<in> {RelModified, RelRefactored}} \<and>
     set (bu_failed (snd y)) = set (bu_failed (snd x)) \<union> ed_target_id ` {e \<in> set used. ed_relation e = RelFailedOn} \<and>
     (fst y \<longleftrightarrow> fst x \<or> (\<exists>e \<in> set used. ed_relation e = RelRefactored)) \<and>
     length (bu_changed (snd y)) + length (bu_failed (snd y)) \<le> length (bu_changed (snd x)) + length (bu_failed (snd x)) + length used"

lemma add_facts_took:
  assumes "length (bu_provenance b) \<le> EVIDENCE_MAX_PROVENANCE"
  shows "\<exists>used. set used \<subseteq> set es \<and> length (bu_provenance b) + length used \<le> EVIDENCE_MAX_PROVENANCE \<and> took i used (c, b) (add_facts i (c, b) es)"
  using assms
proof (induction es arbitrary: c b)
  case (Cons e es)
  show ?case
  proof (cases "EVIDENCE_MAX_PROVENANCE \<le> length (bu_provenance b)")
    case True
    with Cons.prems show ?thesis by (intro exI [of _ "[]"]) (simp add: took_def)
  next
    case False
    let ?b = "(note_target e b)\<lparr>bu_provenance := bu_provenance b @ [provenance_of i e]\<rparr>" and ?c = "c \<or> ed_relation e = RelRefactored"
    obtain used where used: "set used \<subseteq> set es" "length (bu_provenance ?b) + length used \<le> EVIDENCE_MAX_PROVENANCE"
      "took i used (?c, ?b) (add_facts i (?c, ?b) es)" using Cons.IH [of ?b ?c] False by auto
    have "took i (e # used) (c, b) (add_facts i (?c, ?b) es)"
      using used(3) note_target_count [of e b] by (auto simp: took_def)
    with used(1,2) False show ?thesis by (intro exI [of _ "e # used"]) auto
  qed
qed (simp add: took_def)

section \<open>What holds of a bundle\<close>

definition observed_in :: "string \<Rightarrow> evidence_provenance list \<Rightarrow> string \<Rightarrow> bool" where
  "observed_in a P i \<longleftrightarrow> (\<exists>f \<in> set P. ep_source_id f = a \<and> ep_target_id f = i \<and> ep_relation f = ''observed'')"

definition backed_in :: "string set \<Rightarrow> string set \<Rightarrow> evidence_provenance list \<Rightarrow> string \<Rightarrow> bool" where
  "backed_in R S P t \<longleftrightarrow> (\<exists>f \<in> set P. ep_target_id f = t \<and> ep_relation f \<in> R \<and> ep_source_id f \<in> S)"

definition parts_ok :: "string \<Rightarrow> nat \<Rightarrow> evidence_parts \<Rightarrow> bool" where
  "parts_ok a n b \<longleftrightarrow>
     length (bu_provenance b) \<le> EVIDENCE_MAX_PROVENANCE \<and> length (bu_executions b) + length (bu_commits b) \<le> n \<and>
     length (bu_changed b) + length (bu_failed b) \<le> length (bu_provenance b) \<and> length (bu_successful b) \<le> length (bu_executions b) \<and>
     set (bu_successful b) \<subseteq> set (bu_executions b) \<and>
     (\<forall>t \<in> set (bu_changed b). backed_in {''modified'', ''refactored''} (set (bu_executions b) \<union> set (bu_commits b)) (bu_provenance b) t) \<and>
     (\<forall>t \<in> set (bu_failed b). backed_in {''failed_on''} (set (bu_executions b)) (bu_provenance b) t) \<and>
     (\<forall>i \<in> set (bu_commits b). observed_in a (bu_provenance b) i) \<and>
     (length (bu_provenance b) < EVIDENCE_MAX_PROVENANCE \<longrightarrow> (\<forall>i \<in> set (bu_executions b). observed_in a (bu_provenance b) i))"

lemma backed_in_mono: "backed_in R S P t \<Longrightarrow> S \<subseteq> S' \<Longrightarrow> backed_in R S' (P @ Q) t"
  unfolding backed_in_def by auto

lemma observed_in_append [simp]: "observed_in a (P @ Q) i \<longleftrightarrow> observed_in a P i \<or> observed_in a Q i"
  unfolding observed_in_def by auto

lemma backed_in_used:
  assumes "t \<in> T \<union> ed_target_id ` {e \<in> set used. C e}" "\<And>t. t \<in> T \<Longrightarrow> backed_in R S P t" "S \<subseteq> S'"
    "\<And>e. e \<in> set used \<Longrightarrow> C e \<Longrightarrow> relation_as_str (ed_relation e) \<in> R \<and> i \<in> S'"
  shows "backed_in R S' (P @ Q @ map (provenance_of i) used) t"
proof (cases "t \<in> T")
  case True
  then show ?thesis by (intro backed_in_mono [OF assms(2) assms(3)])
next
  case False
  with assms(1) obtain e where e: "e \<in> set used" "C e" "t = ed_target_id e" by blast
  with assms(4) [OF e(1,2)] show ?thesis
    unfolding backed_in_def by (intro bexI [of _ "provenance_of i e"]) (auto simp: provenance_of_def)
qed

lemma open_event_fields:
  "bu_changed (open_event a b n) = bu_changed b" "bu_failed (open_event a b n) = bu_failed b" "bu_commits (open_event a b n) = bu_commits b"
  "bu_executions (open_event a b n) = bu_executions b @ (if n_type n = NodeExecution then [n_id n] else [])"
  "bu_successful (open_event a b n) = bu_successful b @ (if n_type n = NodeExecution \<and> succeeded n then [n_id n] else [])"
  "bu_provenance (open_event a b n) = bu_provenance b @ (if length (bu_provenance b) < EVIDENCE_MAX_PROVENANCE
     then [\<lparr>ep_source_id = a, ep_target_id = n_id n, ep_relation = ''observed''\<rparr>] else [])"
  by (simp_all add: open_event_def Let_def)

text \<open>An event in terms of the parts before it.\<close>

lemma add_event_used:
  assumes "length (bu_provenance b) \<le> EVIDENCE_MAX_PROVENANCE"
  obtains used where "set used \<subseteq> set (event_facts g (n_id n))"
    "bu_provenance (add_event g a b n) = bu_provenance (open_event a b n) @ map (provenance_of (n_id n)) used"
    "length (bu_provenance (add_event g a b n)) \<le> EVIDENCE_MAX_PROVENANCE"
    "bu_executions (add_event g a b n) = bu_executions (open_event a b n)" "bu_successful (add_event g a b n) = bu_successful (open_event a b n)"
    "bu_commits (add_event g a b n) =
       bu_commits b @ (if n_type n = NodeIntent \<and> (\<exists>e \<in> set used. ed_relation e = RelRefactored) then [n_id n] else [])"
    "set (bu_changed (add_event g a b n)) = set (bu_changed b) \<union> ed_target_id ` {e \<in> set used. ed_relation e \<in> {RelModified, RelRefactored}}"
    "set (bu_failed (add_event g a b n)) = set (bu_failed b) \<union> ed_target_id ` {e \<in> set used. ed_relation e = RelFailedOn}"
    "length (bu_changed (add_event g a b n)) + length (bu_failed (add_event g a b n)) \<le> length (bu_changed b) + length (bu_failed b) + length used"
proof -
  have room: "length (bu_provenance (open_event a b n)) \<le> EVIDENCE_MAX_PROVENANCE" using assms by (simp add: open_event_fields)
  from add_facts_took [OF this, of "event_facts g (n_id n)" "n_id n" False]
  obtain used where used: "set used \<subseteq> set (event_facts g (n_id n))" "length (bu_provenance (open_event a b n)) + length used \<le> EVIDENCE_MAX_PROVENANCE"
    and tk: "took (n_id n) used (False, open_event a b n) (add_facts (n_id n) (False, open_event a b n) (event_facts g (n_id n)))" by blast
  then show ?thesis
    by (intro that [of used]) (auto simp: took_def add_event_def Let_def open_event_fields split: prod.splits)
qed

lemma add_event_ok:
  assumes "parts_ok a k b" "n_type n = NodeIntent \<Longrightarrow> \<forall>e \<in> set (event_facts g (n_id n)). ed_relation e = RelRefactored"
    "n_type n \<in> {NodeExecution, NodeIntent}"
  shows "parts_ok a (Suc k) (add_event g a b n)"
proof -
  let ?b = "add_event g a b n"
  have b: "length (bu_provenance b) \<le> EVIDENCE_MAX_PROVENANCE" "length (bu_executions b) + length (bu_commits b) \<le> k"
    "length (bu_changed b) + length (bu_failed b) \<le> length (bu_provenance b)" "length (bu_successful b) \<le> length (bu_executions b)"
    "set (bu_successful b) \<subseteq> set (bu_executions b)"
    "\<And>t. t \<in> set (bu_changed b) \<Longrightarrow> backed_in {''modified'', ''refactored''} (set (bu_executions b) \<union> set (bu_commits b)) (bu_provenance b) t"
    "\<And>t. t \<in> set (bu_failed b) \<Longrightarrow> backed_in {''failed_on''} (set (bu_executions b)) (bu_provenance b) t"
    "\<And>i. i \<in> set (bu_commits b) \<Longrightarrow> observed_in a (bu_provenance b) i"
    "\<And>i. length (bu_provenance b) < EVIDENCE_MAX_PROVENANCE \<Longrightarrow> i \<in> set (bu_executions b) \<Longrightarrow> observed_in a (bu_provenance b) i"
    using assms(1) by (simp_all add: parts_ok_def)
  obtain used where used: "set used \<subseteq> set (event_facts g (n_id n))"
    and prov: "bu_provenance ?b = bu_provenance (open_event a b n) @ map (provenance_of (n_id n)) used"
    and rest: "length (bu_provenance ?b) \<le> EVIDENCE_MAX_PROVENANCE"
      "bu_executions ?b = bu_executions (open_event a b n)" "bu_successful ?b = bu_successful (open_event a b n)"
      "bu_commits ?b = bu_commits b @ (if n_type n = NodeIntent \<and> (\<exists>e \<in> set used. ed_relation e = RelRefactored) then [n_id n] else [])"
      "set (bu_changed ?b) = set (bu_changed b) \<union> ed_target_id ` {e \<in> set used. ed_relation e \<in> {RelModified, RelRefactored}}"
      "set (bu_failed ?b) = set (bu_failed b) \<union> ed_target_id ` {e \<in> set used. ed_relation e = RelFailedOn}"
      "length (bu_changed ?b) + length (bu_failed ?b) \<le> length (bu_changed b) + length (bu_failed b) + length used"
    by (rule add_event_used [OF b(1), of g n a])
  define Q where "Q = (if length (bu_provenance b) < EVIDENCE_MAX_PROVENANCE
      then [\<lparr>ep_source_id = a, ep_target_id = n_id n, ep_relation = ''observed''\<rparr>] else [])"
  have prov': "bu_provenance ?b = bu_provenance b @ Q @ map (provenance_of (n_id n)) used" by (simp add: prov open_event_fields Q_def)
  have intent: "ed_relation e = RelRefactored" if "n_type n = NodeIntent" "e \<in> set used" for e using assms(2) that used by blast
  have seen: "observed_in a (bu_provenance ?b) (n_id n)" if "length (bu_provenance b) < EVIDENCE_MAX_PROVENANCE"
    using that by (simp add: prov' Q_def) (simp add: observed_in_def)
  have full: "used = []" if "\<not> length (bu_provenance b) < EVIDENCE_MAX_PROVENANCE"
    using that b(1) rest(1) by (simp add: prov' Q_def)
  have "backed_in {''modified'', ''refactored''} (set (bu_executions ?b) \<union> set (bu_commits ?b)) (bu_provenance ?b) t" if "t \<in> set (bu_changed ?b)" for t
    unfolding prov' using that unfolding rest(5)
    by (rule backed_in_used [OF _ b(6)]) (use intent assms(3) in \<open>auto simp: rest open_event_fields\<close>)
  moreover have "backed_in {''failed_on''} (set (bu_executions ?b)) (bu_provenance ?b) t" if "t \<in> set (bu_failed ?b)" for t
    unfolding prov' using that unfolding rest(6)
    by (rule backed_in_used [OF _ b(7)]) (use intent assms(3) in \<open>auto simp: rest open_event_fields\<close>)
  moreover have "observed_in a (bu_provenance ?b) i" if "i \<in> set (bu_commits ?b)" for i
    using that b(8) [of i] seen full
    by (cases "length (bu_provenance b) < EVIDENCE_MAX_PROVENANCE") (auto simp: rest prov' split: if_splits)
  moreover have "observed_in a (bu_provenance ?b) i" if "i \<in> set (bu_executions ?b)" "length (bu_provenance ?b) < EVIDENCE_MAX_PROVENANCE" for i
    using that b(9) [of i] seen by (auto simp: rest prov' open_event_fields split: if_splits)
  moreover have "length (bu_changed ?b) + length (bu_failed ?b) \<le> length (bu_provenance ?b)"
    using b(3) rest(7) unfolding prov' by simp
  ultimately show ?thesis using b(2,4,5) rest(1) unfolding parts_ok_def by (auto simp: rest(2-4) open_event_fields)
qed

lemma window_events_in:
  "set (window_events a t1 t2 g) \<subseteq> {n \<in> set (mg_nodes g). n_type n \<in> {NodeExecution, NodeIntent} \<and> t1 \<le> n_created_at n \<and> n_created_at n \<le> t2 \<and>
     (\<exists>e \<in> set (mg_edges g). ed_source_id e = a \<and> ed_target_id e = n_id n \<and> ed_relation e = RelObserved)}"
  by (auto simp: window_events_def attributed_events_def dest!: in_set_takeD) blast+

lemma window_events_length: "length (window_events a t1 t2 g) \<le> EVIDENCE_MAX_EVENTS"
  by (simp add: window_events_def)

lemma intent_facts:
  assumes "seam_ok g" "n \<in> set (mg_nodes g)" "n_type n = NodeIntent" "e \<in> set (event_facts g (n_id n))"
  shows "ed_relation e = RelRefactored"
proof -
  have "starts_with (n_id n) ''intent:''" using assms(1-3) by (force simp: seam_ok_def node_kinds_def seam_node_def)
  then have "\<not> starts_with (n_id n) ''execution:''" by (auto simp: starts_with_def prefix_def)
  moreover have "e \<in> set (mg_edges g)" "ed_source_id e = n_id n" "ed_relation e \<in> {RelModified, RelFailedOn, RelRefactored}"
    using assms(4) by (simp_all add: event_facts_def)
  ultimately show ?thesis using assms(1) by (force simp: seam_ok_def edge_kinds_def seam_edge_def)
qed

lemma parts_fold:
  assumes "seam_ok g" "parts_ok a k b" "set ns \<subseteq> {n \<in> set (mg_nodes g). n_type n \<in> {NodeExecution, NodeIntent}}"
  shows "parts_ok a (k + length ns) (foldl (add_event g a) b ns)"
  using assms(2,3)
proof (induction ns arbitrary: k b)
  case (Cons n ns)
  have "parts_ok a (Suc k) (add_event g a b n)"
    using Cons.prems(2) by (intro add_event_ok [OF Cons.prems(1)]) (auto intro: intent_facts [OF assms(1)])
  from Cons.IH [OF this] Cons.prems(2) show ?case by simp
qed simp

lemma evidence_parts_ok:
  assumes "seam_ok g"
  shows "parts_ok a EVIDENCE_MAX_EVENTS (foldl (add_event g a) no_parts (window_events a t1 t2 g))"
proof -
  have "parts_ok a 0 no_parts" by (simp add: parts_ok_def no_parts_def)
  from parts_fold [OF assms this, of "window_events a t1 t2 g"] window_events_in [of a t1 t2 g]
  have "parts_ok a (length (window_events a t1 t2 g)) (foldl (add_event g a) no_parts (window_events a t1 t2 g))" by auto
  then show ?thesis using window_events_length [of a t1 t2 g] by (auto simp: parts_ok_def)
qed

lemma show_nat_length: "n < 10 ^ k \<Longrightarrow> 0 < k \<Longrightarrow> length (show_nat n) \<le> k"
proof (induction k arbitrary: n)
  case (Suc k)
  show ?case
  proof (cases "n < 10")
    case False
    with Suc.prems have "n div 10 < 10 ^ k" "0 < k" by (auto intro!: Nat.gr0I)
    with Suc.IH False show ?thesis by (simp add: show_nat.simps [of n])
  qed (simp add: show_nat.simps [of n])
qed simp

lemma evidence_summary_length:
  assumes "parts_ok a EVIDENCE_MAX_EVENTS b" "length agent \<le> 4000"
  shows "length (evidence_summary agent b) \<le> MAX_EVIDENCE_SUMMARY_BYTES"
proof -
  have "length (bu_executions b) < 10 ^ 3" "length (bu_successful b) < 10 ^ 3" "length (bu_commits b) < 10 ^ 3"
    "length (bu_changed b) < 10 ^ 4" "length (bu_failed b) < 10 ^ 4"
    using assms(1) by (simp_all add: parts_ok_def EVIDENCE_MAX_EVENTS_def EVIDENCE_MAX_PROVENANCE_def)
  from this [THEN show_nat_length] assms(2) show ?thesis by (simp add: evidence_summary_def MAX_EVIDENCE_SUMMARY_BYTES_def)
qed

text \<open>A name that is not empty after trimming and stripping is not blank.\<close>

lemma trim_last: "trim s \<noteq> [] \<Longrightarrow> \<not> is_whitespace (last (trim s))"
proof -
  assume ne: "trim s \<noteq> []"
  then have "last (trim s) = hd (dropWhile is_whitespace (rev (dropWhile is_whitespace s)))" by (simp add: trim_def last_rev)
  with ne show ?thesis using hd_dropWhile [of is_whitespace "rev (dropWhile is_whitespace s)"] by (simp add: trim_def)
qed

lemma agent_name_blank:
  assumes "agent_name s \<noteq> []"
  shows "\<not> blank (agent_name s)"
proof -
  obtain p where p: "trim s = p @ agent_name s"
    by (cases "strip_prefix ''agent:'' (trim s)") (simp_all add: agent_name_def strip_prefix_Some)
  then have "last (agent_name s) = last (trim s)" "trim s \<noteq> []" using assms by simp_all
  then show ?thesis using assms trim_last [of s] last_in_set [OF assms] by (auto simp: blank_iff)
qed

lemma find_None_all: "\<forall>x \<in> set xs. \<not> P x \<Longrightarrow> find P xs = None"
  by (auto simp: find_None_iff)

lemma evidence_for_Inr:
  assumes "evidence_for task_id raw t1 t2 g = Inr ev"
  defines "a \<equiv> ''agent:'' @ agent_name raw"
  defines "b \<equiv> foldl (add_event g a) no_parts (window_events a t1 t2 g)"
  shows "t1 \<le> t2" "agent_name raw \<noteq> []" "ev = \<lparr>ev_schema_version = 1, ev_task_id = task_id, ev_agent_id = agent_name raw,
     ev_started_at = t1, ev_ended_at = t2, ev_changed_node_ids = bu_changed b, ev_failed_node_ids = bu_failed b,
     ev_execution_ids = bu_executions b, ev_successful_execution_ids = bu_successful b, ev_commit_ids = bu_commits b,
     ev_ledger_act_ids = [], ev_summary = evidence_summary (agent_name raw) b, ev_provenance = bu_provenance b\<rparr>"
  using assms(1) by (auto simp: evidence_for_def Let_def EVIDENCE_SCHEMA_VERSION_def a_def b_def split: if_splits)

lemma evidence_accepted:
  assumes "seam_ok g" "evidence_for task_id raw t1 t2 g = Inr ev" "length (ev_provenance ev) < EVIDENCE_MAX_PROVENANCE" "length (ev_agent_id ev) \<le> 4000"
  shows "validate_evidence_shape ev = Inr ()"
proof -
  let ?a = "''agent:'' @ agent_name raw"
  let ?b = "foldl (add_event g ?a) no_parts (window_events ?a t1 t2 g)"
  note ev = evidence_for_Inr [OF assms(2)]
  have ok: "parts_ok ?a EVIDENCE_MAX_EVENTS ?b" by (rule evidence_parts_ok [OF assms(1)])
  have few: "length (bu_provenance ?b) < EVIDENCE_MAX_PROVENANCE" "length (agent_name raw) \<le> 4000" using assms(3,4) unfolding ev(3) by simp_all
  have summary: "length (evidence_summary (agent_name raw) ?b) \<le> MAX_EVIDENCE_SUMMARY_BYTES"
    by (rule evidence_summary_length [OF ok few(2)])
  have events: "find (\<lambda>e. \<not> observed_event ev e) (bu_executions ?b @ bu_commits ?b) = None"
    using ok few(1) by (intro find_None_all) (auto simp: parts_ok_def observed_event_def observed_in_def ev(3))
  have changed: "find (\<lambda>n. \<not> proven_change ev n) (bu_changed ?b) = None"
    using ok by (intro find_None_all) (force simp: parts_ok_def proven_change_def backed_in_def ev(3))
  have failed: "find (\<lambda>n. \<not> proven_failure ev n) (bu_failed ?b) = None"
    using ok by (intro find_None_all) (force simp: parts_ok_def proven_failure_def backed_in_def ev(3))
  have bounds: "length (bu_executions ?b) \<le> 200" "length (bu_commits ?b) \<le> 200" "length (bu_provenance ?b) \<le> 1000" "set (bu_successful ?b) \<subseteq> set (bu_executions ?b)"
    using ok by (simp_all add: parts_ok_def EVIDENCE_MAX_EVENTS_def EVIDENCE_MAX_PROVENANCE_def)
  show ?thesis using ev(1,2) agent_name_blank [OF ev(2)] summary events changed failed bounds
    by (simp add: validate_evidence_shape_def MAX_EVIDENCE_EVENTS_def MAX_EVIDENCE_PROVENANCE_def) (simp add: ev(3))
qed

section \<open>A bundle past its bound\<close>

lemma attributed_ids:
  assumes "graph_ok g"
  shows "distinct (map n_id (attributed_events a g))"
proof -
  let ?obs = "filter (\<lambda>e. ed_source_id e = a \<and> ed_relation e = RelObserved) (mg_edges g)"
  let ?F = "\<lambda>t. filter (\<lambda>n. n_id n = t \<and> n_type n \<in> {NodeExecution, NodeIntent}) (mg_nodes g)"
  have ids: "distinct (map n_id (mg_nodes g))" and keys: "distinct (map edge_key (mg_edges g))" using assms by (simp_all add: graph_ok_def)
  have "distinct (map edge_key ?obs)" using keys by (rule distinct_map_filter)
  then have "distinct (map ed_target_id ?obs)" by (auto simp: distinct_map edge_key_def inj_on_def)
  moreover have "distinct ts \<Longrightarrow> distinct (map n_id (concat (map ?F ts)))" for ts
  proof (induction ts)
    case (Cons t ts)
    have "distinct (map n_id (?F t))" using ids by (rule distinct_map_filter)
    with Cons show ?case by auto
  qed simp
  ultimately have "distinct (map n_id (concat (map ?F (map ed_target_id ?obs))))" by blast
  then show ?thesis by (simp add: attributed_events_def comp_def del: distinct_concat_iff)
qed

lemma window_ids: "graph_ok g \<Longrightarrow> distinct (map n_id (window_events a t1 t2 g))"
proof -
  assume "graph_ok g"
  let ?xs = "filter (\<lambda>n. t1 \<le> n_created_at n \<and> n_created_at n \<le> t2) (attributed_events a g)"
  have "distinct (map n_id ?xs)" using attributed_ids [OF \<open>graph_ok g\<close>] by (rule distinct_map_filter)
  then have "distinct (map n_id (sort_key n_created_at (sort_key n_id ?xs)))" by (simp add: distinct_map)
  then show ?thesis by (simp only: window_events_def take_map [symmetric] distinct_take)
qed

lemma add_event_observed:
  assumes "length (bu_provenance b) \<le> EVIDENCE_MAX_PROVENANCE" "observed_in a (bu_provenance (add_event g a b n)) i"
  shows "observed_in a (bu_provenance b) i \<or> i = n_id n \<and> length (bu_provenance b) < EVIDENCE_MAX_PROVENANCE"
proof -
  obtain used where used: "set used \<subseteq> set (event_facts g (n_id n))"
    "bu_provenance (add_event g a b n) = bu_provenance (open_event a b n) @ map (provenance_of (n_id n)) used"
    by (rule add_event_used [OF assms(1), of g n a])
  have "ed_relation e \<in> {RelModified, RelFailedOn, RelRefactored}" if "e \<in> set used" for e
    using that used(1) by (auto simp: event_facts_def)
  then have "\<not> observed_in a (map (provenance_of (n_id n)) used) i" by (fastforce simp: observed_in_def provenance_of_def)
  moreover have "observed_in a [\<lparr>ep_source_id = a, ep_target_id = n_id n, ep_relation = ''observed''\<rparr>] i \<longleftrightarrow> i = n_id n"
    "\<not> observed_in a [] i" by (auto simp: observed_in_def)
  ultimately show ?thesis using assms(2) unfolding used(2) open_event_fields observed_in_append by (auto split: if_splits)
qed

lemma events_grow:
  assumes "length (bu_provenance b) \<le> EVIDENCE_MAX_PROVENANCE"
  shows "length (bu_provenance b) \<le> length (bu_provenance (foldl (add_event g a) b ns)) \<and>
     length (bu_provenance (foldl (add_event g a) b ns)) \<le> EVIDENCE_MAX_PROVENANCE \<and>
     set (bu_executions b) \<subseteq> set (bu_executions (foldl (add_event g a) b ns))"
  using assms
proof (induction ns arbitrary: b)
  case (Cons n ns)
  obtain used where "bu_provenance (add_event g a b n) = bu_provenance (open_event a b n) @ map (provenance_of (n_id n)) used"
    "length (bu_provenance (add_event g a b n)) \<le> EVIDENCE_MAX_PROVENANCE" "bu_executions (add_event g a b n) = bu_executions (open_event a b n)"
    by (rule add_event_used [OF Cons.prems, of g n a])
  with Cons.IH [of "add_event g a b n"] show ?case by (force simp: open_event_fields)
qed simp

lemma events_observed:
  assumes "length (bu_provenance b) \<le> EVIDENCE_MAX_PROVENANCE" "observed_in a (bu_provenance (foldl (add_event g a) b ns)) i"
  shows "observed_in a (bu_provenance b) i \<or> i \<in> n_id ` set ns \<and> length (bu_provenance b) < EVIDENCE_MAX_PROVENANCE"
  using assms
proof (induction ns arbitrary: b)
  case (Cons n ns)
  have grow: "length (bu_provenance b) \<le> length (bu_provenance (add_event g a b n))" "length (bu_provenance (add_event g a b n)) \<le> EVIDENCE_MAX_PROVENANCE"
    using events_grow [OF Cons.prems(1), of g a "[n]"] by simp_all
  with Cons.IH [OF grow(2)] Cons.prems(2) add_event_observed [OF Cons.prems(1)] show ?case by fastforce
qed simp

lemma evidence_overflow:
  assumes ok: "graph_ok g" "seam_ok g" and ev: "evidence_for task_id raw t1 t2 g = Inr ev" and short: "length (agent_name raw) \<le> 4000"
    and split: "window_events (''agent:'' @ agent_name raw) t1 t2 g = before @ n # after" and "n_type n = NodeExecution"
    and full: "EVIDENCE_MAX_PROVENANCE \<le> length (bu_provenance (foldl (add_event g (''agent:'' @ agent_name raw)) no_parts before))"
  shows "\<exists>i. validate_evidence_shape ev = Inl (Invalid (Evidence (UnobservedEvent i)))"
proof -
  let ?a = "''agent:'' @ agent_name raw"
  let ?b1 = "foldl (add_event g ?a) no_parts before" and ?b = "foldl (add_event g ?a) no_parts (window_events ?a t1 t2 g)"
  note eq = evidence_for_Inr [OF ev]
  have b: "parts_ok ?a EVIDENCE_MAX_EVENTS ?b" by (rule evidence_parts_ok [OF ok(2)])
  have start: "length (bu_provenance no_parts) \<le> EVIDENCE_MAX_PROVENANCE" "\<not> observed_in a (bu_provenance no_parts) i" for a i
    by (simp_all add: no_parts_def observed_in_def)
  have b1: "length (bu_provenance ?b1) \<le> EVIDENCE_MAX_PROVENANCE" using events_grow [OF start(1)] by simp
  have whole: "?b = foldl (add_event g ?a) ?b1 (n # after)" unfolding split by simp
  have "n_id n \<notin> n_id ` set before" using window_ids [OF ok(1), of ?a t1 t2] unfolding split by auto
  then have "\<not> observed_in ?a (bu_provenance ?b1) (n_id n)" using events_observed [OF start(1)] start(2) by blast
  then have unseen: "\<not> observed_in ?a (bu_provenance ?b) (n_id n)" using events_observed [OF b1] full unfolding whole by fastforce
  have b2: "length (bu_provenance (add_event g ?a ?b1 n)) \<le> EVIDENCE_MAX_PROVENANCE" using events_grow [OF b1, of g ?a "[n]"] by simp
  have "n_id n \<in> set (bu_executions (add_event g ?a ?b1 n))"
    by (rule add_event_used [OF b1, of g n ?a]) (simp add: open_event_fields \<open>n_type n = NodeExecution\<close>)
  then have "n_id n \<in> set (bu_executions ?b)" using events_grow [OF b2, of g ?a after] unfolding whole by auto
  moreover have "\<not> observed_event ev (n_id n)" using unseen by (simp add: observed_event_def observed_in_def eq(3))
  ultimately obtain i where "find (\<lambda>e. \<not> observed_event ev e) (ev_execution_ids ev @ ev_commit_ids ev) = Some i"
    by (cases "find (\<lambda>e. \<not> observed_event ev e) (ev_execution_ids ev @ ev_commit_ids ev)") (auto simp: find_None_iff eq(3))
  moreover have "length (evidence_summary (agent_name raw) ?b) \<le> MAX_EVIDENCE_SUMMARY_BYTES" by (rule evidence_summary_length [OF b short])
  moreover have "length (bu_executions ?b) \<le> 200" "length (bu_commits ?b) \<le> 200" "length (bu_provenance ?b) \<le> 1000" "set (bu_successful ?b) \<subseteq> set (bu_executions ?b)"
    using b by (simp_all add: parts_ok_def EVIDENCE_MAX_EVENTS_def EVIDENCE_MAX_PROVENANCE_def)
  moreover note eq(1,2) agent_name_blank [OF eq(2)]
  ultimately have "validate_evidence_shape ev = Inl (Invalid (Evidence (UnobservedEvent i)))"
    by (simp add: validate_evidence_shape_def MAX_EVIDENCE_EVENTS_def MAX_EVIDENCE_PROVENANCE_def) (simp add: eq(3))
  then show ?thesis ..
qed

section \<open>Where the bundle comes from\<close>

text \<open>An event is attributed when the agent observed it in the window, and its type is the one asked for.\<close>

definition attributed :: "mem_graph \<Rightarrow> string \<Rightarrow> int \<Rightarrow> int \<Rightarrow> node_type \<Rightarrow> string \<Rightarrow> bool" where
  "attributed g a t1 t2 ty i \<longleftrightarrow> (\<exists>n \<in> set (mg_nodes g). n_id n = i \<and> n_type n = ty \<and> t1 \<le> n_created_at n \<and> n_created_at n \<le> t2 \<and>
     (\<exists>e \<in> set (mg_edges g). edge_key e = (a, i, RelObserved)))"

definition sourced :: "mem_graph \<Rightarrow> string \<Rightarrow> int \<Rightarrow> int \<Rightarrow> evidence_parts \<Rightarrow> bool" where
  "sourced g a t1 t2 b \<longleftrightarrow> (\<forall>i \<in> set (bu_executions b). attributed g a t1 t2 NodeExecution i) \<and>
     (\<forall>i \<in> set (bu_commits b). attributed g a t1 t2 NodeIntent i) \<and>
     (\<forall>t \<in> set (bu_changed b). \<exists>e \<in> set (mg_edges g). ed_target_id e = t \<and> ed_relation e \<in> {RelModified, RelRefactored}) \<and>
     (\<forall>t \<in> set (bu_failed b). \<exists>e \<in> set (mg_edges g). ed_target_id e = t \<and> ed_relation e = RelFailedOn)"

lemma add_event_sourced:
  assumes "length (bu_provenance b) \<le> EVIDENCE_MAX_PROVENANCE" "sourced g a t1 t2 b" "n \<in> set (window_events a t1 t2 g)"
  shows "sourced g a t1 t2 (add_event g a b n)"
proof -
  have n: "attributed g a t1 t2 (n_type n) (n_id n)" using assms(3) window_events_in [of a t1 t2 g] by (force simp: attributed_def edge_key_def)
  obtain used where used: "set used \<subseteq> set (event_facts g (n_id n))" "bu_executions (add_event g a b n) = bu_executions (open_event a b n)"
    "bu_commits (add_event g a b n) = bu_commits b @ (if n_type n = NodeIntent \<and> (\<exists>e \<in> set used. ed_relation e = RelRefactored) then [n_id n] else [])"
    "set (bu_changed (add_event g a b n)) = set (bu_changed b) \<union> ed_target_id ` {e \<in> set used. ed_relation e \<in> {RelModified, RelRefactored}}"
    "set (bu_failed (add_event g a b n)) = set (bu_failed b) \<union> ed_target_id ` {e \<in> set used. ed_relation e = RelFailedOn}"
    by (rule add_event_used [OF assms(1), of g n a])
  have "e \<in> set (mg_edges g)" if "e \<in> set used" for e using that used(1) by (auto simp: event_facts_def)
  with n assms(2) show ?thesis unfolding sourced_def used(2-) open_event_fields by (auto split: if_splits)
qed

lemma events_sourced:
  assumes "set ns \<subseteq> set (window_events a t1 t2 g)" "length (bu_provenance b) \<le> EVIDENCE_MAX_PROVENANCE" "sourced g a t1 t2 b"
  shows "sourced g a t1 t2 (foldl (add_event g a) b ns)"
  using assms
proof (induction ns arbitrary: b)
  case (Cons n ns)
  then show ?case using Cons.IH [of "add_event g a b n"] events_grow [OF Cons.prems(2), of g a "[n]"] add_event_sourced [OF Cons.prems(2,3), of n] by simp
qed simp

section \<open>A run\<close>

definition plain_sensors :: sensors where
  "plain_sensors = \<lparr>se_sha256_hex = (\<lambda>s. ''0123456789abcdef''), se_file_line_re = (\<lambda>_. []), se_python_traceback_re = (\<lambda>_. []),
     se_last_exit_code_re = (\<lambda>_. False)\<rparr>"

definition built :: execution_record where
  "built = \<lparr>er_command = ''make'', er_exit_code = 0, er_output = ''ok'', er_cwd = None, er_changed_files = [''a.rs''], er_timestamp = 5\<rparr>"

definition built_graph :: mem_graph where
  "built_graph = (let i = ''execution:0123456789ab'' in \<lparr>mg_nodes = [with_content (''exit=0'' @ newline # ''ok'') (node_new i NodeExecution ''make'' 5),
       artifact_node ''a.rs'' 6, node_new ''agent:w'' NodeAgent ''w'' 6],
     mg_edges = [fresh_edge (edge_new i ''artifact:a.rs'' RelModified 5) None,
       fresh_edge ((edge_new ''agent:w'' i RelObserved 6)\<lparr>ed_half_life_hours := 24\<rparr>) None],
     mg_versions = [], mg_stubs = [], mg_candidates = [], mg_lease = None\<rparr>)"

lemma built_parts: "modified_paths built [] = [''a.rs'']" "failed_paths plain_sensors built [] = []"
  "execution_id plain_sensors built = ''execution:0123456789ab''" "execution_content built = ''exit=0'' @ newline # ''ok''"
  "clamp (er_command built) 80 = ''make''" "er_timestamp built = 5"
  by code_simp+

lemma built_ingested: "ingest_execution plain_sensors built 6 [] (Some ''w'') empty_graph =
    Inr (\<lparr>wo_created = (2, 1), wo_node_ids = [''execution:0123456789ab''], wo_violation = None\<rparr>, built_graph)"
proof -
  have "trim ''w'' = ''w''" by code_simp
  then show ?thesis
  by (simp add: ingest_execution_def execution_facts_def built_parts Let_def upsert_facts_def upsert_node_on_def upsert_edge_on_def
      node_exists_on_def edge_at_def edge_key_def and_then_def empty_graph_def write_observation_def agent_name_def strip_prefix_def
      observation_edge_def starts_with_def built_graph_def artifact_node_def with_content_def node_new_def edge_new_def fresh_edge_def mem_edge.defs)
qed

lemma built_reachable: "memory_reachable built_graph"
  by (rule memory_next [OF memory_start mem_execution [OF built_ingested]])

definition built_evidence :: conformance_evidence where
  "built_evidence = (let i = ''execution:0123456789ab'' in \<lparr>ev_schema_version = 1, ev_task_id = Some ''t'', ev_agent_id = ''w'', ev_started_at = 0, ev_ended_at = 9,
     ev_changed_node_ids = [''artifact:a.rs''], ev_failed_node_ids = [], ev_execution_ids = [i], ev_successful_execution_ids = [i], ev_commit_ids = [],
     ev_ledger_act_ids = [], ev_summary = ''agent=w; executions=1; successful=1; commits=0; changed=1; failed=0'',
     ev_provenance = [\<lparr>ep_source_id = ''agent:w'', ep_target_id = i, ep_relation = ''observed''\<rparr>,
       \<lparr>ep_source_id = i, ep_target_id = ''artifact:a.rs'', ep_relation = ''modified''\<rparr>]\<rparr>)"

lemma built_evidence_for: "evidence_for (Some ''t'') ''w'' 0 9 built_graph = Inr built_evidence"
proof -
  have name: "agent_name ''w'' = ''w''" by code_simp
  have digits: "show_nat 0 = ''0''" "show_nat (Suc 0) = ''1''" by code_simp+
  have ok: "lines (''exit=0'' @ newline # ''ok'') = [''exit=0'', ''ok'']" by code_simp
  show ?thesis
    by (simp add: evidence_for_def name Let_def window_events_def attributed_events_def built_graph_def with_content_def node_new_def
        artifact_node_def fresh_edge_def mem_edge.defs edge_new_def EVIDENCE_MAX_EVENTS_def add_event_def open_event_def no_parts_def
        EVIDENCE_MAX_PROVENANCE_def event_facts_def provenance_of_def note_target_def succeeded_def ok [simplified] evidence_summary_def digits
        EVIDENCE_SCHEMA_VERSION_def built_evidence_def)
qed

text \<open>
  Nothing bounds the name of an agent, neither its ingestion nor the request for evidence, and the summary repeats it: the
  bundles of an agent with a name of more than 4096 bytes are all refused by the Intent plane.
\<close>

lemma long_agent_name_refused:
  assumes "evidence_for task_id raw t1 t2 g = Inr ev" and "MAX_EVIDENCE_SUMMARY_BYTES < length (agent_name raw)"
  shows "validate_evidence_shape ev = Inl (Invalid (Evidence EvidenceBounds))"
proof -
  note eq = evidence_for_Inr [OF assms(1)]
  have "MAX_EVIDENCE_SUMMARY_BYTES < length (ev_summary ev)"
    using assms(2) by (simp add: eq(3) evidence_summary_def)
  moreover note agent_name_blank [OF eq(2)]
  ultimately show ?thesis using eq(1) unfolding validate_evidence_shape_def by (simp add: eq(3))
qed

section \<open>Theorems\<close>

text \<open>C16. The two planes agree on evidence: whatever the sensors, the extractors and the agents have written, a bundle built by the
  memory plane passes the shape check of the Intent plane, on two conditions: its provenance is below the bound of a
  thousand facts, and the agent's name has at most 4000 bytes. Nothing enforces either: \<open>evidence_overflow\<close> and
  \<open>long_agent_name_refused\<close> show the bundles that are refused.\<close>

theorem evidence_passes_intent_plane:
  assumes "memory_reachable g" "evidence_for task_id raw_agent t1 t2 g = Inr ev" "length (ev_provenance ev) < EVIDENCE_MAX_PROVENANCE"
    "length (ev_agent_id ev) \<le> 4000"
  shows "validate_evidence_shape ev = Inr ()"
  using memory_reachable_keeps [OF assms(1)] by (blast intro: evidence_accepted assms(2-4))

theorem evidence_passes_intent_plane_witness: "validate_evidence_shape built_evidence = Inr ()"
  by (rule evidence_passes_intent_plane [OF built_reachable built_evidence_for])
    (simp_all add: built_evidence_def Let_def EVIDENCE_MAX_PROVENANCE_def)

text \<open>C21. Evidence is attributed: every execution and every commit of a bundle is a node of that type which the named agent observed and
  which was created in the window, at most two hundred of them, and every changed or failed node is the target of a
  recorded change or failure. Exactly the requests whose window ends before it starts or whose agent has an empty name
  are refused.\<close>

theorem evidence_is_attributed:
  assumes "memory_reachable g"
  shows "case evidence_for task_id raw_agent t1 t2 g of
       Inl _ \<Rightarrow> t2 < t1 \<or> agent_name raw_agent = []
     | Inr ev \<Rightarrow> t1 \<le> t2 \<and> agent_name raw_agent \<noteq> [] \<and> ev_agent_id ev = agent_name raw_agent \<and> ev_task_id ev = task_id \<and>
         length (ev_execution_ids ev) + length (ev_commit_ids ev) \<le> EVIDENCE_MAX_EVENTS \<and> length (ev_provenance ev) \<le> EVIDENCE_MAX_PROVENANCE \<and>
         (\<forall>i \<in> set (ev_execution_ids ev). attributed g (''agent:'' @ agent_name raw_agent) t1 t2 NodeExecution i) \<and>
         (\<forall>i \<in> set (ev_commit_ids ev). attributed g (''agent:'' @ agent_name raw_agent) t1 t2 NodeIntent i) \<and>
         (\<forall>t \<in> set (ev_changed_node_ids ev). \<exists>e \<in> set (mg_edges g). ed_target_id e = t \<and> ed_relation e \<in> {RelModified, RelRefactored}) \<and>
         (\<forall>t \<in> set (ev_failed_node_ids ev). \<exists>e \<in> set (mg_edges g). ed_target_id e = t \<and> ed_relation e = RelFailedOn)"
proof (cases "evidence_for task_id raw_agent t1 t2 g")
  case (Inl e)
  then show ?thesis by (auto simp: evidence_for_def Let_def split: if_splits)
next
  case (Inr ev)
  let ?a = "''agent:'' @ agent_name raw_agent"
  let ?b = "foldl (add_event g ?a) no_parts (window_events ?a t1 t2 g)"
  have "sourced g ?a t1 t2 ?b" by (rule events_sourced) (simp_all add: no_parts_def sourced_def)
  moreover have "parts_ok ?a EVIDENCE_MAX_EVENTS ?b" using memory_reachable_keeps [OF assms] by (intro evidence_parts_ok) simp
  moreover note evidence_for_Inr [OF Inr]
  ultimately show ?thesis by (simp add: Inr sourced_def parts_ok_def)
qed

theorem evidence_is_attributed_witness: "attributed built_graph ''agent:w'' 0 9 NodeExecution ''execution:0123456789ab''"
proof -
  have "agent_name ''w'' = ''w''" by code_simp
  then show ?thesis using evidence_is_attributed [OF built_reachable, where task_id = "Some ''t''" and raw_agent = "''w''" and ?t1.0 = 0 and ?t2.0 = 9]
    by (simp add: built_evidence_for) (simp add: built_evidence_def Let_def)
qed

end
