(* ===== verification/Spec2Isabelle.thy ===== *)
theory Spec2Isabelle
  imports Constitution_Cases Stalls Federated_Agreement Memory_Evidence
begin

text \<open>
  \<^bold>\<open>A verification of the Intent Plane (Lodestar) of MindLeak, of its claim authority and of its memory\<close>

  MindLeak keeps two planes beside a repository that agents work on: an episodic memory,
  \<^verbatim>\<open>crates/mindleak-core\<close>, which records what was run, committed and read, and the
  Intent Plane, \<^verbatim>\<open>crates/lodestar-core\<close>, which holds the constitution (goals, principles, locks),
  the ledger of tasks the agents share, and the conformance engine that decides whether a piece of
  work may be called done. When several clones of a repository share their tasks, a server, Ackplane,
  decides their claims. The memory gives the Intent Plane the evidence its verdicts rest on. This library models
  the Intent Plane, the claim path through Ackplane, the signatures of all Ackplane requests and the memory's way
  from a write to evidence, and proves what makes them correct.
  Paths below are relative to \<^verbatim>\<open>src/crates/lodestar-core/src\<close> unless they name another crate.

  \<^bold>\<open>Parts and theories\<close>

  \<^item> \<open>Prelude\<close>: results as sums, Rust's string functions on bytes, decimal rendering, sorting with
    removal of duplicates, the interfaces \<open>ordered_map\<close> (interpreted by the model of \<^verbatim>\<open>BTreeMap\<close>)
    and \<open>tagged_enum\<close> (every enumeration stored as text), and the proof collections.
  \<^item> \<open>Lodestar_Model\<close>: \<^verbatim>\<open>model/\<close>, the records and enumerations of tasks, events, evidence windows,
    dialogue, clauses, evidence and verdicts, with their stored tags and JSON details.
  \<^item> \<open>Session_Registry\<close>: crate \<^verbatim>\<open>mindleak-session\<close>, declared contexts and session identity.
  \<^item> \<open>Task_Store\<close>: \<^verbatim>\<open>store/events.rs\<close>, \<^verbatim>\<open>store/coordination/mod.rs\<close>. The state of the plane is the
    record \<open>ledger\<close>, one field per SQLite table; \<open>event_append\<close> and \<open>event_record\<close> are the only
    writers of the log; \<open>project_tasks\<close> replays it; \<open>claim_window_on\<close> folds the evidence window;
    \<open>import_genesis\<close> covers rows that predate the log. The invariants \<open>logged\<close> (replay gives the
    table) and \<open>ledger_ok\<close> and the contracts of an operation, the locales \<open>logged_operation\<close> and
    \<open>ledger_operation\<close>, are stated here and interpreted for each operation in its own theory.
  \<^item> \<open>Task_Claim\<close>: \<^verbatim>\<open>store/coordination/claim.rs\<close> with its modules and \<^verbatim>\<open>store/fleet.rs\<close>: the claim
    compare-and-swap, renewal, heartbeat, release, overlap, federated projections.
  \<^item> \<open>Task_Transitions\<close>: \<^verbatim>\<open>store/coordination/transitions.rs\<close>: block, reopen, abandon, resolve, the
    opening of a gated successor, and the validation of a dependency (a recursive SQL query).
  \<^item> \<open>Task_Questions\<close>: \<^verbatim>\<open>store/coordination/questions.rs\<close>: ask, answer, pause, resume, inboxes.
  \<^item> \<open>Task_Creation\<close>: \<^verbatim>\<open>store/coordination/creation.rs\<close>, \<^verbatim>\<open>util.rs\<close>: creation, coverage, slugs.
  \<^item> \<open>Task_Conformance\<close>: \<^verbatim>\<open>store/coordination/conformance.rs\<close>: audits and the transition they allow.
  \<^item> \<open>Claim_Transfer\<close>: \<^verbatim>\<open>store/claim_transfer.rs\<close>: recovery of stranded claims and the walk back to
    the window that authorised the work.
  \<^item> \<open>Task_Queries\<close>: \<^verbatim>\<open>store/coordination/query.rs\<close>: the board and its diagnosis.
  \<^item> \<open>Task_Machine\<close>: all operations of the task ledger as one step relation \<open>task_step\<close> with its reachable
    ledgers; the contract \<open>respectful_operation\<close> (no running claim is taken) is interpreted for each step.
  \<^item> \<open>Controls\<close>: \<^verbatim>\<open>scope.rs\<close>, \<^verbatim>\<open>controls/\<close>, \<^verbatim>\<open>store/controls.rs\<close>: scopes, controls, ratchets.
  \<^item> \<open>Waivers\<close>: \<^verbatim>\<open>waiver.rs\<close>, \<^verbatim>\<open>store/waivers.rs\<close>, \<^verbatim>\<open>facade/waivers.rs\<close>.
  \<^item> \<open>Knowledge\<close>: \<^verbatim>\<open>decay.rs\<close>, \<^verbatim>\<open>model/knowledge.rs\<close>, \<^verbatim>\<open>store/knowledge.rs\<close>, \<^verbatim>\<open>facade/knowledge.rs\<close>; the
    contract \<open>lesson_operation\<close> (retirement is final) is interpreted for each writer.
  \<^item> \<open>Conformance_Engine\<close> and \<open>Certification\<close>: \<^verbatim>\<open>facade/conformance/\<close>, which composes all of the
    above: governing clauses, evidence, verdict, token, \<open>check_drift\<close>, \<open>finish_task\<close>, and the
    certification status of a task.
  \<^item> \<open>Constitution\<close>: \<^verbatim>\<open>store/goals.rs\<close>, \<^verbatim>\<open>facade/constitution/\<close>, \<^verbatim>\<open>discovery.rs\<close>. The record
    \<open>constitution\<close> joins the ledger and the policy tables with packs, proposals, cited facts and
    amendments; clauses, versions, activation, supersession, imports, contracts and bindings act on it.
  \<^item> \<open>Policy_Packs\<close> and \<open>Pack_Review\<close>: \<^verbatim>\<open>policy.rs\<close>, \<^verbatim>\<open>store/policy_packs/\<close>: validation, the two packs that
    ship with the program, registration, proposal and review, and that a review is final.
  \<^item> \<open>Amendments\<close>: \<^verbatim>\<open>amendment.rs\<close>, \<^verbatim>\<open>store/amendments.rs\<close>, \<^verbatim>\<open>facade/amendments.rs\<close>: the difference of two
    versions, drafting, and the promotion that carries controls, bindings and tasks along.
  \<^item> \<open>Constitution_Machine\<close>: these operations as one step relation \<open>constitution_step\<close> whose task
    steps are those of \<open>task_step\<close>, with the clearing of the store (\<^verbatim>\<open>store/lifecycle.rs\<close>); the contracts \<open>constitution_operation\<close> and
    \<open>constitution_transaction\<close> are interpreted for each.
  \<^item> \<open>Constitution_Cases\<close>: where supersession and amendment depart from what their comments promise,
    and the concrete constitutions of the witnesses.
  \<^item> \<open>Fleet\<close>: \<^verbatim>\<open>fleet.rs\<close>, \<^verbatim>\<open>facade/fleet.rs\<close>: presence and staleness of sessions, divergence, the search for
    agents that wait on each other, and the waits nobody is going to answer.
  \<^item> \<open>Stalls\<close>: \<^verbatim>\<open>stalls.rs\<close> and its views in \<^verbatim>\<open>facade/executive/board.rs\<close>: why a task does not move, and
    which of them an agent can rescue.
  \<^item> \<open>Signing_Bytes\<close>: crate \<^verbatim>\<open>ackplane-protocol\<close>, the bytes each kind of request is signed over, with
    \<^verbatim>\<open>envelope_signature.rs\<close> and \<^verbatim>\<open>enrollment.rs\<close> of \<^verbatim>\<open>ackplane-server\<close>. The interfaces \<open>prefix_code\<close> (a code whose words
    can be split off) and \<open>counted\<close> are interpreted for lengths, fields, texts, lists, vectors and measurements.
  \<^item> \<open>Ackplane_Claims\<close>: \<^verbatim>\<open>ackplane-server/src/claim_store/\<close>, \<^verbatim>\<open>claim_service/\<close>, \<^verbatim>\<open>claim_signature.rs\<close> and
    \<^verbatim>\<open>signing_keys.rs\<close>: the record \<open>claim_server\<close> has one field per table, \<open>serve\<close> is the entry to the six procedures
    that change a claim, \<open>claim_step\<close> the machine they make with the key registry. The contract
    \<open>lease_transaction\<close> is interpreted for delegation, release, renewal, parking, answer and recovery.
  \<^item> \<open>Federated_Claims\<close>: \<^verbatim>\<open>facade/executive/\<close>, \<^verbatim>\<open>lodestar-mcp/src/federation.rs\<close>, the node's companion and the
    client's signatures: the way of a call from the facade to the authority and back into the ledger.
    \<open>granting_transaction\<close> extends \<open>lease_transaction\<close> by what a grant says; \<open>row_projection\<close> is the
    contract of the six projections.
  \<^item> \<open>Federated_Agreement\<close> and \<open>Ackplane_Cases\<close>: where the authority and the local compare-and-swap agree and
    where they do not, and concrete runs.
  \<^item> \<open>Memory_Graph\<close>: \<^verbatim>\<open>model.rs\<close>, \<^verbatim>\<open>schema.sql\<close>, \<^verbatim>\<open>graph/writes.rs\<close> and \<^verbatim>\<open>graph/lifecycle.rs\<close> of \<^verbatim>\<open>mindleak-core\<close>. The record
    \<open>mem_graph\<close> has one field per table; the contract \<open>graph_operation\<close> (what the tables promise is kept) is
    interpreted for batches of facts, observations and structure replacements; \<open>graph_step\<close> is the machine of the writers.
  \<^item> \<open>Memory_Ingest\<close>: \<^verbatim>\<open>ingest/\<close>, \<^verbatim>\<open>consolidate.rs\<close> and \<^verbatim>\<open>facade/query.rs\<close> of \<^verbatim>\<open>mindleak-core\<close>: executions, commits, tool
    calls, summaries and decisions. \<open>seam_operation\<close> extends \<open>graph_operation\<close> by the convention the
    evidence relies on and is interpreted for each sensor; \<open>memory_step\<close> is their machine.
  \<^item> \<open>Memory_Evidence\<close>: \<^verbatim>\<open>graph/evidence.rs\<close> of \<^verbatim>\<open>mindleak-core\<close>, the bundle of evidence, composed with the shape check of
    \<open>Conformance_Engine\<close>.

  \<^bold>\<open>How it is modelled\<close>

  Every operation of the store runs in one transaction: it maps a ledger to an error, which stands
  for the rolled-back transaction, or to a result with the committed ledger. A call of the facade that
  is several transactions (drafting a constitution or an amendment) returns a state with every result,
  errors included, since what was committed before the failure stays. Errors are the values
  of the datatype of \<^verbatim>\<open>error.rs\<close>. Timestamps are \<^verbatim>\<open>i64\<close> seconds supplied by the caller and modelled
  as \<^typ>\<open>int\<close>: the end of a lease, \<open>now + lease_secs\<close>, is taken to be in range in claims, renewals, heartbeats,
  resumptions and recoveries, where the code adds two \<^verbatim>\<open>i64\<close> and bounds neither; the discriminator of a new
  task identifier is a \<^typ>\<open>nat\<close> where the code counts in \<^verbatim>\<open>u32\<close>. The details of events are JSON
  values; the code writes the audience of a question into its text without escaping it. The \<^verbatim>\<open>f64\<close>
  weights are reals, with the rounding of a subtraction a parameter. Strings are byte lists. Rows with
  equal sort keys come in table order. What the code takes from other crates
  is a parameter of the definitions: glob matching, SHA-256 and the short hashes, serde's parsing
  and rendering, the semantic judge. Two loops have no bound in the source, the walk back along
  transfers and the search for an unused task identifier: both are partial functions into option,
  \<^term>\<open>None\<close> standing for a run that never returns, and both have a theorem that they do return
  under stated conditions (and, for the walk, one that it can fail to). No definition uses fuel.

  The server's instants are microseconds, the resolution of its database (the clock it compares them with
  has nanoseconds), and the signed integers of the wire are words of their width. A procedure of the server returns a state with every result, since the nonce
  of a refused request stays consumed. Ed25519, the RFC 3339 parser and formatter, clocks, nonces and
  whether a request and its reply arrive are parameters; the facts assumed of them (that what verifies was signed,
  that a formatted instant parses to itself, that instants up to the year 9999 can be formatted) are hypotheses of the theorems
  that need them. The memory plane's graph is written by transactions in the same way; SHA-256 and its regular
  expressions are parameters, and what the extractors of structure emit is bounded by the hypothesis
  \<open>structural_facts\<close> of a step. The race of two first delegations is the argument \<open>rival\<close> of \<open>delegate_racing\<close>.

  \<^bold>\<open>What is shown\<close>

  The claim protocol: who wins a claim and what exactly is written, that a running lease excludes
  everyone else under every operation, that windows and lapses are accounted, that parking keeps
  the claim. The ledger: replay of the log gives the table in every reachable state, handoffs stay
  acyclic and one to one, no gated task is stranded and every task can be ended. The engine: what
  an aligned verdict rests on, that completion needs a current, matching, stored check, that a fresh
  check always completes, that knowledge only informs, when a task is certified. The constitution: at
  most one version governs, and what governs beside it is only the replacement of a clause superseded on
  its own, what an amendment needs and does, that it carries live work along when no clause was
  superseded so before, that its difference is exact, and that a
  review decides once. The policy
  components: control ceilings, waiver selection, scope coverage, lesson decay and retirement. The
  fleet: wait cycles are exactly the strongly connected components of the wait relation, which waits
  are stale, that nothing stalls unseen and that what is offered for rescue can be claimed. The
  authority: its books are sound in every reachable state, a running or parked claim is exclusive,
  what it grants was signed by the node it grants it to, no signature works twice, and no signature for one
  request is one for another. Federation: a call that asks the authority records in the ledger only what it
  granted, which calls do not ask, and under which conditions the authority decides as the local
  compare-and-swap does. The memory: its tables stay sound under batches of facts, observations, structure
  replacements, forgotten files, boosts and lease changes, replacing the structure of a file that no stub
  awaits and forgetting a file do exactly that, and the evidence it builds is attributed and accepted by the
  Intent Plane, up to bounds on its provenance and on the name of the agent past which it is refused. A few theorems exhibit behaviour that differs from what comments promise.

  \<^bold>\<open>Not modelled\<close>

  The schema and its migrations, Git and file readers, statistics and backups (input and output);
  the embedding index; the MCP servers and command lines (argument decoding); of Ackplane the transport,
  the event ledger and its projections, enrolment, knowledge, evidence, telemetry and the dashboard, whose requests
  are modelled only as far as they are signed; of the memory plane the traversals and other reads, the decay,
  pruning and promotion of signals, the repair of paths, commits and duplicate identities, its reset and its
  digests, which write the graph outside the machines \<open>graph_step\<close> and \<open>memory_step\<close>, and the extractors
  that read structure from source text.
\<close>

end
